(* ===== verification/Go_Prelude.thy ===== *)
theory Go_Prelude
  imports Main "HOL-Library.AList" "HOL-Library.Sublist" "HOL-Library.Multiset" "HOL-Library.List_Lexorder" "HOL-Library.Char_ord"
begin

text \<open>
  Shared vocabulary of the development: how Go values are represented, the result-and-state
  convention of the stateful components, Go maps as association lists, and the generic
  interfaces (locales) the components are instances of.

  Go strings and byte slices are lists of bytes, that is \<open>string\<close> (a \<open>char\<close> is a byte).
  Go \<open>int\<close> and \<open>int64\<close> values are \<open>int\<close>; every counter of the modelled code is guarded by a
  comparison written so that it cannot overflow, and the bounds theorems of the components
  show that the counters stay between zero and the configured limit.
\<close>

named_theorems go_simps \<open>unfolding rules of the Go library functions\<close>
named_theorems keeps_intro \<open>introduction rules for preserved predicates\<close>

section \<open>Values\<close>

type_synonym gostring = string
type_synonym gobytes = string

abbreviation len :: "'a list \<Rightarrow> int" where
  "len xs \<equiv> int (length xs)"

abbreviation byte :: "char \<Rightarrow> nat" where
  "byte c \<equiv> of_char c"

text \<open>\<open>strings.HasPrefix\<close> and \<open>strings.HasSuffix\<close>.\<close>

definition HasPrefix :: "gostring \<Rightarrow> gostring \<Rightarrow> bool" where
  "HasPrefix s p = (take (length p) s = p)"

definition HasSuffix :: "gostring \<Rightarrow> gostring \<Rightarrow> bool" where
  "HasSuffix s p = HasPrefix (rev s) (rev p)"

lemma HasPrefix_iff [go_simps]: "HasPrefix s p \<longleftrightarrow> prefix p s"
  by (auto simp: HasPrefix_def prefix_def) (metis append_take_drop_id)

lemma HasSuffix_iff [go_simps]: "HasSuffix s p \<longleftrightarrow> suffix p s"
  by (simp add: HasSuffix_def HasPrefix_iff suffix_to_prefix)

text \<open>
  \<open>strings.TrimSpace\<close>: white space as \<open>unicode.IsSpace\<close> has it, given by the UTF-8 encodings
  of the white-space runes. An encoding at either end of the string is recognised by its bytes
  alone, since the decoder of Go looks at no more than the bytes of one rune.
\<close>

definition space_encodings :: "gostring list" where
  "space_encodings =
     [[CHR 0x09], [CHR 0x0A], [CHR 0x0B], [CHR 0x0C], [CHR 0x0D], [CHR 0x20],
      [CHR 0xC2, CHR 0x85], [CHR 0xC2, CHR 0xA0],
      [CHR 0xE1, CHR 0x9A, CHR 0x80],
      [CHR 0xE2, CHR 0x80, CHR 0x80], [CHR 0xE2, CHR 0x80, CHR 0x81], [CHR 0xE2, CHR 0x80, CHR 0x82],
      [CHR 0xE2, CHR 0x80, CHR 0x83], [CHR 0xE2, CHR 0x80, CHR 0x84], [CHR 0xE2, CHR 0x80, CHR 0x85],
      [CHR 0xE2, CHR 0x80, CHR 0x86], [CHR 0xE2, CHR 0x80, CHR 0x87], [CHR 0xE2, CHR 0x80, CHR 0x88],
      [CHR 0xE2, CHR 0x80, CHR 0x89], [CHR 0xE2, CHR 0x80, CHR 0x8A],
      [CHR 0xE2, CHR 0x80, CHR 0xA8], [CHR 0xE2, CHR 0x80, CHR 0xA9], [CHR 0xE2, CHR 0x80, CHR 0xAF],
      [CHR 0xE2, CHR 0x81, CHR 0x9F], [CHR 0xE3, CHR 0x80, CHR 0x80]]"

definition leading_space :: "gostring list \<Rightarrow> gostring \<Rightarrow> nat" where
  "leading_space encs s = (case List.find (HasPrefix s) encs of None \<Rightarrow> 0 | Some w \<Rightarrow> length w)"

function trim_with :: "gostring list \<Rightarrow> gostring \<Rightarrow> gostring" where
  "trim_with encs s =
     (let n = leading_space encs s in if n = 0 \<or> s = [] then s else trim_with encs (drop n s))"
  by pat_completeness auto
termination
  by (relation "measure (\<lambda>(encs, s). length s)") auto

declare trim_with.simps [simp del]

definition TrimSpace :: "gostring \<Rightarrow> gostring" where
  "TrimSpace s = rev (trim_with (map rev space_encodings) (rev (trim_with space_encodings s)))"

text \<open>
  \<open>strings.ToLower\<close>, as far as a comparison with an ASCII word can observe it: ASCII letters,
  and the two runes outside ASCII whose lower case is ASCII (U+0130 to i, U+212A to k).
\<close>

fun ToLower :: "gostring \<Rightarrow> gostring" where
  "ToLower [] = []"
| "ToLower (c # cs) =
     (if 65 \<le> byte c \<and> byte c \<le> 90 then char_of (byte c + 32) # ToLower cs
      else case cs of
          d # ds \<Rightarrow>
            if c = CHR 0xC4 \<and> d = CHR 0xB0 then CHR ''i'' # ToLower ds
            else (case ds of
                e # es \<Rightarrow>
                  if c = CHR 0xE2 \<and> d = CHR 0x84 \<and> e = CHR 0xAA then CHR ''k'' # ToLower es
                  else c # ToLower cs
              | [] \<Rightarrow> c # ToLower cs)
        | [] \<Rightarrow> [c])"

text \<open>Sorting by a key permutes the list, so the keys stay distinct.\<close>

lemma distinct_sort_key: "distinct (map f xs) \<Longrightarrow> distinct (map f (sort_key f xs))"
proof -
  have "mset (map f (sort_key f xs)) = mset (map f xs)" by simp
  then show "distinct (map f xs) \<Longrightarrow> distinct (map f (sort_key f xs))"
    by (metis mset_eq_imp_distinct_iff)
qed

section \<open>Results and state\<close>

text \<open>
  A Go method that changes its receiver and returns an error is a function from the state to
  a result and the state it leaves behind: the state of an error return is kept, because the
  code keeps what it had written before it returned.
\<close>

type_synonym ('e, 'a, 's) go = "('e + 'a) \<times> 's"

definition go_bind :: "('e, 'a, 's) go \<Rightarrow> ('a \<Rightarrow> 's \<Rightarrow> ('e, 'b, 's) go) \<Rightarrow> ('e, 'b, 's) go" where
  "go_bind m f = (case m of (Inl e, s) \<Rightarrow> (Inl e, s) | (Inr x, s) \<Rightarrow> f x s)"

fun go_for :: "('a \<Rightarrow> 's \<Rightarrow> ('e, unit, 's) go) \<Rightarrow> 'a list \<Rightarrow> 's \<Rightarrow> ('e, unit, 's) go" where
  "go_for f [] s = (Inr (), s)"
| "go_for f (x # xs) s = go_bind (f x s) (\<lambda>_. go_for f xs)"

lemma go_bind_simps [simp]:
  "go_bind (Inl e, s) f = (Inl e, s)"
  "go_bind (Inr x, s) f = f x s"
  by (simp_all add: go_bind_def)

lemma go_bind_Inr_iff:
  "go_bind m f = (Inr y, t) \<longleftrightarrow> (\<exists>x s. m = (Inr x, s) \<and> f x s = (Inr y, t))"
  by (cases m; cases "fst m") auto

lemma go_bind_cases:
  assumes "go_bind m f = (r, t)"
  obtains (err) e where "m = (Inl e, t)" "r = Inl e"
  | (ok) x s where "m = (Inr x, s)" "f x s = (r, t)"
  using assms by (cases m; cases "fst m") auto

lemma go_bind_cong [fundef_cong]:
  "m = m' \<Longrightarrow> (\<And>x s. m' = (Inr x, s) \<Longrightarrow> f x s = g x s) \<Longrightarrow> go_bind m f = go_bind m' g"
  by (cases m'; cases "fst m'") auto

text \<open>The error of a call, when only that is looked at.\<close>

definition go_error :: "('e, 'a, 's) go \<Rightarrow> 'e option" where
  "go_error m = (case fst m of Inl e \<Rightarrow> Some e | Inr _ \<Rightarrow> None)"

lemma go_error_None_iff: "go_error m = None \<longleftrightarrow> (\<exists>x s. m = (Inr x, s))"
  by (cases m; cases "fst m") (auto simp: go_error_def)

lemma go_error_bind_None:
  "go_error (go_bind m f) = None \<longleftrightarrow> (\<exists>x s. m = (Inr x, s) \<and> go_error (f x s) = None)"
  by (cases m; cases "fst m") (auto simp: go_error_def)

lemma go_for_append:
  "go_for f (xs @ ys) s = go_bind (go_for f xs s) (\<lambda>_. go_for f ys)"
  by (induction xs arbitrary: s) (auto simp: go_bind_def split: prod.split sum.split)

text \<open>
  A predicate on states is kept by an operation when it holds of the state the operation
  leaves behind, whatever the result.
\<close>

definition keeps :: "('s \<Rightarrow> bool) \<Rightarrow> ('s \<Rightarrow> ('e, 'a, 's) go) \<Rightarrow> bool" where
  "keeps P f = (\<forall>s. P s \<longrightarrow> P (snd (f s)))"

lemma keepsI: "(\<And>s. P s \<Longrightarrow> P (snd (f s))) \<Longrightarrow> keeps P f"
  by (simp add: keeps_def)

lemma keepsD: "keeps P f \<Longrightarrow> P s \<Longrightarrow> P (snd (f s))"
  by (simp add: keeps_def)

lemma keeps_bind [keeps_intro]:
  assumes "P (snd m)" and "\<And>x s. m = (Inr x, s) \<Longrightarrow> P s \<Longrightarrow> P (snd (f x s))"
  shows "P (snd (go_bind m f))"
  using assms by (cases m; cases "fst m") auto

lemma keeps_for [keeps_intro]:
  assumes "P s" and "\<And>x s. x \<in> set xs \<Longrightarrow> P s \<Longrightarrow> P (snd (f x s))"
  shows "P (snd (go_for f xs s))"
  using assms
proof (induction xs arbitrary: s)
  case (Cons x xs)
  have step: "P (snd (f x s))" using Cons.prems by simp
  show ?case
  proof (cases "f x s")
    case (Pair r t)
    have "P (snd (go_for f xs t))" if "P t" using that Cons.prems(2) by (intro Cons.IH) simp_all
    with Pair step show ?thesis by (cases r) simp_all
  qed
qed simp

section \<open>Go maps\<close>

text \<open>
  The interface the components use of a Go map: what a lookup returns after a store and after
  a deletion, and that the keys are listed once each. Go leaves the order of \<open>range\<close> over a map
  open; operations whose result could depend on it take the order as an argument.
\<close>

locale go_map =
  fixes get :: "'m \<Rightarrow> 'k \<Rightarrow> 'v option"
    and put :: "'k \<Rightarrow> 'v \<Rightarrow> 'm \<Rightarrow> 'm"
    and del :: "'k \<Rightarrow> 'm \<Rightarrow> 'm"
    and keys :: "'m \<Rightarrow> 'k list"
    and ok :: "'m \<Rightarrow> bool"
  assumes get_put: "ok m \<Longrightarrow> get (put k v m) = (get m)(k \<mapsto> v)"
    and get_del: "ok m \<Longrightarrow> get (del k m) = (get m)(k := None)"
    and ok_put: "ok m \<Longrightarrow> ok (put k v m)"
    and ok_del: "ok m \<Longrightarrow> ok (del k m)"
    and keys_dom: "ok m \<Longrightarrow> set (keys m) = dom (get m)"
    and keys_distinct: "ok m \<Longrightarrow> distinct (keys m)"
begin

lemma size_put:
  assumes "ok m"
  shows "length (keys (put k v m)) = (if get m k = None then Suc (length (keys m)) else length (keys m))"
proof -
  have "length (keys (put k v m)) = card (insert k (set (keys m)))"
    using assms distinct_card [OF keys_distinct [OF ok_put [OF assms, of k v]]]
    by (simp add: keys_dom ok_put get_put)
  moreover have "k \<in> set (keys m) \<longleftrightarrow> get m k \<noteq> None"
    using assms by (auto simp: keys_dom)
  moreover have "card (set (keys m)) = length (keys m)"
    using assms by (simp add: distinct_card keys_distinct)
  ultimately show ?thesis by (auto simp: card_insert_if)
qed

lemma size_del:
  assumes "ok m"
  shows "length (keys (del k m)) \<le> length (keys m)"
proof -
  have "length (keys (del k m)) = card (set (keys m) - {k})"
    using assms distinct_card [OF keys_distinct [OF ok_del [OF assms, of k]]]
    by (simp add: keys_dom ok_del get_del)
  also have "\<dots> \<le> card (set (keys m))" by (rule card_mono) auto
  also have "\<dots> = length (keys m)" using assms by (simp add: distinct_card keys_distinct)
  finally show ?thesis .
qed

end

type_synonym ('k, 'v) gomap = "('k \<times> 'v) list"

abbreviation map_put :: "'k \<Rightarrow> 'v \<Rightarrow> ('k, 'v) gomap \<Rightarrow> ('k, 'v) gomap" where
  "map_put \<equiv> AList.update"

abbreviation map_del :: "'k \<Rightarrow> ('k, 'v) gomap \<Rightarrow> ('k, 'v) gomap" where
  "map_del \<equiv> AList.delete"

abbreviation map_keys :: "('k, 'v) gomap \<Rightarrow> 'k list" where
  "map_keys m \<equiv> map fst m"

abbreviation map_ok :: "('k, 'v) gomap \<Rightarrow> bool" where
  "map_ok m \<equiv> distinct (map fst m)"

interpretation al: go_map map_of map_put map_del map_keys map_ok
proof unfold_locales
  fix m :: "('k, 'v) gomap" and k v
  show "map_of (map_put k v m) = (map_of m)(k \<mapsto> v)" by (rule AList.update_conv')
  show "map_of (map_del k m) = (map_of m)(k := None)" by (rule AList.delete_conv')
  show "set (map_keys m) = dom (map_of m)" by (simp add: dom_map_of_conv_image_fst)
  assume "map_ok m"
  then show "map_ok (map_put k v m)" "map_ok (map_del k m)" "distinct (map_keys m)"
    by (auto simp: distinct_update distinct_delete)
qed

lemmas gomap_simps [simp] = AList.update_conv' AList.delete_conv'

text \<open>Deletions and stores of several keys, and sums over the entries of a map.\<close>

lemma map_of_fold_del: "map_of (fold map_del ks m) = (\<lambda>k. if k \<in> set ks then None else map_of m k)"
  by (induction ks arbitrary: m) auto

lemma map_ok_fold_del: "map_ok m \<Longrightarrow> map_ok (fold map_del ks m)"
  by (induction ks arbitrary: m) (simp_all add: distinct_delete)

lemma map_of_fold_put: "map_of (fold (\<lambda>k. map_put k v) ks m) = (\<lambda>k. if k \<in> set ks then Some v else map_of m k)"
  by (induction ks arbitrary: m) auto

lemma map_ok_fold_put: "map_ok m \<Longrightarrow> map_ok (fold (\<lambda>k. map_put k v) ks m)"
  by (induction ks arbitrary: m) (simp_all add: distinct_update)

lemma map_del_None: "map_of m k = None \<Longrightarrow> map_del k m = m"
  by (induction m) (auto simp: AList.delete_eq split: if_splits)

lemma map_put_fresh: "map_of m k = None \<Longrightarrow> map_put k v m = m @ [(k, v)]"
  by (induction m) (auto split: if_splits)

lemma sum_map_del:
  fixes f :: "'k \<times> 'v \<Rightarrow> int"
  assumes "map_ok m" "map_of m k = Some v"
  shows "sum_list (map f (map_del k m)) = sum_list (map f m) - f (k, v)"
  using assms
proof (induction m)
  case (Cons e m)
  obtain k' v' where e: "e = (k', v')" by (cases e)
  show ?case
  proof (cases "k' = k")
    case True
    then have "map_of m k = None" using Cons.prems(1) e by (auto simp: map_of_eq_None_iff)
    with True e Cons.prems(2) show ?thesis by (simp add: map_del_None)
  next
    case False
    with e Cons show ?thesis by simp
  qed
qed simp

lemma length_map_del_le: "length (map_del k m) \<le> length m"
  by (simp add: AList.length_delete_le)

lemma length_fold_del_le: "length (fold map_del ks m) \<le> length m"
  by (induction ks arbitrary: m) (auto intro: order_trans [OF _ length_map_del_le])

section \<open>Byte budgets\<close>

text \<open>
  Several components charge byte counts to a budget before they retain data: the reservation
  either fails and leaves the counter alone, or moves it by exactly the amount charged, and
  it fails exactly when the amount does not fit. A sequence of reservations therefore charges
  the sum of its amounts and never passes the limit.
\<close>

locale byte_budget =
  fixes reserve :: "int \<Rightarrow> 's \<Rightarrow> ('e, unit, 's) go"
    and used :: "'s \<Rightarrow> int"
    and cap :: "'s \<Rightarrow> int"
  assumes reserve_ok: "reserve n s = (Inr (), t) \<Longrightarrow> used t = used s + n \<and> cap t = cap s"
    and reserve_err: "reserve n s = (Inl e, t) \<Longrightarrow> used t = used s \<and> cap t = cap s"
    and reserve_iff: "0 \<le> used s \<Longrightarrow> used s \<le> cap s \<Longrightarrow>
      (\<exists>t. reserve n s = (Inr (), t)) \<longleftrightarrow> 0 \<le> n \<and> used s + n \<le> cap s"
begin

lemma reserve_within:
  assumes "0 \<le> used s" "used s \<le> cap s"
  shows "0 \<le> used (snd (reserve n s)) \<and> used (snd (reserve n s)) \<le> cap (snd (reserve n s))"
proof (cases "reserve n s")
  case (Pair r t)
  show ?thesis
  proof (cases r)
    case (Inl e)
    with Pair assms show ?thesis using reserve_err by fastforce
  next
    case (Inr u)
    with Pair have "reserve n s = (Inr (), t)" by simp
    with assms show ?thesis using reserve_ok [of n s t] reserve_iff [of s n] by auto
  qed
qed

lemma reserve_all:
  assumes "0 \<le> used s" "used s \<le> cap s" "go_for reserve ns s = (Inr (), t)"
  shows "used t = used s + sum_list ns \<and> cap t = cap s \<and> used t \<le> cap t"
  using assms
proof (induction ns arbitrary: s)
  case (Cons n ns)
  from Cons.prems(3) obtain u where u: "reserve n s = (Inr (), u)" "go_for reserve ns u = (Inr (), t)"
    by (auto simp: go_bind_Inr_iff)
  have "0 \<le> used u" "used u \<le> cap u"
    using reserve_within [OF Cons.prems(1,2), of n] u(1) by simp_all
  from Cons.IH [OF this u(2)] show ?case using reserve_ok [OF u(1)] by simp
qed simp

end

section \<open>Outcomes\<close>

text \<open>What holds of a result: one predicate for success and one for failure, both with the state left behind.\<close>

definition yields :: "('e, 'a, 's) go \<Rightarrow> ('a \<Rightarrow> 's \<Rightarrow> bool) \<Rightarrow> ('e \<Rightarrow> 's \<Rightarrow> bool) \<Rightarrow> bool" where
  "yields m Q E \<longleftrightarrow> (case m of (Inl e, t) \<Rightarrow> E e t | (Inr x, t) \<Rightarrow> Q x t)"

lemma yields_simps [simp]: "yields (Inl e, t) Q E = E e t" "yields (Inr x, t) Q E = Q x t"
  by (simp_all add: yields_def)

lemma yields_bind:
  assumes "yields m Q E" "\<And>x t. Q x t \<Longrightarrow> yields (f x t) R E"
  shows "yields (go_bind m f) R E"
  using assms by (cases m; cases "fst m") auto

lemma yields_mono:
  assumes "yields m Q E" "\<And>x t. Q x t \<Longrightarrow> Q' x t" "\<And>e t. E e t \<Longrightarrow> E' e t"
  shows "yields m Q' E'"
  using assms by (auto simp: yields_def split: sum.splits)

lemma yields_for:
  assumes "Q s" "\<And>x t. x \<in> set xs \<Longrightarrow> Q t \<Longrightarrow> yields (f x t) (\<lambda>_. Q) E"
  shows "yields (go_for f xs s) (\<lambda>_. Q) E"
  using assms
proof (induction xs arbitrary: s)
  case (Cons x xs)
  then have "yields (f x s) (\<lambda>_. Q) E" by simp
  moreover have "yields (go_for f xs t) (\<lambda>_. Q) E" if "Q t" for t using Cons that by simp
  ultimately show ?case by (simp add: yields_bind)
qed simp

lemma yields_snd: "yields m (\<lambda>_. P) (\<lambda>_. P) \<longleftrightarrow> P (snd m)"
  by (auto simp: yields_def split: sum.splits prod.splits)

text \<open>A limit that is not positive stands for its default.\<close>

definition positive_or :: "int \<Rightarrow> int \<Rightarrow> int" where
  "positive_or value fallback = (if value \<le> 0 then fallback else value)"

text \<open>An empty string stands for its default.\<close>

definition or_text :: "gostring \<Rightarrow> gostring \<Rightarrow> gostring" where
  "or_text value fallback = (if value = [] then fallback else value)"

section \<open>Fallible values\<close>

text \<open>Functions that return a value or an error: sequencing, and a loop that stops at the first error.\<close>

definition attempt :: "'e + 'a \<Rightarrow> ('a \<Rightarrow> 'e + 'b) \<Rightarrow> 'e + 'b" where
  "attempt m f = (case m of Inl e \<Rightarrow> Inl e | Inr x \<Rightarrow> f x)"

fun map_all :: "('a \<Rightarrow> 'e + 'b) \<Rightarrow> 'a list \<Rightarrow> 'e + 'b list" where
  "map_all f [] = Inr []"
| "map_all f (x # xs) = attempt (f x) (\<lambda>y. attempt (map_all f xs) (\<lambda>ys. Inr (y # ys)))"

lemma attempt_simps [simp]: "attempt (Inl e) f = Inl e" "attempt (Inr x) f = f x"
  by (simp_all add: attempt_def)

lemma attempt_Inr_iff [go_simps]: "attempt m f = Inr y \<longleftrightarrow> (\<exists>x. m = Inr x \<and> f x = Inr y)"
  by (cases m) auto

lemma attempt_assoc: "attempt (attempt m f) g = attempt m (\<lambda>x. attempt (f x) g)"
  by (cases m) auto

lemma map_all_append: "map_all f (xs @ ys) = attempt (map_all f xs) (\<lambda>us. attempt (map_all f ys) (\<lambda>vs. Inr (us @ vs)))"
proof (induction xs)
  case Nil
  show ?case by (cases "map_all f ys") auto
next
  case (Cons x xs)
  then show ?case by (cases "f x"; cases "map_all f xs"; cases "map_all f ys") auto
qed

lemma map_all_Inr_iff: "map_all f xs = Inr ys \<longleftrightarrow> list_all2 (\<lambda>x y. f x = Inr y) xs ys"
  by (induction xs arbitrary: ys) (auto simp: attempt_Inr_iff list_all2_Cons1)

lemma map_all_cong: "(\<And>x. x \<in> set xs \<Longrightarrow> f x = g x) \<Longrightarrow> map_all f xs = map_all g xs"
  by (induction xs) simp_all

section \<open>State machines\<close>

text \<open>
  A component seen from outside is a set of start states and a step relation. An invariant
  that holds at the start and is kept by every step holds in every reachable state.
\<close>

inductive reachable :: "('s \<Rightarrow> bool) \<Rightarrow> ('s \<Rightarrow> 's \<Rightarrow> bool) \<Rightarrow> 's \<Rightarrow> bool"
  for start :: "'s \<Rightarrow> bool" and step :: "'s \<Rightarrow> 's \<Rightarrow> bool" where
  reach_start: "start s \<Longrightarrow> reachable start step s"
| reach_step: "reachable start step s \<Longrightarrow> step s t \<Longrightarrow> reachable start step t"

locale invariant_system =
  fixes start :: "'s \<Rightarrow> bool" and step :: "'s \<Rightarrow> 's \<Rightarrow> bool" and inv :: "'s \<Rightarrow> bool"
  assumes inv_start: "start s \<Longrightarrow> inv s"
    and inv_step: "step s t \<Longrightarrow> inv s \<Longrightarrow> inv t"
begin

lemma inv_reachable: "reachable start step s \<Longrightarrow> inv s"
  by (induction rule: reachable.induct) (auto intro: inv_start inv_step)

lemma inv_steps: "step\<^sup>*\<^sup>* s t \<Longrightarrow> inv s \<Longrightarrow> inv t"
  by (induction rule: rtranclp_induct) (auto intro: inv_step)

end

end
