(* ===== verification/Bridge.thy ===== *)
theory Bridge
  imports Go_Prelude
begin

text \<open>
  The provider-neutral package \<open>internal/bridge\<close>: limits, the request and input unions, the
  semantic stream events, and the request-scoped tool registry. Go's string-typed enumerations
  stay strings, since their values arrive from outside and the code compares them with the empty
  string; unions become datatypes with one constructor per Go struct.
\<close>

section \<open>Limits (limits.go)\<close>

definition DefaultMaxInputItems :: int where "DefaultMaxInputItems = 256"
definition DefaultMaxCollectionItems :: int where "DefaultMaxCollectionItems = 256"
definition DefaultMaxJSONDepth :: int where "DefaultMaxJSONDepth = 64"
definition DefaultMaxJSONTokens :: int where "DefaultMaxJSONTokens = 2 ^ 20"
definition DefaultMaxProviderTools :: int where "DefaultMaxProviderTools = 128"
definition DefaultMaxFunctionTools :: int where "DefaultMaxFunctionTools = DefaultMaxProviderTools"
definition DefaultMaxFunctionSchemaBytes :: int where "DefaultMaxFunctionSchemaBytes = 256 * 2 ^ 10"
definition DefaultMaxToolCallArgumentBytes :: int where "DefaultMaxToolCallArgumentBytes = 2 ^ 20"
definition DefaultMaxStreamToolCalls :: int where "DefaultMaxStreamToolCalls = 128"
definition DefaultMaxStreamChoices :: int where "DefaultMaxStreamChoices = 16"
definition DefaultMaxToolNameBytes :: int where "DefaultMaxToolNameBytes = 64"
definition DefaultMaxProviderCallIDBytes :: int where "DefaultMaxProviderCallIDBytes = 256"
definition DefaultMaxOutputBytes :: int where "DefaultMaxOutputBytes = 16 * 2 ^ 20"
definition DefaultMaxTextBytes :: int where "DefaultMaxTextBytes = 8 * 2 ^ 20"
definition DefaultMaxReasoningBytes :: int where "DefaultMaxReasoningBytes = 8 * 2 ^ 20"

lemmas bridge_limits =
  DefaultMaxInputItems_def DefaultMaxCollectionItems_def DefaultMaxJSONDepth_def
  DefaultMaxJSONTokens_def DefaultMaxProviderTools_def DefaultMaxFunctionTools_def
  DefaultMaxFunctionSchemaBytes_def DefaultMaxToolCallArgumentBytes_def
  DefaultMaxStreamToolCalls_def DefaultMaxStreamChoices_def DefaultMaxToolNameBytes_def
  DefaultMaxProviderCallIDBytes_def DefaultMaxOutputBytes_def DefaultMaxTextBytes_def
  DefaultMaxReasoningBytes_def

section \<open>Semantic types (types.go)\<close>

type_synonym ToolKind = gostring

definition ToolFunction :: ToolKind where "ToolFunction = ''function''"
definition ToolNamespace :: ToolKind where "ToolNamespace = ''namespace''"
definition ToolWebSearch :: ToolKind where "ToolWebSearch = ''web_search''"
definition ToolCustom :: ToolKind where "ToolCustom = ''custom''"

type_synonym CustomToolFormatKind = gostring

definition CustomToolFormatText :: CustomToolFormatKind where "CustomToolFormatText = ''text''"
definition CustomToolFormatGrammar :: CustomToolFormatKind where "CustomToolFormatGrammar = ''grammar''"

lemmas custom_formats [simp] = CustomToolFormatText_def CustomToolFormatGrammar_def

lemmas tool_kinds [simp] = ToolFunction_def ToolNamespace_def ToolWebSearch_def ToolCustom_def

datatype ContentPart = TextContent gostring

datatype InputItem =
    Message gostring gostring "ContentPart list" \<comment> \<open>ID, Role, Content\<close>
  | FunctionCall gostring gostring gostring gostring gostring \<comment> \<open>ID, CallID, Name, Arguments, Status\<close>
  | FunctionCallOutput gostring gostring gostring bool \<comment> \<open>CallID, Output, Status, Error\<close>
  | CustomToolCall gostring gostring gostring gostring gostring \<comment> \<open>ID, CallID, Name, Input, Status\<close>
  | CustomToolCallOutput gostring gostring gostring bool \<comment> \<open>CallID, Output, Status, Error\<close>

record ToolResult =
  tr_CallID :: gostring
  tr_Kind :: ToolKind
  tr_Output :: gostring
  tr_Status :: gostring
  tr_Error :: bool

text \<open>\<open>JSONSchema\<close> is its raw bytes; \<open>Strict\<close> is an optional bool.\<close>

type_synonym JSONSchema = gobytes

datatype Tool =
    FunctionTool gostring gostring JSONSchema "bool option" \<comment> \<open>Name, Description, Parameters, Strict\<close>
  | CustomTool gostring gostring gostring \<comment> \<open>Name, Description, Format.Kind\<close>
  | DeferredTool ToolKind gostring \<comment> \<open>ToolKind, Name\<close>

section \<open>Stream events (events.go)\<close>

text \<open>
  Instants are nanoseconds from the Unix epoch; Go's zero \<open>time.Time\<close> is the first instant of
  year one.
\<close>

type_synonym gotime = int

definition zero_time :: gotime where "zero_time = - 62135596800 * 10 ^ 9"

definition time_Unix :: "int \<Rightarrow> gotime" where "time_Unix sec = sec * 10 ^ 9"

datatype ToolCallKey = ToolCallKey (ChoiceIndex: int) (ToolIndex: int)

record Usage =
  us_PromptTokens :: int
  us_CompletionTokens :: int
  us_TotalTokens :: int
  us_PromptCacheHitTokens :: int
  us_PromptCacheMissTokens :: int
  us_ReasoningTokens :: int

datatype StreamEvent =
    ResponseStarted gostring gotime gostring \<comment> \<open>ID, CreatedAt, Model\<close>
  | TextDelta int gostring \<comment> \<open>ChoiceIndex, Text\<close>
  | ToolCallStarted ToolCallKey ToolKind gostring gostring \<comment> \<open>Key, Kind, CallID, Name\<close>
  | ToolCallMetadataDelta ToolCallKey gostring gostring \<comment> \<open>Key, CallID, Name\<close>
  | ToolCallArgumentsDelta ToolCallKey gostring \<comment> \<open>Key, Arguments\<close>
  | ToolCallCompleted ToolCallKey ToolKind gostring gostring gostring \<comment> \<open>Key, Kind, CallID, Name, Arguments\<close>
  | ReasoningDelta int gostring \<comment> \<open>ChoiceIndex, Text\<close>
  | UsageUpdated Usage
  | Completed gostring \<comment> \<open>Reason\<close>
  | Incomplete gostring \<comment> \<open>Reason\<close>
  | Failed gostring gostring \<comment> \<open>Code, Message\<close>

text \<open>The events after which a stream is over.\<close>

fun terminal_event :: "StreamEvent \<Rightarrow> bool" where
  "terminal_event (Completed _) = True"
| "terminal_event (Incomplete _) = True"
| "terminal_event (Failed _ _) = True"
| "terminal_event _ = False"

fun tool_event :: "StreamEvent \<Rightarrow> bool" where
  "tool_event (ToolCallStarted _ _ _ _) = True"
| "tool_event (ToolCallMetadataDelta _ _ _) = True"
| "tool_event (ToolCallArgumentsDelta _ _) = True"
| "tool_event (ToolCallCompleted _ _ _ _ _) = True"
| "tool_event _ = False"

section \<open>Tool registry (registry.go)\<close>

record ToolRegistration =
  reg_Kind :: ToolKind
  reg_InboundName :: gostring
  reg_UpstreamName :: gostring
  reg_WrapperField :: gostring

record ToolRegistry =
  byInbound :: "(gostring, ToolRegistration) gomap"
  byUpstream :: "(gostring, ToolRegistration) gomap"

datatype registry_error = RegistrationIncomplete | InboundDuplicated | UpstreamDuplicated

definition register_tool :: "ToolRegistration \<Rightarrow> ToolRegistry \<Rightarrow> (registry_error, unit, ToolRegistry) go" where
  "register_tool r g =
     (if reg_Kind r = [] \<or> reg_InboundName r = [] \<or> reg_UpstreamName r = [] \<or> reg_WrapperField r = []
      then (Inl RegistrationIncomplete, g)
      else if map_of (byInbound g) (reg_InboundName r) \<noteq> None then (Inl InboundDuplicated, g)
      else if map_of (byUpstream g) (reg_UpstreamName r) \<noteq> None then (Inl UpstreamDuplicated, g)
      else (Inr (), g\<lparr>byInbound := map_put (reg_InboundName r) r (byInbound g),
                     byUpstream := map_put (reg_UpstreamName r) r (byUpstream g)\<rparr>))"

definition NewToolRegistry :: "ToolRegistration list \<Rightarrow> registry_error + ToolRegistry" where
  "NewToolRegistry rs =
     (case go_for register_tool rs \<lparr>byInbound = [], byUpstream = []\<rparr> of
        (Inl e, _) \<Rightarrow> Inl e
      | (Inr _, g) \<Rightarrow> Inr g)"

text \<open>A nil registry (\<open>None\<close>) finds nothing and lists nothing.\<close>

definition Inbound :: "ToolRegistry option \<Rightarrow> gostring \<Rightarrow> ToolRegistration option" where
  "Inbound registry name = (case registry of None \<Rightarrow> None | Some g \<Rightarrow> map_of (byInbound g) name)"

definition Upstream :: "ToolRegistry option \<Rightarrow> gostring \<Rightarrow> ToolRegistration option" where
  "Upstream registry name = (case registry of None \<Rightarrow> None | Some g \<Rightarrow> map_of (byUpstream g) name)"

text \<open>
  Go lists the map in an unspecified order and then sorts by inbound name. The inbound names are
  the keys of the map, so they differ and the sorted list does not depend on that order.
\<close>

definition Registrations :: "ToolRegistry option \<Rightarrow> ToolRegistration list" where
  "Registrations registry =
     (case registry of None \<Rightarrow> [] | Some g \<Rightarrow> sort_key reg_InboundName (map snd (byInbound g)))"

definition registration_complete :: "ToolRegistration \<Rightarrow> bool" where
  "registration_complete r =
     (reg_Kind r \<noteq> [] \<and> reg_InboundName r \<noteq> [] \<and> reg_UpstreamName r \<noteq> [] \<and> reg_WrapperField r \<noteq> [])"

text \<open>
  The registry's representation invariant: both tables hold the same registrations, each under
  the name it carries, and every registration is complete.
\<close>

definition registry_inv :: "ToolRegistry \<Rightarrow> bool" where
  "registry_inv g \<longleftrightarrow>
     map_ok (byInbound g) \<and> map_ok (byUpstream g) \<and>
     (\<forall>n r. map_of (byInbound g) n = Some r \<longrightarrow>
        reg_InboundName r = n \<and> map_of (byUpstream g) (reg_UpstreamName r) = Some r \<and> registration_complete r) \<and>
     (\<forall>n r. map_of (byUpstream g) n = Some r \<longrightarrow>
        reg_UpstreamName r = n \<and> map_of (byInbound g) (reg_InboundName r) = Some r)"

lemma registry_inv_empty: "registry_inv \<lparr>byInbound = [], byUpstream = []\<rparr>"
  by (simp add: registry_inv_def)

lemma registry_inv_put:
  assumes "registry_inv g" "registration_complete r"
    and "map_of (byInbound g) (reg_InboundName r) = None" "map_of (byUpstream g) (reg_UpstreamName r) = None"
  shows "registry_inv (g\<lparr>byInbound := map_put (reg_InboundName r) r (byInbound g),
                       byUpstream := map_put (reg_UpstreamName r) r (byUpstream g)\<rparr>)"
proof -
  have "reg_UpstreamName q \<noteq> reg_UpstreamName r" if "map_of (byInbound g) n = Some q" for n q
    using assms that by (fastforce simp: registry_inv_def)
  moreover have "reg_InboundName q \<noteq> reg_InboundName r" if "map_of (byUpstream g) n = Some q" for n q
    using assms that by (fastforce simp: registry_inv_def)
  ultimately show ?thesis using assms by (simp add: registry_inv_def distinct_update)
qed

lemma register_tool_inv: "registry_inv g \<Longrightarrow> registry_inv (snd (register_tool r g))"
  using registry_inv_put [of g r] by (simp add: register_tool_def registration_complete_def)

lemma register_all_inv: "registry_inv g \<Longrightarrow> registry_inv (snd (go_for register_tool rs g))"
  by (rule keeps_for [where P = registry_inv]) (simp_all add: register_tool_inv)

lemma NewToolRegistry_inv: "NewToolRegistry rs = Inr g \<Longrightarrow> registry_inv g"
  using register_all_inv [OF registry_inv_empty, of rs]
  by (auto simp: NewToolRegistry_def split: prod.splits sum.splits)

lemma register_all_ran:
  "go_for register_tool rs g = (Inr u, g') \<Longrightarrow>
     ran (map_of (byInbound g')) = ran (map_of (byInbound g)) \<union> set rs"
proof (induction rs arbitrary: g)
  case (Cons r rs)
  from Cons.prems obtain h where h: "register_tool r g = (Inr (), h)" "go_for register_tool rs h = (Inr u, g')"
    by (auto simp: go_bind_Inr_iff)
  from h(1) have "ran (map_of (byInbound h)) = insert r (ran (map_of (byInbound g)))"
    by (auto simp: register_tool_def split: if_splits)
  with Cons.IH [OF h(2)] show ?case by auto
qed simp

lemma register_all_succeeds:
  assumes "\<forall>r \<in> set rs. registration_complete r"
    and "distinct (map reg_InboundName rs)" "distinct (map reg_UpstreamName rs)"
    and "\<forall>r \<in> set rs. map_of (byInbound g) (reg_InboundName r) = None"
    and "\<forall>r \<in> set rs. map_of (byUpstream g) (reg_UpstreamName r) = None"
  shows "\<exists>h. go_for register_tool rs g = (Inr (), h)"
  using assms
proof (induction rs arbitrary: g)
  case (Cons r rs)
  let ?h = "g\<lparr>byInbound := map_put (reg_InboundName r) r (byInbound g),
             byUpstream := map_put (reg_UpstreamName r) r (byUpstream g)\<rparr>"
  have "register_tool r g = (Inr (), ?h)"
    using Cons.prems by (simp add: register_tool_def registration_complete_def)
  moreover have "reg_InboundName q \<noteq> reg_InboundName r" "reg_UpstreamName q \<noteq> reg_UpstreamName r"
    if "q \<in> set rs" for q
    using Cons.prems(2,3) that by (auto intro: rev_image_eqI)
  then have "\<exists>h. go_for register_tool rs ?h = (Inr (), h)"
    using Cons.prems by (intro Cons.IH) simp_all
  ultimately show ?case by simp
qed simp

lemma registrations_set:
  assumes "registry_inv g"
  shows "set (Registrations (Some g)) = ran (map_of (byInbound g))"
  using assms by (auto simp: Registrations_def registry_inv_def ran_distinct)

lemma registrations_sorted: "sorted (map reg_InboundName (Registrations g))"
  by (auto simp: Registrations_def split: option.split)

lemma registrations_distinct:
  assumes "registry_inv g"
  shows "distinct (map reg_InboundName (Registrations (Some g)))"
proof -
  have "map reg_InboundName (map snd (byInbound g)) = map fst (byInbound g)"
    using assms by (auto simp: registry_inv_def)
  then have "distinct (map reg_InboundName (map snd (byInbound g)))"
    using assms by (simp only: registry_inv_def)
  then show ?thesis by (simp add: Registrations_def distinct_sort_key)
qed

section \<open>Requests (types.go)\<close>

type_synonym Role = gostring

definition RoleSystem :: Role where "RoleSystem = ''system''"
definition RoleDeveloper :: Role where "RoleDeveloper = ''developer''"
definition RoleUser :: Role where "RoleUser = ''user''"
definition RoleAssistant :: Role where "RoleAssistant = ''assistant''"

type_synonym TextFormatKind = gostring

definition TextFormatText :: TextFormatKind where "TextFormatText = ''text''"
definition TextFormatJSONSchema :: TextFormatKind where "TextFormatJSONSchema = ''json_schema''"
definition TextFormatJSONObject :: TextFormatKind where "TextFormatJSONObject = ''json_object''"

type_synonym ToolChoiceKind = gostring

definition ToolChoiceUnset :: ToolChoiceKind where "ToolChoiceUnset = []"
definition ToolChoiceAuto :: ToolChoiceKind where "ToolChoiceAuto = ''auto''"
definition ToolChoiceNone :: ToolChoiceKind where "ToolChoiceNone = ''none''"
definition ToolChoiceRequired :: ToolChoiceKind where "ToolChoiceRequired = ''required''"
definition ToolChoiceFunction :: ToolChoiceKind where "ToolChoiceFunction = ''function''"

lemmas request_kinds [simp] =
  RoleSystem_def RoleDeveloper_def RoleUser_def RoleAssistant_def
  TextFormatText_def TextFormatJSONSchema_def TextFormatJSONObject_def
  ToolChoiceUnset_def ToolChoiceAuto_def ToolChoiceNone_def ToolChoiceRequired_def ToolChoiceFunction_def

record TextFormat =
  fmt_Kind :: TextFormatKind
  fmt_Name :: gostring
  fmt_Description :: gostring
  fmt_Schema :: JSONSchema
  fmt_Strict :: "bool option"

record ToolChoice =
  tcho_Kind :: ToolChoiceKind
  tcho_FunctionName :: gostring

text \<open>\<open>Reasoning.Effort\<close> and \<open>Text.Format\<close> are the only members of their structs.\<close>

record GenerationOptions =
  gen_Stream :: bool
  gen_ParallelToolCalls :: bool
  gen_Include :: "gostring list"
  gen_Effort :: gostring
  gen_Format :: TextFormat

text \<open>The adapter's continuation is opaque to the bridge, which only carries it: a type parameter.\<close>

record 'c Request =
  rq_Model :: gostring
  rq_Instructions :: gostring
  rq_PreviousResponseID :: gostring
  rq_Input :: "InputItem list"
  rq_Tools :: "Tool list"
  rq_ToolChoice :: ToolChoice
  rq_Generation :: GenerationOptions
  rq_ToolRegistry :: "ToolRegistry option"
  rq_Continuation :: "'c option"

section \<open>The order of tool-call keys\<close>

text \<open>
  \<open>toolKeyLess\<close> of the stream decoder compares choice indexes first and tool indexes second.
  It is the strict part of a linear order, so sorting by it is the library's \<open>sort\<close>.
\<close>

definition toolKeyLess :: "ToolCallKey \<Rightarrow> ToolCallKey \<Rightarrow> bool" where
  "toolKeyLess left right =
     (if ChoiceIndex left \<noteq> ChoiceIndex right then ChoiceIndex left < ChoiceIndex right
      else ToolIndex left < ToolIndex right)"

instantiation ToolCallKey :: linorder
begin

definition less_ToolCallKey :: "ToolCallKey \<Rightarrow> ToolCallKey \<Rightarrow> bool" where
  "less_ToolCallKey = toolKeyLess"

definition less_eq_ToolCallKey :: "ToolCallKey \<Rightarrow> ToolCallKey \<Rightarrow> bool" where
  "less_eq_ToolCallKey left right = (left = right \<or> toolKeyLess left right)"

instance
  by standard
    (auto simp: less_ToolCallKey_def less_eq_ToolCallKey_def toolKeyLess_def
      intro: ToolCallKey.expand split: if_splits)

end

end
