(* ===== verification/Utf8.thy ===== *)
theory Utf8
  imports Go_Prelude
begin

text \<open>
  \<open>unicode/utf8\<close> as the gateway uses it: which byte sequences are the encoding of one rune, and
  which byte strings are valid UTF-8. The ranges are those of Go's table of first bytes.
\<close>

definition in_range :: "nat \<Rightarrow> nat \<Rightarrow> char \<Rightarrow> bool" where
  "in_range lo hi c = (lo \<le> byte c \<and> byte c \<le> hi)"

text \<open>The number of bytes a first byte announces (0 for a byte that cannot start a rune), and the
  range it allows for the second byte.\<close>

definition lead_width :: "char \<Rightarrow> nat" where
  "lead_width a =
     (if in_range 0x00 0x7F a then 1
      else if in_range 0xC2 0xDF a then 2
      else if in_range 0xE0 0xEF a then 3
      else if in_range 0xF0 0xF4 a then 4
      else 0)"

definition second_ok :: "char \<Rightarrow> char \<Rightarrow> bool" where
  "second_ok a b =
     in_range (if a = CHR 0xE0 then 0xA0 else if a = CHR 0xF0 then 0x90 else 0x80)
              (if a = CHR 0xED then 0x9F else if a = CHR 0xF4 then 0x8F else 0xBF) b"

definition tail_ok :: "char \<Rightarrow> gobytes \<Rightarrow> bool" where
  "tail_ok a r = (case r of [] \<Rightarrow> True | b # cs \<Rightarrow> second_ok a b \<and> list_all (in_range 0x80 0xBF) cs)"

text \<open>The width of the valid rune at the front of a string, or 0 when there is none.\<close>

fun rune_width :: "gobytes \<Rightarrow> nat" where
  "rune_width [] = 0"
| "rune_width (a # r) =
     (let n = lead_width a in
      if n - 1 \<le> length r \<and> tail_ok a (take (n - 1) r) then n else 0)"

function utf8_Valid :: "gobytes \<Rightarrow> bool" where
  "utf8_Valid s =
     (if s = [] then True
      else if rune_width s = 0 then False
      else utf8_Valid (drop (rune_width s) s))"
  by pat_completeness auto
termination
  by (relation "measure length") auto

declare utf8_Valid.simps [simp del]

lemma utf8_Valid_Nil [simp]: "utf8_Valid []"
  by (simp add: utf8_Valid.simps)

lemma rune_width_ascii [simp]: "byte c < 128 \<Longrightarrow> rune_width (c # s) = 1"
  by (simp add: lead_width_def in_range_def tail_ok_def Let_def)

lemma utf8_Valid_ascii: "byte c < 128 \<Longrightarrow> utf8_Valid (c # s) = utf8_Valid s"
  by (subst utf8_Valid.simps) (simp del: rune_width.simps)

lemma rune_width_le: "rune_width s \<le> length s"
  by (cases s) (auto simp: Let_def)

lemma rune_width_append: "rune_width s \<noteq> 0 \<Longrightarrow> rune_width (s @ t) = rune_width s"
  by (cases s) (auto simp: Let_def split: if_splits)

lemma utf8_Valid_append: "utf8_Valid s \<Longrightarrow> utf8_Valid t \<Longrightarrow> utf8_Valid (s @ t)"
proof (induction s rule: utf8_Valid.induct)
  case (1 s)
  show ?case
  proof (cases "s = []")
    case False
    with "1.prems"(1) have w: "rune_width s \<noteq> 0" "utf8_Valid (drop (rune_width s) s)"
      by (simp_all add: utf8_Valid.simps [of s] split: if_splits)
    have "utf8_Valid (drop (rune_width s) s @ t)"
      using False w "1.prems"(2) by (intro "1.IH")
    then show ?thesis
      using w rune_width_le [of s] False
      by (subst utf8_Valid.simps) (simp add: rune_width_append)
  qed (use "1.prems"(2) in simp)
qed

end
