(* ===== verification/SSE.thy ===== *)
theory SSE
  imports Bridge Utf8
begin

text \<open>
  The Server-Sent Events decoder of \<open>internal/opencodego/sse.go\<close>. The decoder reads one byte at
  a time from a buffered reader; the model's reader is the list of bytes that are still to come
  and the error, if any, that ends them (\<open>None\<close> for a clean end of file). How the network cuts the
  bytes into chunks is invisible at this interface, as it is in the code.
\<close>

definition DefaultSSEMaxLineBytes :: int where "DefaultSSEMaxLineBytes = 256 * 2 ^ 10"
definition DefaultSSEMaxEventBytes :: int where "DefaultSSEMaxEventBytes = 4 * 2 ^ 20"
definition DefaultSSEMaxBufferedBytes :: int where "DefaultSSEMaxBufferedBytes = 8 * 2 ^ 20"
definition DefaultStreamMaxAggregateBytes :: int where "DefaultStreamMaxAggregateBytes = 16 * 2 ^ 20"
definition DefaultSSEReadBufferBytes :: int where "DefaultSSEReadBufferBytes = 32 * 2 ^ 10"

lemmas sse_limits = DefaultSSEMaxLineBytes_def DefaultSSEMaxEventBytes_def
  DefaultSSEMaxBufferedBytes_def DefaultStreamMaxAggregateBytes_def DefaultSSEReadBufferBytes_def

text \<open>
  What a read can fail with, as far as \<open>classifyStreamReadError\<close> tells the causes apart.
\<close>

datatype read_error = ReadCanceled | ReadDeadlineExceeded | ReadNetTimeout | ReadOther

datatype sse_error =
    SSE_EOF
  | ErrSSELimitExceeded gostring int \<comment> \<open>kind, limit\<close>
  | ErrSSEUnexpectedEOF
  | ErrSSEInvalidUTF8
  | SSEReadError read_error

record SSEDecoderOptions =
  MaxLineBytes :: int
  MaxEventBytes :: int
  MaxBufferedBytes :: int
  MaxAggregateBytes :: int
  MaxToolCallArgumentBytes :: int
  ReadBufferBytes :: int

definition withDefaults :: "SSEDecoderOptions \<Rightarrow> SSEDecoderOptions" where
  "withDefaults o1 =
     \<lparr>MaxLineBytes = (if MaxLineBytes o1 \<le> 0 then DefaultSSEMaxLineBytes else MaxLineBytes o1),
      MaxEventBytes = (if MaxEventBytes o1 \<le> 0 then DefaultSSEMaxEventBytes else MaxEventBytes o1),
      MaxBufferedBytes = (if MaxBufferedBytes o1 \<le> 0 then DefaultSSEMaxBufferedBytes else MaxBufferedBytes o1),
      MaxAggregateBytes = (if MaxAggregateBytes o1 \<le> 0 then DefaultStreamMaxAggregateBytes else MaxAggregateBytes o1),
      MaxToolCallArgumentBytes =
        (if MaxToolCallArgumentBytes o1 \<le> 0 then DefaultMaxToolCallArgumentBytes else MaxToolCallArgumentBytes o1),
      ReadBufferBytes = (if ReadBufferBytes o1 \<le> 0 then DefaultSSEReadBufferBytes else ReadBufferBytes o1)\<rparr>"

record SSEEvent =
  ev_Event :: gostring
  ev_ID :: gostring
  ev_Retry :: "int option"
  ev_Data :: gostring

record SSEDecoder =
  sd_input :: gobytes
  sd_readerr :: "read_error option"
  sd_options :: SSEDecoderOptions
  sd_data :: gobytes
  sd_event :: gostring
  sd_id :: gostring
  sd_retry :: "int option"
  sd_eventBytes :: int
  sd_bomHandled :: bool
  sd_terminalErr :: "sse_error option"

definition NewSSEDecoder :: "gobytes \<Rightarrow> read_error option \<Rightarrow> SSEDecoderOptions \<Rightarrow> SSEDecoder" where
  "NewSSEDecoder input readerr opts =
     \<lparr>sd_input = input, sd_readerr = readerr, sd_options = withDefaults opts, sd_data = [], sd_event = [],
      sd_id = [], sd_retry = None, sd_eventBytes = 0, sd_bomHandled = False, sd_terminalErr = None\<rparr>"

definition stripLeadingBOM :: "gobytes \<Rightarrow> gobytes" where
  "stripLeadingBOM line =
     (if 3 \<le> length line \<and> take 3 line = [CHR 0xEF, CHR 0xBB, CHR 0xBF] then drop 3 line else line)"

definition rememberError :: "sse_error \<Rightarrow> SSEDecoder \<Rightarrow> (sse_error, 'a, SSEDecoder) go" where
  "rememberError e d = (Inl e, d\<lparr>sd_terminalErr := Some e\<rparr>)"

definition lineLimit :: "SSEDecoderOptions \<Rightarrow> int \<times> gostring" where
  "lineLimit opts =
     (let (limit, kind) = (MaxLineBytes opts, ''line'');
          (limit, kind) = (if MaxBufferedBytes opts < limit then (MaxBufferedBytes opts, ''buffer'') else (limit, kind))
      in if MaxEventBytes opts < limit then (MaxEventBytes opts, ''event'') else (limit, kind))"

abbreviation LF :: char where "LF \<equiv> CHR 0x0A"
abbreviation CR :: char where "CR \<equiv> CHR 0x0D"

text \<open>
  The body of \<open>readLine\<close>: the line read so far and the bytes to come. The result is the line and
  whether a terminator ended it, with the bytes left over.
\<close>

fun readLine_loop ::
  "int \<times> gostring \<Rightarrow> read_error option \<Rightarrow> gobytes \<Rightarrow> gobytes \<Rightarrow> (sse_error, gobytes \<times> bool, gobytes) go" where
  "readLine_loop lim re line [] =
     (case re of
        Some e \<Rightarrow> (Inl (SSEReadError e), [])
      | None \<Rightarrow> (if line = [] then (Inl SSE_EOF, []) else (Inr (line, False), [])))"
| "readLine_loop lim re line (value # rest) =
     (if value = LF then (Inr (line, True), rest)
      else if value = CR then
        (case rest of
           [] \<Rightarrow> (case re of Some e \<Rightarrow> (Inl (SSEReadError e), []) | None \<Rightarrow> (Inr (line, True), []))
         | next # rest' \<Rightarrow> (if next \<noteq> LF then (Inr (line, True), next # rest') else (Inr (line, True), rest')))
      else if len line \<ge> fst lim then (Inl (ErrSSELimitExceeded (snd lim) (fst lim)), rest)
      else readLine_loop lim re (line @ [value]) rest)"

definition readLine :: "SSEDecoder \<Rightarrow> (sse_error, gobytes \<times> bool, SSEDecoder) go" where
  "readLine d =
     (case readLine_loop (lineLimit (sd_options d)) (sd_readerr d) [] (sd_input d) of
        (r, rest) \<Rightarrow> (r, d\<lparr>sd_input := rest\<rparr>))"

definition addEventBytes :: "int \<Rightarrow> SSEDecoder \<Rightarrow> (sse_error, unit, SSEDecoder) go" where
  "addEventBytes bytes d =
     (if bytes < 0 \<or> sd_eventBytes d > MaxEventBytes (sd_options d) - bytes
      then (Inl (ErrSSELimitExceeded ''event'' (MaxEventBytes (sd_options d))), d)
      else let d = d\<lparr>sd_eventBytes := sd_eventBytes d + bytes\<rparr> in
        if sd_eventBytes d > MaxBufferedBytes (sd_options d)
        then (Inl (ErrSSELimitExceeded ''buffer'' (MaxBufferedBytes (sd_options d))), d)
        else (Inr (), d))"

text \<open>\<open>strconv.ParseInt(value, 10, 64)\<close>: an optional sign, at least one digit, the int64 range.\<close>

fun digits_value :: "int \<Rightarrow> gostring \<Rightarrow> int option" where
  "digits_value acc [] = Some acc"
| "digits_value acc (c # cs) =
     (if in_range 48 57 c then digits_value (acc * 10 + (int (byte c) - 48)) cs else None)"

definition ParseInt64 :: "gostring \<Rightarrow> int option" where
  "ParseInt64 s =
     (let (neg, ds) = (case s of c # cs \<Rightarrow> if c = CHR ''-'' then (True, cs) else if c = CHR ''+'' then (False, cs) else (False, s)
                        | [] \<Rightarrow> (False, []))
      in if ds = [] then None
         else case digits_value 0 ds of
             None \<Rightarrow> None
           | Some n \<Rightarrow> (let v = (if neg then - n else n) in
               if - (2 ^ 63) \<le> v \<and> v \<le> 2 ^ 63 - 1 then Some v else None))"

definition parseRetry :: "gobytes \<Rightarrow> int option" where
  "parseRetry value =
     (if value = [] then None
      else case ParseInt64 value of
          None \<Rightarrow> None
        | Some parsed \<Rightarrow>
            if parsed < 0 then None
            else if parsed \<le> (2 ^ 63 - 1) div 10 ^ 6 then Some parsed else None)"

definition containsNUL :: "gobytes \<Rightarrow> bool" where
  "containsNUL value = list_ex (\<lambda>b. b = CHR 0x00) value"

text \<open>The field name and value of a line: everything up to the first colon, and what follows it
  without one leading space.\<close>

definition splitField :: "gobytes \<Rightarrow> gobytes \<times> gobytes" where
  "splitField line =
     (let field = takeWhile (\<lambda>c. c \<noteq> CHR '':'') line; after = dropWhile (\<lambda>c. c \<noteq> CHR '':'') line
      in case after of
          [] \<Rightarrow> (line, [])
        | _ # value \<Rightarrow> (field, (case value of c # v \<Rightarrow> if c = CHR '' '' then v else value | [] \<Rightarrow> [])))"

definition processLine :: "gobytes \<Rightarrow> SSEDecoder \<Rightarrow> (sse_error, unit, SSEDecoder) go" where
  "processLine line d =
     (if len line > MaxLineBytes (sd_options d)
      then (Inl (ErrSSELimitExceeded ''line'' (MaxLineBytes (sd_options d))), d)
      else if len line > MaxBufferedBytes (sd_options d)
      then (Inl (ErrSSELimitExceeded ''buffer'' (MaxBufferedBytes (sd_options d))), d)
      else if line \<noteq> [] \<and> hd line = CHR '':'' then (Inr (), d)
      else let (field, value) = splitField line in
        if field = ''data'' then
          (if len (sd_data d) > MaxEventBytes (sd_options d) - len value - 1
           then (Inl (ErrSSELimitExceeded ''event'' (MaxEventBytes (sd_options d))), d)
           else (Inr (), d\<lparr>sd_data := sd_data d @ value @ [LF]\<rparr>))
        else if field = ''event'' then (Inr (), d\<lparr>sd_event := value\<rparr>)
        else if field = ''id'' then (Inr (), if containsNUL value then d else d\<lparr>sd_id := value\<rparr>)
        else if field = ''retry'' then
          (Inr (), case parseRetry value of None \<Rightarrow> d | Some ms \<Rightarrow> d\<lparr>sd_retry := Some (ms * 10 ^ 6)\<rparr>)
        else (Inr (), d))"

definition hasPendingEvent :: "SSEDecoder \<Rightarrow> bool" where
  "hasPendingEvent d = (sd_data d \<noteq> [] \<or> sd_event d \<noteq> [] \<or> sd_retry d \<noteq> None)"

definition dispatch :: "SSEDecoder \<Rightarrow> SSEEvent \<times> SSEDecoder" where
  "dispatch d =
     (\<lparr>ev_Event = sd_event d, ev_ID = sd_id d, ev_Retry = sd_retry d,
       ev_Data = (if sd_data d \<noteq> [] then butlast (sd_data d) else [])\<rparr>,
      d\<lparr>sd_data := [], sd_event := [], sd_retry := None, sd_eventBytes := 0\<rparr>)"

lemma readLine_loop_shrinks:
  "readLine_loop lim re line input = (Inr (l, True), rest) \<Longrightarrow> length rest < length input"
  by (induction lim re line input rule: readLine_loop.induct)
    (auto split: option.splits if_splits list.splits)

text \<open>
  One round of the \<open>for\<close> loop of \<open>Next\<close>: read a line, and either fail, dispatch an event
  (\<open>Some\<close>), or go round again (\<open>None\<close>).
\<close>

definition sse_line :: "gobytes \<Rightarrow> bool \<Rightarrow> SSEDecoder \<Rightarrow> (sse_error, SSEEvent option, SSEDecoder) go" where
  "sse_line line terminated d =
     (if \<not> utf8_Valid line then (Inl ErrSSEInvalidUTF8, d)
      else go_bind (addEventBytes (len line + 1) d) (\<lambda>_ d.
        if \<not> terminated then
          go_bind (if line \<noteq> [] then processLine line d else (Inr (), d)) (\<lambda>_ d. (Inl ErrSSEUnexpectedEOF, d))
        else if line = [] then
          (if \<not> hasPendingEvent d then (Inr None, d\<lparr>sd_eventBytes := 0\<rparr>)
           else case dispatch d of (event, d) \<Rightarrow>
             (Inr (if ev_Data event = [] then None else Some event), d))
        else go_bind (processLine line d) (\<lambda>_ d. (Inr None, d))))"

definition sse_round :: "SSEDecoder \<Rightarrow> (sse_error, SSEEvent option, SSEDecoder) go" where
  "sse_round d =
     (case readLine d of
        (Inl e, d) \<Rightarrow> (Inl (if e = SSE_EOF \<and> hasPendingEvent d then ErrSSEUnexpectedEOF else e), d)
      | (Inr (line, terminated), d) \<Rightarrow>
          if sd_bomHandled d then sse_line line terminated d
          else sse_line (stripLeadingBOM line) terminated (d\<lparr>sd_bomHandled := True\<rparr>))"

lemma addEventBytes_input: "addEventBytes n d = (r, d') \<Longrightarrow> sd_input d' = sd_input d"
  by (auto simp: addEventBytes_def Let_def split: if_splits)

lemma processLine_input: "processLine l d = (r, d') \<Longrightarrow> sd_input d' = sd_input d"
  by (auto simp: processLine_def split: prod.splits option.splits if_splits)

lemma readLine_shrinks:
  "readLine d = (Inr (l, True), d') \<Longrightarrow> length (sd_input d') < length (sd_input d)"
  by (auto simp: readLine_def split: prod.splits dest: readLine_loop_shrinks)

lemma sse_line_input: "sse_line l t d = (Inr r, d') \<Longrightarrow> sd_input d' = sd_input d \<and> t"
  by (auto simp: sse_line_def go_bind_Inr_iff dispatch_def dest!: addEventBytes_input processLine_input
      split: if_splits)

text \<open>A round that goes on has read a terminated line, so it has taken a byte from the input.\<close>

lemma sse_round_shrinks: "sse_round d = (Inr r, d') \<Longrightarrow> length (sd_input d') < length (sd_input d)"
  by (auto simp: sse_round_def split: prod.splits sum.splits if_splits
      dest!: sse_line_input dest: readLine_shrinks)

function sse_loop :: "SSEDecoder \<Rightarrow> (sse_error, SSEEvent, SSEDecoder) go" where
  "sse_loop d =
     (case sse_round d of
        (Inl e, d') \<Rightarrow> if e = SSE_EOF then (Inl e, d') else rememberError e d'
      | (Inr None, d') \<Rightarrow> sse_loop d'
      | (Inr (Some event), d') \<Rightarrow> (Inr event, d'))"
  by pat_completeness auto
termination
  by (relation "measure (\<lambda>d. length (sd_input d))") (auto dest: sse_round_shrinks [OF sym])

declare sse_loop.simps [simp del]

text \<open>\<open>SSEDecoder.Next\<close>: an error that ended the stream is returned again.\<close>

definition sse_Next :: "SSEDecoder \<Rightarrow> (sse_error, SSEEvent, SSEDecoder) go" where
  "sse_Next d = (case sd_terminalErr d of Some e \<Rightarrow> (Inl e, d) | None \<Rightarrow> sse_loop d)"

section \<open>Bounds\<close>

text \<open>
  The bytes retained for the event under construction never exceed the bytes charged to it, and
  these never exceed the event limit.
\<close>

definition sse_inv :: "SSEDecoder \<Rightarrow> bool" where
  "sse_inv d \<longleftrightarrow> len (sd_data d) \<le> sd_eventBytes d \<and> sd_eventBytes d \<le> MaxEventBytes (sd_options d)"

lemma withDefaults_positive:
  "0 < MaxLineBytes (withDefaults opts)" "0 < MaxEventBytes (withDefaults opts)"
  "0 < MaxBufferedBytes (withDefaults opts)" "0 < MaxAggregateBytes (withDefaults opts)"
  "0 < MaxToolCallArgumentBytes (withDefaults opts)" "0 < ReadBufferBytes (withDefaults opts)"
  by (simp_all add: withDefaults_def sse_limits bridge_limits)

lemma NewSSEDecoder_inv: "sse_inv (NewSSEDecoder input re opts)"
  using withDefaults_positive(2) [of opts] by (simp add: NewSSEDecoder_def sse_inv_def)

lemma splitField_length: "splitField line = (field, value) \<Longrightarrow> length value \<le> length line"
proof -
  assume a: "splitField line = (field, value)"
  have "length (dropWhile (\<lambda>c. c \<noteq> CHR '':'') line) \<le> length line" by (rule length_dropWhile_le)
  with a show ?thesis
    by (auto simp: splitField_def Let_def split: list.splits if_splits)
qed

lemma readLine_fields:
  "readLine d = (r, d') \<Longrightarrow>
     sd_data d' = sd_data d \<and> sd_eventBytes d' = sd_eventBytes d \<and> sd_options d' = sd_options d"
  by (auto simp: readLine_def split: prod.splits)

lemma addEventBytes_fields:
  "addEventBytes n d = (r, d') \<Longrightarrow>
     sd_data d' = sd_data d \<and> sd_options d' = sd_options d \<and>
     (r = Inr () \<longrightarrow> sd_eventBytes d' = sd_eventBytes d + n) \<and> sd_eventBytes d \<le> sd_eventBytes d' \<and>
     (sd_eventBytes d \<le> MaxEventBytes (sd_options d) \<longrightarrow> sd_eventBytes d' \<le> MaxEventBytes (sd_options d))"
  by (auto simp: addEventBytes_def Let_def split: if_splits)

lemma processLine_fields:
  "processLine l d = (r, d') \<Longrightarrow>
     sd_eventBytes d' = sd_eventBytes d \<and> sd_options d' = sd_options d \<and>
     len (sd_data d') \<le> len (sd_data d) + len l + 1"
  by (auto simp: processLine_def split: prod.splits option.splits if_splits dest: splitField_length)

text \<open>A line is processed only after its bytes were charged.\<close>

lemma sse_line_inv:
  assumes "sse_inv d"
  shows "sse_inv (snd (sse_line l t d)) \<and> sd_options (snd (sse_line l t d)) = sd_options d"
proof (cases "utf8_Valid l")
  case True
  obtain r d1 where add: "addEventBytes (len l + 1) d = (r, d1)" by fastforce
  note f1 = addEventBytes_fields [OF add]
  show ?thesis
  proof (cases r)
    case (Inl e)
    with add True f1 assms show ?thesis by (auto simp: sse_line_def sse_inv_def)
  next
    case (Inr u)
    obtain r2 d2 where proc: "processLine l d1 = (r2, d2)" by fastforce
    note f2 = processLine_fields [OF proc]
    have inv1: "sse_inv d1" "sse_inv d2" "sd_options d2 = sd_options d" "sd_options d1 = sd_options d"
      using f1 f2 assms Inr by (auto simp: sse_inv_def)
    have "0 \<le> MaxEventBytes (sd_options d)" using assms by (auto simp: sse_inv_def)
    with inv1 True add Inr proc show ?thesis
      by (cases r2) (auto simp: sse_line_def dispatch_def sse_inv_def hasPendingEvent_def)
  qed
qed (use assms in \<open>simp add: sse_line_def\<close>)

lemma sse_round_inv:
  assumes "sse_inv d"
  shows "sse_inv (snd (sse_round d)) \<and> sd_options (snd (sse_round d)) = sd_options d"
proof -
  obtain r d1 where rl: "readLine d = (r, d1)" by fastforce
  from readLine_fields [OF rl] assms have "sse_inv d1" "sd_options d1 = sd_options d"
    by (auto simp: sse_inv_def)
  moreover from this have "sse_inv (d1\<lparr>sd_bomHandled := True\<rparr>)" by (simp add: sse_inv_def)
  ultimately show ?thesis using rl sse_line_inv [of d1] sse_line_inv [of "d1\<lparr>sd_bomHandled := True\<rparr>"]
    by (auto simp: sse_round_def split: sum.splits)
qed

lemma sse_line_event:
  assumes "sse_inv d" "sse_line l t d = (Inr (Some ev), d')"
  shows "ev_Data ev \<noteq> [] \<and> len (ev_Data ev) < MaxEventBytes (sd_options d)"
  using assms
  by (fastforce simp: sse_line_def sse_inv_def go_bind_Inr_iff dispatch_def hasPendingEvent_def
      dest: addEventBytes_fields split: if_splits)

lemma sse_round_event:
  assumes "sse_inv d" "sse_round d = (Inr (Some ev), d')"
  shows "ev_Data ev \<noteq> [] \<and> len (ev_Data ev) < MaxEventBytes (sd_options d)"
proof -
  obtain r d1 where rl: "readLine d = (r, d1)" by fastforce
  from readLine_fields [OF rl] assms(1) have "sse_inv d1" "sd_options d1 = sd_options d"
    by (auto simp: sse_inv_def)
  moreover from this have "sse_inv (d1\<lparr>sd_bomHandled := True\<rparr>)" by (simp add: sse_inv_def)
  ultimately show ?thesis
    using rl assms(2) sse_line_event [of d1] sse_line_event [of "d1\<lparr>sd_bomHandled := True\<rparr>"]
    by (auto simp: sse_round_def split: sum.splits if_splits)
qed

lemma sse_loop_inv:
  assumes "sse_inv d" "sse_loop d = (r, d')"
  shows "sse_inv d' \<and> sd_options d' = sd_options d \<and>
    (\<forall>ev. r = Inr ev \<longrightarrow> ev_Data ev \<noteq> [] \<and> len (ev_Data ev) < MaxEventBytes (sd_options d))"
  using assms
proof (induction d arbitrary: r d' rule: sse_loop.induct)
  case (1 d)
  obtain q d1 where rnd: "sse_round d = (q, d1)" by fastforce
  have inv1: "sse_inv d1" "sd_options d1 = sd_options d"
    using sse_round_inv [OF "1.prems"(1)] rnd by simp_all
  show ?case
  proof (cases q)
    case (Inl e)
    with rnd inv1 "1.prems"(2) show ?thesis
      by (auto simp: sse_loop.simps [of d] rememberError_def sse_inv_def split: if_splits)
  next
    case (Inr o1)
    show ?thesis
    proof (cases o1)
      case None
      with rnd Inr "1.prems"(2) have "sse_loop d1 = (r, d')" by (simp add: sse_loop.simps [of d])
      with "1.IH" [OF rnd [symmetric] Inr None] inv1 show ?thesis by simp
    next
      case (Some ev)
      with rnd Inr inv1 sse_round_event [OF "1.prems"(1)] "1.prems"(2) show ?thesis
        by (auto simp: sse_loop.simps [of d])
    qed
  qed
qed

section \<open>Running the decoder to the end of the stream\<close>

lemma sse_loop_shrinks: "sse_loop d = (Inr ev, d') \<Longrightarrow> length (sd_input d') < length (sd_input d)"
proof (induction d arbitrary: d' rule: sse_loop.induct)
  case (1 d)
  obtain q d1 where rnd: "sse_round d = (q, d1)" by fastforce
  show ?case
  proof (cases q)
    case (Inl e)
    with rnd "1.prems" show ?thesis
      by (simp add: sse_loop.simps [of d] rememberError_def split: if_splits)
  next
    case (Inr o1)
    with rnd have less: "length (sd_input d1) < length (sd_input d)" by (auto dest: sse_round_shrinks)
    show ?thesis
    proof (cases o1)
      case None
      with rnd Inr "1.prems" have "sse_loop d1 = (Inr ev, d')" by (simp add: sse_loop.simps [of d])
      from "1.IH" [OF rnd [symmetric] Inr None this] less show ?thesis by simp
    next
      case (Some ev')
      with rnd Inr less "1.prems" show ?thesis by (simp add: sse_loop.simps [of d])
    qed
  qed
qed

function sse_events :: "SSEDecoder \<Rightarrow> SSEEvent list \<times> sse_error" where
  "sse_events d =
     (case sse_Next d of
        (Inl e, d') \<Rightarrow> ([], e)
      | (Inr ev, d') \<Rightarrow> (case sse_events d' of (evs, e) \<Rightarrow> (ev # evs, e)))"
  by pat_completeness auto
termination
  by (relation "measure (\<lambda>d. length (sd_input d))")
    (auto simp: sse_Next_def split: option.splits dest: sse_loop_shrinks [OF sym])

declare sse_events.simps [simp del]

lemma addEventBytes_terminalErr:
  "addEventBytes n d = (r, d') \<Longrightarrow> sd_terminalErr d' = sd_terminalErr d"
  by (auto simp: addEventBytes_def Let_def split: if_splits)

lemma processLine_terminalErr:
  "processLine l d = (r, d') \<Longrightarrow> sd_terminalErr d' = sd_terminalErr d"
  by (auto simp: processLine_def split: prod.splits option.splits if_splits)

lemma sse_round_terminalErr: "sse_round d = (Inr r, d') \<Longrightarrow> sd_terminalErr d' = sd_terminalErr d"
  by (auto simp: sse_round_def sse_line_def readLine_def go_bind_Inr_iff dispatch_def
      dest!: addEventBytes_terminalErr processLine_terminalErr split: prod.splits sum.splits if_splits)

text \<open>The stream of events, line by line.\<close>

lemma sse_events_round:
  assumes "sd_terminalErr d = None"
  shows "sse_events d =
    (case sse_round d of
       (Inl e, d') \<Rightarrow> ([], e)
     | (Inr None, d') \<Rightarrow> sse_events d'
     | (Inr (Some ev), d') \<Rightarrow> (case sse_events d' of (evs, e) \<Rightarrow> (ev # evs, e)))"
proof -
  obtain q d1 where rnd: "sse_round d = (q, d1)" by fastforce
  show ?thesis
  proof (cases q)
    case (Inl e)
    with rnd assms show ?thesis
      by (simp add: sse_events.simps [of d] sse_Next_def sse_loop.simps [of d] rememberError_def)
  next
    case (Inr o1)
    with rnd assms have "sd_terminalErr d1 = None" using sse_round_terminalErr by fastforce
    with rnd Inr assms show ?thesis
      by (cases o1) (simp_all add: sse_events.simps [of d] sse_events.simps [of d1] sse_Next_def sse_loop.simps [of d])
  qed
qed

section \<open>Reading a line\<close>

abbreviation plain_line :: "gobytes \<Rightarrow> bool" where
  "plain_line l \<equiv> LF \<notin> set l \<and> CR \<notin> set l"

lemma readLine_loop_plain:
  assumes "plain_line l"
  shows "len acc + len l \<le> fst lim \<Longrightarrow> readLine_loop lim re acc (l @ x) = readLine_loop lim re (acc @ l) x"
    and "len acc \<le> fst lim \<Longrightarrow> fst lim < len acc + len l \<Longrightarrow>
      fst (readLine_loop lim re acc (l @ x)) = Inl (ErrSSELimitExceeded (snd lim) (fst lim))"
  using assms by (induction l arbitrary: acc) auto

text \<open>
  The three line terminators of the wire format. A line without carriage return and line feed is
  read the same whichever of them ends it, as long as what follows a lone carriage return is not a
  line feed.
\<close>

definition line_end :: "gobytes \<Rightarrow> bool" where
  "line_end e \<longleftrightarrow> e = [LF] \<or> e = [CR, LF] \<or> e = [CR]"

lemma readLine_loop_end:
  assumes "line_end e" "e = [CR] \<longrightarrow> x \<noteq> [] \<and> hd x \<noteq> LF \<or> x = [] \<and> re = None"
  shows "readLine_loop lim re acc (e @ x) = (Inr (acc, True), x)"
  using assms by (cases x) (auto simp: line_end_def split: option.splits)

definition render :: "gobytes \<Rightarrow> gobytes list \<Rightarrow> gobytes" where
  "render e ls = concat (map (\<lambda>l. l @ e) ls)"

lemma render_simps [simp]: "render e [] = []" "render e (l # ls) = l @ e @ render e ls"
  by (simp_all add: render_def)

lemma render_hd:
  assumes "line_end e" "\<forall>l \<in> set ls. plain_line l" "e = [CR]"
  shows "render e ls = [] \<or> hd (render e ls) \<noteq> LF"
  using assms by (cases ls) (auto simp: hd_append dest: hd_in_set)

lemma readLine_render:
  assumes "line_end e" "\<forall>l' \<in> set (l # ls). plain_line l'" "re = None" "0 \<le> fst lim"
  shows "len l \<le> fst lim \<Longrightarrow> readLine_loop lim re [] (render e (l # ls)) = (Inr (l, True), render e ls)"
    and "fst lim < len l \<Longrightarrow>
      fst (readLine_loop lim re [] (render e (l # ls))) = Inl (ErrSSELimitExceeded (snd lim) (fst lim))"
  using assms readLine_loop_plain [of l "[]" lim re "e @ render e ls"] render_hd [of e ls]
    readLine_loop_end [of e "render e ls" re lim l]
  by auto

section \<open>A line is processed without looking at the input\<close>

lemma addEventBytes_with_input:
  "addEventBytes n (d\<lparr>sd_input := x\<rparr>) = (case addEventBytes n d of (r, d') \<Rightarrow> (r, d'\<lparr>sd_input := x\<rparr>))"
  by (simp add: addEventBytes_def Let_def)

lemma processLine_with_input:
  "processLine l (d\<lparr>sd_input := x\<rparr>) = (case processLine l d of (r, d') \<Rightarrow> (r, d'\<lparr>sd_input := x\<rparr>))"
  by (auto simp: processLine_def split: prod.splits option.splits)

lemma sse_line_with_input:
  "sse_line l t (d\<lparr>sd_input := x\<rparr>) = (case sse_line l t d of (r, d') \<Rightarrow> (r, d'\<lparr>sd_input := x\<rparr>))"
  by (auto simp: sse_line_def addEventBytes_with_input processLine_with_input go_bind_def
      hasPendingEvent_def dispatch_def split: prod.splits sum.splits)

definition sse_accept :: "gobytes \<Rightarrow> SSEDecoder \<Rightarrow> (sse_error, SSEEvent option, SSEDecoder) go" where
  "sse_accept l d =
     (if sd_bomHandled d then sse_line l True d
      else sse_line (stripLeadingBOM l) True (d\<lparr>sd_bomHandled := True\<rparr>))"

lemma sse_accept_with_input:
  "sse_accept l (d\<lparr>sd_input := x\<rparr>) = (case sse_accept l d of (r, d') \<Rightarrow> (r, d'\<lparr>sd_input := x\<rparr>))"
proof -
  have "sse_line m True (d\<lparr>sd_input := x, sd_bomHandled := True\<rparr>) =
      sse_line m True (d\<lparr>sd_bomHandled := True, sd_input := x\<rparr>)" for m
    by (rule arg_cong [where f = "sse_line m True"]) simp
  then show ?thesis by (simp add: sse_accept_def sse_line_with_input)
qed

lemma sse_round_accept:
  "readLine_loop (lineLimit (sd_options d)) (sd_readerr d) [] (sd_input d) = (Inr (l, True), x) \<Longrightarrow>
     sse_round d = (case sse_accept l d of (r, d') \<Rightarrow> (r, d'\<lparr>sd_input := x\<rparr>))"
  using sse_accept_with_input [of l x d] by (simp add: sse_round_def readLine_def sse_accept_def)

lemma sse_round_render:
  assumes "line_end e" "\<forall>l' \<in> set (l # ls). plain_line l'" "sd_readerr d = None"
    and "0 \<le> fst (lineLimit (sd_options d))" "sd_input d = render e (l # ls)"
  shows "len l \<le> fst (lineLimit (sd_options d)) \<Longrightarrow>
      sse_round d = (case sse_accept l d of (r, d') \<Rightarrow> (r, d'\<lparr>sd_input := render e ls\<rparr>))"
    and "fst (lineLimit (sd_options d)) < len l \<Longrightarrow>
      fst (sse_round d) = Inl (ErrSSELimitExceeded (snd (lineLimit (sd_options d))) (fst (lineLimit (sd_options d))))"
proof -
  note rl = readLine_render [OF assms(1-3), of "lineLimit (sd_options d)", OF assms(4)]
  show "sse_round d = (case sse_accept l d of (r, d') \<Rightarrow> (r, d'\<lparr>sd_input := render e ls\<rparr>))"
    if "len l \<le> fst (lineLimit (sd_options d))"
    using rl(1) [OF that] assms(3,5) by (intro sse_round_accept) simp
  show "fst (sse_round d) = Inl (ErrSSELimitExceeded (snd (lineLimit (sd_options d))) (fst (lineLimit (sd_options d))))"
    if "fst (lineLimit (sd_options d)) < len l"
    using rl(2) [OF that] assms(3,5)
    by (auto simp: sse_round_def readLine_def split: prod.splits sum.splits)
qed

lemma sse_accept_fields:
  assumes "sse_accept l d = (Inr r, d')"
  shows "sd_readerr d' = sd_readerr d" "sd_options d' = sd_options d" "sd_terminalErr d' = sd_terminalErr d"
  using assms
  by (auto simp: sse_accept_def sse_line_def addEventBytes_def processLine_def dispatch_def go_bind_Inr_iff Let_def
      split: if_splits prod.splits option.splits)

text \<open>Decoders that differ only in how the lines still to come are terminated see the same stream.\<close>

lemma sse_events_line_end:
  assumes "line_end e1" "line_end e2" "\<forall>l \<in> set ls. plain_line l"
    and "sd_readerr d = None" "sd_terminalErr d = None" "0 \<le> fst (lineLimit (sd_options d))"
  shows "sse_events (d\<lparr>sd_input := render e1 ls\<rparr>) = sse_events (d\<lparr>sd_input := render e2 ls\<rparr>)"
  using assms(3-)
proof (induction ls arbitrary: d)
  case (Cons l ls)
  define d1 d2 where "d1 = d\<lparr>sd_input := render e1 (l # ls)\<rparr>" and "d2 = d\<lparr>sd_input := render e2 (l # ls)\<rparr>"
  have idle: "sd_terminalErr d1 = None" "sd_terminalErr d2 = None"
    "sd_readerr d1 = None" "sd_readerr d2 = None" "sd_options d1 = sd_options d" "sd_options d2 = sd_options d"
    using Cons.prems by (simp_all add: d1_def d2_def)
  have acc: "sse_accept l d1 = (case sse_accept l d of (r, d') \<Rightarrow> (r, d'\<lparr>sd_input := sd_input d1\<rparr>))"
    "sse_accept l d2 = (case sse_accept l d of (r, d') \<Rightarrow> (r, d'\<lparr>sd_input := sd_input d2\<rparr>))"
    by (simp_all add: d1_def d2_def sse_accept_with_input)
  show ?case
  proof (cases "len l \<le> fst (lineLimit (sd_options d))")
    case True
    obtain r d' where sa: "sse_accept l d = (r, d')" by fastforce
    have rounds: "sse_round d1 = (r, d'\<lparr>sd_input := render e1 ls\<rparr>)" "sse_round d2 = (r, d'\<lparr>sd_input := render e2 ls\<rparr>)"
      using sse_round_render(1) [OF assms(1) Cons.prems(1), of d1] sse_round_render(1) [OF assms(2) Cons.prems(1), of d2]
        True Cons.prems idle sa acc by (simp_all add: d1_def d2_def)
    have "sse_events (d'\<lparr>sd_input := render e1 ls\<rparr>) = sse_events (d'\<lparr>sd_input := render e2 ls\<rparr>)" if "r = Inr q" for q
      using Cons.prems sse_accept_fields [of l d q d'] sa that by (intro Cons.IH) simp_all
    with rounds idle show ?thesis unfolding d1_def [symmetric] d2_def [symmetric]
      by (simp add: sse_events_round [of d1] sse_events_round [of d2] split: sum.split option.split)
  next
    case False
    have "fst (sse_round d1) = fst (sse_round d2)" "\<exists>err. fst (sse_round d1) = Inl err"
      using sse_round_render(2) [OF assms(1) Cons.prems(1), of d1] sse_round_render(2) [OF assms(2) Cons.prems(1), of d2]
        False Cons.prems idle by (simp_all add: d1_def d2_def)
    with idle show ?thesis unfolding d1_def [symmetric] d2_def [symmetric]
      by (auto simp: sse_events_round [of d1] sse_events_round [of d2] split: prod.split)
  qed
qed simp

section \<open>Decoding an encoded event\<close>

text \<open>
  The encoding of a payload given as lines, as a provider sends it: one \<open>data\<close> field per line and
  a blank line.
\<close>

definition sse_encode :: "gobytes list \<Rightarrow> gobytes" where
  "sse_encode ls = render [LF] (map (\<lambda>l. ''data: '' @ l) ls @ [[]])"

fun join_lines :: "gobytes list \<Rightarrow> gobytes" where
  "join_lines [] = []"
| "join_lines [l] = l"
| "join_lines (l # ls) = l @ [LF] @ join_lines ls"

lemma join_lines_butlast: "ls \<noteq> [] \<Longrightarrow> join_lines ls @ [LF] = concat (map (\<lambda>l. l @ [LF]) ls)"
  by (induction ls rule: join_lines.induct) auto

abbreviation data_size :: "gobytes list \<Rightarrow> int" where
  "data_size ls \<equiv> (\<Sum>l \<leftarrow> ls. len l + 7)"

lemma data_size_nonneg: "0 \<le> data_size ls"
  by (rule sum_list_nonneg) auto

lemma readLine_loop_LF:
  assumes "plain_line l" "len l \<le> fst lim"
  shows "readLine_loop lim re [] (l @ LF # x) = (Inr (l, True), x)"
  using readLine_loop_plain(1) [OF assms(1), of "[]" lim re "LF # x"] assms(2) by simp

lemma lineLimit_le: "fst (lineLimit opts) \<le> MaxLineBytes opts" "fst (lineLimit opts) \<le> MaxBufferedBytes opts"
  by (simp_all add: lineLimit_def Let_def)

lemma splitField_data: "splitField (''data: '' @ l) = (''data'', l)"
  by (simp add: splitField_def)

lemma sse_round_data:
  assumes "sd_bomHandled d" "plain_line l" "utf8_Valid l" "len l + 6 \<le> fst (lineLimit (sd_options d))"
    and "sd_input d = ''data: '' @ l @ LF # x" "len (sd_data d) \<le> sd_eventBytes d"
    and "sd_eventBytes d + len l + 7 \<le> MaxEventBytes (sd_options d)"
    and "sd_eventBytes d + len l + 7 \<le> MaxBufferedBytes (sd_options d)"
  shows "sse_round d = (Inr None, d\<lparr>sd_input := x, sd_eventBytes := sd_eventBytes d + len l + 7,
                                   sd_data := sd_data d @ l @ [LF]\<rparr>)"
proof -
  have plain: "plain_line (''data: '' @ l)" using assms(2) by simp
  have utf: "utf8_Valid (''data: '' @ l)" using assms(3) by (simp add: utf8_Valid_ascii)
  have "readLine_loop (lineLimit (sd_options d)) (sd_readerr d) [] (sd_input d) = (Inr (''data: '' @ l, True), x)"
    using readLine_loop_LF [OF plain, of "lineLimit (sd_options d)" "sd_readerr d" x] assms(4,5) by simp
  moreover have "sse_accept (''data: '' @ l) d =
      (Inr None, d\<lparr>sd_eventBytes := sd_eventBytes d + len l + 7, sd_data := sd_data d @ l @ [LF]\<rparr>)"
    using assms utf lineLimit_le [of "sd_options d"] splitField_data [of l]
    by (simp add: sse_accept_def sse_line_def addEventBytes_def processLine_def)
  ultimately show ?thesis by (simp add: sse_round_accept)
qed

lemma sse_round_blank:
  assumes "sd_bomHandled d" "sd_input d = LF # x" "sd_data d \<noteq> []" "butlast (sd_data d) \<noteq> []"
    and "0 \<le> fst (lineLimit (sd_options d))" "sd_eventBytes d + 1 \<le> MaxEventBytes (sd_options d)"
    and "sd_eventBytes d + 1 \<le> MaxBufferedBytes (sd_options d)"
  shows "sse_round d =
    (Inr (Some \<lparr>ev_Event = sd_event d, ev_ID = sd_id d, ev_Retry = sd_retry d, ev_Data = butlast (sd_data d)\<rparr>),
     d\<lparr>sd_input := x, sd_data := [], sd_event := [], sd_retry := None, sd_eventBytes := 0\<rparr>)"
proof -
  have "readLine_loop (lineLimit (sd_options d)) (sd_readerr d) [] (sd_input d) = (Inr ([], True), x)"
    using readLine_loop_LF [of "[]" "lineLimit (sd_options d)" "sd_readerr d" x] assms(2,5) by simp
  from sse_round_accept [OF this] show ?thesis
    using assms by (simp add: sse_accept_def sse_line_def addEventBytes_def hasPendingEvent_def dispatch_def)
qed

lemma sse_loop_encoded:
  assumes "sd_bomHandled d" "sd_input d = sse_encode ls @ x" "len (sd_data d) \<le> sd_eventBytes d"
    and "\<forall>l \<in> set ls. plain_line l \<and> utf8_Valid l \<and> len l + 6 \<le> fst (lineLimit (sd_options d))"
    and "0 \<le> fst (lineLimit (sd_options d))"
    and "sd_eventBytes d + data_size ls + 1 \<le> MaxEventBytes (sd_options d)"
    and "sd_eventBytes d + data_size ls + 1 \<le> MaxBufferedBytes (sd_options d)"
    and "sd_data d @ concat (map (\<lambda>l. l @ [LF]) ls) = p @ [LF]" "p \<noteq> []"
  shows "sse_loop d =
    (Inr \<lparr>ev_Event = sd_event d, ev_ID = sd_id d, ev_Retry = sd_retry d, ev_Data = p\<rparr>,
     d\<lparr>sd_input := x, sd_data := [], sd_event := [], sd_retry := None, sd_eventBytes := 0\<rparr>)"
  using assms
proof (induction ls arbitrary: d)
  case Nil
  then have "sd_data d = p @ [LF]" by simp
  with Nil show ?case
    by (subst sse_loop.simps) (simp add: sse_encode_def sse_round_blank)
next
  case (Cons l ls)
  let ?d = "d\<lparr>sd_input := sse_encode ls @ x, sd_eventBytes := sd_eventBytes d + len l + 7,
              sd_data := sd_data d @ l @ [LF]\<rparr>"
  have "sse_round d = (Inr None, ?d)"
    using Cons.prems data_size_nonneg [of ls] by (intro sse_round_data) (simp_all add: sse_encode_def)
  then have "sse_loop d = sse_loop ?d" by (simp add: sse_loop.simps [of d])
  also have "\<dots> = (Inr \<lparr>ev_Event = sd_event ?d, ev_ID = sd_id ?d, ev_Retry = sd_retry ?d, ev_Data = p\<rparr>,
     ?d\<lparr>sd_input := x, sd_data := [], sd_event := [], sd_retry := None, sd_eventBytes := 0\<rparr>)"
    using Cons.prems by (intro Cons.IH) (simp_all add: algebra_simps)
  finally show ?case by simp
qed

section \<open>End of the stream\<close>

lemma lineLimit_pos: "0 < fst (lineLimit (withDefaults opts))"
  using withDefaults_positive [of opts] by (simp add: lineLimit_def Let_def)

lemma sse_events_bounds:
  assumes "sse_inv d"
  shows "\<forall>ev \<in> set (fst (sse_events d)). ev_Data ev \<noteq> [] \<and> len (ev_Data ev) < MaxEventBytes (sd_options d)"
  using assms
proof (induction d rule: sse_events.induct)
  case (1 d)
  obtain r d1 where nxt: "sse_Next d = (r, d1)" by fastforce
  show ?case
  proof (cases r)
    case (Inl e)
    with nxt show ?thesis by (simp add: sse_events.simps [of d])
  next
    case (Inr ev)
    with nxt have loop: "sse_loop d = (Inr ev, d1)" by (simp add: sse_Next_def split: option.splits)
    note inv = sse_loop_inv [OF "1.prems" loop]
    from "1.IH" [OF nxt [symmetric] Inr] inv
    have "\<forall>e \<in> set (fst (sse_events d1)). ev_Data e \<noteq> [] \<and> len (ev_Data e) < MaxEventBytes (sd_options d)"
      by simp
    with nxt Inr inv show ?thesis by (auto simp: sse_events.simps [of d] split: prod.splits)
  qed
qed

lemma readLine_loop_EOF: "readLine_loop lim re line input = (Inl SSE_EOF, rest) \<Longrightarrow> rest = [] \<and> re = None"
  by (induction lim re line input rule: readLine_loop.induct) (auto split: option.splits if_splits list.splits)

lemma sse_round_EOF:
  assumes "sse_round d = (Inl SSE_EOF, d')"
  shows "sd_input d' = [] \<and> sd_readerr d' = None \<and> \<not> hasPendingEvent d' \<and> sd_terminalErr d' = sd_terminalErr d"
  using assms
  by (auto simp: sse_round_def readLine_def sse_line_def addEventBytes_def processLine_def dispatch_def Let_def
      elim!: go_bind_cases dest!: readLine_loop_EOF split: prod.splits sum.splits if_splits option.splits)

lemma sse_loop_EOF:
  "sse_loop d = (Inl SSE_EOF, d') \<Longrightarrow> sd_terminalErr d = None \<Longrightarrow>
     sd_input d' = [] \<and> sd_readerr d' = None \<and> \<not> hasPendingEvent d' \<and> sd_terminalErr d' = None"
proof (induction d arbitrary: d' rule: sse_loop.induct)
  case (1 d)
  obtain q d1 where rnd: "sse_round d = (q, d1)" by fastforce
  show ?case
  proof (cases q)
    case (Inl e)
    with rnd "1.prems" sse_round_EOF [of d d1] show ?thesis
      by (auto simp: sse_loop.simps [of d] rememberError_def split: if_splits)
  next
    case (Inr o1)
    with rnd "1.prems" have "sd_terminalErr d1 = None" using sse_round_terminalErr by fastforce
    with rnd Inr "1.prems" "1.IH" [OF rnd [symmetric] Inr] show ?thesis
      by (cases o1) (auto simp: sse_loop.simps [of d])
  qed
qed

lemma sse_loop_error:
  "sse_loop d = (Inl e, d') \<Longrightarrow> e \<noteq> SSE_EOF \<Longrightarrow> sd_terminalErr d' = Some e"
proof (induction d arbitrary: d' rule: sse_loop.induct)
  case (1 d)
  obtain q d1 where rnd: "sse_round d = (q, d1)" by fastforce
  show ?case
  proof (cases q)
    case (Inl e')
    with rnd "1.prems" show ?thesis
      by (auto simp: sse_loop.simps [of d] rememberError_def split: if_splits)
  next
    case (Inr o1)
    with rnd "1.prems" "1.IH" [OF rnd [symmetric] Inr] show ?thesis
      by (cases o1) (auto simp: sse_loop.simps [of d])
  qed
qed

lemma sse_loop_at_end:
  assumes "sd_input d = []" "sd_readerr d = None" "\<not> hasPendingEvent d"
  shows "sse_loop d = (Inl SSE_EOF, d)"
  using assms
  by (subst sse_loop.simps) (simp add: sse_round_def readLine_def hasPendingEvent_def)

section \<open>Whole streams\<close>

lemma render_append [simp]: "render e (ls @ ms) = render e ls @ render e ms"
  by (simp add: render_def)

text \<open>A stream of payloads, each given as lines, and the event a payload is read as.\<close>

definition sse_lines :: "gobytes list list \<Rightarrow> gobytes list" where
  "sse_lines payloads = concat (map (\<lambda>ls. map (\<lambda>l. ''data: '' @ l) ls @ [[]]) payloads)"

definition payload_event :: "gobytes list \<Rightarrow> SSEEvent" where
  "payload_event ls = \<lparr>ev_Event = [], ev_ID = [], ev_Retry = None, ev_Data = join_lines ls\<rparr>"

abbreviation BOM :: gobytes where "BOM \<equiv> [CHR 0xEF, CHR 0xBB, CHR 0xBF]"

text \<open>What a payload has to be for the limits of the decoder, if each of its lines has \<open>spare\<close> bytes before it.\<close>

definition payload_fits :: "SSEDecoderOptions \<Rightarrow> int \<Rightarrow> gobytes list \<Rightarrow> bool" where
  "payload_fits opts spare ls \<longleftrightarrow> join_lines ls \<noteq> []
     \<and> list_all (\<lambda>l. plain_line l \<and> utf8_Valid l \<and> spare + len l + 6 \<le> fst (lineLimit opts)) ls
     \<and> data_size ls + 1 \<le> MaxEventBytes opts \<and> data_size ls + 1 \<le> MaxBufferedBytes opts"

lemma sse_lines_simps [simp]: "sse_lines [] = []" "sse_lines (ls # ps) = map (\<lambda>l. ''data: '' @ l) ls @ [] # sse_lines ps"
  by (simp_all add: sse_lines_def)

lemma sse_lines_plain: "list_all (payload_fits opts spare) payloads \<Longrightarrow> \<forall>l \<in> set (sse_lines payloads). plain_line l"
  by (induction payloads) (auto simp: payload_fits_def list_all_iff)

lemma sse_events_payloads:
  assumes "sd_terminalErr d = None" "\<not> hasPendingEvent d" "sd_eventBytes d = 0" "sd_bomHandled d" "sd_readerr d = None" "sd_id d = []"
    and "sd_input d = render [LF] (sse_lines payloads)" "list_all (payload_fits (sd_options d) spare) payloads"
    and "0 \<le> spare" "0 \<le> fst (lineLimit (sd_options d))"
  shows "sse_events d = (map payload_event payloads, SSE_EOF)"
  using assms
proof (induction payloads arbitrary: d)
  case Nil
  then show ?case by (subst sse_events.simps) (simp add: sse_Next_def sse_loop_at_end)
next
  case (Cons ls payloads)
  let ?e = "d\<lparr>sd_input := render [LF] (sse_lines payloads), sd_data := [], sd_event := [], sd_retry := None, sd_eventBytes := 0\<rparr>"
  have fits: "payload_fits (sd_options d) spare ls" using Cons.prems by simp
  then have "ls \<noteq> []" by (auto simp: payload_fits_def)
  from join_lines_butlast [OF this] have "sse_loop d = (Inr \<lparr>ev_Event = sd_event d, ev_ID = sd_id d, ev_Retry = sd_retry d, ev_Data = join_lines ls\<rparr>, ?e)"
    using Cons.prems fits
    by (intro sse_loop_encoded) (auto simp: hasPendingEvent_def payload_fits_def list_all_iff sse_encode_def)
  then have "sse_Next d = (Inr (payload_event ls), ?e)"
    using Cons.prems by (simp add: sse_Next_def hasPendingEvent_def payload_event_def)
  moreover have "sse_events ?e = (map payload_event payloads, SSE_EOF)"
    using Cons.prems by (intro Cons.IH) (simp_all add: hasPendingEvent_def)
  ultimately show ?case by (subst sse_events.simps) simp
qed

text \<open>The first line of a stream, with a byte order mark or without, is read as it is read later without one.\<close>

lemma stripLeadingBOM_data: "bom = [] \<or> bom = BOM \<Longrightarrow> stripLeadingBOM (bom @ ''data: '' @ l) = ''data: '' @ l"
  by (auto simp: stripLeadingBOM_def)

lemma sse_first_line:
  assumes bom: "bom = [] \<or> bom = BOM" and l: "plain_line l" "len bom + len l + 6 \<le> fst (lineLimit (sd_options d))"
    and d: "sd_input d = bom @ ''data: '' @ l @ LF # x" "\<not> sd_bomHandled d" "sd_terminalErr d = None"
  shows "sse_events d = sse_events (d\<lparr>sd_bomHandled := True, sd_input := ''data: '' @ l @ LF # x\<rparr>)"
proof -
  let ?e = "d\<lparr>sd_bomHandled := True, sd_input := ''data: '' @ l @ LF # x\<rparr>"
  have plain: "plain_line (bom @ ''data: '' @ l)" "plain_line (''data: '' @ l)" using bom l(1) by auto
  have "readLine_loop (lineLimit (sd_options d)) (sd_readerr d) [] (sd_input d) = (Inr (bom @ ''data: '' @ l, True), x)"
    using readLine_loop_LF [OF plain(1), of "lineLimit (sd_options d)" "sd_readerr d" x] l(2) d(1) by simp
  note 1 = sse_round_accept [OF this]
  have "readLine_loop (lineLimit (sd_options ?e)) (sd_readerr ?e) [] (sd_input ?e) = (Inr (''data: '' @ l, True), x)"
    using readLine_loop_LF [OF plain(2), of "lineLimit (sd_options d)" "sd_readerr d" x] l(2) by simp
  note 2 = sse_round_accept [OF this]
  have "sse_accept (''data: '' @ l) ?e = sse_line (''data: '' @ l) True ((d\<lparr>sd_bomHandled := True\<rparr>)\<lparr>sd_input := ''data: '' @ l @ LF # x\<rparr>)"
    by (simp add: sse_accept_def)
  also have "\<dots> = (case sse_line (''data: '' @ l) True (d\<lparr>sd_bomHandled := True\<rparr>) of (r, d') \<Rightarrow> (r, d'\<lparr>sd_input := ''data: '' @ l @ LF # x\<rparr>))"
    by (rule sse_line_with_input)
  also have "sse_line (''data: '' @ l) True (d\<lparr>sd_bomHandled := True\<rparr>) = sse_accept (bom @ ''data: '' @ l) d"
    using d(2) by (simp only: sse_accept_def stripLeadingBOM_data [OF bom] if_False)
  finally have round: "sse_round ?e = sse_round d" unfolding 1 2 by (simp split: prod.split)
  have "sd_terminalErr ?e = None" using d(3) by simp
  from sse_events_round [OF this] show ?thesis unfolding sse_events_round [OF d(3)] round by (rule sym)
qed

section \<open>Properties\<close>

text \<open>
  C24: A stream of encoded events is decoded to exactly its payloads, in order, and then to the end of the stream, by a
  decoder that has just been made: each payload is sent as one \<open>data\<close> field per line and a blank line, the lines of the
  stream end in LF, CR LF or CR, and a byte order mark may stand before the first of them. The hypotheses are the limits
  the decoder enforces, that no payload is empty, and that the lines are valid UTF-8 without line terminators.
\<close>

theorem sse_decode_encode:
  assumes "line_end e" "bom = [] \<or> bom = BOM \<and> payloads \<noteq> []"
    and "list_all (payload_fits (withDefaults opts) (len bom)) payloads"
  shows "sse_events (NewSSEDecoder (bom @ render e (sse_lines payloads)) None opts) = (map payload_event payloads, SSE_EOF)"
proof -
  let ?d = "\<lambda>x. NewSSEDecoder x None opts"
  have input: "?d x = (?d [])\<lparr>sd_input := x\<rparr>" for x by (simp add: NewSSEDecoder_def)
  have lim: "0 \<le> fst (lineLimit (withDefaults opts))" using lineLimit_pos [of opts] by simp
  show ?thesis
  proof (cases payloads)
    case Nil
    then show ?thesis using assms(2)
      by (subst sse_events.simps) (simp add: sse_Next_def sse_loop_at_end NewSSEDecoder_def hasPendingEvent_def)
  next
    case (Cons p ps)
    obtain l ls where p: "p = l # ls" using assms(3) Cons by (cases p) (auto simp: payload_fits_def)
    have bom: "bom = [] \<or> bom = BOM" using assms(2) by blast
    have l: "plain_line l" "len bom + len l + 6 \<le> fst (lineLimit (withDefaults opts))"
      using assms(3) Cons p by (simp_all add: payload_fits_def)
    define rest where "rest = map (\<lambda>l. ''data: '' @ l) ls @ [] # sse_lines ps"
    have lines: "sse_lines payloads = (''data: '' @ l) # rest" by (simp add: Cons p rest_def)
    have plain: "\<forall>k \<in> set ((bom @ ''data: '' @ l) # rest). plain_line k"
      using sse_lines_plain [OF assms(3)] bom unfolding lines by auto
    have "sse_events (?d (bom @ render e (sse_lines payloads))) = sse_events ((?d [])\<lparr>sd_input := render e ((bom @ ''data: '' @ l) # rest)\<rparr>)"
      unfolding lines input [of "bom @ _"] by simp
    also have "\<dots> = sse_events ((?d [])\<lparr>sd_input := render [LF] ((bom @ ''data: '' @ l) # rest)\<rparr>)"
      using lim by (intro sse_events_line_end assms(1) plain) (simp_all add: line_end_def NewSSEDecoder_def)
    also have "\<dots> = sse_events ((?d [])\<lparr>sd_input := render [LF] ((bom @ ''data: '' @ l) # rest),
        sd_bomHandled := True, sd_input := ''data: '' @ l @ LF # render [LF] rest\<rparr>)"
      using l by (intro sse_first_line [OF bom]) (simp_all add: NewSSEDecoder_def)
    also have "\<dots> = (map payload_event payloads, SSE_EOF)"
      using assms(3) lim
      by (intro sse_events_payloads [where spare = "len bom"]) (simp_all add: NewSSEDecoder_def hasPendingEvent_def lines)
    finally show ?thesis .
  qed
qed

theorem sse_decode_encode_witness:
  "sse_events (NewSSEDecoder (BOM @ render [CR, LF] [''data: a'', ''data: b'', [], ''data: c'', []]) None
      \<lparr>MaxLineBytes = 64, MaxEventBytes = 64, MaxBufferedBytes = 64, MaxAggregateBytes = 0, MaxToolCallArgumentBytes = 0, ReadBufferBytes = 0\<rparr>)
    = ([payload_event [''a'', ''b''], payload_event [''c'']], SSE_EOF)"
proof -
  let ?o = "\<lparr>MaxLineBytes = 64, MaxEventBytes = 64, MaxBufferedBytes = 64, MaxAggregateBytes = 0, MaxToolCallArgumentBytes = 0, ReadBufferBytes = 0\<rparr>"
  have "line_end [CR, LF]" by (simp add: line_end_def)
  moreover have "BOM = [] \<or> BOM = BOM \<and> [[''a'', ''b''], [''c'']] \<noteq> []" by simp
  moreover have "list_all (payload_fits (withDefaults ?o) (len BOM)) [[''a'', ''b''], [''c'']]"
    by (simp add: payload_fits_def withDefaults_def lineLimit_def utf8_Valid_ascii)
  ultimately have "sse_events (NewSSEDecoder (BOM @ render [CR, LF] (sse_lines [[''a'', ''b''], [''c'']])) None ?o)
      = (map payload_event [[''a'', ''b''], [''c'']], SSE_EOF)" by (rule sse_decode_encode)
  then show ?thesis by simp
qed

text \<open>
  the three line terminators of the wire format are interchangeable. A stream of lines decodes
  to the same events and the same final error whether the lines end in LF, CR LF or CR, for all
  lines and all limits, valid or not.
\<close>

theorem sse_line_terminators:
  assumes "line_end e1" "line_end e2" "\<forall>l \<in> set ls. plain_line l"
  shows "sse_events (NewSSEDecoder (render e1 ls) None opts) = sse_events (NewSSEDecoder (render e2 ls) None opts)"
proof -
  let ?d = "NewSSEDecoder [] None opts"
  have eq: "NewSSEDecoder x None opts = ?d\<lparr>sd_input := x\<rparr>" for x by (simp add: NewSSEDecoder_def)
  have "0 \<le> fst (lineLimit (sd_options ?d))" "sd_readerr ?d = None" "sd_terminalErr ?d = None"
    using lineLimit_pos [of opts] by (simp_all add: NewSSEDecoder_def)
  then have "sse_events (?d\<lparr>sd_input := render e1 ls\<rparr>) = sse_events (?d\<lparr>sd_input := render e2 ls\<rparr>)"
    by (intro sse_events_line_end assms)
  then show ?thesis by (simp only: eq [of "render e1 ls"] eq [of "render e2 ls"])
qed

theorem sse_line_terminators_witness:
  "sse_events (NewSSEDecoder (render [CR] [''data: x'', []]) None
     \<lparr>MaxLineBytes = 9, MaxEventBytes = 9, MaxBufferedBytes = 9, MaxAggregateBytes = 0,
      MaxToolCallArgumentBytes = 0, ReadBufferBytes = 0\<rparr>) =
   sse_events (NewSSEDecoder (render [CR, LF] [''data: x'', []]) None
     \<lparr>MaxLineBytes = 9, MaxEventBytes = 9, MaxBufferedBytes = 9, MaxAggregateBytes = 0,
      MaxToolCallArgumentBytes = 0, ReadBufferBytes = 0\<rparr>)"
  by (rule sse_line_terminators) (auto simp: line_end_def)

text \<open>
  every event the decoder dispatches carries a non-empty payload strictly smaller than the
  event limit, whatever bytes arrive.
\<close>

theorem sse_event_bound:
  assumes "ev \<in> set (fst (sse_events (NewSSEDecoder input readerr opts)))"
  shows "ev_Data ev \<noteq> [] \<and> len (ev_Data ev) < MaxEventBytes (withDefaults opts)"
  using sse_events_bounds [OF NewSSEDecoder_inv] assms by (auto simp: NewSSEDecoder_def)

text \<open>
  a failed decoder stays failed. Once \<open>Next\<close> has returned an error, the end of the stream
  included, every later call returns the same error and reads nothing more.
\<close>

theorem sse_Next_sticky:
  assumes "sse_Next d = (Inl e, d')"
  shows "sse_Next d' = (Inl e, d')"
proof (cases "sd_terminalErr d")
  case None
  with assms have loop: "sse_loop d = (Inl e, d')" by (simp add: sse_Next_def)
  show ?thesis
  proof (cases "e = SSE_EOF")
    case True
    with sse_loop_EOF [of d d'] loop None show ?thesis
      by (simp add: sse_Next_def sse_loop_at_end)
  next
    case False
    with sse_loop_error [OF loop] show ?thesis by (simp add: sse_Next_def)
  qed
next
  case (Some e')
  with assms show ?thesis by (simp add: sse_Next_def)
qed

text \<open>A decoder over an unterminated field: the truncated event is rejected, and keeps being so.\<close>

abbreviation small_options :: SSEDecoderOptions where
  "small_options \<equiv> \<lparr>MaxLineBytes = 64, MaxEventBytes = 64, MaxBufferedBytes = 64, MaxAggregateBytes = 0,
     MaxToolCallArgumentBytes = 0, ReadBufferBytes = 0\<rparr>"

lemma truncated_example:
  "fst (sse_Next (NewSSEDecoder (''data: x'' @ [LF]) None small_options)) = Inl ErrSSEUnexpectedEOF"
  by code_simp

lemma event_example:
  "fst (sse_events (NewSSEDecoder (sse_encode [''x'']) None small_options)) =
     [\<lparr>ev_Event = [], ev_ID = [], ev_Retry = None, ev_Data = ''x''\<rparr>]"
  by code_simp

theorem sse_event_bound_witness:
  "len (ev_Data \<lparr>ev_Event = [], ev_ID = [], ev_Retry = None, ev_Data = ''x''\<rparr>) < MaxEventBytes (withDefaults small_options)"
proof -
  have "\<lparr>ev_Event = [], ev_ID = [], ev_Retry = None, ev_Data = ''x''\<rparr> \<in>
      set (fst (sse_events (NewSSEDecoder (sse_encode [''x'']) None small_options)))"
    by (simp add: event_example)
  from sse_event_bound [OF this] show ?thesis by blast
qed

theorem sse_Next_sticky_witness:
  "sse_Next (snd (sse_Next (NewSSEDecoder (''data: x'' @ [LF]) None small_options))) =
     (Inl ErrSSEUnexpectedEOF, snd (sse_Next (NewSSEDecoder (''data: x'' @ [LF]) None small_options)))"
  by (rule sse_Next_sticky [of "NewSSEDecoder (''data: x'' @ [LF]) None small_options"])
    (metis truncated_example prod.collapse)

end
