(* ===== verification/Go_Json.thy ===== *)
theory Go_Json
  imports Utf8
begin

text \<open>
  The part of \<open>encoding/json\<close> the gateway uses: the scanner's grammar (which texts are JSON, where
  a value ends), the decoding of string literals, and the encoding of strings. Bytes are \<open>char\<close>s, so
  lengths are byte lengths as in Go. Strings are decoded as Go decodes them: a malformed byte and an
  unpaired surrogate escape become the replacement character.
\<close>

section \<open>String literals\<close>

definition hex_digit :: "nat \<Rightarrow> char" where
  "hex_digit n = (if n < 10 then char_of (48 + n) else char_of (87 + n))"

definition hex_value :: "char \<Rightarrow> nat option" where
  "hex_value c =
     (if in_range 48 57 c then Some (byte c - 48)
      else if in_range 97 102 c then Some (byte c - 87)
      else if in_range 65 70 c then Some (byte c - 55)
      else None)"

text \<open>\<open>appendString\<close> with HTML escaping, as \<open>json.Marshal\<close> calls it: the text between the quotes.\<close>

definition escape_byte :: "char \<Rightarrow> gostring" where
  "escape_byte c =
     (if c = CHR 0x5C \<or> c = CHR 0x22 then [CHR 0x5C, c]
      else if c = CHR 0x08 then [CHR 0x5C, CHR ''b'']
      else if c = CHR 0x0C then [CHR 0x5C, CHR ''f'']
      else if c = CHR 0x0A then [CHR 0x5C, CHR ''n'']
      else if c = CHR 0x0D then [CHR 0x5C, CHR ''r'']
      else if c = CHR 0x09 then [CHR 0x5C, CHR ''t'']
      else if byte c < 0x20 \<or> c = CHR ''<'' \<or> c = CHR ''>'' \<or> c = CHR ''&''
      then [CHR 0x5C, CHR ''u'', CHR ''0'', CHR ''0'', hex_digit (byte c div 16), hex_digit (byte c mod 16)]
      else [c])"

definition escape_rune :: "gostring \<Rightarrow> gostring" where
  "escape_rune r =
     (if r = [CHR 0xE2, CHR 0x80, CHR 0xA8] then [CHR 0x5C] @ ''u2028''
      else if r = [CHR 0xE2, CHR 0x80, CHR 0xA9] then [CHR 0x5C] @ ''u2029''
      else r)"

function escape :: "gostring \<Rightarrow> gostring" where
  "escape s =
     (case s of
        [] \<Rightarrow> []
      | c # cs \<Rightarrow>
          if byte c < 0x80 then escape_byte c @ escape cs
          else if rune_width s = 0 then [CHR 0x5C] @ ''ufffd'' @ escape cs
          else escape_rune (take (rune_width s) s) @ escape (drop (rune_width s) s))"
  by pat_completeness auto
termination
  by (relation "measure length") (auto simp del: rune_width.simps)

declare escape.simps [simp del]

definition quote :: "gostring \<Rightarrow> gostring" where
  "quote s = CHR 0x22 # escape s @ [CHR 0x22]"

text \<open>
  The scanner inside a string literal, from the byte after the opening quote: the raw text up to the
  closing quote and what follows it.
\<close>

fun scan_string :: "gostring \<Rightarrow> (gostring \<times> gostring) option" where
  "scan_string [] = None"
| "scan_string (c # cs) =
     (if c = CHR 0x22 then Some ([], cs)
      else if byte c < 0x20 then None
      else if c = CHR 0x5C then
        (case cs of
           [] \<Rightarrow> None
         | e # es \<Rightarrow>
             if e = CHR ''u'' then
               (case es of
                  h1 # h2 # h3 # h4 # rest \<Rightarrow>
                    if hex_value h1 \<noteq> None \<and> hex_value h2 \<noteq> None \<and> hex_value h3 \<noteq> None \<and> hex_value h4 \<noteq> None
                    then map_option (\<lambda>(raw, r). (c # e # h1 # h2 # h3 # h4 # raw, r)) (scan_string rest)
                    else None
                | _ \<Rightarrow> None)
             else if e \<in> set [CHR ''b'', CHR ''f'', CHR ''n'', CHR ''r'', CHR ''t'', CHR 0x5C, CHR ''/'', CHR 0x22]
             then map_option (\<lambda>(raw, r). (c # e # raw, r)) (scan_string es)
             else None)
      else map_option (\<lambda>(raw, r). (c # raw, r)) (scan_string cs))"

text \<open>\<open>utf8.EncodeRune\<close> on a code point.\<close>

definition replacement :: gostring where
  "replacement = [CHR 0xEF, CHR 0xBF, CHR 0xBD]"

definition encode_rune :: "nat \<Rightarrow> gostring" where
  "encode_rune r =
     (if r < 0x80 then [char_of r]
      else if r < 0x800 then [char_of (0xC0 + r div 64), char_of (0x80 + r mod 64)]
      else if (0xD800 \<le> r \<and> r \<le> 0xDFFF) \<or> 0x10FFFF < r then replacement
      else if r < 0x10000 then
        [char_of (0xE0 + r div 4096), char_of (0x80 + r div 64 mod 64), char_of (0x80 + r mod 64)]
      else
        [char_of (0xF0 + r div 262144), char_of (0x80 + r div 4096 mod 64),
         char_of (0x80 + r div 64 mod 64), char_of (0x80 + r mod 64)])"

definition getu4 :: "gostring \<Rightarrow> nat option" where
  "getu4 s =
     (case s of
        h1 # h2 # h3 # h4 # _ \<Rightarrow>
          (case (hex_value h1, hex_value h2, hex_value h3, hex_value h4) of
             (Some a, Some b, Some c, Some d) \<Rightarrow> Some (((a * 16 + b) * 16 + c) * 16 + d)
           | _ \<Rightarrow> None)
      | _ \<Rightarrow> None)"

definition is_surrogate :: "nat \<Rightarrow> bool" where
  "is_surrogate r = (0xD800 \<le> r \<and> r \<le> 0xDFFF)"

text \<open>A high surrogate followed by the escape of a low one is one code point.\<close>

definition surrogate_pair :: "nat \<Rightarrow> gostring \<Rightarrow> nat option" where
  "surrogate_pair r rest =
     (if 0xD800 \<le> r \<and> r < 0xDC00 \<and> take 2 rest = [CHR 0x5C, CHR ''u''] then
        (case getu4 (drop 2 rest) of
           Some r1 \<Rightarrow> if 0xDC00 \<le> r1 \<and> r1 \<le> 0xDFFF then Some (0x10000 + (r - 0xD800) * 1024 + (r1 - 0xDC00)) else None
         | None \<Rightarrow> None)
      else None)"

definition unescape_char :: "char \<Rightarrow> char" where
  "unescape_char e =
     (if e = CHR ''b'' then CHR 0x08 else if e = CHR ''f'' then CHR 0x0C
      else if e = CHR ''n'' then CHR 0x0A else if e = CHR ''r'' then CHR 0x0D
      else if e = CHR ''t'' then CHR 0x09 else e)"

text \<open>
  \<open>unquote\<close> on the raw text of a scanned literal. A valid encoding is copied (decoding and encoding
  a rune gives its bytes back), any other byte outside ASCII becomes the replacement character.
\<close>

function unquote :: "gostring \<Rightarrow> gostring" where
  "unquote s =
     (case s of
        [] \<Rightarrow> []
      | c # cs \<Rightarrow>
          if c = CHR 0x5C then
            (case cs of
               [] \<Rightarrow> []
             | e # es \<Rightarrow>
                 if e = CHR ''u'' then
                   (case getu4 es of
                      None \<Rightarrow> []
                    | Some r \<Rightarrow>
                        (case surrogate_pair r (drop 4 es) of
                           Some p \<Rightarrow> encode_rune p @ unquote (drop 10 es)
                         | None \<Rightarrow> encode_rune r @ unquote (drop 4 es)))
                 else unescape_char e # unquote es)
          else if byte c < 0x80 then c # unquote cs
          else if rune_width s = 0 then replacement @ unquote cs
          else take (rune_width s) s @ unquote (drop (rune_width s) s))"
  by pat_completeness auto
termination
  by (relation "measure length") (auto simp del: rune_width.simps)

declare unquote.simps [simp del]

section \<open>Values\<close>

datatype json =
    JNull
  | JBool bool
  | JNum gostring
  | JStr gostring
  | JArr "json list"
  | JObj "(gostring \<times> json) list"

fun skip_ws :: "gostring \<Rightarrow> gostring" where
  "skip_ws [] = []"
| "skip_ws (c # cs) = (if c \<in> set [CHR 0x20, CHR 0x09, CHR 0x0D, CHR 0x0A] then skip_ws cs else c # cs)"

definition span_digits :: "gostring \<Rightarrow> gostring \<times> gostring" where
  "span_digits s = (takeWhile (in_range 48 57) s, dropWhile (in_range 48 57) s)"

text \<open>A number: an optional minus, an integer part without leading zeros, fraction and exponent.\<close>

definition scan_exponent :: "gostring \<Rightarrow> (gostring \<times> gostring) option" where
  "scan_exponent s =
     (case s of
        e # es \<Rightarrow>
          if e = CHR ''e'' \<or> e = CHR ''E'' then
            (let (sign, ds) = (case es of c # cs \<Rightarrow> if c = CHR ''+'' \<or> c = CHR ''-'' then ([c], cs) else ([], es) | [] \<Rightarrow> ([], []));
                 (digits, rest) = span_digits ds
             in if digits = [] then None else Some (e # sign @ digits, rest))
          else Some ([], s)
      | [] \<Rightarrow> Some ([], []))"

definition scan_fraction :: "gostring \<Rightarrow> (gostring \<times> gostring) option" where
  "scan_fraction s =
     (case s of
        d # ds \<Rightarrow>
          if d = CHR ''.'' then
            (let (digits, rest) = span_digits ds in if digits = [] then None else Some (d # digits, rest))
          else Some ([], s)
      | [] \<Rightarrow> Some ([], []))"

definition scan_number :: "gostring \<Rightarrow> (gostring \<times> gostring) option" where
  "scan_number s =
     (let (sign, u) = (case s of c # cs \<Rightarrow> if c = CHR ''-'' then ([c], cs) else ([], s) | [] \<Rightarrow> ([], []));
          (digits, v) = (case u of c # cs \<Rightarrow> if c = CHR ''0'' then ([c], cs) else span_digits u | [] \<Rightarrow> ([], []))
      in if digits = [] then None
         else case scan_fraction v of
             None \<Rightarrow> None
           | Some (frac, w) \<Rightarrow>
               (case scan_exponent w of
                  None \<Rightarrow> None
                | Some (ex, rest) \<Rightarrow> Some (sign @ digits @ frac @ ex, rest)))"

definition parse_scalar :: "gostring \<Rightarrow> (json \<times> gostring) option" where
  "parse_scalar s =
     (case s of
        [] \<Rightarrow> None
      | c # cs \<Rightarrow>
          if c = CHR 0x22 then map_option (\<lambda>(raw, r). (JStr (unquote raw), r)) (scan_string cs)
          else if take 4 s = ''null'' then Some (JNull, drop 4 s)
          else if take 4 s = ''true'' then Some (JBool True, drop 4 s)
          else if take 5 s = ''false'' then Some (JBool False, drop 5 s)
          else map_option (\<lambda>(n, r). (JNum n, r)) (scan_number s))"

text \<open>
  A value and the text after it. The first argument is fuel for the recursion, the second the
  nesting still allowed: Go's scanner refuses more than 10000 levels.
\<close>

fun parse_value :: "nat \<Rightarrow> int \<Rightarrow> gostring \<Rightarrow> (json \<times> gostring) option"
  and parse_elems :: "nat \<Rightarrow> int \<Rightarrow> gostring \<Rightarrow> (json list \<times> gostring) option"
  and parse_members :: "nat \<Rightarrow> int \<Rightarrow> gostring \<Rightarrow> ((gostring \<times> json) list \<times> gostring) option" where
  "parse_value 0 d s = None"
| "parse_value (Suc n) d s =
     (case skip_ws s of
        [] \<Rightarrow> None
      | c # r \<Rightarrow>
          if c = CHR ''['' then
            (if d \<le> 0 then None
             else case skip_ws r of
                 e # r' \<Rightarrow> if e = CHR '']'' then Some (JArr [], r')
                   else map_option (\<lambda>(vs, t). (JArr vs, t)) (parse_elems n (d - 1) r)
               | [] \<Rightarrow> None)
          else if c = CHR ''{'' then
            (if d \<le> 0 then None
             else case skip_ws r of
                 e # r' \<Rightarrow> if e = CHR ''}'' then Some (JObj [], r')
                   else map_option (\<lambda>(ms, t). (JObj ms, t)) (parse_members n (d - 1) r)
               | [] \<Rightarrow> None)
          else parse_scalar (c # r))"
| "parse_elems 0 d s = None"
| "parse_elems (Suc n) d s =
     (case parse_value n d s of
        None \<Rightarrow> None
      | Some (v, r) \<Rightarrow>
          (case skip_ws r of
             c # r' \<Rightarrow>
               if c = CHR '']'' then Some ([v], r')
               else if c = CHR '','' then map_option (\<lambda>(vs, t). (v # vs, t)) (parse_elems n d r')
               else None
           | [] \<Rightarrow> None))"
| "parse_members 0 d s = None"
| "parse_members (Suc n) d s =
     (case skip_ws s of
        q # qs \<Rightarrow>
          if q = CHR 0x22 then
            (case scan_string qs of
               None \<Rightarrow> None
             | Some (raw, t) \<Rightarrow>
                 (case skip_ws t of
                    k # ks \<Rightarrow>
                      if k = CHR '':'' then
                        (case parse_value n d ks of
                           None \<Rightarrow> None
                         | Some (v, r) \<Rightarrow>
                             (case skip_ws r of
                                c # r' \<Rightarrow>
                                  if c = CHR ''}'' then Some ([(unquote raw, v)], r')
                                  else if c = CHR '','' then
                                    map_option (\<lambda>(ms, t). ((unquote raw, v) # ms, t)) (parse_members n d r')
                                  else None
                              | [] \<Rightarrow> None))
                      else None
                  | [] \<Rightarrow> None))
          else None
      | [] \<Rightarrow> None)"

abbreviation max_nesting :: int where "max_nesting \<equiv> 10000"

definition fuel_for :: "gostring \<Rightarrow> nat" where
  "fuel_for s = 2 * length s + 3"

text \<open>The value at the front of a text, and a text that is one value.\<close>

definition parse_front :: "gostring \<Rightarrow> (json \<times> gostring) option" where
  "parse_front s = parse_value (fuel_for s) max_nesting s"

definition parse_json :: "gostring \<Rightarrow> json option" where
  "parse_json s =
     (case parse_front s of Some (v, r) \<Rightarrow> if skip_ws r = [] then Some v else None | None \<Rightarrow> None)"

section \<open>Numbers, times and composite values\<close>

fun decimal :: "nat \<Rightarrow> gostring" where
  "decimal n = (if n < 10 then [char_of (48 + n)] else decimal (n div 10) @ [char_of (48 + n mod 10)])"

declare decimal.simps [simp del]

definition itoa :: "int \<Rightarrow> gostring" where
  "itoa i = (if i < 0 then CHR ''-'' # decimal (nat (- i)) else decimal (nat i))"

lemma decimal_small: "n < 10 \<Longrightarrow> decimal n = [char_of (48 + n)]"
  by (subst decimal.simps) simp

lemma decimal_big: "10 \<le> n \<Longrightarrow> decimal n = decimal (n div 10) @ [char_of (48 + n mod 10)]"
  by (subst decimal.simps) simp

definition zero_pad :: "nat \<Rightarrow> nat \<Rightarrow> gostring" where
  "zero_pad width n = replicate (width - length (decimal n)) (CHR ''0'') @ decimal n"

text \<open>The year, month and day of a day counted from 1970-01-01 in the proleptic Gregorian calendar.\<close>

definition civil_date :: "int \<Rightarrow> int \<times> int \<times> int" where
  "civil_date days =
     (let z = days + 719468;
          era = z div 146097;
          doe = z mod 146097;
          yoe = (doe - doe div 1460 + doe div 36524 - doe div 146096) div 365;
          doy = doe - (365 * yoe + yoe div 4 - yoe div 100);
          mp = (5 * doy + 2) div 153;
          m = (if mp < 10 then mp + 3 else mp - 9)
      in (yoe + era * 400 + (if m \<le> 2 then 1 else 0), m, doy - (153 * mp + 2) div 5 + 1))"

text \<open>
  \<open>time.Time.MarshalJSON\<close> in UTC: RFC 3339 with the fractional second cut after its last non-zero
  digit; years outside 0 to 9999 are an error.
\<close>

definition marshal_time :: "int \<Rightarrow> gostring option" where
  "marshal_time ns =
     (let secs = ns div 10 ^ 9;
          frac = nat (ns mod 10 ^ 9);
          (y, m, d) = civil_date (secs div 86400);
          sod = nat (secs mod 86400);
          fraction = (if frac = 0 then [] else CHR ''.'' # rev (dropWhile (\<lambda>c. c = CHR ''0'') (rev (zero_pad 9 frac))))
      in if y < 0 \<or> 9999 < y then None
         else Some ([CHR 0x22] @ zero_pad 4 (nat y) @ ''-'' @ zero_pad 2 (nat m) @ ''-'' @ zero_pad 2 (nat d) @ ''T''
           @ zero_pad 2 (sod div 3600) @ '':'' @ zero_pad 2 (sod div 60 mod 60) @ '':'' @ zero_pad 2 (sod mod 60)
           @ fraction @ ''Z'' @ [CHR 0x22]))"

fun separated :: "gostring list \<Rightarrow> gostring" where
  "separated [] = []"
| "separated [v] = v"
| "separated (v # vs) = v @ '','' @ separated vs"

definition obj_text :: "(gostring \<times> gostring) list \<Rightarrow> gostring" where
  "obj_text ms = ''{'' @ separated (map (\<lambda>(k, v). quote k @ '':'' @ v) ms) @ ''}''"

definition arr_text :: "gostring list \<Rightarrow> gostring" where
  "arr_text vs = ''['' @ separated vs @ '']''"

section \<open>Quoting and scanning\<close>

lemma escape_Nil [simp]: "escape [] = []"
  by (simp add: escape.simps)

lemma escape_ascii: "byte c < 0x80 \<Longrightarrow> escape (c # cs) = escape_byte c @ escape cs"
  by (subst escape.simps) (simp del: rune_width.simps)

lemma escape_malformed:
  "\<not> byte c < 0x80 \<Longrightarrow> rune_width (c # cs) = 0 \<Longrightarrow> escape (c # cs) = [CHR 0x5C] @ ''ufffd'' @ escape cs"
  by (subst escape.simps) (simp del: rune_width.simps)

lemma escape_valid:
  "\<not> byte c < 0x80 \<Longrightarrow> rune_width (c # cs) = w \<Longrightarrow> w \<noteq> 0 \<Longrightarrow>
     escape (c # cs) = escape_rune (take w (c # cs)) @ escape (drop w (c # cs))"
  by (subst escape.simps) (simp del: rune_width.simps)

lemma hex_value_digit: "n < 16 \<Longrightarrow> hex_value (hex_digit n) = Some n"
  by (auto simp: hex_value_def hex_digit_def in_range_def)

text \<open>A fragment that the scanner passes over whatever follows it.\<close>

definition scans :: "gostring \<Rightarrow> bool" where
  "scans e \<longleftrightarrow> (\<forall>x. scan_string (e @ x) = map_option (\<lambda>(raw, r). (e @ raw, r)) (scan_string x))"

lemma scans_Nil [simp]: "scans []"
  by (simp add: scans_def option.map_id)

lemma scans_append: "scans a \<Longrightarrow> scans b \<Longrightarrow> scans (a @ b)"
  by (auto simp: scans_def option.map_comp comp_def case_prod_unfold)

lemma scans_plain:
  "\<forall>c \<in> set r. 0x20 \<le> byte c \<and> c \<noteq> CHR 0x22 \<and> c \<noteq> CHR 0x5C \<Longrightarrow> scans r"
proof (induction r)
  case (Cons c r)
  then have "scans [c]" by (auto simp: scans_def)
  with Cons scans_append [of "[c]" r] show ?case by simp
qed simp

lemma scans_u:
  "hex_value a \<noteq> None \<Longrightarrow> hex_value b \<noteq> None \<Longrightarrow> hex_value c \<noteq> None \<Longrightarrow> hex_value d \<noteq> None \<Longrightarrow>
     scans [CHR 0x5C, CHR ''u'', a, b, c, d]"
  by (simp add: scans_def)

lemma hex_value_numerals [simp]:
  "hex_value CHR ''0'' = Some 0" "hex_value CHR ''2'' = Some 2" "hex_value CHR ''8'' = Some 8"
  "hex_value CHR ''9'' = Some 9" "hex_value CHR ''f'' = Some 15" "hex_value CHR ''d'' = Some 13"
  by (simp_all add: hex_value_def in_range_def)

lemma scans_escape_byte: "byte c < 0x80 \<Longrightarrow> scans (escape_byte c)"
proof -
  assume c: "byte c < 0x80"
  have esc: "scans [CHR 0x5C, e]" if "e \<in> set [CHR ''b'', CHR ''f'', CHR ''n'', CHR ''r'', CHR ''t'', CHR 0x5C, CHR ''/'', CHR 0x22]" for e
    using that by (auto simp: scans_def)
  have "byte c div 16 < 16" "byte c mod 16 < 16" using c by auto
  then have "scans [CHR 0x5C, CHR ''u'', CHR ''0'', CHR ''0'', hex_digit (byte c div 16), hex_digit (byte c mod 16)]"
    by (intro scans_u) (simp_all add: hex_value_digit)
  moreover have "scans [c]" if "\<not> byte c < 0x20" "c \<noteq> CHR 0x22" "c \<noteq> CHR 0x5C"
    using that by (intro scans_plain) auto
  ultimately show ?thesis using esc by (auto simp: escape_byte_def)
qed

text \<open>The bytes of a rune outside ASCII are outside ASCII.\<close>

lemma rune_bytes_high:
  assumes "0x80 \<le> byte c" "rune_width (c # cs) = w" "w \<noteq> 0"
  shows "\<forall>b \<in> set (take w (c # cs)). 0x80 \<le> byte b"
proof -
  from assms have w: "w = lead_width c" "tail_ok c (take (w - 1) cs)" by (auto simp: Let_def split: if_splits)
  have "\<forall>b \<in> set (take (w - 1) cs). 0x80 \<le> byte b"
  proof (cases "take (w - 1) cs")
    case (Cons b bs)
    with w(2) show ?thesis
      by (auto simp: tail_ok_def second_ok_def in_range_def list_all_iff split: if_splits)
  next
    case Nil
    then show ?thesis by (simp only: Nil) simp
  qed
  moreover have "take w (c # cs) = c # take (w - 1) cs" using assms(3) by (cases w) simp_all
  ultimately show ?thesis using assms(1) by simp
qed

lemma scans_escape_rune:
  assumes "0x80 \<le> byte c" "rune_width (c # cs) \<noteq> 0"
  shows "scans (escape_rune (take (rune_width (c # cs)) (c # cs)))"
proof -
  let ?r = "take (rune_width (c # cs)) (c # cs)"
  have high: "\<forall>b \<in> set ?r. 0x80 \<le> byte b" using rune_bytes_high assms by blast
  have "scans ?r"
  proof (rule scans_plain, rule ballI)
    fix b assume "b \<in> set ?r"
    with high have "0x80 \<le> byte b" by blast
    then show "0x20 \<le> byte b \<and> b \<noteq> CHR 0x22 \<and> b \<noteq> CHR 0x5C" by auto
  qed
  then show ?thesis by (simp add: escape_rune_def scans_u)
qed

lemma scans_escape: "scans (escape s)"
proof (induction s rule: escape.induct)
  case (1 s)
  show ?case
  proof (cases s)
    case (Cons c cs)
    consider (ascii) "byte c < 0x80" | (bad) "\<not> byte c < 0x80" "rune_width s = 0"
      | (rune) "\<not> byte c < 0x80" "rune_width s \<noteq> 0" by blast
    then show ?thesis
    proof cases
      case ascii
      with Cons "1.IH"(1) show ?thesis by (simp add: escape_ascii scans_append scans_escape_byte)
    next
      case bad
      have "scans [CHR 0x5C, CHR ''u'', CHR ''f'', CHR ''f'', CHR ''f'', CHR ''d'']" by (rule scans_u) simp_all
      from scans_append [OF this "1.IH"(2) [OF Cons bad]] show ?thesis
        using Cons bad escape_malformed [of c cs] by simp
    next
      case rune
      have "scans (escape_rune (take (rune_width s) s))"
        using scans_escape_rune [of c cs] rune Cons by simp
      from scans_append [OF this "1.IH"(3) [OF Cons rune]] show ?thesis
        using Cons rune escape_valid [of c cs] by simp
    qed
  qed simp
qed

lemma scan_quote: "scan_string (escape s @ CHR 0x22 # rest) = Some (escape s, rest)"
  using scans_escape [of s] by (simp add: scans_def)

section \<open>Unquoting\<close>

lemma unquote_Nil [simp]: "unquote [] = []"
  by (simp add: unquote.simps)

lemma unquote_plain: "byte c < 0x80 \<Longrightarrow> c \<noteq> CHR 0x5C \<Longrightarrow> unquote (c # cs) = c # unquote cs"
  by (subst unquote.simps) (simp del: rune_width.simps)

lemma unquote_escape: "e \<noteq> CHR ''u'' \<Longrightarrow> unquote (CHR 0x5C # e # es) = unescape_char e # unquote es"
  by (subst unquote.simps) simp

lemma unquote_u:
  "getu4 [a, b, c, d] = Some r \<Longrightarrow> \<not> is_surrogate r \<Longrightarrow>
     unquote (CHR 0x5C # CHR ''u'' # a # b # c # d # es) = encode_rune r @ unquote es"
  by (subst unquote.simps) (auto simp: getu4_def surrogate_pair_def is_surrogate_def split: option.splits)

lemma unquote_rune:
  "\<not> byte c < 0x80 \<Longrightarrow> rune_width (c # cs) = w \<Longrightarrow> w \<noteq> 0 \<Longrightarrow>
     unquote (c # cs) = take w (c # cs) @ unquote (drop w (c # cs))"
  by (subst unquote.simps) (auto simp del: rune_width.simps)

lemma encode_rune_ascii: "r < 0x80 \<Longrightarrow> encode_rune r = [char_of r]"
  by (simp add: encode_rune_def)

lemma unquote_u_ascii:
  assumes "byte c < 0x80"
  shows "unquote ([CHR 0x5C, CHR ''u'', CHR ''0'', CHR ''0'', hex_digit (byte c div 16), hex_digit (byte c mod 16)] @ es)
    = c # unquote es"
proof -
  have "byte c div 16 < 16" "byte c mod 16 < 16" using assms by auto
  then have "getu4 [CHR ''0'', CHR ''0'', hex_digit (byte c div 16), hex_digit (byte c mod 16)] = Some (byte c)"
    by (simp add: getu4_def hex_value_digit)
  then show ?thesis using assms by (simp add: unquote_u is_surrogate_def encode_rune_ascii)
qed

lemma unquote_escape_byte:
  assumes "byte c < 0x80"
  shows "unquote (escape_byte c @ es) = c # unquote es"
proof -
  let ?short = "[CHR 0x5C, CHR 0x22, CHR 0x08, CHR 0x0C, CHR 0x0A, CHR 0x0D, CHR 0x09]"
  consider (short) "c \<in> set ?short"
    | (hex) "c \<notin> set ?short" "byte c < 0x20 \<or> c = CHR ''<'' \<or> c = CHR ''>'' \<or> c = CHR ''&''"
    | (plain) "c \<notin> set ?short" "\<not> (byte c < 0x20 \<or> c = CHR ''<'' \<or> c = CHR ''>'' \<or> c = CHR ''&'')"
    by blast
  then show ?thesis
  proof cases
    case short
    then show ?thesis by (auto simp: escape_byte_def unquote_escape unescape_char_def)
  next
    case hex
    then have "escape_byte c =
        [CHR 0x5C, CHR ''u'', CHR ''0'', CHR ''0'', hex_digit (byte c div 16), hex_digit (byte c mod 16)]"
      by (simp add: escape_byte_def)
    then show ?thesis using unquote_u_ascii [OF assms] by simp
  next
    case plain
    then show ?thesis using assms by (simp add: escape_byte_def unquote_plain)
  qed
qed

text \<open>A rune keeps its width when what follows it changes.\<close>

lemma rune_width_take:
  assumes "rune_width s = w" "w \<noteq> 0"
  shows "rune_width (take w s @ x) = w"
proof (cases s)
  case (Cons c cs)
  with assms obtain k where k: "w = Suc k" "w = lead_width c" "k \<le> length cs" "tail_ok c (take k cs)"
    by (cases w) (auto simp: Let_def split: if_splits)
  then have "take w s @ x = c # (take k cs @ x)" "length (take k cs) = k" using Cons by simp_all
  with k show ?thesis by (simp add: Let_def)
qed (use assms in simp)

lemma separator_runes:
  "encode_rune 8232 = [CHR 0xE2, CHR 0x80, CHR 0xA8]" "encode_rune 8233 = [CHR 0xE2, CHR 0x80, CHR 0xA9]"
  by (simp_all add: encode_rune_def char_of_eq_iff)

lemma unquote_escape_rune:
  assumes "\<not> byte c < 0x80" "rune_width (c # cs) = w" "w \<noteq> 0"
  shows "unquote (escape_rune (take w (c # cs)) @ x) = take w (c # cs) @ unquote x"
proof -
  let ?r = "take w (c # cs)"
  have sep: "unquote ([CHR 0x5C] @ ''u2028'' @ x) = [CHR 0xE2, CHR 0x80, CHR 0xA8] @ unquote x"
    "unquote ([CHR 0x5C] @ ''u2029'' @ x) = [CHR 0xE2, CHR 0x80, CHR 0xA9] @ unquote x"
    using separator_runes
    by (simp_all add: unquote_u [of _ _ _ _ 8232] unquote_u [of _ _ _ _ 8233] getu4_def is_surrogate_def)
  obtain k where k: "w = Suc k" using assms(3) by (cases w) auto
  have len: "length ?r = w" using rune_width_le [of "c # cs"] assms(2) by simp
  have "unquote (?r @ x) = ?r @ unquote x"
    using unquote_rune [OF assms(1), of "take k cs @ x" w] rune_width_take [OF assms(2,3), of x] k len assms(3)
    by simp
  with sep show ?thesis by (simp add: escape_rune_def)
qed

text \<open>The round trip of string literals.\<close>

lemma unquote_escape_id: "utf8_Valid s \<Longrightarrow> unquote (escape s) = s"
proof (induction s rule: utf8_Valid.induct)
  case (1 s)
  show ?case
  proof (cases s)
    case (Cons c cs)
    with "1.prems" have w: "rune_width s \<noteq> 0" "utf8_Valid (drop (rune_width s) s)"
      by (simp_all add: utf8_Valid.simps [of "c # cs"] del: rune_width.simps split: if_splits)
    have IH: "unquote (escape (drop (rune_width s) s)) = drop (rune_width s) s"
      using "1.IH" w Cons by simp
    show ?thesis
    proof (cases "byte c < 0x80")
      case True
      with Cons have "rune_width s = 1" by (simp del: rune_width.simps)
      with True Cons IH show ?thesis by (simp add: escape_ascii unquote_escape_byte)
    next
      case False
      have "unquote (escape s) = take (rune_width s) s @ unquote (escape (drop (rune_width s) s))"
        using escape_valid [OF False refl] unquote_escape_rune [OF False refl] w(1) Cons by simp
      with IH show ?thesis by simp
    qed
  qed simp
qed

section \<open>Whitespace\<close>

lemma skip_ws_other [simp]:
  "c \<noteq> CHR 0x20 \<Longrightarrow> c \<noteq> CHR 0x09 \<Longrightarrow> c \<noteq> CHR 0x0D \<Longrightarrow> c \<noteq> CHR 0x0A \<Longrightarrow> skip_ws (c # cs) = c # cs"
  by simp

lemma skip_ws_le: "length (skip_ws s) \<le> length s"
  by (induction s) auto

section \<open>Progress and fuel\<close>

lemma scan_string_shrinks: "scan_string s = Some (raw, r) \<Longrightarrow> length r < length s"
proof (induction s arbitrary: raw r rule: scan_string.induct)
  case (2 c cs)
  then show ?case
    by (fastforce split: if_splits list.splits option.splits)
qed simp

lemma span_digits_length: "length (snd (span_digits s)) \<le> length s"
  by (simp add: span_digits_def length_dropWhile_le)

lemma span_digits_Cons: "fst (span_digits s) \<noteq> [] \<Longrightarrow> length (snd (span_digits s)) < length s"
  by (cases s) (auto simp: span_digits_def less_Suc_eq_le length_dropWhile_le split: if_splits)

lemma scan_fraction_le: "scan_fraction s = Some (f, r) \<Longrightarrow> length r \<le> length s"
  using span_digits_length [of "tl s"]
  by (auto simp: scan_fraction_def Let_def split: list.splits if_splits prod.splits)

lemma scan_exponent_le: "scan_exponent s = Some (f, r) \<Longrightarrow> length r \<le> length s"
  using span_digits_length [of "tl s"] span_digits_length [of "tl (tl s)"]
  by (auto simp: scan_exponent_def Let_def split: list.splits if_splits prod.splits)

lemma scan_number_shrinks: "scan_number s = Some (n, r) \<Longrightarrow> length r < length s"
proof -
  assume a: "scan_number s = Some (n, r)"
  obtain sign u where u: "(case s of c # cs \<Rightarrow> if c = CHR ''-'' then ([c], cs) else ([], s) | [] \<Rightarrow> ([], [])) = (sign, u)"
    by (rule prod.exhaust)
  obtain digits v where v: "(case u of c # cs \<Rightarrow> if c = CHR ''0'' then ([c], cs) else span_digits u | [] \<Rightarrow> ([], [])) = (digits, v)"
    by (rule prod.exhaust)
  have lu: "length u \<le> length s" using u by (auto split: list.splits if_splits)
  from a u v obtain frac w ex where d: "digits \<noteq> []" and w: "scan_fraction v = Some (frac, w)"
    and r: "scan_exponent w = Some (ex, r)"
    by (auto simp: scan_number_def Let_def split: if_splits option.splits prod.splits)
  have "length v < length u"
    using v d span_digits_Cons [of u] by (auto split: list.splits if_splits)
  with lu scan_fraction_le [OF w] scan_exponent_le [OF r] show ?thesis by simp
qed

lemma parse_scalar_shrinks: "parse_scalar s = Some (v, r) \<Longrightarrow> length r < length s"
  using scan_number_shrinks [of s] scan_string_shrinks [of "tl s"]
  by (cases s) (fastforce simp: parse_scalar_def split: if_splits)+

lemma skip_ws_Cons: "skip_ws s = c # r \<Longrightarrow> length r < length s"
  using skip_ws_le [of s] by simp

lemma parse_shrinks:
  shows "parse_value n d s = Some (v, r) \<Longrightarrow> length r < length s"
    and "parse_elems n d s = Some (vs, r) \<Longrightarrow> length r < length s"
    and "parse_members n d s = Some (ms, r) \<Longrightarrow> length r < length s"
proof (induction n d s and n d s and n d s arbitrary: v r and vs r and ms r rule: parse_value_parse_elems_parse_members.induct)
  case (2 n d s)
  then show ?case
    using parse_scalar_shrinks [of "skip_ws s" v r]
    by (fastforce dest!: skip_ws_Cons split: list.splits if_splits)
next
  case (4 n d s)
  from "4.prems" obtain v r1 c r' where 1: "parse_value n d s = Some (v, r1)" "skip_ws r1 = c # r'"
    by (auto split: option.splits list.splits)
  note l = "4.IH"(1) [OF 1(1)] skip_ws_Cons [OF 1(2)]
  from "4.prems" 1 consider "r = r'" | ws where "parse_elems n d r' = Some (ws, r)"
    by (auto split: if_splits)
  then show ?case using l "4.IH"(2) [OF 1(1) refl 1(2)] "4.prems" 1 by (cases; fastforce split: if_splits)
next
  case (6 n d s)
  from "6.prems" obtain qs raw t ks v r1 c r' where 1: "skip_ws s = CHR 0x22 # qs" "scan_string qs = Some (raw, t)"
     "skip_ws t = CHR '':'' # ks" "parse_value n d ks = Some (v, r1)" "skip_ws r1 = c # r'"
    by (auto split: option.splits list.splits if_splits)
  note l = skip_ws_Cons [OF 1(1)] scan_string_shrinks [OF 1(2)] skip_ws_Cons [OF 1(3)] 
     "6.IH"(1) [OF 1(1) refl 1(2) refl 1(3) refl 1(4)] skip_ws_Cons [OF 1(5)]
  from "6.prems" 1 consider "r = r'" | ws where "c \<noteq> CHR ''}''" "c = CHR '',''" "parse_members n d r' = Some (ws, r)"
    by (auto split: if_splits)
  then show ?case 
  proof cases
    case 2
    from "6.IH"(2) [OF 1(1) refl 1(2) refl 1(3) refl 1(4) refl 1(5) 2] l show ?thesis by simp
  qed (use l in simp)
qed simp_all

text \<open>
  More fuel than twice the length of the text changes nothing, so \<open>fuel_for\<close> is enough: a text is
  refused because of its form or its depth only.
\<close>

lemma parse_fuel:
  shows "parse_value n d s = p \<Longrightarrow> 2 * length s + 1 \<le> n \<Longrightarrow> n \<le> m \<Longrightarrow> parse_value m d s = p"
    and "parse_elems n d s = q \<Longrightarrow> 2 * length s + 2 \<le> n \<Longrightarrow> n \<le> m \<Longrightarrow> parse_elems m d s = q"
    and "parse_members n d s = t \<Longrightarrow> 2 * length s + 2 \<le> n \<Longrightarrow> n \<le> m \<Longrightarrow> parse_members m d s = t"
proof (induction n d s and n d s and n d s arbitrary: m p and m q and m t rule: parse_value_parse_elems_parse_members.induct)
  case (2 n d s)
  from "2.prems"(3) obtain k where k: "m = Suc k" "n \<le> k" by (cases m) auto
  show ?case
  proof (cases "skip_ws s")
    case (Cons c r)
    note l = skip_ws_Cons [OF Cons]
    have "parse_value (Suc k) d s = parse_value (Suc n) d s"
    proof (cases "skip_ws r")
      case r': (Cons e r')
      have 1: "parse_elems k (d - 1) r = parse_elems n (d - 1) r" if "c = CHR ''[''" "\<not> d \<le> 0" "e \<noteq> CHR '']''"
        by (rule "2.IH"(1) [OF Cons that(1,2) r' that(3) refl]) (use "2.prems"(2) k l in simp_all)
      have 2: "parse_members k (d - 1) r = parse_members n (d - 1) r"
        if "c \<noteq> CHR ''[''" "c = CHR ''{''" "\<not> d \<le> 0" "e \<noteq> CHR ''}''"
        by (rule "2.IH"(2) [OF Cons that(1,2,3) r' that(4) refl]) (use "2.prems"(2) k l in simp_all)
      from 1 2 show ?thesis by (simp add: Cons r')
    qed (simp add: Cons)
    with "2.prems"(1) k(1) show ?thesis by (simp only:)
  qed (use "2.prems"(1) k(1) in simp)
next
  case (4 n d s)
  from "4.prems"(3) obtain k where k: "m = Suc k" "n \<le> k" by (cases m) auto
  have 1: "parse_value k d s = parse_value n d s" by (rule "4.IH"(1) [OF refl]) (use "4.prems"(2) k in simp_all)
  have 2: "parse_elems k d r' = parse_elems n d r'"
    if "parse_value n d s = Some (v, r)" "skip_ws r = c # r'" "c \<noteq> CHR '']''" "c = CHR '',''" for v r c r'
    by (rule "4.IH"(2) [OF that(1) refl that(2-4) refl])
      (use "4.prems"(2) k parse_shrinks(1) [OF that(1)] skip_ws_Cons [OF that(2)] in simp_all)
  show ?case using "4.prems"(1) k 1 2 by (auto split: option.splits list.splits)
next
  case (6 n d s)
  from "6.prems"(3) obtain k where k: "m = Suc k" "n \<le> k" by (cases m) auto
  have "parse_members (Suc k) d s = parse_members (Suc n) d s"
  proof (cases "skip_ws s")
    case (Cons q qs)
    show ?thesis
    proof (cases "scan_string qs")
      case raw: (Some rt)
      obtain raw t where rt: "rt = (raw, t)" by (cases rt)
      show ?thesis
      proof (cases "skip_ws t")
        case ks: (Cons c ks)
        note l = skip_ws_Cons [OF Cons] skip_ws_Cons [OF ks] scan_string_shrinks [OF raw [unfolded rt]]
        note h = raw [unfolded rt] refl ks
        have 1: "parse_value k d ks = parse_value n d ks" if "q = CHR 0x22" "c = CHR '':''"
          by (rule "6.IH"(1) [OF Cons that(1) h that(2) refl]) (use "6.prems"(2) k l in simp_all)
        have 2: "parse_members k d r' = parse_members n d r'"
          if "q = CHR 0x22" "c = CHR '':''" "parse_value n d ks = Some (v, r)" "skip_ws r = c' # r'" "c' \<noteq> CHR ''}''" "c' = CHR '',''" for v r c' r'
          by (rule "6.IH"(2) [OF Cons that(1) h that(2,3) refl that(4-6) refl])
            (use "6.prems"(2) k l parse_shrinks(1) [OF that(3)] skip_ws_Cons [OF that(4)] in simp_all)
        from 1 2 show ?thesis by (auto simp: Cons raw rt ks split: option.splits list.splits)
      qed (simp add: Cons raw rt)
    qed (simp add: Cons)
  qed simp
  with "6.prems"(1) k(1) show ?case by (simp only:)
qed simp_all

lemma parse_front_fuel: "fuel_for s \<le> m \<Longrightarrow> parse_value m max_nesting s = parse_front s"
  unfolding parse_front_def by (rule parse_fuel(1) [OF refl]) (simp_all add: fuel_for_def)

lemma parse_front_shrinks: "parse_front s = Some (v, r) \<Longrightarrow> length r < length s"
  unfolding parse_front_def by (rule parse_shrinks(1))

lemma parse_front_quote: "parse_front (quote s @ rest) = Some (JStr (unquote (escape s)), rest)"
proof -
  obtain k where "fuel_for (quote s @ rest) = Suc k" by (simp add: fuel_for_def)
  then show ?thesis by (simp add: parse_front_def quote_def parse_scalar_def scan_quote)
qed

end
