(* ===== verification/Custom_Tool.thy ===== *)
theory Custom_Tool
  imports Bridge Go_Json
begin

text \<open>
  \<open>internal/opencodego/custom_tool.go\<close>, \<open>deferred_tools.go\<close> and \<open>tool_budget.go\<close>: the synthetic
  provider function that carries Codex's freeform \<open>apply_patch\<close> tool, the rules that keep user
  functions away from its name, the JSON wrapper around a patch, and the budget of tools and schema
  bytes of one request.
\<close>

section \<open>Errors of the provider adapter (errors.go)\<close>

datatype ErrorCode =
    ErrorInvalidConfiguration | ErrorInvalidRequest | ErrorRequestTooLarge | ErrorUnsupportedTool
  | ErrorUnsupportedToolChoice | ErrorUnsupportedResponseFormat | ErrorNetwork | ErrorCanceled
  | ErrorTimeout | ErrorBadRequest | ErrorUnauthorized | ErrorForbidden | ErrorRateLimited
  | ErrorServer | ErrorUnexpectedStatus | ErrorUnsupportedContentType | ErrorMalformedResponse

datatype custom_tool_error = ErrMalformedCustomToolArguments | ErrApplyPatchInputLimit

section \<open>Names and limits\<close>

definition ApplyPatchToolName :: gostring where "ApplyPatchToolName = ''apply_patch''"
definition ReservedToolNamePrefix :: gostring where "ReservedToolNamePrefix = ''__ocg_''"
definition ApplyPatchUpstreamName :: gostring where
  "ApplyPatchUpstreamName = ReservedToolNamePrefix @ ApplyPatchToolName"
definition ApplyPatchWrapperField :: gostring where "ApplyPatchWrapperField = ''input''"
definition DefaultMaxApplyPatchInputBytes :: int where "DefaultMaxApplyPatchInputBytes = 512 * 2 ^ 10"

text \<open>The schema's text; its double quotes are written with the byte they stand for.\<close>

definition applyPatchWrapperSchema :: gobytes where
  "applyPatchWrapperSchema =
     map (\<lambda>c. if c = CHR ''~'' then CHR 0x22 else c)
       (''{~type~:~object~,~properties~:{~input~:{~type~:~string~,~description~:'' @
        ''~The exact freeform apply_patch text, including all newlines and markers.~}},'' @
        ''~required~:[~input~],~additionalProperties~:false}'')"

definition ApplyPatchWrapperSchemaBytes :: int where
  "ApplyPatchWrapperSchemaBytes = len applyPatchWrapperSchema"

lemmas apply_patch_names = ApplyPatchToolName_def ReservedToolNamePrefix_def ApplyPatchUpstreamName_def
  ApplyPatchWrapperField_def

section \<open>Registration\<close>

definition applyPatchRegistration :: ToolRegistration where
  "applyPatchRegistration =
     \<lparr>reg_Kind = ToolCustom, reg_InboundName = ApplyPatchToolName,
      reg_UpstreamName = ApplyPatchUpstreamName, reg_WrapperField = ApplyPatchWrapperField\<rparr>"

definition tool_collides :: "Tool \<Rightarrow> bool \<Rightarrow> bool" where
  "tool_collides tool customSeen =
     (case tool of
        FunctionTool name _ _ _ \<Rightarrow> HasPrefix name ReservedToolNamePrefix \<or> name = ApplyPatchToolName
      | CustomTool name _ kind \<Rightarrow>
          name \<noteq> ApplyPatchToolName \<or> (kind \<noteq> [] \<and> kind \<noteq> ''text'' \<and> kind \<noteq> ''grammar'') \<or> customSeen
      | DeferredTool _ _ \<Rightarrow> False)"

fun validateToolNameCollisions_from :: "bool \<Rightarrow> Tool list \<Rightarrow> ErrorCode option" where
  "validateToolNameCollisions_from seen [] = None"
| "validateToolNameCollisions_from seen (tool # tools) =
     (if tool_collides tool seen then Some ErrorInvalidRequest
      else validateToolNameCollisions_from (seen \<or> (case tool of CustomTool _ _ _ \<Rightarrow> True | _ \<Rightarrow> False)) tools)"

definition validateToolNameCollisions :: "Tool list \<Rightarrow> ErrorCode option" where
  "validateToolNameCollisions tools = validateToolNameCollisions_from False tools"

definition adapter_NewToolRegistry :: "Tool list \<Rightarrow> ToolRegistry option \<Rightarrow> ErrorCode + ToolRegistry option" where
  "adapter_NewToolRegistry tools registry =
     (case validateToolNameCollisions tools of
        Some e \<Rightarrow> Inl e
      | None \<Rightarrow>
          (case registry of
             Some g \<Rightarrow> Inr (Some g)
           | None \<Rightarrow>
               (case NewToolRegistry [applyPatchRegistration] of
                  Inr g \<Rightarrow> Inr (Some g)
                | Inl _ \<Rightarrow> Inl ErrorInvalidRequest)))"

definition hasCustomToolDeclaration :: "Tool list \<Rightarrow> bool" where
  "hasCustomToolDeclaration tools = list_ex (\<lambda>t. case t of CustomTool _ _ _ \<Rightarrow> True | _ \<Rightarrow> False) tools"

definition validateCustomToolRegistration :: "ToolRegistration \<Rightarrow> ErrorCode option" where
  "validateCustomToolRegistration r =
     (if reg_Kind r \<noteq> ToolCustom \<or> reg_InboundName r \<noteq> ApplyPatchToolName
         \<or> reg_UpstreamName r \<noteq> ApplyPatchUpstreamName \<or> reg_WrapperField r \<noteq> ApplyPatchWrapperField
      then Some ErrorInvalidRequest else None)"

text \<open>Whether the tool is a custom declaration, and the error of one that is not registered.\<close>

definition customToolDeclaration :: "Tool \<Rightarrow> ToolRegistry option \<Rightarrow> bool \<times> ErrorCode option" where
  "customToolDeclaration tool registry =
     (case tool of
        CustomTool name _ _ \<Rightarrow>
          (case registry of
             None \<Rightarrow> (True, Some ErrorInvalidRequest)
           | Some _ \<Rightarrow>
               (case Inbound registry name of
                  None \<Rightarrow> (True, Some ErrorInvalidRequest)
                | Some r \<Rightarrow>
                    (True, if validateCustomToolRegistration r \<noteq> None then Some ErrorInvalidRequest else None)))
      | _ \<Rightarrow> (False, None))"

definition customToolRegistration :: "ToolRegistry option \<Rightarrow> gostring \<Rightarrow> ToolRegistration option" where
  "customToolRegistration registry upstreamName =
     (case registry of
        None \<Rightarrow> None
      | Some _ \<Rightarrow>
          (case Upstream registry upstreamName of
             None \<Rightarrow> None
           | Some r \<Rightarrow> if validateCustomToolRegistration r \<noteq> None then None else Some r))"

section \<open>The wrapper\<close>

definition validateApplyPatchInputLength :: "gostring \<Rightarrow> custom_tool_error option" where
  "validateApplyPatchInputLength input =
     (if len input \<ge> DefaultMaxApplyPatchInputBytes then Some ErrApplyPatchInputLimit else None)"

text \<open>\<open>json.Marshal\<close> of a struct with the single string field \<open>input\<close>.\<close>

definition marshal_wrapper :: "gostring \<Rightarrow> gostring" where
  "marshal_wrapper input = ''{'' @ quote ApplyPatchWrapperField @ '':'' @ quote input @ ''}''"

definition wrapApplyPatchInput :: "gostring \<Rightarrow> ErrorCode + gostring" where
  "wrapApplyPatchInput input =
     (if \<not> utf8_Valid input then Inl ErrorInvalidRequest
      else if validateApplyPatchInputLength input \<noteq> None then Inl ErrorInvalidRequest
      else Inr (marshal_wrapper input))"

text \<open>
  \<open>decodeApplyPatchObject\<close>: the token stream of one object. \<open>json.Decoder\<close> checks the separators
  between tokens, so a member is a string literal, a colon and a value; the next token is a comma
  before another member or the closing brace. The loop runs once per member and takes at least one
  byte each time.
\<close>

definition decode_member :: "gostring \<Rightarrow> ((gostring \<times> json) \<times> gostring) option" where
  "decode_member s =
     (case skip_ws s of
        q # qs \<Rightarrow>
          if q = CHR 0x22 then
            (case scan_string qs of
               None \<Rightarrow> None
             | Some (raw, t) \<Rightarrow>
                 (case skip_ws t of
                    k # ks \<Rightarrow>
                      if k = CHR '':'' then
                        (case parse_front ks of None \<Rightarrow> None | Some (v, r) \<Rightarrow> Some ((unquote raw, v), r))
                      else None
                  | [] \<Rightarrow> None))
          else None
      | [] \<Rightarrow> None)"

lemma decode_member_shrinks: "decode_member s = Some (m, r) \<Longrightarrow> length r < length s"
  by (fastforce simp: decode_member_def dest!: skip_ws_Cons scan_string_shrinks parse_front_shrinks
      split: list.splits if_splits option.splits prod.splits)

function decode_fields :: "(gostring, json) gomap \<Rightarrow> gostring \<Rightarrow> ((gostring, json) gomap \<times> gostring) option" where
  "decode_fields flds s =
     (case decode_member s of
        None \<Rightarrow> None
      | Some ((key, value), r) \<Rightarrow>
          if map_of flds key \<noteq> None then None
          else (case skip_ws r of
                  c # r' \<Rightarrow>
                    if c = CHR ''}'' then Some (map_put key value flds, r')
                    else if c = CHR '','' then decode_fields (map_put key value flds) r'
                    else None
                | [] \<Rightarrow> None))"
  by pat_completeness auto
termination
  by (relation "measure (length \<circ> snd)") (auto dest!: decode_member_shrinks skip_ws_Cons [OF sym] skip_ws_Cons)

declare decode_fields.simps [simp del]

definition decodeApplyPatchObject :: "gostring \<Rightarrow> ((gostring, json) gomap \<times> gostring) option" where
  "decodeApplyPatchObject s =
     (case skip_ws s of
        c # r \<Rightarrow>
          if c = CHR ''{'' then
            (case skip_ws r of
               e # r' \<Rightarrow> if e = CHR ''}'' then Some ([], r') else decode_fields [] r
             | [] \<Rightarrow> None)
          else None
      | [] \<Rightarrow> None)"

definition unwrapApplyPatchArguments :: "gostring \<Rightarrow> custom_tool_error + gostring" where
  "unwrapApplyPatchArguments arguments =
     (case decodeApplyPatchObject arguments of
        None \<Rightarrow> Inl ErrMalformedCustomToolArguments
      | Some (flds, trailing) \<Rightarrow>
          if skip_ws trailing \<noteq> [] then Inl ErrMalformedCustomToolArguments
          else if length flds \<noteq> 1 then Inl ErrMalformedCustomToolArguments
          else case map_of flds ApplyPatchWrapperField of
              Some (JStr input) \<Rightarrow>
                if \<not> utf8_Valid input then Inl ErrMalformedCustomToolArguments
                else (case validateApplyPatchInputLength input of
                        Some e \<Rightarrow> Inl e
                      | None \<Rightarrow> Inr input)
            | _ \<Rightarrow> Inl ErrMalformedCustomToolArguments)"

definition customToolErrorCode :: "custom_tool_error \<Rightarrow> gostring" where
  "customToolErrorCode e =
     (case e of
        ErrApplyPatchInputLimit \<Rightarrow> ''stream_limit_exceeded''
      | ErrMalformedCustomToolArguments \<Rightarrow> ''upstream_custom_tool_invalid'')"

definition customToolErrorMessage :: "custom_tool_error \<Rightarrow> gostring" where
  "customToolErrorMessage e =
     (case e of
        ErrApplyPatchInputLimit \<Rightarrow> ''The apply_patch input exceeded its configured limit.''
      | ErrMalformedCustomToolArguments \<Rightarrow> ''The upstream apply_patch wrapper was invalid.'')"

section \<open>The wrapper is lossless\<close>

lemma decode_member_quote:
  "decode_member (quote k @ CHR '':'' # quote v @ rest) =
     Some ((unquote (escape k), JStr (unquote (escape v))), rest)"
  using parse_front_quote [of v rest] scan_quote [of k "CHR '':'' # quote v @ rest"]
  by (simp add: decode_member_def quote_def)

lemma unwrap_marshal:
  assumes "utf8_Valid input" "len input < DefaultMaxApplyPatchInputBytes"
  shows "unwrapApplyPatchArguments (marshal_wrapper input) = Inr input"
proof -
  have f: "unquote (escape ApplyPatchWrapperField) = ApplyPatchWrapperField"
    by (rule unquote_escape_id) (simp add: apply_patch_names utf8_Valid_ascii)
  have "decode_fields [] (quote ApplyPatchWrapperField @ CHR '':'' # quote input @ ''}'')
      = Some ([(ApplyPatchWrapperField, JStr input)], [])"
    by (subst decode_fields.simps) (simp add: decode_member_quote f unquote_escape_id [OF assms(1)])
  then have "decodeApplyPatchObject (marshal_wrapper input) = Some ([(ApplyPatchWrapperField, JStr input)], [])"
    by (simp add: marshal_wrapper_def decodeApplyPatchObject_def quote_def)
  with assms show ?thesis by (simp add: unwrapApplyPatchArguments_def validateApplyPatchInputLength_def)
qed

text \<open>
  C30: A patch that \<open>wrapApplyPatchInput\<close> accepts comes back unchanged, byte for byte, from
  \<open>unwrapApplyPatchArguments\<close>: the JSON wrapper that goes to the provider loses nothing.
\<close>

theorem apply_patch_round_trip:
  assumes "wrapApplyPatchInput input = Inr arguments"
  shows "unwrapApplyPatchArguments arguments = Inr input"
proof -
  from assms have "utf8_Valid input" "len input < DefaultMaxApplyPatchInputBytes" "arguments = marshal_wrapper input"
    by (simp_all add: wrapApplyPatchInput_def validateApplyPatchInputLength_def split: if_splits)
  then show ?thesis by (simp add: unwrap_marshal)
qed

lemma sample_patch_valid:
  "utf8_Valid (''*** Begin'' @ [CHR 0x0A] @ ''+x'')" "len (''*** Begin'' @ [CHR 0x0A] @ ''+x'') < DefaultMaxApplyPatchInputBytes"
  by (simp_all add: utf8_Valid_ascii DefaultMaxApplyPatchInputBytes_def)

theorem apply_patch_round_trip_witness:
  "unwrapApplyPatchArguments (marshal_wrapper (''*** Begin'' @ [CHR 0x0A] @ ''+x'')) = Inr (''*** Begin'' @ [CHR 0x0A] @ ''+x'')"
proof (rule apply_patch_round_trip)
  show "wrapApplyPatchInput (''*** Begin'' @ [CHR 0x0A] @ ''+x'') = Inr (marshal_wrapper (''*** Begin'' @ [CHR 0x0A] @ ''+x''))"
    using sample_patch_valid by (simp add: wrapApplyPatchInput_def validateApplyPatchInputLength_def)
qed

lemma parse_value_str_iff:
  "parse_value (Suc n) d s = Some (JStr x, r) \<longleftrightarrow> parse_scalar (skip_ws s) = Some (JStr x, r)"
  by (auto simp: parse_scalar_def scan_number_def split: list.splits if_splits)

lemma parse_front_str_iff: "parse_front s = Some (JStr x, r) \<longleftrightarrow> parse_scalar (skip_ws s) = Some (JStr x, r)"
  using parse_value_str_iff by (simp add: parse_front_def fuel_for_def numeral_3_eq_3)

text \<open>A list of fields only grows, so a single field is the first member followed by the brace.\<close>

lemma decode_fields_grows: "decode_fields flds s = Some (g, r) \<Longrightarrow> length flds < length g"
proof (induction flds s rule: decode_fields.induct)
  case (1 flds s)
  from "1.prems" obtain k v t c t' where m: "decode_member s = Some ((k, v), t)" "map_of flds k = None" "skip_ws t = c # t'"
    by (subst (asm) decode_fields.simps) (auto split: option.splits prod.splits if_splits list.splits)
  have l: "length (map_put k v flds) = Suc (length flds)"
    using m(2) by (induction flds) (auto split: if_splits)
  show ?case
  proof (cases "c = CHR ''}''")
    case True
    then show ?thesis using "1.prems" m l by (subst (asm) decode_fields.simps) simp
  next
    case False
    then have "c = CHR '',''" "decode_fields (map_put k v flds) t' = Some (g, r)"
      using "1.prems" m by (subst (asm) decode_fields.simps; simp split: if_splits)+
    with "1.IH" [OF m(1) refl refl _ m(3) False] m(2) l show ?thesis by simp
  qed
qed

lemma decode_fields_single:
  assumes "decode_fields [] s = Some ([f], r)"
  obtains t where "decode_member s = Some (f, t)" "skip_ws t = CHR ''}'' # r"
proof -
  from assms obtain k v t c t' where m: "decode_member s = Some ((k, v), t)" "skip_ws t = c # t'"
    by (subst (asm) decode_fields.simps) (auto split: option.splits prod.splits if_splits list.splits)
  have "decode_fields [(k, v)] t' \<noteq> Some ([f], r)"
    using decode_fields_grows [of "[(k, v)]" t' "[f]" r] by auto
  with assms m have "c = CHR ''}''" "f = (k, v)" "r = t'"
    by (subst (asm) decode_fields.simps; simp split: if_splits)+
  with m that show thesis by blast
qed

lemma decode_member_str:
  assumes "decode_member s = Some ((k, JStr v), t)"
  obtains qs raw u ks where "skip_ws s = CHR 0x22 # qs" "scan_string qs = Some (raw, u)" "unquote raw = k"
    "skip_ws u = CHR '':'' # ks" "parse_scalar (skip_ws ks) = Some (JStr v, t)"
  using assms by (auto simp: decode_member_def parse_front_str_iff split: list.splits if_splits option.splits)

lemma parse_members_single:
  assumes "decode_member s = Some ((k, JStr v), t)" "skip_ws t = CHR ''}'' # t'"
  shows "parse_members (Suc (Suc n)) d s = Some ([(k, JStr v)], t')"
proof -
  obtain qs raw u ks where m: "skip_ws s = CHR 0x22 # qs" "scan_string qs = Some (raw, u)" "unquote raw = k"
    "skip_ws u = CHR '':'' # ks" "parse_scalar (skip_ws ks) = Some (JStr v, t)"
    using assms(1) by (rule decode_member_str)
  from m(5) have "parse_value (Suc n) d ks = Some (JStr v, t)" by (simp only: parse_value_str_iff)
  with m assms(2) show ?thesis by (simp del: parse_value.simps)
qed

text \<open>
  C31: Arguments that \<open>unwrapApplyPatchArguments\<close> accepts are one JSON object with the single string
  member \<open>input\<close> and nothing but white space after it, the patch is that string, it is valid UTF-8 and
  it is shorter than the limit.
\<close>

theorem unwrap_sound:
  assumes "unwrapApplyPatchArguments arguments = Inr input"
  shows "parse_json arguments = Some (JObj [(ApplyPatchWrapperField, JStr input)])
    \<and> utf8_Valid input \<and> len input < DefaultMaxApplyPatchInputBytes"
proof -
  from assms obtain flds r where d: "decodeApplyPatchObject arguments = Some (flds, r)" "skip_ws r = []"
      "length flds = 1" "map_of flds ApplyPatchWrapperField = Some (JStr input)"
    and v: "utf8_Valid input" "validateApplyPatchInputLength input = None"
    by (auto simp: unwrapApplyPatchArguments_def split: option.splits prod.splits if_splits json.splits)
  let ?f = "(ApplyPatchWrapperField, JStr input)"
  have f: "flds = [?f]" using d(3,4) by (cases flds) (auto split: if_splits)
  with d(1) obtain s e r' where s: "skip_ws arguments = CHR ''{'' # s" "skip_ws s = e # r'" "e \<noteq> CHR ''}''"
    "decode_fields [] s = Some ([?f], r)"
    by (auto simp: decodeApplyPatchObject_def split: list.splits if_splits)
  from s(4) obtain t where t: "decode_member s = Some (?f, t)" "skip_ws t = CHR ''}'' # r"
    by (rule decode_fields_single)
  have "length arguments > 0" using s(1) by (cases arguments) auto
  then have "fuel_for arguments = Suc (Suc (Suc (2 * length arguments)))" by (simp add: fuel_for_def)
  with s t have "parse_front arguments = Some (JObj [?f], r)"
    using parse_members_single [OF t] by (simp add: parse_front_def del: parse_members.simps)
  with d(2) v show ?thesis
    by (simp add: parse_json_def validateApplyPatchInputLength_def split: if_splits)
qed

theorem unwrap_sound_witness:
  "parse_json (marshal_wrapper (''*** Begin'' @ [CHR 0x0A] @ ''+x'')) =
     Some (JObj [(ApplyPatchWrapperField, JStr (''*** Begin'' @ [CHR 0x0A] @ ''+x''))])"
  using unwrap_sound [OF unwrap_marshal [OF sample_patch_valid]] by simp

section \<open>Deferred declarations and the tool budget\<close>

definition ValidateCapturedDeferredTool :: "ToolKind \<Rightarrow> ErrorCode option" where
  "ValidateCapturedDeferredTool kind =
     (if kind = ToolNamespace \<or> kind = ToolWebSearch then None else Some ErrorUnsupportedTool)"

text \<open>The counters of \<open>ValidateProviderToolBudget\<close>.\<close>

record tool_budget =
  providerTools :: int
  schemaBytes :: int
  providerNames :: "gostring set"

definition over_budget :: "int \<Rightarrow> int \<Rightarrow> tool_budget \<Rightarrow> bool" where
  "over_budget maxProviderTools maxSchemaBytes b \<longleftrightarrow>
     providerTools b > maxProviderTools \<or> schemaBytes b > maxSchemaBytes"

definition count_tool ::
  "int \<Rightarrow> int \<Rightarrow> bool \<Rightarrow> Tool \<Rightarrow> tool_budget \<Rightarrow> (ErrorCode, unit, tool_budget) go" where
  "count_tool maxTools maxBytes has_registry tool b =
     go_bind
       (case tool of
          FunctionTool name _ parameters _ \<Rightarrow>
            if name \<in> providerNames b then (Inl ErrorInvalidRequest, b\<lparr>providerTools := providerTools b + 1\<rparr>)
            else (Inr (), b\<lparr>providerTools := providerTools b + 1, providerNames := insert name (providerNames b),
                             schemaBytes := schemaBytes b + len parameters\<rparr>)
        | CustomTool _ _ _ \<Rightarrow> if has_registry then (Inr (), b) else (Inl ErrorInvalidRequest, b)
        | DeferredTool kind _ \<Rightarrow>
            (case ValidateCapturedDeferredTool kind of
               Some e \<Rightarrow> (Inl e, b)
             | None \<Rightarrow> if has_registry then (Inr (), b) else (Inl ErrorUnsupportedTool, b)))
       (\<lambda>_ b. if over_budget maxTools maxBytes b then (Inl ErrorRequestTooLarge, b) else (Inr (), b))"

definition count_registration :: "int \<Rightarrow> int \<Rightarrow> ToolRegistration \<Rightarrow> tool_budget \<Rightarrow> (ErrorCode, unit, tool_budget) go" where
  "count_registration maxTools maxBytes r b =
     (if reg_Kind r \<noteq> ToolCustom then (Inr (), b)
      else case validateCustomToolRegistration r of
          Some e \<Rightarrow> (Inl e, b)
        | None \<Rightarrow>
            (let b' = b\<lparr>providerTools := providerTools b + 1, schemaBytes := schemaBytes b + ApplyPatchWrapperSchemaBytes\<rparr>
             in if over_budget maxTools maxBytes b' then (Inl ErrorRequestTooLarge, b') else (Inr (), b')))"

definition ValidateProviderToolBudget :: "Tool list \<Rightarrow> ToolRegistry option \<Rightarrow> int \<Rightarrow> int \<Rightarrow> ErrorCode option" where
  "ValidateProviderToolBudget tools registry maxTools maxBytes =
     (if maxTools \<le> 0 \<or> maxBytes \<le> 0 then Some ErrorInvalidConfiguration
      else go_error
        (go_bind
          (go_for (count_tool maxTools maxBytes (registry \<noteq> None)) tools
             \<lparr>providerTools = 0, schemaBytes = 0, providerNames = {}\<rparr>)
          (\<lambda>_. go_for (count_registration maxTools maxBytes) (Registrations registry))))"

section \<open>What the budget admits\<close>

fun tool_functions :: "Tool list \<Rightarrow> (gostring \<times> JSONSchema) list" where
  "tool_functions [] = []"
| "tool_functions (FunctionTool name _ parameters _ # ts) = (name, parameters) # tool_functions ts"
| "tool_functions (_ # ts) = tool_functions ts"

definition custom_registrations :: "ToolRegistry option \<Rightarrow> ToolRegistration list" where
  "custom_registrations registry = filter (\<lambda>r. reg_Kind r = ToolCustom) (Registrations registry)"

definition tool_admissible :: "bool \<Rightarrow> Tool \<Rightarrow> bool" where
  "tool_admissible has_registry tool =
     (case tool of
        FunctionTool _ _ _ _ \<Rightarrow> True
      | CustomTool _ _ _ \<Rightarrow> has_registry
      | DeferredTool kind _ \<Rightarrow> has_registry \<and> kind \<in> {ToolNamespace, ToolWebSearch})"

lemma schema_sum_nonneg: "0 \<le> sum_list (map (\<lambda>f. len (snd f)) (tool_functions ts))"
  by (rule sum_list_nonneg) auto

lemma count_tools_iff:
  assumes "\<not> over_budget mt mb b"
  shows "(\<exists>u b'. go_for (count_tool mt mb h) tools b = (Inr u, b')) \<longleftrightarrow>
      list_all (tool_admissible h) tools \<and> distinct (map fst (tool_functions tools))
      \<and> set (map fst (tool_functions tools)) \<inter> providerNames b = {}
      \<and> providerTools b + len (tool_functions tools) \<le> mt
      \<and> schemaBytes b + sum_list (map (\<lambda>f. len (snd f)) (tool_functions tools)) \<le> mb"
  using assms
proof (induction tools arbitrary: b)
  case (Cons t tools)
  show ?case
  proof (cases t)
    case (FunctionTool n d p st)
    define b1 where "b1 = b\<lparr>providerTools := providerTools b + 1, providerNames := insert n (providerNames b),
                             schemaBytes := schemaBytes b + len p\<rparr>"
    show ?thesis using Cons.IH [of b1] Cons.prems schema_sum_nonneg [of tools] FunctionTool
      by (auto simp: count_tool_def tool_admissible_def over_budget_def b1_def)
  qed (use Cons in \<open>auto simp: count_tool_def tool_admissible_def ValidateCapturedDeferredTool_def\<close>)
qed (simp add: over_budget_def)

lemma count_tools_result:
  "go_for (count_tool mt mb h) tools b = (Inr u, b') \<Longrightarrow>
     providerTools b' = providerTools b + len (tool_functions tools)
     \<and> schemaBytes b' = schemaBytes b + sum_list (map (\<lambda>f. len (snd f)) (tool_functions tools))
     \<and> (\<not> over_budget mt mb b \<longrightarrow> \<not> over_budget mt mb b')"
proof (induction tools arbitrary: b)
  case (Cons t tools)
  from Cons.prems obtain b1 where 1: "count_tool mt mb h t b = (Inr (), b1)"
    and 2: "go_for (count_tool mt mb h) tools b1 = (Inr u, b')"
    by (auto simp: go_bind_Inr_iff)
  from Cons.IH [OF 2] 1 show ?case
    by (cases t) (auto simp: count_tool_def go_bind_Inr_iff split: if_splits option.splits)
qed simp

lemma wrapper_schema_nonneg: "0 \<le> ApplyPatchWrapperSchemaBytes"
  by (simp add: ApplyPatchWrapperSchemaBytes_def)

lemma count_registrations_iff:
  assumes "\<not> over_budget mt mb b"
  shows "(\<exists>u b'. go_for (count_registration mt mb) rs b = (Inr u, b')) \<longleftrightarrow>
      (let cs = filter (\<lambda>r. reg_Kind r = ToolCustom) rs in
        list_all (\<lambda>r. r = applyPatchRegistration) cs
        \<and> providerTools b + len cs \<le> mt
        \<and> schemaBytes b + len cs * ApplyPatchWrapperSchemaBytes \<le> mb)"
  using assms
proof (induction rs arbitrary: b)
  case (Cons r rs)
  define b1 where "b1 = b\<lparr>providerTools := providerTools b + 1, schemaBytes := schemaBytes b + ApplyPatchWrapperSchemaBytes\<rparr>"
  define cs where "cs = filter (\<lambda>r. reg_Kind r = ToolCustom) rs"
  have v: "validateCustomToolRegistration r = None \<longleftrightarrow> r = applyPatchRegistration"
    by (auto simp: validateCustomToolRegistration_def applyPatchRegistration_def)
  have n: "0 \<le> len cs * ApplyPatchWrapperSchemaBytes"
    by (intro mult_nonneg_nonneg wrapper_schema_nonneg) simp
  show ?case
  proof (cases "reg_Kind r = ToolCustom")
    case True
    show ?thesis
    proof (cases "validateCustomToolRegistration r")
      case None
      have "(\<exists>u b'. go_for (count_registration mt mb) (r # rs) b = (Inr u, b')) \<longleftrightarrow>
        \<not> over_budget mt mb b1 \<and> (\<exists>u b'. go_for (count_registration mt mb) rs b1 = (Inr u, b'))"
        using True None by (auto simp: count_registration_def b1_def Let_def)
      also have "\<dots> \<longleftrightarrow> list_all (\<lambda>r. r = applyPatchRegistration) cs
        \<and> providerTools b + (1 + len cs) \<le> mt
        \<and> schemaBytes b + (1 + len cs) * ApplyPatchWrapperSchemaBytes \<le> mb"
        using Cons.IH [of b1] n by (auto simp: over_budget_def b1_def Let_def cs_def distrib_right)
      finally show ?thesis using True v None by (simp add: cs_def Let_def)
    next
      case (Some e)
      then show ?thesis using True v by (auto simp: count_registration_def)
    qed
  next
    case False
    then show ?thesis using Cons by (simp add: count_registration_def)
  qed
qed (simp add: over_budget_def)

lemma budget_accepts:
  assumes "0 < maxTools" "0 < maxBytes"
  shows "ValidateProviderToolBudget tools registry maxTools maxBytes = None \<longleftrightarrow>
    list_all (tool_admissible (registry \<noteq> None)) tools \<and> distinct (map fst (tool_functions tools))
    \<and> list_all (\<lambda>r. r = applyPatchRegistration) (custom_registrations registry)
    \<and> len (tool_functions tools) + len (custom_registrations registry) \<le> maxTools
    \<and> sum_list (map (\<lambda>f. len (snd f)) (tool_functions tools))
        + len (custom_registrations registry) * ApplyPatchWrapperSchemaBytes \<le> maxBytes"
proof -
  define b0 :: tool_budget where "b0 = \<lparr>providerTools = 0, schemaBytes = 0, providerNames = {}\<rparr>"
  let ?run = "go_for (count_tool maxTools maxBytes (registry \<noteq> None)) tools b0"
  let ?regs = "go_for (count_registration maxTools maxBytes) (Registrations registry)"
  have b0: "\<not> over_budget maxTools maxBytes b0" using assms by (simp add: over_budget_def b0_def)
  have n: "0 \<le> len (custom_registrations registry) * ApplyPatchWrapperSchemaBytes"
    by (intro mult_nonneg_nonneg wrapper_schema_nonneg) simp
  have none: "ValidateProviderToolBudget tools registry maxTools maxBytes = None \<longleftrightarrow>
      (\<exists>u b'. ?run = (Inr u, b') \<and> (\<exists>u c. ?regs b' = (Inr u, c)))"
    using assms by (simp add: ValidateProviderToolBudget_def b0_def go_error_bind_None) (simp add: go_error_None_iff)
  show ?thesis
  proof (cases "\<exists>u b'. ?run = (Inr u, b')")
    case True
    then obtain u b' where b': "?run = (Inr u, b')" by blast
    note r = count_tools_result [OF b'] b0
    have "(\<exists>u c. ?regs b' = (Inr u, c)) \<longleftrightarrow>
        list_all (\<lambda>r. r = applyPatchRegistration) (custom_registrations registry)
        \<and> len (tool_functions tools) + len (custom_registrations registry) \<le> maxTools
        \<and> sum_list (map (\<lambda>f. len (snd f)) (tool_functions tools))
            + len (custom_registrations registry) * ApplyPatchWrapperSchemaBytes \<le> maxBytes"
      using r count_registrations_iff [of maxTools maxBytes b' "Registrations registry"]
      by (simp add: custom_registrations_def Let_def b0_def)
    with none b' count_tools_iff [OF b0, of "registry \<noteq> None" tools] show ?thesis
      by (auto simp: b0_def)
  next
    case False
    with none count_tools_iff [OF b0, of "registry \<noteq> None" tools] n schema_sum_nonneg [of tools] show ?thesis
      by (auto simp: b0_def)
  qed
qed

text \<open>
  A request is within the provider's tool budget exactly when its deferred and custom tools are
  admissible, its function names are distinct, the registered custom tools are \<open>apply_patch\<close>, and the
  functions together with the registered wrapper keep to both limits, each schema counted once.
\<close>

theorem tool_budget_iff:
  assumes "0 < maxTools" "0 < maxBytes"
  shows "ValidateProviderToolBudget tools registry maxTools maxBytes = None \<longleftrightarrow>
    list_all (tool_admissible (registry \<noteq> None)) tools \<and> distinct (map fst (tool_functions tools))
    \<and> list_all (\<lambda>r. r = applyPatchRegistration) (custom_registrations registry)
    \<and> len (tool_functions tools) + len (custom_registrations registry) \<le> maxTools
    \<and> sum_list (map (\<lambda>f. len (snd f)) (tool_functions tools))
        + len (custom_registrations registry) * ApplyPatchWrapperSchemaBytes \<le> maxBytes"
  using assms by (rule budget_accepts)

theorem tool_budget_iff_witness:
  "ValidateProviderToolBudget [FunctionTool ''ls'' [] ''{}'' None, DeferredTool ToolWebSearch []]
     (Some \<lparr>byInbound = [(ApplyPatchToolName, applyPatchRegistration)],
            byUpstream = [(ApplyPatchUpstreamName, applyPatchRegistration)]\<rparr>) 2 1000 = None"
  by (subst tool_budget_iff)
    (simp_all add: tool_admissible_def custom_registrations_def Registrations_def applyPatchRegistration_def
      ApplyPatchWrapperSchemaBytes_def applyPatchWrapperSchema_def)

end
