(* ===== verification/Tool_Results.thy ===== *)
theory Tool_Results
  imports Bridge
begin

text \<open>
  \<open>internal/opencodego/tool_results.go\<close>: the translation of the tool calls and tool outputs of a
  Codex request into provider-neutral results. A call may precede or follow its output; either way
  its status marks the result.
\<close>

section \<open>The translation\<close>

datatype tool_result_error = ErrToolResultInvalid | ErrToolResultDuplicate | ErrToolResultKindMismatch

definition toolResultStatusIsError :: "gostring \<Rightarrow> bool" where
  "toolResultStatusIsError status =
     (ToLower (TrimSpace status) \<in>
        set [''error'', ''failed'', ''failure'', ''cancelled'', ''canceled'', ''incomplete''])"

record toolCallResultMetadata =
  md_kind :: ToolKind
  md_error :: bool

record translation =
  tl_calls :: "(gostring, toolCallResultMetadata) gomap"
  tl_seenResults :: "gostring list"
  tl_results :: "ToolResult list"
  tl_resultIndexes :: "(gostring, nat) gomap"

text \<open>The two identical cases for \<open>FunctionCall\<close> and \<open>CustomToolCall\<close>, which differ in the kind.\<close>

definition translate_call ::
  "ToolKind \<Rightarrow> gostring \<Rightarrow> gostring \<Rightarrow> gostring \<Rightarrow> translation \<Rightarrow> (tool_result_error, unit, translation) go" where
  "translate_call kind callID name status t =
     (if callID = [] \<or> name = [] then (Inl ErrToolResultInvalid, t)
      else if map_of (tl_calls t) callID \<noteq> None then (Inl ErrToolResultInvalid, t)
      else
        let metadata = \<lparr>md_kind = kind, md_error = toolResultStatusIsError status\<rparr>;
            put = (\<lambda>t. t\<lparr>tl_calls := map_put callID metadata (tl_calls t)\<rparr>)
        in case map_of (tl_resultIndexes t) callID of
            Some index \<Rightarrow>
              (let r = tl_results t ! index in
               if tr_Kind r \<noteq> md_kind metadata then (Inl ErrToolResultKindMismatch, t)
               else (Inr (), put (t\<lparr>tl_results := (tl_results t)[index := r\<lparr>tr_Error := tr_Error r \<or> md_error metadata\<rparr>]\<rparr>)))
          | None \<Rightarrow> (Inr (), put t))"

definition toolResult ::
  "gostring \<Rightarrow> ToolKind \<Rightarrow> gostring \<Rightarrow> gostring \<Rightarrow> bool \<Rightarrow> translation \<Rightarrow> (tool_result_error, ToolResult, translation) go" where
  "toolResult callID kind output status errorMarker t =
     (if callID = [] then (Inl ErrToolResultInvalid, t)
      else
        let call = map_of (tl_calls t) callID in
        if (case call of Some m \<Rightarrow> md_kind m \<noteq> kind | None \<Rightarrow> False) then (Inl ErrToolResultKindMismatch, t)
        else if callID \<in> set (tl_seenResults t) then (Inl ErrToolResultDuplicate, t)
        else
          (Inr \<lparr>tr_CallID = callID, tr_Kind = kind, tr_Output = output, tr_Status = status,
                tr_Error = (errorMarker \<or> (case call of Some m \<Rightarrow> md_error m | None \<Rightarrow> False)
                            \<or> toolResultStatusIsError status)\<rparr>,
           t\<lparr>tl_seenResults := tl_seenResults t @ [callID]\<rparr>))"

definition append_result :: "ToolResult \<Rightarrow> translation \<Rightarrow> (tool_result_error, unit, translation) go" where
  "append_result r t =
     (Inr (), t\<lparr>tl_resultIndexes := map_put (tr_CallID r) (length (tl_results t)) (tl_resultIndexes t),
               tl_results := tl_results t @ [r]\<rparr>)"

definition translate_item :: "InputItem \<Rightarrow> translation \<Rightarrow> (tool_result_error, unit, translation) go" where
  "translate_item item t =
     (case item of
        FunctionCall _ callID name _ status \<Rightarrow> translate_call ToolFunction callID name status t
      | CustomToolCall _ callID name _ status \<Rightarrow> translate_call ToolCustom callID name status t
      | FunctionCallOutput callID output status err \<Rightarrow>
          go_bind (toolResult callID ToolFunction output status err t) append_result
      | CustomToolCallOutput callID output status err \<Rightarrow>
          go_bind (toolResult callID ToolCustom output status err t) append_result
      | Message _ _ _ \<Rightarrow> (Inr (), t))"

definition TranslateToolResults :: "InputItem list \<Rightarrow> tool_result_error + ToolResult list" where
  "TranslateToolResults items =
     (case go_for translate_item items
        \<lparr>tl_calls = [], tl_seenResults = [], tl_results = [], tl_resultIndexes = []\<rparr> of
        (Inl e, _) \<Rightarrow> Inl e
      | (Inr _, t) \<Rightarrow> Inr (tl_results t))"

section \<open>What it promises\<close>

text \<open>
  The specification reads the items as a whole: the declared calls (identifier, name, kind, error
  status), and the outputs (identifier, kind, text, status, error marker), both in their order.
\<close>

fun calls_of :: "InputItem list \<Rightarrow> (gostring \<times> gostring \<times> toolCallResultMetadata) list" where
  "calls_of [] = []"
| "calls_of (FunctionCall _ i n _ s # xs) = (i, n, \<lparr>md_kind = ToolFunction, md_error = toolResultStatusIsError s\<rparr>) # calls_of xs"
| "calls_of (CustomToolCall _ i n _ s # xs) = (i, n, \<lparr>md_kind = ToolCustom, md_error = toolResultStatusIsError s\<rparr>) # calls_of xs"
| "calls_of (_ # xs) = calls_of xs"

fun outputs_of :: "InputItem list \<Rightarrow> ToolResult list" where
  "outputs_of [] = []"
| "outputs_of (FunctionCallOutput i out s e # xs) =
     \<lparr>tr_CallID = i, tr_Kind = ToolFunction, tr_Output = out, tr_Status = s, tr_Error = (e \<or> toolResultStatusIsError s)\<rparr> # outputs_of xs"
| "outputs_of (CustomToolCallOutput i out s e # xs) =
     \<lparr>tr_CallID = i, tr_Kind = ToolCustom, tr_Output = out, tr_Status = s, tr_Error = (e \<or> toolResultStatusIsError s)\<rparr> # outputs_of xs"
| "outputs_of (_ # xs) = outputs_of xs"

definition call_table :: "InputItem list \<Rightarrow> (gostring, toolCallResultMetadata) gomap" where
  "call_table items = map (\<lambda>(i, n, m). (i, m)) (calls_of items)"

definition with_call_error :: "(gostring, toolCallResultMetadata) gomap \<Rightarrow> ToolResult \<Rightarrow> ToolResult" where
  "with_call_error calls r =
     r\<lparr>tr_Error := tr_Error r \<or> (case map_of calls (tr_CallID r) of Some m \<Rightarrow> md_error m | None \<Rightarrow> False)\<rparr>"

definition kinds_agree :: "InputItem list \<Rightarrow> bool" where
  "kinds_agree items = list_all (\<lambda>r. case map_of (call_table items) (tr_CallID r) of
     Some m \<Rightarrow> md_kind m = tr_Kind r | None \<Rightarrow> True) (outputs_of items)"

definition results_wf :: "InputItem list \<Rightarrow> bool" where
  "results_wf items \<longleftrightarrow>
     list_all (\<lambda>(i, n, m). i \<noteq> [] \<and> n \<noteq> []) (calls_of items) \<and> distinct (map fst (calls_of items))
     \<and> list_all (\<lambda>r. tr_CallID r \<noteq> []) (outputs_of items) \<and> distinct (map tr_CallID (outputs_of items))
     \<and> kinds_agree items"

section \<open>The loop computes the specification\<close>

lemma calls_of_append: "calls_of (xs @ ys) = calls_of xs @ calls_of ys"
  by (induction xs rule: calls_of.induct) simp_all

lemma outputs_of_append: "outputs_of (xs @ ys) = outputs_of xs @ outputs_of ys"
  by (induction xs rule: outputs_of.induct) simp_all

text \<open>The state of the loop after a well-formed prefix.\<close>

definition translated :: "InputItem list \<Rightarrow> translation" where
  "translated items =
     \<lparr>tl_calls = call_table items, tl_seenResults = map tr_CallID (outputs_of items),
      tl_results = map (with_call_error (call_table items)) (outputs_of items),
      tl_resultIndexes = zip (map tr_CallID (outputs_of items)) [0..<length (outputs_of items)]\<rparr>"

lemma with_call_error_id [simp]: "tr_CallID (with_call_error c r) = tr_CallID r"
  by (simp add: with_call_error_def)

lemma with_call_error_kind [simp]: "tr_Kind (with_call_error c r) = tr_Kind r"
  by (simp add: with_call_error_def)

lemma call_table_fst [simp]: "map fst (call_table items) = map fst (calls_of items)"
  by (auto simp: call_table_def)

lemma map_of_call_table_None: "map_of (call_table items) i = None \<longleftrightarrow> i \<notin> set (map fst (calls_of items))"
  using call_table_fst [of items] by (metis list.set_map map_of_eq_None_iff)

lemma index_of_Some:
  "distinct ks \<Longrightarrow> map_of (zip ks [0..<length ks]) k = Some i \<longleftrightarrow> i < length ks \<and> ks ! i = k"
  by (auto simp: map_of_zip_nth in_set_conv_nth dest: map_of_SomeD)

lemma index_of_None: "map_of (zip ks [0..<length ks]) k = None \<longleftrightarrow> k \<notin> set ks"
  by (simp add: map_of_zip_is_None)


lemma call_table_snoc: "calls_of [x] = [(i, n, m)] \<Longrightarrow> call_table (xs @ [x]) = call_table xs @ [(i, m)]"
  by (simp add: call_table_def calls_of_append)

lemma with_call_error_snoc:
  assumes "map_of calls i = None"
  shows "with_call_error (calls @ [(i, m)]) r =
     (if tr_CallID r = i then (with_call_error calls r)\<lparr>tr_Error := tr_Error (with_call_error calls r) \<or> md_error m\<rparr>
      else with_call_error calls r)"
  using assms by (auto simp: with_call_error_def map_add_def split: option.splits)

lemma kinds_agree_snoc_call:
  assumes "calls_of [x] = [(i, n, m)]" "outputs_of [x] = []" "map_of (call_table xs) i = None"
  shows "kinds_agree (xs @ [x]) \<longleftrightarrow> kinds_agree xs \<and> (\<forall>r \<in> set (outputs_of xs). tr_CallID r = i \<longrightarrow> tr_Kind r = md_kind m)"
  using assms
  by (auto simp: kinds_agree_def outputs_of_append call_table_snoc list_all_iff map_add_def split: option.splits)

lemma map_update_one:
  assumes "distinct (map f xs)" "j < length xs"
  shows "(map g xs)[j := h (g (xs ! j))] = map (\<lambda>x. if f x = f (xs ! j) then h (g x) else g x) xs"
proof (rule nth_equalityI)
  fix l assume "l < length ((map g xs)[j := h (g (xs ! j))])"
  moreover have "f (xs ! l) = f (xs ! j) \<longleftrightarrow> l = j" if "l < length xs"
    using that assms by (metis length_map nth_eq_iff_index_eq nth_map)
  ultimately show "(map g xs)[j := h (g (xs ! j))] ! l = map (\<lambda>x. if f x = f (xs ! j) then h (g x) else g x) xs ! l"
    by (auto simp: nth_list_update)
qed simp

lemma translate_call_step:
  assumes wf: "results_wf xs"
    and x: "calls_of [x] = [(i, n, \<lparr>md_kind = k, md_error = toolResultStatusIsError s\<rparr>)]" "outputs_of [x] = []"
  shows "if results_wf (xs @ [x]) then translate_call k i n s (translated xs) = (Inr (), translated (xs @ [x]))
    else \<exists>e t. translate_call k i n s (translated xs) = (Inl e, t)"
proof (cases "i = [] \<or> n = [] \<or> map_of (call_table xs) i \<noteq> None")
  case True
  then have "\<not> results_wf (xs @ [x])"
    using x(1) map_of_call_table_None [of xs i] by (auto simp: results_wf_def calls_of_append)
  with True show ?thesis by (auto simp: translate_call_def translated_def Let_def)
next
  case False
  let ?m = "\<lparr>md_kind = k, md_error = toolResultStatusIsError s\<rparr>"
  let ?ids = "map tr_CallID (outputs_of xs)"
  have d: "distinct ?ids" using wf by (simp add: results_wf_def)
  have fresh: "map_of (call_table xs) i = None" "i \<notin> set (map fst (calls_of xs))"
    using False map_of_call_table_None by auto
  note ka = kinds_agree_snoc_call [OF x fresh(1)]
  have wf': "results_wf (xs @ [x]) \<longleftrightarrow> (\<forall>r \<in> set (outputs_of xs). tr_CallID r = i \<longrightarrow> tr_Kind r = k)"
    using wf False fresh x by (auto simp: results_wf_def calls_of_append outputs_of_append ka)
  show ?thesis
  proof (cases "map_of (zip ?ids [0..<length ?ids]) i")
    case None
    then have ni: "i \<notin> set ?ids" by (simp only: index_of_None) simp
    then have "results_wf (xs @ [x])" unfolding wf' by auto
    moreover have "map (with_call_error (call_table (xs @ [x]))) (outputs_of xs) = map (with_call_error (call_table xs)) (outputs_of xs)"
      using ni by (auto simp: call_table_snoc [OF x(1)] with_call_error_snoc [OF fresh(1)])
    ultimately show ?thesis using False fresh(1)
      by (simp add: translate_call_def translated_def Let_def outputs_of_append x call_table_snoc [OF x(1)]
          map_put_fresh None [unfolded length_map])
  next
    case (Some j)
    then have j: "j < length (outputs_of xs)" "tr_CallID (outputs_of xs ! j) = i" using index_of_Some [OF d] by auto
    have "r = outputs_of xs ! j" if "r \<in> set (outputs_of xs)" "tr_CallID r = i" for r
      using that j d by (metis distinct_map inj_onD nth_mem)
    then have wfj: "results_wf (xs @ [x]) \<longleftrightarrow> tr_Kind (outputs_of xs ! j) = k"
      unfolding wf' using j nth_mem [OF j(1)] by metis
    have "map (with_call_error (call_table xs @ [(i, ?m)])) (outputs_of xs) =
      (map (with_call_error (call_table xs)) (outputs_of xs))
        [j := with_call_error (call_table xs) (outputs_of xs ! j)
           \<lparr>tr_Error := tr_Error (with_call_error (call_table xs) (outputs_of xs ! j)) \<or> md_error ?m\<rparr>]"
      using map_update_one [OF d j(1), of "with_call_error (call_table xs)" "\<lambda>r. r\<lparr>tr_Error := tr_Error r \<or> md_error ?m\<rparr>"] j(2)
      by (simp add: with_call_error_snoc [OF fresh(1)])
    then show ?thesis using Some False fresh(1) j wfj
      by (simp add: translate_call_def translated_def Let_def outputs_of_append x call_table_snoc [OF x(1)] map_put_fresh)
  qed
qed

lemma output_step:
  assumes wf: "results_wf xs"
    and x: "outputs_of [x] = [\<lparr>tr_CallID = i, tr_Kind = k, tr_Output = out, tr_Status = s, tr_Error = (e \<or> toolResultStatusIsError s)\<rparr>]"
      "calls_of [x] = []"
  shows "if results_wf (xs @ [x]) then go_bind (toolResult i k out s e (translated xs)) append_result = (Inr (), translated (xs @ [x]))
    else \<exists>e' t. go_bind (toolResult i k out s e (translated xs)) append_result = (Inl e', t)"
proof -
  have ct: "call_table (xs @ [x]) = call_table xs" using x(2) by (simp add: call_table_def calls_of_append)
  have wf': "results_wf (xs @ [x]) \<longleftrightarrow> i \<noteq> [] \<and> i \<notin> set (map tr_CallID (outputs_of xs))
      \<and> (case map_of (call_table xs) i of Some m \<Rightarrow> md_kind m = k | None \<Rightarrow> True)"
    using wf x ct
    by (auto simp: results_wf_def calls_of_append outputs_of_append kinds_agree_def split: option.splits)
  show ?thesis
  proof (cases "results_wf (xs @ [x])")
    case True
    then show ?thesis using index_of_None [of "map tr_CallID (outputs_of xs)" i] unfolding wf'
      by (auto simp: toolResult_def append_result_def translated_def Let_def ct outputs_of_append x
          map_put_fresh with_call_error_def split: option.splits)
  next
    case False
    then show ?thesis unfolding wf'
      by (auto simp: toolResult_def translated_def Let_def split: option.splits)
  qed
qed

lemma kinds_agree_prefix: "kinds_agree (xs @ ys) \<Longrightarrow> kinds_agree xs"
  by (fastforce simp: kinds_agree_def outputs_of_append call_table_def calls_of_append list_all_iff
      map_add_def split: option.splits)

lemma results_wf_prefix: "results_wf (xs @ ys) \<Longrightarrow> results_wf xs"
  using kinds_agree_prefix by (auto simp: results_wf_def calls_of_append outputs_of_append)

lemma translate_item_step:
  assumes wf: "results_wf xs"
  shows "if results_wf (xs @ [x]) then translate_item x (translated xs) = (Inr (), translated (xs @ [x]))
    else \<exists>e t. translate_item x (translated xs) = (Inl e, t)"
proof (cases x)
  case (Message i r c)
  then have "results_wf (xs @ [x]) = results_wf xs" "translated (xs @ [x]) = translated xs"
    by (simp_all add: results_wf_def kinds_agree_def translated_def call_table_def calls_of_append outputs_of_append)
  with wf Message show ?thesis by (simp add: translate_item_def del: tool_kinds)
next
  case (FunctionCall a i n args s)
  with translate_call_step [OF wf, of x i n ToolFunction s] show ?thesis by (simp add: translate_item_def del: tool_kinds)
next
  case (CustomToolCall a i n args s)
  with translate_call_step [OF wf, of x i n ToolCustom s] show ?thesis by (simp add: translate_item_def del: tool_kinds)
next
  case (FunctionCallOutput i out s e)
  with output_step [OF wf, of x i ToolFunction out s e] show ?thesis by (simp add: translate_item_def del: tool_kinds)
next
  case (CustomToolCallOutput i out s e)
  with output_step [OF wf, of x i ToolCustom out s e] show ?thesis by (simp add: translate_item_def del: tool_kinds)
qed

lemma translate_items:
  "if results_wf items then go_for translate_item items (translated []) = (Inr (), translated items)
   else \<exists>e t. go_for translate_item items (translated []) = (Inl e, t)"
proof (induction items rule: rev_induct)
  case Nil
  then show ?case by (simp add: results_wf_def kinds_agree_def)
next
  case (snoc x xs)
  show ?case
  proof (cases "results_wf xs")
    case True
    with snoc translate_item_step [OF True, of x] show ?thesis by (auto simp: go_for_append split: if_splits)
  next
    case False
    with snoc results_wf_prefix [of xs "[x]"] show ?thesis by (auto simp: go_for_append)
  qed
qed

text \<open>
  C32: The results of a request are its tool outputs in their order, each with its text and status
  unchanged and marked as an error when its own marker or status says so or when the call it answers,
  before or after it, has an error status. The translation fails exactly when a call lacks an
  identifier or a name, an identifier is missing or repeated, or a call and its output differ in kind.
\<close>

theorem TranslateToolResults_spec:
  "case TranslateToolResults items of
     Inr results \<Rightarrow> results_wf items \<and> results = map (with_call_error (call_table items)) (outputs_of items)
   | Inl e \<Rightarrow> \<not> results_wf items"
proof -
  have "translated [] = \<lparr>tl_calls = [], tl_seenResults = [], tl_results = [], tl_resultIndexes = []\<rparr>"
    by (simp add: translated_def call_table_def)
  with translate_items [of items] show ?thesis
    by (auto simp: TranslateToolResults_def translated_def Let_def split: if_splits)
qed

end
