(* ===== verification/Continuation.thy ===== *)
theory Continuation
  imports Bridge Go_Json
begin

text \<open>
  \<open>internal/opencodego/continuation.go\<close>: the bounded in-memory store of assistant turns that wait for
  tool results, and the leases under which one request replays a turn.

  A lease keeps a pointer to the record it reserved, also after the store has dropped that record, so
  records live in a heap: \<open>cs_heap\<close> is the list of every record ever saved, a pointer is an index into
  it and the table \<open>cs_records\<close> maps a key to a pointer. Every operation runs under the store's mutex
  and is one atomic function. The clock reading and the answers of \<open>ctx.Err()\<close>, in the order the code
  asks for them, are arguments, and so is the order in which \<open>range\<close> visits the records.
\<close>

section \<open>Constants and errors\<close>

definition ProviderName :: gostring where "ProviderName = ''opencodego''"
definition DefaultContinuationMaxRecordBytes :: int where "DefaultContinuationMaxRecordBytes = 16 * 2 ^ 20"
definition defaultContinuationTTL :: int where "defaultContinuationTTL = 5 * 60 * 10 ^ 9"
definition defaultContinuationConsumingTTL :: int where "defaultContinuationConsumingTTL = 10 * 60 * 10 ^ 9"
definition defaultContinuationGrace :: int where "defaultContinuationGrace = 30 * 10 ^ 9"
definition defaultContinuationMaxRecords :: int where "defaultContinuationMaxRecords = 128"
definition defaultContinuationMaxBytes :: int where "defaultContinuationMaxBytes = 128 * 2 ^ 20"
definition defaultContinuationCleanup :: int where "defaultContinuationCleanup = 30 * 10 ^ 9"

lemmas continuation_defaults = DefaultContinuationMaxRecordBytes_def defaultContinuationTTL_def
  defaultContinuationConsumingTTL_def defaultContinuationGrace_def defaultContinuationMaxRecords_def
  defaultContinuationMaxBytes_def defaultContinuationCleanup_def

type_synonym PendingStatus = gostring

definition PendingStatusPending :: PendingStatus where "PendingStatusPending = ''pending''"
definition PendingStatusConsuming :: PendingStatus where "PendingStatusConsuming = ''consuming''"
definition PendingStatusConsumed :: PendingStatus where "PendingStatusConsumed = ''consumed''"
definition PendingStatusExpired :: PendingStatus where "PendingStatusExpired = ''expired''"

lemma status_distinct [simp]:
  "PendingStatusPending \<noteq> PendingStatusConsuming" "PendingStatusPending \<noteq> PendingStatusConsumed"
  "PendingStatusPending \<noteq> PendingStatusExpired" "PendingStatusConsuming \<noteq> PendingStatusPending"
  "PendingStatusConsuming \<noteq> PendingStatusConsumed" "PendingStatusConsuming \<noteq> PendingStatusExpired"
  "PendingStatusConsumed \<noteq> PendingStatusPending" "PendingStatusConsumed \<noteq> PendingStatusConsuming"
  "PendingStatusConsumed \<noteq> PendingStatusExpired" "PendingStatusExpired \<noteq> PendingStatusPending"
  "PendingStatusExpired \<noteq> PendingStatusConsuming" "PendingStatusExpired \<noteq> PendingStatusConsumed"
  by (simp_all add: PendingStatusPending_def PendingStatusConsuming_def PendingStatusConsumed_def
      PendingStatusExpired_def)

datatype ctx_error = ContextCanceled | ContextDeadlineExceeded

text \<open>The answers of a context: \<open>ctx i\<close> is what the i-th call of \<open>ctx.Err()\<close> in one operation returns.\<close>

type_synonym ctx = "nat \<Rightarrow> ctx_error option"

definition Background :: ctx where "Background = (\<lambda>_. None)"

datatype continuation_error =
    ErrContinuationClosed | ErrContinuationUnknown | ErrContinuationExpired | ErrContinuationBusy
  | ErrContinuationConsumed | ErrContinuationKindMismatch | ErrContinuationDuplicate
  | ErrContinuationMixed | ErrContinuationIncomplete | ErrContinuationCapacity
  | ErrContinuationInvalid | ErrContinuationFinalized
  | ErrContext ctx_error
  | NilDereference \<comment> \<open>the run-time panic of reading a nil record\<close>

section \<open>State\<close>

record UpstreamToolCall =
  uc_CallID :: gostring
  uc_ProviderCallID :: gostring
  uc_Kind :: ToolKind
  uc_Name :: gostring
  uc_Arguments :: gostring
  uc_Registration :: ToolRegistration

record PendingTurn =
  pt_Provider :: gostring
  pt_Model :: gostring
  pt_ReasoningContent :: gostring
  pt_AssistantContent :: gostring
  pt_ToolCalls :: "UpstreamToolCall list"
  pt_ToolRegistrations :: "ToolRegistration list"
  pt_CallIDs :: "gostring list"
  pt_CreatedAt :: gotime
  pt_ExpiresAt :: gotime
  pt_SizeBytes :: int
  pt_Status :: PendingStatus

record ContinuationStoreConfig =
  cc_TTL :: int
  cc_ConsumingLeaseTTL :: int
  cc_ConsumedGracePeriod :: int
  cc_MaxRecords :: int
  cc_MaxBytesPerRecord :: int
  cc_MaxAggregateBytes :: int
  cc_CleanupInterval :: int

record continuationRecord =
  cr_key :: gostring
  cr_turn :: PendingTurn
  cr_bytes :: int
  cr_originalExpiry :: gotime

record ContinuationStore =
  cs_config :: ContinuationStoreConfig
  cs_records :: "(gostring, nat) gomap"
  cs_byCallID :: "(gostring, gostring) gomap"
  cs_expiredCallIDs :: "(gostring, gotime) gomap"
  cs_maxExpiredIDs :: int
  cs_totalBytes :: int
  cs_closed :: bool
  cs_heap :: "continuationRecord list"

record ContinuationLease =
  cl_record :: nat
  cl_turn :: PendingTurn
  cl_results :: "ToolResult list"
  cl_done :: bool

abbreviation turn_ids :: "PendingTurn \<Rightarrow> gostring list" where
  "turn_ids t \<equiv> map uc_CallID (pt_ToolCalls t)"

abbreviation status_at :: "ContinuationStore \<Rightarrow> nat \<Rightarrow> PendingStatus" where
  "status_at s a \<equiv> pt_Status (cr_turn (cs_heap s ! a))"

definition set_turn :: "nat \<Rightarrow> (PendingTurn \<Rightarrow> PendingTurn) \<Rightarrow> ContinuationStore \<Rightarrow> ContinuationStore" where
  "set_turn a f s =
     s\<lparr>cs_heap := (cs_heap s)[a := (cs_heap s ! a)\<lparr>cr_turn := f (cr_turn (cs_heap s ! a))\<rparr>]\<rparr>"

section \<open>Configuration\<close>

definition DefaultContinuationStoreConfig :: ContinuationStoreConfig where
  "DefaultContinuationStoreConfig =
     \<lparr>cc_TTL = defaultContinuationTTL, cc_ConsumingLeaseTTL = defaultContinuationConsumingTTL,
      cc_ConsumedGracePeriod = defaultContinuationGrace, cc_MaxRecords = defaultContinuationMaxRecords,
      cc_MaxBytesPerRecord = DefaultContinuationMaxRecordBytes, cc_MaxAggregateBytes = defaultContinuationMaxBytes,
      cc_CleanupInterval = defaultContinuationCleanup\<rparr>"

definition or_default :: "int \<Rightarrow> int \<Rightarrow> int" where
  "or_default value fallback = (if value = 0 then fallback else value)"

definition config_positive :: "ContinuationStoreConfig \<Rightarrow> bool" where
  "config_positive c \<longleftrightarrow>
     0 < cc_TTL c \<and> 0 < cc_ConsumingLeaseTTL c \<and> 0 < cc_ConsumedGracePeriod c \<and> 0 < cc_MaxRecords c
     \<and> 0 < cc_MaxBytesPerRecord c \<and> 0 < cc_MaxAggregateBytes c \<and> 0 < cc_CleanupInterval c"

definition normalizeContinuationStoreConfig :: "ContinuationStoreConfig \<Rightarrow> continuation_error + ContinuationStoreConfig" where
  "normalizeContinuationStoreConfig c =
     (let d = DefaultContinuationStoreConfig;
          c' = \<lparr>cc_TTL = or_default (cc_TTL c) (cc_TTL d),
                cc_ConsumingLeaseTTL = or_default (cc_ConsumingLeaseTTL c) (cc_ConsumingLeaseTTL d),
                cc_ConsumedGracePeriod = or_default (cc_ConsumedGracePeriod c) (cc_ConsumedGracePeriod d),
                cc_MaxRecords = or_default (cc_MaxRecords c) (cc_MaxRecords d),
                cc_MaxBytesPerRecord = or_default (cc_MaxBytesPerRecord c) (cc_MaxBytesPerRecord d),
                cc_MaxAggregateBytes = or_default (cc_MaxAggregateBytes c) (cc_MaxAggregateBytes d),
                cc_CleanupInterval = or_default (cc_CleanupInterval c) (cc_CleanupInterval d)\<rparr>
      in if config_positive c' then Inr c' else Inl ErrContinuationInvalid)"

abbreviation maxInt :: int where "maxInt \<equiv> 2 ^ 63 - 1"

definition max_expired_ids :: "int \<Rightarrow> int" where
  "max_expired_ids maxRecords =
     (if maxRecords \<le> maxInt div DefaultMaxFunctionTools then maxRecords * DefaultMaxFunctionTools else maxInt)"

definition NewContinuationStore :: "ContinuationStoreConfig \<Rightarrow> continuation_error + ContinuationStore" where
  "NewContinuationStore config =
     (case normalizeContinuationStoreConfig config of
        Inl e \<Rightarrow> Inl e
      | Inr c \<Rightarrow>
          Inr \<lparr>cs_config = c, cs_records = [], cs_byCallID = [], cs_expiredCallIDs = [],
               cs_maxExpiredIDs = max_expired_ids (cc_MaxRecords c), cs_totalBytes = 0, cs_closed = False,
               cs_heap = []\<rparr>)"

section \<open>Removal and expiry\<close>

definition removeLocked :: "nat \<Rightarrow> ContinuationStore \<Rightarrow> ContinuationStore" where
  "removeLocked a s =
     (let r = cs_heap s ! a in
      if map_of (cs_records s) (cr_key r) = None then s
      else
        let total = cs_totalBytes s - cr_bytes r
        in s\<lparr>cs_records := map_del (cr_key r) (cs_records s),
             cs_byCallID := fold map_del (turn_ids (cr_turn r)) (cs_byCallID s),
             cs_totalBytes := (if total < 0 then 0 else total)\<rparr>)"

definition add_tombstone :: "gotime \<Rightarrow> int \<Rightarrow> gostring \<Rightarrow> (gostring, gotime) gomap \<Rightarrow> (gostring, gotime) gomap" where
  "add_tombstone expiry limit callID m =
     (if map_of m callID \<noteq> None \<or> len m < limit then map_put callID expiry m else m)"

definition expireLocked :: "gotime \<Rightarrow> nat \<Rightarrow> ContinuationStore \<Rightarrow> ContinuationStore" where
  "expireLocked now a s =
     (let ids = turn_ids (cr_turn (cs_heap s ! a));
          s1 = s\<lparr>cs_expiredCallIDs :=
                   fold (add_tombstone (now + cc_ConsumedGracePeriod (cs_config s)) (cs_maxExpiredIDs s)) ids
                     (cs_expiredCallIDs s)\<rparr>;
          s2 = set_turn a (\<lambda>t. t\<lparr>pt_Status := PendingStatusExpired\<rparr>) s1
      in removeLocked a s2)"

text \<open>
  \<open>range\<close> over the records visits each key once, in an order of the run time's choice: the keys that
  \<open>order\<close> lists come first, in that order. An iteration only deletes the record it visits.
\<close>

definition range_order :: "gostring list \<Rightarrow> (gostring, 'v) gomap \<Rightarrow> gostring list" where
  "range_order order m =
     filter (\<lambda>k. map_of m k \<noteq> None) (remdups order) @ filter (\<lambda>k. k \<notin> set order) (map_keys m)"

definition cleanup_record :: "gotime \<Rightarrow> gostring \<Rightarrow> ContinuationStore \<Rightarrow> ContinuationStore" where
  "cleanup_record now key s =
     (case map_of (cs_records s) key of
        None \<Rightarrow> s
      | Some a \<Rightarrow>
          let t = cr_turn (cs_heap s ! a) in
          if pt_Status t = PendingStatusPending \<or> pt_Status t = PendingStatusConsuming then
            (if \<not> now < pt_ExpiresAt t then expireLocked now a s else s)
          else if pt_Status t = PendingStatusConsumed then
            (if \<not> now < pt_ExpiresAt t then removeLocked a s else s)
          else if pt_Status t = PendingStatusExpired then expireLocked now a s
          else s)"

definition cleanupLocked :: "gostring list \<Rightarrow> gotime \<Rightarrow> ContinuationStore \<Rightarrow> ContinuationStore" where
  "cleanupLocked order now s =
     (let s1 = s\<lparr>cs_expiredCallIDs := filter (\<lambda>(_, expiresAt). now < expiresAt) (cs_expiredCallIDs s)\<rparr>
      in fold (cleanup_record now) (range_order order (cs_records s1)) s1)"

text \<open>One tick of the cleanup goroutine.\<close>

definition cleanup_tick :: "gostring list \<Rightarrow> gotime \<Rightarrow> ContinuationStore \<Rightarrow> ContinuationStore" where
  "cleanup_tick order now s = (if cs_closed s then s else cleanupLocked order now s)"

text \<open>\<open>closeOnce\<close> runs the body once; the body is the only code that sets \<open>closed\<close>.\<close>

definition store_Close :: "ContinuationStore \<Rightarrow> ContinuationStore" where
  "store_Close s =
     (if cs_closed s then s
      else s\<lparr>cs_closed := True, cs_records := [], cs_byCallID := [], cs_expiredCallIDs := [], cs_totalBytes := 0\<rparr>)"

section \<open>The sz of a turn\<close>

text \<open>
  \<open>json.Marshal\<close> of a turn. The structs carry no JSON tags, so fields are written under their names in
  order; a nil slice is \<open>null\<close> (a clone of an empty slice is nil), \<open>CallIDs\<close> is made and never nil.
  Times are written as RFC 3339 with up to nine fractional digits, in UTC, and refused outside the
  years 0 to 9999.
\<close>

definition slice_text :: "('a \<Rightarrow> gostring) \<Rightarrow> 'a list \<Rightarrow> gostring" where
  "slice_text f xs = (if xs = [] then ''null'' else arr_text (map f xs))"

definition registration_text :: "ToolRegistration \<Rightarrow> gostring" where
  "registration_text r =
     obj_text [(''Kind'', quote (reg_Kind r)), (''InboundName'', quote (reg_InboundName r)),
               (''UpstreamName'', quote (reg_UpstreamName r)), (''WrapperField'', quote (reg_WrapperField r))]"

definition call_text :: "UpstreamToolCall \<Rightarrow> gostring" where
  "call_text c =
     obj_text [(''CallID'', quote (uc_CallID c)), (''ProviderCallID'', quote (uc_ProviderCallID c)),
               (''Kind'', quote (uc_Kind c)), (''Name'', quote (uc_Name c)),
               (''Arguments'', quote (uc_Arguments c)), (''Registration'', registration_text (uc_Registration c))]"

definition marshal_turn :: "PendingTurn \<Rightarrow> gostring option" where
  "marshal_turn t =
     (case (marshal_time (pt_CreatedAt t), marshal_time (pt_ExpiresAt t)) of
        (Some created, Some expires) \<Rightarrow>
          Some (obj_text
            [(''Provider'', quote (pt_Provider t)), (''Model'', quote (pt_Model t)),
             (''ReasoningContent'', quote (pt_ReasoningContent t)), (''AssistantContent'', quote (pt_AssistantContent t)),
             (''ToolCalls'', slice_text call_text (pt_ToolCalls t)),
             (''ToolRegistrations'', slice_text registration_text (pt_ToolRegistrations t)),
             (''CallIDs'', arr_text (map quote (pt_CallIDs t))),
             (''CreatedAt'', created), (''ExpiresAt'', expires),
             (''SizeBytes'', itoa (pt_SizeBytes t)), (''Status'', quote (pt_Status t))])
      | _ \<Rightarrow> None)"


section \<open>Saving a turn\<close>

definition clonePendingTurn :: "PendingTurn \<Rightarrow> PendingTurn" where
  "clonePendingTurn turn = turn" \<comment> \<open>slices are values here\<close>

text \<open>The loop over the calls: identities are checked and filled in, the identifiers collected.\<close>

fun normalize_calls ::
  "UpstreamToolCall list \<Rightarrow> gostring list \<Rightarrow> gostring list \<Rightarrow> continuation_error + UpstreamToolCall list" where
  "normalize_calls [] seenCallIDs seenProviderIDs = Inr []"
| "normalize_calls (call # calls) seenCallIDs seenProviderIDs =
     (if uc_CallID call = [] then Inl ErrContinuationInvalid
      else
        let call' = (if uc_ProviderCallID call = [] then call\<lparr>uc_ProviderCallID := uc_CallID call\<rparr> else call) in
        if uc_Name call' = [] then Inl ErrContinuationInvalid
        else if uc_CallID call' \<in> set seenCallIDs then Inl ErrContinuationInvalid
        else if uc_ProviderCallID call' \<in> set seenProviderIDs then Inl ErrContinuationInvalid
        else case normalize_calls calls (uc_CallID call' # seenCallIDs) (uc_ProviderCallID call' # seenProviderIDs) of
            Inl e \<Rightarrow> Inl e
          | Inr cs \<Rightarrow> Inr (call' # cs))"

definition normalizePendingTurn :: "PendingTurn \<Rightarrow> gotime \<Rightarrow> int \<Rightarrow> continuation_error + PendingTurn \<times> int" where
  "normalizePendingTurn turn now ttl =
     (if pt_Provider turn = [] \<or> pt_Model turn = [] \<or> pt_ToolCalls turn = [] then Inl ErrContinuationInvalid
      else case normalize_calls (pt_ToolCalls turn) [] [] of
          Inl e \<Rightarrow> Inl e
        | Inr calls \<Rightarrow>
            let t = turn\<lparr>pt_CreatedAt := (if pt_CreatedAt turn = zero_time then now else pt_CreatedAt turn),
                         pt_ExpiresAt := now + ttl, pt_Status := PendingStatusPending,
                         pt_ToolCalls := calls, pt_CallIDs := map uc_CallID calls\<rparr>
            in case marshal_turn t of
                None \<Rightarrow> Inl ErrContinuationInvalid
              | Some encoded \<Rightarrow> Inr (t\<lparr>pt_SizeBytes := len encoded\<rparr>, len encoded))"

fun fits_sizes :: "int \<Rightarrow> int \<Rightarrow> int \<Rightarrow> int list \<Rightarrow> bool" where
  "fits_sizes maxRecordBytes available lowerBound [] = True"
| "fits_sizes maxRecordBytes available lowerBound (sz # sizes) =
     (if sz < 0 \<or> sz > maxRecordBytes - lowerBound then False
      else if lowerBound + sz \<le> available then fits_sizes maxRecordBytes available (lowerBound + sz) sizes
      else False)"

definition turn_sizes :: "PendingTurn \<Rightarrow> int list" where
  "turn_sizes turn =
     map len [pt_Provider turn, pt_Model turn, pt_ReasoningContent turn, pt_AssistantContent turn]
     @ concat (map (\<lambda>c. map len [uc_CallID c, uc_ProviderCallID c, uc_Name c, uc_Arguments c,
          reg_InboundName (uc_Registration c), reg_UpstreamName (uc_Registration c),
          reg_WrapperField (uc_Registration c)]) (pt_ToolCalls turn))
     @ concat (map (\<lambda>r. map len [reg_InboundName r, reg_UpstreamName r, reg_WrapperField r]) (pt_ToolRegistrations turn))
     @ map len (pt_CallIDs turn)"

definition pendingTurnFitsBounds :: "PendingTurn \<Rightarrow> int \<Rightarrow> int \<Rightarrow> bool" where
  "pendingTurnFitsBounds turn maxRecordBytes available =
     (if maxRecordBytes \<le> 0 \<or> available \<le> 0 \<or> pt_ToolCalls turn = [] then False
      else if len (pt_ToolCalls turn) > maxRecordBytes \<or> len (pt_ToolRegistrations turn) > maxRecordBytes
        \<or> len (pt_CallIDs turn) > maxRecordBytes then False
      else fits_sizes maxRecordBytes available 0 (turn_sizes turn))"

definition insert_record :: "PendingTurn \<Rightarrow> int \<Rightarrow> ContinuationStore \<Rightarrow> ContinuationStore" where
  "insert_record turn sz s =
     (let key = hd (turn_ids turn)
      in s\<lparr>cs_expiredCallIDs := fold map_del (turn_ids turn) (cs_expiredCallIDs s),
           cs_heap := cs_heap s @ [\<lparr>cr_key = key, cr_turn = turn, cr_bytes = sz, cr_originalExpiry = pt_ExpiresAt turn\<rparr>],
           cs_records := map_put key (length (cs_heap s)) (cs_records s),
           cs_byCallID := fold (\<lambda>i. map_put i key) (turn_ids turn) (cs_byCallID s),
           cs_totalBytes := cs_totalBytes s + sz\<rparr>)"

definition SaveContext ::
  "gostring list \<Rightarrow> ctx \<Rightarrow> gotime \<Rightarrow> PendingTurn \<Rightarrow> ContinuationStore \<Rightarrow> (continuation_error, unit, ContinuationStore) go" where
  "SaveContext order ctx now turn s =
     (case ctx 0 of Some e \<Rightarrow> (Inl (ErrContext e), s) | None \<Rightarrow>
      if cs_closed s then (Inl ErrContinuationClosed, s)
      else case ctx 1 of Some e \<Rightarrow> (Inl (ErrContext e), s) | None \<Rightarrow>
      let s = cleanupLocked order now s in
      if \<not> pendingTurnFitsBounds turn (cc_MaxBytesPerRecord (cs_config s)) (cc_MaxAggregateBytes (cs_config s) - cs_totalBytes s)
      then (Inl ErrContinuationCapacity, s)
      else case normalizePendingTurn turn now (cc_TTL (cs_config s)) of
          Inl e \<Rightarrow> (Inl e, s)
        | Inr (turn, sz) \<Rightarrow>
            (case ctx 2 of Some e \<Rightarrow> (Inl (ErrContext e), s) | None \<Rightarrow>
             if sz > cc_MaxBytesPerRecord (cs_config s) then (Inl ErrContinuationCapacity, s)
             else if len (cs_records s) \<ge> cc_MaxRecords (cs_config s)
               \<or> sz > cc_MaxAggregateBytes (cs_config s) - cs_totalBytes s then (Inl ErrContinuationCapacity, s)
             else case ctx 3 of Some e \<Rightarrow> (Inl (ErrContext e), s) | None \<Rightarrow>
             if list_ex (\<lambda>i. map_of (cs_byCallID s) i \<noteq> None) (turn_ids turn) then (Inl ErrContinuationInvalid, s)
             else (Inr (), insert_record turn sz s)))"

definition Save :: "gostring list \<Rightarrow> gotime \<Rightarrow> PendingTurn \<Rightarrow> ContinuationStore \<Rightarrow> (continuation_error, unit, ContinuationStore) go" where
  "Save order = SaveContext order Background"

section \<open>Lookup and reservation\<close>

definition recordForCallLocked :: "gostring \<Rightarrow> gotime \<Rightarrow> ContinuationStore \<Rightarrow> (continuation_error, nat, ContinuationStore) go" where
  "recordForCallLocked callID now s =
     (case map_of (cs_byCallID s) callID of
        None \<Rightarrow>
          (case map_of (cs_expiredCallIDs s) callID of
             Some expiresAt \<Rightarrow>
               if now < expiresAt then (Inl ErrContinuationExpired, s)
               else (Inl ErrContinuationUnknown, s\<lparr>cs_expiredCallIDs := map_del callID (cs_expiredCallIDs s)\<rparr>)
           | None \<Rightarrow> (Inl ErrContinuationUnknown, s))
      | Some key \<Rightarrow>
          (case map_of (cs_records s) key of
             None \<Rightarrow> (Inl ErrContinuationUnknown, s)
           | Some a \<Rightarrow>
               let t = cr_turn (cs_heap s ! a) in
               if pt_Status t = PendingStatusPending \<and> \<not> now < pt_ExpiresAt t then
                 (Inl ErrContinuationExpired, set_turn a (\<lambda>t. t\<lparr>pt_Status := PendingStatusExpired\<rparr>) s)
               else if pt_Status t = PendingStatusConsuming \<and> \<not> now < pt_ExpiresAt t then
                 (Inl ErrContinuationExpired, set_turn a (\<lambda>t. t\<lparr>pt_Status := PendingStatusExpired\<rparr>) s)
               else if pt_Status t = PendingStatusConsumed \<and> \<not> now < pt_ExpiresAt t then
                 (Inl ErrContinuationUnknown, removeLocked a s)
               else if pt_Status t = PendingStatusExpired then (Inl ErrContinuationExpired, s)
               else if pt_Status t \<in> {PendingStatusConsumed, PendingStatusPending, PendingStatusConsuming} then (Inr a, s)
               else (Inl ErrContinuationInvalid, s)))"

definition Lookup :: "gostring list \<Rightarrow> gotime \<Rightarrow> gostring \<Rightarrow> ContinuationStore \<Rightarrow> (continuation_error, PendingTurn, ContinuationStore) go" where
  "Lookup order now callID s =
     (if cs_closed s then (Inl ErrContinuationClosed, s)
      else go_bind (recordForCallLocked callID now (cleanupLocked order now s))
        (\<lambda>a s. (Inr (clonePendingTurn (cr_turn (cs_heap s ! a))), s)))"

text \<open>The loop of \<open>Begin\<close> that finds the one record all results belong to.\<close>

fun begin_record ::
  "gotime \<Rightarrow> ToolResult list \<Rightarrow> gostring list \<Rightarrow> nat option \<Rightarrow> ContinuationStore
     \<Rightarrow> (continuation_error, nat option, ContinuationStore) go" where
  "begin_record now [] seen first s = (Inr first, s)"
| "begin_record now (result # results) seen first s =
     (if tr_CallID result = [] then (Inl ErrContinuationInvalid, s)
      else if tr_CallID result \<in> set seen then (Inl ErrContinuationDuplicate, s)
      else go_bind (recordForCallLocked (tr_CallID result) now s)
        (\<lambda>a s. case first of
             None \<Rightarrow> begin_record now results (tr_CallID result # seen) (Some a) s
           | Some b \<Rightarrow>
               if b \<noteq> a then (Inl ErrContinuationMixed, s)
               else begin_record now results (tr_CallID result # seen) first s))"

fun check_kinds :: "(gostring, ToolKind) gomap \<Rightarrow> ToolResult list \<Rightarrow> continuation_error option" where
  "check_kinds callKinds [] = None"
| "check_kinds callKinds (result # results) =
     (case map_of callKinds (tr_CallID result) of
        None \<Rightarrow> Some ErrContinuationUnknown
      | Some kind \<Rightarrow> if tr_Kind result \<noteq> kind then Some ErrContinuationKindMismatch else check_kinds callKinds results)"

definition reserve_record :: "gotime \<Rightarrow> ToolResult list \<Rightarrow> nat \<Rightarrow> ContinuationStore \<Rightarrow> (continuation_error, ContinuationLease, ContinuationStore) go" where
  "reserve_record now results a s =
     (let t = cr_turn (cs_heap s ! a) in
      if pt_Status t = PendingStatusConsuming then (Inl ErrContinuationBusy, s)
      else if pt_Status t = PendingStatusConsumed then (Inl ErrContinuationConsumed, s)
      else if pt_Status t \<noteq> PendingStatusPending then (Inl ErrContinuationExpired, s)
      else if length results \<noteq> length (pt_ToolCalls t) then (Inl ErrContinuationIncomplete, s)
      else case check_kinds (fold (\<lambda>c. map_put (uc_CallID c) (uc_Kind c)) (pt_ToolCalls t) []) results of
          Some e \<Rightarrow> (Inl e, s)
        | None \<Rightarrow>
            let s' = set_turn a (\<lambda>t. t\<lparr>pt_Status := PendingStatusConsuming,
                       pt_ExpiresAt := now + cc_ConsumingLeaseTTL (cs_config s)\<rparr>) s
            in (Inr \<lparr>cl_record = a, cl_turn = clonePendingTurn (cr_turn (cs_heap s' ! a)), cl_results = results,
                     cl_done = False\<rparr>, s'))"

definition Begin :: "gostring list \<Rightarrow> gotime \<Rightarrow> ToolResult list \<Rightarrow> ContinuationStore \<Rightarrow> (continuation_error, ContinuationLease, ContinuationStore) go" where
  "Begin order now results s =
     (if cs_closed s then (Inl ErrContinuationClosed, s)
      else
        let s = cleanupLocked order now s in
        if results = [] then (Inl ErrContinuationInvalid, s)
        else go_bind (begin_record now results [] None s)
          (\<lambda>first s. case first of None \<Rightarrow> (Inl NilDereference, s) | Some a \<Rightarrow> reserve_record now results a s))"

section \<open>Metrics\<close>

definition RecordCount :: "gostring list \<Rightarrow> gotime \<Rightarrow> ContinuationStore \<Rightarrow> int \<times> ContinuationStore" where
  "RecordCount order now s =
     (if cs_closed s then (0, s) else let s = cleanupLocked order now s in (len (cs_records s), s))"

definition store_Bytes :: "gostring list \<Rightarrow> gotime \<Rightarrow> ContinuationStore \<Rightarrow> int \<times> ContinuationStore" where
  "store_Bytes order now s =
     (if cs_closed s then (0, s) else let s = cleanupLocked order now s in (cs_totalBytes s, s))"

definition CapacityLimits :: "ContinuationStore \<Rightarrow> int \<times> int \<times> int" where
  "CapacityLimits s =
     (if cs_closed s then (0, 0, 0)
      else (cc_MaxRecords (cs_config s), cc_MaxBytesPerRecord (cs_config s), cc_MaxAggregateBytes (cs_config s)))"

section \<open>Leases\<close>

definition finish_record :: "bool \<Rightarrow> gotime \<Rightarrow> nat \<Rightarrow> ContinuationStore \<Rightarrow> ContinuationStore" where
  "finish_record commit now a s =
     (if commit then
        set_turn a (\<lambda>t. t\<lparr>pt_Status := PendingStatusConsumed,
          pt_ExpiresAt := now + cc_ConsumedGracePeriod (cs_config s)\<rparr>) s
      else if now < cr_originalExpiry (cs_heap s ! a) then
        set_turn a (\<lambda>t. t\<lparr>pt_Status := PendingStatusPending, pt_ExpiresAt := cr_originalExpiry (cs_heap s ! a)\<rparr>) s
      else expireLocked now a s)"

definition finishContext ::
  "ctx \<Rightarrow> gotime \<Rightarrow> bool \<Rightarrow> ContinuationLease \<Rightarrow> ContinuationStore
     \<Rightarrow> (continuation_error, unit, ContinuationLease \<times> ContinuationStore) go" where
  "finishContext ctx now commit lease s =
     (case ctx 0 of Some e \<Rightarrow> (Inl (ErrContext e), (lease, s)) | None \<Rightarrow>
      if cl_done lease then (Inl ErrContinuationFinalized, (lease, s))
      else if cs_closed s then (Inl ErrContinuationClosed, (lease\<lparr>cl_done := True\<rparr>, s))
      else case ctx 1 of Some e \<Rightarrow> (Inl (ErrContext e), (lease, s)) | None \<Rightarrow>
      let a = cl_record lease; t = cr_turn (cs_heap s ! a) in
      if pt_Status t = PendingStatusExpired then (Inl ErrContinuationExpired, (lease\<lparr>cl_done := True\<rparr>, s))
      else if pt_Status t \<noteq> PendingStatusConsuming then (Inl ErrContinuationInvalid, (lease\<lparr>cl_done := True\<rparr>, s))
      else if \<not> now < pt_ExpiresAt t then
        (Inl ErrContinuationExpired, (lease\<lparr>cl_done := True\<rparr>, expireLocked now a s))
      else
        let s' = finish_record commit now a s
        in (Inr (), (lease\<lparr>cl_turn := clonePendingTurn (cr_turn (cs_heap s' ! a)), cl_done := True\<rparr>, s')))"

definition CommitContext :: "ctx \<Rightarrow> gotime \<Rightarrow> ContinuationLease \<Rightarrow> ContinuationStore \<Rightarrow> (continuation_error, unit, ContinuationLease \<times> ContinuationStore) go" where
  "CommitContext ctx now = finishContext ctx now True"

definition lease_Abort :: "gotime \<Rightarrow> ContinuationLease \<Rightarrow> ContinuationStore \<Rightarrow> (continuation_error, unit, ContinuationLease \<times> ContinuationStore) go" where
  "lease_Abort now = finishContext Background now False"

end
