(* ===== verification/Continuation_Inv.thy ===== *)
theory Continuation_Inv
  imports Continuation
begin

text \<open>
  Proofs about the continuation store: the representation invariant and that every operation keeps it,
  what an operation may do to a record, the store with its leases as a state machine, and the properties
  of saving, reserving, committing and aborting.
\<close>

section \<open>The invariant\<close>

text \<open>
  What every reachable store satisfies. The tables agree with each other, the byte counter is the sum
  of the sizes of the retained records, the configured bounds hold, a closed store is empty, and a
  record under a lease is still in the store. The last point is what makes the removal by key in
  \<open>removeLocked\<close> safe when it is reached through the pointer of a lease.
\<close>

definition record_wf :: "ContinuationStoreConfig \<Rightarrow> continuationRecord \<Rightarrow> bool" where
  "record_wf c r \<longleftrightarrow>
     pt_ToolCalls (cr_turn r) \<noteq> [] \<and> distinct (turn_ids (cr_turn r)) \<and> cr_key r = hd (turn_ids (cr_turn r))
     \<and> 0 \<le> cr_bytes r \<and> cr_bytes r \<le> cc_MaxBytesPerRecord c
     \<and> pt_Status (cr_turn r) \<in> {PendingStatusPending, PendingStatusConsuming, PendingStatusConsumed, PendingStatusExpired}
     \<and> (pt_Status (cr_turn r) = PendingStatusPending \<longrightarrow> pt_ExpiresAt (cr_turn r) = cr_originalExpiry r)"

definition in_store :: "ContinuationStore \<Rightarrow> nat \<Rightarrow> bool" where
  "in_store s a \<longleftrightarrow> a < length (cs_heap s) \<and> map_of (cs_records s) (cr_key (cs_heap s ! a)) = Some a"

abbreviation retained_bytes :: "continuationRecord list \<Rightarrow> (gostring, nat) gomap \<Rightarrow> int" where
  "retained_bytes heap records \<equiv> sum_list (map (\<lambda>e. cr_bytes (heap ! snd e)) records)"

definition tables_agree :: "ContinuationStore \<Rightarrow> bool" where
  "tables_agree s \<longleftrightarrow>
     map_ok (cs_records s) \<and> map_ok (cs_byCallID s) \<and> map_ok (cs_expiredCallIDs s)
     \<and> (\<forall>k a. map_of (cs_records s) k = Some a \<longrightarrow> a < length (cs_heap s) \<and> cr_key (cs_heap s ! a) = k
          \<and> (\<forall>i \<in> set (turn_ids (cr_turn (cs_heap s ! a))). map_of (cs_byCallID s) i = Some k))
     \<and> (\<forall>i k. map_of (cs_byCallID s) i = Some k \<longrightarrow>
          (\<exists>a. map_of (cs_records s) k = Some a \<and> i \<in> set (turn_ids (cr_turn (cs_heap s ! a)))))"

definition store_inv :: "ContinuationStore \<Rightarrow> bool" where
  "store_inv s \<longleftrightarrow>
     config_positive (cs_config s) \<and> (\<forall>r \<in> set (cs_heap s). record_wf (cs_config s) r) \<and> tables_agree s
     \<and> cs_totalBytes s = retained_bytes (cs_heap s) (cs_records s)
     \<and> cs_totalBytes s \<le> cc_MaxAggregateBytes (cs_config s)
     \<and> len (cs_records s) \<le> cc_MaxRecords (cs_config s)
     \<and> len (cs_expiredCallIDs s) \<le> cs_maxExpiredIDs s
     \<and> (cs_closed s \<longrightarrow> cs_records s = [] \<and> cs_byCallID s = [] \<and> cs_expiredCallIDs s = [])
     \<and> (\<not> cs_closed s \<longrightarrow> (\<forall>a < length (cs_heap s). status_at s a = PendingStatusConsuming \<longrightarrow> in_store s a))"

declare map_of_eq_Some_iff [simp del]

lemma store_invD:
  assumes "store_inv s"
  shows "config_positive (cs_config s)" "tables_agree s" "cs_totalBytes s = retained_bytes (cs_heap s) (cs_records s)"
    "cs_totalBytes s \<le> cc_MaxAggregateBytes (cs_config s)" "len (cs_records s) \<le> cc_MaxRecords (cs_config s)"
    "len (cs_expiredCallIDs s) \<le> cs_maxExpiredIDs s"
    "cs_closed s \<Longrightarrow> cs_records s = [] \<and> cs_byCallID s = [] \<and> cs_expiredCallIDs s = []"
    "\<not> cs_closed s \<Longrightarrow> a < length (cs_heap s) \<Longrightarrow> status_at s a = PendingStatusConsuming \<Longrightarrow> in_store s a"
    "a < length (cs_heap s) \<Longrightarrow> record_wf (cs_config s) (cs_heap s ! a)"
  using assms by (auto simp: store_inv_def)

lemma tables_ok:
  assumes "tables_agree s"
  shows "map_ok (cs_records s)" "map_ok (cs_byCallID s)" "map_ok (cs_expiredCallIDs s)"
  using assms by (simp_all add: tables_agree_def)

lemma tables_record:
  assumes "tables_agree s" "map_of (cs_records s) k = Some a"
  shows "a < length (cs_heap s)" "cr_key (cs_heap s ! a) = k"
    "i \<in> set (turn_ids (cr_turn (cs_heap s ! a))) \<Longrightarrow> map_of (cs_byCallID s) i = Some k"
  using assms by (auto simp: tables_agree_def)

lemma tables_id:
  assumes "tables_agree s" "map_of (cs_byCallID s) i = Some k"
  obtains a where "map_of (cs_records s) k = Some a" "i \<in> set (turn_ids (cr_turn (cs_heap s ! a)))"
  using assms unfolding tables_agree_def by blast

lemma in_store_record: "tables_agree s \<Longrightarrow> map_of (cs_records s) k = Some a \<Longrightarrow> in_store s a"
  by (simp add: in_store_def tables_record)

lemma record_wfD:
  assumes "record_wf c r"
  shows "distinct (turn_ids (cr_turn r))" "cr_key r \<in> set (turn_ids (cr_turn r))" "0 \<le> cr_bytes r"
    "cr_bytes r \<le> cc_MaxBytesPerRecord c"
  using assms by (auto simp: record_wf_def hd_map)

lemma retained_nonneg:
  assumes inv: "store_inv s" and sub: "set m \<subseteq> set (cs_records s)"
  shows "0 \<le> retained_bytes (cs_heap s) m"
proof (intro sum_list_nonneg, clarsimp)
  fix k a assume "(k, a) \<in> set m"
  then have "map_of (cs_records s) k = Some a"
    using sub tables_ok(1) [OF store_invD(2) [OF inv]] by (auto simp: map_of_eq_Some_iff)
  then have "a < length (cs_heap s)" by (rule tables_record(1) [OF store_invD(2) [OF inv]])
  then show "0 \<le> cr_bytes (cs_heap s ! a)" using record_wfD(3) [OF store_invD(9) [OF inv]] by simp
qed

lemma set_map_del_subset: "set (map_del k m) \<subseteq> set m"
  by (auto simp: AList.delete_eq)

lemma NewContinuationStore_inv: "NewContinuationStore c = Inr s \<Longrightarrow> store_inv s"
  by (auto simp: NewContinuationStore_def normalizeContinuationStoreConfig_def Let_def store_inv_def tables_agree_def
      config_positive_def max_expired_ids_def bridge_limits split: sum.splits if_splits)

lemma removeLocked_inv:
  assumes inv: "store_inv s" and a: "in_store s a" and st: "status_at s a \<noteq> PendingStatusConsuming"
  shows "store_inv (removeLocked a s)"
proof -
  let ?r = "cs_heap s ! a"
  have al: "a < length (cs_heap s)" "map_of (cs_records s) (cr_key ?r) = Some a"
    using a by (simp_all add: in_store_def)
  have t: "tables_agree s" using inv by (rule store_invD(2))
  have sum: "retained_bytes (cs_heap s) (map_del (cr_key ?r) (cs_records s)) = cs_totalBytes s - cr_bytes ?r"
    using sum_map_del [OF tables_ok(1) [OF t] al(2), of "\<lambda>e. cr_bytes (cs_heap s ! snd e)"] store_invD(3) [OF inv]
    by simp
  have nn: "0 \<le> retained_bytes (cs_heap s) (map_del (cr_key ?r) (cs_records s))"
    by (rule retained_nonneg [OF inv set_map_del_subset])
  define s' where "s' = removeLocked a s"
  have s': "s' = s\<lparr>cs_records := map_del (cr_key ?r) (cs_records s),
      cs_byCallID := fold map_del (turn_ids (cr_turn ?r)) (cs_byCallID s),
      cs_totalBytes := retained_bytes (cs_heap s) (map_del (cr_key ?r) (cs_records s))\<rparr>"
    using al nn sum by (auto simp: s'_def removeLocked_def Let_def)
  have ids: "k = cr_key ?r" if "map_of (cs_records s) k = Some b" "i \<in> set (turn_ids (cr_turn (cs_heap s ! b)))"
      "i \<in> set (turn_ids (cr_turn ?r))" for i k b
    using tables_record(3) [OF t that(1,2)] tables_record(3) [OF t al(2) that(3)] by simp
  have t': "tables_agree s'"
    unfolding tables_agree_def
  proof (intro conjI allI impI)
    show "map_ok (cs_records s')" "map_ok (cs_byCallID s')" "map_ok (cs_expiredCallIDs s')"
      using tables_ok [OF t] by (simp_all add: s' distinct_delete map_ok_fold_del)
  next
    fix k b assume "map_of (cs_records s') k = Some b"
    then have k: "map_of (cs_records s) k = Some b" "k \<noteq> cr_key ?r" by (auto simp: s' split: if_splits)
    note b = tables_record [OF t k(1)]
    show "b < length (cs_heap s')" "cr_key (cs_heap s' ! b) = k" using b by (simp_all add: s')
    show "\<forall>i \<in> set (turn_ids (cr_turn (cs_heap s' ! b))). map_of (cs_byCallID s') i = Some k"
      using ids [OF k(1)] k(2) b(3) by (fastforce simp: s' map_of_fold_del)
  next
    fix i k assume "map_of (cs_byCallID s') i = Some k"
    then have i: "map_of (cs_byCallID s) i = Some k" "i \<notin> set (turn_ids (cr_turn ?r))"
      by (auto simp: s' map_of_fold_del split: if_splits)
    from t i(1) obtain b where b: "map_of (cs_records s) k = Some b" "i \<in> set (turn_ids (cr_turn (cs_heap s ! b)))"
      by (rule tables_id)
    with i(2) al have "k \<noteq> cr_key ?r" by auto
    with b show "\<exists>b. map_of (cs_records s') k = Some b \<and> i \<in> set (turn_ids (cr_turn (cs_heap s' ! b)))"
      by (auto simp: s')
  qed
  have c: "in_store s' b" if "b < length (cs_heap s')" "status_at s' b = PendingStatusConsuming" "\<not> cs_closed s'" for b
  proof -
    have "in_store s b" using store_invD(8) [OF inv] that by (simp add: s')
    moreover have "b \<noteq> a" using that st by (auto simp: s')
    ultimately show ?thesis using al by (auto simp: in_store_def s')
  qed
  have nc: "\<not> cs_closed s" using al(2) store_invD(7) [OF inv] by auto
  have l: "len (map_del (cr_key ?r) (cs_records s)) \<le> len (cs_records s)" by (simp add: length_map_del_le)
  have "store_inv s'"
    unfolding store_inv_def
  proof (intro conjI impI allI)
    show "cs_totalBytes s' \<le> cc_MaxAggregateBytes (cs_config s')"
      using sum store_invD(4) [OF inv] record_wfD(3) [OF store_invD(9) [OF inv al(1)]] by (simp add: s')
    show "len (cs_records s') \<le> cc_MaxRecords (cs_config s')" using l store_invD(5) [OF inv] by (simp add: s')
  qed (use inv t' c nc in \<open>auto simp: s' store_inv_def\<close>)
  then show ?thesis by (simp add: s'_def)
qed


text \<open>A change of status and expiry of one record.\<close>

lemma set_turn_heap [simp]:
  "length (cs_heap (set_turn a f s)) = length (cs_heap s)"
  "cs_config (set_turn a f s) = cs_config s" "cs_records (set_turn a f s) = cs_records s"
  "cs_byCallID (set_turn a f s) = cs_byCallID s" "cs_expiredCallIDs (set_turn a f s) = cs_expiredCallIDs s"
  "cs_maxExpiredIDs (set_turn a f s) = cs_maxExpiredIDs s" "cs_totalBytes (set_turn a f s) = cs_totalBytes s"
  "cs_closed (set_turn a f s) = cs_closed s"
  by (simp_all add: set_turn_def)

lemma set_turn_nth:
  "b < length (cs_heap s) \<Longrightarrow> cs_heap (set_turn a f s) ! b =
     (if b = a then (cs_heap s ! a)\<lparr>cr_turn := f (cr_turn (cs_heap s ! a))\<rparr> else cs_heap s ! b)"
  by (simp add: set_turn_def nth_list_update)

lemma set_turn_inv:
  assumes inv: "store_inv s" and a: "a < length (cs_heap s)"
    and calls: "pt_ToolCalls (f (cr_turn (cs_heap s ! a))) = pt_ToolCalls (cr_turn (cs_heap s ! a))"
    and wf: "record_wf (cs_config s) ((cs_heap s ! a)\<lparr>cr_turn := f (cr_turn (cs_heap s ! a))\<rparr>)"
    and cons: "pt_Status (f (cr_turn (cs_heap s ! a))) = PendingStatusConsuming \<Longrightarrow> in_store s a"
  shows "store_inv (set_turn a f s)"
proof -
  define s' where "s' = set_turn a f s"
  have same: "cr_key (cs_heap s' ! b) = cr_key (cs_heap s ! b)" "cr_bytes (cs_heap s' ! b) = cr_bytes (cs_heap s ! b)"
    "turn_ids (cr_turn (cs_heap s' ! b)) = turn_ids (cr_turn (cs_heap s ! b))" if "b < length (cs_heap s)" for b
    using that a calls by (simp_all add: s'_def set_turn_nth)
  have t: "tables_agree s" using inv by (rule store_invD(2))
  note r = tables_record [OF t]
  have "tables_agree s'"
    unfolding tables_agree_def
  proof (intro conjI allI impI)
    fix k b assume "map_of (cs_records s') k = Some b"
    then have k: "map_of (cs_records s) k = Some b" by (simp add: s'_def)
    show "b < length (cs_heap s')" "cr_key (cs_heap s' ! b) = k"
      "\<forall>i \<in> set (turn_ids (cr_turn (cs_heap s' ! b))). map_of (cs_byCallID s') i = Some k"
      using r [OF k] same [OF r(1) [OF k]] by (simp_all add: s'_def)
  next
    fix i k assume "map_of (cs_byCallID s') i = Some k"
    then have "map_of (cs_byCallID s) i = Some k" by (simp add: s'_def)
    with t obtain b where b: "map_of (cs_records s) k = Some b" "i \<in> set (turn_ids (cr_turn (cs_heap s ! b)))"
      by (rule tables_id)
    have "map_of (cs_records s') k = Some b \<and> i \<in> set (turn_ids (cr_turn (cs_heap s' ! b)))"
      using b same(3) [OF r(1) [OF b(1)]] by (simp only: s'_def set_turn_heap)
    then show "\<exists>b. map_of (cs_records s') k = Some b \<and> i \<in> set (turn_ids (cr_turn (cs_heap s' ! b)))" by blast
  qed (use tables_ok [OF t] in \<open>simp_all add: s'_def\<close>)
  moreover have "retained_bytes (cs_heap s') (cs_records s') = retained_bytes (cs_heap s) (cs_records s)"
    using same(2) r(1) tables_ok(1) [OF t]
    by (intro arg_cong [where f = sum_list] map_cong) (auto simp: s'_def map_of_eq_Some_iff)
  moreover have "\<forall>q \<in> set (cs_heap s'). record_wf (cs_config s') q"
    using inv wf by (auto simp: s'_def set_turn_def store_inv_def dest!: set_update_subset_insert [THEN subsetD])
  moreover have "in_store s' b" if "b < length (cs_heap s')" "status_at s' b = PendingStatusConsuming" "\<not> cs_closed s'" for b
    using that cons store_invD(8) [OF inv, of b] same(1) [of b] a
    by (cases "b = a") (auto simp: in_store_def s'_def set_turn_nth)
  ultimately have "store_inv s'"
    unfolding store_inv_def using store_invD(1,3,4,5,6) [OF inv] store_invD(7) [OF inv] by (simp add: s'_def)
  then show ?thesis by (simp add: s'_def)
qed

lemma expired_ids_inv:
  assumes "store_inv s" "map_ok m" "len m \<le> cs_maxExpiredIDs s" "cs_closed s \<Longrightarrow> m = []"
  shows "store_inv (s\<lparr>cs_expiredCallIDs := m\<rparr>)"
  using assms by (simp add: store_inv_def tables_agree_def in_store_def)

lemma set_status_inv:
  assumes inv: "store_inv s" and a: "a < length (cs_heap s)"
    and p: "st \<in> {PendingStatusConsumed, PendingStatusExpired} \<or> st = PendingStatusConsuming \<and> in_store s a
      \<or> st = PendingStatusPending \<and> e = cr_originalExpiry (cs_heap s ! a)"
  shows "store_inv (set_turn a (\<lambda>t. t\<lparr>pt_Status := st, pt_ExpiresAt := e\<rparr>) s)"
  using p store_invD(9) [OF inv a] by (intro set_turn_inv [OF inv a]) (auto simp: record_wf_def)

lemma set_expired_inv:
  assumes "store_inv s" "a < length (cs_heap s)"
  shows "store_inv (set_turn a (\<lambda>t. t\<lparr>pt_Status := PendingStatusExpired\<rparr>) s)"
  using store_invD(9) [OF assms] by (intro set_turn_inv [OF assms]) (auto simp: record_wf_def)

lemma add_tombstone_ok:
  assumes "map_ok m \<and> len m \<le> limit"
  shows "map_ok (add_tombstone e limit i m) \<and> len (add_tombstone e limit i m) \<le> limit"
  using assms al.size_put [of m i e] by (auto simp: add_tombstone_def distinct_update)

lemma add_tombstones_ok:
  "map_ok m \<and> len m \<le> limit \<Longrightarrow>
     map_ok (fold (add_tombstone e limit) is m) \<and> len (fold (add_tombstone e limit) is m) \<le> limit"
  by (induction "is" arbitrary: m) (simp_all add: add_tombstone_ok)

lemma expireLocked_inv:
  assumes inv: "store_inv s" and a: "in_store s a"
  shows "store_inv (expireLocked now a s)"
proof -
  define m where "m = fold (add_tombstone (now + cc_ConsumedGracePeriod (cs_config s)) (cs_maxExpiredIDs s))
      (turn_ids (cr_turn (cs_heap s ! a))) (cs_expiredCallIDs s)"
  define s1 where "s1 = s\<lparr>cs_expiredCallIDs := m\<rparr>"
  define s2 where "s2 = set_turn a (\<lambda>t. t\<lparr>pt_Status := PendingStatusExpired\<rparr>) s1"
  have m: "map_ok m" "len m \<le> cs_maxExpiredIDs s"
    using add_tombstones_ok tables_ok(3) [OF store_invD(2) [OF inv]] store_invD(6) [OF inv] by (auto simp: m_def)
  have "\<not> cs_closed s" using a store_invD(7) [OF inv] by (auto simp: in_store_def)
  with m have 1: "store_inv s1" unfolding s1_def by (intro expired_ids_inv [OF inv]) simp_all
  have al: "a < length (cs_heap s1)" using a by (simp add: in_store_def s1_def)
  have 2: "store_inv s2" unfolding s2_def by (rule set_expired_inv [OF 1 al])
  have "in_store s2 a" "status_at s2 a \<noteq> PendingStatusConsuming"
    using a al by (simp_all add: in_store_def s2_def set_turn_nth) (simp_all add: s1_def)
  with 2 have "store_inv (removeLocked a s2)" by (rule removeLocked_inv)
  then show ?thesis by (simp add: expireLocked_def Let_def s2_def s1_def m_def)
qed

lemma cleanup_record_inv: "store_inv s \<Longrightarrow> store_inv (cleanup_record now key s)"
  using in_store_record [OF store_invD(2), of s key]
  by (auto simp: cleanup_record_def Let_def intro: expireLocked_inv removeLocked_inv split: option.splits)

lemma cleanup_records_inv: "store_inv s \<Longrightarrow> store_inv (fold (cleanup_record now) ks s)"
  by (induction ks arbitrary: s) (simp_all add: cleanup_record_inv)

lemma cleanup_tombstones_inv:
  assumes "store_inv s"
  shows "store_inv (s\<lparr>cs_expiredCallIDs := filter (\<lambda>(_, expiresAt). now < expiresAt) (cs_expiredCallIDs s)\<rparr>)"
  using store_invD(6,7) [OF assms] tables_ok(3) [OF store_invD(2) [OF assms]]
  by (intro expired_ids_inv [OF assms]) (auto simp: distinct_map_filter intro: order_trans [OF of_nat_mono [OF length_filter_le]])

lemma cleanupLocked_inv: "store_inv s \<Longrightarrow> store_inv (cleanupLocked order now s)"
  by (simp add: cleanupLocked_def Let_def cleanup_records_inv cleanup_tombstones_inv)

text \<open>A saved record: its key is new because its call identifiers are.\<close>

lemma fresh_key:
  assumes inv: "store_inv s" and fresh: "map_of (cs_byCallID s) k = None"
  shows "map_of (cs_records s) k = None"
proof (rule ccontr)
  assume "map_of (cs_records s) k \<noteq> None"
  then obtain a where a: "map_of (cs_records s) k = Some a" by blast
  note t = store_invD(2) [OF inv]
  have "k \<in> set (turn_ids (cr_turn (cs_heap s ! a)))"
    using record_wfD(2) [OF store_invD(9) [OF inv tables_record(1) [OF t a]]] tables_record(2) [OF t a] by simp
  from tables_record(3) [OF t a this] fresh show False by simp
qed

lemma insert_record_sel:
  "cs_heap (insert_record t sz s) =
     cs_heap s @ [\<lparr>cr_key = hd (turn_ids t), cr_turn = t, cr_bytes = sz, cr_originalExpiry = pt_ExpiresAt t\<rparr>]"
  "map_of (cs_records (insert_record t sz s)) = (map_of (cs_records s))(hd (turn_ids t) \<mapsto> length (cs_heap s))"
  "map_of (cs_byCallID (insert_record t sz s)) =
     (\<lambda>i. if i \<in> set (turn_ids t) then Some (hd (turn_ids t)) else map_of (cs_byCallID s) i)"
  "cs_config (insert_record t sz s) = cs_config s" "cs_closed (insert_record t sz s) = cs_closed s"
  "cs_totalBytes (insert_record t sz s) = cs_totalBytes s + sz"
  "cs_maxExpiredIDs (insert_record t sz s) = cs_maxExpiredIDs s"
  "cs_expiredCallIDs (insert_record t sz s) = fold map_del (turn_ids t) (cs_expiredCallIDs s)"
  by (simp_all add: insert_record_def Let_def map_of_fold_put)

lemma insert_record_records:
  "map_of (cs_records s) (hd (turn_ids t)) = None \<Longrightarrow>
     cs_records (insert_record t sz s) = cs_records s @ [(hd (turn_ids t), length (cs_heap s))]"
  by (simp add: insert_record_def Let_def map_put_fresh)

lemma insert_record_old:
  "b < length (cs_heap s) \<Longrightarrow> cs_heap (insert_record t sz s) ! b = cs_heap s ! b"
  by (simp add: insert_record_sel nth_append)

lemma insert_record_tables:
  assumes t: "tables_agree s" and key: "map_of (cs_records s) (hd (turn_ids turn)) = None"
    and fresh: "\<forall>i \<in> set (turn_ids turn). map_of (cs_byCallID s) i = None"
  shows "tables_agree (insert_record turn sz s)"
  unfolding tables_agree_def
proof (intro conjI allI impI)
  let ?s = "insert_record turn sz s" and ?key = "hd (turn_ids turn)"
  show "map_ok (cs_records ?s)" "map_ok (cs_byCallID ?s)" "map_ok (cs_expiredCallIDs ?s)"
    using tables_ok [OF t] by (simp_all add: insert_record_def Let_def map_ok_fold_put map_ok_fold_del distinct_update)
next
  let ?s = "insert_record turn sz s" and ?key = "hd (turn_ids turn)"
  fix k b assume kb: "map_of (cs_records ?s) k = Some b"
  consider (new) "k = ?key" "b = length (cs_heap s)" | (old) "k \<noteq> ?key" "map_of (cs_records s) k = Some b"
    using kb by (auto simp: insert_record_sel split: if_splits)
  then have "b < length (cs_heap ?s) \<and> cr_key (cs_heap ?s ! b) = k
    \<and> (\<forall>i \<in> set (turn_ids (cr_turn (cs_heap ?s ! b))). map_of (cs_byCallID ?s) i = Some k)"
  proof cases
    case old
    note b = tables_record [OF t old(2)]
    have "i \<notin> set (turn_ids turn)" if "i \<in> set (turn_ids (cr_turn (cs_heap s ! b)))" for i
      using b(3) [OF that] fresh by auto
    then show ?thesis using b by (auto simp: insert_record_sel nth_append simp del: set_map)
  qed (simp add: insert_record_sel)
  then show "b < length (cs_heap ?s)" "cr_key (cs_heap ?s ! b) = k"
    "\<forall>i \<in> set (turn_ids (cr_turn (cs_heap ?s ! b))). map_of (cs_byCallID ?s) i = Some k" by blast+
next
  let ?s = "insert_record turn sz s" and ?key = "hd (turn_ids turn)"
  fix i k assume ik: "map_of (cs_byCallID ?s) i = Some k"
  show "\<exists>b. map_of (cs_records ?s) k = Some b \<and> i \<in> set (turn_ids (cr_turn (cs_heap ?s ! b)))"
  proof (cases "i \<in> set (turn_ids turn)")
    case True
    with ik have "k = ?key" by (simp add: insert_record_sel)
    then show ?thesis using True by (simp add: insert_record_sel)
  next
    case False
    with ik have "map_of (cs_byCallID s) i = Some k" by (simp add: insert_record_sel)
    with t obtain b where b: "map_of (cs_records s) k = Some b" "i \<in> set (turn_ids (cr_turn (cs_heap s ! b)))"
      by (rule tables_id)
    with key have "k \<noteq> ?key" by auto
    with b show ?thesis using insert_record_old [OF tables_record(1) [OF t b(1)]] by (simp add: insert_record_sel(2))
  qed
qed

lemma insert_record_inv:
  assumes inv: "store_inv s" and nc: "\<not> cs_closed s"
    and wf: "pt_ToolCalls t \<noteq> []" "distinct (turn_ids t)" "pt_Status t = PendingStatusPending"
    and fresh: "\<forall>i \<in> set (turn_ids t). map_of (cs_byCallID s) i = None"
    and sz: "0 \<le> sz" "sz \<le> cc_MaxBytesPerRecord (cs_config s)" "sz \<le> cc_MaxAggregateBytes (cs_config s) - cs_totalBytes s"
    and room: "len (cs_records s) < cc_MaxRecords (cs_config s)"
  shows "store_inv (insert_record t sz s)"
proof -
  let ?s = "insert_record t sz s"
  note t = store_invD(2) [OF inv] and old = insert_record_old
  have key: "map_of (cs_records s) (hd (turn_ids t)) = None"
    using wf(1) fresh by (intro fresh_key [OF inv]) (auto simp: hd_map)
  note recs = insert_record_records [OF key]
  have "retained_bytes (cs_heap ?s) (cs_records s) = retained_bytes (cs_heap s) (cs_records s)"
    using old tables_record(1) [OF t] tables_ok(1) [OF t]
    by (intro arg_cong [where f = sum_list] map_cong) (auto simp: map_of_eq_Some_iff)
  moreover have "retained_bytes (cs_heap ?s) (cs_records ?s) = retained_bytes (cs_heap ?s) (cs_records s) + sz"
    by (simp add: recs) (simp add: insert_record_sel)
  ultimately have "retained_bytes (cs_heap ?s) (cs_records ?s) = cs_totalBytes ?s"
    using store_invD(3) [OF inv] by (simp only: insert_record_sel)
  moreover have "in_store ?s b" if "b < length (cs_heap ?s)" "status_at ?s b = PendingStatusConsuming" for b
  proof -
    have b: "b < length (cs_heap s)" using that wf(3) by (cases "b = length (cs_heap s)") (auto simp: insert_record_sel)
    then have "in_store s b" using that nc store_invD(8) [OF inv] old by simp
    then show ?thesis using key old [OF b] by (auto simp: in_store_def insert_record_sel(1,2))
  qed
  moreover have "len (cs_expiredCallIDs ?s) \<le> cs_maxExpiredIDs ?s"
    using store_invD(6) [OF inv] length_fold_del_le [of "turn_ids t" "cs_expiredCallIDs s"]
    by (simp add: insert_record_sel)
  moreover have "\<forall>r \<in> set (cs_heap ?s). record_wf (cs_config ?s) r"
    using inv wf sz by (auto simp: insert_record_sel store_inv_def record_wf_def)
  moreover have "len (cs_records ?s) \<le> cc_MaxRecords (cs_config ?s)" using room by (simp add: recs) (simp add: insert_record_sel)
  ultimately show ?thesis
    unfolding store_inv_def using store_invD(1) [OF inv] insert_record_tables [OF t key fresh] nc sz
    by (auto simp: insert_record_sel(4-7))
qed

section \<open>Records only decay\<close>

text \<open>
  Apart from reserving and finishing, an operation changes a record in one way: it expires one that has
  not been consumed. New records are added at the end of the heap.
\<close>

definition decayed :: "continuationRecord \<Rightarrow> continuationRecord \<Rightarrow> bool" where
  "decayed r r' \<longleftrightarrow> r' = r \<or>
     pt_Status (cr_turn r) \<noteq> PendingStatusConsumed \<and> r' = r\<lparr>cr_turn := (cr_turn r)\<lparr>pt_Status := PendingStatusExpired\<rparr>\<rparr>"

definition decays :: "ContinuationStore \<Rightarrow> ContinuationStore \<Rightarrow> bool" where
  "decays s t \<longleftrightarrow> cs_config t = cs_config s \<and> length (cs_heap s) \<le> length (cs_heap t)
     \<and> (\<forall>a < length (cs_heap s). decayed (cs_heap s ! a) (cs_heap t ! a))"

lemma decayed_trans: "decayed r r' \<Longrightarrow> decayed r' r'' \<Longrightarrow> decayed r r''"
  by (auto simp: decayed_def)

lemma decays_refl [simp]: "decays s s"
  by (simp add: decays_def decayed_def)

lemma decays_trans: "decays s t \<Longrightarrow> decays t u \<Longrightarrow> decays s u"
  by (auto simp: decays_def intro: decayed_trans)

lemma decays_heap: "cs_config t = cs_config s \<Longrightarrow> cs_heap t = cs_heap s \<Longrightarrow> decays s t"
  by (simp add: decays_def decayed_def)

lemma removeLocked_sel [simp]:
  "cs_heap (removeLocked a s) = cs_heap s" "cs_config (removeLocked a s) = cs_config s"
  "cs_closed (removeLocked a s) = cs_closed s" "cs_maxExpiredIDs (removeLocked a s) = cs_maxExpiredIDs s"
  "cs_expiredCallIDs (removeLocked a s) = cs_expiredCallIDs s"
  by (simp_all add: removeLocked_def Let_def)

lemma expireLocked_sel [simp]:
  "cs_heap (expireLocked now a s) = cs_heap (set_turn a (\<lambda>t. t\<lparr>pt_Status := PendingStatusExpired\<rparr>) s)"
  "cs_config (expireLocked now a s) = cs_config s" "cs_closed (expireLocked now a s) = cs_closed s"
  "cs_maxExpiredIDs (expireLocked now a s) = cs_maxExpiredIDs s"
  by (simp_all add: expireLocked_def Let_def set_turn_def)

lemma set_expired_decays:
  "status_at s a \<noteq> PendingStatusConsumed \<Longrightarrow> decays s (set_turn a (\<lambda>t. t\<lparr>pt_Status := PendingStatusExpired\<rparr>) s)"
  by (auto simp: decays_def set_turn_nth decayed_def)

lemma expireLocked_decays: "status_at s a \<noteq> PendingStatusConsumed \<Longrightarrow> decays s (expireLocked now a s)"
  using set_expired_decays [of s a] by (simp add: decays_def)

lemma cleanup_record_decays: "decays s (cleanup_record now key s)"
  by (auto simp: cleanup_record_def Let_def intro: expireLocked_decays decays_heap split: option.splits)

lemma cleanup_record_sel [simp]:
  "cs_config (cleanup_record now k s) = cs_config s" "cs_closed (cleanup_record now k s) = cs_closed s"
  "length (cs_heap (cleanup_record now k s)) = length (cs_heap s)"
  by (auto simp: cleanup_record_def Let_def split: option.splits)

lemma cleanup_records_sel [simp]:
  "cs_config (fold (cleanup_record now) ks s) = cs_config s" "cs_closed (fold (cleanup_record now) ks s) = cs_closed s"
  "length (cs_heap (fold (cleanup_record now) ks s)) = length (cs_heap s)"
  by (induction ks arbitrary: s) simp_all

lemma cleanupLocked_sel [simp]:
  "cs_config (cleanupLocked order now s) = cs_config s" "cs_closed (cleanupLocked order now s) = cs_closed s"
  "length (cs_heap (cleanupLocked order now s)) = length (cs_heap s)"
  by (simp_all add: cleanupLocked_def Let_def)

lemma cleanupLocked_decays: "decays s (cleanupLocked order now s)"
proof -
  have "decays s (fold (cleanup_record now) ks s)" for ks s
    by (induction ks arbitrary: s) (auto intro: decays_trans cleanup_record_decays)
  moreover have "decays s (s\<lparr>cs_expiredCallIDs := m\<rparr>)" for m by (rule decays_heap) simp_all
  ultimately show ?thesis unfolding cleanupLocked_def Let_def by (blast intro: decays_trans)
qed

section \<open>Every operation keeps the invariant\<close>

lemma normalize_calls_ok:
  "normalize_calls cs ids pids = Inr cs' \<Longrightarrow>
     map uc_CallID cs' = map uc_CallID cs \<and> distinct (map uc_CallID cs') \<and> set (map uc_CallID cs') \<inter> set ids = {}"
proof (induction cs ids pids arbitrary: cs' rule: normalize_calls.induct)
  case (2 call calls ids pids)
  define call' where "call' = (if uc_ProviderCallID call = [] then call\<lparr>uc_ProviderCallID := uc_CallID call\<rparr> else call)"
  have i: "uc_CallID call' = uc_CallID call" by (simp add: call'_def)
  from "2.prems" obtain cs where cs: "normalize_calls calls (uc_CallID call' # ids) (uc_ProviderCallID call' # pids) = Inr cs"
    "cs' = call' # cs" "uc_CallID call' \<notin> set ids"
    by (auto simp: Let_def call'_def split: if_splits sum.splits)
  have "map uc_CallID cs = map uc_CallID calls \<and> distinct (map uc_CallID cs) \<and> set (map uc_CallID cs) \<inter> set (uc_CallID call' # ids) = {}"
    using "2.prems" cs(1) by (intro "2.IH" [OF _ call'_def]) (auto simp: Let_def call'_def split: if_splits)
  then show ?case using cs i by (auto simp del: set_map)
qed simp

lemma normalizePendingTurn_ok:
  assumes "normalizePendingTurn turn now ttl = Inr (t, sz)"
  shows "pt_ToolCalls t \<noteq> []" "distinct (turn_ids t)" "pt_Status t = PendingStatusPending" "0 \<le> sz"
    "turn_ids t = turn_ids turn" "pt_ExpiresAt t = now + ttl" "pt_SizeBytes t = sz"
  using assms normalize_calls_ok [of "pt_ToolCalls turn" "[]" "[]"]
  by (auto simp: normalizePendingTurn_def Let_def split: if_splits sum.splits option.splits)

lemma SaveContext_inv:
  assumes inv: "store_inv s"
  shows "store_inv (snd (SaveContext order ctx now turn s))"
proof -
  define s1 where "s1 = cleanupLocked order now s"
  have 1: "store_inv s1" unfolding s1_def by (rule cleanupLocked_inv [OF inv])
  have "store_inv (insert_record t sz s1)"
    if "\<not> cs_closed s" "normalizePendingTurn turn now ttl = Inr (t, sz)" "\<not> sz > cc_MaxBytesPerRecord (cs_config s1)"
      "\<not> (len (cs_records s1) \<ge> cc_MaxRecords (cs_config s1) \<or> sz > cc_MaxAggregateBytes (cs_config s1) - cs_totalBytes s1)"
      "\<not> list_ex (\<lambda>i. map_of (cs_byCallID s1) i \<noteq> None) (turn_ids t)" for t sz ttl
    using that normalizePendingTurn_ok [OF that(2)] by (intro insert_record_inv [OF 1]) (auto simp: s1_def list_ex_iff)
  then show ?thesis using inv 1
    by (auto simp: SaveContext_def Let_def s1_def [symmetric] split: option.splits sum.splits)
qed

lemma recordForCallLocked_inv:
  assumes inv: "store_inv s"
  shows "store_inv (snd (recordForCallLocked callID now s))"
proof -
  have e: "store_inv (s\<lparr>cs_expiredCallIDs := map_del callID (cs_expiredCallIDs s)\<rparr>)"
    using store_invD(6,7) [OF inv] tables_ok(3) [OF store_invD(2) [OF inv]] length_map_del_le [of callID "cs_expiredCallIDs s"]
    by (intro expired_ids_inv [OF inv]) (auto simp: distinct_delete)
  then show ?thesis
    using inv in_store_record [OF store_invD(2) [OF inv]] tables_record(1) [OF store_invD(2) [OF inv]]
    by (auto simp: recordForCallLocked_def Let_def intro: set_expired_inv removeLocked_inv split: option.splits)
qed

lemma recordForCallLocked_decays: "decays s (snd (recordForCallLocked callID now s))"
  by (auto simp: recordForCallLocked_def Let_def intro: set_expired_decays decays_heap split: option.splits)

lemma recordForCallLocked_ok:
  assumes inv: "store_inv s" and ok: "recordForCallLocked callID now s = (Inr a, t)"
  shows "t = s" "in_store s a" "callID \<in> set (turn_ids (cr_turn (cs_heap s ! a)))"
    "status_at s a \<noteq> PendingStatusExpired" "now < pt_ExpiresAt (cr_turn (cs_heap s ! a))"
proof -
  note ta = store_invD(2) [OF inv]
  from ok obtain k where k: "map_of (cs_byCallID s) callID = Some k" "map_of (cs_records s) k = Some a" "t = s"
    "status_at s a \<noteq> PendingStatusExpired" "now < pt_ExpiresAt (cr_turn (cs_heap s ! a))"
    by (auto simp: recordForCallLocked_def Let_def split: option.splits if_splits)
  from k show "t = s" "status_at s a \<noteq> PendingStatusExpired" "now < pt_ExpiresAt (cr_turn (cs_heap s ! a))" by auto
  show "in_store s a" using in_store_record [OF ta k(2)] .
  show "callID \<in> set (turn_ids (cr_turn (cs_heap s ! a)))" using tables_id [OF ta k(1)] k(2) by auto
qed

lemma Lookup_inv: "store_inv s \<Longrightarrow> store_inv (snd (Lookup order now callID s))"
  by (auto simp: Lookup_def intro!: keeps_bind [where P = store_inv] recordForCallLocked_inv cleanupLocked_inv)

lemma begin_record_keeps:
  "store_inv s \<Longrightarrow> store_inv (snd (begin_record now rs seen first s)) \<and> decays s (snd (begin_record now rs seen first s))"
proof (induction rs arbitrary: seen first s)
  case (Cons r rs)
  show ?case
  proof (cases "recordForCallLocked (tr_CallID r) now s")
    case (Pair x t)
    have "store_inv t" "decays s t"
      using recordForCallLocked_inv [OF Cons.prems, of "tr_CallID r" now] recordForCallLocked_decays [of s "tr_CallID r" now] Pair by simp_all
    then show ?thesis using Cons.IH [of t] Cons.prems Pair decays_trans
      by (cases x) (auto split: option.splits)
  qed
qed simp

lemma begin_record_ok:
  assumes "store_inv s" "begin_record now rs seen first s = (Inr f, t)"
  shows "t = s \<and> distinct (map tr_CallID rs) \<and> set (map tr_CallID rs) \<inter> set seen = {} \<and> [] \<notin> set (map tr_CallID rs)
    \<and> (rs \<noteq> [] \<longrightarrow> f \<noteq> None) \<and> (\<forall>b. first = Some b \<longrightarrow> f = Some b)
    \<and> (\<forall>a. f = Some a \<longrightarrow> (\<forall>r \<in> set rs. in_store s a \<and> tr_CallID r \<in> set (turn_ids (cr_turn (cs_heap s ! a)))
        \<and> status_at s a \<noteq> PendingStatusExpired \<and> now < pt_ExpiresAt (cr_turn (cs_heap s ! a))))"
  using assms
proof (induction rs arbitrary: seen first)
  case (Cons r rs)
  from Cons.prems obtain a u where a: "recordForCallLocked (tr_CallID r) now s = (Inr a, u)"
    and r: "tr_CallID r \<noteq> []" "tr_CallID r \<notin> set seen"
    by (cases "recordForCallLocked (tr_CallID r) now s"; cases "fst (recordForCallLocked (tr_CallID r) now s)")
      (auto split: if_splits)
  note ra = recordForCallLocked_ok [OF Cons.prems(1) a]
  have f: "first = None \<or> first = Some a" "begin_record now rs (tr_CallID r # seen) (Some a) s = (Inr f, t)"
    using Cons.prems(2) a r ra(1) by (auto split: if_splits option.splits)
  from Cons.IH [OF Cons.prems(1) f(2)] show ?case using r ra f(1) by auto
qed simp

lemma check_kinds_None: "check_kinds m rs = None \<longleftrightarrow> (\<forall>r \<in> set rs. map_of m (tr_CallID r) = Some (tr_Kind r))"
  by (induction rs) (auto split: option.splits)

lemma call_kinds:
  "distinct (map uc_CallID cs) \<Longrightarrow> c \<in> set cs \<Longrightarrow>
     map_of (fold (\<lambda>c. map_put (uc_CallID c) (uc_Kind c)) cs m) (uc_CallID c) = Some (uc_Kind c)"
proof (induction cs arbitrary: m)
  case (Cons d cs)
  have skip: "i \<notin> set (map uc_CallID cs) \<Longrightarrow>
      map_of (fold (\<lambda>c. map_put (uc_CallID c) (uc_Kind c)) cs m) i = map_of m i" for i cs and m :: "(gostring, ToolKind) gomap"
    by (induction cs arbitrary: m) auto
  show ?case using Cons skip [of "uc_CallID d" cs] by auto
qed simp

lemma call_kinds_dom:
  "map_of (fold (\<lambda>c. map_put (uc_CallID c) (uc_Kind c)) cs []) i = Some k \<Longrightarrow> i \<in> set (map uc_CallID cs)"
proof -
  have "i \<notin> set (map uc_CallID cs) \<Longrightarrow>
      map_of (fold (\<lambda>c. map_put (uc_CallID c) (uc_Kind c)) cs m) i = map_of m i" for m :: "(gostring, ToolKind) gomap"
    by (induction cs arbitrary: m) auto
  then show "map_of (fold (\<lambda>c. map_put (uc_CallID c) (uc_Kind c)) cs []) i = Some k \<Longrightarrow> i \<in> set (map uc_CallID cs)"
    by fastforce
qed

text \<open>What a granted lease says about the store it was granted on.\<close>

lemma Begin_ok:
  assumes inv: "store_inv s" and ok: "Begin order now results s = (Inr l, t)"
  defines "u \<equiv> cleanupLocked order now s" and "a \<equiv> cl_record l"
  shows "\<not> cs_closed s" "in_store u a" "status_at u a = PendingStatusPending" "now < pt_ExpiresAt (cr_turn (cs_heap u ! a))"
    "t = set_turn a (\<lambda>t. t\<lparr>pt_Status := PendingStatusConsuming, pt_ExpiresAt := now + cc_ConsumingLeaseTTL (cs_config s)\<rparr>) u"
    "\<not> cl_done l" "cl_results l = results" "cl_turn l = cr_turn (cs_heap t ! a)"
    "mset (map (\<lambda>r. (tr_CallID r, tr_Kind r)) results) = mset (map (\<lambda>c. (uc_CallID c, uc_Kind c)) (pt_ToolCalls (cr_turn (cs_heap u ! a))))"
proof -
  have uinv: "store_inv u" unfolding u_def by (rule cleanupLocked_inv [OF inv])
  from ok obtain f v where nc: "\<not> cs_closed s" and ne: "results \<noteq> []" and f: "begin_record now results [] None u = (Inr f, v)"
    and r: "(case f of None \<Rightarrow> (Inl NilDereference, v) | Some a \<Rightarrow> reserve_record now results a v) = (Inr l, t)"
    by (auto simp: Begin_def Let_def u_def go_bind_Inr_iff split: if_splits)
  note b = begin_record_ok [OF uinv f]
  from b ne obtain c where c: "f = Some c" "v = u" by blast
  let ?t = "cr_turn (cs_heap u ! c)"
  from b ne c have ist: "in_store u c" and nx: "now < pt_ExpiresAt ?t" by (metis (no_types, lifting) list.set_sel(1))+
  from r c have st: "pt_Status ?t = PendingStatusPending" and ln: "length results = length (pt_ToolCalls ?t)"
    and ck: "check_kinds (fold (\<lambda>c. map_put (uc_CallID c) (uc_Kind c)) (pt_ToolCalls ?t) []) results = None"
    and tt: "t = set_turn c (\<lambda>t. t\<lparr>pt_Status := PendingStatusConsuming, pt_ExpiresAt := now + cc_ConsumingLeaseTTL (cs_config u)\<rparr>) u"
    and l: "l = \<lparr>cl_record = c, cl_turn = cr_turn (cs_heap t ! c), cl_results = results, cl_done = False\<rparr>"
    by (auto simp: reserve_record_def Let_def clonePendingTurn_def split: if_splits option.splits)
  have ac: "a = c" by (simp add: a_def l)
  show "\<not> cs_closed s" "in_store u a" "status_at u a = PendingStatusPending" "now < pt_ExpiresAt (cr_turn (cs_heap u ! a))"
    "t = set_turn a (\<lambda>t. t\<lparr>pt_Status := PendingStatusConsuming, pt_ExpiresAt := now + cc_ConsumingLeaseTTL (cs_config s)\<rparr>) u"
    "\<not> cl_done l" "cl_results l = results" "cl_turn l = cr_turn (cs_heap t ! a)"
    using nc ist st nx tt ac l by (simp_all add: u_def)
  have d: "distinct (turn_ids ?t)"
    using record_wfD(1) [OF store_invD(9) [OF uinv]] ist by (simp add: in_store_def)
  have sub: "set (map (\<lambda>r. (tr_CallID r, tr_Kind r)) results) \<subseteq> set (map (\<lambda>c. (uc_CallID c, uc_Kind c)) (pt_ToolCalls ?t))"
  proof (clarsimp)
    fix r assume "r \<in> set results"
    then have k: "map_of (fold (\<lambda>c. map_put (uc_CallID c) (uc_Kind c)) (pt_ToolCalls ?t) []) (tr_CallID r) = Some (tr_Kind r)"
      using ck by (simp add: check_kinds_None)
    from call_kinds_dom [OF k] obtain q where q: "q \<in> set (pt_ToolCalls ?t)" "tr_CallID r = uc_CallID q" by auto
    with k call_kinds [OF d q(1), of "[]"] show "(tr_CallID r, tr_Kind r) \<in> (\<lambda>c. (uc_CallID c, uc_Kind c)) ` set (pt_ToolCalls ?t)"
      by force
  qed
  have "distinct (map tr_CallID results)" using b by blast
  then have d1: "distinct (map (\<lambda>r. (tr_CallID r, tr_Kind r)) results)"
    by (auto simp: distinct_map inj_on_def)
  have d2: "distinct (map (\<lambda>c. (uc_CallID c, uc_Kind c)) (pt_ToolCalls ?t))"
    using d by (auto simp: distinct_map inj_on_def)
  have "set (map (\<lambda>r. (tr_CallID r, tr_Kind r)) results) = set (map (\<lambda>c. (uc_CallID c, uc_Kind c)) (pt_ToolCalls ?t))"
    using sub d1 d2 ln by (intro card_subset_eq) (simp_all add: distinct_card del: set_map)
  then show "mset (map (\<lambda>r. (tr_CallID r, tr_Kind r)) results) = mset (map (\<lambda>c. (uc_CallID c, uc_Kind c)) (pt_ToolCalls (cr_turn (cs_heap u ! a))))"
    using d1 d2 ac by (simp only: set_eq_iff_mset_eq_distinct)
qed

lemma Begin_inv:
  assumes inv: "store_inv s"
  shows "store_inv (snd (Begin order now results s))"
proof (cases "Begin order now results s")
  case (Pair r t)
  define u where "u = cleanupLocked order now s"
  have uinv: "store_inv u" unfolding u_def by (rule cleanupLocked_inv [OF inv])
  show ?thesis
  proof (cases r)
    case (Inr l)
    with Pair have ok: "Begin order now results s = (Inr l, t)" by simp
    note b = Begin_ok [OF inv ok]
    have "in_store u (cl_record l)" using b(2) by (simp add: u_def)
    then have "store_inv t" using b(5) set_status_inv [OF uinv, of "cl_record l" PendingStatusConsuming]
      by (auto simp: u_def in_store_def)
    then show ?thesis by (simp add: Pair)
  next
    case (Inl e)
    have "store_inv (snd (begin_record now results [] None u))" using begin_record_keeps [OF uinv] by blast
    then show ?thesis using Inl Pair inv uinv
      by (cases "begin_record now results [] None u"; cases "fst (begin_record now results [] None u)")
        (auto simp: Begin_def Let_def u_def reserve_record_def split: if_splits option.splits)
  qed
qed

lemma Begin_err_decays:
  assumes inv: "store_inv s" and err: "Begin order now results s = (Inl e, t)"
  shows "decays s t"
proof -
  define u where "u = cleanupLocked order now s"
  have "decays s u" "store_inv u" unfolding u_def by (rule cleanupLocked_decays, rule cleanupLocked_inv [OF inv])
  moreover from this have "decays u (snd (begin_record now results [] None u))" using begin_record_keeps by blast
  ultimately have "decays s u" "decays s (snd (begin_record now results [] None u))" by (auto intro: decays_trans)
  with err show ?thesis
    by (cases "begin_record now results [] None u"; cases "fst (begin_record now results [] None u)")
      (auto simp: Begin_def Let_def u_def reserve_record_def split: if_splits option.splits)
qed

text \<open>Finishing: what happens to the record, and that no other record is touched.\<close>

lemma finish_record_inv:
  assumes inv: "store_inv s" and a: "in_store s a"
  shows "store_inv (finish_record commit now a s)"
  using a set_status_inv [OF inv, of a PendingStatusConsumed] set_status_inv [OF inv, of a PendingStatusPending]
  by (auto simp: finish_record_def in_store_def intro: expireLocked_inv [OF inv])

lemma finishContext_inv:
  assumes inv: "store_inv s" and l: "cl_record lease < length (cs_heap s)"
  shows "store_inv (snd (snd (finishContext ctx now commit lease s)))"
  using inv store_invD(8) [OF inv _ l]
  by (auto simp: finishContext_def Let_def intro: expireLocked_inv finish_record_inv split: option.splits)

lemma finish_record_sel [simp]:
  "length (cs_heap (finish_record commit now a s)) = length (cs_heap s)"
  "cs_config (finish_record commit now a s) = cs_config s"
  by (simp_all add: finish_record_def)

lemma finish_record_other:
  "b < length (cs_heap s) \<Longrightarrow> b \<noteq> a \<Longrightarrow> cs_heap (finish_record commit now a s) ! b = cs_heap s ! b"
  by (simp add: finish_record_def set_turn_nth)

lemma finishContext_cases:
  assumes "finishContext ctx now commit lease s = (r, (l, t))"
  obtains (same) e where "r = Inl e" "t = s" "cl_record l = cl_record lease" "cl_done lease \<longrightarrow> cl_done l"
  | (expired) "r = Inl ErrContinuationExpired" "t = expireLocked now (cl_record lease) s" "cl_done l" "cl_record l = cl_record lease"
      "\<not> cl_done lease" "status_at s (cl_record lease) = PendingStatusConsuming"
  | (finished) "r = Inr ()" "t = finish_record commit now (cl_record lease) s" "cl_done l" "cl_record l = cl_record lease"
      "\<not> cl_done lease" "\<not> cs_closed s" "status_at s (cl_record lease) = PendingStatusConsuming"
      "now < pt_ExpiresAt (cr_turn (cs_heap s ! cl_record lease))"
proof -
  let ?a = "cl_record lease"
  let ?quit = "ctx 0 \<noteq> None \<or> cl_done lease \<or> cs_closed s \<or> ctx 1 \<noteq> None \<or> status_at s ?a \<noteq> PendingStatusConsuming"
  consider (q) ?quit | (x) "\<not> ?quit" "\<not> now < pt_ExpiresAt (cr_turn (cs_heap s ! ?a))"
    | (f) "\<not> ?quit" "now < pt_ExpiresAt (cr_turn (cs_heap s ! ?a))" by blast
  then show thesis
  proof cases
    case q
    then have "\<exists>e. r = Inl e \<and> t = s \<and> cl_record l = ?a \<and> (cl_done lease \<longrightarrow> cl_done l)"
      using assms unfolding finishContext_def Let_def by (auto split: option.split_asm if_split_asm)
    then show thesis using same by blast
  next
    case x
    with assms have "r = Inl ErrContinuationExpired" "t = expireLocked now ?a s" "cl_done l" "cl_record l = ?a"
      by (auto simp: finishContext_def Let_def)
    with x show thesis using expired by blast
  next
    case f
    with assms have "r = Inr ()" "t = finish_record commit now ?a s" "cl_done l" "cl_record l = ?a"
      by (auto simp: finishContext_def Let_def)
    with f show thesis using finished by blast
  qed
qed

section \<open>The store and its leases as a state machine\<close>

record continuation_system =
  sy_store :: ContinuationStore
  sy_leases :: "ContinuationLease list"

definition cont_start :: "continuation_system \<Rightarrow> bool" where
  "cont_start y \<longleftrightarrow> (\<exists>config. NewContinuationStore config = Inr (sy_store y)) \<and> sy_leases y = []"

text \<open>
  Requests and the cleanup goroutine interleave at the granularity of the mutex, so a run is a sequence
  of these steps in any order, with any clock readings and any cancellation.
\<close>

inductive cont_step :: "continuation_system \<Rightarrow> continuation_system \<Rightarrow> bool" where
  step_save: "cont_step y (y\<lparr>sy_store := snd (SaveContext order ctx now turn (sy_store y))\<rparr>)"
| step_tick: "cont_step y (y\<lparr>sy_store := cleanup_tick order now (sy_store y)\<rparr>)"
| step_lookup: "cont_step y (y\<lparr>sy_store := snd (Lookup order now callID (sy_store y))\<rparr>)"
| step_count: "cont_step y (y\<lparr>sy_store := snd (RecordCount order now (sy_store y))\<rparr>)"
| step_bytes: "cont_step y (y\<lparr>sy_store := snd (store_Bytes order now (sy_store y))\<rparr>)"
| step_begin: "Begin order now results (sy_store y) = (Inr l, s) \<Longrightarrow>
    cont_step y (y\<lparr>sy_store := s, sy_leases := sy_leases y @ [l]\<rparr>)"
| step_refused: "Begin order now results (sy_store y) = (Inl e, s) \<Longrightarrow> cont_step y (y\<lparr>sy_store := s\<rparr>)"
| step_finish: "i < length (sy_leases y) \<Longrightarrow>
    finishContext ctx now commit (sy_leases y ! i) (sy_store y) = (r, (l, s)) \<Longrightarrow>
    cont_step y (y\<lparr>sy_store := s, sy_leases := (sy_leases y)[i := l]\<rparr>)"
| step_close: "cont_step y (y\<lparr>sy_store := store_Close (sy_store y)\<rparr>)"

definition lease_inv :: "ContinuationStore \<Rightarrow> ContinuationLease list \<Rightarrow> bool" where
  "lease_inv s ls \<longleftrightarrow>
     (\<forall>i < length ls. cl_record (ls ! i) < length (cs_heap s)
        \<and> (\<not> cl_done (ls ! i) \<longrightarrow> status_at s (cl_record (ls ! i)) \<in> {PendingStatusConsuming, PendingStatusExpired}))
     \<and> (\<forall>i < length ls. \<forall>j < length ls. i \<noteq> j \<and> \<not> cl_done (ls ! i) \<and> \<not> cl_done (ls ! j)
        \<longrightarrow> cl_record (ls ! i) \<noteq> cl_record (ls ! j))"

definition sys_inv :: "continuation_system \<Rightarrow> bool" where
  "sys_inv y \<longleftrightarrow> store_inv (sy_store y) \<and> lease_inv (sy_store y) (sy_leases y)"

lemma decayed_status:
  "decayed r r' \<Longrightarrow> pt_Status (cr_turn r') = pt_Status (cr_turn r) \<or> pt_Status (cr_turn r') = PendingStatusExpired"
  by (auto simp: decayed_def)

lemma lease_inv_decays:
  assumes "lease_inv s ls" "decays s t"
  shows "lease_inv t ls"
proof -
  have st: "status_at t a = status_at s a \<or> status_at t a = PendingStatusExpired" if "a < length (cs_heap s)" for a
    using assms(2) that decayed_status by (auto simp: decays_def)
  show ?thesis
    unfolding lease_inv_def
  proof (intro conjI allI impI)
    fix i assume i: "i < length ls"
    then show "cl_record (ls ! i) < length (cs_heap t)" using assms by (auto simp: lease_inv_def decays_def)
    assume "\<not> cl_done (ls ! i)"
    then show "status_at t (cl_record (ls ! i)) \<in> {PendingStatusConsuming, PendingStatusExpired}"
      using assms(1) i st [of "cl_record (ls ! i)"] by (auto simp: lease_inv_def)
  next
    fix i j assume "i < length ls" "j < length ls" "i \<noteq> j \<and> \<not> cl_done (ls ! i) \<and> \<not> cl_done (ls ! j)"
    then show "cl_record (ls ! i) \<noteq> cl_record (ls ! j)" using assms(1) by (auto simp: lease_inv_def)
  qed
qed

lemma lease_inv_begin:
  assumes inv: "store_inv s" and l: "lease_inv s ls" and ok: "Begin order now results s = (Inr l, t)"
  shows "lease_inv t (ls @ [l])"
proof -
  define u where "u = cleanupLocked order now s"
  note b = Begin_ok [OF inv ok, folded u_def]
  have lu: "lease_inv u ls" using lease_inv_decays [OF l cleanupLocked_decays] by (simp add: u_def)
  have a: "cl_record l < length (cs_heap u)" using b(2) by (simp add: in_store_def)
  have free: "cl_done (ls ! i)" if "i < length ls" "cl_record (ls ! i) = cl_record l" for i
    using lu that b(3) by (auto simp: lease_inv_def)
  have st: "status_at t c = (if c = cl_record l then PendingStatusConsuming else status_at u c)" if "c < length (cs_heap u)" for c
    using that a by (simp add: b(5) set_turn_nth)
  have len: "length (cs_heap t) = length (cs_heap u)" by (simp add: b(5))
  have old: "cl_record (ls ! i) < length (cs_heap u)"
    "\<not> cl_done (ls ! i) \<Longrightarrow> status_at u (cl_record (ls ! i)) \<in> {PendingStatusConsuming, PendingStatusExpired}"
    if "i < length ls" for i
    using lu that by (auto simp: lease_inv_def)
  show ?thesis
    unfolding lease_inv_def
  proof (intro conjI allI impI)
    fix i assume i: "i < length (ls @ [l])"
    then show "cl_record ((ls @ [l]) ! i) < length (cs_heap t)"
      using old a by (cases "i < length ls") (simp_all add: nth_append len)
    assume "\<not> cl_done ((ls @ [l]) ! i)"
    then show "status_at t (cl_record ((ls @ [l]) ! i)) \<in> {PendingStatusConsuming, PendingStatusExpired}"
      using i old [of i] a st by (cases "i < length ls") (simp_all add: nth_append)
  next
    fix i j assume ij: "i < length (ls @ [l])" "j < length (ls @ [l])"
      "i \<noteq> j \<and> \<not> cl_done ((ls @ [l]) ! i) \<and> \<not> cl_done ((ls @ [l]) ! j)"
    then show "cl_record ((ls @ [l]) ! i) \<noteq> cl_record ((ls @ [l]) ! j)"
      using lu free [of i] free [of j]
      by (cases "i < length ls"; cases "j < length ls") (auto simp: lease_inv_def nth_append)
  qed
qed

lemma lease_inv_done:
  assumes "lease_inv s ls" "i < length ls" "cl_record l = cl_record (ls ! i)" "cl_done (ls ! i) \<longrightarrow> cl_done l"
  shows "lease_inv s (ls[i := l])"
  using assms unfolding lease_inv_def by (auto simp: nth_list_update)

lemma lease_inv_finish:
  assumes inv: "lease_inv s ls" and i: "i < length ls"
    and fin: "finishContext ctx now commit (ls ! i) s = (r, (l, t))"
  shows "lease_inv t (ls[i := l])"
  using fin
proof (cases rule: finishContext_cases)
  case same
  then show ?thesis using inv i by (simp add: lease_inv_done)
next
  case expired
  then have "decays s t" by (simp add: expireLocked_decays)
  from lease_inv_done [OF lease_inv_decays [OF inv this] i] expired show ?thesis by simp
next
  case finished
  let ?a = "cl_record (ls ! i)"
  have len: "length (cs_heap t) = length (cs_heap s)" using finished by simp
  have st: "status_at t c = status_at s c" if "c < length (cs_heap s)" "c \<noteq> ?a" for c
    using finished that by (simp add: finish_record_other)
  have others: "cl_done (ls ! j)" if "j < length ls" "j \<noteq> i" "cl_record (ls ! j) = ?a" for j
    using inv i that finished(5,7) unfolding lease_inv_def by metis
  have a: "\<not> cl_done (ls[i := l] ! j) \<Longrightarrow> cl_record (ls[i := l] ! j) \<noteq> ?a \<and> ls[i := l] ! j = ls ! j" if "j < length ls" for j
    using that others [of j] finished(3) i by (cases "j = i") auto
  show ?thesis
    unfolding lease_inv_def
  proof (intro conjI allI impI)
    fix j assume j: "j < length (ls[i := l])"
    then show "cl_record (ls[i := l] ! j) < length (cs_heap t)"
      using inv finished(4) i len by (auto simp: lease_inv_def nth_list_update)
    assume "\<not> cl_done (ls[i := l] ! j)"
    with a [of j] j have "cl_record (ls ! j) \<noteq> ?a" "ls[i := l] ! j = ls ! j" "\<not> cl_done (ls ! j)" by auto
    then show "status_at t (cl_record (ls[i := l] ! j)) \<in> {PendingStatusConsuming, PendingStatusExpired}"
      using inv j st by (auto simp: lease_inv_def)
  next
    fix j k assume jk: "j < length (ls[i := l])" "k < length (ls[i := l])"
      "j \<noteq> k \<and> \<not> cl_done (ls[i := l] ! j) \<and> \<not> cl_done (ls[i := l] ! k)"
    with a [of j] a [of k] have "ls[i := l] ! j = ls ! j" "ls[i := l] ! k = ls ! k" by auto
    then show "cl_record (ls[i := l] ! j) \<noteq> cl_record (ls[i := l] ! k)"
      using inv jk unfolding lease_inv_def by (metis length_list_update)
  qed
qed

lemma insert_record_decays: "decays s (insert_record t sz s)"
  by (simp add: decays_def insert_record_sel nth_append decayed_def)

lemma SaveContext_decays: "decays s (snd (SaveContext order ctx now turn s))"
proof -
  note c = cleanupLocked_decays [of s order now]
  note decays_trans [OF c insert_record_decays]
  with c show ?thesis by (auto simp: SaveContext_def Let_def split: option.splits sum.splits)
qed

lemma Lookup_decays: "decays s (snd (Lookup order now callID s))"
proof -
  let ?u = "cleanupLocked order now s"
  have "decays s (snd (recordForCallLocked callID now ?u))"
    by (rule decays_trans [OF cleanupLocked_decays recordForCallLocked_decays])
  then show ?thesis
    by (cases "recordForCallLocked callID now ?u"; cases "fst (recordForCallLocked callID now ?u)") (auto simp: Lookup_def)
qed

lemma store_Close_inv: "store_inv s \<Longrightarrow> store_inv (store_Close s)"
  by (auto simp: store_Close_def store_inv_def tables_agree_def config_positive_def)

lemma sys_inv_step: "cont_step y z \<Longrightarrow> sys_inv y \<Longrightarrow> sys_inv z"
proof (induction rule: cont_step.induct)
  case (step_save y order ctx now turn)
  then show ?case by (auto simp: sys_inv_def intro: SaveContext_inv lease_inv_decays SaveContext_decays)
next
  case (step_tick y order now)
  then show ?case
    by (auto simp: sys_inv_def cleanup_tick_def intro: cleanupLocked_inv lease_inv_decays cleanupLocked_decays)
next
  case (step_lookup y order now callID)
  then show ?case by (auto simp: sys_inv_def intro: Lookup_inv lease_inv_decays Lookup_decays)
next
  case (step_count y order now)
  then show ?case
    by (auto simp: sys_inv_def RecordCount_def Let_def intro: cleanupLocked_inv lease_inv_decays cleanupLocked_decays)
next
  case (step_bytes y order now)
  then show ?case
    by (auto simp: sys_inv_def store_Bytes_def Let_def intro: cleanupLocked_inv lease_inv_decays cleanupLocked_decays)
next
  case (step_begin order now results y l s)
  then show ?case using Begin_inv [of "sy_store y" order now results] lease_inv_begin [OF _ _ step_begin(1)]
    by (simp add: sys_inv_def)
next
  case (step_refused order now results y e s)
  then show ?case using Begin_inv [of "sy_store y" order now results]
    by (auto simp: sys_inv_def intro: lease_inv_decays Begin_err_decays)
next
  case (step_finish i y ctx now commit r l s)
  then have "store_inv s" using finishContext_inv [of "sy_store y" "sy_leases y ! i" ctx now commit]
    by (simp add: sys_inv_def lease_inv_def)
  then show ?case using step_finish lease_inv_finish [OF _ step_finish(1,2)] by (simp add: sys_inv_def)
next
  case (step_close y)
  have "decays (sy_store y) (store_Close (sy_store y))" by (rule decays_heap) (simp_all add: store_Close_def)
  then show ?case using step_close by (auto simp: sys_inv_def intro: store_Close_inv lease_inv_decays)
qed

lemma sys_inv_start: "cont_start y \<Longrightarrow> sys_inv y"
  by (auto simp: cont_start_def sys_inv_def lease_inv_def dest: NewContinuationStore_inv)

interpretation continuation: invariant_system cont_start cont_step sys_inv
  by unfold_locales (auto intro: sys_inv_start sys_inv_step)

section \<open>What cleanup leaves alone\<close>

text \<open>A record whose deadline lies ahead and that has not expired survives a cleanup unchanged.\<close>

definition live :: "gotime \<Rightarrow> ContinuationStore \<Rightarrow> nat \<Rightarrow> bool" where
  "live now s a \<longleftrightarrow> in_store s a \<and> status_at s a \<noteq> PendingStatusExpired
     \<and> now < pt_ExpiresAt (cr_turn (cs_heap s ! a))"

lemma removeLocked_live:
  assumes "live now s b" "b \<noteq> a" "in_store s a"
  shows "live now (removeLocked a s) b"
proof -
  have "cr_key (cs_heap s ! b) \<noteq> cr_key (cs_heap s ! a)" using assms by (auto simp: live_def in_store_def)
  then show ?thesis using assms by (auto simp: live_def in_store_def removeLocked_def Let_def)
qed

lemma set_turn_live:
  assumes "live now s b" "b \<noteq> a"
  shows "live now (set_turn a f s) b"
  using assms by (auto simp: live_def in_store_def set_turn_nth)

lemma expireLocked_live:
  assumes b: "live now s b" "b \<noteq> a" and a: "in_store s a"
  shows "live now (expireLocked t a s) b"
proof -
  define m where "m = fold (add_tombstone (t + cc_ConsumedGracePeriod (cs_config s)) (cs_maxExpiredIDs s))
      (turn_ids (cr_turn (cs_heap s ! a))) (cs_expiredCallIDs s)"
  let ?s = "set_turn a (\<lambda>t. t\<lparr>pt_Status := PendingStatusExpired\<rparr>) (s\<lparr>cs_expiredCallIDs := m\<rparr>)"
  have "live now ?s b" using b by (intro set_turn_live) (auto simp: live_def in_store_def)
  moreover have "in_store ?s a" using a by (auto simp: in_store_def set_turn_nth)
  ultimately show ?thesis using removeLocked_live [of now ?s b a] b(2) by (simp add: expireLocked_def Let_def m_def)
qed

lemma cleanup_record_live:
  assumes "store_inv s" "live now s b"
  shows "live now (cleanup_record now k s) b \<and> cs_heap (cleanup_record now k s) ! b = cs_heap s ! b"
proof (cases "map_of (cs_records s) k")
  case (Some a)
  note ist = in_store_record [OF store_invD(2) [OF assms(1)] Some]
  show ?thesis
  proof (cases "a = b")
    case True
    then show ?thesis using assms(2) Some by (simp add: cleanup_record_def live_def Let_def)
  next
    case False
    then show ?thesis using assms(2) Some ist removeLocked_live [OF assms(2) _ ist] expireLocked_live [OF assms(2) _ ist]
      by (auto simp: cleanup_record_def Let_def set_turn_nth live_def in_store_def)
  qed
qed (use assms in \<open>simp add: cleanup_record_def\<close>)

lemma cleanupLocked_live:
  assumes "store_inv s" "live now s b"
  shows "live now (cleanupLocked order now s) b \<and> cs_heap (cleanupLocked order now s) ! b = cs_heap s ! b"
proof -
  have "live now (fold (cleanup_record now) ks s) b \<and> cs_heap (fold (cleanup_record now) ks s) ! b = cs_heap s ! b"
    if "store_inv s" "live now s b" for ks s
    using that
  proof (induction ks arbitrary: s)
    case (Cons k ks)
    from Cons.IH [of "cleanup_record now k s"] cleanup_record_live [OF Cons.prems, of k] cleanup_record_inv [OF Cons.prems(1)]
    show ?case by simp
  qed simp
  moreover have "store_inv (s\<lparr>cs_expiredCallIDs := filter (\<lambda>(_, expiresAt). now < expiresAt) (cs_expiredCallIDs s)\<rparr>)"
    by (rule cleanup_tombstones_inv [OF assms(1)])
  moreover have "live now (s\<lparr>cs_expiredCallIDs := m\<rparr>) b" for m using assms(2) by (simp add: live_def in_store_def)
  ultimately show ?thesis by (simp add: cleanupLocked_def Let_def)
qed

lemma recordForCallLocked_live:
  assumes inv: "store_inv s" and live: "live now s a" and i: "i \<in> set (turn_ids (cr_turn (cs_heap s ! a)))"
  shows "recordForCallLocked i now s = (Inr a, s)"
proof -
  have a: "map_of (cs_records s) (cr_key (cs_heap s ! a)) = Some a" "a < length (cs_heap s)"
    using live by (simp_all add: live_def in_store_def)
  have "map_of (cs_byCallID s) i = Some (cr_key (cs_heap s ! a))"
    by (rule tables_record(3) [OF store_invD(2) [OF inv] a(1) i])
  then show ?thesis using a live store_invD(9) [OF inv a(2)]
    by (auto simp: recordForCallLocked_def Let_def live_def record_wf_def)
qed

lemma begin_record_live:
  assumes inv: "store_inv s" and live: "live now s a"
  shows "distinct (map tr_CallID rs) \<Longrightarrow> set (map tr_CallID rs) \<inter> set seen = {} \<Longrightarrow> [] \<notin> set (map tr_CallID rs) \<Longrightarrow>
    set (map tr_CallID rs) \<subseteq> set (turn_ids (cr_turn (cs_heap s ! a))) \<Longrightarrow> first = None \<or> first = Some a \<Longrightarrow>
    begin_record now rs seen first s = (Inr (if rs = [] then first else Some a), s)"
proof (induction rs arbitrary: seen first)
  case (Cons r rs)
  have "recordForCallLocked (tr_CallID r) now s = (Inr a, s)"
    using Cons.prems by (intro recordForCallLocked_live [OF inv live]) simp
  moreover have "begin_record now rs (tr_CallID r # seen) (Some a) s = (Inr (Some a), s)"
    using Cons.IH [of "tr_CallID r # seen" "Some a"] Cons.prems by auto
  ultimately show ?case using Cons.prems by auto
qed simp

lemma finish_abort:
  assumes r: "status_at s a = PendingStatusPending" "pt_ExpiresAt (cr_turn (cs_heap s ! a)) = cr_originalExpiry (cs_heap s ! a)"
    and a: "a < length (cs_heap s)" and now: "now < cr_originalExpiry (cs_heap s ! a)"
  shows "finish_record False now a (set_turn a (\<lambda>t. t\<lparr>pt_Status := st, pt_ExpiresAt := e\<rparr>) s) = s"
proof -
  have "(cs_heap s ! a)\<lparr>cr_turn := (cr_turn (cs_heap s ! a))\<lparr>pt_Status := PendingStatusPending,
      pt_ExpiresAt := cr_originalExpiry (cs_heap s ! a)\<rparr>\<rparr> = cs_heap s ! a"
    using r by (cases "cs_heap s ! a"; cases "cr_turn (cs_heap s ! a)") simp
  then show ?thesis using a now by (simp add: finish_record_def set_turn_def)
qed

section \<open>Properties\<close>

text \<open>A configuration, a turn and a result for the concrete instances below.\<close>

definition sample_config :: ContinuationStoreConfig where
  "sample_config = \<lparr>cc_TTL = 0, cc_ConsumingLeaseTTL = 0, cc_ConsumedGracePeriod = 0, cc_MaxRecords = 2,
     cc_MaxBytesPerRecord = 0, cc_MaxAggregateBytes = 0, cc_CleanupInterval = 0\<rparr>"

definition sample_store :: ContinuationStore where
  "sample_store = \<lparr>cs_config = DefaultContinuationStoreConfig\<lparr>cc_MaxRecords := 2\<rparr>, cs_records = [], cs_byCallID = [],
     cs_expiredCallIDs = [], cs_maxExpiredIDs = 256, cs_totalBytes = 0, cs_closed = False, cs_heap = []\<rparr>"

lemma sample_store_new: "NewContinuationStore sample_config = Inr sample_store"
  by (simp add: NewContinuationStore_def normalizeContinuationStoreConfig_def sample_config_def sample_store_def
      DefaultContinuationStoreConfig_def or_default_def config_positive_def continuation_defaults
      max_expired_ids_def bridge_limits)

lemma sample_store_inv: "store_inv sample_store"
  by (rule NewContinuationStore_inv [OF sample_store_new])

definition sample_turn :: PendingTurn where
  "sample_turn = \<lparr>pt_Provider = ''opencodego'', pt_Model = ''m'', pt_ReasoningContent = [], pt_AssistantContent = [],
     pt_ToolCalls = [\<lparr>uc_CallID = ''c'', uc_ProviderCallID = [], uc_Kind = ToolFunction, uc_Name = ''ls'', uc_Arguments = [],
        uc_Registration = \<lparr>reg_Kind = [], reg_InboundName = [], reg_UpstreamName = [], reg_WrapperField = []\<rparr>\<rparr>],
     pt_ToolRegistrations = [], pt_CallIDs = [], pt_CreatedAt = 0, pt_ExpiresAt = 0, pt_SizeBytes = 0, pt_Status = []\<rparr>"


lemma civil_epoch: "civil_date 0 = (1970, 1, 1)"
  by code_simp

lemma sample_created: "marshal_time 0 = Some (CHR 0x22 # ''1970-01-01T00:00:00Z'' @ [CHR 0x22])"
  by (simp add: marshal_time_def civil_epoch zero_pad_def decimal_small decimal_big char_of_eq_iff)

lemma sample_expires: "marshal_time 300000000000 = Some (CHR 0x22 # ''1970-01-01T00:05:00Z'' @ [CHR 0x22])"
  by (simp add: marshal_time_def civil_epoch zero_pad_def decimal_small decimal_big char_of_eq_iff)

definition saved_turn :: PendingTurn where
  "saved_turn = sample_turn\<lparr>pt_ExpiresAt := 300000000000, pt_Status := PendingStatusPending,
     pt_ToolCalls := [(hd (pt_ToolCalls sample_turn))\<lparr>uc_ProviderCallID := ''c''\<rparr>], pt_CallIDs := [''c'']\<rparr>"

lemma saved_turn_size: "\<exists>x. marshal_turn saved_turn = Some x \<and> length x = 400"
  by (simp add: marshal_turn_def sample_created sample_expires saved_turn_def sample_turn_def PendingStatusPending_def obj_text_def arr_text_def
      slice_text_def quote_def escape_ascii escape_byte_def itoa_def decimal_small call_text_def registration_text_def)

lemma sample_normal: "normalizePendingTurn sample_turn 0 300000000000 = Inr (saved_turn\<lparr>pt_SizeBytes := 400\<rparr>, 400)"
proof -
  obtain x where "marshal_turn saved_turn = Some x" "length x = 400" using saved_turn_size by blast
  then show ?thesis
    by (simp add: normalizePendingTurn_def saved_turn_def sample_turn_def zero_time_def)
qed

definition saved_record :: continuationRecord where
  "saved_record = \<lparr>cr_key = ''c'', cr_turn = saved_turn\<lparr>pt_SizeBytes := 400\<rparr>, cr_bytes = 400, cr_originalExpiry = 300000000000\<rparr>"

definition saved_store :: ContinuationStore where
  "saved_store = sample_store\<lparr>cs_heap := [saved_record], cs_records := [(''c'', 0)], cs_byCallID := [(''c'', ''c'')],
     cs_totalBytes := 400\<rparr>"

definition sample_results :: "ToolResult list" where
  "sample_results = [\<lparr>tr_CallID = ''c'', tr_Kind = ToolFunction, tr_Output = ''ok'', tr_Status = [], tr_Error = False\<rparr>]"

lemma sample_cleanup: "cleanupLocked order now sample_store = sample_store"
proof -
  have "range_order order ([] :: (gostring, nat) gomap) = []" by (simp add: range_order_def filter_empty_conv)
  then show ?thesis by (simp add: cleanupLocked_def sample_store_def)
qed

lemma sample_fits: "pendingTurnFitsBounds sample_turn DefaultContinuationMaxRecordBytes defaultContinuationMaxBytes"
  by (simp add: pendingTurnFitsBounds_def turn_sizes_def sample_turn_def continuation_defaults)

lemma sample_save: "Save order 0 sample_turn sample_store = (Inr (), saved_store)"
proof -
  have "normalizePendingTurn sample_turn 0 defaultContinuationTTL = Inr (saved_turn\<lparr>pt_SizeBytes := 400\<rparr>, 400)"
    using sample_normal by (simp add: continuation_defaults)
  moreover have "insert_record (saved_turn\<lparr>pt_SizeBytes := 400\<rparr>) 400 sample_store = saved_store"
    by (simp add: insert_record_def Let_def saved_store_def saved_record_def sample_store_def saved_turn_def sample_turn_def)
  ultimately show ?thesis using sample_fits
    by (simp add: Save_def SaveContext_def Background_def sample_cleanup)
      (simp add: sample_store_def DefaultContinuationStoreConfig_def continuation_defaults list_ex_iff)
qed

lemma saved_store_inv: "store_inv saved_store"
  using SaveContext_inv [OF sample_store_inv, of "[]" Background 0 sample_turn] sample_save [of "[]"]
  by (simp add: Save_def)

lemma saved_live: "now < 300000000000 \<Longrightarrow> live now saved_store 0"
  by (simp add: live_def in_store_def saved_store_def saved_record_def saved_turn_def sample_store_def)

lemma sample_begin: "\<exists>l t. Begin [] 1 sample_results saved_store = (Inr l, t) \<and> cl_record l = 0"
proof -
  let ?u = "cleanupLocked [] 1 saved_store"
  have u: "live 1 ?u 0" "cs_heap ?u ! 0 = saved_record"
    using cleanupLocked_live [OF saved_store_inv saved_live, of 1 "[]"] by (simp_all add: saved_store_def)
  have "store_inv ?u" by (rule cleanupLocked_inv [OF saved_store_inv])
  from begin_record_live [OF this u(1), of sample_results "[]" None] u(2)
  have b: "begin_record 1 sample_results [] None ?u = (Inr (Some 0), ?u)"
    by (simp add: sample_results_def saved_record_def saved_turn_def sample_turn_def)
  have "\<exists>l t. reserve_record 1 sample_results 0 ?u = (Inr l, t) \<and> cl_record l = 0"
    using u(2) by (simp add: reserve_record_def Let_def sample_results_def saved_record_def saved_turn_def sample_turn_def)
  moreover have "sample_results \<noteq> []" "\<not> cs_closed saved_store"
    by (simp_all add: sample_results_def saved_store_def sample_store_def)
  ultimately show ?thesis using b by (simp add: Begin_def Let_def)
qed

definition sample_system :: continuation_system where
  "sample_system = \<lparr>sy_store = saved_store, sy_leases = []\<rparr>"

lemma sample_reachable: "reachable cont_start cont_step sample_system"
proof -
  let ?y = "\<lparr>sy_store = sample_store, sy_leases = []\<rparr>"
  have "reachable cont_start cont_step ?y" using sample_store_new by (intro reach_start) (auto simp: cont_start_def)
  moreover have "cont_step ?y sample_system"
    using step_save [of ?y "[]" Background 0 sample_turn] sample_save [of "[]"] by (simp add: Save_def sample_system_def)
  ultimately show ?thesis by (rule reach_step)
qed

text \<open>
  C33: In every reachable state, whatever the interleaving of requests, leases and cleanups, the store
  keeps its bounds: the byte counter is exactly the size of the retained turns, counter, records and
  tombstones stay within the configured limits, and a closed store retains nothing.
\<close>

theorem continuation_bounds:
  assumes "reachable cont_start cont_step y"
  shows "cs_totalBytes (sy_store y) = retained_bytes (cs_heap (sy_store y)) (cs_records (sy_store y))
    \<and> 0 \<le> cs_totalBytes (sy_store y) \<and> cs_totalBytes (sy_store y) \<le> cc_MaxAggregateBytes (cs_config (sy_store y))
    \<and> len (cs_records (sy_store y)) \<le> cc_MaxRecords (cs_config (sy_store y))
    \<and> len (cs_expiredCallIDs (sy_store y)) \<le> cs_maxExpiredIDs (sy_store y)
    \<and> (cs_closed (sy_store y) \<longrightarrow> cs_records (sy_store y) = [] \<and> cs_byCallID (sy_store y) = [])"
proof -
  have inv: "store_inv (sy_store y)" using continuation.inv_reachable [OF assms] by (simp add: sys_inv_def)
  then show ?thesis using store_invD(3-7) [OF inv] retained_nonneg [OF inv order_refl] by auto
qed

theorem continuation_bounds_witness:
  "cs_totalBytes (sy_store sample_system) = 400 \<and> cs_totalBytes (sy_store sample_system) \<le> cc_MaxAggregateBytes (cs_config (sy_store sample_system))"
  using continuation_bounds [OF sample_reachable] by (simp add: sample_system_def saved_store_def)

text \<open>
  C34: A retained turn has one owner: leases that are not finished point to different records, and the
  record of such a lease is either still in the store and being consumed, or expired; only closing the
  store takes a record away from its lease otherwise.
\<close>

theorem lease_exclusive:
  assumes "reachable cont_start cont_step y" "i < length (sy_leases y)" "\<not> cl_done (sy_leases y ! i)"
  shows "(\<forall>j < length (sy_leases y). j \<noteq> i \<and> \<not> cl_done (sy_leases y ! j) \<longrightarrow>
        cl_record (sy_leases y ! j) \<noteq> cl_record (sy_leases y ! i))
    \<and> (status_at (sy_store y) (cl_record (sy_leases y ! i)) = PendingStatusExpired
       \<or> status_at (sy_store y) (cl_record (sy_leases y ! i)) = PendingStatusConsuming
         \<and> (cs_closed (sy_store y) \<or> in_store (sy_store y) (cl_record (sy_leases y ! i))))"
proof -
  have inv: "store_inv (sy_store y)" "lease_inv (sy_store y) (sy_leases y)"
    using continuation.inv_reachable [OF assms(1)] by (simp_all add: sys_inv_def)
  have "cl_record (sy_leases y ! i) < length (cs_heap (sy_store y))" using inv(2) assms(2) by (simp add: lease_inv_def)
  then show ?thesis using inv(2) assms(2,3) store_invD(8) [OF inv(1)] by (auto simp: lease_inv_def)
qed

theorem lease_exclusive_witness:
  "\<exists>y l. reachable cont_start cont_step y \<and> sy_leases y = [l] \<and> status_at (sy_store y) (cl_record l) = PendingStatusConsuming
     \<and> in_store (sy_store y) (cl_record l)"
proof -
  obtain l t where b: "Begin [] 1 sample_results saved_store = (Inr l, t)" "cl_record l = 0" using sample_begin by blast
  let ?y = "sample_system\<lparr>sy_store := t, sy_leases := [l]\<rparr>"
  have "cont_step sample_system ?y"
    using step_begin [of "[]" 1 sample_results sample_system l t] b(1) by (simp add: sample_system_def)
  then have y: "reachable cont_start cont_step ?y" by (rule reach_step [OF sample_reachable])
  note ok = Begin_ok [OF saved_store_inv b(1)]
  have "cl_record l < length (cs_heap (cleanupLocked [] 1 saved_store))" using ok(2) by (simp add: in_store_def)
  then have "status_at t (cl_record l) = PendingStatusConsuming" "\<not> cs_closed t"
    using ok(1) by (simp_all add: ok(5) set_turn_nth)
  then show ?thesis using lease_exclusive [OF y, of 0] ok(6) y by (intro exI [of _ ?y] exI [of _ l]) simp
qed

text \<open>
  C35: A lease is granted only for a complete answer: the results name exactly the calls of one pending,
  unexpired turn, each once and with the kind of the call, and the turn is being consumed afterwards with
  the lease's own deadline.
\<close>

theorem Begin_grants:
  assumes "reachable cont_start cont_step y" "Begin order now results (sy_store y) = (Inr l, t)"
  shows "mset (map (\<lambda>r. (tr_CallID r, tr_Kind r)) results) = mset (map (\<lambda>c. (uc_CallID c, uc_Kind c)) (pt_ToolCalls (cl_turn l)))
    \<and> pt_Status (cl_turn l) = PendingStatusConsuming
    \<and> pt_ExpiresAt (cl_turn l) = now + cc_ConsumingLeaseTTL (cs_config (sy_store y))
    \<and> (let u = cleanupLocked order now (sy_store y) in
        in_store u (cl_record l) \<and> status_at u (cl_record l) = PendingStatusPending
        \<and> now < cr_originalExpiry (cs_heap u ! cl_record l))
    \<and> cr_turn (cs_heap t ! cl_record l) = cl_turn l"
proof -
  have inv: "store_inv (sy_store y)" using continuation.inv_reachable [OF assms(1)] by (simp add: sys_inv_def)
  define u where "u = cleanupLocked order now (sy_store y)"
  note b = Begin_ok [OF inv assms(2), folded u_def]
  have a: "cl_record l < length (cs_heap u)" using b(2) by (simp add: in_store_def)
  have "pt_ExpiresAt (cr_turn (cs_heap u ! cl_record l)) = cr_originalExpiry (cs_heap u ! cl_record l)"
    using store_invD(9) [OF cleanupLocked_inv [OF inv], of "cl_record l"] a b(3) by (simp add: record_wf_def u_def)
  then show ?thesis using b a by (simp add: set_turn_nth u_def [symmetric])
qed

theorem Begin_grants_witness:
  "\<exists>l t. Begin [] 1 sample_results (sy_store sample_system) = (Inr l, t) \<and> pt_Status (cl_turn l) = PendingStatusConsuming"
proof -
  obtain l t where b: "Begin [] 1 sample_results (sy_store sample_system) = (Inr l, t)"
    using sample_begin by (auto simp: sample_system_def)
  then show ?thesis using Begin_grants [OF sample_reachable b] by blast
qed

text \<open>
  C36: An aborted continuation can be retried: aborting a fresh lease before the turn's own deadline puts
  the store back exactly as the cleanup at the start of \<open>Begin\<close> left it, with the turn pending and
  under its original deadline.
\<close>

theorem abort_restores:
  assumes "reachable cont_start cont_step y" "Begin order now results (sy_store y) = (Inr l, t)"
    and "later < now + cc_ConsumingLeaseTTL (cs_config (sy_store y))"
    and "later < cr_originalExpiry (cs_heap t ! cl_record l)"
  shows "\<exists>l'. lease_Abort later l t = (Inr (), (l', cleanupLocked order now (sy_store y)))"
proof -
  have inv: "store_inv (sy_store y)" using continuation.inv_reachable [OF assms(1)] by (simp add: sys_inv_def)
  define u where "u = cleanupLocked order now (sy_store y)"
  note b = Begin_ok [OF inv assms(2), folded u_def]
  have a: "cl_record l < length (cs_heap u)" using b(2) by (simp add: in_store_def)
  have e: "pt_ExpiresAt (cr_turn (cs_heap u ! cl_record l)) = cr_originalExpiry (cs_heap u ! cl_record l)"
    using store_invD(9) [OF cleanupLocked_inv [OF inv], of "cl_record l"] a b(3) by (simp add: record_wf_def u_def)
  have later: "later < cr_originalExpiry (cs_heap u ! cl_record l)" using assms(4) a by (simp add: b(5) set_turn_nth)
  have "finish_record False later (cl_record l) t = u"
    unfolding b(5) by (rule finish_abort [OF b(3) e a later])
  moreover have "\<not> cs_closed t" using b(1) by (simp add: b(5) u_def)
  moreover have "cr_turn (cs_heap t ! cl_record l) = (cr_turn (cs_heap u ! cl_record l))
      \<lparr>pt_Status := PendingStatusConsuming, pt_ExpiresAt := now + cc_ConsumingLeaseTTL (cs_config (sy_store y))\<rparr>"
    using a by (simp add: b(5) set_turn_nth)
  ultimately show ?thesis using b(6) assms(3)
    by (simp add: lease_Abort_def finishContext_def Background_def Let_def u_def)
qed

theorem abort_restores_witness:
  "\<exists>l l' t. Begin [] 1 sample_results saved_store = (Inr l, t) \<and> lease_Abort 2 l t = (Inr (), (l', cleanupLocked [] 1 saved_store))"
proof -
  obtain l t where b: "Begin [] 1 sample_results (sy_store sample_system) = (Inr l, t)" "cl_record l = 0"
    using sample_begin by (auto simp: sample_system_def)
  have u: "cs_heap (cleanupLocked [] 1 saved_store) ! 0 = saved_record"
    using cleanupLocked_live [OF saved_store_inv saved_live, of 1 "[]"] by (simp add: saved_store_def)
  have "cr_originalExpiry (cs_heap t ! 0) = 300000000000"
    using Begin_ok(2,5) [OF saved_store_inv, of "[]" 1 sample_results l t] b u
    by (simp add: sample_system_def set_turn_nth in_store_def) (simp add: saved_record_def)
  then show ?thesis using abort_restores [OF sample_reachable b(1), of 2] b
    by (simp add: sample_system_def saved_store_def sample_store_def DefaultContinuationStoreConfig_def continuation_defaults)
qed

text \<open>
  While a lease holds a turn, a second submission of the same results is refused as busy, at every
  moment before the lease's deadline.
\<close>

theorem Begin_busy:
  assumes "reachable cont_start cont_step y" "Begin order now results (sy_store y) = (Inr l, t)"
    and "later < now + cc_ConsumingLeaseTTL (cs_config (sy_store y))"
  shows "fst (Begin order' later results t) = Inl ErrContinuationBusy"
proof -
  have inv: "store_inv (sy_store y)" using continuation.inv_reachable [OF assms(1)] by (simp add: sys_inv_def)
  define u where "u = cleanupLocked order now (sy_store y)"
  have uinv: "store_inv u" unfolding u_def by (rule cleanupLocked_inv [OF inv])
  note b = Begin_ok [OF inv assms(2), folded u_def]
  let ?a = "cl_record l"
  have a: "?a < length (cs_heap u)" using b(2) by (simp add: in_store_def)
  have tinv: "store_inv t" using Begin_inv [OF inv, of order now results] assms(2) by simp
  have at: "cs_heap t ! ?a = (cs_heap u ! ?a)\<lparr>cr_turn := (cr_turn (cs_heap u ! ?a))
      \<lparr>pt_Status := PendingStatusConsuming, pt_ExpiresAt := now + cc_ConsumingLeaseTTL (cs_config (sy_store y))\<rparr>\<rparr>"
    using a by (simp add: b(5) set_turn_nth)
  have live: "live later t ?a" using b(2) at assms(3) by (simp add: live_def in_store_def) (simp add: b(5))
  define v where "v = cleanupLocked order' later t"
  have v: "live later v ?a" "cs_heap v ! ?a = cs_heap t ! ?a" "store_inv v"
    using cleanupLocked_live [OF tinv live, of order'] cleanupLocked_inv [OF tinv] by (simp_all add: v_def)
  obtain f w where "results \<noteq> []" and br: "begin_record now results [] None u = (Inr f, w)" and f: "f \<noteq> None"
    using assms(2) by (auto simp: Begin_def Let_def u_def go_bind_Inr_iff split: if_splits option.splits)
  have r: "distinct (map tr_CallID results)" "[] \<notin> set (map tr_CallID results)"
    using begin_record_ok [OF uinv br] by blast+
  have "set (map tr_CallID results) = set (turn_ids (cr_turn (cs_heap u ! ?a)))"
    using arg_cong [OF b(9), of "\<lambda>m. fst ` set_mset m"] by (simp add: image_image)
  then have "begin_record later results [] None v = (Inr (Some ?a), v)"
    using begin_record_live [OF v(3,1), of results "[]" None] r at v(2) \<open>results \<noteq> []\<close> by simp
  then show ?thesis using b(1) \<open>results \<noteq> []\<close> v(2) at
    by (simp add: Begin_def Let_def v_def [symmetric] reserve_record_def) (simp add: b(5) u_def)
qed

theorem Begin_busy_witness:
  "\<exists>l t. Begin [] 1 sample_results saved_store = (Inr l, t) \<and> fst (Begin [] 2 sample_results t) = Inl ErrContinuationBusy"
proof -
  obtain l t where b: "Begin [] 1 sample_results (sy_store sample_system) = (Inr l, t)"
    using sample_begin by (auto simp: sample_system_def)
  from Begin_busy [OF sample_reachable b, of 2 "[]"] b show ?thesis
    by (simp add: sample_system_def saved_store_def sample_store_def DefaultContinuationStoreConfig_def continuation_defaults)
qed

text \<open>A consumed record never changes again.\<close>

abbreviation consumed_at :: "continuationRecord \<Rightarrow> nat \<Rightarrow> ContinuationStore \<Rightarrow> bool" where
  "consumed_at r a s \<equiv> a < length (cs_heap s) \<and> cs_heap s ! a = r \<and> pt_Status (cr_turn r) = PendingStatusConsumed"

lemma consumed_decays: "decays s t \<Longrightarrow> consumed_at r a s \<Longrightarrow> consumed_at r a t"
  by (auto simp: decays_def decayed_def)

lemma consumed_begin:
  assumes inv: "store_inv s" and ok: "Begin order now results s = (Inr l, t)" and c: "consumed_at r a s"
  shows "consumed_at r a t"
proof -
  have u: "consumed_at r a (cleanupLocked order now s)" by (rule consumed_decays [OF cleanupLocked_decays c])
  note b = Begin_ok [OF inv ok]
  have "cl_record l \<noteq> a" using b(3) u by auto
  then show ?thesis using u by (simp add: b(5) set_turn_nth)
qed

lemma consumed_finish:
  assumes "finishContext ctx now commit lease s = (x, (l, t))" and c: "consumed_at r a s"
  shows "consumed_at r a t"
  using assms(1)
proof (cases rule: finishContext_cases)
  case expired
  then have "decays s t" by (simp add: expireLocked_decays)
  then show ?thesis by (rule consumed_decays [OF _ c])
next
  case finished
  then have "a \<noteq> cl_record lease" using c by auto
  then show ?thesis using c finished by (simp add: finish_record_other)
qed (use c in simp)

lemma consumed_step:
  assumes "cont_step y z" "sys_inv y" "consumed_at r a (sy_store y)"
  shows "consumed_at r a (sy_store z)"
  using assms(1)
proof cases
  case (step_begin order now results l s)
  then show ?thesis using consumed_begin [OF _ step_begin(2) assms(3)] assms(2) by (simp add: sys_inv_def)
next
  case (step_refused order now results e s)
  then show ?thesis using consumed_decays [OF Begin_err_decays [OF _ step_refused(2)] assms(3)] assms(2)
    by (simp add: sys_inv_def)
next
  case (step_finish i ctx now commit x l s)
  then show ?thesis using consumed_finish [OF step_finish(3) assms(3)] by simp
next
  case step_close
  then show ?thesis using assms(3) by (simp add: store_Close_def)
qed (use consumed_decays [OF _ assms(3)] in \<open>auto simp: cleanup_tick_def RecordCount_def store_Bytes_def Let_def
    intro: SaveContext_decays cleanupLocked_decays Lookup_decays split: if_splits\<close>)

lemma consumed_steps:
  assumes "cont_step\<^sup>*\<^sup>* y z" "sys_inv y" "consumed_at r a (sy_store y)"
  shows "consumed_at r a (sy_store z)"
  using assms
proof (induction rule: rtranclp_induct)
  case (step z w)
  then show ?case using consumed_step continuation.inv_steps by blast
qed simp

text \<open>
  C37: A turn is consumed at most once: a successful commit changes of its record only the status, to consumed, and the
  deadline, to the end of the grace period, and the record never changes again, no matter what follows; every lease
  that points to it is finished, so no second commit and no abort succeeds or touches the store.
\<close>

theorem commit_once:
  assumes "reachable cont_start cont_step y" "i < length (sy_leases y)"
    and "CommitContext ctx now (sy_leases y ! i) (sy_store y) = (Inr (), (l, s))"
    and "cont_step\<^sup>*\<^sup>* (y\<lparr>sy_store := s, sy_leases := (sy_leases y)[i := l]\<rparr>) z"
  shows "cs_heap s ! cl_record l = (let r = cs_heap (sy_store y) ! cl_record l in
      r\<lparr>cr_turn := (cr_turn r)\<lparr>pt_Status := PendingStatusConsumed, pt_ExpiresAt := now + cc_ConsumedGracePeriod (cs_config (sy_store y))\<rparr>\<rparr>)
    \<and> cs_heap (sy_store z) ! cl_record l = cs_heap s ! cl_record l
    \<and> (\<forall>k \<in> set (sy_leases z). cl_record k = cl_record l \<longrightarrow>
         cl_done k \<and> (\<exists>e. finishContext ctx' now' commit k (sy_store z) = (Inl e, (k, sy_store z))))"
proof -
  let ?y = "y\<lparr>sy_store := s, sy_leases := (sy_leases y)[i := l]\<rparr>"
  have fin: "finishContext ctx now True (sy_leases y ! i) (sy_store y) = (Inr (), (l, s))"
    using assms(3) by (simp add: CommitContext_def)
  have "sys_inv y" by (rule continuation.inv_reachable [OF assms(1)])
  moreover have step: "cont_step y ?y" by (rule step_finish [OF assms(2) fin])
  ultimately have inv: "sys_inv ?y" by (rule sys_inv_step [rotated])
  have a: "cl_record (sy_leases y ! i) < length (cs_heap (sy_store y))"
    using \<open>sys_inv y\<close> assms(2) by (simp add: sys_inv_def lease_inv_def)
  have r: "consumed_at (cs_heap s ! cl_record l) (cl_record l) s"
    "cs_heap s ! cl_record l = (let r = cs_heap (sy_store y) ! cl_record l in
      r\<lparr>cr_turn := (cr_turn r)\<lparr>pt_Status := PendingStatusConsumed, pt_ExpiresAt := now + cc_ConsumedGracePeriod (cs_config (sy_store y))\<rparr>\<rparr>)"
    using fin by (cases rule: finishContext_cases; use a in \<open>simp add: finish_record_def set_turn_nth Let_def\<close>)+
  then have c: "consumed_at (cs_heap s ! cl_record l) (cl_record l) (sy_store z)" using consumed_steps [OF assms(4) inv] by simp
  have "lease_inv (sy_store z) (sy_leases z)" using continuation.inv_steps [OF assms(4) inv] by (simp add: sys_inv_def)
  then have finished: "cl_done k" if "k \<in> set (sy_leases z)" "cl_record k = cl_record l" for k
    using that c by (auto simp: lease_inv_def in_set_conv_nth)
  have "\<exists>e. finishContext ctx' now' commit k t = (Inl e, (k, t))" if "cl_done k" for k t
    using that by (auto simp: finishContext_def split: option.split)
  with finished r(2) c show ?thesis by blast
qed

theorem commit_once_witness:
  "\<exists>y z (l :: ContinuationLease). reachable cont_start cont_step y \<and> cont_step\<^sup>*\<^sup>* y z
    \<and> status_at (sy_store z) (cl_record l) = PendingStatusConsumed"
proof -
  obtain l t where b: "Begin [] 1 sample_results saved_store = (Inr l, t)" "cl_record l = 0" using sample_begin by blast
  let ?y = "sample_system\<lparr>sy_store := t, sy_leases := [l]\<rparr>"
  have "cont_step sample_system ?y"
    using step_begin [of "[]" 1 sample_results sample_system l t] b(1) by (simp add: sample_system_def)
  then have y: "reachable cont_start cont_step ?y" by (rule reach_step [OF sample_reachable])
  note ok = Begin_ok [OF saved_store_inv b(1)]
  have "cl_record l < length (cs_heap (cleanupLocked [] 1 saved_store))" using ok(2) by (simp add: in_store_def)
  then have t: "status_at t (cl_record l) = PendingStatusConsuming" "\<not> cs_closed t"
    "pt_ExpiresAt (cr_turn (cs_heap t ! cl_record l)) = 1 + cc_ConsumingLeaseTTL (cs_config saved_store)"
    using ok(1) by (simp_all add: ok(5) set_turn_nth)
  then obtain l' s where c: "CommitContext Background 2 l t = (Inr (), (l', s))"
    using ok(6) by (simp add: CommitContext_def finishContext_def Background_def Let_def saved_store_def
        sample_store_def DefaultContinuationStoreConfig_def continuation_defaults)
  let ?z = "?y\<lparr>sy_store := s, sy_leases := [l']\<rparr>"
  have "CommitContext Background 2 (sy_leases ?y ! 0) (sy_store ?y) = (Inr (), (l', s))" using c by simp
  from commit_once [OF y _ this, of ?z Background 3 False] have "status_at (sy_store ?z) (cl_record l') = PendingStatusConsumed"
    by (simp add: Let_def)
  moreover have "cont_step ?y ?z"
    using step_finish [of 0 ?y Background 2 True "Inr ()" l' s] c by (simp add: CommitContext_def)
  ultimately have "reachable cont_start cont_step ?y \<and> cont_step\<^sup>*\<^sup>* ?y ?z
      \<and> status_at (sy_store ?z) (cl_record l') = PendingStatusConsumed" using y by blast
  then show ?thesis by blast
qed

text \<open>
  A saved turn can be looked up under each of its call identifiers until its time to live has passed, with
  the calls it was saved with, pending, and under the deadline the store assigned.
\<close>

theorem Save_Lookup:
  assumes "reachable cont_start cont_step y" "SaveContext order ctx now turn (sy_store y) = (Inr (), s)"
    and "callID \<in> set (turn_ids turn)" "later < now + cc_TTL (cs_config (sy_store y))"
  shows "\<exists>t sz u. Lookup order' later callID s = (Inr t, u)
    \<and> normalizePendingTurn turn now (cc_TTL (cs_config (sy_store y))) = Inr (t, sz)"
proof -
  have inv: "store_inv (sy_store y)" using continuation.inv_reachable [OF assms(1)] by (simp add: sys_inv_def)
  define v where "v = cleanupLocked order now (sy_store y)"
  from assms(2) obtain t sz where n: "normalizePendingTurn turn now (cc_TTL (cs_config (sy_store y))) = Inr (t, sz)"
    and s: "s = insert_record t sz v" and nc: "\<not> cs_closed (sy_store y)"
    by (auto simp: SaveContext_def Let_def v_def split: option.splits sum.splits if_splits)
  have sinv: "store_inv s" using SaveContext_inv [OF inv, of order ctx now turn] assms(2) by simp
  let ?a = "length (cs_heap v)"
  have a: "cs_heap s ! ?a = \<lparr>cr_key = hd (turn_ids t), cr_turn = t, cr_bytes = sz, cr_originalExpiry = pt_ExpiresAt t\<rparr>"
    by (simp add: s insert_record_sel)
  have live: "live later s ?a"
    using normalizePendingTurn_ok [OF n] assms(4) by (simp add: live_def in_store_def a) (simp add: s insert_record_sel)
  define w where "w = cleanupLocked order' later s"
  have w: "live later w ?a" "cs_heap w ! ?a = cs_heap s ! ?a" "store_inv w"
    using cleanupLocked_live [OF sinv live, of order'] cleanupLocked_inv [OF sinv] by (simp_all add: w_def)
  have "recordForCallLocked callID later w = (Inr ?a, w)"
    using assms(3) normalizePendingTurn_ok(5) [OF n] w(2) a by (intro recordForCallLocked_live [OF w(3,1)]) simp
  moreover have "\<not> cs_closed s" using nc by (simp add: s insert_record_sel v_def)
  ultimately have "Lookup order' later callID s = (Inr t, w)"
    using w(2) a by (simp add: Lookup_def w_def [symmetric] clonePendingTurn_def)
  with n show ?thesis by blast
qed

lemma sample_start_reachable: "reachable cont_start cont_step \<lparr>sy_store = sample_store, sy_leases = []\<rparr>"
  using sample_store_new by (intro reach_start) (auto simp: cont_start_def)

theorem Save_Lookup_witness: "\<exists>t u. Lookup [] 7 ''c'' saved_store = (Inr t, u)"
proof -
  have "SaveContext [] Background 0 sample_turn (sy_store \<lparr>sy_store = sample_store, sy_leases = []\<rparr>) = (Inr (), saved_store)"
    using sample_save [of "[]"] by (simp add: Save_def)
  from Save_Lookup [OF sample_start_reachable this, of "''c''" 7 "[]"] show ?thesis
    by (auto simp: sample_turn_def sample_store_def DefaultContinuationStoreConfig_def continuation_defaults)
qed

end
