(* ===== verification/Provider_Stream.thy ===== *)
theory Provider_Stream
  imports SSE Custom_Tool Continuation
begin

text \<open>
  \<open>internal/opencodego/stream.go\<close>: the translation of provider chunks into the semantic stream events.
  The decoder reads provider events one at a time; here the provider is a step function on a state of
  its own, an argument of \<open>bridge_Next\<close>, so that every statement holds whatever arrives.

  The tool calls of Go are pointers that only the table \<open>calls\<close> holds, so they are values of the table
  and a change of a call is a store into it. Errors carry the state the code leaves behind.
\<close>

section \<open>Wire types and errors\<close>

record ToolCallFunction =
  tf_Name :: gostring
  tf_Arguments :: gostring

record ToolCall =
  tc_Index :: "int option"
  tc_ID :: gostring
  tc_Type :: gostring
  tc_Function :: ToolCallFunction

record ChatMessage =
  cm_Role :: gostring
  cm_Content :: "gostring option"
  cm_ReasoningContent :: "gostring option"
  cm_ToolCalls :: "ToolCall list"
  cm_ToolCallID :: gostring

record ChatCompletionChunkChoice =
  ch_Index :: int
  ch_FinishReason :: "gostring option"
  ch_Delta :: ChatMessage

record ProviderUsage =
  pu_PromptTokens :: int
  pu_CompletionTokens :: int
  pu_TotalTokens :: int
  pu_PromptCacheHitTokens :: int
  pu_PromptCacheMissTokens :: int
  pu_CachedTokens :: "int option" \<comment> \<open>\<open>PromptTokensDetails.CachedTokens\<close>\<close>
  pu_ReasoningTokens :: "int option" \<comment> \<open>\<open>CompletionTokensDetails.ReasoningTokens\<close>\<close>

record ChatCompletionChunk =
  ck_ID :: gostring
  ck_Choices :: "ChatCompletionChunkChoice list"
  ck_Created :: int
  ck_Model :: gostring
  ck_Object :: gostring
  ck_Usage :: "ProviderUsage option"

datatype ChatCompletionStreamEvent =
    ChunkEvent ChatCompletionChunk
  | ErrorEvent \<comment> \<open>a provider error, whose fields the bridge does not read\<close>
  | DoneEvent

datatype stream_error =
    StreamSSE sse_error \<comment> \<open>end of stream, limits and encoding errors of the SSE decoder, passed on\<close>
  | ErrStreamCanceled | ErrStreamTimeout | ErrStreamInterrupted
  | ErrMalformedStream | ErrDuplicateStreamTerminal | ErrStreamAggregateLimit
  | ErrToolCallArgumentLimit | ErrToolCallLimit | ErrToolCallMetadataLimit | ErrUndeclaredToolCall
  | ErrCustomTool custom_tool_error

definition classifyStreamReadError :: "sse_error \<Rightarrow> stream_error" where
  "classifyStreamReadError err =
     (case err of
        SSEReadError ReadCanceled \<Rightarrow> ErrStreamCanceled
      | SSEReadError ReadDeadlineExceeded \<Rightarrow> ErrStreamTimeout
      | SSEReadError ReadNetTimeout \<Rightarrow> ErrStreamTimeout
      | SSEReadError ReadOther \<Rightarrow> ErrStreamInterrupted
      | e \<Rightarrow> StreamSSE e)"

section \<open>The bridge decoder\<close>

record BridgeStreamDecoderOptions =
  bo_SSE :: SSEDecoderOptions
  bo_AllowedToolNames :: "gostring list"
  bo_MaxToolCalls :: int
  bo_MaxChoices :: int
  bo_MaxToolNameBytes :: int
  bo_MaxProviderCallIDBytes :: int
  bo_MaxOutputBytes :: int
  bo_MaxTextBytes :: int
  bo_MaxReasoningBytes :: int
  bo_ToolRegistry :: "ToolRegistry option"

record providerToolCall =
  pc_key :: ToolCallKey
  pc_callID :: gobytes
  pc_providerCallID :: gobytes
  pc_name :: gobytes
  pc_arguments :: gobytes
  pc_kind :: ToolKind
  pc_registration :: ToolRegistration
  pc_started :: bool
  pc_customCandidate :: bool
  pc_completed :: bool

record BridgeStreamDecoder =
  bd_pending :: "StreamEvent list"
  bd_calls :: "(ToolCallKey, providerToolCall) gomap"
  bd_started :: bool
  bd_terminal :: bool
  bd_finishReason :: gostring
  bd_finishConflict :: bool
  bd_choiceFinishReasons :: "(int, gostring) gomap"
  bd_allowedToolNames :: "gostring list"
  bd_aggregateBytes :: int
  bd_maxAggregateBytes :: int
  bd_maxToolCalls :: int
  bd_maxChoices :: int
  bd_maxToolNameBytes :: int
  bd_maxProviderCallIDBytes :: int
  bd_maxToolCallArgumentBytes :: int
  bd_maxOutputBytes :: int
  bd_maxTextBytes :: int
  bd_maxReasoningBytes :: int
  bd_outputBytes :: int
  bd_textBytes :: int
  bd_reasoningBytes :: int
  bd_toolRegistry :: "ToolRegistry option"
  bd_providerModel :: gostring
  bd_createdAt :: gotime
  bd_assistantContent :: gobytes
  bd_reasoningContent :: gobytes
  bd_finalized :: bool
  bd_toolTurn :: bool

type_synonym 'a bridge_op = "BridgeStreamDecoder \<Rightarrow> (stream_error, 'a, BridgeStreamDecoder) go"

definition allowed_names :: "BridgeStreamDecoderOptions \<Rightarrow> gostring list" where
  "allowed_names options =
     filter (\<lambda>n. n \<noteq> []) (bo_AllowedToolNames options)
     @ filter (\<lambda>n. n \<noteq> []) (map reg_UpstreamName (Registrations (bo_ToolRegistry options)))"

definition NewBridgeStreamDecoder :: "BridgeStreamDecoderOptions \<Rightarrow> BridgeStreamDecoder" where
  "NewBridgeStreamDecoder options =
     (let sse = withDefaults (bo_SSE options) in
      \<lparr>bd_pending = [], bd_calls = [], bd_started = False, bd_terminal = False, bd_finishReason = [],
       bd_finishConflict = False, bd_choiceFinishReasons = [], bd_allowedToolNames = allowed_names options,
       bd_aggregateBytes = 0, bd_maxAggregateBytes = MaxAggregateBytes sse,
       bd_maxToolCalls = positive_or (bo_MaxToolCalls options) DefaultMaxStreamToolCalls,
       bd_maxChoices = positive_or (bo_MaxChoices options) DefaultMaxStreamChoices,
       bd_maxToolNameBytes = positive_or (bo_MaxToolNameBytes options) DefaultMaxToolNameBytes,
       bd_maxProviderCallIDBytes = positive_or (bo_MaxProviderCallIDBytes options) DefaultMaxProviderCallIDBytes,
       bd_maxToolCallArgumentBytes = MaxToolCallArgumentBytes sse,
       bd_maxOutputBytes = positive_or (bo_MaxOutputBytes options) DefaultMaxOutputBytes,
       bd_maxTextBytes = positive_or (bo_MaxTextBytes options) DefaultMaxTextBytes,
       bd_maxReasoningBytes = positive_or (bo_MaxReasoningBytes options) DefaultMaxReasoningBytes,
       bd_outputBytes = 0, bd_textBytes = 0, bd_reasoningBytes = 0, bd_toolRegistry = bo_ToolRegistry options,
       bd_providerModel = [], bd_createdAt = zero_time, bd_assistantContent = [], bd_reasoningContent = [],
       bd_finalized = False, bd_toolTurn = False\<rparr>)"

section \<open>Budgets and identifiers\<close>

definition reserveAggregateBytes :: "int \<Rightarrow> unit bridge_op" where
  "reserveAggregateBytes bytes d =
     (if bytes < 0 \<or> bd_aggregateBytes d > bd_maxAggregateBytes d - bytes then (Inl ErrStreamAggregateLimit, d)
      else (Inr (), d\<lparr>bd_aggregateBytes := bd_aggregateBytes d + bytes\<rparr>))"

interpretation stream_budget: byte_budget reserveAggregateBytes bd_aggregateBytes bd_maxAggregateBytes
  by unfold_locales (auto simp: reserveAggregateBytes_def split: if_splits)

definition bridgeStreamEventOverhead :: int where "bridgeStreamEventOverhead = 64"

definition queue :: "StreamEvent \<Rightarrow> int \<Rightarrow> unit bridge_op" where
  "queue event payloadBytes d =
     (if payloadBytes < 0 \<or> bridgeStreamEventOverhead > bd_maxAggregateBytes d
         \<or> payloadBytes > bd_maxAggregateBytes d - bridgeStreamEventOverhead
         \<or> bd_aggregateBytes d > bd_maxAggregateBytes d - (bridgeStreamEventOverhead + payloadBytes)
      then (Inl ErrStreamAggregateLimit, d)
      else (Inr (), d\<lparr>bd_aggregateBytes := bd_aggregateBytes d + (bridgeStreamEventOverhead + payloadBytes),
                     bd_pending := bd_pending d @ [event]\<rparr>))"

definition appendProviderCallID :: "gobytes \<Rightarrow> gostring \<Rightarrow> gobytes" where
  "appendProviderCallID existing fragment =
     (if fragment = [] then existing
      else if existing = [] then existing @ fragment
      else if existing = fragment then existing
      else if HasPrefix fragment existing then fragment
      else existing @ fragment)"

definition providerCallIDGrowth :: "gobytes \<Rightarrow> gostring \<Rightarrow> int" where
  "providerCallIDGrowth existing fragment =
     (if fragment = [] then 0
      else if existing = [] then len fragment
      else if existing = fragment then 0
      else if HasPrefix fragment existing then len fragment - len existing
      else len fragment)"

definition syntheticToolCallID :: "ToolCallKey \<Rightarrow> gostring" where
  "syntheticToolCallID key = ''call_'' @ itoa (ChoiceIndex key) @ ''_'' @ itoa (ToolIndex key)"

definition customNameCandidate :: "BridgeStreamDecoder \<Rightarrow> gostring \<Rightarrow> bool" where
  "customNameCandidate d name =
     (if name = [] \<or> HasPrefix name ReservedToolNamePrefix then name \<noteq> []
      else case bd_toolRegistry d of
          None \<Rightarrow> False
        | Some _ \<Rightarrow> list_ex (\<lambda>r. reg_Kind r = ToolCustom \<and> HasPrefix (reg_UpstreamName r) name)
                      (Registrations (bd_toolRegistry d)))"

definition validateToolNamePrefix :: "BridgeStreamDecoder \<Rightarrow> gostring \<Rightarrow> stream_error option" where
  "validateToolNamePrefix d name =
     (if name = [] then None
      else if name \<in> set (bd_allowedToolNames d) then None
      else if list_ex (\<lambda>a. HasPrefix a name) (bd_allowedToolNames d) then None
      else Some ErrUndeclaredToolCall)"

section \<open>Tool calls\<close>

definition zero_registration :: ToolRegistration where
  "zero_registration = \<lparr>reg_Kind = [], reg_InboundName = [], reg_UpstreamName = [], reg_WrapperField = []\<rparr>"

definition new_call :: "ToolCallKey \<Rightarrow> gostring \<Rightarrow> providerToolCall" where
  "new_call key callID =
     \<lparr>pc_key = key, pc_callID = callID, pc_providerCallID = [], pc_name = [], pc_arguments = [], pc_kind = [],
      pc_registration = zero_registration, pc_started = False, pc_customCandidate = False, pc_completed = False\<rparr>"

definition put_call :: "providerToolCall \<Rightarrow> BridgeStreamDecoder \<Rightarrow> BridgeStreamDecoder" where
  "put_call c d = d\<lparr>bd_calls := map_put (pc_key c) c (bd_calls d)\<rparr>"

definition call_for :: "ToolCallKey \<Rightarrow> ToolCall \<Rightarrow> providerToolCall bridge_op" where
  "call_for key tool d =
     (case map_of (bd_calls d) key of
        Some state \<Rightarrow> (Inr state, d)
      | None \<Rightarrow>
          if len (bd_calls d) \<ge> bd_maxToolCalls d then (Inl ErrToolCallLimit, d)
          else if len (tc_ID tool) > bd_maxProviderCallIDBytes d
            \<or> len (tf_Name (tc_Function tool)) > bd_maxToolNameBytes d then (Inl ErrToolCallMetadataLimit, d)
          else
            let state = new_call key (if tc_ID tool = [] then syntheticToolCallID key else tc_ID tool)
            in (Inr state, put_call state d))"

definition grow_provider_id :: "ToolCall \<Rightarrow> providerToolCall \<Rightarrow> providerToolCall bridge_op" where
  "grow_provider_id tool state d =
     (if tc_ID tool = [] then (Inr state, d)
      else
        let growth = providerCallIDGrowth (pc_providerCallID state) (tc_ID tool) in
        if growth > bd_maxProviderCallIDBytes d - len (pc_providerCallID state) then (Inl ErrToolCallMetadataLimit, d)
        else go_bind (reserveAggregateBytes growth d)
          (\<lambda>_ d. let state = state\<lparr>pc_providerCallID := appendProviderCallID (pc_providerCallID state) (tc_ID tool)\<rparr>
                 in (Inr state, put_call state d)))"

definition grow_arguments :: "ToolCall \<Rightarrow> providerToolCall \<Rightarrow> unit bridge_op" where
  "grow_arguments tool state d =
     (let arguments = tf_Arguments (tc_Function tool) in
      if len arguments > bd_maxToolCallArgumentBytes d - len (pc_arguments state) then (Inl ErrToolCallArgumentLimit, d)
      else if len arguments > bd_maxOutputBytes d - bd_outputBytes d then (Inl ErrStreamAggregateLimit, d)
      else go_bind (reserveAggregateBytes (len arguments) d)
        (\<lambda>_ d. (Inr (), (put_call (state\<lparr>pc_arguments := pc_arguments state @ arguments\<rparr>) d)
                 \<lparr>bd_outputBytes := bd_outputBytes d + len arguments\<rparr>)))"

definition append_name :: "ToolCall \<Rightarrow> providerToolCall \<Rightarrow> unit bridge_op" where
  "append_name tool state d =
     (let state = state\<lparr>pc_name := pc_name state @ tf_Name (tc_Function tool)\<rparr>;
          state = (if customNameCandidate d (pc_name state) then state\<lparr>pc_customCandidate := True\<rparr> else state)
      in grow_arguments tool state (put_call state d))"

definition extend_call :: "ToolCall \<Rightarrow> providerToolCall \<Rightarrow> unit bridge_op" where
  "extend_call tool state d =
     (if len (tf_Name (tc_Function tool)) > bd_maxToolNameBytes d - len (pc_name state) then (Inl ErrToolCallMetadataLimit, d)
      else case validateToolNamePrefix d (pc_name state @ tf_Name (tc_Function tool)) of
          Some e \<Rightarrow> (Inl e, d)
        | None \<Rightarrow> go_bind (grow_provider_id tool state d) (append_name tool))"

definition consumeToolCall :: "int \<Rightarrow> ToolCall \<Rightarrow> unit bridge_op" where
  "consumeToolCall choiceIndex tool d =
     (case tc_Index tool of
        None \<Rightarrow> (Inl ErrMalformedStream, d)
      | Some toolIndex \<Rightarrow>
          if toolIndex < 0 then (Inl ErrMalformedStream, d)
          else if tc_Type tool \<noteq> [] \<and> tc_Type tool \<noteq> ''function'' then (Inl ErrMalformedStream, d)
          else if toolIndex \<ge> bd_maxToolCalls d then (Inl ErrToolCallLimit, d)
          else go_bind (call_for (ToolCallKey choiceIndex toolIndex) tool d) (extend_call tool))"

section \<open>Chunks\<close>

text \<open>\<open>validateChunkToolBounds\<close>: a pass over the chunk that changes nothing; it counts the new calls.\<close>

fun validate_tools :: "BridgeStreamDecoder \<Rightarrow> int \<Rightarrow> int list \<Rightarrow> ToolCall list \<Rightarrow> int \<Rightarrow> stream_error + int" where
  "validate_tools d choice seen [] newCalls = Inr newCalls"
| "validate_tools d choice seen (tool # tools) newCalls =
     (case tc_Index tool of
        None \<Rightarrow> Inl ErrMalformedStream
      | Some toolIndex \<Rightarrow>
          if toolIndex < 0 then Inl ErrMalformedStream
          else if tc_Type tool \<noteq> [] \<and> tc_Type tool \<noteq> ''function'' then Inl ErrMalformedStream
          else if toolIndex \<ge> bd_maxToolCalls d then Inl ErrToolCallLimit
          else if toolIndex \<in> set seen then Inl ErrMalformedStream
          else
            let key = ToolCallKey choice toolIndex in
            case map_of (bd_calls d) key of
              Some state \<Rightarrow>
                if len (tf_Name (tc_Function tool)) > bd_maxToolNameBytes d - len (pc_name state)
                then Inl ErrToolCallMetadataLimit
                else if providerCallIDGrowth (pc_providerCallID state) (tc_ID tool)
                    > bd_maxProviderCallIDBytes d - len (pc_providerCallID state) then Inl ErrToolCallMetadataLimit
                else validate_tools d choice (toolIndex # seen) tools newCalls
            | None \<Rightarrow>
                let callID = (if tc_ID tool = [] then syntheticToolCallID key else tc_ID tool) in
                if len callID > bd_maxProviderCallIDBytes d \<or> len (tc_ID tool) > bd_maxProviderCallIDBytes d
                  \<or> len (tf_Name (tc_Function tool)) > bd_maxToolNameBytes d then Inl ErrToolCallMetadataLimit
                else validate_tools d choice (toolIndex # seen) tools (newCalls + 1))"

fun validate_choices :: "BridgeStreamDecoder \<Rightarrow> int list \<Rightarrow> ChatCompletionChunkChoice list \<Rightarrow> int \<Rightarrow> stream_error + int" where
  "validate_choices d seen [] newCalls = Inr newCalls"
| "validate_choices d seen (choice # choices) newCalls =
     (if ch_Index choice < 0 then Inl ErrMalformedStream
      else if ch_Index choice \<ge> bd_maxChoices d then Inl ErrToolCallLimit
      else if ch_Index choice \<in> set seen then Inl ErrMalformedStream
      else if len (cm_ToolCalls (ch_Delta choice)) > bd_maxToolCalls d then Inl ErrToolCallLimit
      else case validate_tools d (ch_Index choice) [] (cm_ToolCalls (ch_Delta choice)) newCalls of
          Inl e \<Rightarrow> Inl e
        | Inr newCalls \<Rightarrow> validate_choices d (ch_Index choice # seen) choices newCalls)"

definition validateChunkToolBounds :: "BridgeStreamDecoder \<Rightarrow> ChatCompletionChunk \<Rightarrow> stream_error option" where
  "validateChunkToolBounds d chunk =
     (if len (ck_Choices chunk) > bd_maxChoices d then Some ErrToolCallLimit
      else case validate_choices d [] (ck_Choices chunk) 0 of
          Inl e \<Rightarrow> Some e
        | Inr newCalls \<Rightarrow> if newCalls > bd_maxToolCalls d - len (bd_calls d) then Some ErrToolCallLimit else None)"

definition recordFinishReason :: "gostring \<Rightarrow> BridgeStreamDecoder \<Rightarrow> BridgeStreamDecoder" where
  "recordFinishReason reason d =
     (if bd_finishReason d = [] then d\<lparr>bd_finishReason := reason\<rparr>
      else if bd_finishReason d \<noteq> reason then d\<lparr>bd_finishConflict := True\<rparr>
      else d)"

text \<open>An absent string and an empty one are treated alike.\<close>

definition or_empty :: "gostring option \<Rightarrow> gostring" where
  "or_empty s = (case s of None \<Rightarrow> [] | Some x \<Rightarrow> x)"

text \<open>What may still arrive for a choice that has reported its finish reason.\<close>

definition after_finish_ok :: "BridgeStreamDecoder \<Rightarrow> ChatCompletionChunkChoice \<Rightarrow> gostring \<Rightarrow> bool" where
  "after_finish_ok d choice previous \<longleftrightarrow>
     (or_empty (ch_FinishReason choice) = [] \<or> or_empty (ch_FinishReason choice) = previous)
     \<and> previous = ''tool_calls''
     \<and> or_empty (cm_Content (ch_Delta choice)) = [] \<and> or_empty (cm_ReasoningContent (ch_Delta choice)) = []
     \<and> list_all (\<lambda>tool. case tc_Index tool of
          None \<Rightarrow> False
        | Some i \<Rightarrow> \<not> i < 0 \<and> map_of (bd_calls d) (ToolCallKey (ch_Index choice) i) \<noteq> None)
        (cm_ToolCalls (ch_Delta choice))"

definition consume_text :: "int \<Rightarrow> gostring \<Rightarrow> unit bridge_op" where
  "consume_text index content d =
     (if content = [] then (Inr (), d)
      else if len content > bd_maxTextBytes d - bd_textBytes d \<or> len content > bd_maxOutputBytes d - bd_outputBytes d
      then (Inl ErrStreamAggregateLimit, d)
      else go_bind (queue (TextDelta index content) (len content) d)
        (\<lambda>_ d. (Inr (), d\<lparr>bd_assistantContent := bd_assistantContent d @ content,
                          bd_textBytes := bd_textBytes d + len content,
                          bd_outputBytes := bd_outputBytes d + len content\<rparr>)))"

definition consume_reasoning :: "int \<Rightarrow> gostring \<Rightarrow> unit bridge_op" where
  "consume_reasoning index content d =
     (if content = [] then (Inr (), d)
      else if len content > bd_maxReasoningBytes d - bd_reasoningBytes d then (Inl ErrStreamAggregateLimit, d)
      else go_bind (queue (ReasoningDelta index content) (len content) d)
        (\<lambda>_ d. (Inr (), d\<lparr>bd_reasoningContent := bd_reasoningContent d @ content,
                          bd_reasoningBytes := bd_reasoningBytes d + len content\<rparr>)))"

fun consume_tools :: "int \<Rightarrow> int list \<Rightarrow> ToolCall list \<Rightarrow> unit bridge_op" where
  "consume_tools choice seen [] d = (Inr (), d)"
| "consume_tools choice seen (tool # tools) d =
     (case tc_Index tool of
        None \<Rightarrow> (Inl ErrMalformedStream, d)
      | Some i \<Rightarrow>
          if i < 0 then (Inl ErrMalformedStream, d)
          else if i \<in> set seen then (Inl ErrMalformedStream, d)
          else go_bind (consumeToolCall choice tool d) (\<lambda>_. consume_tools choice (i # seen) tools))"

definition consume_delta :: "ChatCompletionChunkChoice \<Rightarrow> unit bridge_op" where
  "consume_delta choice d =
     go_bind (consume_text (ch_Index choice) (or_empty (cm_Content (ch_Delta choice))) d)
       (\<lambda>_ d. go_bind (consume_reasoning (ch_Index choice) (or_empty (cm_ReasoningContent (ch_Delta choice))) d)
         (\<lambda>_. consume_tools (ch_Index choice) [] (cm_ToolCalls (ch_Delta choice))))"

definition consume_choice :: "ChatCompletionChunkChoice \<Rightarrow> unit bridge_op" where
  "consume_choice choice d =
     (let finishReason = or_empty (ch_FinishReason choice) in
      if (case map_of (bd_choiceFinishReasons d) (ch_Index choice) of
            Some previous \<Rightarrow> \<not> after_finish_ok d choice previous | None \<Rightarrow> False)
      then (Inl ErrMalformedStream, d)
      else
        go_bind (consume_delta choice (if finishReason \<noteq> [] then recordFinishReason finishReason d else d))
          (\<lambda>_ d. (Inr (), if finishReason \<noteq> []
             then d\<lparr>bd_choiceFinishReasons := map_put (ch_Index choice) finishReason (bd_choiceFinishReasons d)\<rparr>
             else d)))"

fun consume_choices :: "int list \<Rightarrow> ChatCompletionChunkChoice list \<Rightarrow> unit bridge_op" where
  "consume_choices seen [] d = (Inr (), d)"
| "consume_choices seen (choice # choices) d =
     (if ch_Index choice < 0 then (Inl ErrMalformedStream, d)
      else if ch_Index choice \<ge> bd_maxChoices d then (Inl ErrToolCallLimit, d)
      else if ch_Index choice \<in> set seen then (Inl ErrMalformedStream, d)
      else go_bind (consume_choice choice d) (\<lambda>_. consume_choices (ch_Index choice # seen) choices))"

definition start_response :: "ChatCompletionChunk \<Rightarrow> unit bridge_op" where
  "start_response chunk d =
     (if bd_started d then (Inr (), d)
      else
        let createdAt = (if ck_Created chunk \<noteq> 0 then time_Unix (ck_Created chunk) else zero_time) in
        go_bind (queue (ResponseStarted (ck_ID chunk) createdAt (ck_Model chunk)) (len (ck_ID chunk) + len (ck_Model chunk))
                  (d\<lparr>bd_started := True\<rparr>))
          (\<lambda>_ d. (Inr (), d\<lparr>bd_providerModel := ck_Model chunk, bd_createdAt := createdAt\<rparr>)))"

definition note_metadata :: "ChatCompletionChunk \<Rightarrow> BridgeStreamDecoder \<Rightarrow> BridgeStreamDecoder" where
  "note_metadata chunk d =
     (let d = (if bd_providerModel d = [] \<and> ck_Model chunk \<noteq> [] then d\<lparr>bd_providerModel := ck_Model chunk\<rparr> else d)
      in if bd_createdAt d = zero_time \<and> ck_Created chunk \<noteq> 0 then d\<lparr>bd_createdAt := time_Unix (ck_Created chunk)\<rparr> else d)"

definition bridge_usage :: "ProviderUsage \<Rightarrow> Usage" where
  "bridge_usage u =
     \<lparr>us_PromptTokens = pu_PromptTokens u, us_CompletionTokens = pu_CompletionTokens u,
      us_TotalTokens = pu_TotalTokens u,
      us_PromptCacheHitTokens = (case pu_CachedTokens u of Some n \<Rightarrow> n | None \<Rightarrow> pu_PromptCacheHitTokens u),
      us_PromptCacheMissTokens = pu_PromptCacheMissTokens u,
      us_ReasoningTokens = (case pu_ReasoningTokens u of Some n \<Rightarrow> n | None \<Rightarrow> 0)\<rparr>"

definition consume_body :: "ChatCompletionChunk \<Rightarrow> unit bridge_op" where
  "consume_body chunk d =
     go_bind (consume_choices [] (ck_Choices chunk) (note_metadata chunk d))
       (\<lambda>_ d. case ck_Usage chunk of
            None \<Rightarrow> (Inr (), d)
          | Some u \<Rightarrow> queue (UsageUpdated (bridge_usage u)) 0 d)"

definition consumeChunk :: "ChatCompletionChunk \<Rightarrow> unit bridge_op" where
  "consumeChunk chunk d =
     (case validateChunkToolBounds d chunk of
        Some e \<Rightarrow> (Inl e, d)
      | None \<Rightarrow> go_bind (start_response chunk d) (\<lambda>_. consume_body chunk))"

section \<open>The terminal boundary\<close>

definition ensureToolStarted :: "providerToolCall \<Rightarrow> unit bridge_op" where
  "ensureToolStarted state d =
     (if pc_started state then (Inr (), d)
      else
        let name = pc_name state in
        if name = [] then (Inr (), d)
        else if name \<notin> set (bd_allowedToolNames d) then (Inr (), d)
        else
          let (kind, publicName, state) =
                (case customToolRegistration (bd_toolRegistry d) name of
                   Some r \<Rightarrow> (reg_Kind r, reg_InboundName r, state\<lparr>pc_registration := r\<rparr>)
                 | None \<Rightarrow> (ToolFunction, name, state));
              state = state\<lparr>pc_kind := kind\<rparr>
          in go_bind (queue (ToolCallStarted (pc_key state) kind (pc_callID state) publicName)
                        (len (pc_callID state) + len publicName) (put_call state d))
            (\<lambda>_ d.
               let state = state\<lparr>pc_started := True\<rparr>; d = put_call state d in
               if kind \<noteq> ToolCustom \<and> pc_arguments state \<noteq> []
               then queue (ToolCallArgumentsDelta (pc_key state) (pc_arguments state)) 0 d
               else (Inr (), d)))"

text \<open>Insertion sort by \<open>toolKeyLess\<close>; the keys of a map are distinct, so this is the sorted list of keys.\<close>

definition sortedToolKeys :: "(ToolCallKey, 'v) gomap \<Rightarrow> ToolCallKey list" where
  "sortedToolKeys calls = sort (map_keys calls)"

definition start_call :: "ToolCallKey \<Rightarrow> unit bridge_op" where
  "start_call key d =
     (case map_of (bd_calls d) key of
        None \<Rightarrow> (Inr (), d)
      | Some state \<Rightarrow>
          if pc_completed state then (Inr (), d)
          else go_bind (ensureToolStarted state d)
            (\<lambda>_ d. if pc_name state = [] then (Inl ErrMalformedStream, d)
                   else if pc_name state \<notin> set (bd_allowedToolNames d) then (Inl ErrUndeclaredToolCall, d)
                   else (Inr (), d)))"

definition complete_call :: "providerToolCall \<Rightarrow> unit bridge_op" where
  "complete_call state d =
     (let state = state\<lparr>pc_completed := True\<rparr>; d = put_call state d in
      if pc_kind state = ToolCustom then
        (case unwrapApplyPatchArguments (pc_arguments state) of
           Inl e \<Rightarrow> (Inl (ErrCustomTool e), d)
         | Inr input \<Rightarrow>
             go_bind (queue (ToolCallArgumentsDelta (pc_key state) input) 0 d)
               (\<lambda>_. queue (ToolCallCompleted (pc_key state) ToolCustom (pc_callID state)
                       (reg_InboundName (pc_registration state)) input)
                     (len (pc_callID state) + len (reg_InboundName (pc_registration state)))))
      else
        queue (ToolCallCompleted (pc_key state) ToolFunction (pc_callID state) (pc_name state) (pc_arguments state))
          (len (pc_callID state) + len (pc_name state)) d)"

fun complete_calls :: "gostring list \<Rightarrow> ToolCallKey list \<Rightarrow> unit bridge_op" where
  "complete_calls callIDs [] d = (Inr (), d)"
| "complete_calls callIDs (key # keys) d =
     (case map_of (bd_calls d) key of
        None \<Rightarrow> complete_calls callIDs keys d
      | Some state \<Rightarrow>
          if pc_completed state then complete_calls callIDs keys d
          else if pc_callID state \<in> set callIDs \<and> pc_callID state \<noteq> [] then (Inl ErrMalformedStream, d)
          else
            let callIDs = (if pc_callID state \<noteq> [] then pc_callID state # callIDs else callIDs)
            in go_bind (complete_call state d) (\<lambda>_. complete_calls callIDs keys))"

definition finishToolCalls :: "unit bridge_op" where
  "finishToolCalls d =
     go_bind (go_for start_call (sortedToolKeys (bd_calls d)) d)
       (\<lambda>_ d. go_bind (complete_calls [] (sortedToolKeys (bd_calls d)) d)
         (\<lambda>_ d. let d = d\<lparr>bd_finalized := True, bd_toolTurn := bd_calls d \<noteq> []\<rparr>
                in queue (Completed (bd_finishReason d)) 0 d))"

definition terminal_failure :: "gostring \<Rightarrow> StreamEvent" where
  "terminal_failure msg = Failed ''upstream_terminal_error'' msg"

definition finish :: "unit bridge_op" where
  "finish d =
     (if bd_finishConflict d \<or> bd_finishReason d = [] then
        queue (terminal_failure ''upstream stream reported inconsistent terminal state'') 0 d
      else if bd_finishReason d = ''tool_calls'' then finishToolCalls d
      else if bd_finishReason d = ''stop'' then
        (if bd_calls d \<noteq> [] then
           queue (terminal_failure ''upstream stream ended before tool calls were complete'') 0 d
         else queue (Completed (bd_finishReason d)) 0 (d\<lparr>bd_finalized := True\<rparr>))
      else if bd_finishReason d = ''length'' then queue (Incomplete ''max_output_tokens'') 0 d
      else if bd_finishReason d = ''content_filter'' \<or> bd_finishReason d = ''refusal'' then queue (Incomplete ''other'') 0 d
      else queue (terminal_failure ''upstream stream reported an unsupported terminal reason'') 0 d)"

definition bridgeFailure :: "stream_error \<Rightarrow> StreamEvent" where
  "bridgeFailure err =
     (case err of
        ErrStreamAggregateLimit \<Rightarrow> Failed ''stream_limit_exceeded'' ''The upstream stream exceeded its limit.''
      | ErrToolCallArgumentLimit \<Rightarrow> Failed ''stream_limit_exceeded'' ''The upstream stream exceeded its limit.''
      | ErrToolCallLimit \<Rightarrow> Failed ''stream_limit_exceeded'' ''The upstream stream exceeded its limit.''
      | ErrToolCallMetadataLimit \<Rightarrow> Failed ''stream_limit_exceeded'' ''The upstream stream exceeded its limit.''
      | ErrStreamCanceled \<Rightarrow> Failed ''canceled'' ''The upstream response stream was canceled.''
      | ErrStreamTimeout \<Rightarrow> Failed ''timeout'' ''The upstream response stream timed out.''
      | ErrStreamInterrupted \<Rightarrow> Failed ''stream_interrupted'' ''The upstream response stream was interrupted.''
      | ErrUndeclaredToolCall \<Rightarrow>
          Failed ''upstream_tool_not_declared'' ''The upstream provider returned an undeclared function tool.''
      | ErrCustomTool e \<Rightarrow> Failed (customToolErrorCode e) (customToolErrorMessage e)
      | _ \<Rightarrow> Failed ''upstream_stream_error'' ''upstream stream could not be decoded'')"

section \<open>The finished turn\<close>

text \<open>
  \<open>ProviderCallID\<close> ranges over the map of calls in the order Go happens to take, which is the first
  argument.
\<close>

fun ProviderCallID :: "providerToolCall list \<Rightarrow> gostring \<Rightarrow> gostring option" where
  "ProviderCallID [] callID = None"
| "ProviderCallID (state # states) callID =
     (if callID = [] then None
      else if pc_callID state = callID \<and> pc_providerCallID state \<noteq> [] then Some (pc_providerCallID state)
      else ProviderCallID states callID)"

definition upstream_call :: "providerToolCall \<Rightarrow> UpstreamToolCall" where
  "upstream_call state =
     \<lparr>uc_CallID = pc_callID state,
      uc_ProviderCallID = (if pc_providerCallID state = [] then pc_callID state else pc_providerCallID state),
      uc_Kind = pc_kind state,
      uc_Name = (if pc_kind state = ToolCustom then reg_UpstreamName (pc_registration state) else pc_name state),
      uc_Arguments = pc_arguments state, uc_Registration = pc_registration state\<rparr>"

definition call_pending :: "providerToolCall \<Rightarrow> bool" where
  "call_pending state \<longleftrightarrow> pc_completed state \<and> pc_started state
     \<and> \<not> (pc_kind state = ToolCustom \<and> reg_UpstreamName (pc_registration state) = [])"

definition turn_registrations :: "providerToolCall list \<Rightarrow> (gostring, ToolRegistration) gomap" where
  "turn_registrations states =
     fold (\<lambda>state m. if pc_kind state = ToolCustom then map_put (reg_InboundName (pc_registration state)) (pc_registration state) m else m)
       states []"

text \<open>The calls in the order of their keys; each key comes from the map, so it is found.\<close>

definition sorted_calls :: "BridgeStreamDecoder \<Rightarrow> providerToolCall list" where
  "sorted_calls d = map (\<lambda>k. the (map_of (bd_calls d) k)) (sortedToolKeys (bd_calls d))"

definition bridge_PendingTurn :: "BridgeStreamDecoder \<Rightarrow> PendingTurn option" where
  "bridge_PendingTurn d =
     (let states = sorted_calls d in
      if \<not> bd_finalized d \<or> \<not> bd_toolTurn d then None
      else if \<not> list_all call_pending states then None
      else Some
        \<lparr>pt_Provider = ProviderName, pt_Model = bd_providerModel d, pt_ReasoningContent = bd_reasoningContent d,
         pt_AssistantContent = bd_assistantContent d, pt_ToolCalls = map upstream_call states,
         pt_ToolRegistrations = sort_key reg_InboundName (map snd (turn_registrations states)),
         pt_CallIDs = map pc_callID states, pt_CreatedAt = bd_createdAt d, pt_ExpiresAt = zero_time,
         pt_SizeBytes = 0, pt_Status = []\<rparr>)"

section \<open>Progress\<close>

text \<open>
  How an operation may move the decoder: limits and the terminal flag stay, events are only appended,
  each of a given sort, every appended event has been charged at least its overhead, and what is retained
  of the assistant's text and reasoning is what the appended events tell.
\<close>

fun event_text :: "StreamEvent \<Rightarrow> gostring" where
  "event_text (TextDelta _ t) = t"
| "event_text _ = []"

fun event_reasoning :: "StreamEvent \<Rightarrow> gostring" where
  "event_reasoning (ReasoningDelta _ t) = t"
| "event_reasoning _ = []"

definition texts :: "StreamEvent list \<Rightarrow> gostring" where
  "texts es = concat (map event_text es)"

definition reasonings :: "StreamEvent list \<Rightarrow> gostring" where
  "reasonings es = concat (map event_reasoning es)"

lemma texts_simps [simp]:
  "texts [] = []" "texts (e # es) = event_text e @ texts es" "texts (es @ fs) = texts es @ texts fs"
  "reasonings [] = []" "reasonings (e # es) = event_reasoning e @ reasonings es"
  "reasonings (es @ fs) = reasonings es @ reasonings fs"
  by (simp_all add: texts_def reasonings_def)

definition bd_limits :: "BridgeStreamDecoder \<Rightarrow> _" where
  "bd_limits d = (bd_maxAggregateBytes d, bd_maxToolCalls d, bd_maxChoices d, bd_maxToolNameBytes d,
     bd_maxProviderCallIDBytes d, bd_maxToolCallArgumentBytes d, bd_maxOutputBytes d, bd_maxTextBytes d,
     bd_maxReasoningBytes d, bd_toolRegistry d, bd_allowedToolNames d)"

definition advances :: "(StreamEvent \<Rightarrow> bool) \<Rightarrow> BridgeStreamDecoder \<Rightarrow> BridgeStreamDecoder \<Rightarrow> bool" where
  "advances K d e \<longleftrightarrow> bd_limits e = bd_limits d \<and> bd_terminal e = bd_terminal d \<and> (bd_started d \<longrightarrow> bd_started e)
     \<and> (bd_aggregateBytes e = bd_aggregateBytes d \<or> bd_aggregateBytes e \<le> bd_maxAggregateBytes e)
     \<and> (\<exists>es. bd_pending e = bd_pending d @ es \<and> list_all K es \<and> bd_aggregateBytes d + 64 * len es \<le> bd_aggregateBytes e
           \<and> bd_assistantContent e = bd_assistantContent d @ texts es
           \<and> bd_reasoningContent e = bd_reasoningContent d @ reasonings es)"

lemma advances_refl [simp]: "advances K d d"
  by (simp add: advances_def)

lemma advances_trans:
  assumes "advances K d e" "advances K e f"
  shows "advances K d f"
proof -
  from assms obtain xs ys where "bd_pending e = bd_pending d @ xs" "list_all K xs" "bd_aggregateBytes d + 64 * len xs \<le> bd_aggregateBytes e"
    "bd_pending f = bd_pending e @ ys" "list_all K ys" "bd_aggregateBytes e + 64 * len ys \<le> bd_aggregateBytes f"
    "bd_assistantContent f = bd_assistantContent d @ texts (xs @ ys)" "bd_reasoningContent f = bd_reasoningContent d @ reasonings (xs @ ys)"
    by (auto simp: advances_def)
  then have "bd_pending f = bd_pending d @ (xs @ ys) \<and> list_all K (xs @ ys) \<and> bd_aggregateBytes d + 64 * len (xs @ ys) \<le> bd_aggregateBytes f
      \<and> bd_assistantContent f = bd_assistantContent d @ texts (xs @ ys) \<and> bd_reasoningContent f = bd_reasoningContent d @ reasonings (xs @ ys)"
    by simp
  moreover have "bd_aggregateBytes f = bd_aggregateBytes d \<or> bd_aggregateBytes f \<le> bd_maxAggregateBytes f"
    "bd_limits f = bd_limits d" "bd_terminal f = bd_terminal d" "bd_started d \<longrightarrow> bd_started f"
    using assms by (auto simp: advances_def bd_limits_def)
  ultimately show ?thesis unfolding advances_def by blast
qed

lemma advances_same:
  "bd_limits e = bd_limits d \<Longrightarrow> bd_terminal e = bd_terminal d \<Longrightarrow> bd_started d \<longrightarrow> bd_started e \<Longrightarrow> bd_pending e = bd_pending d \<Longrightarrow>
     bd_aggregateBytes e = bd_aggregateBytes d \<Longrightarrow> bd_assistantContent e = bd_assistantContent d \<Longrightarrow>
     bd_reasoningContent e = bd_reasoningContent d \<Longrightarrow> advances K d e"
  by (simp add: advances_def)

lemma advances_mono: "advances K d e \<Longrightarrow> (\<And>x. K x \<Longrightarrow> L x) \<Longrightarrow> advances L d e"
  by (force simp: advances_def list_all_iff)

lemma advances_bind:
  assumes "advances K d (snd m)" "\<And>x e. m = (Inr x, e) \<Longrightarrow> advances K e (snd (f x e))"
  shows "advances K d (snd (go_bind m f))"
  using assms by (cases m; cases "fst m") (auto intro: advances_trans)

lemma reserve_advances: "advances K d (snd (reserveAggregateBytes n d))"
  by (auto simp: reserveAggregateBytes_def advances_def bd_limits_def)

definition silent :: "StreamEvent \<Rightarrow> bool" where
  "silent ev \<longleftrightarrow> event_text ev = [] \<and> event_reasoning ev = []"

lemma silent_events [simp]:
  "tool_event ev \<Longrightarrow> silent ev" "terminal_event ev \<Longrightarrow> silent ev" "silent (UsageUpdated u)" "silent (ResponseStarted i t m)"
  by (cases ev; simp add: silent_def)+

lemma queue_advances: "K ev \<Longrightarrow> silent ev \<Longrightarrow> advances K d (snd (queue ev n d))"
  by (auto simp: queue_def advances_def bd_limits_def bridgeStreamEventOverhead_def silent_def)

lemma put_call_advances: "advances K d (put_call c d)"
  by (rule advances_same) (simp_all add: put_call_def bd_limits_def)

lemma call_for_advances: "advances K d (snd (call_for key tool d))"
  by (auto simp: call_for_def Let_def intro: put_call_advances split: option.splits)

lemma grow_provider_id_advances: "advances K d (snd (grow_provider_id tool state d))"
  unfolding grow_provider_id_def Let_def
  by (auto intro!: advances_bind reserve_advances put_call_advances)

lemma grow_arguments_advances: "advances K d (snd (grow_arguments tool state d))"
proof -
  have "advances K d ((put_call c d)\<lparr>bd_outputBytes := n\<rparr>)" for c n and d :: BridgeStreamDecoder
    by (rule advances_same) (simp_all add: put_call_def bd_limits_def)
  then show ?thesis unfolding grow_arguments_def Let_def by (auto intro!: advances_bind reserve_advances)
qed

lemma extend_call_advances: "advances K d (snd (extend_call tool state d))"
  unfolding extend_call_def append_name_def Let_def
  by (auto intro!: advances_bind grow_provider_id_advances
      advances_trans [OF put_call_advances grow_arguments_advances] split: option.splits)

lemma consumeToolCall_advances: "advances K d (snd (consumeToolCall ci tool d))"
  unfolding consumeToolCall_def
  by (auto intro!: advances_bind call_for_advances extend_call_advances split: option.splits)

text \<open>The events a chunk gives after the first one of the response.\<close>

fun chunk_event :: "StreamEvent \<Rightarrow> bool" where
  "chunk_event (TextDelta _ _) = True"
| "chunk_event (ReasoningDelta _ _) = True"
| "chunk_event (UsageUpdated _) = True"
| "chunk_event _ = False"

fun opening_event :: "StreamEvent \<Rightarrow> bool" where
  "opening_event (ResponseStarted _ _ _) = True"
| "opening_event _ = False"

lemma consume_text_advances: "advances chunk_event d (snd (consume_text i c d))"
  by (auto simp: consume_text_def queue_def advances_def bd_limits_def bridgeStreamEventOverhead_def)

lemma consume_reasoning_advances: "advances chunk_event d (snd (consume_reasoning i c d))"
  by (auto simp: consume_reasoning_def queue_def advances_def bd_limits_def bridgeStreamEventOverhead_def)

lemma consume_tools_advances: "advances K d (snd (consume_tools ci seen tools d))"
proof (induction tools arbitrary: seen d)
  case (Cons tool tools)
  then show ?case by (auto intro!: advances_bind consumeToolCall_advances split: option.splits)
qed simp

lemma consume_delta_advances: "advances chunk_event d (snd (consume_delta choice d))"
  unfolding consume_delta_def
  by (intro advances_bind consume_text_advances consume_reasoning_advances consume_tools_advances)

lemma consume_choice_advances: "advances chunk_event d (snd (consume_choice choice d))"
proof -
  have r: "advances chunk_event d (recordFinishReason f d)" for f and d :: BridgeStreamDecoder
    by (rule advances_same) (simp_all add: recordFinishReason_def bd_limits_def)
  have p: "advances chunk_event d (d\<lparr>bd_choiceFinishReasons := m\<rparr>)" for m and d :: BridgeStreamDecoder
    by (rule advances_same) (simp_all add: bd_limits_def)
  show ?thesis unfolding consume_choice_def Let_def
    by (auto intro!: advances_bind intro: consume_delta_advances advances_trans [OF r consume_delta_advances] p)
qed

lemma consume_choices_advances: "advances chunk_event d (snd (consume_choices seen choices d))"
  by (induction choices arbitrary: seen d) (auto intro!: advances_bind consume_choice_advances)

lemma start_response_advances: "advances opening_event d (snd (start_response chunk d))"
proof -
  have "advances opening_event d (d\<lparr>bd_started := True\<rparr>)" "advances opening_event d (d\<lparr>bd_providerModel := m, bd_createdAt := t\<rparr>)"
    for m t and d :: BridgeStreamDecoder
    by (rule advances_same; simp add: bd_limits_def)+
  then show ?thesis unfolding start_response_def Let_def
    by (auto intro!: advances_bind intro: advances_trans [OF _ queue_advances])
qed

lemma note_metadata_advances: "advances chunk_event d (note_metadata chunk d)"
  by (rule advances_same) (simp_all add: note_metadata_def Let_def bd_limits_def)

lemma consume_body_advances: "advances chunk_event d (snd (consume_body chunk d))"
  unfolding consume_body_def
  by (rule advances_bind)
    (auto intro: advances_trans [OF note_metadata_advances consume_choices_advances] queue_advances split: option.split)

abbreviation opening_or_chunk :: "StreamEvent \<Rightarrow> bool" where
  "opening_or_chunk ev \<equiv> opening_event ev \<or> chunk_event ev"

lemma consumeChunk_advances: "advances opening_or_chunk d (snd (consumeChunk chunk d))"
  unfolding consumeChunk_def
  by (auto intro!: advances_bind intro: advances_mono [OF start_response_advances] advances_mono [OF consume_body_advances]
      split: option.split)

section \<open>Next\<close>

definition upstream_limit :: StreamEvent where
  "upstream_limit = Failed ''stream_limit_exceeded'' ''The upstream stream exceeded its limit.''"

definition read_failure :: "stream_error \<Rightarrow> StreamEvent" where
  "read_failure err =
     (case err of
        StreamSSE SSE_EOF \<Rightarrow> Failed ''upstream_eof'' ''upstream stream ended before a terminal event''
      | StreamSSE (ErrSSELimitExceeded _ _) \<Rightarrow> upstream_limit
      | e \<Rightarrow> bridgeFailure e)"

text \<open>The rest of the loop's body once the provider has answered: an event to return, or none to loop.\<close>

definition pop_pending :: "BridgeStreamDecoder \<Rightarrow> StreamEvent option \<times> BridgeStreamDecoder" where
  "pop_pending d = (case bd_pending d of [] \<Rightarrow> (None, d) | e # es \<Rightarrow> (Some e, d\<lparr>bd_pending := es\<rparr>))"

definition bridge_round :: "stream_error + ChatCompletionStreamEvent \<Rightarrow> BridgeStreamDecoder \<Rightarrow> StreamEvent option \<times> BridgeStreamDecoder" where
  "bridge_round outcome d =
     (case outcome of
        Inl err \<Rightarrow> (Some (read_failure err), d\<lparr>bd_terminal := True\<rparr>)
      | Inr ErrorEvent \<Rightarrow>
          (Some (Failed ''upstream_error'' ''upstream provider returned a stream error''), d\<lparr>bd_terminal := True\<rparr>)
      | Inr DoneEvent \<Rightarrow>
          (case finish d of
             (Inl err, d) \<Rightarrow> (Some (bridgeFailure err), d\<lparr>bd_terminal := True, bd_pending := []\<rparr>)
           | (Inr _, d) \<Rightarrow>
               (case pop_pending (d\<lparr>bd_terminal := True\<rparr>) of
                  (None, d) \<Rightarrow> (Some (terminal_failure ''upstream stream did not report a terminal reason''), d)
                | r \<Rightarrow> r))
      | Inr (ChunkEvent chunk) \<Rightarrow>
          (case consumeChunk chunk d of
             (Inl err, d) \<Rightarrow> (Some (bridgeFailure err), d\<lparr>bd_terminal := True, bd_pending := []\<rparr>)
           | (Inr _, d) \<Rightarrow>
               (case pop_pending d of
                  (None, d) \<Rightarrow>
                    (case reserveAggregateBytes bridgeStreamEventOverhead d of
                       (Inl err, d) \<Rightarrow> (Some (bridgeFailure err), d\<lparr>bd_terminal := True\<rparr>)
                     | (Inr _, d) \<Rightarrow> (None, d))
                | r \<Rightarrow> r)))"

lemma bridge_round_progress:
  assumes "bridge_round outcome d = (None, e)"
  shows "nat (bd_maxAggregateBytes e - bd_aggregateBytes e) < nat (bd_maxAggregateBytes d - bd_aggregateBytes d)"
proof -
  from assms obtain chunk u f where c: "consumeChunk chunk d = (Inr u, f)"
    and r: "reserveAggregateBytes bridgeStreamEventOverhead f = (Inr (), e)"
    by (auto simp: bridge_round_def pop_pending_def split: sum.splits ChatCompletionStreamEvent.splits prod.splits list.splits option.splits)
  have "bd_aggregateBytes d \<le> bd_aggregateBytes f" "bd_maxAggregateBytes f = bd_maxAggregateBytes d"
    using consumeChunk_advances [of d chunk] c by (auto simp: advances_def bd_limits_def)
  with r show ?thesis by (auto simp: reserveAggregateBytes_def bridgeStreamEventOverhead_def split: if_splits)
qed

text \<open>
  The loop of \<open>Next\<close>. A chunk that yields no event costs budget, so the loop ends whatever the provider
  sends; the result is the event, or none for \<open>io.EOF\<close>.
\<close>

function bridge_Next ::
  "('p \<Rightarrow> (stream_error + ChatCompletionStreamEvent) \<times> 'p) \<Rightarrow> 'p \<Rightarrow> BridgeStreamDecoder \<Rightarrow> StreamEvent option \<times> 'p \<times> BridgeStreamDecoder" where
  "bridge_Next next p d =
     (case pop_pending d of
        (Some ev, e) \<Rightarrow> (Some ev, p, e)
      | (None, _) \<Rightarrow>
          if bd_terminal d then (None, p, d)
          else
            case next p of (outcome, p') \<Rightarrow>
              (case bridge_round outcome d of
                 (Some ev, e) \<Rightarrow> (Some ev, p', e)
               | (None, e) \<Rightarrow> bridge_Next next p' e))"
  by pat_completeness auto
termination
  by (relation "measure (\<lambda>(_, _, d). nat (bd_maxAggregateBytes d - bd_aggregateBytes d))")
    (auto dest: bridge_round_progress [OF sym] bridge_round_progress)

declare bridge_Next.simps [simp del]

end
