(* ===== verification/Provider_Stream_Inv.thy ===== *)
theory Provider_Stream_Inv
  imports Provider_Stream
begin

text \<open>
  What the bridge decoder of \<open>Provider_Stream\<close> guarantees: the order of its events, the tool calls it
  delivers, the bounds of everything it retains, and that every stream comes to an end.
\<close>

section \<open>The terminal boundary appends tool events and one terminal event\<close>

lemma ensureToolStarted_advances: "advances tool_event d (snd (ensureToolStarted state d))"
proof -
  have "advances tool_event d (snd (go_bind (queue (ToolCallStarted k kd i n) z (put_call s d))
      (\<lambda>_ d. if b then queue (ToolCallArgumentsDelta k' a) 0 (put_call s' d) else (Inr (), put_call s' d))))"
    for k kd i n z s b k' a s' and d :: BridgeStreamDecoder
    by (intro advances_bind)
      (auto intro!: advances_trans [OF put_call_advances queue_advances] put_call_advances)
  then show ?thesis
    by (auto simp: ensureToolStarted_def Let_def split: option.splits)
qed

lemma start_call_advances: "advances tool_event d (snd (start_call key d))"
  unfolding start_call_def by (auto intro!: advances_bind ensureToolStarted_advances split: option.splits)

lemma start_calls_advances: "advances tool_event d (snd (go_for start_call keys d))"
  by (induction keys arbitrary: d) (auto intro!: advances_bind start_call_advances)

lemma complete_call_advances: "advances tool_event d (snd (complete_call state d))"
proof -
  have "advances tool_event d (snd (go_bind (queue (ToolCallArgumentsDelta k a) 0 (put_call s d))
      (\<lambda>_. queue (ToolCallCompleted k' kd i n a') z)))" for k a s k' kd i n a' z and d :: BridgeStreamDecoder
    by (intro advances_bind) (auto intro!: advances_trans [OF put_call_advances queue_advances] queue_advances)
  then show ?thesis unfolding complete_call_def Let_def
    by (auto intro: put_call_advances advances_trans [OF put_call_advances queue_advances] split: sum.splits)
qed

lemma complete_calls_advances: "advances tool_event d (snd (complete_calls ids keys d))"
proof (induction keys arbitrary: ids d)
  case (Cons key keys)
  then show ?case
    by (auto simp: Let_def intro!: advances_bind complete_call_advances split: option.splits)
qed simp

lemma queue_Inr:
  "queue ev n d = (Inr u, e) \<Longrightarrow> bd_pending e = bd_pending d @ [ev] \<and> bd_limits e = bd_limits d \<and> bd_terminal e = bd_terminal d
     \<and> bd_aggregateBytes d + 64 \<le> bd_aggregateBytes e \<and> bd_aggregateBytes e \<le> bd_maxAggregateBytes e"
  by (auto simp: queue_def bd_limits_def bridgeStreamEventOverhead_def split: if_splits)

text \<open>The shape of what is left to deliver once the stream is over.\<close>

definition closing :: "StreamEvent list \<Rightarrow> bool" where
  "closing es \<longleftrightarrow> (\<exists>ts t. es = ts @ [t] \<and> list_all tool_event ts \<and> terminal_event t \<and> (ts \<noteq> [] \<longrightarrow> t = Completed ''tool_calls''))"

lemma closing_single: "terminal_event t \<Longrightarrow> closing [t]"
  by (auto simp: closing_def)

lemma finish_advances: "advances (\<lambda>ev. tool_event ev \<or> terminal_event ev) d (snd (finish d))"
proof -
  have fin: "advances K d (d\<lparr>bd_finalized := b\<rparr>)" "advances K d (d\<lparr>bd_finalized := b, bd_toolTurn := c\<rparr>)"
    for K b c and d :: BridgeStreamDecoder
    by (rule advances_same; simp add: bd_limits_def)+
  have "advances (\<lambda>ev. tool_event ev \<or> terminal_event ev) d (snd (finishToolCalls d))"
    unfolding finishToolCalls_def Let_def
    by (intro advances_bind)
      (auto intro: advances_mono [OF start_calls_advances] advances_mono [OF complete_calls_advances]
        advances_trans [OF fin(2) queue_advances])
  then show ?thesis
    by (auto simp: finish_def terminal_failure_def intro: queue_advances advances_trans [OF fin(1) queue_advances])
qed

section \<open>What a completed tool turn delivers\<close>

definition start_state :: "ToolRegistry option \<Rightarrow> providerToolCall \<Rightarrow> providerToolCall" where
  "start_state registry c =
     (case customToolRegistration registry (pc_name c) of
        Some r \<Rightarrow> c\<lparr>pc_registration := r, pc_kind := reg_Kind r, pc_started := True\<rparr>
      | None \<Rightarrow> c\<lparr>pc_kind := ToolFunction, pc_started := True\<rparr>)"

definition public_name :: "providerToolCall \<Rightarrow> gostring" where
  "public_name c = (if pc_kind c = ToolCustom then reg_InboundName (pc_registration c) else pc_name c)"

definition start_events :: "providerToolCall \<Rightarrow> StreamEvent list" where
  "start_events c = ToolCallStarted (pc_key c) (pc_kind c) (pc_callID c) (public_name c)
     # (if pc_kind c \<noteq> ToolCustom \<and> pc_arguments c \<noteq> [] then [ToolCallArgumentsDelta (pc_key c) (pc_arguments c)] else [])"

definition call_input :: "providerToolCall \<Rightarrow> gostring" where
  "call_input c = (if pc_kind c = ToolCustom
     then (case unwrapApplyPatchArguments (pc_arguments c) of Inr input \<Rightarrow> input | Inl _ \<Rightarrow> []) else pc_arguments c)"

definition complete_events :: "providerToolCall \<Rightarrow> StreamEvent list" where
  "complete_events c =
     (if pc_kind c = ToolCustom then [ToolCallArgumentsDelta (pc_key c) (call_input c)] else [])
     @ [ToolCallCompleted (pc_key c) (if pc_kind c = ToolCustom then ToolCustom else ToolFunction) (pc_callID c) (public_name c) (call_input c)]"

text \<open>Only the calls, the pending events and the budget change.\<close>

definition bd_frame :: "BridgeStreamDecoder \<Rightarrow> BridgeStreamDecoder \<Rightarrow> bool" where
  "bd_frame d e \<longleftrightarrow> e = d\<lparr>bd_calls := bd_calls e, bd_aggregateBytes := bd_aggregateBytes e, bd_pending := bd_pending e\<rparr>"

lemma bd_frame_refl [simp]: "bd_frame d d"
  by (simp add: bd_frame_def)

lemma bd_frame_trans:
  assumes "bd_frame d e" "bd_frame e f"
  shows "bd_frame d f"
proof -
  have "f = e\<lparr>bd_calls := bd_calls f, bd_aggregateBytes := bd_aggregateBytes f, bd_pending := bd_pending f\<rparr>"
    using assms(2) by (simp only: bd_frame_def)
  also have "\<dots> = d\<lparr>bd_calls := bd_calls f, bd_aggregateBytes := bd_aggregateBytes f, bd_pending := bd_pending f\<rparr>"
    using assms(1) by (subst assms(1) [unfolded bd_frame_def]) simp
  finally show ?thesis by (simp only: bd_frame_def)
qed

lemma bd_frame_sel:
  assumes "bd_frame d e"
  shows "bd_allowedToolNames e = bd_allowedToolNames d" "bd_toolRegistry e = bd_toolRegistry d"
    "bd_finishReason e = bd_finishReason d"
  by (subst assms [unfolded bd_frame_def], simp)+

lemma bd_frame_queue: "queue ev n d = (Inr u, e) \<Longrightarrow> bd_frame d e \<and> bd_pending e = bd_pending d @ [ev] \<and> bd_calls e = bd_calls d"
  by (auto simp: queue_def bd_frame_def split: if_splits)

lemma bd_frame_put [simp]: "bd_frame d (put_call c d)"
  by (simp add: bd_frame_def put_call_def)

lemma put_call_sel [simp]:
  "bd_pending (put_call c d) = bd_pending d" "bd_calls (put_call c d) = map_put (pc_key c) c (bd_calls d)"
  by (simp_all add: put_call_def)

lemma map_put_keys: "map_of m k \<noteq> None \<Longrightarrow> map fst (map_put k v m) = map fst m"
  by (auto simp: AList.update_keys map_of_eq_None_iff)

lemma customToolRegistration_Some: "customToolRegistration r n = Some q \<Longrightarrow> q = applyPatchRegistration"
  by (auto simp: customToolRegistration_def validateCustomToolRegistration_def applyPatchRegistration_def
      split: option.splits if_splits)

lemma applyPatchRegistration_sel [simp]:
  "reg_Kind applyPatchRegistration = ToolCustom" "reg_InboundName applyPatchRegistration = ApplyPatchToolName"
  "reg_UpstreamName applyPatchRegistration = ApplyPatchUpstreamName"
  by (simp_all add: applyPatchRegistration_def)

lemma start_state_sel [simp]:
  "pc_key (start_state r c) = pc_key c" "pc_callID (start_state r c) = pc_callID c" "pc_name (start_state r c) = pc_name c"
  "pc_arguments (start_state r c) = pc_arguments c" "pc_completed (start_state r c) = pc_completed c"
  "pc_providerCallID (start_state r c) = pc_providerCallID c" "pc_started (start_state r c)"
  by (simp_all add: start_state_def split: option.split)

lemma ensureToolStarted_ok:
  assumes "ensureToolStarted c d = (Inr u, e)" "\<not> pc_started c" "pc_name c \<noteq> []" "pc_name c \<in> set (bd_allowedToolNames d)"
  defines "c' \<equiv> start_state (bd_toolRegistry d) c"
  shows "bd_frame d e \<and> bd_pending e = bd_pending d @ start_events c' \<and> bd_calls e = map_put (pc_key c) c' (bd_calls d)"
proof -
  obtain kind pub c1 where k: "(case customToolRegistration (bd_toolRegistry d) (pc_name c) of
        Some r \<Rightarrow> (reg_Kind r, reg_InboundName r, c\<lparr>pc_registration := r\<rparr>)
      | None \<Rightarrow> (ToolFunction, pc_name c, c)) = (kind, pub, c1)" by (rule prod_cases3)
  have c1: "c' = c1\<lparr>pc_kind := kind, pc_started := True\<rparr>" "pc_key c1 = pc_key c" "pc_callID c1 = pc_callID c"
    "pc_arguments c1 = pc_arguments c" "pub = public_name c'" "kind = pc_kind c'"
    using k by (cases "customToolRegistration (bd_toolRegistry d) (pc_name c)";
        auto simp: c'_def start_state_def public_name_def dest: customToolRegistration_Some)+
  let ?q = "queue (ToolCallStarted (pc_key c) kind (pc_callID c) pub) (len (pc_callID c) + len pub) (put_call (c1\<lparr>pc_kind := kind\<rparr>) d)"
  have "ensureToolStarted c d = go_bind ?q (\<lambda>_ d. if kind \<noteq> ToolCustom \<and> pc_arguments c \<noteq> []
      then queue (ToolCallArgumentsDelta (pc_key c) (pc_arguments c)) 0 (put_call c' d) else (Inr (), put_call c' d))"
    unfolding ensureToolStarted_def Let_def k using assms(2-4) c1(2-4) by (simp add: Let_def c1(1) cong: if_cong)
  with assms(1) obtain f where f: "?q = (Inr (), f)"
    and g: "(if kind \<noteq> ToolCustom \<and> pc_arguments c \<noteq> []
      then queue (ToolCallArgumentsDelta (pc_key c) (pc_arguments c)) 0 (put_call c' f) else (Inr (), put_call c' f)) = (Inr u, e)"
    by (auto simp: go_bind_Inr_iff)
  note f = bd_frame_queue [OF f]
  have key: "pc_key c' = pc_key c" "pc_callID c' = pc_callID c" "pc_arguments c' = pc_arguments c" by (simp_all add: c'_def)
  have calls: "map_put (pc_key c) c' (bd_calls f) = map_put (pc_key c) c' (bd_calls d)" using f c1(2) by simp
  show ?thesis
  proof (cases "kind \<noteq> ToolCustom \<and> pc_arguments c \<noteq> []")
    case True
    with g have g: "queue (ToolCallArgumentsDelta (pc_key c) (pc_arguments c)) 0 (put_call c' f) = (Inr u, e)" by simp
    note g = bd_frame_queue [OF g]
    have "bd_frame d e" using f g by (blast intro: bd_frame_trans bd_frame_put)
    then show ?thesis using f g True c1(2,5,6) key calls by (simp add: start_events_def)
  next
    case False
    with g have "e = put_call c' f" by auto
    moreover have "bd_frame d (put_call c' f)" using f by (blast intro: bd_frame_trans bd_frame_put)
    ultimately show ?thesis using f False c1(2,5,6) key calls by (auto simp: start_events_def)
  qed
qed

lemma ensureToolStarted_noop: "ensureToolStarted c d = (Inr u, e) \<Longrightarrow> pc_name c = [] \<or> pc_name c \<notin> set (bd_allowedToolNames d) \<Longrightarrow> e = d"
  by (auto simp: ensureToolStarted_def Let_def split: if_splits)

definition fresh_call :: "ToolCallKey \<Rightarrow> providerToolCall \<Rightarrow> bool" where
  "fresh_call k c \<longleftrightarrow> pc_key c = k \<and> \<not> pc_started c \<and> \<not> pc_completed c"

lemma start_call_ok:
  assumes "start_call k d = (Inr u, e)" "map_of (bd_calls d) k = Some c" "fresh_call k c"
  defines "c' \<equiv> start_state (bd_toolRegistry d) c"
  shows "bd_frame d e \<and> bd_pending e = bd_pending d @ start_events c' \<and> bd_calls e = map_put k c' (bd_calls d)
    \<and> pc_name c \<noteq> [] \<and> pc_name c \<in> set (bd_allowedToolNames d)"
proof -
  from assms(1-3) obtain f where f: "ensureToolStarted c d = (Inr (), f)" and n: "pc_name c \<noteq> []" "pc_name c \<in> set (bd_allowedToolNames f)"
    and e: "e = f"
    by (auto simp: start_call_def fresh_call_def go_bind_Inr_iff split: if_splits)
  have "bd_allowedToolNames f = bd_allowedToolNames d"
    using ensureToolStarted_advances [of d c] f by (simp add: advances_def bd_limits_def)
  with n have n: "pc_name c \<noteq> []" "pc_name c \<in> set (bd_allowedToolNames d)" by simp_all
  from assms(3) have "\<not> pc_started c" "pc_key c = k" by (simp_all add: fresh_call_def)
  then show ?thesis using ensureToolStarted_ok [OF f _ n] n by (simp add: c'_def e)
qed

lemma start_calls_ok:
  assumes "go_for start_call keys d = (Inr u, e)" "distinct keys"
    "\<forall>k \<in> set keys. \<exists>c. map_of (bd_calls d) k = Some c \<and> fresh_call k c"
  defines "f \<equiv> start_state (bd_toolRegistry d)"
  shows "bd_frame d e \<and> bd_pending e = bd_pending d @ concat (map (\<lambda>k. start_events (f (the (map_of (bd_calls d) k)))) keys)
    \<and> map_of (bd_calls e) = (\<lambda>k. if k \<in> set keys then map_option f (map_of (bd_calls d) k) else map_of (bd_calls d) k)
    \<and> map fst (bd_calls e) = map fst (bd_calls d)
    \<and> (\<forall>k \<in> set keys. pc_name (the (map_of (bd_calls d) k)) \<noteq> [] \<and> pc_name (the (map_of (bd_calls d) k)) \<in> set (bd_allowedToolNames d))"
  using assms(1-3) unfolding f_def
proof (induction keys arbitrary: d)
  case (Cons k keys)
  from Cons.prems(1) obtain g where g: "start_call k d = (Inr (), g)" "go_for start_call keys g = (Inr u, e)"
    by (auto simp: go_bind_Inr_iff)
  from Cons.prems(3) obtain c where c: "map_of (bd_calls d) k = Some c" "fresh_call k c" by auto
  note s = start_call_ok [OF g(1) c]
  have fr: "bd_frame d g" and calls: "bd_calls g = map_put k (start_state (bd_toolRegistry d) c) (bd_calls d)" using s by blast+
  note sel = bd_frame_sel [OF fr]
  have other: "map_of (bd_calls g) k' = map_of (bd_calls d) k'" if "k' \<in> set keys" for k'
    using that Cons.prems(2) calls by auto
  have "\<forall>k' \<in> set keys. \<exists>c. map_of (bd_calls g) k' = Some c \<and> fresh_call k' c" using Cons.prems(3) other by auto
  note IH = Cons.IH [OF g(2) _ this]
  have keys: "map fst (bd_calls g) = map fst (bd_calls d)" using c(1) calls map_put_keys [of "bd_calls d" k] by simp
  have cc: "concat (map (\<lambda>k. start_events (start_state (bd_toolRegistry g) (the (map_of (bd_calls g) k)))) keys)
      = concat (map (\<lambda>k. start_events (start_state (bd_toolRegistry d) (the (map_of (bd_calls d) k)))) keys)"
    using other sel(2) by (intro arg_cong [where f = concat] map_cong) simp_all
  show ?case using IH Cons.prems(2) s cc sel keys c(1) other
    by (auto simp: calls fun_eq_iff intro: bd_frame_trans [OF fr])
qed simp

declare map_of_eq_Some_iff [simp del]

definition input_ok :: "providerToolCall \<Rightarrow> bool" where
  "input_ok c \<longleftrightarrow> (pc_kind c = ToolCustom \<longrightarrow> unwrapApplyPatchArguments (pc_arguments c) = Inr (call_input c))"

lemma complete_call_ok:
  assumes "complete_call c d = (Inr u, e)"
  shows "bd_frame d e \<and> bd_pending e = bd_pending d @ complete_events c
    \<and> bd_calls e = map_put (pc_key c) (c\<lparr>pc_completed := True\<rparr>) (bd_calls d) \<and> input_ok c"
proof (cases "pc_kind c = ToolCustom")
  case True
  let ?d = "put_call (c\<lparr>pc_completed := True\<rparr>) d"
  from assms True obtain input f where i: "unwrapApplyPatchArguments (pc_arguments c) = Inr input"
    and f: "queue (ToolCallArgumentsDelta (pc_key c) input) 0 ?d = (Inr (), f)"
    and g: "queue (ToolCallCompleted (pc_key c) ToolCustom (pc_callID c) (reg_InboundName (pc_registration c)) input)
      (len (pc_callID c) + len (reg_InboundName (pc_registration c))) f = (Inr u, e)"
    by (auto simp: complete_call_def Let_def go_bind_Inr_iff split: sum.splits)
  note f = bd_frame_queue [OF f] and g = bd_frame_queue [OF g]
  have "bd_frame d e" using f g by (blast intro: bd_frame_trans bd_frame_put)
  then show ?thesis using f g i True by (simp add: complete_events_def public_name_def call_input_def input_ok_def)
next
  case False
  let ?d = "put_call (c\<lparr>pc_completed := True\<rparr>) d"
  have "queue (ToolCallCompleted (pc_key c) ToolFunction (pc_callID c) (pc_name c) (pc_arguments c))
      (len (pc_callID c) + len (pc_name c)) ?d = (Inr u, e)"
    using assms False by (simp add: complete_call_def Let_def)
  note f = bd_frame_queue [OF this]
  have "bd_frame d e" using f by (blast intro: bd_frame_trans bd_frame_put)
  then show ?thesis using f False by (simp add: complete_events_def public_name_def call_input_def input_ok_def)
qed

lemma complete_calls_ok:
  assumes "complete_calls ids keys d = (Inr u, e)" "distinct keys"
    "\<forall>k \<in> set keys. \<exists>c. map_of (bd_calls d) k = Some c \<and> pc_key c = k \<and> \<not> pc_completed c"
  defines "cs \<equiv> map (\<lambda>k. the (map_of (bd_calls d) k)) keys"
  shows "bd_frame d e \<and> bd_pending e = bd_pending d @ concat (map complete_events cs)
    \<and> map_of (bd_calls e) = (\<lambda>k. if k \<in> set keys then map_option (\<lambda>c. c\<lparr>pc_completed := True\<rparr>) (map_of (bd_calls d) k)
        else map_of (bd_calls d) k)
    \<and> map fst (bd_calls e) = map fst (bd_calls d) \<and> list_all input_ok cs
    \<and> distinct (filter (\<lambda>i. i \<noteq> []) (map pc_callID cs)) \<and> set (filter (\<lambda>i. i \<noteq> []) (map pc_callID cs)) \<inter> set ids = {}"
  using assms(1-3) unfolding cs_def
proof (induction keys arbitrary: ids d)
  case (Cons k keys)
  from Cons.prems(3) obtain c where c: "map_of (bd_calls d) k = Some c" "pc_key c = k" "\<not> pc_completed c" by auto
  define ids' where "ids' = (if pc_callID c \<noteq> [] then pc_callID c # ids else ids)"
  from Cons.prems(1) c obtain g where g: "complete_call c d = (Inr (), g)" "complete_calls ids' keys g = (Inr u, e)"
    and fresh: "\<not> (pc_callID c \<in> set ids \<and> pc_callID c \<noteq> [])"
    by (auto simp: go_bind_Inr_iff Let_def ids'_def split: if_splits)
  note s = complete_call_ok [OF g(1)]
  have fr: "bd_frame d g" and calls: "bd_calls g = map_put k (c\<lparr>pc_completed := True\<rparr>) (bd_calls d)" using s c(2) by auto
  have other: "map_of (bd_calls g) k' = map_of (bd_calls d) k'" if "k' \<in> set keys" for k'
    using that Cons.prems(2) calls by auto
  have "\<forall>k' \<in> set keys. \<exists>c. map_of (bd_calls g) k' = Some c \<and> pc_key c = k' \<and> \<not> pc_completed c"
    using Cons.prems(3) other by auto
  note IH = Cons.IH [OF g(2) _ this]
  have keys: "map fst (bd_calls g) = map fst (bd_calls d)" using c(1) calls map_put_keys [of "bd_calls d" k] by simp
  have cs: "map (\<lambda>k. the (map_of (bd_calls g) k)) keys = map (\<lambda>k. the (map_of (bd_calls d) k)) keys"
    using other by (intro map_cong) simp_all
  show ?case using IH [unfolded cs] Cons.prems(2) s keys c fresh
    by (auto simp: calls fun_eq_iff ids'_def intro: bd_frame_trans [OF fr] split: if_splits)
qed simp

text \<open>The calls of a turn, in the order of their keys and as they are after the start loop.\<close>

definition turn_calls :: "BridgeStreamDecoder \<Rightarrow> providerToolCall list" where
  "turn_calls d = map (\<lambda>k. start_state (bd_toolRegistry d) (the (map_of (bd_calls d) k))) (sortedToolKeys (bd_calls d))"

definition calls_fresh :: "BridgeStreamDecoder \<Rightarrow> bool" where
  "calls_fresh d \<longleftrightarrow> map_ok (bd_calls d) \<and> (\<forall>k c. map_of (bd_calls d) k = Some c \<longrightarrow> fresh_call k c)"

lemma finishToolCalls_ok:
  assumes ok: "finishToolCalls d = (Inr u, e)" and fresh: "calls_fresh d"
  shows "bd_pending e = bd_pending d @ concat (map start_events (turn_calls d)) @ concat (map complete_events (turn_calls d))
        @ [Completed (bd_finishReason d)]
    \<and> bd_finalized e \<and> (bd_toolTurn e \<longleftrightarrow> bd_calls d \<noteq> [])
    \<and> map fst (bd_calls e) = map fst (bd_calls d)
    \<and> (\<forall>k. map_of (bd_calls e) k = map_option (\<lambda>c. (start_state (bd_toolRegistry d) c)\<lparr>pc_completed := True\<rparr>) (map_of (bd_calls d) k))
    \<and> list_all input_ok (turn_calls d) \<and> distinct (filter (\<lambda>i. i \<noteq> []) (map pc_callID (turn_calls d)))
    \<and> list_all (\<lambda>c. pc_name c \<noteq> [] \<and> pc_name c \<in> set (bd_allowedToolNames d)) (turn_calls d)
    \<and> bd_providerModel e = bd_providerModel d \<and> bd_createdAt e = bd_createdAt d
    \<and> bd_assistantContent e = bd_assistantContent d \<and> bd_reasoningContent e = bd_reasoningContent d"
proof -
  let ?keys = "sortedToolKeys (bd_calls d)"
  from ok obtain f g where f: "go_for start_call ?keys d = (Inr (), f)"
    and g: "complete_calls [] (sortedToolKeys (bd_calls f)) f = (Inr (), g)"
    and q: "queue (Completed (bd_finishReason (g\<lparr>bd_finalized := True, bd_toolTurn := bd_calls g \<noteq> []\<rparr>))) 0
        (g\<lparr>bd_finalized := True, bd_toolTurn := bd_calls g \<noteq> []\<rparr>) = (Inr u, e)"
    by (auto simp: finishToolCalls_def Let_def go_bind_Inr_iff)
  have dk: "distinct ?keys" using fresh by (simp add: sortedToolKeys_def calls_fresh_def)
  have mem: "k \<in> set ?keys \<longleftrightarrow> map_of (bd_calls d) k \<noteq> None" for k by (simp add: sortedToolKeys_def map_of_eq_None_iff)
  have "\<forall>k \<in> set ?keys. \<exists>c. map_of (bd_calls d) k = Some c \<and> fresh_call k c"
    using fresh mem by (auto simp: calls_fresh_def)
  note s = start_calls_ok [OF f dk this]
  have keys: "sortedToolKeys (bd_calls f) = ?keys" using s by (simp add: sortedToolKeys_def)
  have fc: "map_of (bd_calls f) k = map_option (start_state (bd_toolRegistry d)) (map_of (bd_calls d) k)" for k
    using s mem [of k] by (cases "map_of (bd_calls d) k") auto
  have "\<forall>k \<in> set ?keys. \<exists>c. map_of (bd_calls f) k = Some c \<and> pc_key c = k \<and> \<not> pc_completed c"
    using fresh mem fc by (auto simp: calls_fresh_def fresh_call_def)
  note c = complete_calls_ok [OF g [unfolded keys] dk this]
  have cs: "map (\<lambda>k. the (map_of (bd_calls f) k)) ?keys = turn_calls d"
    unfolding turn_calls_def using mem fc by (intro map_cong) auto
  have gc: "map_of (bd_calls g) k = map_option (\<lambda>c. (start_state (bd_toolRegistry d) c)\<lparr>pc_completed := True\<rparr>) (map_of (bd_calls d) k)" for k
    using c mem [of k] fc [of k] by (cases "map_of (bd_calls d) k") auto
  note q' = bd_frame_queue [OF q]
  have fr: "bd_frame d g" using s c by (blast intro: bd_frame_trans)
  have pend: "bd_pending g = bd_pending d @ concat (map start_events (turn_calls d)) @ concat (map complete_events (turn_calls d))"
  proof -
    from s have "bd_pending f = bd_pending d @ concat (map (\<lambda>k. start_events (start_state (bd_toolRegistry d) (the (map_of (bd_calls d) k)))) ?keys)"
      by blast
    moreover from c [unfolded cs] have "bd_pending g = bd_pending f @ concat (map complete_events (turn_calls d))" by blast
    ultimately show ?thesis by (simp add: turn_calls_def comp_def)
  qed
  have inp: "list_all input_ok (turn_calls d)" "distinct (filter (\<lambda>i. i \<noteq> []) (map pc_callID (turn_calls d)))"
    using c [unfolded cs] by blast+
  have names: "list_all (\<lambda>c. pc_name c \<noteq> [] \<and> pc_name c \<in> set (bd_allowedToolNames d)) (turn_calls d)"
    using s by (auto simp: turn_calls_def list_all_iff)
  have kg: "map fst (bd_calls g) = map fst (bd_calls d)" using s c by metis
  then have "bd_calls g = [] \<longleftrightarrow> bd_calls d = []" by (cases "bd_calls g"; cases "bd_calls d") auto
  moreover have "bd_finalized e" "bd_toolTurn e \<longleftrightarrow> bd_calls g \<noteq> []" "bd_providerModel e = bd_providerModel g"
    "bd_createdAt e = bd_createdAt g" "bd_assistantContent e = bd_assistantContent g" "bd_reasoningContent e = bd_reasoningContent g"
    using q by (auto simp: queue_def split: if_splits)
  moreover have "bd_providerModel g = bd_providerModel d" "bd_createdAt g = bd_createdAt d"
    "bd_assistantContent g = bd_assistantContent d" "bd_reasoningContent g = bd_reasoningContent d"
    by (subst fr [unfolded bd_frame_def], simp)+
  ultimately show ?thesis using q' pend names gc inp kg bd_frame_sel [OF fr] by simp
qed

section \<open>Everything the decoder retains is bounded\<close>

definition call_bounds :: "BridgeStreamDecoder \<Rightarrow> ToolCallKey \<Rightarrow> providerToolCall \<Rightarrow> bool" where
  "call_bounds d k c \<longleftrightarrow> pc_key c = k \<and> pc_callID c \<noteq> []
     \<and> len (pc_name c) \<le> bd_maxToolNameBytes d \<and> len (pc_providerCallID c) \<le> bd_maxProviderCallIDBytes d
     \<and> len (pc_arguments c) \<le> bd_maxToolCallArgumentBytes d"

definition bd_bounds :: "BridgeStreamDecoder \<Rightarrow> bool" where
  "bd_bounds d \<longleftrightarrow>
     0 \<le> bd_aggregateBytes d \<and> bd_aggregateBytes d \<le> bd_maxAggregateBytes d
     \<and> bd_textBytes d = len (bd_assistantContent d) \<and> bd_textBytes d \<le> bd_maxTextBytes d
     \<and> bd_reasoningBytes d = len (bd_reasoningContent d) \<and> bd_reasoningBytes d \<le> bd_maxReasoningBytes d
     \<and> 0 \<le> bd_outputBytes d \<and> bd_outputBytes d \<le> bd_maxOutputBytes d
     \<and> 0 \<le> bd_maxToolNameBytes d \<and> 0 \<le> bd_maxProviderCallIDBytes d \<and> 0 \<le> bd_maxToolCallArgumentBytes d
     \<and> map_ok (bd_calls d) \<and> len (bd_calls d) \<le> bd_maxToolCalls d
     \<and> (\<forall>k c. map_of (bd_calls d) k = Some c \<longrightarrow> call_bounds d k c)"

definition bd_open :: "BridgeStreamDecoder \<Rightarrow> bool" where
  "bd_open d \<longleftrightarrow> bd_bounds d \<and> calls_fresh d \<and> \<not> bd_finalized d \<and> \<not> bd_toolTurn d"

lemma NewBridgeStreamDecoder_open: "bd_open (NewBridgeStreamDecoder options)"
  by (simp add: bd_open_def bd_bounds_def calls_fresh_def NewBridgeStreamDecoder_def Let_def positive_or_def withDefaults_def
      bridge_limits DefaultStreamMaxAggregateBytes_def)

lemma reserve_bounds: "bd_bounds d \<Longrightarrow> bd_bounds (snd (reserveAggregateBytes n d))"
  by (auto simp: reserveAggregateBytes_def bd_bounds_def call_bounds_def)

lemma queue_bounds: "bd_bounds d \<Longrightarrow> bd_bounds (snd (queue ev n d))"
  by (auto simp: queue_def bd_bounds_def call_bounds_def bridgeStreamEventOverhead_def)

lemma reserve_calls [simp]: "bd_calls (snd (reserveAggregateBytes n d)) = bd_calls d"
  "bd_finalized (snd (reserveAggregateBytes n d)) = bd_finalized d" "bd_toolTurn (snd (reserveAggregateBytes n d)) = bd_toolTurn d"
  by (simp_all add: reserveAggregateBytes_def)

lemma queue_calls [simp]: "bd_calls (snd (queue ev n d)) = bd_calls d"
  "bd_finalized (snd (queue ev n d)) = bd_finalized d" "bd_toolTurn (snd (queue ev n d)) = bd_toolTurn d"
  by (simp_all add: queue_def)

lemma reserve_open: "bd_open d \<Longrightarrow> bd_open (snd (reserveAggregateBytes n d))"
  by (simp add: bd_open_def reserve_bounds calls_fresh_def)

lemma queue_open: "bd_open d \<Longrightarrow> bd_open (snd (queue ev n d))"
  by (simp add: bd_open_def queue_bounds calls_fresh_def)

lemma put_call_bounds:
  assumes "bd_bounds d" "call_bounds d (pc_key c) c" "map_of (bd_calls d) (pc_key c) \<noteq> None \<or> len (bd_calls d) < bd_maxToolCalls d"
  shows "bd_bounds (put_call c d)"
proof -
  have "len (map_put (pc_key c) c (bd_calls d)) \<le> bd_maxToolCalls d"
    using assms al.size_put [of "bd_calls d" "pc_key c" c] by (auto simp: bd_bounds_def)
  then show ?thesis using assms by (auto simp: bd_bounds_def put_call_def call_bounds_def distinct_update split: if_splits)
qed

lemma put_call_open:
  assumes "bd_open d" "call_bounds d (pc_key c) c" "map_of (bd_calls d) (pc_key c) \<noteq> None \<or> len (bd_calls d) < bd_maxToolCalls d"
    "fresh_call (pc_key c) c"
  shows "bd_open (put_call c d)"
  using assms put_call_bounds [OF _ assms(2,3)]
  by (auto simp: bd_open_def calls_fresh_def distinct_update put_call_def split: if_splits)

lemma syntheticToolCallID_nonempty [simp]: "syntheticToolCallID k \<noteq> []"
  by (simp add: syntheticToolCallID_def)

text \<open>The state a tool call works on is the one in the table.\<close>

definition current :: "ToolCallKey \<Rightarrow> providerToolCall \<Rightarrow> BridgeStreamDecoder \<Rightarrow> bool" where
  "current k c d \<longleftrightarrow> bd_open d \<and> map_of (bd_calls d) k = Some c"

lemma currentD: "current k c d \<Longrightarrow> bd_open d \<and> call_bounds d k c \<and> fresh_call k c"
  by (auto simp: current_def bd_open_def bd_bounds_def calls_fresh_def)

lemma put_current:
  assumes "current k c d" "call_bounds d k c'" "fresh_call k c'"
  shows "current k c' (put_call c' d)"
proof -
  have "pc_key c' = k" using assms(3) by (simp add: fresh_call_def)
  then show ?thesis using assms put_call_open [of d c'] by (auto simp: current_def)
qed

lemma call_for_open:
  assumes "bd_open d"
  shows "bd_open (snd (call_for key tool d))" "call_for key tool d = (Inr c, e) \<Longrightarrow> current key c e"
proof -
  let ?c = "new_call key (if tc_ID tool = [] then syntheticToolCallID key else tc_ID tool)"
  have n: "call_bounds d key ?c" "fresh_call key ?c" "pc_key ?c = key"
    using assms by (simp_all add: new_call_def call_bounds_def fresh_call_def bd_open_def bd_bounds_def)
  have new: "bd_open (put_call ?c d)" if "len (bd_calls d) < bd_maxToolCalls d"
    using put_call_open [OF assms, of ?c] n that by simp
  then show "bd_open (snd (call_for key tool d))" using assms
    by (auto simp: call_for_def Let_def split: option.splits)
  show "call_for key tool d = (Inr c, e) \<Longrightarrow> current key c e" using assms new n
    by (auto simp: call_for_def Let_def current_def split: option.splits if_splits)
qed

lemma provider_id_length:
  "len (appendProviderCallID old new) = len old + providerCallIDGrowth old new"
  by (auto simp: appendProviderCallID_def providerCallIDGrowth_def)

lemma reserve_current: "current k c d \<Longrightarrow> reserveAggregateBytes n d = (r, e) \<Longrightarrow> current k c e"
  using reserve_open [of d n] reserve_calls(1) [of n d] by (auto simp: current_def)

lemma reserve_limits: "reserveAggregateBytes n d = (r, e) \<Longrightarrow> bd_limits e = bd_limits d \<and> bd_outputBytes e = bd_outputBytes d"
  by (auto simp: reserveAggregateBytes_def bd_limits_def split: if_splits)

lemma call_bounds_cong: "bd_limits e = bd_limits d \<Longrightarrow> call_bounds e k c = call_bounds d k c"
  by (simp add: bd_limits_def call_bounds_def)

lemma grow_provider_id_current:
  assumes "current k c d"
  shows "bd_open (snd (grow_provider_id tool c d))" "grow_provider_id tool c d = (Inr c', e) \<Longrightarrow> current k c' e"
proof -
  let ?c = "c\<lparr>pc_providerCallID := appendProviderCallID (pc_providerCallID c) (tc_ID tool)\<rparr>"
  have new: "current k ?c (put_call ?c f)"
    if "reserveAggregateBytes g d = (Inr u, f)" "g = providerCallIDGrowth (pc_providerCallID c) (tc_ID tool)"
      "\<not> g > bd_maxProviderCallIDBytes d - len (pc_providerCallID c)" for g u f
  proof -
    have "call_bounds f k c" "fresh_call k c" "current k c f" "bd_limits f = bd_limits d"
      using currentD [OF reserve_current [OF assms that(1)]] reserve_current [OF assms that(1)] reserve_limits [OF that(1)] by blast+
    then show ?thesis using that(2,3) provider_id_length [of "pc_providerCallID c" "tc_ID tool"]
      by (intro put_current) (auto simp: call_bounds_def fresh_call_def bd_limits_def)
  qed
  show "bd_open (snd (grow_provider_id tool c d))"
    using assms new reserve_open [of d] unfolding grow_provider_id_def Let_def
    by (auto simp: current_def intro!: keeps_bind [where P = bd_open])
  show "grow_provider_id tool c d = (Inr c', e) \<Longrightarrow> current k c' e"
    using assms new unfolding grow_provider_id_def Let_def by (auto simp: go_bind_Inr_iff split: if_splits)
qed

lemma output_open: "bd_open d \<Longrightarrow> 0 \<le> n \<Longrightarrow> n \<le> bd_maxOutputBytes d \<Longrightarrow> bd_open (d\<lparr>bd_outputBytes := n\<rparr>)"
  by (simp add: bd_open_def bd_bounds_def calls_fresh_def call_bounds_def)

lemma grow_arguments_open:
  assumes "current k c d"
  shows "bd_open (snd (grow_arguments tool c d))"
proof -
  let ?args = "tf_Arguments (tc_Function tool)"
  let ?c = "c\<lparr>pc_arguments := pc_arguments c @ ?args\<rparr>"
  have "bd_open ((put_call ?c f)\<lparr>bd_outputBytes := bd_outputBytes f + len ?args\<rparr>)"
    if "reserveAggregateBytes n d = (Inr u, f)" "\<not> len ?args > bd_maxToolCallArgumentBytes d - len (pc_arguments c)"
      "\<not> len ?args > bd_maxOutputBytes d - bd_outputBytes d" for n u f
  proof -
    have f: "call_bounds f k c" "fresh_call k c" "current k c f" "bd_limits f = bd_limits d" "bd_outputBytes f = bd_outputBytes d"
      using currentD [OF reserve_current [OF assms that(1)]] reserve_current [OF assms that(1)] reserve_limits [OF that(1)] by blast+
    then have "current k ?c (put_call ?c f)"
      using that(2) by (intro put_current) (auto simp: call_bounds_def fresh_call_def bd_limits_def)
    then have "bd_open (put_call ?c f)" by (simp add: current_def)
    moreover have "0 \<le> bd_outputBytes f" using f(3) by (simp add: current_def bd_open_def bd_bounds_def)
    ultimately show ?thesis using that(3) f(4,5) by (intro output_open) (simp_all add: bd_limits_def put_call_def)
  qed
  then show ?thesis using assms reserve_open [of d] unfolding grow_arguments_def Let_def
    by (auto simp: current_def intro!: keeps_bind [where P = bd_open])
qed

lemma append_name_open:
  assumes "current k c d" "len (tf_Name (tc_Function tool)) \<le> bd_maxToolNameBytes d - len (pc_name c)"
  shows "bd_open (snd (append_name tool c d))"
proof -
  have "bd_open (snd (grow_arguments tool s (put_call s d)))"
    if "s = c\<lparr>pc_name := pc_name c @ tf_Name (tc_Function tool)\<rparr>
      \<or> s = c\<lparr>pc_name := pc_name c @ tf_Name (tc_Function tool), pc_customCandidate := True\<rparr>" for s
  proof (rule grow_arguments_open [of k], rule put_current [OF assms(1)])
    show "call_bounds d k s" "fresh_call k s"
      using currentD [OF assms(1)] assms(2) that by (auto simp: call_bounds_def fresh_call_def)
  qed
  then show ?thesis by (simp add: append_name_def Let_def)
qed

lemma extend_call_open:
  assumes "current k c d"
  shows "bd_open (snd (extend_call tool c d))"
proof -
  have name: "pc_name c' = pc_name c \<and> bd_maxToolNameBytes f = bd_maxToolNameBytes d" if "grow_provider_id tool c d = (Inr c', f)" for c' f
    using that reserve_limits unfolding grow_provider_id_def Let_def
    by (auto simp: go_bind_Inr_iff put_call_def bd_limits_def split: if_splits)
  have "bd_open (snd (go_bind (grow_provider_id tool c d) (append_name tool)))"
    if "len (tf_Name (tc_Function tool)) \<le> bd_maxToolNameBytes d - len (pc_name c)"
    using grow_provider_id_current [OF assms] name that
    by (intro keeps_bind [where P = bd_open]) (auto intro!: append_name_open [of k])
  then show ?thesis using assms by (auto simp: extend_call_def current_def split: option.splits)
qed

lemma consumeToolCall_open:
  assumes "bd_open d"
  shows "bd_open (snd (consumeToolCall ci tool d))"
  using assms call_for_open [OF assms] unfolding consumeToolCall_def
  by (auto intro!: keeps_bind [where P = bd_open] extend_call_open split: option.splits)

lemma consume_text_open:
  assumes "bd_open d"
  shows "bd_open (snd (consume_text i c d))"
proof -
  have "bd_open (e\<lparr>bd_assistantContent := bd_assistantContent e @ c, bd_textBytes := bd_textBytes e + len c, bd_outputBytes := bd_outputBytes e + len c\<rparr>)"
    if "queue ev n d = (Inr u, e)" "\<not> len c > bd_maxTextBytes d - bd_textBytes d" "\<not> len c > bd_maxOutputBytes d - bd_outputBytes d" for ev n u e
    using queue_open [OF assms, of ev n] that
    by (auto simp: queue_def bd_open_def bd_bounds_def calls_fresh_def call_bounds_def split: if_splits)
  then show ?thesis using assms queue_open [OF assms] unfolding consume_text_def
    by (auto intro!: keeps_bind [where P = bd_open])
qed

lemma consume_reasoning_open:
  assumes "bd_open d"
  shows "bd_open (snd (consume_reasoning i c d))"
proof -
  have "bd_open (e\<lparr>bd_reasoningContent := bd_reasoningContent e @ c, bd_reasoningBytes := bd_reasoningBytes e + len c\<rparr>)"
    if "queue ev n d = (Inr u, e)" "\<not> len c > bd_maxReasoningBytes d - bd_reasoningBytes d" for ev n u e
    using queue_open [OF assms, of ev n] that
    by (auto simp: queue_def bd_open_def bd_bounds_def calls_fresh_def call_bounds_def split: if_splits)
  then show ?thesis using assms queue_open [OF assms] unfolding consume_reasoning_def
    by (auto intro!: keeps_bind [where P = bd_open])
qed

lemma consume_tools_open: "bd_open d \<Longrightarrow> bd_open (snd (consume_tools ci seen tools d))"
proof (induction tools arbitrary: seen d)
  case (Cons tool tools)
  then show ?case
    by (auto intro!: keeps_bind [where P = bd_open] consumeToolCall_open split: option.splits)
qed simp

lemma open_ignores [simp]:
  "bd_open (d\<lparr>bd_choiceFinishReasons := m\<rparr>) = bd_open d" "bd_open (d\<lparr>bd_started := b\<rparr>) = bd_open d"
  "bd_open (d\<lparr>bd_providerModel := n\<rparr>) = bd_open d" "bd_open (d\<lparr>bd_createdAt := t\<rparr>) = bd_open d"
  "bd_open (d\<lparr>bd_providerModel := n, bd_createdAt := t\<rparr>) = bd_open d" "bd_open (recordFinishReason r d) = bd_open d"
  "bd_open (d\<lparr>bd_pending := es\<rparr>) = bd_open d" "bd_open (d\<lparr>bd_terminal := b\<rparr>) = bd_open d"
  by (simp_all add: bd_open_def bd_bounds_def calls_fresh_def call_bounds_def recordFinishReason_def)

lemma consume_delta_open: "bd_open d \<Longrightarrow> bd_open (snd (consume_delta choice d))"
  unfolding consume_delta_def
  by (auto intro!: keeps_bind [where P = bd_open] consume_text_open consume_reasoning_open consume_tools_open)

lemma consume_choice_open: "bd_open d \<Longrightarrow> bd_open (snd (consume_choice choice d))"
  unfolding consume_choice_def Let_def
  by (auto intro!: keeps_bind [where P = bd_open] consume_delta_open)

lemma consume_choices_open: "bd_open d \<Longrightarrow> bd_open (snd (consume_choices seen choices d))"
  by (induction choices arbitrary: seen d) (auto intro!: keeps_bind [where P = bd_open] consume_choice_open)

lemma start_response_open: "bd_open d \<Longrightarrow> bd_open (snd (start_response chunk d))"
  unfolding start_response_def Let_def
  by (auto intro!: keeps_bind [where P = bd_open] queue_open)

lemma note_metadata_open [simp]: "bd_open (note_metadata chunk d) = bd_open d"
  by (simp add: note_metadata_def Let_def)

lemma consume_body_open: "bd_open d \<Longrightarrow> bd_open (snd (consume_body chunk d))"
  unfolding consume_body_def
  by (rule keeps_bind [where P = bd_open]) (auto simp: consume_choices_open intro: queue_open split: option.split)

lemma consumeChunk_open: "bd_open d \<Longrightarrow> bd_open (snd (consumeChunk chunk d))"
  unfolding consumeChunk_def
  by (auto intro!: keeps_bind [where P = bd_open] start_response_open consume_body_open split: option.split)

section \<open>A stream comes to an end\<close>

fun is_failed :: "StreamEvent \<Rightarrow> bool" where
  "is_failed (Failed _ _) = True"
| "is_failed _ = False"

lemma is_failed_simps [simp]: "is_failed (terminal_failure m)" "is_failed (bridgeFailure err)" "is_failed (read_failure err)"
  by (simp_all add: terminal_failure_def bridgeFailure_def read_failure_def upstream_limit_def split: stream_error.split sse_error.split)

lemma is_failed_terminal: "is_failed ev \<Longrightarrow> terminal_event ev"
  by (cases ev) simp_all

lemma finish_queues: "finish d = (Inr u, e) \<Longrightarrow> bd_pending e \<noteq> []"
  by (auto simp: finish_def finishToolCalls_def go_bind_Inr_iff Let_def dest: queue_Inr split: if_splits)

text \<open>The ways a round can go: fail, deliver the first event of the end, deliver an event of a chunk, or loop.\<close>

lemma bridge_round_cases:
  assumes "bridge_round outcome d = (r, e)"
  obtains (unread) ev where "r = Some ev" "is_failed ev" "e = d\<lparr>bd_terminal := True\<rparr>"
  | (broken) err chunk f where "consumeChunk chunk d = (Inl err, f) \<or> finish d = (Inl err, f)"
      "r = Some (bridgeFailure err)" "e = f\<lparr>bd_terminal := True, bd_pending := []\<rparr>"
  | (ended) f ev es where "finish d = (Inr (), f)" "bd_pending f = ev # es" "r = Some ev" "e = f\<lparr>bd_terminal := True, bd_pending := es\<rparr>"
  | (told) chunk f ev es where "consumeChunk chunk d = (Inr (), f)" "bd_pending f = ev # es" "r = Some ev" "e = f\<lparr>bd_pending := es\<rparr>"
  | (spent) chunk f ev where "consumeChunk chunk d = (Inr (), f)" "bd_pending f = []" "r = Some ev" "is_failed ev"
      "e = f\<lparr>bd_terminal := True\<rparr>"
  | (idle) chunk f where "consumeChunk chunk d = (Inr (), f)" "bd_pending f = []" "r = None"
      "reserveAggregateBytes bridgeStreamEventOverhead f = (Inr (), e)"
proof (cases outcome)
  case (Inl err)
  then show thesis using assms unread by (auto simp: bridge_round_def)
next
  case (Inr event)
  note outcome = this
  show thesis
  proof (cases event)
    case ErrorEvent
    then show thesis using outcome assms unread by (auto simp: bridge_round_def)
  next
    case DoneEvent
    obtain x f where f: "finish d = (x, f)" by (rule prod.exhaust)
    show thesis
    proof (cases x)
      case (Inl err)
      then show thesis using f DoneEvent outcome assms broken by (auto simp: bridge_round_def)
    next
      case (Inr u)
      then obtain ev es where "bd_pending f = ev # es" using f finish_queues by (cases "bd_pending f") blast+
      then show thesis using f Inr DoneEvent outcome assms ended by (auto simp: bridge_round_def pop_pending_def)
    qed
  next
    case (ChunkEvent chunk)
    obtain x f where f: "consumeChunk chunk d = (x, f)" by (rule prod.exhaust)
    obtain y g where g: "reserveAggregateBytes bridgeStreamEventOverhead f = (y, g)" by (rule prod.exhaust)
    have gf: "y = Inl err \<Longrightarrow> g = f" for err using g by (auto simp: reserveAggregateBytes_def split: if_splits)
    show thesis
    proof (cases x)
      case (Inl err)
      then show thesis using f ChunkEvent outcome assms broken by (auto simp: bridge_round_def)
    next
      case (Inr u)
      note round = f Inr ChunkEvent outcome assms bridge_round_def pop_pending_def
      show thesis
      proof (cases "bd_pending f")
        case Nil
        show thesis
        proof (cases y)
          case (Inl e')
          then show thesis using Nil g gf [OF Inl] spent round by auto
        next
          case (Inr v)
          then show thesis using Nil g idle round by auto
        qed
      next
        case (Cons ev es)
        then show thesis using told round by auto
      qed
    qed
  qed
qed

text \<open>What is left to spend, in bytes: the budget, the queued events and the terminal event to come.\<close>

definition bd_left :: "BridgeStreamDecoder \<Rightarrow> nat" where
  "bd_left d = nat (bd_maxAggregateBytes d - bd_aggregateBytes d) + 64 * length (bd_pending d) + (if bd_terminal d then 0 else 64)"

lemma advances_left:
  assumes "advances K d e"
  shows "bd_left e \<le> bd_left d" "bd_terminal e = bd_terminal d"
proof -
  from assms obtain es where "bd_pending e = bd_pending d @ es" "bd_aggregateBytes d + 64 * len es \<le> bd_aggregateBytes e"
    and "bd_limits e = bd_limits d" "bd_terminal e = bd_terminal d"
    "bd_aggregateBytes e = bd_aggregateBytes d \<or> bd_aggregateBytes e \<le> bd_maxAggregateBytes e"
    by (auto simp: advances_def)
  then show "bd_left e \<le> bd_left d" "bd_terminal e = bd_terminal d" by (auto simp: bd_left_def bd_limits_def)
qed

lemma left_simps:
  "\<not> bd_terminal f \<Longrightarrow> bd_left (f\<lparr>bd_terminal := True\<rparr>) + 64 = bd_left f"
  "\<not> bd_terminal f \<Longrightarrow> bd_left (f\<lparr>bd_terminal := True, bd_pending := []\<rparr>) + 64 \<le> bd_left f"
  "bd_pending f = ev # es \<Longrightarrow> bd_left (f\<lparr>bd_pending := es\<rparr>) + 64 = bd_left f"
  "bd_pending f = ev # es \<Longrightarrow> bd_left (f\<lparr>bd_terminal := True, bd_pending := es\<rparr>) + 64 \<le> bd_left f"
  by (simp_all add: bd_left_def)

lemma bridge_round_left:
  assumes "bridge_round outcome d = (r, e)" "\<not> bd_terminal d"
  shows "bd_left e + (if r = None then 0 else 64) \<le> bd_left d"
proof -
  have chunk: "bd_left f \<le> bd_left d \<and> \<not> bd_terminal f" if "consumeChunk chunk d = (x, f)" for chunk x f
    using advances_left [OF consumeChunk_advances [of d chunk]] that assms(2) by simp
  have fin: "bd_left f \<le> bd_left d \<and> \<not> bd_terminal f" if "finish d = (x, f)" for x f
    using advances_left [OF finish_advances, of d] that assms(2) by simp
  from assms(1) show ?thesis
  proof (cases rule: bridge_round_cases)
    case unread
    then show ?thesis using left_simps(1) [of d] assms(2) by simp
  next
    case (broken err chunk f)
    then show ?thesis using chunk [of chunk _ f] fin [of _ f] left_simps(2) [of f] by fastforce
  next
    case (ended f ev es)
    then show ?thesis using fin [of _ f] left_simps(4) [of f] by fastforce
  next
    case (told chunk f ev es)
    then show ?thesis using chunk [of chunk _ f] left_simps(3) [of f] by fastforce
  next
    case (spent chunk f)
    then show ?thesis using chunk [of chunk _ f] left_simps(1) [of f] by fastforce
  next
    case (idle chunk f)
    then show ?thesis using chunk [of chunk _ f] advances_left(1) [OF reserve_advances [of _ f bridgeStreamEventOverhead]] by fastforce
  qed
qed

text \<open>Reasoning about one call of \<open>Next\<close>: an event is popped, the stream is over, or rounds are made.\<close>

lemma bridge_Next_rule [consumes 1, case_names popped over round loop]:
  assumes "bridge_Next next p d = (r, p', e)"
    and "\<And>d ev es. bd_pending d = ev # es \<Longrightarrow> P d (Some ev) (d\<lparr>bd_pending := es\<rparr>)"
    and "\<And>d. bd_pending d = [] \<Longrightarrow> bd_terminal d \<Longrightarrow> P d None d"
    and "\<And>d outcome ev e. bd_pending d = [] \<Longrightarrow> \<not> bd_terminal d \<Longrightarrow> bridge_round outcome d = (Some ev, e) \<Longrightarrow> P d (Some ev) e"
    and "\<And>d outcome f r e. bd_pending d = [] \<Longrightarrow> \<not> bd_terminal d \<Longrightarrow> bridge_round outcome d = (None, f) \<Longrightarrow> P f r e \<Longrightarrow> P d r e"
  shows "P d r e"
  using assms(1)
proof (induction "next" p d rule: bridge_Next.induct)
  case (1 "next" p d)
  show ?case
  proof (cases "bd_pending d")
    case (Cons x xs)
    then show ?thesis using "1.prems" assms(2) [OF Cons] by (subst (asm) bridge_Next.simps) (auto simp: pop_pending_def)
  next
    case Nil
    then have pop: "pop_pending d = (None, d)" by (simp add: pop_pending_def)
    obtain o' q where n: "next p = (o', q)" by (rule prod.exhaust)
    obtain r' f where r: "bridge_round o' d = (r', f)" by (rule prod.exhaust)
    consider "bd_terminal d" | "\<not> bd_terminal d" "r' = None" | x where "\<not> bd_terminal d" "r' = Some x" by (cases r') auto
    then show ?thesis
    proof cases
      case 1
      then show ?thesis using "1.prems" pop assms(3) [OF Nil] by (subst (asm) bridge_Next.simps) auto
    next
      case 2
      have "bridge_Next next q f = (r, p', e)" using "1.prems" pop n r 2 by (subst (asm) bridge_Next.simps) simp
      then have "P f r e" using "1.IH" [OF pop [symmetric] refl 2(1) n [symmetric] r [unfolded 2(2), symmetric] refl] by blast
      then show ?thesis using assms(5) [OF Nil 2(1)] r 2(2) by blast
    next
      case 3
      then show ?thesis using "1.prems" pop n r assms(4) [OF Nil 3(1)] by (subst (asm) bridge_Next.simps) auto
    qed
  qed
qed

lemma bridge_Next_left:
  assumes "bridge_Next next p d = (r, p', e)"
  shows "bd_left e + (if r = None then 0 else 64) \<le> bd_left d"
  using assms
proof (induction rule: bridge_Next_rule)
  case (popped d ev es)
  then show ?case using left_simps(3) [of d] by simp
next
  case (round d outcome ev e)
  then show ?case using bridge_round_left by fastforce
next
  case (loop d outcome f r e)
  then show ?case using bridge_round_left [OF loop(3,2)] by simp
qed simp

text \<open>Every event of a stream, as a caller that reads to the end sees them, and the decoder it leaves.\<close>

function bridge_run ::
  "('p \<Rightarrow> (stream_error + ChatCompletionStreamEvent) \<times> 'p) \<Rightarrow> 'p \<Rightarrow> BridgeStreamDecoder \<Rightarrow> StreamEvent list \<times> 'p \<times> BridgeStreamDecoder" where
  "bridge_run next p d =
     (case bridge_Next next p d of
        (None, p', e) \<Rightarrow> ([], p', e)
      | (Some ev, p', e) \<Rightarrow> (case bridge_run next p' e of (es, q, f) \<Rightarrow> (ev # es, q, f)))"
  by pat_completeness auto
termination
  by (relation "measure (\<lambda>(_, _, d). bd_left d)") (auto dest!: bridge_Next_left [OF sym])

declare bridge_run.simps [simp del]

section \<open>The terminal boundary keeps the bounds\<close>

lemma put_same_bounds:
  assumes "bd_bounds d" "map_of (bd_calls d) k = Some c" "call_bounds d k c \<Longrightarrow> call_bounds d k c'"
  shows "bd_bounds (put_call c' d)"
proof -
  have c: "call_bounds d k c" using assms by (auto simp: bd_bounds_def)
  then have "call_bounds d k c'" "pc_key c' = k" using assms(3) by (auto simp: call_bounds_def)
  then show ?thesis using put_call_bounds [OF assms(1), of c'] assms(2) by simp
qed

definition in_table :: "ToolCallKey \<Rightarrow> BridgeStreamDecoder \<Rightarrow> bool" where
  "in_table k d \<longleftrightarrow> bd_bounds d \<and> map_of (bd_calls d) k \<noteq> None"

lemma in_table_put:
  assumes "in_table (pc_key c) d" "call_bounds d (pc_key c) c"
  shows "in_table (pc_key c) (put_call c d)"
  using assms put_call_bounds [of d c] by (simp add: in_table_def)

lemma in_table_queue: "in_table k d \<Longrightarrow> in_table k (snd (queue ev n d))"
  using queue_bounds [of d ev n] by (simp add: in_table_def)

lemma queue_limits: "queue ev n d = (r, e) \<Longrightarrow> bd_limits e = bd_limits d"
  by (auto simp: queue_def bd_limits_def split: if_splits)

lemma ensureToolStarted_bounds:
  assumes "bd_bounds d" "map_of (bd_calls d) k = Some c"
  shows "bd_bounds (snd (ensureToolStarted c d))"
proof -
  have c: "call_bounds d k c" "pc_key c = k" using assms by (auto simp: bd_bounds_def call_bounds_def)
  have step: "bd_bounds (snd (go_bind (queue ev n (put_call s d))
      (\<lambda>_ d. if b then queue ev' m (put_call s' d) else (Inr (), put_call s' d))))"
    if "call_bounds d k s" "call_bounds d k s'" "pc_key s = k" "pc_key s' = k" for ev n s b ev' m s'
  proof -
    have s: "in_table k (put_call s d)" using in_table_put [of s d] that assms by (simp add: in_table_def)
    have "in_table k (put_call s' f)" if "queue ev n (put_call s d) = (Inr u, f)" for u f
    proof -
      have "bd_limits f = bd_limits d" using queue_limits [OF that] by (simp add: put_call_def bd_limits_def)
      from call_bounds_cong [OF this] have "call_bounds f k s'" using \<open>call_bounds d k s'\<close> by simp
      moreover have "in_table k f" using in_table_queue [OF s, of ev n] that by simp
      ultimately show ?thesis using in_table_put [of s' f] \<open>pc_key s' = k\<close> by simp
    qed
    then show ?thesis using s queue_bounds
      by (intro keeps_bind [where P = bd_bounds]) (auto simp: in_table_def)
  qed
  have "call_bounds d k (c\<lparr>pc_registration := r, pc_kind := kd, pc_started := st\<rparr>)" for r kd st
    using c(1) by (simp add: call_bounds_def)
  moreover have "call_bounds d k (c\<lparr>pc_kind := kd\<rparr>)" "call_bounds d k (c\<lparr>pc_kind := kd, pc_started := st\<rparr>)"
    "call_bounds d k (c\<lparr>pc_registration := r, pc_kind := kd\<rparr>)" for kd st r
    using c(1) by (simp_all add: call_bounds_def)
  ultimately show ?thesis using assms(1) c(2) unfolding ensureToolStarted_def Let_def
    by (auto split: option.split intro!: step)
qed

lemma start_call_bounds: "bd_bounds d \<Longrightarrow> bd_bounds (snd (start_call k d))"
  unfolding start_call_def
  by (auto intro!: keeps_bind [where P = bd_bounds] intro: ensureToolStarted_bounds split: option.split)

lemma complete_call_bounds:
  assumes "bd_bounds d" "map_of (bd_calls d) k = Some c"
  shows "bd_bounds (snd (complete_call c d))"
proof -
  have "bd_bounds (put_call (c\<lparr>pc_completed := True\<rparr>) d)"
    using assms by (rule put_same_bounds) (simp add: call_bounds_def)
  then show ?thesis unfolding complete_call_def Let_def
    by (auto intro!: keeps_bind [where P = bd_bounds] queue_bounds split: sum.split)
qed

lemma complete_calls_bounds: "bd_bounds d \<Longrightarrow> bd_bounds (snd (complete_calls ids keys d))"
proof (induction keys arbitrary: ids d)
  case (Cons k keys)
  show ?case
  proof (cases "map_of (bd_calls d) k")
    case None
    then show ?thesis using Cons by simp
  next
    case (Some c)
    have "bd_bounds (snd (go_bind (complete_call c d) (\<lambda>_. complete_calls i keys)))" for i
      using complete_call_bounds [OF Cons.prems Some] Cons.IH by (intro keeps_bind [where P = bd_bounds]) auto
    then show ?thesis using Some Cons by (simp add: Let_def)
  qed
qed simp

lemma bounds_ignores [simp]:
  "bd_bounds (d\<lparr>bd_finalized := b\<rparr>) = bd_bounds d" "bd_bounds (d\<lparr>bd_finalized := b, bd_toolTurn := c\<rparr>) = bd_bounds d"
  "bd_bounds (d\<lparr>bd_terminal := t\<rparr>) = bd_bounds d" "bd_bounds (d\<lparr>bd_pending := es\<rparr>) = bd_bounds d"
  "bd_bounds (d\<lparr>bd_terminal := t, bd_pending := es\<rparr>) = bd_bounds d"
  by (simp_all add: bd_bounds_def call_bounds_def)

lemma finish_bounds:
  assumes "bd_bounds d"
  shows "bd_bounds (snd (finish d))"
proof -
  have "bd_bounds (snd (go_for start_call keys d))" for keys
    using assms by (rule keeps_for [where P = bd_bounds]) (simp add: start_call_bounds)
  then have "bd_bounds (snd (finishToolCalls d))" unfolding finishToolCalls_def Let_def
    by (auto intro!: keeps_bind [where P = bd_bounds] complete_calls_bounds queue_bounds)
  then show ?thesis using assms by (auto simp: finish_def intro!: queue_bounds)
qed

section \<open>The order of the events\<close>

lemma start_events_tools: "list_all tool_event (start_events c)" "list_all tool_event (complete_events c)"
  by (simp_all add: start_events_def complete_events_def)

lemma finish_closing:
  assumes "finish d = (Inr u, e)" "bd_open d" "bd_pending d = []"
  shows "closing (bd_pending e)"
proof (cases "\<not> (bd_finishConflict d \<or> bd_finishReason d = []) \<and> bd_finishReason d = ''tool_calls''")
  case True
  then have "finishToolCalls d = (Inr u, e)" using assms(1) by (simp add: finish_def)
  from finishToolCalls_ok [OF this] assms(2,3) True
  have "bd_pending e = (concat (map start_events (turn_calls d)) @ concat (map complete_events (turn_calls d))) @ [Completed ''tool_calls'']"
    by (simp add: bd_open_def)
  moreover have "list_all tool_event (concat (map start_events (turn_calls d)) @ concat (map complete_events (turn_calls d)))"
    using start_events_tools by (fastforce simp: list_all_iff)
  ultimately show ?thesis unfolding closing_def by (metis terminal_event.simps(1))
next
  case False
  then show ?thesis using assms(1,3) by (auto simp: finish_def terminal_failure_def closing_single dest!: queue_Inr split: if_splits)
qed

lemma start_response_first:
  assumes "start_response chunk d = (Inr u, e)"
  shows "bd_started e \<and> bd_pending e = bd_pending d @
    (if bd_started d then [] else [ResponseStarted (ck_ID chunk) (if ck_Created chunk \<noteq> 0 then time_Unix (ck_Created chunk) else zero_time) (ck_Model chunk)])"
  using assms by (auto simp: start_response_def go_bind_Inr_iff Let_def queue_def split: if_splits)

definition told_ok :: "bool \<Rightarrow> StreamEvent list \<Rightarrow> bool" where
  "told_ok first es \<longleftrightarrow>
     (if first then es = [] \<or> opening_event (hd es) \<and> list_all chunk_event (tl es) else list_all chunk_event es)"

text \<open>The response's first event is still to come.\<close>

definition opens :: "BridgeStreamDecoder \<Rightarrow> bool" where
  "opens d \<longleftrightarrow> \<not> bd_started d \<or> list_ex opening_event (bd_pending d)"

definition bd_phase :: "BridgeStreamDecoder \<Rightarrow> bool" where
  "bd_phase d \<longleftrightarrow>
     (if bd_terminal d then bd_bounds d \<and> (bd_pending d = [] \<or> closing (bd_pending d))
      else bd_open d \<and> told_ok (opens d) (bd_pending d) \<and> (bd_pending d \<noteq> [] \<longrightarrow> bd_started d)
        \<and> (\<not> bd_started d \<longrightarrow> bd_finishReason d = []))"

lemma NewBridgeStreamDecoder_phase: "bd_phase (NewBridgeStreamDecoder options)"
  using NewBridgeStreamDecoder_open [of options]
  by (simp add: bd_phase_def told_ok_def NewBridgeStreamDecoder_def Let_def)

lemma not_opening: "chunk_event ev \<Longrightarrow> \<not> opening_event ev"
  by (cases ev) simp_all

lemma told_pop:
  assumes "told_ok b (ev # es)"
  shows "(if b then opening_event ev else chunk_event ev)" "\<not> list_ex opening_event es" "list_all chunk_event es"
  using assms not_opening by (auto simp: told_ok_def list_all_iff list_ex_iff split: if_splits)

lemma consumeChunk_told:
  assumes "consumeChunk chunk d = (Inr u, e)" "bd_pending d = []"
  shows "bd_started e" "told_ok (\<not> bd_started d) (bd_pending e)" "\<not> bd_started d \<Longrightarrow> bd_pending e \<noteq> []"
proof -
  from assms(1) obtain f where f: "start_response chunk d = (Inr (), f)" "consume_body chunk f = (Inr u, e)"
    by (auto simp: consumeChunk_def go_bind_Inr_iff split: option.splits)
  note first = start_response_first [OF f(1)]
  from consume_body_advances [of f chunk] f(2) obtain es where "bd_pending e = bd_pending f @ es" "list_all chunk_event es" "bd_started e"
    using first by (auto simp: advances_def)
  then show "bd_started e" "told_ok (\<not> bd_started d) (bd_pending e)" "\<not> bd_started d \<Longrightarrow> bd_pending e \<noteq> []"
    using first assms(2) by (auto simp: told_ok_def)
qed

text \<open>What has been delivered, text and reasoning, and what the queue holds make what is retained.\<close>

definition delivered :: "gostring \<Rightarrow> gostring \<Rightarrow> BridgeStreamDecoder \<Rightarrow> bool" where
  "delivered t r d \<longleftrightarrow> bd_assistantContent d = t @ texts (bd_pending d) \<and> bd_reasoningContent d = r @ reasonings (bd_pending d)"

text \<open>The last round of a stream: from a state with nothing queued to one that has only its end to deliver.\<close>

definition last_round :: "gostring \<Rightarrow> gostring \<Rightarrow> BridgeStreamDecoder \<Rightarrow> StreamEvent \<Rightarrow> BridgeStreamDecoder \<Rightarrow> bool" where
  "last_round t r d ev e \<longleftrightarrow> bd_phase d \<and> bd_pending d = [] \<and> \<not> bd_terminal d \<and> delivered t r d
     \<and> (\<exists>outcome. bridge_round outcome d = (Some ev, e)) \<and> bd_terminal e"

text \<open>What one call of \<open>Next\<close> does.\<close>

definition Next_ok :: "gostring \<Rightarrow> gostring \<Rightarrow> BridgeStreamDecoder \<Rightarrow> StreamEvent option \<Rightarrow> BridgeStreamDecoder \<Rightarrow> bool" where
  "Next_ok t r d out e \<longleftrightarrow> bd_phase e \<and> bd_limits e = bd_limits d \<and>
     (case out of
        None \<Rightarrow> bd_terminal d \<and> bd_pending d = [] \<and> e = d
      | Some ev \<Rightarrow>
          if bd_terminal d then e = d\<lparr>bd_pending := bd_pending e\<rparr> \<and> bd_pending d = ev # bd_pending e
          else if bd_terminal e then closing (ev # bd_pending e) \<and> (opens d \<longrightarrow> is_failed ev)
             \<and> (\<exists>d'. last_round t r d' ev e \<and> bd_limits d' = bd_limits d)
          else (if opens d then opening_event ev else chunk_event ev) \<and> \<not> opens e
             \<and> delivered (t @ event_text ev) (r @ event_reasoning ev) e)"

lemma bd_open_bounds: "bd_open d \<Longrightarrow> bd_bounds d"
  by (simp add: bd_open_def)

lemma closing_failed: "is_failed ev \<Longrightarrow> closing [ev]"
  by (rule closing_single) (rule is_failed_terminal)

lemma closing_tl: "closing (ev # es) \<Longrightarrow> es = [] \<or> closing es"
  by (auto simp: closing_def Cons_eq_append_conv)

lemma limits_ignore [simp]:
  "bd_limits (d\<lparr>bd_pending := es\<rparr>) = bd_limits d" "bd_limits (d\<lparr>bd_terminal := b\<rparr>) = bd_limits d"
  "bd_limits (d\<lparr>bd_terminal := b, bd_pending := es\<rparr>) = bd_limits d"
  by (simp_all add: bd_limits_def)

lemma finish_unstarted:
  assumes "finish d = (Inr u, e)" "bd_finishReason d = []" "bd_pending d = []"
  shows "\<exists>ev. bd_pending e = [ev] \<and> is_failed ev"
  using assms by (auto simp: finish_def terminal_failure_def dest: queue_Inr)

lemma bridge_round_ok:
  assumes "bridge_round outcome d = (out, e)" "bd_phase d" "bd_pending d = []" "\<not> bd_terminal d" "delivered t r d"
  shows "case out of None \<Rightarrow> bd_phase e \<and> \<not> bd_terminal e \<and> bd_pending e = [] \<and> bd_started d \<and> bd_started e
      \<and> bd_limits e = bd_limits d \<and> delivered t r e
    | Some ev \<Rightarrow> Next_ok t r d out e"
proof -
  have op: "bd_open d" using assms(2,4) by (simp add: bd_phase_def)
  have chunk: "bd_open f \<and> \<not> bd_terminal f \<and> bd_limits f = bd_limits d \<and> delivered t r f" if "consumeChunk chunk d = (x, f)" for chunk x f
    using consumeChunk_open [OF op, of chunk] consumeChunk_advances [of d chunk] that assms(3-5)
    by (auto simp: advances_def delivered_def)
  have fin: "bd_bounds f \<and> bd_limits f = bd_limits d" if "finish d = (x, f)" for x f
    using finish_bounds [OF bd_open_bounds [OF op]] finish_advances [of d] that by (auto simp: advances_def)
  have opens: "opens d \<longleftrightarrow> \<not> bd_started d" using assms(3) by (simp add: opens_def)
  have last: "last_round t r d ev e" if "out = Some ev" "bd_terminal e" for ev
    using that assms by (auto simp: last_round_def)
  from assms(1) show ?thesis
  proof (cases rule: bridge_round_cases)
    case (unread ev)
    then show ?thesis using assms(3,4) op last [of ev]
      by (auto simp: Next_ok_def bd_phase_def bd_open_def intro!: closing_failed)
  next
    case (broken err chunk f)
    then have "bd_bounds f \<and> bd_limits f = bd_limits d" using chunk fin bd_open_bounds by fastforce
    then show ?thesis using broken(2,3) assms(4) last by (auto simp: Next_ok_def bd_phase_def intro!: closing_failed)
  next
    case (ended f ev es)
    have c: "closing (ev # es)" using finish_closing [OF ended(1) op assms(3)] ended(2) by simp
    have "is_failed ev" if "opens d"
      using finish_unstarted [OF ended(1) _ assms(3)] that opens assms(2,4) ended(2) by (auto simp: bd_phase_def)
    then show ?thesis using c closing_tl [OF c] ended(3,4) assms(4) fin [OF ended(1)] last by (auto simp: Next_ok_def bd_phase_def)
  next
    case (told chunk f ev es)
    note t = consumeChunk_told [OF told(1) assms(3)]
    note pop = told_pop [OF t(2) [unfolded told(2)]]
    then show ?thesis using told(2-4) t(1) chunk [OF told(1)] assms(4) opens
      by (auto simp: Next_ok_def bd_phase_def opens_def told_ok_def delivered_def)
  next
    case (spent chunk f ev)
    then have "bd_started d" using consumeChunk_told(3) [OF spent(1) assms(3)] by blast
    then show ?thesis using spent chunk [OF spent(1)] assms(4) last opens
      by (auto simp: Next_ok_def bd_phase_def bd_open_def intro!: closing_failed)
  next
    case (idle chunk f)
    note t = consumeChunk_told [OF idle(1) assms(3)]
    have "bd_open e" using reserve_open [of f] chunk [OF idle(1)] idle(4) by (metis snd_conv)
    moreover have "bd_terminal e = bd_terminal f" "bd_pending e = bd_pending f" "bd_started e = bd_started f" "bd_limits e = bd_limits f"
      "delivered t r e = delivered t r f"
      using idle(4) by (auto simp: reserveAggregateBytes_def bd_limits_def delivered_def split: if_splits)
    ultimately show ?thesis using t idle(2,3) chunk [OF idle(1)] by (auto simp: bd_phase_def told_ok_def)
  qed
qed

lemma bridge_Next_ok:
  assumes "bridge_Next next p d = (out, p', e)" "bd_phase d" "\<not> bd_terminal d \<longrightarrow> delivered t r d"
  shows "Next_ok t r d out e"
  using assms
proof (induction rule: bridge_Next_rule)
  case (popped d ev es)
  show ?case
  proof (cases "bd_terminal d")
    case True
    with popped have "es = [] \<or> closing es" using closing_tl by (auto simp: bd_phase_def)
    then show ?thesis using popped True by (simp add: Next_ok_def bd_phase_def)
  next
    case False
    then have b: "bd_open d" "told_ok (opens d) (ev # es)" "bd_started d" using popped by (auto simp: bd_phase_def)
    from told_pop [OF b(2)] show ?thesis using b(1,3) popped False
      by (auto simp: Next_ok_def bd_phase_def opens_def told_ok_def delivered_def)
  qed
next
  case (over d)
  then show ?case by (simp add: Next_ok_def)
next
  case (round d outcome ev e)
  then show ?case using bridge_round_ok [OF round(3,4,1,2)] by simp
next
  case (loop d outcome f out e)
  have f: "bd_phase f \<and> \<not> bd_terminal f \<and> bd_pending f = [] \<and> bd_started d \<and> bd_started f \<and> bd_limits f = bd_limits d \<and> delivered t r f"
    using bridge_round_ok [OF loop(3) loop(5,1,2)] loop(2,6) by simp
  with loop(4) have "Next_ok t r f out e" by blast
  moreover have "opens d \<longleftrightarrow> opens f" using f loop(1) by (simp add: opens_def)
  ultimately show ?case using f loop(2) by (auto simp: Next_ok_def split: option.splits)
qed

section \<open>Whole streams\<close>

lemma bridge_run_terminal:
  assumes "bridge_run next p d = (es, q, e)" "bd_terminal d"
  shows "es = bd_pending d \<and> q = p \<and> e = d\<lparr>bd_pending := []\<rparr>"
  using assms
proof (induction "bd_pending d" arbitrary: d es q e)
  case Nil
  have "bridge_Next next p d = (None, p, d)" using Nil by (subst bridge_Next.simps) (simp add: pop_pending_def)
  then show ?case using Nil by (subst (asm) bridge_run.simps) simp
next
  case (Cons ev evs)
  have n: "bridge_Next next p d = (Some ev, p, d\<lparr>bd_pending := evs\<rparr>)"
    using Cons(2) [symmetric] by (subst bridge_Next.simps) (simp add: pop_pending_def)
  obtain fs q' f where r: "bridge_run next p (d\<lparr>bd_pending := evs\<rparr>) = (fs, q', f)" by (rule prod_cases3)
  have "fs = evs \<and> q' = p \<and> f = d\<lparr>bd_pending := []\<rparr>" using Cons(1) [OF _ r] Cons(4) by simp
  then show ?case using Cons(2) [symmetric] Cons(3) r n by (subst (asm) bridge_run.simps) simp
qed

lemma bridge_run_split:
  assumes "bridge_run next p d = (es, q, e)" "bd_phase d" "\<not> bd_terminal d" "delivered t r d"
  shows "\<exists>told d' ev f. es = told @ ev # bd_pending f \<and> e = f\<lparr>bd_pending := []\<rparr> \<and> told_ok (opens d) told
    \<and> closing (ev # bd_pending f) \<and> (opens d \<and> told = [] \<longrightarrow> is_failed ev)
    \<and> last_round (t @ texts told) (r @ reasonings told) d' ev f \<and> bd_limits d' = bd_limits d"
  using assms
proof (induction "next" p d arbitrary: es q e t r rule: bridge_run.induct)
  case (1 "next" p d)
  obtain out p' f where n: "bridge_Next next p d = (out, p', f)" by (rule prod_cases3)
  have ok: "Next_ok t r d out f" using bridge_Next_ok [OF n "1.prems"(2)] "1.prems"(4) by blast
  then obtain ev where out: "out = Some ev" using "1.prems"(3) by (cases out) (auto simp: Next_ok_def)
  obtain fs q' g where run: "bridge_run next p' f = (fs, q', g)" by (rule prod_cases3)
  have es: "es = ev # fs" "e = g" using "1.prems"(1) n out run by (subst (asm) bridge_run.simps; simp)+
  show ?case
  proof (cases "bd_terminal f")
    case True
    from bridge_run_terminal [OF run True] have "es = ev # bd_pending f" "e = f\<lparr>bd_pending := []\<rparr>" using es by simp_all
    moreover obtain d' where "last_round t r d' ev f" "bd_limits d' = bd_limits d" "closing (ev # bd_pending f)" "opens d \<longrightarrow> is_failed ev"
      using ok out True "1.prems"(3) by (auto simp: Next_ok_def)
    ultimately show ?thesis by (intro exI [of _ "[]"] exI [of _ d'] exI [of _ ev] exI [of _ f]) (simp add: told_ok_def)
  next
    case False
    have f: "bd_phase f" "delivered (t @ event_text ev) (r @ event_reasoning ev) f" "if opens d then opening_event ev else chunk_event ev"
      "\<not> opens f" "bd_limits f = bd_limits d"
      using ok out False "1.prems"(3) by (auto simp: Next_ok_def split: if_splits)
    from "1.IH" [OF n [symmetric] out refl run f(1) False f(2)]
    obtain told d' ev' f' where s: "fs = told @ ev' # bd_pending f'" "g = f'\<lparr>bd_pending := []\<rparr>" "told_ok (opens f) told"
      "closing (ev' # bd_pending f')"
      "last_round ((t @ event_text ev) @ texts told) ((r @ event_reasoning ev) @ reasonings told) d' ev' f'" "bd_limits d' = bd_limits f"
      by blast
    show ?thesis using s es f(3-5)
      by (intro exI [of _ "ev # told"] exI [of _ d'] exI [of _ ev'] exI [of _ f']) (auto simp: told_ok_def)
  qed
qed

lemma bridge_Next_eof:
  assumes "bridge_Next next p d = (None, p', e)"
  shows "bridge_Next next' q e = (None, q, e)"
proof -
  have "out = None \<longrightarrow> bd_terminal e \<and> bd_pending e = []" if "bridge_Next next p d = (out, p', e)" for out
    using that by (induction rule: bridge_Next_rule) simp_all
  then show ?thesis using assms by (subst bridge_Next.simps) (simp add: pop_pending_def)
qed

lemma bridge_run_left:
  assumes "bridge_run next p d = (es, q, e)"
  shows "64 * length es + bd_left e \<le> bd_left d \<and> bridge_Next next' q' e = (None, q', e)"
  using assms
proof (induction "next" p d arbitrary: es q e rule: bridge_run.induct)
  case (1 "next" p d)
  obtain out p' f where n: "bridge_Next next p d = (out, p', f)" by (rule prod_cases3)
  note left = bridge_Next_left [OF n]
  show ?case
  proof (cases out)
    case None
    then have "es = [] \<and> e = f" using "1.prems" n by (subst (asm) bridge_run.simps) simp
    then show ?thesis using left None bridge_Next_eof [OF n [unfolded None]] by simp
  next
    case (Some ev)
    obtain fs q'' g where run: "bridge_run next p' f = (fs, q'', g)" by (rule prod_cases3)
    have "es = ev # fs \<and> e = g" using "1.prems" n Some run by (subst (asm) bridge_run.simps) simp
    then show ?thesis using "1.IH" [OF n [symmetric] Some refl run] left Some by simp
  qed
qed

text \<open>The order of a stream's events, seen from outside.\<close>

definition stream_order :: "StreamEvent list \<Rightarrow> bool" where
  "stream_order es \<longleftrightarrow>
     (\<exists>code msg. es = [Failed code msg])
     \<or> (\<exists>id at model told tools last.
          es = ResponseStarted id at model # told @ tools @ [last]
          \<and> list_all chunk_event told \<and> list_all tool_event tools \<and> terminal_event last
          \<and> (tools \<noteq> [] \<longrightarrow> last = Completed ''tool_calls''))"

lemma stream_orderI:
  assumes "es = told @ rest" "told_ok True told" "closing rest" "told = [] \<longrightarrow> is_failed (hd rest)"
  shows "stream_order es"
proof (cases told)
  case Nil
  from assms(3) obtain ts t where "rest = ts @ [t]" "list_all tool_event ts" "terminal_event t" by (auto simp: closing_def)
  moreover have "is_failed (hd rest)" using assms(4) Nil by simp
  ultimately have "ts = []" "is_failed t" by (cases ts; auto elim: tool_event.elims)+
  then show ?thesis using \<open>rest = ts @ [t]\<close> assms(1) Nil by (cases t) (auto simp: stream_order_def)
next
  case (Cons ev cs)
  then obtain i a m where "ev = ResponseStarted i a m" "list_all chunk_event cs" using assms(2) by (cases ev) (auto simp: told_ok_def)
  moreover from assms(3) obtain ts t where "rest = ts @ [t]" "list_all tool_event ts" "terminal_event t" "ts \<noteq> [] \<longrightarrow> t = Completed ''tool_calls''"
    by (auto simp: closing_def)
  ultimately show ?thesis using assms(1) Cons unfolding stream_order_def by (intro disjI2) auto
qed

lemma fresh_delivered: "delivered [] [] (NewBridgeStreamDecoder options)" "\<not> bd_terminal (NewBridgeStreamDecoder options)"
  "opens (NewBridgeStreamDecoder options)"
  by (simp_all add: delivered_def NewBridgeStreamDecoder_def Let_def opens_def)

lemma bridge_run_fresh:
  assumes "bridge_run next p (NewBridgeStreamDecoder options) = (es, q, e)"
  obtains told d ev f where "es = told @ ev # bd_pending f" "e = f\<lparr>bd_pending := []\<rparr>" "told_ok True told"
    "closing (ev # bd_pending f)" "told = [] \<longrightarrow> is_failed ev" "last_round (texts told) (reasonings told) d ev f"
    "bd_limits d = bd_limits (NewBridgeStreamDecoder options)"
  using bridge_run_split [OF assms NewBridgeStreamDecoder_phase fresh_delivered(2,1)] fresh_delivered(3) [of options]
  by (simp only: append_Nil) blast

lemma bridge_run_order:
  assumes "bridge_run next p (NewBridgeStreamDecoder options) = (es, q, e)"
  shows "stream_order es"
  using assms
proof (rule bridge_run_fresh)
  fix told ev f
  assume "es = told @ ev # bd_pending f" "told_ok True told" "closing (ev # bd_pending f)" "told = [] \<longrightarrow> is_failed ev"
  then show ?thesis by (intro stream_orderI [of es told "ev # bd_pending f"]) simp_all
qed

text \<open>
  C5: Whatever the upstream provider sends, the events a stream delivers come in one order: a single
  failure, or the start of the response, then text, reasoning and usage, then tool events, then exactly
  one terminal event; and tool events are delivered only before the completion of a tool turn.
\<close>

theorem stream_events_ordered:
  "stream_order (fst (bridge_run next p (NewBridgeStreamDecoder options)))"
proof -
  obtain es q e where r: "bridge_run next p (NewBridgeStreamDecoder options) = (es, q, e)" by (rule prod_cases3)
  from bridge_run_order [OF r] show ?thesis using r by simp
qed

lemma event_bound: "64 * n \<le> m + 64 \<Longrightarrow> n \<le> m div 64 + 1" for n m :: int
  by simp

lemma stream_order_end:
  assumes "stream_order es"
  shows "es \<noteq> []" "terminal_event (last es)" "list_all (\<lambda>ev. \<not> terminal_event ev) (butlast es)"
proof -
  have plain: "\<not> terminal_event ev" if "chunk_event ev \<or> tool_event ev \<or> opening_event ev" for ev
    using that by (cases ev) auto
  show "es \<noteq> []" "terminal_event (last es)" "list_all (\<lambda>ev. \<not> terminal_event ev) (butlast es)"
    using assms plain by (auto simp: stream_order_def butlast_append list_all_iff)
qed

text \<open>
  C6: Every stream ends, whatever the upstream provider sends and even if it never stops sending: the
  decoder delivers at least one event and at most one for each 64 bytes of its aggregate budget and one more; the last
  of them, and no other, is terminal; and from then on \<open>Next\<close> reports the end of the stream, whatever source it is
  given, without reading from it and without changing the decoder.
\<close>

theorem stream_ends:
  "case bridge_run next p (NewBridgeStreamDecoder options) of (es, q, e) \<Rightarrow>
     len es \<le> MaxAggregateBytes (withDefaults (bo_SSE options)) div 64 + 1
     \<and> es \<noteq> [] \<and> terminal_event (last es) \<and> list_all (\<lambda>ev. \<not> terminal_event ev) (butlast es)
     \<and> bridge_Next next' q' e = (None, q', e)"
proof -
  obtain es q e where r: "bridge_run next p (NewBridgeStreamDecoder options) = (es, q, e)" by (rule prod_cases3)
  have left: "bd_left (NewBridgeStreamDecoder options) = nat (MaxAggregateBytes (withDefaults (bo_SSE options))) + 64"
    by (simp add: bd_left_def NewBridgeStreamDecoder_def Let_def)
  have "0 \<le> MaxAggregateBytes (withDefaults (bo_SSE options))"
    by (simp add: withDefaults_def DefaultStreamMaxAggregateBytes_def Let_def)
  then have "64 * len es \<le> MaxAggregateBytes (withDefaults (bo_SSE options)) + 64"
    using bridge_run_left [OF r, of "next" q] left by linarith
  moreover have "stream_order es" using bridge_run_order [OF r] .
  ultimately show ?thesis using event_bound bridge_run_left [OF r, of next' q'] stream_order_end [of es] r by simp
qed

section \<open>The completed turn\<close>

lemma last_round_completed:
  assumes "last_round t r d ev f" "last (ev # bd_pending f) = Completed reason"
  shows "\<exists>g. finish d = (Inr (), g) \<and> bd_pending g = ev # bd_pending f \<and> f = g\<lparr>bd_terminal := True, bd_pending := bd_pending f\<rparr>"
proof -
  from assms(1) obtain outcome where round: "bridge_round outcome d = (Some ev, f)" "bd_terminal f" "\<not> bd_terminal d" "bd_pending d = []"
    by (auto simp: last_round_def)
  from round(1) show ?thesis
  proof (cases rule: bridge_round_cases)
    case (told chunk g ev' es)
    then show ?thesis using round advances_left(2) [OF consumeChunk_advances [of d chunk]] by simp
  next
    case (spent chunk g ev')
    then show ?thesis using assms(2) by (cases ev) auto
  next
    case (unread ev')
    then show ?thesis using assms(2) round(4) by (cases ev) auto
  next
    case (broken err chunk g)
    then show ?thesis using assms(2) is_failed_simps(2) [of err] by (cases ev) auto
  qed auto
qed

text \<open>
  When a stream completes, the text and the reasoning the decoder has retained for the continuation
  are exactly the concatenated text and reasoning deltas it has delivered.
\<close>

theorem retained_text_delivered:
  assumes "bridge_run next p (NewBridgeStreamDecoder options) = (es, q, e)" "last es = Completed reason"
  shows "bd_assistantContent e = texts es \<and> bd_reasoningContent e = reasonings es"
  using assms(1)
proof (rule bridge_run_fresh)
  fix told d ev f
  assume es: "es = told @ ev # bd_pending f" and e: "e = f\<lparr>bd_pending := []\<rparr>" and last: "last_round (texts told) (reasonings told) d ev f"
  from last_round_completed [OF last] assms(2) es
  obtain g where g: "finish d = (Inr (), g)" "bd_pending g = ev # bd_pending f" "f = g\<lparr>bd_terminal := True, bd_pending := bd_pending f\<rparr>"
    by auto
  from finish_advances [of d] g(1,2) last have "bd_assistantContent g = texts told @ texts (bd_pending g)"
    "bd_reasoningContent g = reasonings told @ reasonings (bd_pending g)"
    by (auto simp: advances_def last_round_def delivered_def)
  moreover have "bd_assistantContent f = bd_assistantContent g" "bd_reasoningContent f = bd_reasoningContent g"
    by (subst g(3), simp)+
  ultimately show ?thesis using es e g(2) by simp
qed

end
