(* ===== verification/Provider_Turn.thy ===== *)
theory Provider_Turn
  imports Provider_Stream_Inv
begin

text \<open>
  What a stream that completes with tool calls delivers, the turn the bridge decoder keeps for the
  continuation, and the decoder as a state machine, with example streams.
\<close>

abbreviation mark_completed :: "providerToolCall \<Rightarrow> providerToolCall" where
  "mark_completed c \<equiv> c\<lparr>pc_completed := True\<rparr>"

lemma completed_events [simp]:
  "start_events (mark_completed c) = start_events c" "complete_events (mark_completed c) = complete_events c"
  "public_name (mark_completed c) = public_name c" "call_input (mark_completed c) = call_input c" "input_ok (mark_completed c) = input_ok c"
  by (simp_all add: start_events_def complete_events_def public_name_def call_input_def input_ok_def)

definition kind_ok :: "providerToolCall \<Rightarrow> bool" where
  "kind_ok c \<longleftrightarrow> (if pc_kind c = ToolCustom then pc_registration c = applyPatchRegistration else pc_kind c = ToolFunction)"

lemma start_state_kind [simp]: "kind_ok (start_state r c)"
  using customToolRegistration_Some [of r "pc_name c"] by (auto simp: kind_ok_def start_state_def split: option.split)

lemma turn_calls_kind: "list_all kind_ok (turn_calls d)"
  by (simp add: turn_calls_def list_all_iff)

lemma told_no_tools:
  assumes "told_ok b told"
  shows "list_all (\<lambda>ev. \<not> tool_event ev) told"
proof -
  have "opening_event ev \<or> chunk_event ev \<Longrightarrow> \<not> tool_event ev" for ev by (cases ev) simp_all
  then show ?thesis using assms by (cases told) (auto simp: told_ok_def list_all_iff split: if_splits)
qed

lemma finishToolCalls_sorted:
  assumes "finishToolCalls d = (Inr u, g)" "calls_fresh d"
  shows "sorted_calls g = map mark_completed (turn_calls d)"
proof -
  note ok = finishToolCalls_ok [OF assms]
  have keys: "sortedToolKeys (bd_calls g) = sortedToolKeys (bd_calls d)" using ok by (simp add: sortedToolKeys_def)
  have "the (map_of (bd_calls g) k) = mark_completed (start_state (bd_toolRegistry d) (the (map_of (bd_calls d) k)))"
    if "k \<in> set (sortedToolKeys (bd_calls d))" for k
  proof -
    have "map_of (bd_calls d) k \<noteq> None" using that by (simp add: sortedToolKeys_def map_of_eq_None_iff)
    moreover have "map_of (bd_calls g) k = map_option (\<lambda>c. mark_completed (start_state (bd_toolRegistry d) c)) (map_of (bd_calls d) k)"
      using ok by blast
    ultimately show ?thesis by auto
  qed
  then show ?thesis by (simp add: sorted_calls_def turn_calls_def keys)
qed

lemma sortedToolKeys_Nil [simp]: "sortedToolKeys m = [] \<longleftrightarrow> m = []"
  unfolding sortedToolKeys_def by (metis length_0_conv length_map length_sort)

text \<open>Everything known of a turn that completes with tool calls.\<close>

lemma tool_turn:
  assumes "bridge_run next p (NewBridgeStreamDecoder options) = (es, q, e)" "last es = Completed ''tool_calls''"
  obtains told where "es = told @ concat (map start_events (sorted_calls e)) @ concat (map complete_events (sorted_calls e))
      @ [Completed ''tool_calls'']"
    "list_all (\<lambda>ev. \<not> tool_event ev) told" "distinct (map pc_callID (sorted_calls e))"
    "list_all (\<lambda>c. pc_name c \<in> set (allowed_names options) \<and> kind_ok c \<and> input_ok c \<and> pc_started c \<and> pc_completed c) (sorted_calls e)"
    "bd_finalized e" "bd_toolTurn e \<longleftrightarrow> sorted_calls e \<noteq> []"
  using assms(1)
proof (rule bridge_run_fresh)
  fix told d ev f
  assume es: "es = told @ ev # bd_pending f" and e: "e = f\<lparr>bd_pending := []\<rparr>" and last: "last_round (texts told) (reasonings told) d ev f"
    and told: "told_ok True told" and lim: "bd_limits d = bd_limits (NewBridgeStreamDecoder options)"
  from last_round_completed [OF last] assms(2) es
  obtain g where g: "finish d = (Inr (), g)" "bd_pending g = ev # bd_pending f" "f = g\<lparr>bd_terminal := True, bd_pending := bd_pending f\<rparr>"
    by auto
  have d: "bd_pending d = []" "bd_open d" using last by (simp_all add: last_round_def bd_phase_def)
  have fin: "finishToolCalls d = (Inr (), g)" "bd_finishReason d = ''tool_calls''"
    using g(1,2) d(1) assms(2) es by (auto simp: finish_def terminal_failure_def dest!: queue_Inr split: if_splits)
  have fresh: "calls_fresh d" using d(2) by (simp add: bd_open_def)
  note ok = finishToolCalls_ok [OF fin(1) fresh]
  have calls: "sorted_calls e = map mark_completed (turn_calls d)"
  proof -
    have "sorted_calls e = sorted_calls g" unfolding e by (subst g(3)) (simp add: sorted_calls_def)
    then show ?thesis using finishToolCalls_sorted [OF fin(1) fresh] by simp
  qed
  have ids: "list_all (\<lambda>c. pc_callID c \<noteq> []) (turn_calls d)"
    using d(2) by (auto simp: list_all_iff turn_calls_def sortedToolKeys_def bd_open_def bd_bounds_def call_bounds_def
        dest!: map_of_is_SomeI [rotated])
  have names: "bd_allowedToolNames d = allowed_names options"
    using lim by (simp add: bd_limits_def NewBridgeStreamDecoder_def Let_def)
  have fl: "bd_finalized e \<longleftrightarrow> bd_finalized g" "bd_toolTurn e \<longleftrightarrow> bd_toolTurn g"
    unfolding e by (subst g(3), simp)+
  show thesis
  proof (rule that)
    show "es = told @ concat (map start_events (sorted_calls e)) @ concat (map complete_events (sorted_calls e)) @ [Completed ''tool_calls'']"
      using es g(2) ok d(1) fin(2) by (simp add: calls comp_def)
    show "list_all (\<lambda>ev. \<not> tool_event ev) told"
      using told by (rule told_no_tools)
    show "distinct (map pc_callID (sorted_calls e))"
      using ok ids by (simp add: calls comp_def list_all_iff)
    show "list_all (\<lambda>c. pc_name c \<in> set (allowed_names options) \<and> kind_ok c \<and> input_ok c \<and> pc_started c \<and> pc_completed c) (sorted_calls e)"
      using ok names turn_calls_kind [of d] by (auto simp: calls list_all_iff kind_ok_def turn_calls_def)
    show "bd_finalized e" "bd_toolTurn e \<longleftrightarrow> sorted_calls e \<noteq> []"
      using ok fl by (auto simp: calls turn_calls_def)
  qed
qed

text \<open>
  C23: A turn that completes with tool calls delivers, for each call in the order of the calls' keys, its
  start and then, after all starts, its completion; every call has a declared name, the call identifiers
  differ, a function call is delivered under its own name with its arguments as they arrived, and a call
  of the synthetic tool is delivered as \<open>apply_patch\<close> with the input its arguments wrap.
\<close>

theorem tool_turn_delivered:
  assumes "bridge_run next p (NewBridgeStreamDecoder options) = (es, q, e)" "last es = Completed ''tool_calls''"
  shows "\<exists>told. es = told @ concat (map start_events (sorted_calls e)) @ concat (map complete_events (sorted_calls e))
        @ [Completed ''tool_calls'']
    \<and> list_all (\<lambda>ev. \<not> tool_event ev) told \<and> distinct (map pc_callID (sorted_calls e))
    \<and> list_all (\<lambda>c. pc_name c \<in> set (allowed_names options)
        \<and> (if pc_kind c = ToolCustom
           then public_name c = ApplyPatchToolName \<and> unwrapApplyPatchArguments (pc_arguments c) = Inr (call_input c)
           else public_name c = pc_name c \<and> call_input c = pc_arguments c)) (sorted_calls e)"
  using assms
proof (rule tool_turn)
  fix told
  assume es: "es = told @ concat (map start_events (sorted_calls e)) @ concat (map complete_events (sorted_calls e)) @ [Completed ''tool_calls'']"
    "list_all (\<lambda>ev. \<not> tool_event ev) told" "distinct (map pc_callID (sorted_calls e))"
    and ok: "list_all (\<lambda>c. pc_name c \<in> set (allowed_names options) \<and> kind_ok c \<and> input_ok c \<and> pc_started c \<and> pc_completed c) (sorted_calls e)"
  have "list_all (\<lambda>c. pc_name c \<in> set (allowed_names options)
        \<and> (if pc_kind c = ToolCustom
           then public_name c = ApplyPatchToolName \<and> unwrapApplyPatchArguments (pc_arguments c) = Inr (call_input c)
           else public_name c = pc_name c \<and> call_input c = pc_arguments c)) (sorted_calls e)"
    using ok by (auto simp: list_all_iff kind_ok_def input_ok_def public_name_def call_input_def)
  then show ?thesis using es by blast
qed

fun completion :: "StreamEvent \<Rightarrow> (ToolKind \<times> gostring \<times> gostring \<times> gostring) option" where
  "completion (ToolCallCompleted key kind callID name arguments) = Some (kind, callID, name, arguments)"
| "completion _ = None"

definition completions :: "StreamEvent list \<Rightarrow> (ToolKind \<times> gostring \<times> gostring \<times> gostring) list" where
  "completions es = List.map_filter completion es"

lemma completions_simps [simp]:
  "completions (es @ fs) = completions es @ completions fs"
  "completions (concat ess) = concat (map completions ess)"
  "completions [] = []" "completions (Completed r # es) = completions es"
  by (induction ess) (simp_all add: completions_def map_filter_def)

lemma completions_calls [simp]:
  "completions (start_events c) = []"
  "completions (complete_events c) = [(if pc_kind c = ToolCustom then ToolCustom else ToolFunction, pc_callID c, public_name c, call_input c)]"
  by (simp_all add: completions_def map_filter_def start_events_def complete_events_def)

lemma completions_none: "list_all (\<lambda>ev. \<not> tool_event ev) es \<Longrightarrow> completions es = []"
proof (induction es)
  case (Cons ev es)
  then show ?case by (cases ev) (simp_all add: completions_def map_filter_def)
qed (simp add: completions_def map_filter_def)

text \<open>A retained call and the completion event of the same call.\<close>

definition call_matches :: "UpstreamToolCall \<Rightarrow> ToolKind \<times> gostring \<times> gostring \<times> gostring \<Rightarrow> bool" where
  "call_matches uc ev \<longleftrightarrow> (case ev of (kind, callID, name, arguments) \<Rightarrow>
     uc_CallID uc = callID \<and> uc_Kind uc = kind
     \<and> (if kind = ToolCustom
        then uc_Registration uc = applyPatchRegistration \<and> uc_Name uc = ApplyPatchUpstreamName
          \<and> name = ApplyPatchToolName \<and> unwrapApplyPatchArguments (uc_Arguments uc) = Inr arguments
        else kind = ToolFunction \<and> uc_Name uc = name \<and> uc_Arguments uc = arguments))"

text \<open>
  C22: After a stream that completed with tool calls, the turn kept for the continuation is available
  exactly when calls were delivered, and it is the turn that was delivered: the same calls in the same
  order with the same identifiers, names and arguments, the same text and the same reasoning.
\<close>

theorem pending_turn_matches:
  assumes "bridge_run next p (NewBridgeStreamDecoder options) = (es, q, e)" "last es = Completed ''tool_calls''"
  shows "case bridge_PendingTurn e of
      None \<Rightarrow> completions es = []
    | Some turn \<Rightarrow> completions es \<noteq> [] \<and> list_all2 call_matches (pt_ToolCalls turn) (completions es)
        \<and> pt_CallIDs turn = map uc_CallID (pt_ToolCalls turn) \<and> distinct (pt_CallIDs turn)
        \<and> pt_AssistantContent turn = bd_assistantContent e \<and> pt_ReasoningContent turn = bd_reasoningContent e"
  using assms
proof (rule tool_turn)
  fix told
  let ?cs = "sorted_calls e"
  assume es: "es = told @ concat (map start_events ?cs) @ concat (map complete_events ?cs) @ [Completed ''tool_calls'']"
    and told: "list_all (\<lambda>ev. \<not> tool_event ev) told" and ids: "distinct (map pc_callID ?cs)"
    and ok: "list_all (\<lambda>c. pc_name c \<in> set (allowed_names options) \<and> kind_ok c \<and> input_ok c \<and> pc_started c \<and> pc_completed c) ?cs"
    and fin: "bd_finalized e" "bd_toolTurn e \<longleftrightarrow> ?cs \<noteq> []"
  have comp: "completions es
      = map (\<lambda>c. (if pc_kind c = ToolCustom then ToolCustom else ToolFunction, pc_callID c, public_name c, call_input c)) ?cs"
    using completions_none [OF told] by (simp add: es comp_def concat_map_singleton)
  have "list_all call_pending ?cs"
    using ok by (auto simp: list_all_iff call_pending_def kind_ok_def ApplyPatchUpstreamName_def ReservedToolNamePrefix_def)
  moreover have "list_all2 call_matches (map upstream_call ?cs) (completions es)"
    using ok unfolding comp
    by (auto simp: list_all2_conv_all_nth list_all_length call_matches_def upstream_call_def kind_ok_def public_name_def
        call_input_def input_ok_def)
  ultimately show ?thesis using fin ids by (auto simp: bridge_PendingTurn_def Let_def comp upstream_call_def comp_def)
qed

section \<open>Example streams\<close>

text \<open>A provider that sends the outcomes of a list and then ends.\<close>

type_synonym provider_outcome = "stream_error + ChatCompletionStreamEvent"

fun listed :: "provider_outcome list \<Rightarrow> provider_outcome \<times> provider_outcome list" where
  "listed [] = (Inl (StreamSSE SSE_EOF), [])"
| "listed (x # xs) = (x, xs)"

definition sample_options :: "int \<Rightarrow> BridgeStreamDecoderOptions" where
  "sample_options aggregate =
     \<lparr>bo_SSE = \<lparr>MaxLineBytes = 0, MaxEventBytes = 0, MaxBufferedBytes = 0, MaxAggregateBytes = aggregate,
         MaxToolCallArgumentBytes = 0, ReadBufferBytes = 0\<rparr>,
      bo_AllowedToolNames = [''ls''], bo_MaxToolCalls = 0, bo_MaxChoices = 0, bo_MaxToolNameBytes = 0,
      bo_MaxProviderCallIDBytes = 0, bo_MaxOutputBytes = 0, bo_MaxTextBytes = 0, bo_MaxReasoningBytes = 0, bo_ToolRegistry = None\<rparr>"

definition sample_chunk :: "gostring option \<Rightarrow> gostring option \<Rightarrow> ToolCall list \<Rightarrow> ChatCompletionChunk" where
  "sample_chunk text finish_reason tools =
     \<lparr>ck_ID = ''r'', ck_Choices = [\<lparr>ch_Index = 0, ch_FinishReason = finish_reason,
         ch_Delta = \<lparr>cm_Role = [], cm_Content = text, cm_ReasoningContent = None, cm_ToolCalls = tools, cm_ToolCallID = []\<rparr>\<rparr>],
      ck_Created = 1, ck_Model = ''m'', ck_Object = [], ck_Usage = None\<rparr>"

definition sample_stream :: "provider_outcome list" where
  "sample_stream =
     [Inr (ChunkEvent (sample_chunk (Some ''hi'') None [\<lparr>tc_Index = Some 0, tc_ID = ''a'', tc_Type = ''function'',
           tc_Function = \<lparr>tf_Name = ''l'', tf_Arguments = ''{''\<rparr>\<rparr>])),
      Inr (ChunkEvent (sample_chunk None (Some ''tool_calls'') [\<lparr>tc_Index = Some 0, tc_ID = [], tc_Type = [],
           tc_Function = \<lparr>tf_Name = ''s'', tf_Arguments = ''}''\<rparr>\<rparr>])),
      Inr DoneEvent]"

lemma sample_run:
  "fst (bridge_run listed sample_stream (NewBridgeStreamDecoder (sample_options 0))) =
     [ResponseStarted ''r'' (10 ^ 9) ''m'', TextDelta 0 ''hi'', ToolCallStarted (ToolCallKey 0 0) ToolFunction ''a'' ''ls'',
      ToolCallArgumentsDelta (ToolCallKey 0 0) ''{}'', ToolCallCompleted (ToolCallKey 0 0) ToolFunction ''a'' ''ls'' ''{}'',
      Completed ''tool_calls'']"
  by code_simp

lemma failed_with_turn:
  "case bridge_run listed sample_stream (NewBridgeStreamDecoder (sample_options 400)) of (es, q, e) \<Rightarrow>
     is_failed (last es) \<and> bridge_PendingTurn e \<noteq> None"
  by code_simp

lemma sample_last:
  assumes "bridge_run listed sample_stream (NewBridgeStreamDecoder (sample_options 0)) = (es, q, e)"
  shows "last es = Completed ''tool_calls''"
  using sample_run assms by simp

theorem retained_text_delivered_witness:
  "case bridge_run listed sample_stream (NewBridgeStreamDecoder (sample_options 0)) of (es, q, e) \<Rightarrow>
     bd_assistantContent e = texts es \<and> bd_reasoningContent e = reasonings es"
proof -
  obtain es q e where r: "bridge_run listed sample_stream (NewBridgeStreamDecoder (sample_options 0)) = (es, q, e)" by (rule prod_cases3)
  from retained_text_delivered [OF r sample_last [OF r]] show ?thesis using r by simp
qed

theorem tool_turn_delivered_witness:
  "case bridge_run listed sample_stream (NewBridgeStreamDecoder (sample_options 0)) of (es, q, e) \<Rightarrow>
     distinct (map pc_callID (sorted_calls e)) \<and> list_all (\<lambda>c. pc_name c \<in> set (allowed_names (sample_options 0))) (sorted_calls e)"
proof -
  obtain es q e where r: "bridge_run listed sample_stream (NewBridgeStreamDecoder (sample_options 0)) = (es, q, e)" by (rule prod_cases3)
  from tool_turn_delivered [OF r sample_last [OF r]] show ?thesis using r by (auto simp: list_all_iff)
qed

theorem pending_turn_matches_witness:
  "case bridge_run listed sample_stream (NewBridgeStreamDecoder (sample_options 0)) of (es, q, e) \<Rightarrow>
     \<exists>turn. bridge_PendingTurn e = Some turn \<and> list_all2 call_matches (pt_ToolCalls turn) [(ToolFunction, ''a'', ''ls'', ''{}'')]"
proof -
  obtain es q e where r: "bridge_run listed sample_stream (NewBridgeStreamDecoder (sample_options 0)) = (es, q, e)" by (rule prod_cases3)
  have "completions es = [(ToolFunction, ''a'', ''ls'', ''{}'')]"
    using sample_run r by (simp add: completions_def map_filter_def)
  with pending_turn_matches [OF r sample_last [OF r]] show ?thesis using r by (simp split: option.splits)
qed

section \<open>The decoder as a state machine\<close>

text \<open>
  A decoder is created from options and then read; each read may see any answers of the provider, given
  here as a sequence.
\<close>

definition decoder_start :: "BridgeStreamDecoder \<Rightarrow> bool" where
  "decoder_start d \<longleftrightarrow> (\<exists>options. d = NewBridgeStreamDecoder options)"

definition decoder_step :: "BridgeStreamDecoder \<Rightarrow> BridgeStreamDecoder \<Rightarrow> bool" where
  "decoder_step d e \<longleftrightarrow> (\<exists>answers n out m. bridge_Next (\<lambda>i. (answers i :: provider_outcome, Suc i)) n d = (out, m, e))"

definition decoder_inv :: "BridgeStreamDecoder \<Rightarrow> bool" where
  "decoder_inv d \<longleftrightarrow> bd_phase d \<and> (\<not> bd_terminal d \<longrightarrow> (\<exists>t r. delivered t r d))"

interpretation decoder: invariant_system decoder_start decoder_step decoder_inv
proof
  fix d assume "decoder_start d"
  then show "decoder_inv d" using NewBridgeStreamDecoder_phase fresh_delivered(1) unfolding decoder_start_def decoder_inv_def by blast
next
  fix d e assume s: "decoder_step d e" and d: "decoder_inv d"
  obtain answers n out m where n: "bridge_Next (\<lambda>i. (answers i :: provider_outcome, Suc i)) n d = (out, m, e)"
    using s by (auto simp: decoder_step_def)
  obtain t r where "\<not> bd_terminal d \<longrightarrow> delivered t r d" using d by (auto simp: decoder_inv_def)
  with n d have "Next_ok t r d out e" by (intro bridge_Next_ok) (simp_all add: decoder_inv_def)
  moreover have "bd_terminal e" if "e = d\<lparr>bd_pending := bd_pending e\<rparr>" "bd_terminal d" using that(2) by (subst that(1)) simp
  ultimately show "decoder_inv e" using d by (auto simp: decoder_inv_def Next_ok_def split: option.splits if_splits)
qed

end
