(* ===== verification/Provider_Bounds.thy ===== *)
theory Provider_Bounds
  imports Provider_Turn
begin

text \<open>
  What a bridge decoder holds: the bytes of text and arguments are exactly those it has charged to the output budget,
  every queued event has been charged to the aggregate budget, and the identifiers and finish reasons stay within
  their limits, in every state it can reach.
\<close>

section \<open>The ledger\<close>

definition argument_bytes :: "(ToolCallKey, providerToolCall) gomap \<Rightarrow> int" where
  "argument_bytes calls = (\<Sum>(k, c) \<leftarrow> calls. len (pc_arguments c))"

lemma argument_bytes_put:
  "argument_bytes (map_put k c calls) =
     argument_bytes calls + len (pc_arguments c) - (case map_of calls k of None \<Rightarrow> 0 | Some old \<Rightarrow> len (pc_arguments old))"
  by (induction calls) (auto simp: argument_bytes_def)

definition id_ok :: "int \<Rightarrow> ToolCallKey \<Rightarrow> providerToolCall \<Rightarrow> bool" where
  "id_ok limit k c \<longleftrightarrow> pc_key c = k \<and> (pc_callID c = syntheticToolCallID k \<or> len (pc_callID c) \<le> limit)"

definition ledger :: "BridgeStreamDecoder \<Rightarrow> bool" where
  "ledger d \<longleftrightarrow> map_ok (bd_calls d) \<and> bd_outputBytes d = len (bd_assistantContent d) + argument_bytes (bd_calls d)
     \<and> (\<forall>k c. map_of (bd_calls d) k = Some c \<longrightarrow> id_ok (bd_maxProviderCallIDBytes d) k c)
     \<and> 64 * len (bd_pending d) \<le> bd_aggregateBytes d
     \<and> map_ok (bd_choiceFinishReasons d) \<and> set (map_keys (bd_choiceFinishReasons d)) \<subseteq> {0..<bd_maxChoices d}"

text \<open>The ledger is kept and the call is the one of the table.\<close>

definition entered :: "ToolCallKey \<Rightarrow> providerToolCall \<Rightarrow> BridgeStreamDecoder \<Rightarrow> bool" where
  "entered k c d \<longleftrightarrow> ledger d \<and> map_of (bd_calls d) k = Some c"

lemma enteredD: "entered k c d \<Longrightarrow> ledger d \<and> pc_key c = k"
  by (auto simp: entered_def ledger_def id_ok_def)

lemma ledger_new: "ledger (NewBridgeStreamDecoder options)"
  by (simp add: ledger_def argument_bytes_def NewBridgeStreamDecoder_def Let_def)

lemma ledger_ignores [simp]:
  "ledger (d\<lparr>bd_started := b\<rparr>) = ledger d" "ledger (d\<lparr>bd_terminal := b\<rparr>) = ledger d"
  "ledger (d\<lparr>bd_providerModel := n, bd_createdAt := t\<rparr>) = ledger d" "ledger (note_metadata chunk d) = ledger d"
  "ledger (recordFinishReason r d) = ledger d" "ledger (d\<lparr>bd_reasoningContent := x, bd_reasoningBytes := y\<rparr>) = ledger d"
  "ledger (d\<lparr>bd_finalized := b\<rparr>) = ledger d" "ledger (d\<lparr>bd_finalized := b, bd_toolTurn := c\<rparr>) = ledger d"
  by (simp_all add: ledger_def note_metadata_def recordFinishReason_def Let_def)

lemma ledger_fewer: "ledger d \<Longrightarrow> length es \<le> length (bd_pending d) \<Longrightarrow> ledger (d\<lparr>bd_pending := es\<rparr>)"
  by (simp add: ledger_def)

lemma reserve_ledger: "ledger d \<Longrightarrow> ledger (snd (reserveAggregateBytes n d))"
  by (auto simp: reserveAggregateBytes_def ledger_def)

lemma queue_ledger: "ledger d \<Longrightarrow> ledger (snd (queue ev n d))"
  by (auto simp: queue_def ledger_def bridgeStreamEventOverhead_def)

lemma entered_reserve: "entered k c d \<Longrightarrow> reserveAggregateBytes n d = (r, e) \<Longrightarrow> entered k c e"
  using reserve_ledger [of d n] reserve_calls(1) [of n d] by (auto simp: entered_def)

lemma entered_queue: "entered k c d \<Longrightarrow> entered k c (snd (queue ev n d))"
  using queue_ledger [of d ev n] queue_calls(1) [of ev n d] by (auto simp: entered_def)

text \<open>A call that is stored again keeps its key and its identifier; the bytes of its arguments are charged with it.\<close>

lemma entered_put:
  assumes "entered k c d" "pc_key c' = k" "pc_callID c' = pc_callID c"
  shows "entered k c' ((put_call c' d)\<lparr>bd_outputBytes := bd_outputBytes d + len (pc_arguments c') - len (pc_arguments c)\<rparr>)"
  using assms by (auto simp: entered_def ledger_def put_call_def argument_bytes_put id_ok_def distinct_update)

lemma entered_put_same:
  assumes "entered k c d" "pc_key c' = k" "pc_callID c' = pc_callID c" "pc_arguments c' = pc_arguments c"
  shows "entered k c' (put_call c' d)"
proof -
  have "(put_call c' d)\<lparr>bd_outputBytes := bd_outputBytes d\<rparr> = put_call c' d" by (simp add: put_call_def)
  then show ?thesis using entered_put [OF assms(1-3)] assms(4) by simp
qed

section \<open>Chunks\<close>

lemma call_for_ledger:
  assumes "ledger d"
  shows "ledger (snd (call_for key tool d))" "call_for key tool d = (Inr c, e) \<Longrightarrow> entered key c e"
proof -
  have new: "entered key (new_call key i) (put_call (new_call key i) d)"
    if "map_of (bd_calls d) key = None" "i = syntheticToolCallID key \<or> len i \<le> bd_maxProviderCallIDBytes d" for i
    using assms that by (auto simp: entered_def ledger_def put_call_def new_call_def argument_bytes_put id_ok_def distinct_update)
  then show "ledger (snd (call_for key tool d))" using assms
    by (auto simp: call_for_def Let_def entered_def split: option.split)
  show "call_for key tool d = (Inr c, e) \<Longrightarrow> entered key c e" using assms new
    by (auto simp: call_for_def Let_def entered_def split: option.splits if_splits)
qed

lemma grow_provider_id_ledger:
  assumes "entered k c d"
  shows "ledger (snd (grow_provider_id tool c d))" "grow_provider_id tool c d = (Inr c', e) \<Longrightarrow> entered k c' e"
proof -
  let ?c = "c\<lparr>pc_providerCallID := appendProviderCallID (pc_providerCallID c) (tc_ID tool)\<rparr>"
  have new: "entered k ?c (put_call ?c f)" if "reserveAggregateBytes g d = (Inr u, f)" for g u f
    using enteredD [OF assms] by (intro entered_put_same [OF entered_reserve [OF assms that]]) simp_all
  show "ledger (snd (grow_provider_id tool c d))"
    using assms new reserve_ledger [of d] unfolding grow_provider_id_def Let_def
    by (auto simp: entered_def intro!: keeps_bind [where P = ledger])
  show "grow_provider_id tool c d = (Inr c', e) \<Longrightarrow> entered k c' e"
    using assms new unfolding grow_provider_id_def Let_def by (auto simp: go_bind_Inr_iff split: if_splits)
qed

lemma grow_arguments_ledger:
  assumes "entered k c d"
  shows "ledger (snd (grow_arguments tool c d))"
proof -
  let ?args = "tf_Arguments (tc_Function tool)"
  let ?c = "c\<lparr>pc_arguments := pc_arguments c @ ?args\<rparr>"
  have "ledger ((put_call ?c f)\<lparr>bd_outputBytes := bd_outputBytes f + len ?args\<rparr>)"
    if "reserveAggregateBytes n d = (Inr u, f)" for n u f
    using enteredD [OF entered_put [OF entered_reserve [OF assms that], of ?c]] enteredD [OF assms] by simp
  then show ?thesis using assms reserve_ledger [of d] unfolding grow_arguments_def Let_def
    by (auto simp: entered_def intro!: keeps_bind [where P = ledger])
qed

lemma append_name_ledger:
  assumes "entered k c d"
  shows "ledger (snd (append_name tool c d))"
proof -
  have "ledger (snd (grow_arguments tool s (put_call s d)))"
    if "s = c\<lparr>pc_name := pc_name c @ tf_Name (tc_Function tool)\<rparr>
      \<or> s = c\<lparr>pc_name := pc_name c @ tf_Name (tc_Function tool), pc_customCandidate := True\<rparr>" for s
    using that enteredD [OF assms] by (intro grow_arguments_ledger [of k] entered_put_same [OF assms]) auto
  then show ?thesis by (simp add: append_name_def Let_def)
qed

lemma consumeToolCall_ledger:
  assumes "ledger d"
  shows "ledger (snd (consumeToolCall ci tool d))"
proof -
  have extend: "ledger (snd (extend_call tool c e))" if "entered k c e" for k c e
    using enteredD [OF that] grow_provider_id_ledger [OF that] unfolding extend_call_def
    by (auto intro!: keeps_bind [where P = ledger] append_name_ledger [of k] split: option.split)
  show ?thesis using assms call_for_ledger(1) [OF assms] unfolding consumeToolCall_def
    by (auto intro!: keeps_bind [where P = ledger] extend call_for_ledger(2) [OF assms] split: option.splits)
qed

lemma consume_text_ledger:
  assumes "ledger d"
  shows "ledger (snd (consume_text i c d))"
proof -
  have "ledger (e\<lparr>bd_assistantContent := bd_assistantContent e @ c, bd_textBytes := bd_textBytes e + len c, bd_outputBytes := bd_outputBytes e + len c\<rparr>)"
    if "queue ev n d = (Inr u, e)" for ev n u e
    using queue_ledger [OF assms, of ev n] that by (simp add: ledger_def)
  then show ?thesis using assms queue_ledger [OF assms] unfolding consume_text_def
    by (auto intro!: keeps_bind [where P = ledger])
qed

lemma consume_tools_ledger: "ledger d \<Longrightarrow> ledger (snd (consume_tools ci seen tools d))"
proof (induction tools arbitrary: seen d)
  case (Cons tool tools)
  then show ?case by (auto intro!: keeps_bind [where P = ledger] consumeToolCall_ledger split: option.splits)
qed simp

lemma consume_delta_ledger: "ledger d \<Longrightarrow> ledger (snd (consume_delta choice d))"
  unfolding consume_delta_def consume_reasoning_def
  by (auto intro!: keeps_bind [where P = ledger] consume_text_ledger consume_tools_ledger queue_ledger)

lemma consume_choice_ledger:
  assumes "ledger d" "0 \<le> ch_Index choice" "ch_Index choice < bd_maxChoices d"
  shows "ledger (snd (consume_choice choice d))"
proof -
  have put: "ledger (e\<lparr>bd_choiceFinishReasons := map_put (ch_Index choice) r (bd_choiceFinishReasons e)\<rparr>)"
    if "ledger f" "consume_delta choice f = (Inr u, e)" "bd_limits f = bd_limits d" for r u e f
  proof -
    have "ledger e" "bd_limits e = bd_limits d"
      using consume_delta_ledger [OF that(1), of choice] consume_delta_advances [of f choice] that(2,3) by (simp_all add: advances_def)
    then show ?thesis using assms(2,3) by (auto simp: ledger_def distinct_update bd_limits_def dom_update)
  qed
  have limits: "bd_limits (recordFinishReason r d) = bd_limits d" for r by (simp add: recordFinishReason_def bd_limits_def)
  show ?thesis using assms(1) unfolding consume_choice_def Let_def
    by (auto intro!: keeps_bind [where P = ledger] consume_delta_ledger put [OF _ _ limits])
qed

lemma consume_choices_ledger: "ledger d \<Longrightarrow> ledger (snd (consume_choices seen choices d))"
  by (induction choices arbitrary: seen d) (auto intro!: keeps_bind [where P = ledger] consume_choice_ledger)

lemma consumeChunk_ledger: "ledger d \<Longrightarrow> ledger (snd (consumeChunk chunk d))"
  unfolding consumeChunk_def start_response_def consume_body_def Let_def
  by (auto intro!: keeps_bind [where P = ledger] consume_choices_ledger queue_ledger split: option.split)

section \<open>The end of a stream\<close>

lemma ensureToolStarted_ledger:
  assumes "entered k c d"
  shows "ledger (snd (ensureToolStarted c d))"
proof -
  have step: "ledger (snd (go_bind (queue ev n (put_call s d))
      (\<lambda>_ d. if b then queue ev' m (put_call s' d) else (Inr (), put_call s' d))))"
    if s: "pc_key s = k" "pc_callID s = pc_callID c" "pc_arguments s = pc_arguments c" and s': "pc_key s' = k" "pc_callID s' = pc_callID c" "pc_arguments s' = pc_arguments c"
    for ev n s b ev' m s'
  proof -
    note p = entered_put_same [OF assms s]
    have "ledger (put_call s' f)" if "queue ev n (put_call s d) = (Inr u, f)" for u f
      using entered_put_same [of k s f s'] entered_queue [OF p, of ev n] that s s' by (simp add: entered_def)
    then show ?thesis using enteredD [OF p] queue_ledger
      by (intro keeps_bind [where P = ledger]) auto
  qed
  show ?thesis using enteredD [OF assms] unfolding ensureToolStarted_def Let_def
    by (auto split: option.split intro!: step)
qed

lemma complete_call_ledger:
  assumes "entered k c d"
  shows "ledger (snd (complete_call c d))"
proof -
  have "ledger (put_call (c\<lparr>pc_completed := True\<rparr>) d)"
    using entered_put_same [OF assms, of "c\<lparr>pc_completed := True\<rparr>"] enteredD [OF assms] by (simp add: entered_def)
  then show ?thesis unfolding complete_call_def Let_def
    by (auto intro!: keeps_bind [where P = ledger] queue_ledger split: sum.split)
qed

lemma complete_calls_ledger: "ledger d \<Longrightarrow> ledger (snd (complete_calls ids keys d))"
proof (induction keys arbitrary: ids d)
  case (Cons k keys)
  have "ledger (snd (go_bind (complete_call c d) (\<lambda>_. complete_calls i keys)))" if "map_of (bd_calls d) k = Some c" for i c
    using complete_call_ledger [of k c d] Cons that by (intro keeps_bind [where P = ledger]) (auto simp: entered_def)
  then show ?case using Cons by (simp add: Let_def split: option.split)
qed simp

lemma finish_ledger:
  assumes "ledger d"
  shows "ledger (snd (finish d))"
proof -
  have "ledger (snd (start_call k f))" if "ledger f" for k f
    using that unfolding start_call_def
    by (auto intro!: keeps_bind [where P = ledger] ensureToolStarted_ledger simp: entered_def split: option.split)
  then have "ledger (snd (go_for start_call keys d))" for keys
    using assms by (intro keeps_for [where P = ledger])
  then have "ledger (snd (finishToolCalls d))" unfolding finishToolCalls_def Let_def
    by (auto intro!: keeps_bind [where P = ledger] complete_calls_ledger queue_ledger)
  then show ?thesis using assms by (auto simp: finish_def intro!: queue_ledger)
qed

section \<open>Reads\<close>

lemma bridge_round_ledger:
  assumes "bridge_round outcome d = (r, e)" "ledger d"
  shows "ledger e"
proof -
  have chunk: "ledger f" if "consumeChunk chunk d = (x, f)" for chunk x f
    using consumeChunk_ledger [OF assms(2), of chunk] that by simp
  have fin: "ledger f" if "finish d = (x, f)" for x f using finish_ledger [OF assms(2)] that by simp
  have less: "ledger (f\<lparr>bd_terminal := True, bd_pending := es\<rparr>)" "ledger (f\<lparr>bd_pending := es\<rparr>)"
    if "ledger f" "length es \<le> length (bd_pending f)" for f es
    using ledger_fewer [of "f\<lparr>bd_terminal := True\<rparr>" es] ledger_fewer [of f es] that by simp_all
  from assms(1) show ?thesis
  proof (cases rule: bridge_round_cases)
    case (idle chunk f)
    then show ?thesis using reserve_ledger [OF chunk [OF idle(1)], of bridgeStreamEventOverhead] by simp
  qed (use assms(2) chunk fin less in auto)
qed

lemma bridge_Next_ledger:
  assumes "bridge_Next next p d = (out, p', e)" "ledger d"
  shows "ledger e"
  using assms
proof (induction rule: bridge_Next_rule)
  case (popped d ev es)
  then show ?case by (intro ledger_fewer) simp_all
next
  case (round d outcome ev e)
  then show ?case using bridge_round_ledger by blast
next
  case (loop d outcome f out e)
  then show ?case using bridge_round_ledger by blast
qed

interpretation ledgers: invariant_system decoder_start decoder_step ledger
proof
  fix d assume "decoder_start d"
  then show "ledger d" using ledger_new by (auto simp: decoder_start_def)
next
  fix d e assume "decoder_step d e" "ledger d"
  then show "ledger e" using bridge_Next_ledger by (auto simp: decoder_step_def)
qed

text \<open>
  C38: In every state a decoder can reach, what it holds of the model's output is within the limits: the text and the
  arguments of all calls together are at most \<open>MaxOutputBytes\<close> bytes, and the counter says exactly how many they are;
  the text, the reasoning and the name, provider identifier and arguments of each call have limits of their own; a call
  id is made by the decoder or within the limit too; there are at most \<open>MaxToolCalls\<close> calls and as many finish reasons as
  choices are allowed; and every queued event has taken at least 64 bytes of the aggregate budget.
\<close>

theorem decoder_bounded:
  assumes "reachable decoder_start decoder_step d"
  shows "len (bd_assistantContent d) + (\<Sum>(k, c) \<leftarrow> bd_calls d. len (pc_arguments c)) = bd_outputBytes d
    \<and> bd_outputBytes d \<le> bd_maxOutputBytes d
    \<and> len (bd_assistantContent d) \<le> bd_maxTextBytes d \<and> len (bd_reasoningContent d) \<le> bd_maxReasoningBytes d
    \<and> len (bd_calls d) \<le> bd_maxToolCalls d
    \<and> list_all (\<lambda>(k, c). len (pc_name c) \<le> bd_maxToolNameBytes d \<and> len (pc_providerCallID c) \<le> bd_maxProviderCallIDBytes d
         \<and> len (pc_arguments c) \<le> bd_maxToolCallArgumentBytes d
         \<and> (pc_callID c = syntheticToolCallID k \<or> len (pc_callID c) \<le> bd_maxProviderCallIDBytes d)) (bd_calls d)
    \<and> len (bd_choiceFinishReasons d) \<le> max 0 (bd_maxChoices d)
    \<and> 64 * len (bd_pending d) \<le> bd_aggregateBytes d \<and> bd_aggregateBytes d \<le> bd_maxAggregateBytes d"
proof -
  have b: "bd_bounds d" using decoder.inv_reachable [OF assms] by (auto simp: decoder_inv_def bd_phase_def bd_open_def split: if_splits)
  have l: "ledger d" by (rule ledgers.inv_reachable [OF assms])
  have "len (pc_name c) \<le> bd_maxToolNameBytes d \<and> len (pc_providerCallID c) \<le> bd_maxProviderCallIDBytes d
         \<and> len (pc_arguments c) \<le> bd_maxToolCallArgumentBytes d
         \<and> (pc_callID c = syntheticToolCallID k \<or> len (pc_callID c) \<le> bd_maxProviderCallIDBytes d)" if "(k, c) \<in> set (bd_calls d)" for k c
  proof -
    have "map_of (bd_calls d) k = Some c" using that l by (simp add: ledger_def)
    then show ?thesis using b l by (auto simp: bd_bounds_def call_bounds_def ledger_def id_ok_def)
  qed
  moreover have "len (bd_choiceFinishReasons d) \<le> max 0 (bd_maxChoices d)"
  proof -
    have "length (bd_choiceFinishReasons d) = card (set (map_keys (bd_choiceFinishReasons d)))"
      using l distinct_card [of "map_keys (bd_choiceFinishReasons d)"] by (simp add: ledger_def)
    also have "\<dots> \<le> card {0..<bd_maxChoices d}" using l by (intro card_mono) (simp_all add: ledger_def)
    finally show ?thesis by simp
  qed
  ultimately show ?thesis using b l by (auto simp: bd_bounds_def ledger_def argument_bytes_def list_all_iff)
qed

theorem decoder_bounded_witness:
  "case bridge_Next (\<lambda>i. (sample_stream ! i, Suc i)) 0 (NewBridgeStreamDecoder (sample_options 0)) of (out, n, d) \<Rightarrow>
     len (bd_assistantContent d) + (\<Sum>(k, c) \<leftarrow> bd_calls d. len (pc_arguments c)) = bd_outputBytes d \<and> bd_outputBytes d \<le> bd_maxOutputBytes d"
proof -
  let ?d = "NewBridgeStreamDecoder (sample_options 0)"
  obtain out n d where n: "bridge_Next (\<lambda>i. (sample_stream ! i, Suc i)) 0 ?d = (out, n, d)" by (rule prod_cases3)
  have "reachable decoder_start decoder_step ?d" by (rule reach_start) (auto simp: decoder_start_def)
  moreover have "decoder_step ?d d" using n by (auto simp: decoder_step_def)
  ultimately have "reachable decoder_start decoder_step d" by (rule reach_step)
  from decoder_bounded [OF this] show ?thesis using n by simp
qed

end
