(* ===== verification/Stream_Session.thy ===== *)
theory Stream_Session
  imports Go_Json Bridge
begin

text \<open>
  \<open>internal/codex/stream.go\<close>: the session that writes one Responses stream. Semantic events go in,
  numbered server-sent events come out.

  What lies outside the program (the response writer, the request context, the clock, the identifier
  generator) is an environment \<open>StreamEnv\<close> that answers each call of it; a counter of the session tells
  the calls apart, so an answer may depend on anything. Items are pointers shared by the table and the
  order list in Go; here an item lives in the order list and the table holds its position. The mutex
  makes the operations atomic, so they are functions of the session's state.
\<close>

section \<open>State\<close>

datatype StreamErrorCode = StreamErrorWrite | StreamErrorTransition | StreamErrorTerminal | StreamErrorLimit

record WriteAnswer =
  wa_contextErr :: bool \<comment> \<open>the request's context is done\<close>
  wa_deadlineErr :: bool \<comment> \<open>the write deadline could not be set\<close>
  wa_written :: "nat option" \<comment> \<open>the bytes taken, none for the whole frame\<close>
  wa_writeErr :: bool
  wa_flushErr :: bool

record StreamEnv =
  en_id :: "nat \<Rightarrow> gostring \<Rightarrow> int \<Rightarrow> gostring"
  en_now :: "nat \<Rightarrow> gotime"
  en_write :: "nat \<Rightarrow> WriteAnswer"

record ResponseWriter =
  rw_Header :: "(gostring, gostring) gomap"
  rw_status :: "int list" \<comment> \<open>the calls of \<open>WriteHeader\<close>\<close>
  rw_frames :: "json list" \<comment> \<open>the payloads of the frames taken whole\<close>
  rw_tail :: gobytes \<comment> \<open>what was taken of a frame that was cut\<close>

record CustomToolHook =
  ct_Kind :: ToolKind
  ct_ItemType :: gostring
  ct_DeltaType :: gostring
  ct_DoneType :: gostring
  ct_InputName :: gostring

record StreamSessionOptions =
  so_ResponseID :: gostring
  so_CreatedAt :: gotime
  so_Model :: gostring
  so_MaxAggregateBytes :: int
  so_MaxToolCallArgumentBytes :: int
  so_MaxOutputBytes :: int
  so_MaxTextBytes :: int
  so_MaxReasoningBytes :: int
  so_WriteTimeout :: int
  so_CustomTools :: "(ToolKind, CustomToolHook) gomap"

datatype streamItemKey = StreamTextKind int | StreamToolKind int int

record streamItem =
  si_key :: streamItemKey
  si_id :: gostring
  si_outputIndex :: int
  si_itemType :: gostring
  si_toolKind :: ToolKind
  si_hook :: CustomToolHook
  si_callID :: gobytes
  si_name :: gobytes
  si_text :: gobytes
  si_arguments :: gobytes
  si_finalStatus :: gostring
  si_contentDone :: bool
  si_itemDone :: bool

record StreamSession =
  ss_ResponseID :: gostring
  ss_CreatedAt :: gotime
  ss_Model :: gostring
  ss_SequenceNumber :: int
  ss_NextOutputIndex :: int
  ss_TerminalEmitted :: bool
  ss_writer :: ResponseWriter
  ss_env :: StreamEnv
  ss_tick :: nat \<comment> \<open>the calls made of the environment\<close>
  ss_customTools :: "(ToolKind, CustomToolHook) gomap"
  ss_started :: bool
  ss_headersSent :: bool
  ss_writeFailure :: "StreamErrorCode option"
  ss_downstreamDone :: bool \<comment> \<open>the channel is closed\<close>
  ss_terminalAt :: gotime
  ss_aggregateBytes :: int
  ss_maxAggregateBytes :: int
  ss_maxToolCallArgumentBytes :: int
  ss_maxOutputBytes :: int
  ss_maxTextBytes :: int
  ss_maxReasoningBytes :: int
  ss_writeTimeout :: int
  ss_reasoning :: gobytes
  ss_textBytes :: int
  ss_outputBytes :: int
  ss_items :: "(streamItemKey, nat) gomap"
  ss_itemOrder :: "streamItem list"
  ss_usage :: "Usage option"

type_synonym 'a session_op = "StreamSession \<Rightarrow> (StreamErrorCode, 'a, StreamSession) go"
type_synonym json_fields = "(gostring, json) gomap"

abbreviation item_at :: "StreamSession \<Rightarrow> nat \<Rightarrow> streamItem" where
  "item_at s i \<equiv> ss_itemOrder s ! i"

abbreviation set_item :: "nat \<Rightarrow> streamItem \<Rightarrow> StreamSession \<Rightarrow> StreamSession" where
  "set_item i item s \<equiv> s\<lparr>ss_itemOrder := (ss_itemOrder s)[i := item]\<rparr>"

section \<open>Values\<close>

text \<open>In a valid string a rune below \<open>0x20\<close> is a byte below \<open>0x20\<close>, and carriage return, line feed and zero are among them.\<close>

definition validStreamValue :: "gostring \<Rightarrow> int \<Rightarrow> bool" where
  "validStreamValue value maxBytes \<longleftrightarrow>
     \<not> (value = [] \<or> len value > maxBytes \<or> \<not> utf8_Valid value) \<and> list_all (\<lambda>c. \<not> byte c < 0x20) value"

definition validOptionalStreamValue :: "gostring \<Rightarrow> int \<Rightarrow> bool" where
  "validOptionalStreamValue value maxBytes \<longleftrightarrow> value = [] \<or> validStreamValue value maxBytes"

definition normalizeIncompleteReason :: "gostring \<Rightarrow> gostring" where
  "normalizeIncompleteReason reason =
     (if reason \<in> set [''max_output_tokens'', ''max_tokens'', ''length''] then ''max_output_tokens'' else ''other'')"

definition safeFailureCode :: "gostring \<Rightarrow> gostring" where
  "safeFailureCode code =
     (if \<not> validStreamValue code 64 then ''stream_error'' else if code = [] then ''stream_error'' else code)"

definition safeFailureMessage :: "gostring \<Rightarrow> gostring" where
  "safeFailureMessage message =
     (if \<not> validStreamValue message 256 then ''The response stream failed.''
      else if message = [] then ''The response stream failed.'' else message)"

definition safeFailureType :: "gostring \<Rightarrow> gostring" where
  "safeFailureType code =
     (if code = ''stream_limit_exceeded'' then ''request_too_large''
      else if code = ''timeout'' then ''timeout''
      else if code = ''canceled'' then ''canceled''
      else if code = ''stream_interrupted'' then ''stream_interrupted''
      else if code \<in> set [''upstream_stream_error'', ''upstream_eof'', ''upstream_terminal_error'', ''upstream_error'',
          ''upstream_tool_not_declared'', ''upstream_custom_tool_invalid''] then ''provider_protocol_error''
      else ''internal_error'')"

section \<open>Creation\<close>

definition session_MaxAggregateBytes :: int where "session_MaxAggregateBytes = 16 * 2 ^ 20"

definition customHook :: CustomToolHook where
  "customHook = \<lparr>ct_Kind = ToolCustom, ct_ItemType = ''custom_tool_call'', ct_DeltaType = ''response.custom_tool_call_input.delta'',
     ct_DoneType = ''response.custom_tool_call_input.done'', ct_InputName = ''input''\<rparr>"

definition defaultCustomTools :: "(ToolKind, CustomToolHook) gomap" where
  "defaultCustomTools = [(ToolCustom, customHook)]"

definition validateCustomToolHook :: "ToolKind \<Rightarrow> CustomToolHook \<Rightarrow> StreamErrorCode option" where
  "validateCustomToolHook kind hook =
     (if kind = ToolFunction then Some StreamErrorTransition
      else
        let hook = (if ct_Kind hook = [] then hook\<lparr>ct_Kind := kind\<rparr> else hook) in
        if ct_Kind hook \<noteq> kind \<or> \<not> validStreamValue (ct_ItemType hook) 128 \<or> \<not> validStreamValue (ct_DeltaType hook) 128
          \<or> \<not> validStreamValue (ct_DoneType hook) 128 \<or> \<not> validStreamValue (ct_InputName hook) 64
        then Some StreamErrorTransition else None)"

definition add_hook :: "ToolKind \<times> CustomToolHook \<Rightarrow> (ToolKind, CustomToolHook) gomap \<Rightarrow> (StreamErrorCode, unit, (ToolKind, CustomToolHook) gomap) go" where
  "add_hook kh m = (case validateCustomToolHook (fst kh) (snd kh) of
     Some e \<Rightarrow> (Inl e, m) | None \<Rightarrow> (Inr (), map_put (fst kh) (snd kh) m))"

text \<open>The writer is not nil; \<open>defaultStreamID\<close> is a generator like any other and part of the environment.\<close>

definition NewStreamSession :: "ResponseWriter \<Rightarrow> StreamEnv \<Rightarrow> StreamSessionOptions \<Rightarrow> StreamErrorCode + StreamSession" where
  "NewStreamSession writer env options =
     (let responseID = (if so_ResponseID options = [] then en_id env 0 ''resp'' 0 else so_ResponseID options) in
      if \<not> validStreamValue responseID 128 \<or> \<not> validOptionalStreamValue (so_Model options) 256 then Inl StreamErrorTransition
      else case go_for add_hook (so_CustomTools options) defaultCustomTools of
          (Inl e, _) \<Rightarrow> Inl e
        | (Inr _, customTools) \<Rightarrow>
            Inr \<lparr>ss_ResponseID = responseID,
              ss_CreatedAt = (if so_CreatedAt options = zero_time then en_now env 1 else so_CreatedAt options),
              ss_Model = so_Model options, ss_SequenceNumber = 0, ss_NextOutputIndex = 0, ss_TerminalEmitted = False,
              ss_writer = writer, ss_env = env, ss_tick = 2, ss_customTools = customTools, ss_started = False,
              ss_headersSent = False, ss_writeFailure = None, ss_downstreamDone = False, ss_terminalAt = zero_time,
              ss_aggregateBytes = 0,
              ss_maxAggregateBytes = positive_or (so_MaxAggregateBytes options) session_MaxAggregateBytes,
              ss_maxToolCallArgumentBytes = positive_or (so_MaxToolCallArgumentBytes options) DefaultMaxToolCallArgumentBytes,
              ss_maxOutputBytes = positive_or (so_MaxOutputBytes options) DefaultMaxOutputBytes,
              ss_maxTextBytes = positive_or (so_MaxTextBytes options) DefaultMaxTextBytes,
              ss_maxReasoningBytes = positive_or (so_MaxReasoningBytes options) DefaultMaxReasoningBytes,
              ss_writeTimeout = so_WriteTimeout options, ss_reasoning = [], ss_textBytes = 0, ss_outputBytes = 0,
              ss_items = [], ss_itemOrder = [], ss_usage = None\<rparr>)"

section \<open>Writing\<close>

definition recordWriteFailureLocked :: "'a session_op" where
  "recordWriteFailureLocked s =
     (case ss_writeFailure s of
        None \<Rightarrow> (Inl StreamErrorWrite, s\<lparr>ss_writeFailure := Some StreamErrorWrite, ss_downstreamDone := True\<rparr>)
      | Some e \<Rightarrow> (Inl e, s))"

text \<open>\<open>json.Marshal\<close> of a value: the members of a map come in the order of their keys.\<close>

fun marshal_json :: "json \<Rightarrow> gostring" where
  "marshal_json JNull = ''null''"
| "marshal_json (JBool b) = (if b then ''true'' else ''false'')"
| "marshal_json (JNum n) = n"
| "marshal_json (JStr s) = quote s"
| "marshal_json (JArr vs) = arr_text (map marshal_json vs)"
| "marshal_json (JObj ms) = obj_text (sort_key fst (map (\<lambda>(k, v). (k, marshal_json v)) ms))"

abbreviation JInt :: "int \<Rightarrow> json" where
  "JInt n \<equiv> JNum (itoa n)"

definition frame :: "json \<Rightarrow> gobytes" where
  "frame payload = ''data: '' @ marshal_json payload @ [CHR 0x0A, CHR 0x0A]"

definition event_payload :: "gostring \<Rightarrow> json_fields \<Rightarrow> int \<Rightarrow> json" where
  "event_payload eventType body sequence_number =
     JObj (map_put ''sequence_number'' (JInt sequence_number) (map_put ''type'' (JStr eventType) body))"

definition write_frame :: "json \<Rightarrow> WriteAnswer \<Rightarrow> ResponseWriter \<Rightarrow> bool \<times> ResponseWriter" where
  "write_frame payload answer w =
     (case wa_written answer of
        None \<Rightarrow> (True, w\<lparr>rw_frames := rw_frames w @ [payload]\<rparr>)
      | Some n \<Rightarrow> if n \<ge> length (frame payload) then (True, w\<lparr>rw_frames := rw_frames w @ [payload]\<rparr>)
          else (False, w\<lparr>rw_tail := rw_tail w @ take n (frame payload)\<rparr>))"

definition writeEventLocked :: "gostring \<Rightarrow> json_fields \<Rightarrow> unit session_op" where
  "writeEventLocked eventType body s =
     (case ss_writeFailure s of
        Some e \<Rightarrow> (Inl e, s)
      | None \<Rightarrow>
          let answer = en_write (ss_env s) (ss_tick s); s = s\<lparr>ss_tick := ss_tick s + 1\<rparr> in
          if wa_contextErr answer then recordWriteFailureLocked s
          else if ss_writeTimeout s > 0 \<and> wa_deadlineErr answer then recordWriteFailureLocked s
          else
            let (whole, w) = write_frame (event_payload eventType body (ss_SequenceNumber s)) answer (ss_writer s);
                s = s\<lparr>ss_writer := w\<rparr> in
            if wa_writeErr answer \<or> \<not> whole then recordWriteFailureLocked s
            else if wa_flushErr answer then recordWriteFailureLocked s
            else (Inr (), s\<lparr>ss_SequenceNumber := ss_SequenceNumber s + 1\<rparr>))"

section \<open>Objects\<close>

abbreviation text_part :: "gostring \<Rightarrow> json" where
  "text_part text \<equiv> JObj [(''type'', JStr ''output_text''), (''text'', JStr text), (''annotations'', JArr [])]"

definition snapshot :: "streamItem \<Rightarrow> gostring \<Rightarrow> json" where
  "snapshot item status =
     (let status = (if status \<noteq> [] then status else if si_finalStatus item = [] then ''in_progress'' else si_finalStatus item);
          result = [(''id'', JStr (si_id item)), (''status'', JStr status), (''type'', JStr (si_itemType item))] in
      case si_key item of
        StreamTextKind _ \<Rightarrow>
          JObj (map_put ''content'' (JArr (if si_contentDone item \<or> si_itemDone item then [text_part (si_text item)] else []))
            (map_put ''role'' (JStr ''assistant'') result))
      | StreamToolKind _ _ \<Rightarrow>
          let result = map_put ''name'' (JStr (si_name item)) (map_put ''call_id'' (JStr (si_callID item)) result) in
          if si_toolKind item = ToolFunction then JObj (map_put ''arguments'' (JStr (si_arguments item)) result)
          else JObj (map_put (ct_InputName (si_hook item)) (JStr (si_arguments item)) result))"

definition outputLocked :: "StreamSession \<Rightarrow> json" where
  "outputLocked s = JArr (map (\<lambda>item. snapshot item []) (ss_itemOrder s))"

definition unix_seconds :: "gotime \<Rightarrow> int" where
  "unix_seconds t = t div 10 ^ 9"

definition usage_object :: "Usage \<Rightarrow> json" where
  "usage_object u =
     (let usage = [(''input_tokens'', JInt (us_PromptTokens u)), (''output_tokens'', JInt (us_CompletionTokens u)),
            (''total_tokens'', JInt (us_TotalTokens u))];
          usage = (if us_PromptCacheHitTokens u > 0
            then map_put ''input_tokens_details'' (JObj [(''cached_tokens'', JInt (us_PromptCacheHitTokens u))]) usage else usage);
          usage = (if us_ReasoningTokens u > 0
            then map_put ''output_tokens_details'' (JObj [(''reasoning_tokens'', JInt (us_ReasoningTokens u))]) usage else usage)
      in JObj usage)"

definition responseObjectLocked :: "gostring \<Rightarrow> json_fields option \<Rightarrow> gostring \<Rightarrow> StreamSession \<Rightarrow> json" where
  "responseObjectLocked status responseError incompleteReason s =
     (let response = [(''id'', JStr (ss_ResponseID s)), (''object'', JStr ''response''),
            (''created_at'', JInt (unix_seconds (ss_CreatedAt s))), (''status'', JStr status), (''output'', outputLocked s)];
          response = (if ss_Model s \<noteq> [] then map_put ''model'' (JStr (ss_Model s)) response else response);
          response = (if status \<noteq> ''in_progress'' then
              (if status = ''completed'' then
                 map_put ''completed_at'' (JInt (unix_seconds (if ss_terminalAt s = zero_time then ss_CreatedAt s else ss_terminalAt s))) response
               else map_put ''completed_at'' JNull response)
            else response);
          response = (case responseError of
              Some e \<Rightarrow> map_put ''error'' (JObj e) response
            | None \<Rightarrow> if status = ''completed'' then map_put ''error'' JNull response else response);
          response = (if incompleteReason \<noteq> [] then map_put ''incomplete_details'' (JObj [(''reason'', JStr incompleteReason)]) response
            else response);
          response = (case ss_usage s of Some u \<Rightarrow> map_put ''usage'' (usage_object u) response | None \<Rightarrow> response)
      in JObj response)"

section \<open>Start and end\<close>

definition stream_headers :: "(gostring, gostring) gomap \<Rightarrow> (gostring, gostring) gomap" where
  "stream_headers h =
     map_del ''Content-Length'' (map_put ''X-Accel-Buffering'' ''no'' (map_put ''Connection'' ''keep-alive''
       (map_put ''Cache-Control'' ''no-cache'' (map_put ''Content-Type'' ''text/event-stream'' h))))"

definition send_headers :: "StreamSession \<Rightarrow> StreamSession" where
  "send_headers s =
     (if ss_headersSent s then s
      else s\<lparr>ss_writer := (ss_writer s)\<lparr>rw_Header := stream_headers (rw_Header (ss_writer s)), rw_status := rw_status (ss_writer s) @ [200]\<rparr>,
            ss_headersSent := True\<rparr>)"

definition startLocked :: "unit session_op" where
  "startLocked s =
     (let s = (send_headers s)\<lparr>ss_started := True\<rparr> in
      go_bind (writeEventLocked ''response.created'' [(''response'', responseObjectLocked ''in_progress'' None [] s)] s)
        (\<lambda>_ s. writeEventLocked ''response.in_progress'' [(''response'', responseObjectLocked ''in_progress'' None [] s)] s))"

definition ensureStartedLocked :: "unit session_op" where
  "ensureStartedLocked s = (if ss_started s then (Inr (), s) else startLocked s)"

definition note_terminal :: "StreamSession \<Rightarrow> StreamSession" where
  "note_terminal s =
     (let terminalAt = en_now (ss_env s) (ss_tick s);
          terminalAt = (if terminalAt = zero_time then ss_CreatedAt s else terminalAt);
          terminalAt = (if terminalAt < ss_CreatedAt s then ss_CreatedAt s else terminalAt)
      in s\<lparr>ss_tick := ss_tick s + 1, ss_terminalAt := terminalAt\<rparr>)"

definition writeTerminalLocked :: "gostring \<Rightarrow> json_fields option \<Rightarrow> gostring \<Rightarrow> unit session_op" where
  "writeTerminalLocked status responseError incompleteReason s =
     (let s = (if status = ''completed'' \<and> ss_terminalAt s = zero_time then note_terminal s else s) in
      writeEventLocked (''response.'' @ status)
        [(''response'', responseObjectLocked status responseError incompleteReason s)] s)"

text \<open>The message of an invalid transition is not used.\<close>

definition invalidTransitionLocked :: "'a session_op" where
  "invalidTransitionLocked s =
     (if ss_TerminalEmitted s then (Inl StreamErrorTerminal, s)
      else case ss_writeFailure s of
          Some e \<Rightarrow> (Inl e, s)
        | None \<Rightarrow>
            go_bind (ensureStartedLocked s)
              (\<lambda>_ s. go_bind (writeTerminalLocked ''failed''
                   (Some [(''code'', JStr ''stream_invalid_transition''), (''type'', JStr ''provider_protocol_error''),
                          (''message'', JStr ''The response stream entered an invalid state.'')]) []
                   (s\<lparr>ss_TerminalEmitted := True\<rparr>))
                (\<lambda>_ s. (Inl StreamErrorTransition, s))))"

definition finishTextItemLocked :: "nat \<Rightarrow> gostring \<Rightarrow> unit session_op" where
  "finishTextItemLocked i status s =
     (let item = item_at s i in
      if si_contentDone item \<or> si_itemDone item then (Inr (), s)
      else
        go_bind (writeEventLocked ''response.output_text.done''
            [(''item_id'', JStr (si_id item)), (''output_index'', JInt (si_outputIndex item)), (''content_index'', JInt 0),
             (''text'', JStr (si_text item))] s)
          (\<lambda>_ s. go_bind (writeEventLocked ''response.content_part.done''
              [(''item_id'', JStr (si_id item)), (''output_index'', JInt (si_outputIndex item)), (''content_index'', JInt 0),
               (''part'', text_part (si_text item))] (set_item i (item\<lparr>si_contentDone := True\<rparr>) s))
            (\<lambda>_ s.
               let item = item\<lparr>si_contentDone := True, si_finalStatus := status, si_itemDone := True\<rparr> in
               writeEventLocked ''response.output_item.done''
                 [(''output_index'', JInt (si_outputIndex item)), (''item'', snapshot item status)] (set_item i item s))))"

definition finishToolItemLocked :: "nat \<Rightarrow> gostring \<Rightarrow> unit session_op" where
  "finishToolItemLocked i status s =
     (let item = item_at s i in
      if si_itemDone item then (Inr (), s)
      else
        let doneType = (if si_toolKind item \<noteq> ToolFunction then ct_DoneType (si_hook item) else ''response.function_call_arguments.done'');
            body = [(''item_id'', JStr (si_id item)), (''output_index'', JInt (si_outputIndex item))];
            body = (if si_toolKind item = ToolFunction
              then map_put ''arguments'' (JStr (si_arguments item)) (map_put ''name'' (JStr (si_name item)) body)
              else map_put (ct_InputName (si_hook item)) (JStr (si_arguments item)) body)
        in go_bind (writeEventLocked doneType body s)
          (\<lambda>_ s.
             let item = item\<lparr>si_finalStatus := status, si_itemDone := True\<rparr> in
             writeEventLocked ''response.output_item.done''
               [(''output_index'', JInt (si_outputIndex item)), (''item'', snapshot item status)] (set_item i item s)))"

fun is_text_key :: "streamItemKey \<Rightarrow> bool" where
  "is_text_key (StreamTextKind _) = True"
| "is_text_key (StreamToolKind _ _) = False"

definition finish_item :: "gostring \<Rightarrow> bool \<Rightarrow> nat \<Rightarrow> unit session_op" where
  "finish_item status requireIdentity i s =
     (let item = item_at s i in
      if si_itemDone item then (Inr (), s)
      else if is_text_key (si_key item) then finishTextItemLocked i status s
      else if requireIdentity \<and> (si_callID item = [] \<or> si_name item = []) then invalidTransitionLocked s
      else finishToolItemLocked i status s)"

definition finishItemsLocked :: "gostring \<Rightarrow> bool \<Rightarrow> unit session_op" where
  "finishItemsLocked status requireIdentity s = go_for (finish_item status requireIdentity) [0..<length (ss_itemOrder s)] s"

definition limitLocked :: "'a session_op" where
  "limitLocked s =
     (if ss_TerminalEmitted s then (Inl StreamErrorTerminal, s)
      else case ss_writeFailure s of
          Some e \<Rightarrow> (Inl e, s)
        | None \<Rightarrow>
            go_bind (ensureStartedLocked s)
              (\<lambda>_ s. go_bind (finishItemsLocked ''incomplete'' False s)
                (\<lambda>_ s. go_bind (writeTerminalLocked ''failed''
                     (Some [(''code'', JStr ''stream_limit_exceeded''), (''type'', JStr ''request_too_large''),
                            (''message'', JStr ''The response stream exceeded its limit.'')]) []
                     (s\<lparr>ss_TerminalEmitted := True\<rparr>))
                  (\<lambda>_ s. (Inl StreamErrorLimit, s)))))"

section \<open>Items\<close>

definition streamStateOverhead :: int where "streamStateOverhead = 32"

definition reserveAggregateLocked :: "int \<Rightarrow> unit session_op" where
  "reserveAggregateLocked bytes s =
     (if bytes < 0 \<or> bytes > ss_maxAggregateBytes s \<or> ss_aggregateBytes s > ss_maxAggregateBytes s - bytes
      then (Inl StreamErrorLimit, s)
      else (Inr (), s\<lparr>ss_aggregateBytes := ss_aggregateBytes s + bytes\<rparr>))"

text \<open>The form in which every caller uses it: a refusal ends the stream.\<close>

definition reserve_or_limit :: "int \<Rightarrow> unit session_op" where
  "reserve_or_limit bytes s =
     (case reserveAggregateLocked bytes s of
        (Inl _, s) \<Rightarrow> limitLocked s
      | (Inr _, s) \<Rightarrow> (Inr (), s))"

definition next_id :: "gostring \<Rightarrow> int \<Rightarrow> StreamSession \<Rightarrow> gostring \<times> StreamSession" where
  "next_id idPrefix index s = (en_id (ss_env s) (ss_tick s) idPrefix index, s\<lparr>ss_tick := ss_tick s + 1\<rparr>)"

definition zero_hook :: CustomToolHook where
  "zero_hook = \<lparr>ct_Kind = [], ct_ItemType = [], ct_DeltaType = [], ct_DoneType = [], ct_InputName = []\<rparr>"

definition newItemLocked :: "streamItemKey \<Rightarrow> gostring \<Rightarrow> gostring \<Rightarrow> ToolKind \<Rightarrow> nat session_op" where
  "newItemLocked key idPrefix itemType toolKind s =
     (let (itemID, s) = next_id idPrefix (ss_NextOutputIndex s) s in
      if \<not> validStreamValue itemID 128 then (Inl StreamErrorTransition, s)
      else go_bind (reserve_or_limit (len itemID + streamStateOverhead) s)
        (\<lambda>_ s.
           let item = \<lparr>si_key = key, si_id = itemID, si_outputIndex = ss_NextOutputIndex s, si_itemType = itemType,
                 si_toolKind = toolKind, si_hook = zero_hook, si_callID = [], si_name = [], si_text = [], si_arguments = [],
                 si_finalStatus = [], si_contentDone = False, si_itemDone = False\<rparr>;
               i = length (ss_itemOrder s)
           in (Inr i, s\<lparr>ss_NextOutputIndex := ss_NextOutputIndex s + 1, ss_items := map_put key i (ss_items s),
                  ss_itemOrder := ss_itemOrder s @ [item]\<rparr>)))"

definition write_item_added :: "nat \<Rightarrow> unit session_op" where
  "write_item_added i s =
     writeEventLocked ''response.output_item.added''
       [(''output_index'', JInt (si_outputIndex (item_at s i))), (''item'', snapshot (item_at s i) ''in_progress'')] s"

definition newTextItemLocked :: "streamItemKey \<Rightarrow> nat session_op" where
  "newTextItemLocked key s =
     go_bind (newItemLocked key ''msg'' ''message'' ToolFunction s)
       (\<lambda>i s. go_bind (write_item_added i s)
         (\<lambda>_ s. go_bind (writeEventLocked ''response.content_part.added''
             [(''item_id'', JStr (si_id (item_at s i))), (''output_index'', JInt (si_outputIndex (item_at s i))),
              (''content_index'', JInt 0), (''part'', text_part [])] s)
           (\<lambda>_ s. (Inr i, s))))"

definition toolItemLocked :: "ToolCallKey \<Rightarrow> StreamSession \<Rightarrow> nat option" where
  "toolItemLocked key s = map_of (ss_items s) (StreamToolKind (ChoiceIndex key) (ToolIndex key))"

definition toolDefinition :: "ToolKind \<Rightarrow> StreamSession \<Rightarrow> (CustomToolHook \<times> gostring \<times> gostring) option" where
  "toolDefinition kind s =
     (if kind = ToolFunction then Some (zero_hook\<lparr>ct_Kind := kind\<rparr>, ''function_call'', ''fc'')
      else case map_of (ss_customTools s) kind of
          None \<Rightarrow> None
        | Some hook \<Rightarrow> Some (hook, ct_ItemType hook, if kind = ToolCustom then ''ctc'' else ''tool''))"

section \<open>Events\<close>

definition responseStartedLocked :: "gotime \<Rightarrow> gostring \<Rightarrow> unit session_op" where
  "responseStartedLocked createdAt model s =
     (if ss_started s then (Inr (), s)
      else
        let s = (if createdAt \<noteq> zero_time then s\<lparr>ss_CreatedAt := createdAt\<rparr> else s) in
        if model \<noteq> [] then
          (if \<not> validStreamValue model 256 then invalidTransitionLocked s else startLocked (s\<lparr>ss_Model := model\<rparr>))
        else startLocked s)"

definition append_text :: "nat \<Rightarrow> gostring \<Rightarrow> unit session_op" where
  "append_text i text s =
     (let item = item_at s i; item = item\<lparr>si_text := si_text item @ text\<rparr> in
      writeEventLocked ''response.output_text.delta''
        [(''item_id'', JStr (si_id item)), (''output_index'', JInt (si_outputIndex item)), (''content_index'', JInt 0),
         (''delta'', JStr text), (''logprobs'', JArr [])]
        ((set_item i item s)\<lparr>ss_textBytes := ss_textBytes s + len text, ss_outputBytes := ss_outputBytes s + len text\<rparr>))"

definition text_for_item :: "gostring \<Rightarrow> nat \<Rightarrow> unit session_op" where
  "text_for_item text i s =
     (if si_itemDone (item_at s i) then invalidTransitionLocked s
      else if text = [] then (Inr (), s)
      else if len text > ss_maxTextBytes s - ss_textBytes s \<or> len text > ss_maxOutputBytes s - ss_outputBytes s then limitLocked s
      else go_bind (reserve_or_limit (len text) s) (\<lambda>_. append_text i text))"

definition textDeltaLocked :: "int \<Rightarrow> gostring \<Rightarrow> unit session_op" where
  "textDeltaLocked choiceIndex text s =
     (if choiceIndex < 0 then invalidTransitionLocked s
      else go_bind (ensureStartedLocked s)
        (\<lambda>_ s.
           if \<not> utf8_Valid text then invalidTransitionLocked s
           else case map_of (ss_items s) (StreamTextKind choiceIndex) of
               Some i \<Rightarrow> text_for_item text i s
             | None \<Rightarrow>
                 if text = [] then (Inr (), s)
                 else go_bind (newTextItemLocked (StreamTextKind choiceIndex) s) (text_for_item text)))"

definition identify_tool :: "CustomToolHook \<Rightarrow> gostring \<Rightarrow> gostring \<Rightarrow> nat \<Rightarrow> unit session_op" where
  "identify_tool hook callID name i s =
     (let (callID, s) = (if callID = [] then next_id ''call'' (si_outputIndex (item_at s i)) s else (callID, s));
          s = set_item i ((item_at s i)\<lparr>si_hook := hook, si_callID := callID\<rparr>) s in
      if \<not> validStreamValue callID 256 then invalidTransitionLocked s
      else go_bind (reserve_or_limit (len callID + len name) s)
        (\<lambda>_ s. write_item_added i (set_item i ((item_at s i)\<lparr>si_name := si_name (item_at s i) @ name\<rparr>) s)))"

definition toolCallStartedLocked :: "ToolCallKey \<Rightarrow> ToolKind \<Rightarrow> gostring \<Rightarrow> gostring \<Rightarrow> unit session_op" where
  "toolCallStartedLocked key kind callID name s =
     (if ChoiceIndex key < 0 \<or> ToolIndex key < 0 then invalidTransitionLocked s
      else
        let kind = (if kind = [] then ToolFunction else kind) in
        if \<not> validOptionalStreamValue callID 256 \<or> \<not> validOptionalStreamValue name 256 then invalidTransitionLocked s
        else go_bind (ensureStartedLocked s)
          (\<lambda>_ s.
             if toolItemLocked key s \<noteq> None then invalidTransitionLocked s
             else case toolDefinition kind s of
                 None \<Rightarrow> invalidTransitionLocked s
               | Some (hook, itemType, idPrefix) \<Rightarrow>
                   go_bind (newItemLocked (StreamToolKind (ChoiceIndex key) (ToolIndex key)) idPrefix itemType kind s)
                     (identify_tool hook callID name)))"

definition active_item :: "ToolCallKey \<Rightarrow> StreamSession \<Rightarrow> nat option" where
  "active_item key s =
     (case toolItemLocked key s of None \<Rightarrow> None | Some i \<Rightarrow> if si_itemDone (item_at s i) then None else Some i)"

definition toolCallMetadataLocked :: "ToolCallKey \<Rightarrow> gostring \<Rightarrow> gostring \<Rightarrow> unit session_op" where
  "toolCallMetadataLocked key callID name s =
     (case active_item key s of
        None \<Rightarrow> invalidTransitionLocked s
      | Some i \<Rightarrow>
          if \<not> validOptionalStreamValue callID 256 \<or> \<not> validOptionalStreamValue name 256 then invalidTransitionLocked s
          else go_bind (reserve_or_limit (len callID + len name) s)
            (\<lambda>_ s.
               if callID \<noteq> [] \<and> si_callID (item_at s i) \<noteq> callID then invalidTransitionLocked s
               else (Inr (), set_item i ((item_at s i)\<lparr>si_name := si_name (item_at s i) @ name\<rparr>) s)))"

definition append_arguments :: "nat \<Rightarrow> gostring \<Rightarrow> unit session_op" where
  "append_arguments i arguments s =
     (let item = item_at s i; item = item\<lparr>si_arguments := si_arguments item @ arguments\<rparr> in
      writeEventLocked (if si_toolKind item \<noteq> ToolFunction then ct_DeltaType (si_hook item) else ''response.function_call_arguments.delta'')
        [(''item_id'', JStr (si_id item)), (''output_index'', JInt (si_outputIndex item)), (''delta'', JStr arguments)]
        ((set_item i item s)\<lparr>ss_outputBytes := ss_outputBytes s + len arguments\<rparr>))"

definition toolCallArgumentsLocked :: "ToolCallKey \<Rightarrow> gostring \<Rightarrow> unit session_op" where
  "toolCallArgumentsLocked key arguments s =
     (case active_item key s of
        None \<Rightarrow> invalidTransitionLocked s
      | Some i \<Rightarrow>
          if \<not> utf8_Valid arguments then invalidTransitionLocked s
          else if arguments = [] then (Inr (), s)
          else if len arguments > ss_maxOutputBytes s - ss_outputBytes s then limitLocked s
          else if len arguments > ss_maxToolCallArgumentBytes s - len (si_arguments (item_at s i)) then limitLocked s
          else go_bind (reserve_or_limit (len arguments) s) (\<lambda>_. append_arguments i arguments))"

definition complete_item :: "gostring \<Rightarrow> gostring \<Rightarrow> streamItem \<Rightarrow> streamItem" where
  "complete_item name arguments item =
     (let item = (if name \<noteq> [] then item\<lparr>si_name := name\<rparr> else item)
      in if arguments \<noteq> [] \<or> si_arguments item = [] then item\<lparr>si_arguments := arguments\<rparr> else item)"

definition settle_tool :: "nat \<Rightarrow> gostring \<Rightarrow> gostring \<Rightarrow> gostring \<Rightarrow> unit session_op" where
  "settle_tool i callID name arguments s =
     (if callID \<noteq> [] \<and> si_callID (item_at s i) \<noteq> callID then invalidTransitionLocked s
      else
        let previousArgumentBytes = len (si_arguments (item_at s i));
            item = complete_item name arguments (item_at s i);
            s = set_item i item s;
            s = (if arguments \<noteq> [] then s\<lparr>ss_outputBytes := ss_outputBytes s + (len (si_arguments item) - previousArgumentBytes)\<rparr> else s)
        in if si_callID item = [] \<or> si_name item = [] then invalidTransitionLocked s
           else finishToolItemLocked i ''completed'' s)"

definition toolCallCompletedLocked :: "ToolCallKey \<Rightarrow> ToolKind \<Rightarrow> gostring \<Rightarrow> gostring \<Rightarrow> gostring \<Rightarrow> unit session_op" where
  "toolCallCompletedLocked key kind callID name arguments s =
     (case active_item key s of
        None \<Rightarrow> invalidTransitionLocked s
      | Some i \<Rightarrow>
          if kind \<noteq> [] \<and> kind \<noteq> si_toolKind (item_at s i) then invalidTransitionLocked s
          else if \<not> validOptionalStreamValue callID 256 \<or> \<not> validOptionalStreamValue name 256 \<or> \<not> utf8_Valid arguments
          then invalidTransitionLocked s
          else if len arguments > ss_maxToolCallArgumentBytes s then limitLocked s
          else if arguments \<noteq> []
            \<and> len arguments > ss_maxOutputBytes s - (ss_outputBytes s - len (si_arguments (item_at s i))) then limitLocked s
          else go_bind (reserve_or_limit (len callID + len name + len arguments) s) (\<lambda>_. settle_tool i callID name arguments))"

definition reasoningDeltaLocked :: "int \<Rightarrow> gostring \<Rightarrow> unit session_op" where
  "reasoningDeltaLocked choiceIndex text s =
     (if choiceIndex < 0 \<or> \<not> utf8_Valid text then invalidTransitionLocked s
      else go_bind (ensureStartedLocked s)
        (\<lambda>_ s.
           if text = [] then (Inr (), s)
           else if len text > ss_maxReasoningBytes s - len (ss_reasoning s) then limitLocked s
           else go_bind (reserve_or_limit (len text) s) (\<lambda>_ s. (Inr (), s\<lparr>ss_reasoning := ss_reasoning s @ text\<rparr>))))"

definition usageUpdatedLocked :: "Usage \<Rightarrow> unit session_op" where
  "usageUpdatedLocked usage s = go_bind (ensureStartedLocked s) (\<lambda>_ s. (Inr (), s\<lparr>ss_usage := Some usage\<rparr>))"

definition end_stream :: "gostring \<Rightarrow> bool \<Rightarrow> gostring \<Rightarrow> json_fields option \<Rightarrow> gostring \<Rightarrow> unit session_op" where
  "end_stream itemStatus requireIdentity status responseError incompleteReason s =
     go_bind (ensureStartedLocked s)
       (\<lambda>_ s. go_bind (finishItemsLocked itemStatus requireIdentity s)
         (\<lambda>_ s. writeTerminalLocked status responseError incompleteReason (s\<lparr>ss_TerminalEmitted := True\<rparr>)))"

definition completedLocked :: "unit session_op" where
  "completedLocked = end_stream ''completed'' True ''completed'' None []"

definition incompleteLocked :: "gostring \<Rightarrow> unit session_op" where
  "incompleteLocked reason = end_stream ''incomplete'' False ''incomplete'' None (normalizeIncompleteReason reason)"

definition failedLocked :: "gostring \<Rightarrow> gostring \<Rightarrow> unit session_op" where
  "failedLocked code message =
     (let code = safeFailureCode code in
      end_stream ''incomplete'' False ''failed''
        (Some [(''type'', JStr (safeFailureType code)), (''code'', JStr code), (''message'', JStr (safeFailureMessage message))]) [])"

definition session_Start :: "unit session_op" where
  "session_Start s =
     (case ss_writeFailure s of
        Some e \<Rightarrow> (Inl e, s)
      | None \<Rightarrow>
          if ss_TerminalEmitted s then (Inl StreamErrorTerminal, s)
          else if ss_started s then invalidTransitionLocked s
          else startLocked s)"

fun dispatch_event :: "StreamEvent \<Rightarrow> unit session_op" where
  "dispatch_event (ResponseStarted ident createdAt model) s = responseStartedLocked createdAt model s"
| "dispatch_event (TextDelta choiceIndex text) s = textDeltaLocked choiceIndex text s"
| "dispatch_event (ToolCallStarted key kind callID name) s = toolCallStartedLocked key kind callID name s"
| "dispatch_event (ToolCallMetadataDelta key callID name) s = toolCallMetadataLocked key callID name s"
| "dispatch_event (ToolCallArgumentsDelta key arguments) s = toolCallArgumentsLocked key arguments s"
| "dispatch_event (ToolCallCompleted key kind callID name arguments) s = toolCallCompletedLocked key kind callID name arguments s"
| "dispatch_event (ReasoningDelta choiceIndex text) s = reasoningDeltaLocked choiceIndex text s"
| "dispatch_event (UsageUpdated usage) s = usageUpdatedLocked usage s"
| "dispatch_event (Completed reason) s = completedLocked s"
| "dispatch_event (Incomplete reason) s = incompleteLocked reason s"
| "dispatch_event (Failed code message) s = failedLocked code message s"

text \<open>A pointer to an event is handled as the event; a nil event or pointer is \<open>None\<close>.\<close>

definition session_Handle :: "StreamEvent option \<Rightarrow> unit session_op" where
  "session_Handle event s =
     (case ss_writeFailure s of
        Some e \<Rightarrow> (Inl e, s)
      | None \<Rightarrow>
          if ss_TerminalEmitted s then (Inl StreamErrorTerminal, s)
          else case event of
              None \<Rightarrow> invalidTransitionLocked s
            | Some value \<Rightarrow> dispatch_event value s)"

definition session_Complete :: "unit session_op" where
  "session_Complete = session_Handle (Some (Completed ''stop''))"

definition session_Incomplete :: "gostring \<Rightarrow> unit session_op" where
  "session_Incomplete reason = session_Handle (Some (Incomplete reason))"

definition session_Fail :: "gostring \<Rightarrow> gostring \<Rightarrow> unit session_op" where
  "session_Fail code message = session_Handle (Some (Failed code message))"

end
