(* ===== verification/Stream_Session_Inv.thy ===== *)
theory Stream_Session_Inv
  imports Stream_Session
begin

text \<open>
  What the session of \<open>Stream_Session\<close> guarantees of the frames it writes: their numbers, their order, the
  single terminal frame, the texts it reports, and that a session that has ended stays as it is. The
  invariant is proved for every operation and every answer of the environment.
\<close>

declare map_of_eq_Some_iff [simp del]

section \<open>Reading a frame\<close>

definition field :: "gostring \<Rightarrow> json \<Rightarrow> json option" where
  "field k j = (case j of JObj ms \<Rightarrow> map_of ms k | _ \<Rightarrow> None)"

definition ev_type :: "json \<Rightarrow> gostring" where
  "ev_type j = (case field ''type'' j of Some (JStr t) \<Rightarrow> t | _ \<Rightarrow> [])"

lemma event_payload_fields [simp]:
  "ev_type (event_payload t b n) = t"
  "field ''sequence_number'' (event_payload t b n) = Some (JInt n)"
  "k \<noteq> ''type'' \<Longrightarrow> k \<noteq> ''sequence_number'' \<Longrightarrow> field k (event_payload t b n) = map_of b k"
  by (simp_all add: ev_type_def field_def event_payload_def)

definition terminal_types :: "gostring list" where
  "terminal_types = [''response.completed'', ''response.incomplete'', ''response.failed'']"

definition session_types :: "gostring list" where
  "session_types = [''response.created'', ''response.in_progress'', ''response.output_item.added'', ''response.content_part.added'',
     ''response.output_text.delta'', ''response.output_text.done'', ''response.content_part.done'', ''response.output_item.done''] @ terminal_types"

definition text_types :: "gostring list" where
  "text_types = [''response.output_text.delta'', ''response.output_text.done'']"

definition special_types :: "gostring list" where
  "special_types = terminal_types @ text_types"

lemma not_special: "t \<notin> set special_types \<longleftrightarrow> t \<notin> set terminal_types \<and> t \<notin> set text_types"
  by (simp add: special_types_def)

text \<open>The text an item has been sent in deltas.\<close>

definition delta_text :: "json \<Rightarrow> json \<Rightarrow> gostring" where
  "delta_text index p =
     (if ev_type p = ''response.output_text.delta'' \<and> field ''output_index'' p = Some index
      then (case field ''delta'' p of Some (JStr t) \<Rightarrow> t | _ \<Rightarrow> []) else [])"

definition sent_text :: "json \<Rightarrow> json list \<Rightarrow> gostring" where
  "sent_text index ps = concat (map (delta_text index) ps)"

text \<open>The text a finished text is said to have is the text of its deltas.\<close>

definition done_ok :: "json list \<Rightarrow> bool" where
  "done_ok ps \<longleftrightarrow> (\<forall>p \<in> set ps. ev_type p = ''response.output_text.done'' \<longrightarrow>
     (\<exists>index. field ''output_index'' p = Some index \<and> field ''text'' p = Some (JStr (sent_text index ps))))"

definition text_ok :: "streamItem list \<Rightarrow> json list \<Rightarrow> bool" where
  "text_ok items ps \<longleftrightarrow>
     (\<forall>i < length items. is_text_key (si_key (items ! i)) \<longrightarrow> sent_text (JInt (int i)) ps = si_text (items ! i))
     \<and> (\<forall>p \<in> set ps. ev_type p \<in> set text_types \<longrightarrow>
          (\<exists>i < length items. field ''output_index'' p = Some (JInt (int i)) \<and> is_text_key (si_key (items ! i))
             \<and> (ev_type p = ''response.output_text.done'' \<longrightarrow> si_contentDone (items ! i))))"

text \<open>A hook whose event types are not the session's own.\<close>

definition hook_ok :: "CustomToolHook \<Rightarrow> bool" where
  "hook_ok h \<longleftrightarrow> ct_DeltaType h \<notin> set session_types \<and> ct_DoneType h \<notin> set session_types"

section \<open>The wire\<close>

abbreviation frames :: "StreamSession \<Rightarrow> json list" where
  "frames s \<equiv> rw_frames (ss_writer s)"

definition live :: "StreamSession \<Rightarrow> bool" where
  "live s \<longleftrightarrow> ss_writeFailure s = None \<and> \<not> ss_TerminalEmitted s"

text \<open>Frames are numbered from zero; a failed write is the last.\<close>

definition wire_ok :: "StreamSession \<Rightarrow> bool" where
  "wire_ok s \<longleftrightarrow> map (field ''sequence_number'') (frames s) = map (\<lambda>i. Some (JInt (int i))) [0..<length (frames s)]
     \<and> ss_writeFailure s \<in> {None, Some StreamErrorWrite} \<and> (ss_downstreamDone s \<longleftrightarrow> ss_writeFailure s \<noteq> None)
     \<and> (ss_SequenceNumber s = len (frames s) \<or> ss_writeFailure s \<noteq> None \<and> ss_SequenceNumber s = len (frames s) - 1)"

text \<open>The opening frames, and the terminal frame.\<close>

definition order_ok :: "StreamSession \<Rightarrow> bool" where
  "order_ok s \<longleftrightarrow>
     (ss_headersSent s \<longleftrightarrow> ss_started s) \<and> rw_status (ss_writer s) = (if ss_headersSent s then [200] else [])
     \<and> (\<not> ss_started s \<longrightarrow> frames s = [])
     \<and> take (length (frames s)) [''response.created'', ''response.in_progress''] = take 2 (map ev_type (frames s))
     \<and> (if ss_TerminalEmitted s
        then (\<forall>p \<in> set (butlast (frames s)). ev_type p \<notin> set terminal_types)
          \<and> (ss_writeFailure s = None \<longrightarrow> frames s \<noteq> [] \<and> ev_type (last (frames s)) \<in> set terminal_types)
        else (\<forall>p \<in> set (frames s). ev_type p \<notin> set terminal_types))
     \<and> (ss_started s \<and> ss_writeFailure s = None \<longrightarrow> 2 \<le> length (frames s))"

definition items_ok :: "StreamSession \<Rightarrow> bool" where
  "items_ok s \<longleftrightarrow>
     ss_NextOutputIndex s = len (ss_itemOrder s) \<and> (\<not> ss_started s \<longrightarrow> ss_itemOrder s = [])
     \<and> (\<forall>i < length (ss_itemOrder s). si_outputIndex (item_at s i) = int i \<and> hook_ok (si_hook (item_at s i))
          \<and> validStreamValue (si_id (item_at s i)) 128)
     \<and> map_ok (ss_items s)
     \<and> (\<forall>k i. map_of (ss_items s) k = Some i \<longleftrightarrow> i < length (ss_itemOrder s) \<and> si_key (item_at s i) = k)
     \<and> (\<forall>k h. map_of (ss_customTools s) k = Some h \<longrightarrow> hook_ok h)"

definition session_inv :: "StreamSession \<Rightarrow> bool" where
  "session_inv s \<longleftrightarrow> wire_ok s \<and> order_ok s \<and> items_ok s \<and> done_ok (frames s)"

definition session_live :: "StreamSession \<Rightarrow> bool" where
  "session_live s \<longleftrightarrow> session_inv s \<and> live s \<and> text_ok (ss_itemOrder s) (frames s)"

text \<open>Between operations, an item of a live session whose content is done is done itself.\<close>

definition settled :: "streamItem list \<Rightarrow> bool" where
  "settled items \<longleftrightarrow> list_all (\<lambda>item. si_contentDone item \<longrightarrow> si_itemDone item) items"

definition session_ok :: "StreamSession \<Rightarrow> bool" where
  "session_ok s \<longleftrightarrow> session_inv s \<and> (live s \<longrightarrow> settled (ss_itemOrder s) \<and> text_ok (ss_itemOrder s) (frames s))"

text \<open>A session that writes nothing more.\<close>

definition dead :: "StreamSession \<Rightarrow> bool" where
  "dead s \<longleftrightarrow> session_inv s \<and> \<not> live s"

abbreviation started_live :: "StreamSession \<Rightarrow> bool" where
  "started_live s \<equiv> session_live s \<and> ss_started s"

lemma sent_text_simps [simp]: "sent_text i [] = []" "sent_text i (ps @ qs) = sent_text i ps @ sent_text i qs"
  "sent_text i [p] = delta_text i p"
  by (simp_all add: sent_text_def)

lemma delta_text_other: "ev_type p \<notin> set text_types \<Longrightarrow> delta_text i p = []"
  by (simp add: delta_text_def text_types_def)

lemma done_ok_more:
  assumes "\<forall>p \<in> set qs. ev_type p \<notin> set text_types"
  shows "done_ok (ps @ qs) = done_ok ps" "text_ok items (ps @ qs) = text_ok items ps"
proof -
  have "sent_text i qs = []" for i using assms by (simp add: sent_text_def delta_text_other)
  moreover have "ev_type p \<noteq> ''response.output_text.done''" if "p \<in> set qs" for p using assms that by (auto simp: text_types_def)
  ultimately show "done_ok (ps @ qs) = done_ok ps" "text_ok items (ps @ qs) = text_ok items ps"
    using assms by (auto simp: done_ok_def text_ok_def)
qed

lemma decimal_inject: "decimal m = decimal n \<Longrightarrow> m = n"
proof (induction m arbitrary: n rule: less_induct)
  case (less m)
  have digit: "char_of (48 + a) = (char_of (48 + b) :: char) \<longleftrightarrow> a = b" if "a < 10" "b < 10" for a b :: nat
    using that by (auto dest!: arg_cong [where f = byte])
  have long: "decimal k \<noteq> []" for k by (subst decimal.simps) simp
  show ?case
  proof (cases "m < 10 \<or> n < 10")
    case True
    then show ?thesis using less.prems digit long [of "n div 10"] long [of "m div 10"]
      by (cases "m < 10"; cases "n < 10") (auto simp: decimal_small decimal_big Cons_eq_append_conv append_eq_Cons_conv)
  next
    case False
    then have "decimal (m div 10) = decimal (n div 10)" "m mod 10 = n mod 10"
      using less.prems digit [of "m mod 10" "n mod 10"] by (auto simp: decimal_big)
    then show ?thesis using less.IH [of "m div 10" "n div 10"] False by (metis div_less_dividend div_mult_mod_eq linorder_not_less not_numeral_le_zero one_less_numeral_iff semiring_norm(76) zero_less_iff_neq_zero)
  qed
qed

lemma itoa_inject [simp]: "itoa (int i) = itoa (int j) \<longleftrightarrow> i = j"
  by (auto simp: itoa_def dest: decimal_inject)

lemma text_okD:
  assumes "text_ok items ps" "p \<in> set ps" "ev_type p \<in> set text_types"
  shows "\<exists>i < length items. field ''output_index'' p = Some (JInt (int i)) \<and> is_text_key (si_key (items ! i))
     \<and> (ev_type p = ''response.output_text.done'' \<longrightarrow> si_contentDone (items ! i))"
  using assms by (simp add: text_ok_def)

lemma text_ok_update:
  assumes "text_ok items ps" "i < length items" "si_key item = si_key (items ! i)" "si_text item = si_text (items ! i)"
    "si_contentDone (items ! i) \<longrightarrow> si_contentDone item"
  shows "text_ok (items[i := item]) ps"
  unfolding text_ok_def
proof (intro conjI ballI allI impI)
  fix j assume "j < length (items[i := item])" "is_text_key (si_key (items[i := item] ! j))"
  then show "sent_text (JInt (int j)) ps = si_text (items[i := item] ! j)"
    using assms by (auto simp: text_ok_def nth_list_update split: if_splits)
next
  fix p assume p: "p \<in> set ps" "ev_type p \<in> set text_types"
  then obtain j where "j < length items" "field ''output_index'' p = Some (JInt (int j))" "is_text_key (si_key (items ! j))"
    "ev_type p = ''response.output_text.done'' \<longrightarrow> si_contentDone (items ! j)"
    using text_okD [OF assms(1)] by blast
  then show "\<exists>j < length (items[i := item]). field ''output_index'' p = Some (JInt (int j)) \<and> is_text_key (si_key (items[i := item] ! j))
      \<and> (ev_type p = ''response.output_text.done'' \<longrightarrow> si_contentDone (items[i := item] ! j))"
    using assms(2-5) by (intro exI [of _ j]) (auto simp: nth_list_update)
qed

lemma sent_text_unknown:
  assumes "text_ok items ps" "length items \<le> i"
  shows "sent_text (JInt (int i)) ps = []"
proof -
  have "delta_text (JInt (int i)) p = []" if pin: "p \<in> set ps" for p
  proof (cases "ev_type p \<in> set text_types")
    case True
    then obtain j where "j < length items" "field ''output_index'' p = Some (JInt (int j))"
      using text_okD [OF assms(1) pin] by blast
    then show ?thesis using assms(2) by (simp add: delta_text_def)
  qed (rule delta_text_other)
  then show ?thesis by (simp add: sent_text_def)
qed

lemma text_ok_append:
  assumes "text_ok items ps" "si_text item = []"
  shows "text_ok (items @ [item]) ps"
  unfolding text_ok_def
proof (intro conjI ballI allI impI)
  fix j assume "j < length (items @ [item])" "is_text_key (si_key ((items @ [item]) ! j))"
  then show "sent_text (JInt (int j)) ps = si_text ((items @ [item]) ! j)"
    using assms sent_text_unknown [OF assms(1)] by (auto simp: text_ok_def nth_append less_Suc_eq split: if_splits)
next
  fix p assume p: "p \<in> set ps" "ev_type p \<in> set text_types"
  then obtain j where "j < length items" "field ''output_index'' p = Some (JInt (int j))" "is_text_key (si_key (items ! j))"
    "ev_type p = ''response.output_text.done'' \<longrightarrow> si_contentDone (items ! j)"
    using text_okD [OF assms(1)] by blast
  then show "\<exists>j < length (items @ [item]). field ''output_index'' p = Some (JInt (int j)) \<and> is_text_key (si_key ((items @ [item]) ! j))
      \<and> (ev_type p = ''response.output_text.done'' \<longrightarrow> si_contentDone ((items @ [item]) ! j))"
    by (intro exI [of _ j]) (auto simp: nth_append)
qed

section \<open>One write\<close>

definition wrote :: "json \<Rightarrow> StreamSession \<Rightarrow> StreamSession" where
  "wrote p s = s\<lparr>ss_tick := ss_tick s + 1, ss_writer := (ss_writer s)\<lparr>rw_frames := frames s @ [p]\<rparr>,
     ss_SequenceNumber := ss_SequenceNumber s + 1\<rparr>"

definition write_lost :: "json list \<Rightarrow> gobytes \<Rightarrow> StreamSession \<Rightarrow> StreamSession" where
  "write_lost ps tail s = s\<lparr>ss_tick := ss_tick s + 1,
     ss_writer := (ss_writer s)\<lparr>rw_frames := frames s @ ps, rw_tail := rw_tail (ss_writer s) @ tail\<rparr>,
     ss_writeFailure := Some StreamErrorWrite, ss_downstreamDone := True\<rparr>"

lemma writeEvent_yields:
  assumes "ss_writeFailure s = None" "Q () (wrote (event_payload t b (ss_SequenceNumber s)) s)"
    and "\<And>ps tail. ps \<in> {[], [event_payload t b (ss_SequenceNumber s)]} \<Longrightarrow> E StreamErrorWrite (write_lost ps tail s)"
  shows "yields (writeEventLocked t b s) Q E"
proof -
  have "E StreamErrorWrite (write_lost [] [] s)" "E StreamErrorWrite (write_lost [event_payload t b (ss_SequenceNumber s)] [] s)"
    "\<And>tail. E StreamErrorWrite (write_lost [] tail s)"
    using assms(3) by simp_all
  then show ?thesis using assms(1,2)
    by (auto simp: writeEventLocked_def Let_def write_frame_def recordWriteFailureLocked_def wrote_def write_lost_def
        yields_def split: option.split)
qed

lemma wrote_sel [simp]:
  "frames (wrote p s) = frames s @ [p]" "ss_itemOrder (wrote p s) = ss_itemOrder s" "ss_items (wrote p s) = ss_items s"
  "ss_started (wrote p s) = ss_started s" "ss_TerminalEmitted (wrote p s) = ss_TerminalEmitted s"
  "ss_writeFailure (wrote p s) = ss_writeFailure s" "ss_SequenceNumber (wrote p s) = ss_SequenceNumber s + 1"
  "ss_customTools (wrote p s) = ss_customTools s" "ss_NextOutputIndex (wrote p s) = ss_NextOutputIndex s"
  "ss_headersSent (wrote p s) = ss_headersSent s" "rw_status (ss_writer (wrote p s)) = rw_status (ss_writer s)"
  "ss_downstreamDone (wrote p s) = ss_downstreamDone s"
  by (simp_all add: wrote_def)

lemma write_lost_sel [simp]:
  "frames (write_lost ps tail s) = frames s @ ps" "ss_itemOrder (write_lost ps tail s) = ss_itemOrder s"
  "ss_items (write_lost ps tail s) = ss_items s" "ss_started (write_lost ps tail s) = ss_started s"
  "ss_TerminalEmitted (write_lost ps tail s) = ss_TerminalEmitted s"
  "ss_writeFailure (write_lost ps tail s) = Some StreamErrorWrite" "ss_SequenceNumber (write_lost ps tail s) = ss_SequenceNumber s"
  "ss_customTools (write_lost ps tail s) = ss_customTools s" "ss_NextOutputIndex (write_lost ps tail s) = ss_NextOutputIndex s"
  "ss_headersSent (write_lost ps tail s) = ss_headersSent s" "rw_status (ss_writer (write_lost ps tail s)) = rw_status (ss_writer s)"
  "ss_downstreamDone (write_lost ps tail s)"
  by (simp_all add: write_lost_def)

lemma wire_ok_wrote: "wire_ok s \<Longrightarrow> ss_writeFailure s = None \<Longrightarrow> wire_ok (wrote (event_payload t b (ss_SequenceNumber s)) s)"
  by (auto simp: wire_ok_def)

lemma wire_ok_lost:
  "wire_ok s \<Longrightarrow> ss_writeFailure s = None \<Longrightarrow> ps \<in> {[], [event_payload t b (ss_SequenceNumber s)]} \<Longrightarrow> wire_ok (write_lost ps tail s)"
  by (auto simp: wire_ok_def)

lemma items_ok_cong:
  "ss_itemOrder t = ss_itemOrder s \<Longrightarrow> ss_items t = ss_items s \<Longrightarrow> ss_customTools t = ss_customTools s \<Longrightarrow>
     ss_NextOutputIndex t = ss_NextOutputIndex s \<Longrightarrow> ss_started t = ss_started s \<Longrightarrow> items_ok t = items_ok s"
  by (simp add: items_ok_def)

lemma items_ok_update:
  assumes "items_ok s" "i < length (ss_itemOrder s)" "si_key item = si_key (item_at s i)" "si_id item = si_id (item_at s i)"
    "si_outputIndex item = si_outputIndex (item_at s i)" "hook_ok (si_hook item)"
    and "ss_itemOrder t = (ss_itemOrder s)[i := item]" "ss_items t = ss_items s" "ss_customTools t = ss_customTools s"
    "ss_NextOutputIndex t = ss_NextOutputIndex s" "ss_started t = ss_started s"
  shows "items_ok t"
  using assms by (auto simp: items_ok_def nth_list_update)

lemma item_hook_ok: "items_ok s \<Longrightarrow> i < length (ss_itemOrder s) \<Longrightarrow> hook_ok (si_hook (item_at s i))"
  by (simp add: items_ok_def)

lemma order_take:
  assumes "2 \<le> length xs"
  shows "take (length (xs @ ys)) [a, b] = take 2 (map f (xs @ ys)) \<longleftrightarrow> take (length xs) [a, b] = take 2 (map f xs)"
  using assms by auto

lemma order_ok_more:
  assumes "order_ok s" "ss_started s" "ss_writeFailure s = None" "\<not> ss_TerminalEmitted s" "\<forall>p \<in> set ps. ev_type p \<notin> set terminal_types"
    and "frames t = frames s @ ps" "ss_started t = ss_started s" "ss_headersSent t = ss_headersSent s" "ss_TerminalEmitted t = ss_TerminalEmitted s"
    "rw_status (ss_writer t) = rw_status (ss_writer s)"
  shows "order_ok t"
  using assms order_take [of "frames s" ps] by (auto simp: order_ok_def)

text \<open>An ordinary event of a started session.\<close>

lemma started_live_wrote:
  assumes "started_live s" "t \<notin> set special_types"
  shows "started_live (wrote (event_payload t b (ss_SequenceNumber s)) s)"
    "ps \<in> {[], [event_payload t b (ss_SequenceNumber s)]} \<Longrightarrow> dead (write_lost ps tail s)"
proof -
  have s: "wire_ok s" "order_ok s" "items_ok s" "ss_writeFailure s = None" "\<not> ss_TerminalEmitted s" "ss_started s"
    "done_ok (frames s)" "text_ok (ss_itemOrder s) (frames s)"
    using assms(1) by (auto simp: session_live_def session_inv_def live_def)
  have more: "done_ok (frames s @ ps)" "text_ok (ss_itemOrder s) (frames s @ ps)" if "ps \<in> {[], [event_payload t b (ss_SequenceNumber s)]}" for ps
    using that s(7,8) assms(2) done_ok_more [of ps] by (auto simp: not_special)
  have "order_ok (wrote (event_payload t b (ss_SequenceNumber s)) s)"
    by (rule order_ok_more [OF s(2,6,4,5), of "[event_payload t b (ss_SequenceNumber s)]"]) (use assms(2) in \<open>simp_all add: not_special\<close>)
  then show "started_live (wrote (event_payload t b (ss_SequenceNumber s)) s)"
    using s wire_ok_wrote [OF s(1,4)] items_ok_cong [of "wrote (event_payload t b (ss_SequenceNumber s)) s" s]
      more [of "[event_payload t b (ss_SequenceNumber s)]"]
    by (simp add: session_live_def session_inv_def live_def)
  show "dead (write_lost ps tail s)" if "ps \<in> {[], [event_payload t b (ss_SequenceNumber s)]}"
  proof -
    have "order_ok (write_lost ps tail s)"
      by (rule order_ok_more [OF s(2,6,4,5), of ps]) (use that assms(2) in \<open>auto simp: not_special\<close>)
    then show ?thesis using wire_ok_lost [OF s(1,4) that] items_ok_cong [of "write_lost ps tail s" s] s(3) more [OF that]
      by (simp add: session_inv_def dead_def live_def)
  qed
qed

lemma write_live:
  assumes "started_live s" "t \<notin> set special_types"
  shows "yields (writeEventLocked t b s) (\<lambda>_ s'. started_live s' \<and> ss_itemOrder s' = ss_itemOrder s) (\<lambda>_. dead)"
proof (rule writeEvent_yields)
  show "ss_writeFailure s = None" using assms(1) by (simp add: session_live_def live_def)
  show "started_live (wrote (event_payload t b (ss_SequenceNumber s)) s) \<and>
      ss_itemOrder (wrote (event_payload t b (ss_SequenceNumber s)) s) = ss_itemOrder s"
    using started_live_wrote(1) [OF assms] by simp
qed (rule started_live_wrote(2) [OF assms])

lemma startLocked_live:
  assumes "session_live s" "\<not> ss_started s"
  shows "yields (startLocked s) (\<lambda>_ s'. started_live s' \<and> ss_itemOrder s' = ss_itemOrder s) (\<lambda>_. dead)"
proof -
  let ?s = "(send_headers s)\<lparr>ss_started := True\<rparr>"
  have s: "wire_ok s" "order_ok s" "items_ok s" "ss_writeFailure s = None" "\<not> ss_TerminalEmitted s"
    using assms(1) by (auto simp: session_live_def session_inv_def live_def)
  have h: "frames ?s = []" "rw_status (ss_writer ?s) = [200]" "ss_headersSent ?s" "ss_writeFailure ?s = None" "\<not> ss_TerminalEmitted ?s"
    "wire_ok ?s" "items_ok ?s" "ss_itemOrder ?s = ss_itemOrder s"
    using s assms(2) by (auto simp: send_headers_def order_ok_def wire_ok_def items_ok_def)
  have opened: "done_ok ps" "text_ok (ss_itemOrder s) ps" if m: "map ev_type ps = take (length ps) [''response.created'', ''response.in_progress'']" for ps
  proof -
    have "ev_type p \<in> set (take (length ps) [''response.created'', ''response.in_progress''])" if "p \<in> set ps" for p
      using that unfolding m [symmetric] by simp
    then have "\<forall>p \<in> set ps. ev_type p \<notin> set text_types" by (fastforce dest!: in_set_takeD simp: text_types_def)
    moreover have "ss_itemOrder s = []" using s(3) assms(2) by (simp add: items_ok_def)
    ultimately show "done_ok ps" "text_ok (ss_itemOrder s) ps"
      using done_ok_more [of ps "[]"] by (simp_all add: done_ok_def text_ok_def)
  qed
  have lost: "dead (write_lost ps tail t)"
    if "wire_ok t" "items_ok t" "ss_writeFailure t = None" "\<not> ss_TerminalEmitted t" "ss_started t" "ss_headersSent t" "rw_status (ss_writer t) = [200]"
      "map ev_type (frames t @ ps) = take (length (frames t @ ps)) [''response.created'', ''response.in_progress'']"
      "ps \<in> {[], [event_payload e b (ss_SequenceNumber t)]}" for ps tail t e b
  proof -
    have "ev_type p \<in> set (map ev_type (frames t @ ps))" if "p \<in> set (frames t @ ps)" for p using that by auto
    then have "\<forall>p \<in> set (frames t @ ps). ev_type p \<notin> set terminal_types"
      unfolding that(8) by (fastforce dest!: in_set_takeD simp: terminal_types_def)
    moreover have "length (frames t @ ps) \<le> 2" using arg_cong [OF that(8), of length] by simp
    ultimately show ?thesis using that wire_ok_lost [OF that(1,3,9), of tail] items_ok_cong [of "write_lost ps tail t" t] opened(1) [of "frames t @ ps"]
      by (auto simp: session_inv_def order_ok_def dead_def live_def)
  qed
  let ?p = "event_payload ''response.created'' [(''response'', responseObjectLocked ''in_progress'' None [] ?s)] (ss_SequenceNumber ?s)"
  let ?t = "wrote ?p ?s"
  have t: "frames ?t = [?p]" "wire_ok ?t" "items_ok ?t" "ss_writeFailure ?t = None" "\<not> ss_TerminalEmitted ?t" "ss_headersSent ?t"
    "rw_status (ss_writer ?t) = [200]"
    using h wire_ok_wrote [OF h(6,4)] items_ok_cong [of ?t ?s] by simp_all
  have "yields (writeEventLocked ''response.created'' [(''response'', responseObjectLocked ''in_progress'' None [] ?s)] ?s)
      (\<lambda>_ s'. s' = ?t) (\<lambda>_. dead)"
    by (rule writeEvent_yields) (use h in \<open>auto intro!: lost\<close>)
  moreover have "yields (writeEventLocked ''response.in_progress'' b ?t)
      (\<lambda>_ s'. started_live s' \<and> ss_itemOrder s' = ss_itemOrder s) (\<lambda>_. dead)" for b
  proof (rule writeEvent_yields [OF t(4)])
    let ?u = "wrote (event_payload ''response.in_progress'' b (ss_SequenceNumber ?t)) ?t"
    have "order_ok ?u" using t by (simp add: order_ok_def terminal_types_def)
    then show "started_live ?u \<and> ss_itemOrder ?u = ss_itemOrder s"
      using t h(8) wire_ok_wrote [OF t(2,4)] items_ok_cong [of ?u ?t] opened [of "frames ?u"] by (simp add: session_live_def session_inv_def live_def)
  qed (use t in \<open>auto intro!: lost\<close>)
  ultimately show ?thesis unfolding startLocked_def Let_def by (auto intro!: yields_bind)
qed

lemma ensureStarted_live:
  assumes "session_live s"
  shows "yields (ensureStartedLocked s) (\<lambda>_ s'. started_live s' \<and> ss_itemOrder s' = ss_itemOrder s) (\<lambda>_. dead)"
  using assms startLocked_live [OF assms] by (simp add: ensureStartedLocked_def)

text \<open>The terminal event: the flag is set first, then the event is written.\<close>

lemma writeTerminal_inv:
  assumes "started_live s" "''response.'' @ status \<in> set terminal_types"
  shows "dead (snd (writeTerminalLocked status err reason (s\<lparr>ss_TerminalEmitted := True\<rparr>)))"
proof -
  have s: "wire_ok s" "order_ok s" "items_ok s" "ss_writeFailure s = None" "\<not> ss_TerminalEmitted s" "ss_started s"
    "done_ok (frames s)"
    using assms(1) by (auto simp: session_live_def session_inv_def live_def)
  have "''response.'' @ status \<notin> set text_types" using assms(2) by (auto simp: terminal_types_def text_types_def)
  then have done': "done_ok (frames s @ ps)" if "ps \<in> {[], [event_payload (''response.'' @ status) b n]}" for ps b n
    using s(7) done_ok_more(1) [of ps] that by auto
  have inv: "yields (writeEventLocked (''response.'' @ status) b t) (\<lambda>_. dead) (\<lambda>_. dead)"
    if t: "wire_ok t" "items_ok t" "ss_writeFailure t = None" "frames t = frames s" "ss_started t" "ss_TerminalEmitted t"
      "ss_headersSent t = ss_headersSent s" "rw_status (ss_writer t) = rw_status (ss_writer s)" for b t
  proof (rule writeEvent_yields [OF t(3)])
    let ?p = "event_payload (''response.'' @ status) b (ss_SequenceNumber t)"
    have "order_ok (wrote ?p t)"
      using s(2,4-6) t assms(2) order_take [of "frames s" "[?p]"] by (auto simp: order_ok_def)
    then show "dead (wrote ?p t)"
      using wire_ok_wrote [OF t(1,3)] items_ok_cong [of "wrote ?p t" t] t(2,4,6) done' [of "[?p]"] by (simp add: session_inv_def dead_def live_def)
    fix ps tail assume ps: "ps \<in> {[], [?p]}"
    then have "order_ok (write_lost ps tail t)"
      using s(2,4-6) t assms(2) order_take [of "frames s" ps] by (auto simp: order_ok_def dest: in_set_butlastD)
    then show "dead (write_lost ps tail t)"
      using wire_ok_lost [OF t(1,3) ps] items_ok_cong [of "write_lost ps tail t" t] t(2,4,6) done' [OF ps] by (simp add: session_inv_def dead_def live_def)
  qed
  define u where "u = (let s = s\<lparr>ss_TerminalEmitted := True\<rparr> in
    if status = ''completed'' \<and> ss_terminalAt s = zero_time then note_terminal s else s)"
  have "wire_ok u" "items_ok u" "ss_writeFailure u = None" "frames u = frames s" "ss_started u" "ss_TerminalEmitted u"
    "ss_headersSent u = ss_headersSent s" "rw_status (ss_writer u) = rw_status (ss_writer s)"
    using s by (simp_all add: u_def wire_ok_def items_ok_def note_terminal_def Let_def)
  from inv [OF this] have "yields (writeTerminalLocked status err reason (s\<lparr>ss_TerminalEmitted := True\<rparr>)) (\<lambda>_. dead) (\<lambda>_. dead)"
    by (simp only: writeTerminalLocked_def u_def Let_def)
  then show ?thesis by (simp only: yields_snd)
qed

lemma terminal_status [simp]:
  "''response.failed'' \<in> set terminal_types" "''response.completed'' \<in> set terminal_types" "''response.incomplete'' \<in> set terminal_types"
  by (simp_all add: terminal_types_def)

lemma yields_then_error: "E = (\<lambda>_. P) \<Longrightarrow> P (snd m) \<Longrightarrow> yields (go_bind m (\<lambda>_ s. (Inl e, s))) Q E"
  by (cases m; cases "fst m") auto

lemma invalidTransition_inv:
  assumes "session_live s"
  shows "yields (invalidTransitionLocked s) Q (\<lambda>_. dead)"
proof -
  have "ss_writeFailure s = None" "\<not> ss_TerminalEmitted s" using assms by (simp_all add: session_live_def live_def)
  then show ?thesis unfolding invalidTransitionLocked_def
    by (simp, intro yields_bind [OF ensureStarted_live [OF assms]] yields_then_error [OF refl] writeTerminal_inv) simp_all
qed

lemma ordinary_types [simp]:
  "''response.output_item.added'' \<notin> set special_types" "''response.content_part.added'' \<notin> set special_types"
  "''response.content_part.done'' \<notin> set special_types" "''response.output_item.done'' \<notin> set special_types"
  "''response.function_call_arguments.done'' \<notin> set special_types" "''response.function_call_arguments.delta'' \<notin> set special_types"
  "hook_ok h \<Longrightarrow> ct_DeltaType h \<notin> set special_types" "hook_ok h \<Longrightarrow> ct_DoneType h \<notin> set special_types"
  by (auto simp: special_types_def terminal_types_def text_types_def hook_ok_def session_types_def)

text \<open>A change of an item that leaves what identifies it.\<close>

definition same_item :: "streamItem \<Rightarrow> streamItem \<Rightarrow> bool" where
  "same_item a b \<longleftrightarrow> si_key a = si_key b \<and> si_id a = si_id b \<and> si_outputIndex a = si_outputIndex b \<and> hook_ok (si_hook a)
     \<and> si_text a = si_text b \<and> (si_contentDone b \<longrightarrow> si_contentDone a)"

lemma set_item_live:
  assumes "started_live s" "i < length (ss_itemOrder s)" "same_item item (item_at s i)"
  shows "started_live (set_item i item s)"
proof -
  have "items_ok (set_item i item s)"
    by (rule items_ok_update [of s i item]) (use assms in \<open>simp_all add: session_live_def session_inv_def same_item_def\<close>)
  moreover have "text_ok (ss_itemOrder (set_item i item s)) (frames s)"
    using assms by (simp add: session_live_def same_item_def text_ok_update)
  ultimately show ?thesis using assms(1) by (auto simp: session_live_def session_inv_def live_def wire_ok_def order_ok_def)
qed

lemma item_hook: "started_live s \<Longrightarrow> i < length (ss_itemOrder s) \<Longrightarrow> hook_ok (si_hook (item_at s i))"
  by (simp add: session_live_def session_inv_def items_ok_def)

text \<open>A session on its way, with the items at their places.\<close>

definition going :: "streamItem list \<Rightarrow> StreamSession \<Rightarrow> bool" where
  "going items s \<longleftrightarrow> started_live s \<and> ss_itemOrder s = items"

lemma going_write_dead:
  assumes "going items s" "t \<notin> set special_types"
  shows "yields (writeEventLocked t b s) (\<lambda>_. going items) (\<lambda>_. dead)"
  using assms by (intro yields_mono [OF write_live]) (auto simp: going_def)

lemma going_set:
  assumes "going items s" "i < length items" "same_item item (items ! i)"
  shows "going (items[i := item]) (set_item i item s)"
  using set_item_live [of s i item] assms by (auto simp: going_def)

lemma going_hook: "going items s \<Longrightarrow> i < length items \<Longrightarrow> hook_ok (si_hook (items ! i))"
  using item_hook by (auto simp: going_def)

lemma going_item: "going items s \<Longrightarrow> ss_itemOrder s = items"
  by (simp add: going_def)

lemma same_item_refl: "going items s \<Longrightarrow> i < length items \<Longrightarrow> same_item (items ! i) (items ! i)"
  using going_hook by (simp add: same_item_def)

lemma same_item_update [simp]:
  "same_item (x\<lparr>si_itemDone := a\<rparr>) y = same_item x y"
  "same_item (x\<lparr>si_finalStatus := b\<rparr>) y = same_item x y"
  "same_item (x\<lparr>si_arguments := b\<rparr>) y = same_item x y" "same_item (x\<lparr>si_name := b\<rparr>) y = same_item x y"
  "same_item (x\<lparr>si_callID := b\<rparr>) y = same_item x y"
  "same_item (x\<lparr>si_finalStatus := b, si_itemDone := c\<rparr>) y = same_item x y"
  by (simp_all add: same_item_def)

definition item_status :: "gostring \<Rightarrow> streamItem \<Rightarrow> streamItem" where
  "item_status status item = item\<lparr>si_contentDone := is_text_key (si_key item) \<or> si_contentDone item, si_finalStatus := status, si_itemDone := True\<rparr>"

lemma going_text_done:
  assumes "going items s" "i < length items" "is_text_key (si_key (items ! i))"
  defines "p \<equiv> event_payload ''response.output_text.done''
      [(''item_id'', JStr (si_id (items ! i))), (''output_index'', JInt (si_outputIndex (items ! i))), (''content_index'', JInt 0),
       (''text'', JStr (si_text (items ! i)))] (ss_SequenceNumber s)"
  shows "going (items[i := (items ! i)\<lparr>si_contentDone := True\<rparr>]) (set_item i ((items ! i)\<lparr>si_contentDone := True\<rparr>) (wrote p s))"
    "ps \<in> {[], [p]} \<Longrightarrow> dead (write_lost ps tail s)"
proof -
  let ?c = "(items ! i)\<lparr>si_contentDone := True\<rparr>"
  have s: "wire_ok s" "order_ok s" "items_ok s" "ss_writeFailure s = None" "\<not> ss_TerminalEmitted s" "ss_started s"
    "done_ok (frames s)" "text_ok items (frames s)" "ss_itemOrder s = items"
    using assms(1) by (auto simp: going_def session_live_def session_inv_def live_def)
  have idx: "si_outputIndex (items ! i) = int i" using s(3,9) assms(2) by (simp add: items_ok_def)
  have p: "ev_type p = ''response.output_text.done''" "field ''output_index'' p = Some (JInt (int i))" "field ''text'' p = Some (JStr (si_text (items ! i)))"
    "delta_text j p = []" for j
    by (simp_all add: p_def idx delta_text_def)
  have sent: "sent_text (JInt (int i)) (frames s) = si_text (items ! i)" using s(8) assms(2,3) by (simp add: text_ok_def)
  have done': "done_ok (frames s @ ps)" if "ps \<in> {[], [p]}" for ps
    using that s(7) p sent by (auto simp: done_ok_def)
  have "p \<notin> {q. ev_type q \<in> set terminal_types}" using p(1) by (simp add: terminal_types_def)
  then have ord: "order_ok t" if "ps \<in> {[], [p]}" "frames t = frames s @ ps" "ss_started t = ss_started s" "ss_headersSent t = ss_headersSent s"
      "ss_TerminalEmitted t = ss_TerminalEmitted s" "rw_status (ss_writer t) = rw_status (ss_writer s)" for ps t
    using that by (intro order_ok_more [OF s(2,6,4,5) _ that(2)]) auto
  have "text_ok (items[i := ?c]) (frames s @ [p])"
    using text_ok_update [OF s(8) assms(2), of ?c] p assms(2,3) by (auto simp: text_ok_def)
  moreover have "items_ok (set_item i ?c (wrote p s))"
    by (rule items_ok_update [of s i ?c]) (use s(3,9) assms(2) item_hook_ok [OF s(3), of i] in simp_all)
  moreover have "wire_ok (wrote p s)" using wire_ok_wrote [OF s(1,4)] by (simp add: p_def)
  ultimately show "going (items[i := ?c]) (set_item i ?c (wrote p s))"
    using s ord [of "[p]" "set_item i ?c (wrote p s)"] done' [of "[p]"]
    by (simp add: going_def session_live_def session_inv_def live_def wire_ok_def)
  show "dead (write_lost ps tail s)" if "ps \<in> {[], [p]}"
    using ord [OF that, of "write_lost ps tail s"] done' [OF that] wire_ok_lost [OF s(1,4), of ps] that s(3) items_ok_cong [of "write_lost ps tail s" s]
    by (simp add: dead_def session_inv_def live_def p_def)
qed

lemma finishText_going:
  assumes "going items s" "i < length items" "is_text_key (si_key (items ! i))" "\<not> si_contentDone (items ! i)" "\<not> si_itemDone (items ! i)"
  shows "yields (finishTextItemLocked i status s) (\<lambda>_. going (items[i := item_status status (items ! i)])) (\<lambda>_. dead)"
proof -
  let ?c = "(items ! i)\<lparr>si_contentDone := True\<rparr>" and ?d = "(items ! i)\<lparr>si_contentDone := True, si_finalStatus := status, si_itemDone := True\<rparr>"
  let ?b = "[(''item_id'', JStr (si_id (items ! i))), (''output_index'', JInt (si_outputIndex (items ! i))), (''content_index'', JInt 0),
       (''text'', JStr (si_text (items ! i)))]"
  have d: "?d = item_status status (items ! i)" using assms(3) by (simp add: item_status_def)
  have e: "going (items[i := ?d]) (set_item i ?d t)" if "going (items[i := ?c]) t" for t
    using going_set [OF that, of i ?d] assms(2) same_item_refl [OF assms(1,2)] by (simp add: same_item_def)
  have "ss_writeFailure s = None" using assms(1) by (simp add: going_def session_live_def live_def)
  then have "yields (writeEventLocked ''response.output_text.done'' ?b s)
      (\<lambda>_ t. going (items[i := ?c]) (set_item i ?c t)) (\<lambda>_. dead)"
    using going_text_done [OF assms(1-3)] by (intro writeEvent_yields) simp_all
  then show ?thesis unfolding finishTextItemLocked_def Let_def
    using assms(1,4,5) e going_item [OF assms(1)]
    by (auto simp: d [symmetric] intro!: yields_bind [OF going_write_dead] going_write_dead elim!: yields_bind)
qed

lemma finishTool_going:
  assumes "going items s" "i < length items" "\<not> is_text_key (si_key (items ! i))" "\<not> si_itemDone (items ! i)"
  shows "yields (finishToolItemLocked i status s) (\<lambda>_. going (items[i := item_status status (items ! i)])) (\<lambda>_. dead)"
proof -
  let ?d = "(items ! i)\<lparr>si_finalStatus := status, si_itemDone := True\<rparr>"
  note same = same_item_refl [OF assms(1,2)]
  have d: "?d = item_status status (items ! i)" using assms(3) by (simp add: item_status_def)
  have e: "going (items[i := ?d]) (set_item i ?d t)" if "going items t" for t
    using going_set [OF that assms(2)] same by simp
  show ?thesis unfolding finishToolItemLocked_def Let_def
    using assms(1,4) e going_hook [OF assms(1,2)] going_item [OF assms(1)]
    by (auto simp: d [symmetric] intro!: yields_bind [OF going_write_dead] going_write_dead)
qed

definition finish_status :: "gostring \<Rightarrow> streamItem \<Rightarrow> streamItem" where
  "finish_status status item = (if si_itemDone item then item else item_status status item)"

lemma settled_finish: "settled items \<Longrightarrow> settled (map (finish_status status) items)"
  by (auto simp: settled_def list_all_iff finish_status_def item_status_def)

lemma settledD: "settled items \<Longrightarrow> i < length items \<Longrightarrow> si_contentDone (items ! i) \<Longrightarrow> si_itemDone (items ! i)"
  by (simp add: settled_def list_all_length)

lemma going_live: "going items s \<Longrightarrow> session_live s"
  by (simp add: going_def)

text \<open>The items from a position on are finished in their order.\<close>

lemma finish_item_going:
  assumes "going items s" "i < length items" "settled items" 
  shows "yields (finish_item status req i s) (\<lambda>_. going (items[i := finish_status status (items ! i)])) (\<lambda>_. dead)"
proof -
  have "items[i := items ! i] = items" by simp
  then show ?thesis
    using assms finishText_going [OF assms(1,2), of status] finishTool_going [OF assms(1,2), of status] settledD [OF assms(3,2)]
      invalidTransition_inv [OF going_live [OF assms(1)]] going_item [OF assms(1)]
    by (auto simp: finish_item_def finish_status_def Let_def)
qed

lemma finish_upto_going:
  assumes "going items s" "settled items" "n \<le> length items"
  shows "yields (go_for (finish_item status req) [0..<n] s) (\<lambda>_. going (map (finish_status status) (take n items) @ drop n items)) (\<lambda>_. dead)"
  using assms(3)
proof (induction n)
  case 0
  then show ?case using assms(1) by simp
next
  case (Suc n)
  let ?items = "map (finish_status status) (take n items) @ drop n items"
  have "settled ?items" using assms(2) settled_finish [of "take n items" status] set_take_subset [of n items] set_drop_subset [of n items]
    by (auto simp: settled_def list_all_iff)
  moreover have "?items ! n = items ! n" "n < length ?items" using Suc.prems by (simp_all add: nth_append)
  moreover have "?items[n := finish_status status (items ! n)] = map (finish_status status) (take (Suc n) items) @ drop (Suc n) items"
    using Suc.prems by (simp add: list_update_append take_Suc_conv_app_nth upd_conv_take_nth_drop)
  ultimately have "yields (finish_item status req n t)
      (\<lambda>_. going (map (finish_status status) (take (Suc n) items) @ drop (Suc n) items)) (\<lambda>_. dead)" if "going ?items t" for t
    using finish_item_going [OF that, of n status req] by simp
  then show ?case using Suc by (auto simp: go_for_append intro!: yields_bind)
qed

lemma finishItems_going:
  assumes "going items s" "settled items"
  shows "yields (finishItemsLocked status req s) (\<lambda>_. going (map (finish_status status) items)) (\<lambda>_. dead)"
  using finish_upto_going [OF assms order_refl, of status req] going_item [OF assms(1)] by (simp add: finishItemsLocked_def)

lemma live_sel: "session_live s \<Longrightarrow> ss_writeFailure s = None \<and> \<not> ss_TerminalEmitted s"
  by (simp add: session_live_def live_def)

lemma ready_going: "session_ok s \<Longrightarrow> live s \<Longrightarrow> ss_started s \<Longrightarrow> going (ss_itemOrder s) s \<and> settled (ss_itemOrder s)"
  by (simp add: going_def session_ok_def session_live_def)

lemma going_ready: "going items s \<Longrightarrow> settled items \<Longrightarrow> session_ok s \<and> live s \<and> ss_started s"
  by (auto simp: going_def session_ok_def session_live_def)

lemma ensureStarted_going_dead:
  assumes "session_ok s" "live s"
  shows "yields (ensureStartedLocked s) (\<lambda>_. going (ss_itemOrder s)) (\<lambda>_. dead)"
proof -
  have "session_live s" using assms by (simp add: session_ok_def session_live_def)
  then show ?thesis by (intro yields_mono [OF ensureStarted_live]) (auto simp: going_def)
qed

lemma invalid_ok_dead: "session_ok s \<Longrightarrow> live s \<Longrightarrow> yields (invalidTransitionLocked s) Q (\<lambda>_. dead)"
  by (rule invalidTransition_inv) (simp add: session_ok_def session_live_def)

lemma terminal_ok:
  assumes "going items s" "''response.'' @ status \<in> set terminal_types"
  shows "dead (snd (writeTerminalLocked status err reason (s\<lparr>ss_TerminalEmitted := True\<rparr>)))"
  using writeTerminal_inv [of s status err reason] assms by (simp add: going_def)

lemma limit_ok_dead:
  assumes "session_ok s" "live s"
  shows "yields (limitLocked s) Q (\<lambda>_. dead)"
proof -
  have "settled (ss_itemOrder s)" "ss_writeFailure s = None" "\<not> ss_TerminalEmitted s" using assms by (simp_all add: session_ok_def live_def)
  then show ?thesis unfolding limitLocked_def
    by (simp, intro yields_bind [OF ensureStarted_going_dead [OF assms]] yields_bind [OF finishItems_going] yields_then_error [OF refl] terminal_ok)
      simp_all
qed

lemma reserve_going_dead:
  assumes "going items s" "settled items"
  shows "yields (reserve_or_limit n s) (\<lambda>_. going items) (\<lambda>_. dead)"
proof -
  have "going items (s\<lparr>ss_aggregateBytes := m\<rparr>)" for m
    using assms(1) by (auto simp: going_def session_live_def session_inv_def live_def wire_ok_def order_ok_def items_ok_def)
  then show ?thesis using limit_ok_dead going_ready [OF assms] by (auto simp: reserve_or_limit_def reserveAggregateLocked_def)
qed

lemma going_tick: "going items s \<Longrightarrow> going items (s\<lparr>ss_tick := n\<rparr>)"
  by (auto simp: going_def session_live_def session_inv_def live_def wire_ok_def order_ok_def items_ok_def)

lemma dead_ok: "dead s \<Longrightarrow> session_ok s"
  by (simp add: dead_def session_ok_def)

lemma yields_weaken: "yields m Q (\<lambda>_. dead) \<Longrightarrow> yields m Q (\<lambda>_. session_ok)"
  by (erule yields_mono) (auto intro: dead_ok)

lemmas going_write = going_write_dead [THEN yields_weaken]
lemmas ensureStarted_going = ensureStarted_going_dead [THEN yields_weaken]
lemmas limit_ok = limit_ok_dead [THEN yields_weaken]
lemmas reserve_going = reserve_going_dead [THEN yields_weaken]
lemmas invalid_ok = invalid_ok_dead [THEN yields_weaken]

definition new_item :: "streamItemKey \<Rightarrow> gostring \<Rightarrow> int \<Rightarrow> gostring \<Rightarrow> ToolKind \<Rightarrow> streamItem" where
  "new_item key itemID index itemType toolKind =
     \<lparr>si_key = key, si_id = itemID, si_outputIndex = index, si_itemType = itemType, si_toolKind = toolKind, si_hook = zero_hook,
      si_callID = [], si_name = [], si_text = [], si_arguments = [], si_finalStatus = [], si_contentDone = False, si_itemDone = False\<rparr>"

lemma new_item_sel [simp]: "si_key (new_item key itemID n t k) = key" "si_text (new_item key itemID n t k) = []"
  by (simp_all add: new_item_def)

lemma zero_hook_ok [simp]: "hook_ok zero_hook" "hook_ok (zero_hook\<lparr>ct_Kind := k\<rparr>)"
  by (simp_all add: hook_ok_def zero_hook_def session_types_def terminal_types_def)

definition key_free :: "streamItemKey \<Rightarrow> streamItem list \<Rightarrow> bool" where
  "key_free key items \<longleftrightarrow> list_all (\<lambda>item. si_key item \<noteq> key) items"

lemma going_lookup:
  assumes "going items s"
  shows "map_of (ss_items s) key = None \<longleftrightarrow> key_free key items"
    "map_of (ss_items s) key = Some i \<longleftrightarrow> i < length items \<and> si_key (items ! i) = key"
proof -
  have s: "map_of (ss_items s) key = Some i \<longleftrightarrow> i < length items \<and> si_key (items ! i) = key" for i
    using assms by (auto simp: going_def session_live_def session_inv_def items_ok_def)
  then show "map_of (ss_items s) key = Some i \<longleftrightarrow> i < length items \<and> si_key (items ! i) = key" .
  show "map_of (ss_items s) key = None \<longleftrightarrow> key_free key items"
    using s by (cases "map_of (ss_items s) key") (auto simp: key_free_def list_all_length)
qed

lemma going_append:
  fixes itemType kind
  assumes "going items s" "key_free key items" "validStreamValue itemID 128"
  defines "item \<equiv> new_item key itemID (ss_NextOutputIndex s) itemType kind"
  shows "going (items @ [item]) (s\<lparr>ss_NextOutputIndex := ss_NextOutputIndex s + 1,
     ss_items := map_put key (length (ss_itemOrder s)) (ss_items s), ss_itemOrder := ss_itemOrder s @ [item]\<rparr>)" (is "going _ ?t")
    and "item = new_item key itemID (len items) itemType kind"
proof -
  have s: "items_ok s" "ss_itemOrder s = items" "ss_started s" using assms(1) by (auto simp: going_def session_live_def session_inv_def)
  have fresh: "si_key (items ! i) \<noteq> key" if "i < length items" for i
    using assms(2) that by (auto simp: key_free_def list_all_length)
  have "items_ok ?t" using s fresh assms(3)
    by (auto simp: items_ok_def item_def new_item_def nth_append distinct_update less_Suc_eq split: if_splits)
  moreover have "text_ok (items @ [item]) (frames s)"
    using assms(1) s(2) by (intro text_ok_append) (simp_all add: going_def session_live_def item_def new_item_def)
  ultimately show "going (items @ [item]) ?t"
    using assms(1) by (auto simp: going_def session_live_def session_inv_def live_def wire_ok_def order_ok_def)
  show "item = new_item key itemID (len items) itemType kind" using s by (simp add: item_def items_ok_def)
qed

lemma newItem_going:
  assumes "going items s" "settled items" "key_free key items"
  shows "yields (newItemLocked key idPrefix itemType kind s)
    (\<lambda>i t. i = length items \<and> (\<exists>itemID. going (items @ [new_item key itemID (len items) itemType kind]) t)) (\<lambda>_. session_ok)"
proof -
  let ?s = "s\<lparr>ss_tick := Suc (ss_tick s)\<rparr>"
  let ?id = "en_id (ss_env s) (ss_tick s) idPrefix (ss_NextOutputIndex s)"
  have tick: "going items ?s" using going_tick [OF assms(1)] .
  show ?thesis
  proof (cases "validStreamValue ?id 128")
    case True
    have *: "length (ss_itemOrder t) = length items \<and> (\<exists>itemID. going (items @ [new_item key itemID (len items) itemType kind])
        (t\<lparr>ss_NextOutputIndex := ss_NextOutputIndex t + 1, ss_items := map_put key (length items) (ss_items t),
          ss_itemOrder := ss_itemOrder t @ [new_item key ?id (ss_NextOutputIndex t) itemType kind]\<rparr>))" if "going items t" for t
      using going_append [OF that assms(3) True, of itemType kind] going_item [OF that] by metis
    then show ?thesis using True unfolding newItemLocked_def next_id_def Let_def
      by (auto simp: new_item_def [symmetric] intro!: yields_bind [OF reserve_going [OF tick assms(2)]])
  next
    case False
    then show ?thesis using going_ready [OF tick assms(2)] by (simp add: newItemLocked_def next_id_def Let_def)
  qed
qed

lemma settled_new: "settled items \<Longrightarrow> settled (items @ [new_item key itemID n itemType kind])"
  by (simp add: settled_def new_item_def)

lemma item_added_going:
  assumes "going items s"
  shows "yields (write_item_added i s) (\<lambda>_. going items) (\<lambda>_. session_ok)"
  unfolding write_item_added_def by (rule going_write [OF assms]) simp

lemma newTextItem_going:
  assumes "going items s" "settled items" "key_free key items"
  shows "yields (newTextItemLocked key s)
    (\<lambda>i t. i = length items \<and> (\<exists>itemID. going (items @ [new_item key itemID (len items) ''message'' ToolFunction]) t)) (\<lambda>_. session_ok)"
  unfolding newTextItemLocked_def
  by (rule yields_bind [OF newItem_going [OF assms]])
    (auto intro!: yields_bind [OF item_added_going] yields_bind [OF going_write])

lemma settled_update:
  assumes "settled items" "i < length items" "si_contentDone item = si_contentDone (items ! i)" "si_itemDone item = si_itemDone (items ! i)"
  shows "settled (items[i := item])"
  using assms by (auto simp: settled_def list_all_length nth_list_update)

lemma going_counts [simp]:
  "going items (s\<lparr>ss_textBytes := a, ss_outputBytes := b\<rparr>) = going items s" "going items (s\<lparr>ss_outputBytes := b\<rparr>) = going items s"
  "going items (s\<lparr>ss_textBytes := a\<rparr>) = going items s" "going items (s\<lparr>ss_reasoning := r\<rparr>) = going items s" "going items (s\<lparr>ss_usage := u\<rparr>) = going items s"
  by (auto simp: going_def session_live_def session_inv_def live_def wire_ok_def order_ok_def items_ok_def)

lemma append_text_going:
  assumes "going items s" "i < length items" "is_text_key (si_key (items ! i))" "\<not> si_contentDone (items ! i)"
  shows "yields (append_text i text s) (\<lambda>_. going (items[i := (items ! i)\<lparr>si_text := si_text (items ! i) @ text\<rparr>])) (\<lambda>_. session_ok)"
proof -
  define item where "item = (items ! i)\<lparr>si_text := si_text (items ! i) @ text\<rparr>"
  define b where "b = [(''item_id'', JStr (si_id item)), (''output_index'', JInt (si_outputIndex item)), (''content_index'', JInt 0),
         (''delta'', JStr text), (''logprobs'', JArr [])]"
  define t where "t = (set_item i item s)\<lparr>ss_textBytes := ss_textBytes s + len text, ss_outputBytes := ss_outputBytes s + len text\<rparr>"
  define p where "p = event_payload ''response.output_text.delta'' b (ss_SequenceNumber t)"
  have s: "wire_ok s" "order_ok s" "items_ok s" "ss_writeFailure s = None" "\<not> ss_TerminalEmitted s" "ss_started s"
    "done_ok (frames s)" "text_ok items (frames s)" "ss_itemOrder s = items"
    using assms(1) by (auto simp: going_def session_live_def session_inv_def live_def)
  have t: "wire_ok t" "items_ok t" "ss_writeFailure t = None" "frames t = frames s" "ss_itemOrder t = items[i := item]" "ss_started t"
    "\<not> ss_TerminalEmitted t" "ss_headersSent t = ss_headersSent s" "rw_status (ss_writer t) = rw_status (ss_writer s)"
    using s items_ok_update [OF s(3), of i item t] item_hook_ok [OF s(3), of i] assms(2)
    by (auto simp: t_def item_def wire_ok_def)
  have idx: "si_outputIndex item = int i" using s(3,9) assms(2) by (simp add: items_ok_def item_def)
  have p: "ev_type p = ''response.output_text.delta''" "field ''output_index'' p = Some (JInt (int i))" "delta_text (JInt (int j)) p = (if i = j then text else [])" for j
    by (simp_all add: p_def b_def idx delta_text_def)
  have fresh: "ev_type q \<noteq> ''response.output_text.done'' \<or> field ''output_index'' q \<noteq> Some (JInt (int i))" if "q \<in> set (frames s)" for q
    using s(8) that assms(4) by (fastforce simp: text_ok_def text_types_def)
  have done': "done_ok (frames s @ ps)" if "ps \<in> {[], [p]}" for ps
    unfolding done_ok_def
  proof (intro ballI impI)
    fix q assume q: "q \<in> set (frames s @ ps)" "ev_type q = ''response.output_text.done''"
    then have qs: "q \<in> set (frames s)" using that p(1) by auto
    then obtain index where index: "field ''output_index'' q = Some index" "field ''text'' q = Some (JStr (sent_text index (frames s)))"
      using s(7) q(2) unfolding done_ok_def by blast
    have "index \<noteq> JInt (int i)" using fresh [OF qs] q(2) index(1) by auto
    then have "delta_text index p = []" using p(2) by (simp add: delta_text_def)
    then show "\<exists>index. field ''output_index'' q = Some index \<and> field ''text'' q = Some (JStr (sent_text index (frames s @ ps)))"
      using index that by auto
  qed
  have "sent_text (JInt (int j)) (frames s @ [p]) = si_text (items[i := item] ! j)" if "j < length items" "is_text_key (si_key (items[i := item] ! j))" for j
    using that s(8) p(3) assms(2,3) by (auto simp: text_ok_def nth_list_update item_def split: if_splits)
  moreover have "\<exists>j < length items. field ''output_index'' q = Some (JInt (int j)) \<and> is_text_key (si_key (items[i := item] ! j))
      \<and> (ev_type q = ''response.output_text.done'' \<longrightarrow> si_contentDone (items[i := item] ! j))"
    if q: "q \<in> set (frames s @ [p])" "ev_type q \<in> set text_types" for q
  proof (cases "q = p")
    case True
    then show ?thesis using p assms(2,3) by (intro exI [of _ i]) (simp add: item_def)
  next
    case False
    with q obtain j where "j < length items" "field ''output_index'' q = Some (JInt (int j))" "is_text_key (si_key (items ! j))"
      "ev_type q = ''response.output_text.done'' \<longrightarrow> si_contentDone (items ! j)"
      using text_okD [OF s(8), of q] by auto
    then show ?thesis using assms(2) by (intro exI [of _ j]) (auto simp: item_def nth_list_update)
  qed
  ultimately have texts: "text_ok (items[i := item]) (frames s @ [p])" by (auto simp: text_ok_def)
  have ord: "order_ok u" if "ps \<in> {[], [p]}" "frames u = frames s @ ps" "ss_started u = ss_started s" "ss_headersSent u = ss_headersSent s"
      "ss_TerminalEmitted u = ss_TerminalEmitted s" "rw_status (ss_writer u) = rw_status (ss_writer s)" for ps u
    using that p(1) by (intro order_ok_more [OF s(2,6,4,5) _ that(2)]) (auto simp: terminal_types_def)
  have "yields (writeEventLocked ''response.output_text.delta'' b t) (\<lambda>_. going (items[i := item])) (\<lambda>_. session_ok)"
  proof (rule writeEvent_yields [OF t(3)])
    show "going (items[i := item]) (wrote (event_payload ''response.output_text.delta'' b (ss_SequenceNumber t)) t)"
      using t s(5,6) ord [of "[p]" "wrote p t"] done' [of "[p]"] texts wire_ok_wrote [OF t(1,3)] items_ok_cong [of "wrote p t" t]
      by (simp add: going_def session_live_def session_inv_def live_def p_def)
    show "session_ok (write_lost ps tail t)" if "ps \<in> {[], [event_payload ''response.output_text.delta'' b (ss_SequenceNumber t)]}" for ps tail
      using t s(5,6) ord [of ps "write_lost ps tail t"] done' [of ps] wire_ok_lost [OF t(1,3) that] items_ok_cong [of "write_lost ps tail t" t] that
      by (simp add: session_ok_def session_inv_def live_def p_def)
  qed
  then show ?thesis using s(9) by (simp add: append_text_def Let_def item_def b_def t_def)
qed

text \<open>The items a live session may be left with.\<close>

abbreviation ok_after :: "'a \<Rightarrow> StreamSession \<Rightarrow> bool" where
  "ok_after \<equiv> \<lambda>_. session_ok"

lemma going_ok: "yields m (\<lambda>_. going items) ok_after \<Longrightarrow> settled items \<Longrightarrow> yields m ok_after ok_after"
  by (erule yields_mono) (auto dest: going_ready)

lemma text_for_item_ok:
  assumes "going items s" "settled items" "i < length items" "is_text_key (si_key (items ! i))"
  shows "yields (text_for_item text i s) ok_after ok_after"
proof -
  note ready = going_ready [OF assms(1,2)]
  have "yields (append_text i text t) ok_after ok_after" if t: "going items t" "\<not> si_itemDone (items ! i)" for t
  proof (rule going_ok)
    have "\<not> si_contentDone (items ! i)" using settledD [OF assms(2,3)] that(2) by blast
    then show "yields (append_text i text t) (\<lambda>_. going (items[i := (items ! i)\<lparr>si_text := si_text (items ! i) @ text\<rparr>])) ok_after"
      using append_text_going [OF t(1) assms(3,4)] by blast
  qed (rule settled_update [OF assms(2,3)], simp_all)
  then have "yields (go_bind (reserve_or_limit n s) (\<lambda>_. append_text i text)) ok_after ok_after" if "\<not> si_itemDone (items ! i)" for n
    using that by (intro yields_bind [OF reserve_going [OF assms(1,2)]]) simp
  then show ?thesis using ready going_item [OF assms(1)] by (auto simp: text_for_item_def intro!: limit_ok invalid_ok)
qed

lemma textDelta_ok:
  assumes "session_ok s" "live s"
  shows "yields (textDeltaLocked ci text s) ok_after ok_after"
proof -
  have items: "settled (ss_itemOrder s)" using assms by (simp add: session_ok_def)
  have "yields (if \<not> utf8_Valid text then invalidTransitionLocked t
      else case map_of (ss_items t) (StreamTextKind ci) of
          Some i \<Rightarrow> text_for_item text i t
        | None \<Rightarrow> if text = [] then (Inr (), t)
            else go_bind (newTextItemLocked (StreamTextKind ci) t) (text_for_item text)) ok_after ok_after"
    if t: "going (ss_itemOrder s) t" for t
  proof -
    note ready = going_ready [OF t items]
    have "yields (go_bind (newTextItemLocked (StreamTextKind ci) t) (text_for_item text)) ok_after ok_after"
      if "map_of (ss_items t) (StreamTextKind ci) = None"
      using that going_lookup(1) [OF t]
      by (intro yields_bind [OF newTextItem_going [OF t items]]) (auto intro!: text_for_item_ok settled_new items)
    then show ?thesis using ready invalid_ok text_for_item_ok [OF t items] going_lookup(2) [OF t] by (auto split: option.split)
  qed
  then show ?thesis using assms invalid_ok unfolding textDeltaLocked_def
    by (auto intro!: yields_bind [OF ensureStarted_going])
qed

lemma responseStarted_ok:
  assumes "session_ok s" "live s"
  shows "yields (responseStartedLocked c m s) ok_after ok_after"
proof (cases "ss_started s")
  case False
  have upd: "session_ok (s\<lparr>ss_CreatedAt := a, ss_Model := b\<rparr>) \<and> live (s\<lparr>ss_CreatedAt := a, ss_Model := b\<rparr>)
      \<and> session_ok (s\<lparr>ss_CreatedAt := a\<rparr>) \<and> live (s\<lparr>ss_CreatedAt := a\<rparr>) \<and> session_ok (s\<lparr>ss_Model := b\<rparr>) \<and> live (s\<lparr>ss_Model := b\<rparr>)" for a b
    using assms by (auto simp: session_ok_def session_inv_def live_def wire_ok_def order_ok_def items_ok_def)
  have start: "yields (startLocked t) ok_after ok_after" if "session_ok t" "live t" "\<not> ss_started t" for t
  proof (rule going_ok)
    show "yields (startLocked t) (\<lambda>_. going (ss_itemOrder t)) ok_after"
      using ensureStarted_going [OF that(1,2)] that(3) by (simp add: ensureStartedLocked_def)
  qed (use that in \<open>simp add: session_ok_def\<close>)
  show ?thesis using assms False upd invalid_ok start by (auto simp: responseStartedLocked_def Let_def)
qed (use assms in \<open>simp add: responseStartedLocked_def\<close>)

lemma identify_tool_ok:
  assumes "going items s" "settled items" "i < length items" "hook_ok hook"
  shows "yields (identify_tool hook callID name i s) ok_after ok_after"
proof -
  have id: "yields (let t = set_item i ((item_at u i)\<lparr>si_hook := hook, si_callID := cid\<rparr>) u in
      if \<not> validStreamValue cid 256 then invalidTransitionLocked t
      else go_bind (reserve_or_limit (len cid + len name) t)
        (\<lambda>_ s. write_item_added i (set_item i ((item_at s i)\<lparr>si_name := si_name (item_at s i) @ name\<rparr>) s))) ok_after ok_after"
    if u: "going items u" for u cid
  proof -
    define item where "item = (items ! i)\<lparr>si_hook := hook, si_callID := cid\<rparr>"
    have t: "going (items[i := item]) (set_item i item u)" "settled (items[i := item])"
      using going_set [OF u assms(3), of item] assms(4) settled_update [OF assms(2,3), of item] by (simp_all add: item_def same_item_def)
    have named: "yields (write_item_added i (set_item i ((item_at v i)\<lparr>si_name := si_name (item_at v i) @ name\<rparr>) v)) ok_after ok_after"
      if v: "going (items[i := item]) v" for v
    proof -
      define item' where "item' = item\<lparr>si_name := si_name item @ name\<rparr>"
      have i: "i < length (items[i := item])" and at: "items[i := item] ! i = item" using assms(3) by simp_all
      have "same_item item' (items[i := item] ! i)" using same_item_refl [OF v i] at by (simp add: item'_def)
      from going_set [OF v i this] have "going (items[i := item']) (set_item i item' v)" by simp
      moreover have "settled (items[i := item'])"
        using settled_update [OF t(2) i, of item'] at by (simp add: item'_def)
      ultimately show ?thesis using going_ok [OF item_added_going] going_item [OF v] at by (simp add: item'_def)
    qed
    have "yields (go_bind (reserve_or_limit n (set_item i item u)) (\<lambda>_ s. write_item_added i
        (set_item i ((item_at s i)\<lparr>si_name := si_name (item_at s i) @ name\<rparr>) s))) ok_after ok_after" for n
      by (rule yields_bind [OF reserve_going [OF t]]) (rule named)
    then show ?thesis using invalid_ok going_ready [OF t] going_item [OF u] by (auto simp: Let_def item_def)
  qed
  show ?thesis
    using id [OF assms(1), of callID] id [OF going_tick [OF assms(1), of "Suc (ss_tick s)"],
        of "en_id (ss_env s) (ss_tick s) ''call'' (si_outputIndex (item_at s i))"]
    by (cases "callID = []") (simp_all add: identify_tool_def next_id_def Let_def split: if_splits)
qed

lemma toolDefinition_hook: "going items s \<Longrightarrow> toolDefinition kind s = Some (hook, itemType, idPrefix) \<Longrightarrow> hook_ok hook"
  by (auto simp: toolDefinition_def going_def session_live_def session_inv_def items_ok_def split: if_splits option.splits)

lemma toolCallStarted_ok:
  assumes "session_ok s" "live s"
  shows "yields (toolCallStartedLocked key kind callID name s) ok_after ok_after"
proof -
  let ?k = "StreamToolKind (ChoiceIndex key) (ToolIndex key)"
  have items: "settled (ss_itemOrder s)" using assms by (simp add: session_ok_def)
  have "yields (if toolItemLocked key t \<noteq> None then invalidTransitionLocked t
      else case toolDefinition kd t of
          None \<Rightarrow> invalidTransitionLocked t
        | Some (hook, itemType, idPrefix) \<Rightarrow> go_bind (newItemLocked ?k idPrefix itemType kd t) (identify_tool hook callID name)) ok_after ok_after"
    if t: "going (ss_itemOrder s) t" for t kd
  proof -
    note ready = going_ready [OF t items]
    have "yields (go_bind (newItemLocked ?k idPrefix itemType kd t) (identify_tool hook callID name)) ok_after ok_after"
      if "toolItemLocked key t = None" "toolDefinition kd t = Some (hook, itemType, idPrefix)" for hook itemType idPrefix
      using that(1) going_lookup(1) [OF t] toolDefinition_hook [OF t that(2)] unfolding toolItemLocked_def
      by (intro yields_bind [OF newItem_going [OF t items]]) (auto intro!: identify_tool_ok settled_new items)
    then show ?thesis using ready invalid_ok by (auto split: option.split)
  qed
  then show ?thesis using assms invalid_ok unfolding toolCallStartedLocked_def Let_def
    by (auto intro!: yields_bind [OF ensureStarted_going])
qed

lemma active_going:
  assumes "session_ok s" "live s" "active_item key s = Some i"
  shows "going (ss_itemOrder s) s \<and> settled (ss_itemOrder s) \<and> i < length (ss_itemOrder s) \<and> \<not> si_itemDone (item_at s i)
    \<and> \<not> is_text_key (si_key (item_at s i))"
proof -
  have "map_of (ss_items s) (StreamToolKind (ChoiceIndex key) (ToolIndex key)) = Some i" "\<not> si_itemDone (item_at s i)"
    using assms(3) by (auto simp: active_item_def toolItemLocked_def split: option.splits if_splits)
  moreover from this have "i < length (ss_itemOrder s) \<and> si_key (item_at s i) = StreamToolKind (ChoiceIndex key) (ToolIndex key)" "ss_started s"
    using assms(1) by (auto simp: session_ok_def session_inv_def items_ok_def)
  ultimately show ?thesis using ready_going [OF assms(1,2)] by simp
qed

lemma toolCallMetadata_ok:
  assumes "session_ok s" "live s"
  shows "yields (toolCallMetadataLocked key callID name s) ok_after ok_after"
proof (cases "active_item key s")
  case (Some i)
  note a = active_going [OF assms Some]
  have "yields (if callID \<noteq> [] \<and> si_callID (item_at t i) \<noteq> callID then invalidTransitionLocked t
      else (Inr (), set_item i ((item_at t i)\<lparr>si_name := si_name (item_at t i) @ name\<rparr>) t)) ok_after ok_after"
    if t: "going (ss_itemOrder s) t" for t
  proof -
    have "going ((ss_itemOrder s)[i := (item_at s i)\<lparr>si_name := n\<rparr>]) (set_item i ((item_at s i)\<lparr>si_name := n\<rparr>) t)"
      "settled ((ss_itemOrder s)[i := (item_at s i)\<lparr>si_name := n\<rparr>])" for n
      using a t going_set [OF t, of i] same_item_refl [OF t, of i] by (auto intro: settled_update)
    then have "session_ok (set_item i ((item_at s i)\<lparr>si_name := n\<rparr>) t)" for n using going_ready by blast
    then show ?thesis using invalid_ok going_ready [OF t] a going_item [OF t] by auto
  qed
  then show ?thesis using Some a invalid_ok assms unfolding toolCallMetadataLocked_def
    by (auto intro!: yields_bind [OF reserve_going])
qed (use assms invalid_ok in \<open>simp add: toolCallMetadataLocked_def\<close>)

lemma toolCallArguments_ok:
  assumes "session_ok s" "live s"
  shows "yields (toolCallArgumentsLocked key arguments s) ok_after ok_after"
proof (cases "active_item key s")
  case (Some i)
  note a = active_going [OF assms Some]
  have "yields (append_arguments i arguments t) ok_after ok_after" if t: "going (ss_itemOrder s) t" for t
  proof -
    define item where "item = (item_at s i)\<lparr>si_arguments := si_arguments (item_at s i) @ arguments\<rparr>"
    have g: "going ((ss_itemOrder s)[i := item]) (set_item i item t)" "settled ((ss_itemOrder s)[i := item])" "hook_ok (si_hook item)"
      using a t going_set [OF t, of i item] same_item_refl [OF t, of i] going_hook [OF t, of i] by (auto simp: item_def intro: settled_update)
    have "going ((ss_itemOrder s)[i := item]) ((set_item i item t)\<lparr>ss_outputBytes := n\<rparr>)" for n using g(1) by simp
    from going_ok [OF going_write [OF this] g(2)] show ?thesis
      using going_item [OF t] g(3) by (auto simp: append_arguments_def Let_def item_def)
  qed
  then show ?thesis using Some a invalid_ok limit_ok assms unfolding toolCallArgumentsLocked_def
    by (auto intro!: yields_bind [OF reserve_going])
qed (use assms invalid_ok in \<open>simp add: toolCallArgumentsLocked_def\<close>)

lemma complete_item_sel [simp]:
  "same_item (complete_item n a item) y = same_item item y" "si_itemDone (complete_item n a item) = si_itemDone item"
  "si_contentDone (complete_item n a item) = si_contentDone item" "si_callID (complete_item n a item) = si_callID item"
  "si_key (complete_item n a item) = si_key item"
  by (auto simp: complete_item_def Let_def)

lemma settle_tool_ok:
  assumes "going items s" "settled items" "i < length items" "\<not> si_itemDone (items ! i)" "\<not> is_text_key (si_key (items ! i))"
  shows "yields (settle_tool i callID name arguments s) ok_after ok_after"
proof -
  define item where "item = complete_item name arguments (items ! i)"
  have g: "going (items[i := item]) (set_item i item s)"
    using going_set [OF assms(1,3), of item] same_item_refl [OF assms(1,3)] by (simp add: item_def)
  have st: "settled (items[i := item])" using settled_update [OF assms(2,3), of item] by (simp add: item_def)
  have i: "i < length (items[i := item])" "items[i := item] ! i = item" using assms(3) by simp_all
  have fin: "settled (items[i := item_status ''completed'' item])"
    using assms(2) by (auto simp: settled_def list_all_iff item_status_def dest!: set_update_subset_insert [THEN subsetD])
  have "yields (finishToolItemLocked i ''completed'' u) ok_after ok_after \<and> yields (invalidTransitionLocked u) ok_after ok_after"
    if u: "going (items[i := item]) u" for u
  proof
    show "yields (finishToolItemLocked i ''completed'' u) ok_after ok_after"
      using finishTool_going [OF u i(1), of "''completed''", THEN yields_weaken] i(2) assms(4,5)
      by (intro going_ok [OF _ fin]) (simp add: item_def)
    show "yields (invalidTransitionLocked u) ok_after ok_after" using invalid_ok going_ready [OF u st] by blast
  qed
  from this [OF g] this [of "(set_item i item s)\<lparr>ss_outputBytes := n\<rparr>" for n]
  show ?thesis using g going_ready [OF assms(1,2)] going_item [OF assms(1)] invalid_ok [of s]
    by (auto simp: settle_tool_def Let_def item_def [symmetric])
qed

lemma toolCallCompleted_ok:
  assumes "session_ok s" "live s"
  shows "yields (toolCallCompletedLocked key kind callID name arguments s) ok_after ok_after"
proof (cases "active_item key s")
  case (Some i)
  note a = active_going [OF assms Some]
  have "yields (settle_tool i callID name arguments t) ok_after ok_after" if "going (ss_itemOrder s) t" for t
    using a that by (intro settle_tool_ok) auto
  then show ?thesis using Some a invalid_ok limit_ok assms unfolding toolCallCompletedLocked_def
    by (auto intro!: yields_bind [OF reserve_going])
qed (use assms invalid_ok in \<open>simp add: toolCallCompletedLocked_def\<close>)

lemma reasoningDelta_ok:
  assumes "session_ok s" "live s"
  shows "yields (reasoningDeltaLocked ci text s) ok_after ok_after"
proof -
  have items: "settled (ss_itemOrder s)" using assms by (simp add: session_ok_def)
  have "yields (go_bind (reserve_or_limit n t) (\<lambda>_ u. (Inr (), u\<lparr>ss_reasoning := ss_reasoning u @ text\<rparr>))) ok_after ok_after"
    if "going (ss_itemOrder s) t" for t n
    using items going_ready by (intro yields_bind [OF reserve_going [OF that items]]) (auto dest: going_ready)
  then show ?thesis using assms going_ready [OF _ items] unfolding reasoningDeltaLocked_def
    by (auto intro!: yields_bind [OF ensureStarted_going] invalid_ok limit_ok)
qed

lemma usageUpdated_ok:
  assumes "session_ok s" "live s"
  shows "yields (usageUpdatedLocked u s) ok_after ok_after"
proof -
  have items: "settled (ss_itemOrder s)" using assms by (simp add: session_ok_def)
  have "session_ok (t\<lparr>ss_usage := v\<rparr>)" if "going (ss_itemOrder s) t" for t v
    using going_ready [of "ss_itemOrder s" "t\<lparr>ss_usage := v\<rparr>"] that items by simp
  then show ?thesis using assms unfolding usageUpdatedLocked_def by (auto intro!: yields_bind [OF ensureStarted_going])
qed

lemma yields_after: "yields m ok_after ok_after \<longleftrightarrow> session_ok (snd m)"
  by (rule yields_snd)

lemma end_stream_dead:
  assumes "session_ok s" "live s" "''response.'' @ status \<in> set terminal_types"
  shows "dead (snd (end_stream itemStatus req status err reason s))"
proof -
  have items: "settled (ss_itemOrder s)" using assms by (simp add: session_ok_def)
  have "yields (end_stream itemStatus req status err reason s) (\<lambda>_. dead) (\<lambda>_. dead)" unfolding end_stream_def
    by (intro yields_bind [OF ensureStarted_going_dead [OF assms(1,2)]] yields_bind [OF finishItems_going [OF _ items]])
      (simp_all only: yields_snd terminal_ok [OF _ assms(3)])
  then show ?thesis by (simp only: yields_snd)
qed

lemma end_stream_ok:
  "session_ok s \<Longrightarrow> live s \<Longrightarrow> ''response.'' @ status \<in> set terminal_types \<Longrightarrow>
     yields (end_stream itemStatus req status err reason s) ok_after ok_after"
  by (simp only: yields_after end_stream_dead dead_ok)

lemma dispatch_event_ok: "session_ok s \<Longrightarrow> live s \<Longrightarrow> yields (dispatch_event ev s) ok_after ok_after"
  by (cases ev) (simp_all add: responseStarted_ok textDelta_ok toolCallStarted_ok toolCallMetadata_ok toolCallArguments_ok
      toolCallCompleted_ok reasoningDelta_ok usageUpdated_ok completedLocked_def incompleteLocked_def failedLocked_def Let_def end_stream_ok)

lemma session_Handle_ok: "session_ok s \<Longrightarrow> session_ok (snd (session_Handle ev s))"
  using dispatch_event_ok [of s] invalid_ok [of s ok_after]
  by (auto simp: session_Handle_def yields_after live_def split: option.split)

lemma session_Start_ok: "session_ok s \<Longrightarrow> session_ok (snd (session_Start s))"
  using responseStarted_ok [of s zero_time "[]"] invalid_ok [of s ok_after]
  by (auto simp: session_Start_def yields_after live_def responseStartedLocked_def Let_def split: option.split)

section \<open>The session as a state machine\<close>

definition session_start :: "StreamSession \<Rightarrow> bool" where
  "session_start s \<longleftrightarrow> (\<exists>writer env options. NewStreamSession writer env options = Inr s
     \<and> rw_frames writer = [] \<and> rw_status writer = [] \<and> list_all (\<lambda>(kind, hook). hook_ok hook) (so_CustomTools options))"

inductive session_step :: "StreamSession \<Rightarrow> StreamSession \<Rightarrow> bool" where
  step_Start: "session_step s (snd (session_Start s))"
| step_Handle: "session_step s (snd (session_Handle event s))"

inductive_cases session_stepE: "session_step s t"

lemma hooks_kept:
  assumes "list_all (\<lambda>(kind, hook). hook_ok hook) hooks" "\<forall>k h. map_of m k = Some h \<longrightarrow> hook_ok h"
  shows "\<forall>k h. map_of (snd (go_for add_hook hooks m)) k = Some h \<longrightarrow> hook_ok h"
  using assms(2)
  by (rule keeps_for) (use assms(1) in \<open>auto simp: add_hook_def list_all_iff split: option.splits if_splits\<close>)

lemma customHook_ok [simp]: "hook_ok customHook"
  by (simp add: hook_ok_def customHook_def session_types_def terminal_types_def)

lemma NewStreamSession_ok:
  assumes "session_start s"
  shows "session_ok s"
proof -
  from assms obtain writer env options where n: "NewStreamSession writer env options = Inr s" and w: "rw_frames writer = []" "rw_status writer = []"
    and h: "list_all (\<lambda>(kind, hook). hook_ok hook) (so_CustomTools options)" by (auto simp: session_start_def)
  obtain x m where m: "go_for add_hook (so_CustomTools options) defaultCustomTools = (x, m)" by (rule prod.exhaust)
  have "\<forall>k h. map_of defaultCustomTools k = Some h \<longrightarrow> hook_ok h" by (simp add: defaultCustomTools_def)
  from hooks_kept [OF h this] m have hooks: "\<forall>k h. map_of m k = Some h \<longrightarrow> hook_ok h" by simp
  have s: "ss_customTools s = m \<and> ss_writer s = writer \<and> ss_itemOrder s = [] \<and> ss_items s = [] \<and> ss_NextOutputIndex s = 0 \<and> \<not> ss_started s
      \<and> \<not> ss_headersSent s \<and> ss_writeFailure s = None \<and> \<not> ss_downstreamDone s \<and> \<not> ss_TerminalEmitted s \<and> ss_SequenceNumber s = 0"
    using n m by (auto simp: NewStreamSession_def Let_def split: sum.splits if_splits)
  then have "wire_ok s" "order_ok s" "items_ok s" using w hooks by (simp_all add: wire_ok_def order_ok_def items_ok_def)
  then show ?thesis using s w by (simp add: session_ok_def session_inv_def settled_def done_ok_def text_ok_def)
qed

interpretation session: invariant_system session_start session_step session_ok
  by unfold_locales (auto intro: NewStreamSession_ok elim!: session_stepE simp: session_Start_ok session_Handle_ok)

section \<open>What a client sees\<close>

lemma closed_step: "\<not> live s \<Longrightarrow> session_step s t \<Longrightarrow> t = s"
  by (auto elim!: session_stepE simp: live_def session_Start_def session_Handle_def split: option.splits)

lemma closed_steps: "session_step\<^sup>*\<^sup>* s t \<Longrightarrow> \<not> live s \<Longrightarrow> t = s"
  by (induction rule: rtranclp_induct) (auto dest: closed_step)

lemma dispatch_terminal: "session_ok s \<Longrightarrow> live s \<Longrightarrow> terminal_event ev \<Longrightarrow> dead (snd (dispatch_event ev s))"
  by (cases ev) (simp_all add: completedLocked_def incompleteLocked_def failedLocked_def Let_def end_stream_dead)

text \<open>
  C25: The frames of a session are numbered from zero without a gap; the first two are the creation of the
  response and its progress; a terminal frame, if there is one, is the last; the session says it has ended
  exactly when that frame is there, unless the writer failed; and the status line is sent at most once.
\<close>

theorem session_wire:
  assumes "reachable session_start session_step s"
  shows "map (field ''sequence_number'') (frames s) = map (\<lambda>i. Some (JInt (int i))) [0..<length (frames s)]
    \<and> take 2 (map ev_type (frames s)) = take (length (frames s)) [''response.created'', ''response.in_progress'']
    \<and> (\<forall>p \<in> set (butlast (frames s)). ev_type p \<notin> set terminal_types)
    \<and> (ss_writeFailure s = None \<longrightarrow> (ss_TerminalEmitted s \<longleftrightarrow> frames s \<noteq> [] \<and> ev_type (last (frames s)) \<in> set terminal_types))
    \<and> rw_status (ss_writer s) \<in> {[], [200]}"
proof -
  have "wire_ok s" "order_ok s" using session.inv_reachable [OF assms] by (simp_all add: session_ok_def session_inv_def)
  then show ?thesis by (auto simp: wire_ok_def order_ok_def dest: in_set_butlastD split: if_splits)
qed

text \<open>
  When a text is reported done, the text of the report is the concatenation of the deltas sent for the
  same output index.
\<close>

theorem session_text_done:
  assumes "reachable session_start session_step s" "p \<in> set (frames s)" "ev_type p = ''response.output_text.done''"
  shows "\<exists>index. field ''output_index'' p = Some index \<and> field ''text'' p = Some (JStr (sent_text index (frames s)))"
  using session.inv_reachable [OF assms(1)] assms(2,3) by (auto simp: session_ok_def session_inv_def done_ok_def)

text \<open>
  C29: A terminal event closes the session whatever state it is in: afterwards nothing is written and no
  operation changes the session.
\<close>

theorem session_closes:
  assumes "reachable session_start session_step s" "terminal_event ev"
    and "session_step\<^sup>*\<^sup>* (snd (session_Handle (Some ev) s)) t"
  shows "t = snd (session_Handle (Some ev) s) \<and> (ss_TerminalEmitted t \<or> ss_writeFailure t \<noteq> None)"
proof -
  have "\<not> live (snd (session_Handle (Some ev) s))"
    using dispatch_terminal [OF session.inv_reachable [OF assms(1)] _ assms(2)]
    by (auto simp: session_Handle_def live_def dead_def split: option.split)
  with closed_steps [OF assms(3)] show ?thesis by (auto simp: live_def)
qed

lemma put_other:
  "x \<noteq> k \<Longrightarrow> map_of m x = y \<Longrightarrow> map_of (map_put k v m) x = y"
  "x \<noteq> k \<Longrightarrow> map_of m x = y \<Longrightarrow> map_of (if b then map_put k v m else m) x = y"
  "x \<noteq> k \<Longrightarrow> map_of m x = y \<Longrightarrow> map_of (if b then (if c then map_put k v m else map_put k w m) else m) x = y"
  "x \<noteq> k \<Longrightarrow> map_of m x = y \<Longrightarrow> map_of (case e of None \<Rightarrow> if b then map_put k v m else m | Some z \<Rightarrow> map_put k (f z) m) x = y"
  "x \<noteq> k \<Longrightarrow> map_of m x = y \<Longrightarrow> map_of (case u of None \<Rightarrow> m | Some z \<Rightarrow> map_put k (g z) m) x = y"
  by (auto split: option.split)

lemma response_output: "field ''output'' (responseObjectLocked status err reason s) = Some (outputLocked s)"
  unfolding responseObjectLocked_def Let_def field_def json.case
  by (rule put_other, simp)+ simp

text \<open>The final state of an ended stream, when the writer takes the terminal frame.\<close>

lemma terminal_written:
  assumes "writeTerminalLocked status err reason s = (Inr u, t)"
  shows "ss_itemOrder t = ss_itemOrder s
    \<and> (\<exists>b. frames t = frames s @ [event_payload (''response.'' @ status) b (ss_SequenceNumber s)]
       \<and> (\<exists>resp. map_of b ''response'' = Some resp \<and> field ''output'' resp = Some (outputLocked s)))"
proof -
  let ?s = "if status = ''completed'' \<and> ss_terminalAt s = zero_time then note_terminal s else s"
  let ?b = "[(''response'', responseObjectLocked status err reason ?s)]"
  have same: "ss_itemOrder ?s = ss_itemOrder s" "frames ?s = frames s" "ss_SequenceNumber ?s = ss_SequenceNumber s"
    by (simp_all add: note_terminal_def Let_def)
  have "field ''output'' (responseObjectLocked status err reason ?s) = Some (outputLocked ?s)"
    by (rule response_output)
  moreover have "outputLocked ?s = outputLocked s" by (simp only: outputLocked_def same)
  moreover have "frames t = frames ?s @ [event_payload (''response.'' @ status) ?b (ss_SequenceNumber ?s)] \<and> ss_itemOrder t = ss_itemOrder ?s"
    using assms unfolding writeTerminalLocked_def Let_def
    by (auto simp: writeEventLocked_def recordWriteFailureLocked_def write_frame_def Let_def split: option.splits if_splits prod.splits)
  ultimately show ?thesis using same by (intro conjI exI [of _ ?b]) simp_all
qed

text \<open>
  C26: A stream that completes successfully ends with the completed response, whose output lists every item
  of the session in the order the items were created, each finished.
\<close>

theorem session_completes:
  assumes "reachable session_start session_step s" "session_Handle (Some (Completed reason)) s = (Inr (), t)"
  shows "ev_type (last (frames t)) = ''response.completed''
    \<and> (\<exists>resp. field ''response'' (last (frames t)) = Some resp
        \<and> field ''output'' resp = Some (JArr (map (\<lambda>item. snapshot (finish_status ''completed'' item) []) (ss_itemOrder s))))
    \<and> list_all si_itemDone (ss_itemOrder t)"
proof -
  have ok: "session_ok s" using session.inv_reachable [OF assms(1)] .
  have lv: "live s" and run: "end_stream ''completed'' True ''completed'' None [] s = (Inr (), t)"
    using assms(2) by (auto simp: session_Handle_def completedLocked_def live_def split: option.splits if_splits)
  obtain s1 s2 where s1: "ensureStartedLocked s = (Inr (), s1)" and s2: "finishItemsLocked ''completed'' True s1 = (Inr (), s2)"
    and t: "writeTerminalLocked ''completed'' None [] (s2\<lparr>ss_TerminalEmitted := True\<rparr>) = (Inr (), t)"
    using run by (auto simp: end_stream_def go_bind_Inr_iff)
  have items: "settled (ss_itemOrder s)" using ok lv by (simp add: session_ok_def)
  have "going (ss_itemOrder s) s1" using ensureStarted_going_dead [OF ok lv] s1 by simp
  from finishItems_going [OF this items, of "''completed''" True] s2
  have s2i: "ss_itemOrder s2 = map (finish_status ''completed'') (ss_itemOrder s)" by (simp add: going_def)
  have "outputLocked (s2\<lparr>ss_TerminalEmitted := True\<rparr>) = JArr (map (\<lambda>item. snapshot (finish_status ''completed'' item) []) (ss_itemOrder s))"
    by (simp add: outputLocked_def s2i comp_def)
  with terminal_written [OF t] s2i show ?thesis
    by (auto simp: list_all_iff finish_status_def item_status_def)
qed

end
