(* ===== verification/Session_Bounds.thy ===== *)
theory Session_Bounds
  imports Stream_Session_Inv
begin

text \<open>
  The budgets of a stream session: the aggregate reservation is a byte budget, and no operation of the session
  lets a counter pass its limit.
\<close>

section \<open>The budgets of a session\<close>

interpretation session_budget: byte_budget reserveAggregateLocked ss_aggregateBytes ss_maxAggregateBytes
  by unfold_locales (auto simp: reserveAggregateLocked_def split: if_splits)

text \<open>What the bounds are about.\<close>

definition counters :: "StreamSession \<Rightarrow> int list" where
  "counters s = [ss_aggregateBytes s, ss_textBytes s, ss_outputBytes s, len (ss_reasoning s),
     ss_maxAggregateBytes s, ss_maxTextBytes s, ss_maxOutputBytes s, ss_maxReasoningBytes s]"

definition bounded :: "StreamSession \<Rightarrow> bool" where
  "bounded s \<longleftrightarrow> 0 \<le> ss_aggregateBytes s \<and> ss_aggregateBytes s \<le> ss_maxAggregateBytes s
     \<and> ss_textBytes s \<le> ss_maxTextBytes s \<and> ss_outputBytes s \<le> ss_maxOutputBytes s
     \<and> len (ss_reasoning s) \<le> ss_maxReasoningBytes s"

lemma bounded_cong: "counters t = counters s \<Longrightarrow> bounded t = bounded s"
  by (simp add: counters_def bounded_def)

lemma bounded_keeps: "counters (snd m) = counters s \<Longrightarrow> bounded s \<Longrightarrow> bounded (snd m)"
  using bounded_cong by blast

lemma counters_bind:
  assumes "counters (snd m) = counters s" "\<And>x t. counters t = counters s \<Longrightarrow> counters (snd (f x t)) = counters s"
  shows "counters (snd (go_bind m f)) = counters s"
  using assms by (cases m; cases "fst m") auto

lemma counters_write [simp]: "counters (snd (writeEventLocked t b s)) = counters s"
  by (auto simp: writeEventLocked_def recordWriteFailureLocked_def Let_def counters_def split: option.split prod.split)

lemma counters_item [simp]: "counters (s\<lparr>ss_itemOrder := items\<rparr>) = counters s" "counters (s\<lparr>ss_TerminalEmitted := b\<rparr>) = counters s"
  "counters (s\<lparr>ss_started := b\<rparr>) = counters s" "counters (send_headers s) = counters s" "counters (note_terminal s) = counters s"
  by (simp_all add: counters_def send_headers_def note_terminal_def Let_def)

lemma counters_start [simp]: "counters (snd (ensureStartedLocked s)) = counters s" "counters (snd (startLocked s)) = counters s"
proof -
  show "counters (snd (startLocked s)) = counters s"
    unfolding startLocked_def Let_def by (rule counters_bind) simp_all
  then show "counters (snd (ensureStartedLocked s)) = counters s" by (simp add: ensureStartedLocked_def)
qed

lemma counters_terminal [simp]: "counters (snd (writeTerminalLocked st e r s)) = counters s"
  by (simp add: writeTerminalLocked_def Let_def)

lemma counters_invalid [simp]: "counters (snd (invalidTransitionLocked s)) = counters s"
  unfolding invalidTransitionLocked_def by (auto intro!: counters_bind split: option.split)

lemma counters_finish [simp]: "counters (snd (finishTextItemLocked i st s)) = counters s" "counters (snd (finishToolItemLocked i st s)) = counters s"
  by (auto simp: finishTextItemLocked_def finishToolItemLocked_def Let_def intro!: counters_bind)

lemma counters_for:
  assumes "\<And>x t. counters (snd (f x t)) = counters t"
  shows "counters (snd (go_for f xs s)) = counters s"
  by (induction xs arbitrary: s) (auto intro!: counters_bind simp: assms)

lemma counters_finishItems [simp]: "counters (snd (finishItemsLocked st req s)) = counters s"
  unfolding finishItemsLocked_def by (rule counters_for) (simp add: finish_item_def Let_def)

lemma counters_limit [simp]: "counters (snd (limitLocked s)) = counters s"
  unfolding limitLocked_def by (auto intro!: counters_bind split: option.split)

lemma bounded_simps [simp]:
  "bounded (snd (writeEventLocked t b s)) = bounded s" "bounded (snd (ensureStartedLocked s)) = bounded s"
  "bounded (snd (startLocked s)) = bounded s" "bounded (snd (invalidTransitionLocked s)) = bounded s"
  "bounded (snd (finishItemsLocked st req s)) = bounded s" "bounded (snd (finishToolItemLocked i st s)) = bounded s"
  "bounded (snd (limitLocked s)) = bounded s" "bounded (snd (writeTerminalLocked st' e r s)) = bounded s"
  "bounded (s\<lparr>ss_itemOrder := items\<rparr>) = bounded s" "bounded (s\<lparr>ss_TerminalEmitted := bb\<rparr>) = bounded s"
  by (rule bounded_cong; simp)+

lemma reserve_bounded [simp]: "bounded s \<Longrightarrow> bounded (snd (reserve_or_limit n s))"
  by (auto simp: reserve_or_limit_def reserveAggregateLocked_def bounded_def [of "s\<lparr>ss_aggregateBytes := m\<rparr>" for m] bounded_def [of s])

text \<open>A reservation that succeeds changes the aggregate only.\<close>

lemma reserve_Inr: "reserve_or_limit n s = (Inr u, t) \<Longrightarrow> \<exists>m. t = s\<lparr>ss_aggregateBytes := m\<rparr>"
proof -
  have "limitLocked s \<noteq> (Inr (u :: unit), t)" for s u t
    by (auto simp: limitLocked_def go_bind_Inr_iff split: option.split)
  then show "reserve_or_limit n s = (Inr u, t) \<Longrightarrow> \<exists>m. t = s\<lparr>ss_aggregateBytes := m\<rparr>"
    by (auto simp: reserve_or_limit_def reserveAggregateLocked_def split: if_splits)
qed

lemma bounded_bind:
  assumes "bounded (snd m)" "\<And>x t. m = (Inr x, t) \<Longrightarrow> bounded t \<Longrightarrow> bounded (snd (f x t))"
  shows "bounded (snd (go_bind m f))"
  using assms by (rule keeps_bind)

lemma bounded_tick [simp]: "bounded (s\<lparr>ss_tick := n\<rparr>) = bounded s"
  "bounded (s\<lparr>ss_NextOutputIndex := a, ss_items := b, ss_itemOrder := c\<rparr>) = bounded s"
  "bounded (s\<lparr>ss_CreatedAt := t\<rparr>) = bounded s" "bounded (s\<lparr>ss_Model := m\<rparr>) = bounded s"
  "bounded (s\<lparr>ss_CreatedAt := t, ss_Model := m\<rparr>) = bounded s" "bounded (s\<lparr>ss_usage := u\<rparr>) = bounded s"
  "bounded (s\<lparr>ss_tick := n, ss_itemOrder := c\<rparr>) = bounded s"
  "bounded (s\<lparr>ss_NextOutputIndex := a, ss_items := b\<rparr>) = bounded s"
  "bounded (s\<lparr>ss_NextOutputIndex := a\<rparr>) = bounded s"
  "bounded (s\<lparr>ss_items := b\<rparr>) = bounded s"
  "bounded (s\<lparr>ss_items := b, ss_itemOrder := c\<rparr>) = bounded s"
  by (simp_all add: bounded_def)

lemma newItem_bounded [simp]: "bounded s \<Longrightarrow> bounded (snd (newItemLocked k p it kd s))"
  by (auto simp: newItemLocked_def next_id_def Let_def intro!: bounded_bind)

lemma newTextItem_bounded [simp]: "bounded s \<Longrightarrow> bounded (snd (newTextItemLocked k s))"
  by (auto simp: newTextItemLocked_def write_item_added_def intro!: bounded_bind)

lemma text_for_item_bounded: "bounded s \<Longrightarrow> bounded (snd (text_for_item text i s))"
proof -
  have "bounded (s\<lparr>ss_aggregateBytes := m, ss_itemOrder := items, ss_textBytes := ss_textBytes s + n, ss_outputBytes := ss_outputBytes s + n\<rparr>)"
    if "bounded (s\<lparr>ss_aggregateBytes := m\<rparr>)" "n \<le> ss_maxTextBytes s - ss_textBytes s" "n \<le> ss_maxOutputBytes s - ss_outputBytes s" for m n items
    using that by (simp add: bounded_def)
  then show "bounded s \<Longrightarrow> bounded (snd (text_for_item text i s))"
    by (auto simp: text_for_item_def append_text_def Let_def intro!: bounded_bind dest!: reserve_Inr)
qed

lemma textDelta_bounded: "bounded s \<Longrightarrow> bounded (snd (textDeltaLocked ci text s))"
  by (auto simp: textDeltaLocked_def intro!: bounded_bind text_for_item_bounded split: option.split)

lemma responseStarted_bounded: "bounded s \<Longrightarrow> bounded (snd (responseStartedLocked c m s))"
  by (auto simp: responseStartedLocked_def Let_def)

lemma identify_tool_bounded: "bounded s \<Longrightarrow> bounded (snd (identify_tool h c n i s))"
  by (auto simp: identify_tool_def next_id_def write_item_added_def Let_def intro!: bounded_bind split: prod.split if_splits)

lemma toolCallStarted_bounded: "bounded s \<Longrightarrow> bounded (snd (toolCallStartedLocked key kind callID name s))"
  by (auto simp: toolCallStartedLocked_def Let_def intro!: bounded_bind identify_tool_bounded split: option.split)

lemma toolCallMetadata_bounded: "bounded s \<Longrightarrow> bounded (snd (toolCallMetadataLocked key callID name s))"
  by (auto simp: toolCallMetadataLocked_def intro!: bounded_bind split: option.split)

lemma toolCallArguments_bounded: "bounded s \<Longrightarrow> bounded (snd (toolCallArgumentsLocked key arguments s))"
proof -
  have "bounded (s\<lparr>ss_aggregateBytes := m, ss_itemOrder := items, ss_outputBytes := ss_outputBytes s + n\<rparr>)"
    if "bounded (s\<lparr>ss_aggregateBytes := m\<rparr>)" "n \<le> ss_maxOutputBytes s - ss_outputBytes s" for m n items
    using that by (simp add: bounded_def)
  then show "bounded s \<Longrightarrow> bounded (snd (toolCallArgumentsLocked key arguments s))"
    by (auto simp: toolCallArgumentsLocked_def append_arguments_def Let_def intro!: bounded_bind dest!: reserve_Inr split: option.split)
qed

lemma toolCallCompleted_bounded:
  assumes "bounded s"
  shows "bounded (snd (toolCallCompletedLocked key kind callID name arguments s))"
proof -
  have "bounded (snd (settle_tool i callID name arguments t))"
    if "bounded t" "arguments \<noteq> [] \<longrightarrow> len arguments \<le> ss_maxOutputBytes t - (ss_outputBytes t - len (si_arguments (item_at t i)))" for i t
  proof -
    let ?item = "complete_item name arguments (item_at t i)"
    have "bounded (t\<lparr>ss_itemOrder := (ss_itemOrder t)[i := ?item], ss_outputBytes := ss_outputBytes t + (len (si_arguments ?item) - len (si_arguments (item_at t i)))\<rparr>)"
      if "arguments \<noteq> []"
      using that \<open>bounded t\<close> \<open>arguments \<noteq> [] \<longrightarrow> _\<close> by (auto simp: bounded_def complete_item_def Let_def)
    then show ?thesis using that(1) by (auto simp: settle_tool_def Let_def)
  qed
  then show ?thesis using assms
    by (auto simp: toolCallCompletedLocked_def intro!: bounded_bind dest!: reserve_Inr split: option.split)
qed

lemma reasoningDelta_bounded: "bounded s \<Longrightarrow> bounded (snd (reasoningDeltaLocked ci text s))"
proof -
  have "bounded (s\<lparr>ss_aggregateBytes := m, ss_reasoning := ss_reasoning s @ text\<rparr>)"
    if "bounded (s\<lparr>ss_aggregateBytes := m\<rparr>)" "len text \<le> ss_maxReasoningBytes s - len (ss_reasoning s)" for m s
    using that by (simp add: bounded_def)
  then show "bounded s \<Longrightarrow> bounded (snd (reasoningDeltaLocked ci text s))"
    by (auto simp: reasoningDeltaLocked_def intro!: bounded_bind dest!: reserve_Inr)
qed

lemma end_stream_bounded: "bounded s \<Longrightarrow> bounded (snd (end_stream st req status e r s))"
  unfolding end_stream_def by (auto intro!: bounded_bind)

lemma usageUpdated_bounded: "bounded s \<Longrightarrow> bounded (snd (usageUpdatedLocked u s))"
  unfolding usageUpdatedLocked_def by (auto intro!: bounded_bind)

lemma dispatch_bounded: "bounded s \<Longrightarrow> bounded (snd (dispatch_event ev s))"
  by (cases ev) (simp_all add: responseStarted_bounded textDelta_bounded toolCallStarted_bounded toolCallMetadata_bounded toolCallArguments_bounded
      toolCallCompleted_bounded reasoningDelta_bounded usageUpdated_bounded completedLocked_def incompleteLocked_def failedLocked_def
      end_stream_bounded Let_def)

lemma positive_or_nonneg: "0 \<le> d \<Longrightarrow> 0 \<le> positive_or x d"
  by (simp add: positive_or_def)

lemma session_start_bounded:
  assumes "session_start s"
  shows "bounded s"
proof -
  from assms obtain writer env options where n: "NewStreamSession writer env options = Inr s" by (auto simp: session_start_def)
  obtain r c where m: "go_for add_hook (so_CustomTools options) defaultCustomTools = (r, c)" by fastforce
  have "ss_aggregateBytes s = 0 \<and> ss_textBytes s = 0 \<and> ss_outputBytes s = 0 \<and> ss_reasoning s = []
      \<and> ss_maxAggregateBytes s = positive_or (so_MaxAggregateBytes options) session_MaxAggregateBytes
      \<and> ss_maxOutputBytes s = positive_or (so_MaxOutputBytes options) DefaultMaxOutputBytes
      \<and> ss_maxTextBytes s = positive_or (so_MaxTextBytes options) DefaultMaxTextBytes
      \<and> ss_maxReasoningBytes s = positive_or (so_MaxReasoningBytes options) DefaultMaxReasoningBytes"
    using n by (cases r) (auto simp: NewStreamSession_def Let_def m split: if_splits)
  then show ?thesis by (simp add: bounded_def positive_or_nonneg session_MaxAggregateBytes_def bridge_limits)
qed

interpretation session_bounds: invariant_system session_start session_step bounded
  by unfold_locales
    (auto simp: session_start_bounded session_Start_def session_Handle_def dispatch_bounded elim!: session_stepE split: option.split)

text \<open>
  C39: In every state a session can reach, the aggregate budget is respected and the text, the output and the
  reasoning it has counted are within their limits.
\<close>

theorem session_bounded:
  assumes "reachable session_start session_step s"
  shows "0 \<le> ss_aggregateBytes s \<and> ss_aggregateBytes s \<le> ss_maxAggregateBytes s \<and> ss_textBytes s \<le> ss_maxTextBytes s
    \<and> ss_outputBytes s \<le> ss_maxOutputBytes s \<and> len (ss_reasoning s) \<le> ss_maxReasoningBytes s"
  using session_bounds.inv_reachable [OF assms] by (simp add: bounded_def)

end
