(* ===== verification/Session_Samples.thy ===== *)
theory Session_Samples
  imports Session_Bounds
begin

text \<open>
  Concrete sessions: a request answered with a text and a function call, and a session whose aggregate
  budget ends while a tool call is being announced.
\<close>

section \<open>A sample session\<close>

definition sample_env :: StreamEnv where
  "sample_env = \<lparr>en_id = (\<lambda>k p i. p @ ''_'' @ itoa i), en_now = (\<lambda>k. 2000000000),
     en_write = (\<lambda>k. \<lparr>wa_contextErr = False, wa_deadlineErr = False, wa_written = None, wa_writeErr = False, wa_flushErr = False\<rparr>)\<rparr>"

definition sample_writer :: ResponseWriter where
  "sample_writer = \<lparr>rw_Header = [], rw_status = [], rw_frames = [], rw_tail = []\<rparr>"

definition session_options :: "int \<Rightarrow> StreamSessionOptions" where
  "session_options maxAggregate = \<lparr>so_ResponseID = ''resp_1'', so_CreatedAt = 1000000000, so_Model = ''m'',
     so_MaxAggregateBytes = maxAggregate, so_MaxToolCallArgumentBytes = 0, so_MaxOutputBytes = 0, so_MaxTextBytes = 0,
     so_MaxReasoningBytes = 0, so_WriteTimeout = 0, so_CustomTools = []\<rparr>"

definition fresh_session :: "int \<Rightarrow> StreamSession" where
  "fresh_session maxAggregate =
     \<lparr>ss_ResponseID = ''resp_1'', ss_CreatedAt = 1000000000, ss_Model = ''m'', ss_SequenceNumber = 0, ss_NextOutputIndex = 0,
      ss_TerminalEmitted = False, ss_writer = sample_writer, ss_env = sample_env, ss_tick = 2, ss_customTools = defaultCustomTools,
      ss_started = False, ss_headersSent = False, ss_writeFailure = None, ss_downstreamDone = False, ss_terminalAt = zero_time,
      ss_aggregateBytes = 0, ss_maxAggregateBytes = maxAggregate, ss_maxToolCallArgumentBytes = DefaultMaxToolCallArgumentBytes,
      ss_maxOutputBytes = DefaultMaxOutputBytes, ss_maxTextBytes = DefaultMaxTextBytes,
      ss_maxReasoningBytes = DefaultMaxReasoningBytes, ss_writeTimeout = 0, ss_reasoning = [], ss_textBytes = 0,
      ss_outputBytes = 0, ss_items = [], ss_itemOrder = [], ss_usage = None\<rparr>"

lemma fresh_session_made: "0 < n \<Longrightarrow> NewStreamSession sample_writer sample_env (session_options n) = Inr (fresh_session n)"
proof -
  have "validStreamValue ''resp_1'' 128" "validOptionalStreamValue ''m'' 256" by code_simp+
  moreover have "(1000000000 :: int) \<noteq> zero_time" by (simp add: zero_time_def)
  ultimately show "0 < n \<Longrightarrow> ?thesis"
    by (simp add: NewStreamSession_def session_options_def fresh_session_def positive_or_def)
qed

lemma fresh_session_start: "0 < n \<Longrightarrow> session_start (fresh_session n)"
  unfolding session_start_def by (intro exI conjI, rule fresh_session_made) (simp_all add: sample_writer_def session_options_def)

definition session_run :: "StreamEvent list \<Rightarrow> StreamSession \<Rightarrow> StreamSession" where
  "session_run = fold (\<lambda>event s. snd (session_Handle (Some event) s))"

lemma session_run_reachable: "reachable session_start session_step s \<Longrightarrow> reachable session_start session_step (session_run events s)"
  by (induction events arbitrary: s) (auto simp: session_run_def intro: reach_step step_Handle)

definition sample_events :: "StreamEvent list" where
  "sample_events =
     [TextDelta 0 ''hel'', TextDelta 0 ''lo'', ToolCallStarted (ToolCallKey 0 0) [] ''call_1'' ''ls'',
      ToolCallArgumentsDelta (ToolCallKey 0 0) ''{'', ToolCallArgumentsDelta (ToolCallKey 0 0) ''}'',
      ToolCallCompleted (ToolCallKey 0 0) ToolFunction ''call_1'' ''ls'' ''{}'']"

abbreviation sample_session :: StreamSession where
  "sample_session \<equiv> session_run sample_events (fresh_session 1000)"

lemma sample_session_reachable: "reachable session_start session_step sample_session"
  by (rule session_run_reachable, rule reach_start, rule fresh_session_start) simp

lemma sample_frames:
  "map ev_type (frames (snd (session_Handle (Some (Completed ''stop'')) sample_session))) =
    [''response.created'', ''response.in_progress'', ''response.output_item.added'', ''response.content_part.added'',
     ''response.output_text.delta'', ''response.output_text.delta'', ''response.output_item.added'',
     ''response.function_call_arguments.delta'', ''response.function_call_arguments.delta'',
     ''response.function_call_arguments.done'', ''response.output_item.done'', ''response.output_text.done'',
     ''response.content_part.done'', ''response.output_item.done'', ''response.completed'']"
  by code_simp


section \<open>Witnesses\<close>

theorem session_wire_witness:
  "map (field ''sequence_number'') (frames sample_session) = map (\<lambda>i. Some (JInt (int i))) [0..<length (frames sample_session)]
    \<and> rw_status (ss_writer sample_session) \<in> {[], [200]}"
  using session_wire [OF sample_session_reachable] by blast

lemma sample_finished:
  "case session_Handle (Some (Completed ''stop'')) sample_session of (r, t) \<Rightarrow>
     r = Inr () \<and> (\<exists>p \<in> set (frames t). ev_type p = ''response.output_text.done'' \<and> field ''text'' p = Some (JStr ''hello''))"
  by code_simp

theorem session_text_done_witness:
  "\<exists>p \<in> set (frames (snd (session_Handle (Some (Completed ''stop'')) sample_session))). \<exists>index.
     field ''output_index'' p = Some index
     \<and> sent_text index (frames (snd (session_Handle (Some (Completed ''stop'')) sample_session))) = ''hello''"
proof -
  let ?t = "snd (session_Handle (Some (Completed ''stop'')) sample_session)"
  obtain p where p: "p \<in> set (frames ?t)" "ev_type p = ''response.output_text.done''" "field ''text'' p = Some (JStr ''hello'')"
    using sample_finished by (auto split: prod.splits)
  have "reachable session_start session_step ?t" by (rule reach_step [OF sample_session_reachable step_Handle])
  from session_text_done [OF this p(1,2)] show ?thesis using p by (intro bexI [OF _ p(1)]) auto
qed

theorem session_closes_witness:
  "snd (session_Handle (Some (TextDelta 0 ''x'')) (snd (session_Handle (Some (Completed ''stop'')) sample_session)))
    = snd (session_Handle (Some (Completed ''stop'')) sample_session)"
proof -
  let ?t = "snd (session_Handle (Some (Completed ''stop'')) sample_session)"
  have "session_step\<^sup>*\<^sup>* ?t (snd (session_Handle (Some (TextDelta 0 ''x'')) ?t))" by (rule r_into_rtranclp, rule step_Handle)
  from session_closes [OF sample_session_reachable _ this] show ?thesis by simp
qed

theorem session_completes_witness:
  "ev_type (last (frames (snd (session_Handle (Some (Completed ''stop'')) sample_session)))) = ''response.completed''"
proof -
  obtain t where t: "session_Handle (Some (Completed ''stop'')) sample_session = (Inr (), t)"
    using sample_finished by (auto split: prod.splits)
  from session_completes [OF sample_session_reachable t] show ?thesis by (simp add: t)
qed

theorem session_bounded_witness:
  "ss_aggregateBytes sample_session \<le> ss_maxAggregateBytes sample_session"
  using session_bounded [OF sample_session_reachable] by blast

section \<open>A budget that ends while a tool call is announced\<close>

text \<open>
  The item is created before its name is reserved. When that reservation is refused the item is reported as
  finished, although it was never announced as added.
\<close>

definition cut_session :: StreamSession where
  "cut_session = session_run [ToolCallStarted (ToolCallKey 0 0) [] ''call_1'' ''a_long_tool_name''] (fresh_session 50)"

lemma item_done_without_added:
  "map ev_type (frames cut_session) =
     [''response.created'', ''response.in_progress'', ''response.function_call_arguments.done'', ''response.output_item.done'',
      ''response.failed'']"
  by code_simp

end
