(* ===== verification/Map_Request.thy ===== *)
theory Map_Request
  imports Provider_Stream Tool_Results Continuation_Inv
begin

text \<open>
  \<open>internal/opencodego/request.go\<close>: the translation of a bridge request into the provider's Chat
  Completions request, the replay of a continuation, and the names of models and functions.
\<close>

section \<open>Provider request (types.go)\<close>

definition DefaultModel :: gostring where "DefaultModel = ''deepseek-v4-flash''"
definition DeepSeekV4ProModel :: gostring where "DeepSeekV4ProModel = ''deepseek-v4-pro''"
definition DeepSeekV4FlashFreeModel :: gostring where "DeepSeekV4FlashFreeModel = ''deepseek-v4-flash-free''"

type_synonym ThinkingMode = gostring

definition ThinkingDefault :: ThinkingMode where "ThinkingDefault = []"
definition ThinkingEnabled :: ThinkingMode where "ThinkingEnabled = ''enabled''"
definition ThinkingDisabled :: ThinkingMode where "ThinkingDisabled = ''disabled''"

lemmas thinking_modes [simp] = ThinkingDefault_def ThinkingEnabled_def ThinkingDisabled_def

record FunctionDefinition =
  fd_Name :: gostring
  fd_Description :: gostring
  fd_Parameters :: gobytes
  fd_Strict :: "bool option"

record ChatCompletionTool =
  wt_Type :: gostring
  wt_Function :: FunctionDefinition

record ProviderToolChoice =
  ptc_String :: gostring
  ptc_Type :: gostring
  ptc_Function :: gostring \<comment> \<open>the name of \<open>ToolChoiceFunction\<close>\<close>

text \<open>Thinking options and response format are structs of their type alone; the request asks for no stream options.\<close>

record ChatCompletionRequest =
  cq_Model :: gostring
  cq_Messages :: "ChatMessage list"
  cq_Tools :: "ChatCompletionTool list"
  cq_ToolChoice :: "ProviderToolChoice option"
  cq_ParallelToolCalls :: bool
  cq_Stream :: bool
  cq_Thinking :: "gostring option"
  cq_ReasoningEffort :: gostring
  cq_ResponseFormat :: "gostring option"

section \<open>Names\<close>

definition word_byte :: "gostring \<Rightarrow> char \<Rightarrow> bool" where
  "word_byte extra c \<longleftrightarrow> (97 \<le> byte c \<and> byte c \<le> 122) \<or> (65 \<le> byte c \<and> byte c \<le> 90) \<or> (48 \<le> byte c \<and> byte c \<le> 57) \<or> c \<in> set extra"

definition validFunctionName :: "gostring \<Rightarrow> bool" where
  "validFunctionName name \<longleftrightarrow>
     \<not> (name = [] \<or> len name > 64 \<or> \<not> utf8_Valid name) \<and> list_all (word_byte ''_-'') name"

definition validTaggedLabel :: "gostring \<Rightarrow> bool" where
  "validTaggedLabel label \<longleftrightarrow>
     \<not> (label = [] \<or> len label > 256 \<or> \<not> utf8_Valid label) \<and> list_all (word_byte ''._-'') label"

definition isSupportedProviderModel :: "gostring \<Rightarrow> bool" where
  "isSupportedProviderModel model \<longleftrightarrow> model \<in> set [DefaultModel, DeepSeekV4ProModel, DeepSeekV4FlashFreeModel]"

text \<open>The runes of a valid string, each as the bytes that encode it; \<open>unicode.IsControl\<close> is U+0000 to U+001F and U+007F to U+009F.\<close>

function runes :: "gostring \<Rightarrow> gostring list" where
  "runes s =
     (if s = [] then []
      else let n = (if rune_width s = 0 then 1 else rune_width s) in take n s # runes (drop n s))"
  by pat_completeness auto
termination
  by (relation "measure length") (auto simp: Let_def)

declare runes.simps [simp del]

definition control_rune :: "gostring \<Rightarrow> bool" where
  "control_rune r \<longleftrightarrow> (case r of
       [c] \<Rightarrow> byte c < 0x20 \<or> byte c = 0x7F
     | [c, d] \<Rightarrow> c = CHR 0xC2 \<and> 0x80 \<le> byte d \<and> byte d \<le> 0x9F
     | _ \<Rightarrow> False)"

definition validateProviderModel :: "gostring \<Rightarrow> ErrorCode option" where
  "validateProviderModel model =
     (if TrimSpace model = [] \<or> len model > 256 \<or> \<not> utf8_Valid model then Some ErrorInvalidConfiguration
      else if list_ex (\<lambda>r. r \<in> set space_encodings \<or> control_rune r) (runes model) then Some ErrorInvalidConfiguration
      else if \<not> isSupportedProviderModel model then Some ErrorInvalidConfiguration
      else None)"

definition ValidateModel :: "gostring \<Rightarrow> ErrorCode option" where
  "ValidateModel model = validateProviderModel model"

type_synonym ProviderTag = gostring

definition ProviderTagGo :: ProviderTag where "ProviderTagGo = ''go''"
definition ProviderTagZen :: ProviderTag where "ProviderTagZen = ''zen''"

definition TaggedModel :: "gostring \<Rightarrow> ProviderTag \<Rightarrow> gostring" where
  "TaggedModel model tag = model @ '' ('' @ tag @ '')''"

text \<open>\<open>strings.LastIndex\<close>: the last position at which the separator starts.\<close>

fun LastIndex :: "gostring \<Rightarrow> gostring \<Rightarrow> nat option" where
  "LastIndex [] sep = (if sep = [] then Some 0 else None)"
| "LastIndex (c # s) sep =
     (case LastIndex s sep of
        Some i \<Rightarrow> Some (Suc i)
      | None \<Rightarrow> if HasPrefix (c # s) sep then Some 0 else None)"

definition SplitTaggedModel :: "gostring \<Rightarrow> (gostring \<times> ProviderTag) option" where
  "SplitTaggedModel model =
     (case LastIndex model '' ('' of
        None \<Rightarrow> None
      | Some index \<Rightarrow>
          if \<not> HasSuffix model '')'' then None
          else
            let label = take index model; tag = take (length model - 1 - (index + 2)) (drop (index + 2) model) in
            if \<not> validTaggedLabel label \<or> (tag \<noteq> ProviderTagGo \<and> tag \<noteq> ProviderTagZen) then None
            else Some (label, tag))"

section \<open>Messages and tools\<close>

definition isJSONObject :: "gobytes \<Rightarrow> bool" where
  "isJSONObject raw \<longleftrightarrow> (case parse_json raw of Some (JObj _) \<Rightarrow> True | _ \<Rightarrow> False)"

definition mapRole :: "Role \<Rightarrow> ErrorCode + gostring" where
  "mapRole role =
     (if role = RoleSystem \<or> role = RoleDeveloper then Inr ''system''
      else if role = RoleUser then Inr ''user''
      else if role = RoleAssistant then Inr ''assistant''
      else Inl ErrorInvalidRequest)"

fun join_lines :: "gostring list \<Rightarrow> gostring" where
  "join_lines [] = []"
| "join_lines [v] = v"
| "join_lines (v # w # vs) = v @ [CHR 0x0A] @ join_lines (w # vs)"

text \<open>Text is the only kind of content part, so the failing branch of \<open>messageContent\<close> cannot be taken.\<close>

definition messageContent :: "ContentPart list \<Rightarrow> gostring" where
  "messageContent parts = join_lines (map (\<lambda>p. case p of TextContent value \<Rightarrow> value) parts)"

definition chat_message :: "gostring \<Rightarrow> gostring option \<Rightarrow> gostring option \<Rightarrow> ToolCall list \<Rightarrow> gostring \<Rightarrow> ChatMessage" where
  "chat_message role content reasoning calls callID =
     \<lparr>cm_Role = role, cm_Content = content, cm_ReasoningContent = reasoning, cm_ToolCalls = calls, cm_ToolCallID = callID\<rparr>"

definition mapToolOutput :: "gostring \<Rightarrow> gostring \<Rightarrow> ErrorCode + ChatMessage" where
  "mapToolOutput callID output =
     (if TrimSpace callID = [] then Inl ErrorInvalidRequest
      else Inr (chat_message ''tool'' (Some output) None [] callID))"

definition mapInputItem :: "InputItem \<Rightarrow> ErrorCode + ChatMessage" where
  "mapInputItem item =
     (case item of
        Message _ role content \<Rightarrow>
          (case mapRole role of
             Inl e \<Rightarrow> Inl e
           | Inr role \<Rightarrow> Inr (chat_message role (Some (messageContent content)) None [] []))
      | FunctionCallOutput callID output _ _ \<Rightarrow> mapToolOutput callID output
      | CustomToolCallOutput callID output _ _ \<Rightarrow> mapToolOutput callID output
      | _ \<Rightarrow> Inl ErrorInvalidRequest)"

fun isToolCallInput :: "InputItem \<Rightarrow> bool" where
  "isToolCallInput (FunctionCall _ _ _ _ _) = True"
| "isToolCallInput (CustomToolCall _ _ _ _ _) = True"
| "isToolCallInput _ = False"

definition function_call :: "gostring \<Rightarrow> gostring \<Rightarrow> gostring \<Rightarrow> ToolCall" where
  "function_call callID name arguments =
     \<lparr>tc_Index = None, tc_ID = callID, tc_Type = ''function'', tc_Function = \<lparr>tf_Name = name, tf_Arguments = arguments\<rparr>\<rparr>"

definition named_call :: "gostring \<Rightarrow> gostring \<Rightarrow> gostring \<Rightarrow> ErrorCode + ToolCall" where
  "named_call callID name arguments =
     (if TrimSpace callID = [] \<or> \<not> validFunctionName name then Inl ErrorInvalidRequest
      else Inr (function_call callID name arguments))"

definition mapToolCallInput :: "ToolRegistry option \<Rightarrow> InputItem \<Rightarrow> ErrorCode + ToolCall" where
  "mapToolCallInput registry item =
     (case item of
        FunctionCall _ callID name arguments _ \<Rightarrow> named_call callID name arguments
      | CustomToolCall _ callID name input _ \<Rightarrow>
          (case Inbound registry name of
             None \<Rightarrow> Inl ErrorInvalidRequest
           | Some registration \<Rightarrow>
               if validateCustomToolRegistration registration \<noteq> None then Inl ErrorInvalidRequest
               else (case wrapApplyPatchInput input of
                       Inl e \<Rightarrow> Inl e
                     | Inr wrapped \<Rightarrow> named_call callID (reg_UpstreamName registration) wrapped))
      | _ \<Rightarrow> Inl ErrorInvalidRequest)"

function mapInputItems :: "ToolRegistry option \<Rightarrow> InputItem list \<Rightarrow> ErrorCode + ChatMessage list" where
  "mapInputItems registry [] = Inr []"
| "mapInputItems registry (item # items) =
     (if isToolCallInput item then
        (case map_all (mapToolCallInput registry) (takeWhile isToolCallInput (item # items)) of
           Inl e \<Rightarrow> Inl e
         | Inr calls \<Rightarrow>
             (case mapInputItems registry (dropWhile isToolCallInput (item # items)) of
                Inl e \<Rightarrow> Inl e
              | Inr messages \<Rightarrow> Inr (chat_message ''assistant'' None None calls [] # messages)))
      else
        (case mapInputItem item of
           Inl e \<Rightarrow> Inl e
         | Inr message \<Rightarrow> (case mapInputItems registry items of Inl e \<Rightarrow> Inl e | Inr messages \<Rightarrow> Inr (message # messages))))"
  by pat_completeness auto
termination
  by (relation "measure (length \<circ> snd)") (auto simp: le_imp_less_Suc length_dropWhile_le)

declare mapInputItems.simps(2) [simp del]

definition applyPatchTool :: ChatCompletionTool where
  "applyPatchTool =
     \<lparr>wt_Type = ''function'', wt_Function = \<lparr>fd_Name = ApplyPatchUpstreamName,
        fd_Description = ''Apply the exact patch text supplied by Codex to the current workspace.'',
        fd_Parameters = applyPatchWrapperSchema, fd_Strict = Some True\<rparr>\<rparr>"

definition mapTool :: "Tool \<Rightarrow> ErrorCode + ChatCompletionTool" where
  "mapTool tool =
     (case tool of
        FunctionTool name description parameters strict \<Rightarrow>
          if \<not> validFunctionName name then Inl ErrorInvalidRequest
          else if parameters = [] \<or> parse_json parameters = None \<or> \<not> isJSONObject parameters then Inl ErrorInvalidRequest
          else Inr \<lparr>wt_Type = ''function'', wt_Function = \<lparr>fd_Name = name, fd_Description = description,
                 fd_Parameters = parameters, fd_Strict = strict\<rparr>\<rparr>
      | _ \<Rightarrow> Inl ErrorUnsupportedTool)"

definition mapToolChoice :: "ToolChoice \<Rightarrow> ChatCompletionTool list \<Rightarrow> ThinkingMode \<Rightarrow> ErrorCode + ProviderToolChoice option" where
  "mapToolChoice choice tools mode =
     (let named = (\<lambda>s. \<lparr>ptc_String = s, ptc_Type = [], ptc_Function = []\<rparr>) in
      if tcho_Kind choice = ToolChoiceUnset then Inr None
      else if tcho_Kind choice = ToolChoiceAuto then
        (if mode = ThinkingEnabled then Inr None
         else if tools = [] then Inr None
         else Inr (Some (named ''auto'')))
      else if tcho_Kind choice = ToolChoiceNone then Inr (Some (named ''none''))
      else Inl ErrorUnsupportedToolChoice)"

definition mapReasoningEffort :: "gostring \<Rightarrow> ErrorCode + gostring" where
  "mapReasoningEffort effort =
     (if effort \<notin> set [''low'', ''medium'', ''high'', ''xhigh'', ''max''] then Inl ErrorInvalidRequest
      else if effort \<in> set [''low'', ''medium'', ''high''] then Inr ''high''
      else if effort \<in> set [''xhigh'', ''max''] then Inr ''max''
      else Inl ErrorInvalidRequest)"

definition mapResponseFormat :: "TextFormatKind \<Rightarrow> ErrorCode + gostring option" where
  "mapResponseFormat kind =
     (if kind = [] \<or> kind = TextFormatText then Inr None
      else if kind = TextFormatJSONObject then Inr (Some ''json_object'')
      else Inl ErrorUnsupportedResponseFormat)"

section \<open>Continuations\<close>

text \<open>What a request carries: an adapter continuation, with its lease, or a value of another type.\<close>

datatype continuation_value = ContinuationRequest "ContinuationLease option" | ForeignContinuation

definition NewContinuationRequest :: "ContinuationLease option \<Rightarrow> continuation_value option" where
  "NewContinuationRequest lease = (case lease of None \<Rightarrow> None | Some l \<Rightarrow> Some (ContinuationRequest (Some l)))"

text \<open>The tables of the replay; \<open>callNames\<close> names a custom call by its Codex name.\<close>

definition callKinds :: "PendingTurn \<Rightarrow> (gostring, ToolKind) gomap" where
  "callKinds turn = fold (\<lambda>call. map_put (uc_CallID call) (uc_Kind call)) (pt_ToolCalls turn) []"

definition callNames :: "PendingTurn \<Rightarrow> (gostring, gostring) gomap" where
  "callNames turn =
     fold (\<lambda>call. map_put (uc_CallID call) (if uc_Kind call = ToolCustom then ApplyPatchToolName else uc_Name call)) (pt_ToolCalls turn) []"

definition callArguments :: "PendingTurn \<Rightarrow> (gostring, gostring) gomap" where
  "callArguments turn = fold (\<lambda>call. map_put (uc_CallID call) (uc_Arguments call)) (pt_ToolCalls turn) []"

definition providerIDs :: "PendingTurn \<Rightarrow> (gostring, gostring) gomap" where
  "providerIDs turn = fold (\<lambda>call. map_put (uc_CallID call) (uc_ProviderCallID call)) (pt_ToolCalls turn) []"

text \<open>Reading a missing key of a string map gives the empty string.\<close>

definition map_get :: "(gostring, gostring) gomap \<Rightarrow> gostring \<Rightarrow> gostring" where
  "map_get m k = (case map_of m k of None \<Rightarrow> [] | Some v \<Rightarrow> v)"

definition same_patch :: "gostring \<Rightarrow> gostring \<Rightarrow> bool" where
  "same_patch stored incoming \<longleftrightarrow>
     (case (unwrapApplyPatchArguments stored, unwrapApplyPatchArguments incoming) of
        (Inr storedInput, Inr incomingInput) \<Rightarrow> storedInput = incomingInput
      | _ \<Rightarrow> False)"

definition validateContinuationCall ::
  "PendingTurn \<Rightarrow> gostring \<Rightarrow> ToolKind \<Rightarrow> gostring \<Rightarrow> gostring \<Rightarrow> gostring list \<Rightarrow> (ErrorCode, unit, gostring list) go" where
  "validateContinuationCall turn callID kind name arguments seen =
     (case map_of (callKinds turn) callID of
        None \<Rightarrow> (Inl ErrorInvalidRequest, seen)
      | Some wantKind \<Rightarrow>
          if wantKind \<noteq> kind \<or> map_get (callNames turn) callID \<noteq> name then (Inl ErrorInvalidRequest, seen)
          else if kind = ToolCustom \<and> \<not> same_patch (map_get (callArguments turn) callID) arguments then (Inl ErrorInvalidRequest, seen)
          else if kind \<noteq> ToolCustom \<and> map_get (callArguments turn) callID \<noteq> arguments then (Inl ErrorInvalidRequest, seen)
          else if callID \<in> set seen then (Inl ErrorInvalidRequest, seen)
          else (Inr (), callID # seen))"

definition validateContinuationResult ::
  "PendingTurn \<Rightarrow> gostring \<Rightarrow> ToolKind \<Rightarrow> gostring list \<Rightarrow> (ErrorCode, unit, gostring list) go" where
  "validateContinuationResult turn callID kind seen =
     (case map_of (callKinds turn) callID of
        None \<Rightarrow> (Inl ErrorInvalidRequest, seen)
      | Some wantKind \<Rightarrow>
          if wantKind \<noteq> kind then (Inl ErrorInvalidRequest, seen)
          else if callID \<in> set seen then (Inl ErrorInvalidRequest, seen)
          else (Inr (), callID # seen))"

definition replayed_call :: "PendingTurn \<Rightarrow> UpstreamToolCall \<Rightarrow> ToolCall" where
  "replayed_call turn call =
     (let mapped = map_get (providerIDs turn) (uc_CallID call) in
      function_call (if mapped \<noteq> [] then mapped else uc_ProviderCallID call) (uc_Name call) (uc_Arguments call))"

definition continuationMessages :: "PendingTurn \<Rightarrow> ToolResult list \<Rightarrow> ChatMessage list" where
  "continuationMessages turn results =
     chat_message ''assistant'' (Some (pt_AssistantContent turn)) (Some (pt_ReasoningContent turn))
       (map (replayed_call turn) (pt_ToolCalls turn)) []
     # map (\<lambda>result. chat_message ''tool'' (Some (tr_Output result)) None [] (map_get (providerIDs turn) (tr_CallID result))) results"

record replay =
  rp_seenCalls :: "gostring list"
  rp_seenResults :: "gostring list"
  rp_messages :: "ChatMessage list"
  rp_replayed :: bool
  rp_localCallsPresent :: bool

type_synonym 'a replay_op = "replay \<Rightarrow> (ErrorCode, 'a, replay) go"

definition replay_once :: "PendingTurn \<Rightarrow> ToolResult list \<Rightarrow> unit replay_op" where
  "replay_once turn results s =
     (Inr (), if rp_replayed s then s
              else s\<lparr>rp_messages := rp_messages s @ continuationMessages turn results, rp_replayed := True\<rparr>)"

definition replay_call :: "PendingTurn \<Rightarrow> ToolResult list \<Rightarrow> gostring \<Rightarrow> ToolKind \<Rightarrow> gostring \<Rightarrow> gostring \<Rightarrow> unit replay_op" where
  "replay_call turn results callID kind name arguments s =
     (case validateContinuationCall turn callID kind name arguments (rp_seenCalls s) of
        (Inl e, seen) \<Rightarrow> (Inl e, s\<lparr>rp_seenCalls := seen\<rparr>)
      | (Inr _, seen) \<Rightarrow> replay_once turn results (s\<lparr>rp_seenCalls := seen\<rparr>))"

definition replay_result :: "PendingTurn \<Rightarrow> ToolResult list \<Rightarrow> gostring \<Rightarrow> ToolKind \<Rightarrow> unit replay_op" where
  "replay_result turn results callID kind s =
     (case validateContinuationResult turn callID kind (rp_seenResults s) of
        (Inl e, seen) \<Rightarrow> (Inl e, s\<lparr>rp_seenResults := seen\<rparr>)
      | (Inr _, seen) \<Rightarrow> replay_once turn results (s\<lparr>rp_seenResults := seen\<rparr>))"

definition replay_item :: "PendingTurn \<Rightarrow> ToolResult list \<Rightarrow> InputItem \<Rightarrow> unit replay_op" where
  "replay_item turn results item s =
     (case item of
        FunctionCall _ callID name arguments _ \<Rightarrow>
          replay_call turn results callID ToolFunction name arguments (s\<lparr>rp_localCallsPresent := True\<rparr>)
      | CustomToolCall _ callID name input _ \<Rightarrow>
          (case wrapApplyPatchInput input of
             Inl _ \<Rightarrow> (Inl ErrorInvalidRequest, s\<lparr>rp_localCallsPresent := True\<rparr>)
           | Inr wrapped \<Rightarrow> replay_call turn results callID ToolCustom name wrapped (s\<lparr>rp_localCallsPresent := True\<rparr>))
      | FunctionCallOutput callID _ _ _ \<Rightarrow> replay_result turn results callID ToolFunction s
      | CustomToolCallOutput callID _ _ _ \<Rightarrow> replay_result turn results callID ToolCustom s
      | _ \<Rightarrow>
          (case mapInputItem item of
             Inl e \<Rightarrow> (Inl e, s)
           | Inr message \<Rightarrow> (Inr (), s\<lparr>rp_messages := rp_messages s @ [message]\<rparr>)))"

definition mapContinuationInputItems :: "InputItem list \<Rightarrow> ContinuationLease \<Rightarrow> gostring \<Rightarrow> ErrorCode + ChatMessage list" where
  "mapContinuationInputItems items lease model =
     (let turn = clonePendingTurn (cl_turn lease); results = cl_results lease in
      if pt_Provider turn \<noteq> ProviderName \<or> (pt_Model turn \<noteq> [] \<and> pt_Model turn \<noteq> model) \<or> pt_ToolCalls turn = []
      then Inl ErrorInvalidRequest
      else if length results \<noteq> length (pt_ToolCalls turn) then Inl ErrorInvalidRequest
      else
        (case go_for (replay_item turn results) items
               \<lparr>rp_seenCalls = [], rp_seenResults = [], rp_messages = [], rp_replayed = False, rp_localCallsPresent = False\<rparr> of
           (Inl e, _) \<Rightarrow> Inl e
         | (Inr _, s) \<Rightarrow>
             if \<not> rp_replayed s \<or> (rp_localCallsPresent s \<and> length (rp_seenCalls s) \<noteq> length (pt_ToolCalls turn))
               \<or> length (rp_seenResults s) \<noteq> length results
             then Inl ErrorInvalidRequest
             else Inr (rp_messages s)))"

section \<open>The request\<close>

text \<open>
  \<open>toolNames\<close> holds the names of the tools mapped so far: the names of \<open>result.Tools\<close>, to which every
  round that stores a name appends the tool that carries it.
\<close>

definition mapped_names :: "ChatCompletionTool list \<Rightarrow> gostring list" where
  "mapped_names tools = map (fd_Name \<circ> wt_Function) tools"

definition map_declared_tool :: "ToolRegistry option \<Rightarrow> Tool \<Rightarrow> ChatCompletionTool list \<Rightarrow> (ErrorCode, unit, ChatCompletionTool list) go" where
  "map_declared_tool registry tool tools =
     (case customToolDeclaration tool registry of
        (True, Some e) \<Rightarrow> (Inl e, tools)
      | (True, None) \<Rightarrow> (Inr (), tools)
      | (False, _) \<Rightarrow>
          let deferred = (case tool of DeferredTool kind _ \<Rightarrow> Some kind | _ \<Rightarrow> None) in
          case Option.bind deferred ValidateCapturedDeferredTool of
            Some e \<Rightarrow> (Inl e, tools)
          | None \<Rightarrow>
              if deferred \<noteq> None \<and> registry \<noteq> None then (Inr (), tools)
              else (case mapTool tool of
                      Inl e \<Rightarrow> (Inl e, tools)
                    | Inr mapped \<Rightarrow>
                        if fd_Name (wt_Function mapped) \<in> set (mapped_names tools) then (Inl ErrorInvalidRequest, tools)
                        else (Inr (), tools @ [mapped])))"

definition map_registration :: "ToolRegistration \<Rightarrow> ChatCompletionTool list \<Rightarrow> (ErrorCode, unit, ChatCompletionTool list) go" where
  "map_registration registration tools =
     (if reg_Kind registration \<noteq> ToolCustom then (Inr (), tools)
      else case validateCustomToolRegistration registration of
          Some e \<Rightarrow> (Inl e, tools)
        | None \<Rightarrow>
            if reg_UpstreamName registration \<in> set (mapped_names tools) then (Inl ErrorInvalidRequest, tools)
            else (Inr (), tools @ [applyPatchTool]))"

definition map_tools :: "Tool list \<Rightarrow> ToolRegistry option \<Rightarrow> ErrorCode + ChatCompletionTool list" where
  "map_tools tools registry =
     (case go_bind (go_for (map_declared_tool registry) tools [])
             (\<lambda>_. go_for map_registration (Registrations registry)) of
        (Inl e, _) \<Rightarrow> Inl e
      | (Inr _, mapped) \<Rightarrow> Inr mapped)"

definition map_messages :: "continuation_value Request \<Rightarrow> ToolRegistry option \<Rightarrow> gostring \<Rightarrow> ErrorCode + ChatMessage list" where
  "map_messages request registry model =
     (case rq_Continuation request of
        Some (ContinuationRequest (Some lease)) \<Rightarrow> mapContinuationInputItems (rq_Input request) lease model
      | Some _ \<Rightarrow> Inl ErrorInvalidRequest
      | None \<Rightarrow> mapInputItems registry (rq_Input request))"

definition request_registry :: "continuation_value Request \<Rightarrow> ErrorCode + ToolRegistry option" where
  "request_registry request =
     (if rq_ToolRegistry request = None \<and> hasCustomToolDeclaration (rq_Tools request)
      then adapter_NewToolRegistry (rq_Tools request) (rq_ToolRegistry request)
      else Inr (rq_ToolRegistry request))"

definition check_mode :: "continuation_value Request \<Rightarrow> gostring \<Rightarrow> ThinkingMode \<Rightarrow> ErrorCode option" where
  "check_mode request model mode =
     (case validateProviderModel model of
        Some e \<Rightarrow> Some e
      | None \<Rightarrow>
          (case validateToolNameCollisions (rq_Tools request) of
             Some e \<Rightarrow> Some e
           | None \<Rightarrow>
               if \<not> gen_Stream (rq_Generation request) then Some ErrorInvalidRequest
               else if mode \<noteq> ThinkingEnabled \<and> mode \<noteq> ThinkingDisabled then Some ErrorInvalidConfiguration
               else if mode = ThinkingDisabled \<and> gen_Effort (rq_Generation request) \<noteq> [] then Some ErrorInvalidRequest
               else None))"

definition optional_effort :: "gostring \<Rightarrow> ErrorCode + gostring" where
  "optional_effort effort = (if effort \<noteq> [] then mapReasoningEffort effort else Inr [])"

definition MapRequestWithThinking :: "continuation_value Request \<Rightarrow> gostring \<Rightarrow> ThinkingMode \<Rightarrow> ErrorCode + ChatCompletionRequest" where
  "MapRequestWithThinking request model mode0 =
     (let mode = (if mode0 = ThinkingDefault then ThinkingEnabled else mode0);
          gen = rq_Generation request;
          system = (if rq_Instructions request \<noteq> [] then [chat_message ''system'' (Some (rq_Instructions request)) None [] []] else [])
      in case check_mode request model mode of
          Some e \<Rightarrow> Inl e
        | None \<Rightarrow>
            attempt (request_registry request) (\<lambda>registry.
            case ValidateProviderToolBudget (rq_Tools request) registry DefaultMaxProviderTools DefaultMaxFunctionSchemaBytes of
              Some e \<Rightarrow> Inl e
            | None \<Rightarrow>
                attempt (map_messages request registry model) (\<lambda>messages.
                if system @ messages = [] then Inl ErrorInvalidRequest
                else
                  attempt (map_tools (rq_Tools request) registry) (\<lambda>tools.
                  attempt (optional_effort (gen_Effort gen)) (\<lambda>effort.
                  attempt (mapToolChoice (rq_ToolChoice request) tools mode) (\<lambda>choice.
                  attempt (mapResponseFormat (fmt_Kind (gen_Format gen))) (\<lambda>format.
                    Inr \<lparr>cq_Model = model, cq_Messages = system @ messages, cq_Tools = tools, cq_ToolChoice = choice,
                      cq_ParallelToolCalls = gen_ParallelToolCalls gen, cq_Stream = True, cq_Thinking = Some mode,
                      cq_ReasoningEffort = effort, cq_ResponseFormat = format\<rparr>)))))))"

definition MapRequest :: "continuation_value Request \<Rightarrow> gostring \<Rightarrow> ErrorCode + ChatCompletionRequest" where
  "MapRequest request model = MapRequestWithThinking request model ThinkingEnabled"

end
