(* ===== verification/Map_Props.thy ===== *)
theory Map_Props
  imports Map_Request
begin

text \<open>
  Properties of the request mapping: tagged model names, the order of the input, the shape of what goes out, and
  custom tool calls of the history.
\<close>

section \<open>Tagged models\<close>

lemma LastIndex_append: "LastIndex t sep = Some i \<Longrightarrow> LastIndex (s @ t) sep = Some (length s + i)"
  by (induction s) simp_all

lemma LastIndex_SomeD: "LastIndex s sep = Some i \<Longrightarrow> i \<le> length s \<and> HasPrefix (drop i s) sep"
proof (induction s arbitrary: i)
  case (Cons c s)
  show ?case
  proof (cases "LastIndex s sep")
    case None
    with Cons.prems show ?thesis by (auto split: if_splits)
  next
    case (Some j)
    with Cons show ?thesis by auto
  qed
qed (auto simp: HasPrefix_def split: if_splits)

lemma last_bracket: "tag = ProviderTagGo \<or> tag = ProviderTagZen \<Longrightarrow> LastIndex ('' ('' @ tag @ '')'') '' ('' = Some 0"
  by (auto simp: ProviderTagGo_def ProviderTagZen_def HasPrefix_def)

text \<open>
  The tag of a model is parsed back exactly: a name splits into a label and a tag precisely when the
  label is valid, the tag is one of the two backends, and the name is the one \<open>TaggedModel\<close> makes of them.
\<close>

theorem SplitTaggedModel_iff:
  "SplitTaggedModel model = Some (label, tag) \<longleftrightarrow>
     model = TaggedModel label tag \<and> validTaggedLabel label \<and> (tag = ProviderTagGo \<or> tag = ProviderTagZen)"
proof
  assume split: "SplitTaggedModel model = Some (label, tag)"
  then obtain i where i: "LastIndex model '' ('' = Some i" "HasSuffix model '')''" "label = take i model"
      "tag = take (length model - 1 - (i + 2)) (drop (i + 2) model)" "validTaggedLabel label" "tag = ProviderTagGo \<or> tag = ProviderTagZen"
    by (auto simp: SplitTaggedModel_def Let_def split: option.splits if_splits)
  from LastIndex_SomeD [OF i(1)] have "take 2 (drop i model) = '' (''" by (simp add: HasPrefix_def numeral_2_eq_2)
  moreover have "drop i model = take 2 (drop i model) @ drop (i + 2) model" by (metis append_take_drop_id drop_drop add.commute)
  ultimately have m: "model = label @ '' ('' @ drop (i + 2) model" by (metis append_take_drop_id i(3))
  obtain u where u: "model = u @ '')''" using i(2) by (auto simp: HasSuffix_iff suffix_def)
  have "drop (i + 2) model \<noteq> []"
  proof
    assume "drop (i + 2) model = []"
    then have "model = label @ '' (''" using m by (simp only: append_Nil2)
    then have "label @ '' ('' = u @ '')''" using u by (simp only:)
    then have "last (label @ '' ('') = last (u @ '')'')" by (rule arg_cong)
    then show False by simp
  qed
  moreover have "last model = CHR '')''" by (simp add: u)
  ultimately have "last (drop (i + 2) model) = CHR '')''" by (metis last_drop drop_eq_Nil linorder_not_le)
  then have "drop (i + 2) model = butlast (drop (i + 2) model) @ '')''" using \<open>drop (i + 2) model \<noteq> []\<close>
    by (metis append_butlast_last_id)
  moreover have "tag = butlast (drop (i + 2) model)" unfolding i(4) by (simp add: butlast_conv_take)
  ultimately have "model = TaggedModel label tag" using m by (simp add: TaggedModel_def)
  with i show "model = TaggedModel label tag \<and> validTaggedLabel label \<and> (tag = ProviderTagGo \<or> tag = ProviderTagZen)" by blast
next
  assume a: "model = TaggedModel label tag \<and> validTaggedLabel label \<and> (tag = ProviderTagGo \<or> tag = ProviderTagZen)"
  then have m: "model = label @ '' ('' @ tag @ '')''" by (simp add: TaggedModel_def)
  have "LastIndex model '' ('' = Some (length label)"
    unfolding m using LastIndex_append [OF last_bracket, of tag label] a by simp
  moreover have "HasSuffix model '')''" unfolding m by (simp add: HasSuffix_iff suffix_def)
  ultimately show "SplitTaggedModel model = Some (label, tag)"
    using a unfolding SplitTaggedModel_def by (simp add: Let_def TaggedModel_def)
qed

section \<open>The order of the input\<close>

text \<open>
  The reference: every item becomes a call or a message of its own, in order. \<open>parts\<close> takes the messages of
  the code apart again.
\<close>

definition mapped_item :: "ToolRegistry option \<Rightarrow> InputItem \<Rightarrow> ErrorCode + (ToolCall + ChatMessage)" where
  "mapped_item registry item =
     (if isToolCallInput item then attempt (mapToolCallInput registry item) (\<lambda>c. Inr (Inl c))
      else attempt (mapInputItem item) (\<lambda>m. Inr (Inr m)))"

definition parts :: "ChatMessage \<Rightarrow> (ToolCall + ChatMessage) list" where
  "parts m = (if cm_ToolCalls m \<noteq> [] then map Inl (cm_ToolCalls m) else [Inr m])"

lemma mapped_calls:
  "list_all isToolCallInput items \<Longrightarrow>
     map_all (mapped_item registry) items = attempt (map_all (mapToolCallInput registry) items) (\<lambda>cs. Inr (map Inl cs))"
  by (induction items) (auto simp: mapped_item_def attempt_def split: sum.splits)

lemma mapInputItem_plain: "mapInputItem item = Inr m \<Longrightarrow> cm_ToolCalls m = []"
  by (auto simp: mapInputItem_def mapToolOutput_def chat_message_def split: InputItem.splits sum.splits if_splits)

text \<open>
  C27: The history goes to the provider in its order: \<open>mapInputItems\<close> fails with the error of the first item
  that cannot be translated, and otherwise its messages, taken apart, are the items translated one by one,
  with consecutive calls gathered in a single assistant message.
\<close>

theorem mapInputItems_order:
  "case mapInputItems registry items of
     Inl e \<Rightarrow> map_all (mapped_item registry) items = Inl e
   | Inr messages \<Rightarrow> map_all (mapped_item registry) items = Inr (concat (map parts messages))
       \<and> successively (\<lambda>a b. cm_ToolCalls a = [] \<or> cm_ToolCalls b = []) messages"
proof -
  have "(case mapInputItems registry items of
     Inl e \<Rightarrow> map_all (mapped_item registry) items = Inl e
   | Inr messages \<Rightarrow> map_all (mapped_item registry) items = Inr (concat (map parts messages))
       \<and> successively (\<lambda>a b. cm_ToolCalls a = [] \<or> cm_ToolCalls b = []) messages
       \<and> (items \<noteq> [] \<and> \<not> isToolCallInput (hd items) \<longrightarrow> messages \<noteq> [] \<and> cm_ToolCalls (hd messages) = [])
       \<and> (items = [] \<longrightarrow> messages = []))"
  proof (induction registry items rule: mapInputItems.induct)
    case (2 registry item items)
    show ?case
    proof (cases "isToolCallInput item")
      case True
      let ?run = "takeWhile isToolCallInput (item # items)" and ?rest = "dropWhile isToolCallInput (item # items)"
      have items: "item # items = ?run @ ?rest" by simp
      have run: "map_all (mapped_item registry) (item # items) = attempt (attempt (map_all (mapToolCallInput registry) ?run) (\<lambda>cs. Inr (map Inl cs)))
          (\<lambda>us. attempt (map_all (mapped_item registry) ?rest) (\<lambda>vs. Inr (us @ vs)))"
        by (subst items, subst map_all_append, subst mapped_calls) (auto simp: list_all_iff dest: set_takeWhileD)
      have rest: "?rest \<noteq> [] \<longrightarrow> \<not> isToolCallInput (hd ?rest)" by (simp add: hd_dropWhile)
      show ?thesis
      proof (cases "map_all (mapToolCallInput registry) ?run")
        case (Inl e)
        with run True show ?thesis by (simp add: mapInputItems.simps)
      next
        case (Inr calls)
        have "calls \<noteq> []" using Inr True by (auto simp: attempt_Inr_iff)
        show ?thesis
          using "2.IH"(1) [OF True Inr] run Inr True rest \<open>calls \<noteq> []\<close>
          by (cases "mapInputItems registry ?rest"; cases "?rest = []")
            (simp_all add: mapInputItems.simps parts_def chat_message_def successively_Cons)
      qed
    next
      case False
      then show ?thesis
        using "2.IH"(2) by (cases "mapInputItem item"; cases "mapInputItems registry items")
          (auto simp: mapInputItems.simps mapped_item_def parts_def mapInputItem_plain successively_Cons)
    qed
  qed simp
  then show ?thesis by (auto split: sum.splits)
qed

section \<open>The shape of a request\<close>

lemma map_declared_tool_ok:
  assumes "map_declared_tool registry tool ts = (Inr u, us)"
  shows "(us = ts \<and> tool_functions [tool] = []) \<or>
    (\<exists>t. us = ts @ [t] \<and> fd_Name (wt_Function t) \<notin> set (mapped_names ts) \<and> length (tool_functions [tool]) = 1
       \<and> validFunctionName (fd_Name (wt_Function t)) \<and> isJSONObject (fd_Parameters (wt_Function t)))"
  using assms
  by (cases tool)
    (auto simp: map_declared_tool_def customToolDeclaration_def mapTool_def Let_def split: option.splits sum.splits if_splits prod.splits)

definition tools_ok :: "ChatCompletionTool list \<Rightarrow> bool" where
  "tools_ok ts \<longleftrightarrow> distinct (mapped_names ts)
     \<and> list_all (\<lambda>t. validFunctionName (fd_Name (wt_Function t)) \<and> isJSONObject (fd_Parameters (wt_Function t))) ts"

lemma mapped_names_append: "mapped_names (ts @ us) = mapped_names ts @ mapped_names us"
  by (simp add: mapped_names_def)

lemma tool_functions_Cons: "tool_functions (t # ts) = tool_functions [t] @ tool_functions ts"
  by (cases t) simp_all

lemma map_declared_tools_ok:
  "go_for (map_declared_tool registry) tools ts = (Inr u, us) \<Longrightarrow> tools_ok ts \<Longrightarrow>
     tools_ok us \<and> length us = length ts + length (tool_functions tools)"
proof (induction tools arbitrary: ts)
  case (Cons tool tools)
  then obtain vs where v: "map_declared_tool registry tool ts = (Inr (), vs)" "go_for (map_declared_tool registry) tools vs = (Inr u, us)"
    by (auto simp: go_bind_Inr_iff)
  from map_declared_tool_ok [OF v(1)] Cons.prems(2) have "tools_ok vs \<and> length vs = length ts + length (tool_functions [tool])"
    by (auto simp: tools_ok_def mapped_names_append) (auto simp: mapped_names_def)
  with Cons.IH [OF v(2)] show ?case unfolding tool_functions_Cons [of tool tools] by simp
qed simp

lemma applyPatchTool_ok: "validFunctionName ApplyPatchUpstreamName" "isJSONObject applyPatchWrapperSchema"
  by code_simp+

lemma map_registrations_ok:
  "go_for map_registration rs ts = (Inr u, us) \<Longrightarrow> tools_ok ts \<Longrightarrow>
     tools_ok us \<and> length us = length ts + length (filter (\<lambda>r. reg_Kind r = ToolCustom) rs)"
proof (induction rs arbitrary: ts)
  case (Cons r rs)
  then obtain vs where v: "map_registration r ts = (Inr (), vs)" "go_for map_registration rs vs = (Inr u, us)"
    by (auto simp: go_bind_Inr_iff)
  have "tools_ok vs \<and> length vs = length ts + length (filter (\<lambda>r. reg_Kind r = ToolCustom) [r])"
    using v(1) Cons.prems(2) applyPatchTool_ok
    by (auto simp: map_registration_def validateCustomToolRegistration_def tools_ok_def mapped_names_def applyPatchTool_def
        split: if_splits option.splits)
  with Cons.IH [OF v(2)] show ?case by (cases "reg_Kind r = ToolCustom") simp_all
qed simp

lemma map_tools_ok:
  assumes "map_tools tools registry = Inr ts"
  shows "tools_ok ts \<and> length ts = length (tool_functions tools) + length (custom_registrations registry)"
proof -
  from assms obtain us where u: "go_for (map_declared_tool registry) tools [] = (Inr (), us)"
      "go_for map_registration (Registrations registry) us = (Inr (), ts)"
    by (auto simp: map_tools_def go_bind_Inr_iff split: prod.splits sum.splits)
  have "tools_ok us \<and> length us = length (tool_functions tools)"
    using map_declared_tools_ok [OF u(1)] by (simp add: tools_ok_def mapped_names_def)
  with map_registrations_ok [OF u(2)] show ?thesis by (simp add: custom_registrations_def)
qed

lemma MapRequest_parts:
  assumes "MapRequestWithThinking request model mode0 = Inr w"
  obtains mode registry messages where "mode = (if mode0 = ThinkingDefault then ThinkingEnabled else mode0)"
    "check_mode request model mode = None" "request_registry request = Inr registry"
    "ValidateProviderToolBudget (rq_Tools request) registry DefaultMaxProviderTools DefaultMaxFunctionSchemaBytes = None"
    "map_messages request registry model = Inr messages"
    "cq_Messages w = (if rq_Instructions request \<noteq> [] then [chat_message ''system'' (Some (rq_Instructions request)) None [] []] else []) @ messages"
    "cq_Messages w \<noteq> []" "map_tools (rq_Tools request) registry = Inr (cq_Tools w)"
    "optional_effort (gen_Effort (rq_Generation request)) = Inr (cq_ReasoningEffort w)"
    "mapToolChoice (rq_ToolChoice request) (cq_Tools w) mode = Inr (cq_ToolChoice w)"
    "mapResponseFormat (fmt_Kind (gen_Format (rq_Generation request))) = Inr (cq_ResponseFormat w)"
    "cq_Model w = model" "cq_Stream w" "cq_Thinking w = Some mode"
proof -
  define mode where "mode = (if mode0 = ThinkingDefault then ThinkingEnabled else mode0)"
  from assms show thesis
    unfolding MapRequestWithThinking_def Let_def mode_def [symmetric]
    by (auto simp del: thinking_modes split: option.splits if_splits simp: attempt_Inr_iff intro!: that [OF mode_def])
qed

text \<open>
  C12: A request that goes out names a supported model, streams, and has at least one message; its tools have
  distinct valid names and object schemas and are at most as many as the provider admits; reasoning effort is one
  of the two levels the provider knows and absent when thinking is off; a tool choice is only ever the plain
  string auto or none; the response format is text or a JSON object.
\<close>

theorem MapRequest_wellformed:
  assumes "MapRequestWithThinking request model mode = Inr w"
  shows "cq_Model w \<in> set [DefaultModel, DeepSeekV4ProModel, DeepSeekV4FlashFreeModel] \<and> cq_Stream w \<and> cq_Messages w \<noteq> []
    \<and> distinct (mapped_names (cq_Tools w)) \<and> len (cq_Tools w) \<le> DefaultMaxProviderTools
    \<and> list_all (\<lambda>t. validFunctionName (fd_Name (wt_Function t)) \<and> isJSONObject (fd_Parameters (wt_Function t))) (cq_Tools w)
    \<and> cq_Thinking w \<in> {Some ThinkingEnabled, Some ThinkingDisabled}
    \<and> cq_ReasoningEffort w \<in> set [[], ''high'', ''max''] \<and> (cq_Thinking w = Some ThinkingDisabled \<longrightarrow> cq_ReasoningEffort w = [])
    \<and> (\<forall>c. cq_ToolChoice w = Some c \<longrightarrow> ptc_String c \<in> set [''auto'', ''none''])
    \<and> cq_ResponseFormat w \<in> {None, Some ''json_object''}"
  using assms
proof (rule MapRequest_parts)
  fix mode' registry
  assume c: "check_mode request model mode' = None"
    and b: "ValidateProviderToolBudget (rq_Tools request) registry DefaultMaxProviderTools DefaultMaxFunctionSchemaBytes = None"
    and m: "cq_Messages w \<noteq> []" and t: "map_tools (rq_Tools request) registry = Inr (cq_Tools w)"
    and e: "optional_effort (gen_Effort (rq_Generation request)) = Inr (cq_ReasoningEffort w)"
    and h: "mapToolChoice (rq_ToolChoice request) (cq_Tools w) mode' = Inr (cq_ToolChoice w)"
    and f: "mapResponseFormat (fmt_Kind (gen_Format (rq_Generation request))) = Inr (cq_ResponseFormat w)"
    and w: "cq_Model w = model" "cq_Stream w" "cq_Thinking w = Some mode'"
  have "0 < DefaultMaxProviderTools" "0 < DefaultMaxFunctionSchemaBytes" by (simp_all add: bridge_limits)
  from budget_accepts [OF this, of "rq_Tools request" registry] b
  have "len (tool_functions (rq_Tools request)) + len (custom_registrations registry) \<le> DefaultMaxProviderTools" by simp
  with map_tools_ok [OF t] have tools: "tools_ok (cq_Tools w)" "len (cq_Tools w) \<le> DefaultMaxProviderTools" by simp_all
  have "isSupportedProviderModel model" "mode' = ThinkingEnabled \<or> mode' = ThinkingDisabled"
      "mode' = ThinkingDisabled \<longrightarrow> gen_Effort (rq_Generation request) = []"
    using c by (auto simp: check_mode_def validateProviderModel_def split: option.splits if_splits)
  moreover have "cq_ReasoningEffort w \<in> set [[], ''high'', ''max'']" "gen_Effort (rq_Generation request) = [] \<longrightarrow> cq_ReasoningEffort w = []"
    using e by (auto simp: optional_effort_def mapReasoningEffort_def split: if_splits)
  moreover have "\<forall>c. cq_ToolChoice w = Some c \<longrightarrow> ptc_String c \<in> set [''auto'', ''none'']"
    using h by (auto simp: mapToolChoice_def Let_def split: if_splits)
  moreover have "cq_ResponseFormat w \<in> {None, Some ''json_object''}"
    using f by (auto simp: mapResponseFormat_def split: if_splits)
  ultimately show ?thesis using w m tools unfolding tools_ok_def isSupportedProviderModel_def by simp
qed

section \<open>Custom tools in the history\<close>

text \<open>
  A custom tool call of the history is sent under the provider's name for the tool and with the patch
  wrapped; both come back: the provider's name leads to the registration with the Codex name, and unwrapping the
  arguments gives the patch.
\<close>

theorem custom_call_round_trip:
  assumes "registry_inv g" "mapToolCallInput (Some g) (CustomToolCall ident callID name input status) = Inr call"
  shows "tc_ID call = callID \<and> unwrapApplyPatchArguments (tf_Arguments (tc_Function call)) = Inr input
    \<and> (\<exists>r. customToolRegistration (Some g) (tf_Name (tc_Function call)) = Some r \<and> reg_InboundName r = name)"
proof -
  from assms(2) obtain r wrapped where r: "map_of (byInbound g) name = Some r" "validateCustomToolRegistration r = None"
    and w: "wrapApplyPatchInput input = Inr wrapped" "call = function_call callID (reg_UpstreamName r) wrapped"
    by (auto simp: mapToolCallInput_def Inbound_def named_call_def split: option.splits if_splits sum.splits)
  have "reg_InboundName r = name" "map_of (byUpstream g) (reg_UpstreamName r) = Some r"
    using assms(1) r(1) by (auto simp: registry_inv_def)
  moreover have "unwrapApplyPatchArguments wrapped = Inr input"
    using w(1) by (auto simp: wrapApplyPatchInput_def validateApplyPatchInputLength_def unwrap_marshal split: if_splits)
  ultimately show ?thesis using r(2) w(2) by (simp add: function_call_def customToolRegistration_def Upstream_def)
qed

section \<open>Witnesses\<close>

definition patch_registry :: ToolRegistry where
  "patch_registry = \<lparr>byInbound = [(ApplyPatchToolName, applyPatchRegistration)], byUpstream = [(ApplyPatchUpstreamName, applyPatchRegistration)]\<rparr>"

lemma patch_registry_inv: "registry_inv patch_registry"
  by (simp add: patch_registry_def registry_inv_def registration_complete_def applyPatchRegistration_def apply_patch_names)

lemma sample_custom_call:
  "case mapToolCallInput (Some patch_registry) (CustomToolCall [] ''c'' ApplyPatchToolName ''+x'' []) of
     Inl _ \<Rightarrow> False | Inr call \<Rightarrow> tf_Name (tc_Function call) = ApplyPatchUpstreamName"
  by code_simp

theorem custom_call_round_trip_witness:
  "\<exists>call. mapToolCallInput (Some patch_registry) (CustomToolCall [] ''c'' ApplyPatchToolName ''+x'' []) = Inr call
     \<and> unwrapApplyPatchArguments (tf_Arguments (tc_Function call)) = Inr ''+x''"
proof -
  obtain call where c: "mapToolCallInput (Some patch_registry) (CustomToolCall [] ''c'' ApplyPatchToolName ''+x'' []) = Inr call"
    using sample_custom_call by (auto split: sum.splits)
  from custom_call_round_trip [OF patch_registry_inv c] c show ?thesis by blast
qed

definition sample_request :: "continuation_value Request" where
  "sample_request = \<lparr>rq_Model = ''any'', rq_Instructions = ''be brief'', rq_PreviousResponseID = [],
     rq_Input = [Message [] RoleUser [TextContent ''hi''], FunctionCall [] ''c'' ''ls'' ''{}'' [], FunctionCallOutput ''c'' ''ok'' [] False],
     rq_Tools = [FunctionTool ''ls'' [] ''{}'' None, CustomTool ApplyPatchToolName [] ''text''],
     rq_ToolChoice = \<lparr>tcho_Kind = ToolChoiceAuto, tcho_FunctionName = []\<rparr>,
     rq_Generation = \<lparr>gen_Stream = True, gen_ParallelToolCalls = True, gen_Include = [], gen_Effort = ''medium'',
       gen_Format = \<lparr>fmt_Kind = TextFormatText, fmt_Name = [], fmt_Description = [], fmt_Schema = [], fmt_Strict = None\<rparr>\<rparr>,
     rq_ToolRegistry = None, rq_Continuation = None\<rparr>"

lemma sample_request_mapped:
  "case MapRequest sample_request DefaultModel of
     Inl _ \<Rightarrow> False
   | Inr w \<Rightarrow> map cm_Role (cq_Messages w) = [''system'', ''user'', ''assistant'', ''tool''] \<and> mapped_names (cq_Tools w) = [''ls'', ApplyPatchUpstreamName]"
  by code_simp

theorem MapRequest_wellformed_witness:
  "\<exists>w. MapRequest sample_request DefaultModel = Inr w \<and> distinct (mapped_names (cq_Tools w)) \<and> cq_ReasoningEffort w \<in> set [[], ''high'', ''max'']"
proof -
  obtain w where w: "MapRequestWithThinking sample_request DefaultModel ThinkingEnabled = Inr w"
    using sample_request_mapped by (auto simp: MapRequest_def split: sum.splits)
  from MapRequest_wellformed [OF w] w show ?thesis by (auto simp: MapRequest_def)
qed

end
