(* ===== verification/Map_Replay.thy ===== *)
theory Map_Replay
  imports Map_Request
begin

text \<open>
  The replay of a continuation: what one input item does, what the loop has collected at its end, and how the
  replayed turn and its results stand in the messages.
\<close>

section \<open>The tables of a replay\<close>

lemma fold_put_distinct:
  "distinct (map f xs) \<Longrightarrow> map_of (fold (\<lambda>x. map_put (f x) (g x)) xs m) = map_of m ++ map_of (map (\<lambda>x. (f x, g x)) xs)"
proof (induction xs arbitrary: m)
  case (Cons x xs)
  then have "map_of (map (\<lambda>x. (f x, g x)) xs) (f x) = None" by (auto simp: map_of_eq_None_iff)
  with Cons show ?case by (auto simp: map_add_def fun_eq_iff split: option.split)
qed simp

lemma table_at:
  assumes "distinct (turn_ids turn)" "c \<in> set (pt_ToolCalls turn)"
  shows "map_of (fold (\<lambda>c. map_put (uc_CallID c) (g c)) (pt_ToolCalls turn) []) (uc_CallID c) = Some (g c)"
  using assms by (auto simp: fold_put_distinct comp_def intro!: map_of_is_SomeI)

lemma table_dom:
  assumes "distinct (turn_ids turn)" "map_of (fold (\<lambda>c. map_put (uc_CallID c) (g c)) (pt_ToolCalls turn) []) i = Some v"
  obtains c where "c \<in> set (pt_ToolCalls turn)" "uc_CallID c = i" "g c = v"
  using assms by (auto simp: fold_put_distinct dest!: map_of_SomeD)

lemmas replay_tables = callKinds_def callNames_def callArguments_def providerIDs_def

section \<open>One item\<close>

text \<open>What an item answers or repeats: its call identifier and kind, and whether it agrees with a call of the turn.\<close>

fun is_message :: "InputItem \<Rightarrow> bool" where
  "is_message (Message _ _ _) = True"
| "is_message _ = False"

fun is_result :: "InputItem \<Rightarrow> bool" where
  "is_result (FunctionCallOutput _ _ _ _) = True"
| "is_result (CustomToolCallOutput _ _ _ _) = True"
| "is_result _ = False"

fun item_callID :: "InputItem \<Rightarrow> gostring" where
  "item_callID (Message _ _ _) = []"
| "item_callID (FunctionCall _ callID _ _ _) = callID"
| "item_callID (CustomToolCall _ callID _ _ _) = callID"
| "item_callID (FunctionCallOutput callID _ _ _) = callID"
| "item_callID (CustomToolCallOutput callID _ _ _) = callID"

fun agrees :: "InputItem \<Rightarrow> UpstreamToolCall \<Rightarrow> bool" where
  "agrees (Message _ _ _) c = True"
| "agrees (FunctionCall _ callID name arguments _) c =
     (uc_CallID c = callID \<and> uc_Kind c = ToolFunction \<and> uc_Name c = name \<and> uc_Arguments c = arguments)"
| "agrees (CustomToolCall _ callID name input _) c =
     (uc_CallID c = callID \<and> uc_Kind c = ToolCustom \<and> name = ApplyPatchToolName \<and> unwrapApplyPatchArguments (uc_Arguments c) = Inr input)"
| "agrees (FunctionCallOutput callID _ _ _) c = (uc_CallID c = callID \<and> uc_Kind c = ToolFunction)"
| "agrees (CustomToolCallOutput callID _ _ _) c = (uc_CallID c = callID \<and> uc_Kind c = ToolCustom)"

lemma call_validated:
  assumes "distinct (turn_ids turn)" "validateContinuationCall turn callID kind name arguments seen = (Inr u, seen')"
  obtains c where "c \<in> set (pt_ToolCalls turn)" "uc_CallID c = callID" "uc_Kind c = kind"
    "name = (if kind = ToolCustom then ApplyPatchToolName else uc_Name c)"
    "if kind = ToolCustom then same_patch (uc_Arguments c) arguments else uc_Arguments c = arguments"
    "callID \<notin> set seen" "seen' = callID # seen"
proof -
  from assms(2) have k: "map_of (callKinds turn) callID = Some kind" and n: "map_get (callNames turn) callID = name"
    and a: "if kind = ToolCustom then same_patch (map_get (callArguments turn) callID) arguments else map_get (callArguments turn) callID = arguments"
    and s: "callID \<notin> set seen" "seen' = callID # seen"
    by (auto simp: validateContinuationCall_def split: option.splits if_splits)
  from k obtain c where c: "c \<in> set (pt_ToolCalls turn)" "uc_CallID c = callID" "uc_Kind c = kind"
    unfolding callKinds_def by (rule table_dom [OF assms(1)])
  have "map_get (callNames turn) callID = (if kind = ToolCustom then ApplyPatchToolName else uc_Name c)"
    "map_get (callArguments turn) callID = uc_Arguments c"
    unfolding c(2) [symmetric] c(3) [symmetric] by (simp_all add: map_get_def replay_tables table_at [OF assms(1) c(1)])
  with n a s c show thesis by (intro that [of c]) auto
qed

lemma result_validated:
  assumes "distinct (turn_ids turn)" "validateContinuationResult turn callID kind seen = (Inr u, seen')"
  obtains c where "c \<in> set (pt_ToolCalls turn)" "uc_CallID c = callID" "uc_Kind c = kind" "callID \<notin> set seen" "seen' = callID # seen"
proof -
  from assms(2) have k: "map_of (callKinds turn) callID = Some kind" and s: "callID \<notin> set seen" "seen' = callID # seen"
    by (auto simp: validateContinuationResult_def split: option.splits if_splits)
  from k show thesis unfolding callKinds_def by (rule table_dom [OF assms(1)]) (use s that in auto)
qed

lemma wrapped_patch: "wrapApplyPatchInput input = Inr wrapped \<Longrightarrow> same_patch stored wrapped \<Longrightarrow> unwrapApplyPatchArguments stored = Inr input"
  by (auto simp: wrapApplyPatchInput_def validateApplyPatchInputLength_def same_patch_def unwrap_marshal split: if_splits sum.splits)

text \<open>The effect of one item that passes.\<close>

lemma replay_item_ok:
  assumes d: "distinct (turn_ids turn)" and ok: "replay_item turn results item s = (Inr u, t)"
  shows "is_message item \<Longrightarrow> \<exists>m. mapInputItem item = Inr m \<and> t = s\<lparr>rp_messages := rp_messages s @ [m]\<rparr>"
    and "\<not> is_message item \<Longrightarrow> (\<exists>c \<in> set (pt_ToolCalls turn). agrees item c)
      \<and> (if is_result item then item_callID item \<notin> set (rp_seenResults s) else item_callID item \<notin> set (rp_seenCalls s))
      \<and> t = s\<lparr>rp_seenResults := (if is_result item then item_callID item # rp_seenResults s else rp_seenResults s),
             rp_seenCalls := (if is_result item then rp_seenCalls s else item_callID item # rp_seenCalls s),
             rp_localCallsPresent := (rp_localCallsPresent s \<or> \<not> is_result item), rp_replayed := True,
             rp_messages := (if rp_replayed s then rp_messages s else rp_messages s @ continuationMessages turn results)\<rparr>"
proof -
  show "is_message item \<Longrightarrow> \<exists>m. mapInputItem item = Inr m \<and> t = s\<lparr>rp_messages := rp_messages s @ [m]\<rparr>"
    using ok by (cases item) (auto simp: replay_item_def split: sum.splits)
next
  assume n: "\<not> is_message item"
  show "(\<exists>c \<in> set (pt_ToolCalls turn). agrees item c)
      \<and> (if is_result item then item_callID item \<notin> set (rp_seenResults s) else item_callID item \<notin> set (rp_seenCalls s))
      \<and> t = s\<lparr>rp_seenResults := (if is_result item then item_callID item # rp_seenResults s else rp_seenResults s),
             rp_seenCalls := (if is_result item then rp_seenCalls s else item_callID item # rp_seenCalls s),
             rp_localCallsPresent := (rp_localCallsPresent s \<or> \<not> is_result item), rp_replayed := True,
             rp_messages := (if rp_replayed s then rp_messages s else rp_messages s @ continuationMessages turn results)\<rparr>"
    using n ok
    by (cases item)
      (auto simp: replay_item_def replay_call_def replay_result_def replay_once_def wrapped_patch
        split: sum.splits prod.splits if_splits elim!: call_validated [OF d] result_validated [OF d] intro!: bexI)
qed

section \<open>The loop\<close>

lemma call_or_result: "isToolCallInput item \<longleftrightarrow> \<not> is_message item \<and> \<not> is_result item"
  by (cases item) simp_all

abbreviation result_ids :: "InputItem list \<Rightarrow> gostring list" where
  "result_ids items \<equiv> map item_callID (filter is_result items)"

abbreviation call_ids :: "InputItem list \<Rightarrow> gostring list" where
  "call_ids items \<equiv> map item_callID (filter isToolCallInput items)"

lemma result_not_message: "is_result item \<Longrightarrow> \<not> is_message item"
  by (cases item) simp_all

lemma replay_bookkeeping:
  assumes d: "distinct (turn_ids turn)"
  shows "go_for (replay_item turn results) items s = (Inr u, t) \<Longrightarrow>
      rp_seenResults t = rev (result_ids items) @ rp_seenResults s
    \<and> rp_seenCalls t = rev (call_ids items) @ rp_seenCalls s
    \<and> rp_localCallsPresent t = (rp_localCallsPresent s \<or> call_ids items \<noteq> [])
    \<and> rp_replayed t = (rp_replayed s \<or> \<not> list_all is_message items)
    \<and> list_all (\<lambda>item. is_message item \<or> (\<exists>c \<in> set (pt_ToolCalls turn). agrees item c)) items"
proof (induction items arbitrary: s)
  case (Cons item items)
  then obtain r where r: "replay_item turn results item s = (Inr (), r)" "go_for (replay_item turn results) items r = (Inr u, t)"
    by (auto simp: go_bind_Inr_iff)
  note step = replay_item_ok [OF d r(1)]
  note IH = Cons.IH [OF r(2)]
  consider (message) "is_message item" | (result) "\<not> is_message item" "is_result item" | (call) "\<not> is_message item" "\<not> is_result item"
    by blast
  then show ?case
  proof cases
    case message
    with step(1) obtain m where "r = s\<lparr>rp_messages := rp_messages s @ [m]\<rparr>" by blast
    moreover have "\<not> is_result item" using message by (cases item) simp_all
    ultimately show ?thesis using IH message by (simp add: call_or_result)
  next
    case result
    with IH step(2) [OF result(1)] show ?thesis by (simp add: call_or_result)
  next
    case call
    with IH step(2) [OF call(1)] show ?thesis by (simp add: call_or_result)
  qed
qed simp

lemma replay_distinct:
  assumes d: "distinct (turn_ids turn)"
  shows "go_for (replay_item turn results) items s = (Inr u, t) \<Longrightarrow> distinct (rp_seenResults s) \<Longrightarrow> distinct (rp_seenCalls s) \<Longrightarrow>
    distinct (rp_seenResults t) \<and> distinct (rp_seenCalls t)"
proof (induction items arbitrary: s)
  case (Cons item items)
  then obtain r where r: "replay_item turn results item s = (Inr (), r)" "go_for (replay_item turn results) items r = (Inr u, t)"
    by (auto simp: go_bind_Inr_iff)
  note step = replay_item_ok [OF d r(1)]
  have "distinct (rp_seenResults r) \<and> distinct (rp_seenCalls r)"
    using step Cons.prems(2,3) by (cases "is_message item") (auto split: if_splits)
  with Cons.IH [OF r(2)] show ?case by blast
qed simp

lemma replay_after:
  assumes d: "distinct (turn_ids turn)"
  shows "go_for (replay_item turn results) items s = (Inr u, t) \<Longrightarrow> rp_replayed s \<Longrightarrow>
    \<exists>after. map_all mapInputItem (filter is_message items) = Inr after \<and> rp_messages t = rp_messages s @ after"
proof (induction items arbitrary: s)
  case (Cons item items)
  then obtain r where r: "replay_item turn results item s = (Inr (), r)" "go_for (replay_item turn results) items r = (Inr u, t)"
    by (auto simp: go_bind_Inr_iff)
  note step = replay_item_ok [OF d r(1)]
  from Cons.IH [OF r(2)] Cons.prems(2) step show ?case by (cases "is_message item") auto
qed simp

lemma replay_before:
  assumes d: "distinct (turn_ids turn)"
  shows "go_for (replay_item turn results) items s = (Inr u, t) \<Longrightarrow> \<not> rp_replayed s \<Longrightarrow> \<not> list_all is_message items \<Longrightarrow>
    \<exists>before after. map_all mapInputItem (takeWhile is_message items) = Inr before
      \<and> map_all mapInputItem (filter is_message (dropWhile is_message items)) = Inr after
      \<and> rp_messages t = rp_messages s @ before @ continuationMessages turn results @ after"
proof (induction items arbitrary: s)
  case (Cons item items)
  then obtain r where r: "replay_item turn results item s = (Inr (), r)" "go_for (replay_item turn results) items r = (Inr u, t)"
    by (auto simp: go_bind_Inr_iff)
  note step = replay_item_ok [OF d r(1)]
  show ?case
  proof (cases "is_message item")
    case True
    with step obtain m where m: "mapInputItem item = Inr m" "r = s\<lparr>rp_messages := rp_messages s @ [m]\<rparr>" by blast
    with Cons.IH [OF r(2)] Cons.prems(2,3) True show ?thesis by auto
  next
    case False
    with step(2) have f: "rp_replayed r" "rp_messages r = rp_messages s @ continuationMessages turn results"
      using Cons.prems(2) by auto
    from replay_after [OF d r(2) f(1)] f(2) False show ?thesis by auto
  qed
qed simp

lemma replay_run:
  assumes "mapContinuationInputItems items lease model = Inr messages"
  obtains t where "go_for (replay_item (cl_turn lease) (cl_results lease)) items
      \<lparr>rp_seenCalls = [], rp_seenResults = [], rp_messages = [], rp_replayed = False, rp_localCallsPresent = False\<rparr> = (Inr (), t)"
    "length (cl_results lease) = length (pt_ToolCalls (cl_turn lease))"
    "rp_replayed t" "rp_localCallsPresent t \<longrightarrow> length (rp_seenCalls t) = length (pt_ToolCalls (cl_turn lease))"
    "length (rp_seenResults t) = length (cl_results lease)" "messages = rp_messages t"
  using assms by (auto simp: mapContinuationInputItems_def clonePendingTurn_def Let_def split: if_splits prod.splits sum.splits)

lemma ids_exhausted:
  assumes "distinct ids" "distinct ks" "set ks \<subseteq> set ids" "length ks = length ids"
  shows "mset ks = mset ids"
proof -
  have "set ks = set ids" using assms by (intro card_subset_eq) (simp_all add: distinct_card)
  then show ?thesis using assms by (simp add: set_eq_iff_mset_eq_distinct)
qed

lemma replay_messages:
  assumes "mapContinuationInputItems items lease model = Inr messages" "distinct (turn_ids (cl_turn lease))"
  shows "\<exists>before after. messages = before @ continuationMessages (cl_turn lease) (cl_results lease) @ after
      \<and> map_all mapInputItem (takeWhile is_message items) = Inr before
      \<and> map_all mapInputItem (filter is_message (dropWhile is_message items)) = Inr after"
  using assms(1)
proof (rule replay_run)
  fix t assume t: "go_for (replay_item (cl_turn lease) (cl_results lease)) items
      \<lparr>rp_seenCalls = [], rp_seenResults = [], rp_messages = [], rp_replayed = False, rp_localCallsPresent = False\<rparr> = (Inr (), t)"
    and e: "rp_replayed t" "messages = rp_messages t"
  have "\<not> list_all is_message items" using replay_bookkeeping [OF assms(2) t] e(1) by simp
  with replay_before [OF assms(2) t] e(2) show ?thesis by auto
qed

text \<open>
  C28: A continuation is answered completely: the results submitted are those of the calls of the stored turn,
  each once; calls repeated by the client are all there or none, and each agrees with what was stored.
\<close>

theorem continuation_complete:
  assumes "mapContinuationInputItems items lease model = Inr messages" "distinct (turn_ids (cl_turn lease))"
  shows "mset (result_ids items) = mset (turn_ids (cl_turn lease))
    \<and> (call_ids items = [] \<or> mset (call_ids items) = mset (turn_ids (cl_turn lease)))
    \<and> (\<forall>item \<in> set items. is_message item \<or> (\<exists>c \<in> set (pt_ToolCalls (cl_turn lease)). agrees item c))"
  using assms(1)
proof (rule replay_run)
  let ?turn = "cl_turn lease"
  fix t assume t: "go_for (replay_item ?turn (cl_results lease)) items
      \<lparr>rp_seenCalls = [], rp_seenResults = [], rp_messages = [], rp_replayed = False, rp_localCallsPresent = False\<rparr> = (Inr (), t)"
    and n: "length (cl_results lease) = length (pt_ToolCalls ?turn)"
    and e: "rp_localCallsPresent t \<longrightarrow> length (rp_seenCalls t) = length (pt_ToolCalls ?turn)"
      "length (rp_seenResults t) = length (cl_results lease)"
  note b = replay_bookkeeping [OF assms(2) t, simplified]
  have dist: "distinct (result_ids items)" "distinct (call_ids items)"
    using replay_distinct [OF assms(2) t] b by simp_all
  have all: "\<forall>item \<in> set items. is_message item \<or> (\<exists>c \<in> set (pt_ToolCalls ?turn). agrees item c)"
    using b by (simp add: list_all_iff)
  have ids: "item_callID item \<in> set (turn_ids ?turn)" if "item \<in> set items" "\<not> is_message item" for item
  proof -
    from all that obtain c where "c \<in> set (pt_ToolCalls ?turn)" "agrees item c" by blast
    with that(2) show ?thesis by (cases item) auto
  qed
  have "set (result_ids items) \<subseteq> set (turn_ids ?turn)" "set (call_ids items) \<subseteq> set (turn_ids ?turn)"
    using ids result_not_message unfolding call_or_result by fastforce+
  note sub = this
  have results: "mset (result_ids items) = mset (turn_ids ?turn)"
    by (rule ids_exhausted [OF assms(2) dist(1) sub(1)]) (use b e n in simp)
  have "mset (call_ids items) = mset (turn_ids ?turn)" if "call_ids items \<noteq> []"
    by (rule ids_exhausted [OF assms(2) dist(2) sub(2)]) (use that b e n in simp)
  with results all show ?thesis by blast
qed

section \<open>Replay of a granted lease\<close>

lemma granted_turn:
  assumes "reachable cont_start cont_step y" "Begin order now results (sy_store y) = (Inr l, t)"
  shows "distinct (turn_ids (cl_turn l))" "cl_results l = results"
    "mset (map tr_CallID results) = mset (turn_ids (cl_turn l))"
proof -
  have inv: "store_inv (sy_store y)" using continuation.inv_reachable [OF assms(1)] by (simp add: sys_inv_def)
  define u where "u = cleanupLocked order now (sy_store y)"
  note b = Begin_ok [OF inv assms(2), folded u_def]
  let ?v = "cr_turn (cs_heap u ! cl_record l)"
  have a: "cl_record l < length (cs_heap u)" using b(2) by (simp add: in_store_def)
  have same: "pt_ToolCalls (cl_turn l) = pt_ToolCalls ?v" using a by (simp add: b(8) b(5) set_turn_nth)
  have "distinct (turn_ids ?v)"
    using store_invD(9) [OF cleanupLocked_inv [OF inv], of "cl_record l"] a by (simp add: record_wf_def u_def)
  then show "distinct (turn_ids (cl_turn l))" by (simp add: same)
  show "cl_results l = results" by (rule b(7))
  have "image_mset fst (mset (map (\<lambda>r. (tr_CallID r, tr_Kind r)) results)) = image_mset fst (mset (map (\<lambda>c. (uc_CallID c, uc_Kind c)) (pt_ToolCalls ?v)))"
    by (simp only: b(9))
  then show "mset (map tr_CallID results) = mset (turn_ids (cl_turn l))" by (simp add: same comp_def image_mset.compositionality)
qed

lemma replayed_id:
  assumes "distinct (turn_ids turn)" "c \<in> set (pt_ToolCalls turn)"
  shows "map_get (providerIDs turn) (uc_CallID c) = uc_ProviderCallID c" "tc_ID (replayed_call turn c) = uc_ProviderCallID c"
  by (simp_all add: replayed_call_def function_call_def Let_def map_get_def providerIDs_def table_at [OF assms])

lemma replayed_messages:
  assumes "map_all mapInputItem items = Inr ms" "list_all is_message items"
  shows "list_all (\<lambda>m. cm_ToolCalls m = [] \<and> cm_Role m \<noteq> ''tool'') ms"
proof -
  have "cm_ToolCalls m = [] \<and> cm_Role m \<noteq> ''tool''" if "is_message item" "mapInputItem item = Inr m" for item m
    using that by (cases item) (auto simp: mapInputItem_def mapRole_def chat_message_def split: sum.splits if_splits)
  note one = this
  have "list_all2 (\<lambda>x y. mapInputItem x = Inr y) items ms" using assms(1) by (simp add: map_all_Inr_iff)
  then show ?thesis using assms(2) by (induction rule: list_all2_induct) (auto dest: one)
qed

text \<open>The tool message that answers with a result the call that the assistant message carries for it.\<close>

definition answers :: "PendingTurn \<Rightarrow> ChatMessage \<Rightarrow> ToolResult \<Rightarrow> ChatMessage \<Rightarrow> bool" where
  "answers turn assistant r m \<longleftrightarrow> cm_Role m = ''tool'' \<and> cm_Content m = Some (tr_Output r) \<and> cm_ToolCalls m = []
     \<and> (\<exists>j < length (pt_ToolCalls turn). uc_CallID (pt_ToolCalls turn ! j) = tr_CallID r \<and> cm_ToolCallID m = tc_ID (cm_ToolCalls assistant ! j))"

text \<open>
  C7: When a continuation is replayed under a lease that the store granted, the stored assistant turn comes once, with
  its content, its reasoning and all its calls in their order, each under its provider's identifier; right behind it come
  the tool messages, one per submitted result and in their order, each with that result's output and with the identifier
  of the very call the result answers; every call is answered once, and no other message of the request carries calls
  or answers them.
\<close>

theorem replay_correlated:
  assumes "reachable cont_start cont_step y" "Begin order now results (sy_store y) = (Inr l, t)"
    and "mapContinuationInputItems items l model = Inr messages"
  shows "\<exists>before assistant tools after. messages = before @ assistant # tools @ after
    \<and> cm_Role assistant = ''assistant'' \<and> cm_Content assistant = Some (pt_AssistantContent (cl_turn l))
    \<and> cm_ReasoningContent assistant = Some (pt_ReasoningContent (cl_turn l))
    \<and> map tc_ID (cm_ToolCalls assistant) = map uc_ProviderCallID (pt_ToolCalls (cl_turn l))
    \<and> map tc_Function (cm_ToolCalls assistant) = map (\<lambda>c. \<lparr>tf_Name = uc_Name c, tf_Arguments = uc_Arguments c\<rparr>) (pt_ToolCalls (cl_turn l))
    \<and> list_all2 (answers (cl_turn l) assistant) results tools
    \<and> mset (map cm_ToolCallID tools) = mset (map tc_ID (cm_ToolCalls assistant))
    \<and> list_all (\<lambda>m. cm_ToolCalls m = [] \<and> cm_Role m \<noteq> ''tool'') (before @ after)"
proof -
  note g = granted_turn [OF assms(1,2)]
  let ?turn = "cl_turn l"
  let ?assistant = "chat_message ''assistant'' (Some (pt_AssistantContent ?turn)) (Some (pt_ReasoningContent ?turn)) (map (replayed_call ?turn) (pt_ToolCalls ?turn)) []"
  let ?tool = "\<lambda>r. chat_message ''tool'' (Some (tr_Output r)) None [] (map_get (providerIDs ?turn) (tr_CallID r))"
  obtain before after where m: "messages = before @ continuationMessages ?turn results @ after"
      "map_all mapInputItem (takeWhile is_message items) = Inr before"
      "map_all mapInputItem (filter is_message (dropWhile is_message items)) = Inr after"
    using replay_messages [OF assms(3) g(1)] unfolding g(2) by blast
  have plain: "list_all (\<lambda>m. cm_ToolCalls m = [] \<and> cm_Role m \<noteq> ''tool'') (before @ after)"
    using replayed_messages [OF m(2)] replayed_messages [OF m(3)] by (auto simp: list_all_iff dest: set_takeWhileD)
  have ids: "map tc_ID (cm_ToolCalls ?assistant) = map uc_ProviderCallID (pt_ToolCalls ?turn)"
    by (simp add: chat_message_def replayed_id [OF g(1)])
  have answer: "answers ?turn ?assistant r (?tool r)" if r: "r \<in> set results" for r
  proof -
    have "tr_CallID r \<in># mset (map tr_CallID results)" using r by simp
    then obtain j where j: "j < length (pt_ToolCalls ?turn)" "uc_CallID (pt_ToolCalls ?turn ! j) = tr_CallID r"
      unfolding g(3) by (auto simp: in_set_conv_nth)
    then have "map_get (providerIDs ?turn) (tr_CallID r) = tc_ID (cm_ToolCalls ?assistant ! j)"
      using replayed_id [OF g(1) nth_mem [OF j(1)]] by (simp add: chat_message_def)
    with j show ?thesis by (auto simp: answers_def chat_message_def)
  qed
  then have tools: "list_all2 (answers ?turn ?assistant) results (map ?tool results)"
    by (simp add: list_all2_conv_all_nth)
  have "mset (map (map_get (providerIDs ?turn)) (map tr_CallID results)) = mset (map (map_get (providerIDs ?turn)) (turn_ids ?turn))"
    by (simp only: mset_map [of "map_get _"] g(3))
  moreover have "map uc_ProviderCallID (pt_ToolCalls ?turn) = map (map_get (providerIDs ?turn)) (turn_ids ?turn)"
    by (simp add: replayed_id [OF g(1)])
  moreover have "map cm_ToolCallID (map ?tool results) = map (map_get (providerIDs ?turn)) (map tr_CallID results)"
    by (simp add: chat_message_def)
  ultimately have msets: "mset (map cm_ToolCallID (map ?tool results)) = mset (map tc_ID (cm_ToolCalls ?assistant))"
    by (simp only: ids)
  have "messages = before @ ?assistant # map ?tool results @ after" using m(1) by (simp add: continuationMessages_def)
  moreover have "map tc_Function (cm_ToolCalls ?assistant) = map (\<lambda>c. \<lparr>tf_Name = uc_Name c, tf_Arguments = uc_Arguments c\<rparr>) (pt_ToolCalls ?turn)"
    by (simp add: chat_message_def replayed_call_def function_call_def Let_def)
  moreover have "cm_Role ?assistant = ''assistant''" "cm_Content ?assistant = Some (pt_AssistantContent ?turn)"
    "cm_ReasoningContent ?assistant = Some (pt_ReasoningContent ?turn)" by (simp_all add: chat_message_def)
  ultimately show ?thesis using ids tools msets plain by blast
qed

section \<open>A sample continuation\<close>

definition replay_items :: "InputItem list" where
  "replay_items = [Message [] RoleUser [TextContent ''list''], FunctionCall [] ''c'' ''ls'' [] [], FunctionCallOutput ''c'' ''ok'' [] False]"

definition consuming_turn :: PendingTurn where
  "consuming_turn = saved_turn\<lparr>pt_SizeBytes := 400, pt_Status := PendingStatusConsuming, pt_ExpiresAt := 1 + defaultContinuationConsumingTTL\<rparr>"

lemma sample_lease: "\<exists>l t. Begin [] 1 sample_results (sy_store sample_system) = (Inr l, t) \<and> cl_turn l = consuming_turn"
proof -
  obtain l t where b: "Begin [] 1 sample_results saved_store = (Inr l, t)" "cl_record l = 0" using sample_begin by blast
  have u: "cs_heap (cleanupLocked [] 1 saved_store) ! 0 = saved_record" "length (cs_heap (cleanupLocked [] 1 saved_store)) > 0"
    using cleanupLocked_live [OF saved_store_inv saved_live, of 1 "[]"] Begin_ok(2) [OF saved_store_inv b(1)] b(2)
    by (simp_all add: saved_store_def in_store_def)
  have "cc_ConsumingLeaseTTL (cs_config saved_store) = defaultContinuationConsumingTTL"
    by (simp add: saved_store_def sample_store_def DefaultContinuationStoreConfig_def)
  then have "cl_turn l = consuming_turn"
    using Begin_ok(5,8) [OF saved_store_inv b(1)] b(2) u by (simp add: set_turn_nth consuming_turn_def saved_record_def)
  with b(1) show ?thesis by (auto simp: sample_system_def)
qed

lemma sample_replay:
  "case mapContinuationInputItems replay_items \<lparr>cl_record = r, cl_turn = consuming_turn, cl_results = sample_results, cl_done = d\<rparr> ''m'' of
     Inl _ \<Rightarrow> False | Inr ms \<Rightarrow> map cm_Role ms = [''user'', ''assistant'', ''tool'']"
  by code_simp

lemma sample_replay_mapped:
  assumes "cl_turn l = consuming_turn" "cl_results l = sample_results"
  obtains ms where "mapContinuationInputItems replay_items l ''m'' = Inr ms" "map cm_Role ms = [''user'', ''assistant'', ''tool'']"
proof -
  have "l = \<lparr>cl_record = cl_record l, cl_turn = consuming_turn, cl_results = sample_results, cl_done = cl_done l\<rparr>"
    using assms by simp
  with sample_replay [of "cl_record l" "cl_done l"] that show thesis by (auto split: sum.splits)
qed

theorem continuation_complete_witness:
  "mset (result_ids replay_items) = mset (turn_ids consuming_turn)"
proof -
  let ?l = "\<lparr>cl_record = 0, cl_turn = consuming_turn, cl_results = sample_results, cl_done = False\<rparr>"
  obtain ms where "mapContinuationInputItems replay_items ?l ''m'' = Inr ms" by (rule sample_replay_mapped [of ?l]) simp_all
  moreover have "distinct (turn_ids (cl_turn ?l))" by (simp add: consuming_turn_def saved_turn_def sample_turn_def)
  ultimately show ?thesis using continuation_complete [of replay_items ?l] by simp
qed

theorem replay_correlated_witness:
  "\<exists>l t messages before assistant tools after. Begin [] 1 sample_results (sy_store sample_system) = (Inr l, t)
     \<and> mapContinuationInputItems replay_items l ''m'' = Inr messages \<and> messages = before @ assistant # tools @ after
     \<and> mset (map cm_ToolCallID tools) = mset (map tc_ID (cm_ToolCalls assistant))"
proof -
  obtain l t where b: "Begin [] 1 sample_results (sy_store sample_system) = (Inr l, t)" "cl_turn l = consuming_turn"
    using sample_lease by blast
  obtain ms where m: "mapContinuationInputItems replay_items l ''m'' = Inr ms"
    by (rule sample_replay_mapped [OF b(2) granted_turn(2) [OF sample_reachable b(1)]])
  from replay_correlated [OF sample_reachable b(1) m] b(1) m show ?thesis by blast
qed

end
