(* ===== verification/Codex_Json.thy ===== *)
theory Codex_Json
  imports Go_Json Bridge
begin

text \<open>
  How \<open>internal/codex\<close> reads JSON: raw messages, which are the exact text of a value, and the structural pass
  \<open>validateJSONDocument\<close> of \<open>request.go\<close> over the tokens of \<open>json.Decoder\<close>.
\<close>

section \<open>Raw messages\<close>

text \<open>The text of the value at the front, without the white space around it, and what follows it.\<close>

definition raw_front :: "gostring \<Rightarrow> (gostring \<times> gostring) option" where
  "raw_front s =
     (case parse_front s of
        None \<Rightarrow> None
      | Some (_, r) \<Rightarrow> Some (take (length (skip_ws s) - length r) (skip_ws s), r))"

type_synonym raw_fields = "(gostring, gostring) gomap"

definition raw_member :: "gostring \<Rightarrow> ((gostring \<times> gostring) \<times> gostring) option" where
  "raw_member s =
     (case skip_ws s of
        q # qs \<Rightarrow>
          if q = CHR 0x22 then
            (case scan_string qs of
               None \<Rightarrow> None
             | Some (raw, t) \<Rightarrow>
                 (case skip_ws t of
                    k # ks \<Rightarrow>
                      if k = CHR '':'' then
                        (case raw_front ks of None \<Rightarrow> None | Some (v, r) \<Rightarrow> Some ((unquote raw, v), r))
                      else None
                  | [] \<Rightarrow> None))
          else None
      | [] \<Rightarrow> None)"

lemma raw_front_bounds: "raw_front s = Some (v, r) \<Longrightarrow> length v \<le> length s \<and> length r < length s"
proof -
  assume "raw_front s = Some (v, r)"
  then obtain x where p: "parse_front s = Some (x, r)" and v: "v = take (length (skip_ws s) - length r) (skip_ws s)"
    by (auto simp: raw_front_def split: option.splits)
  have "length (skip_ws s) \<le> length s" by (induction s) auto
  then show ?thesis using parse_front_shrinks [OF p] v by simp
qed

lemma raw_member_bounds: "raw_member s = Some ((k, v), r) \<Longrightarrow> length v < length s \<and> length r < length s"
  by (auto simp: raw_member_def dest!: skip_ws_Cons scan_string_shrinks raw_front_bounds split: list.splits if_splits option.splits prod.splits)

text \<open>The members after an opening brace; a later member of the same name replaces the earlier one.\<close>

function raw_members :: "raw_fields \<Rightarrow> gostring \<Rightarrow> (raw_fields \<times> gostring) option" where
  "raw_members flds s =
     (case raw_member s of
        None \<Rightarrow> None
      | Some ((key, v), r) \<Rightarrow>
          (case skip_ws r of
             c # r' \<Rightarrow>
               if c = CHR ''}'' then Some (map_put key v flds, r')
               else if c = CHR '','' then raw_members (map_put key v flds) r'
               else None
           | [] \<Rightarrow> None))"
  by pat_completeness auto
termination
  by (relation "measure (length \<circ> snd)") (auto dest!: raw_member_bounds skip_ws_Cons [OF sym] skip_ws_Cons)

declare raw_members.simps [simp del]

definition raw_object :: "gostring \<Rightarrow> (raw_fields \<times> gostring) option" where
  "raw_object s =
     (case skip_ws s of
        c # r \<Rightarrow>
          if c = CHR ''{'' then
            (case skip_ws r of
               e # r' \<Rightarrow> if e = CHR ''}'' then Some ([], r') else raw_members [] r
             | [] \<Rightarrow> None)
          else None
      | [] \<Rightarrow> None)"

text \<open>
  \<open>json.Unmarshal\<close> of a raw message: the text must be one value. Into a map of raw messages it must be an
  object; \<open>null\<close> leaves a nil map. Into a string or a bool, \<open>null\<close> leaves the zero value.
\<close>

definition unmarshal_object :: "gostring \<Rightarrow> raw_fields option" where
  "unmarshal_object raw =
     (case parse_json raw of Some (JObj _) \<Rightarrow> map_option fst (raw_object raw) | _ \<Rightarrow> None)"

definition unmarshal_string :: "gostring \<Rightarrow> gostring option" where
  "unmarshal_string raw = (case parse_json raw of Some (JStr s) \<Rightarrow> Some s | Some JNull \<Rightarrow> Some [] | _ \<Rightarrow> None)"

definition unmarshal_bool :: "gostring \<Rightarrow> bool option" where
  "unmarshal_bool raw = (case parse_json raw of Some (JBool b) \<Rightarrow> Some b | Some JNull \<Rightarrow> Some False | _ \<Rightarrow> None)"

section \<open>Numbers\<close>

text \<open>
  \<open>json.Decoder.Token\<close> reads a number as a \<open>float64\<close> and fails when it is out of range: when its value
  rounds to \<open>2 ^ 1024\<close> or more, that is from \<open>2 ^ 1024 - 2 ^ 970\<close> on. The exponent is read as \<open>strconv\<close> reads
  it, which takes no further digit once it has reached \<open>10000\<close>.
\<close>

definition digits_value :: "gostring \<Rightarrow> nat" where
  "digits_value ds = foldl (\<lambda>n c. 10 * n + (byte c - 48)) 0 ds"

definition exponent_value :: "gostring \<Rightarrow> nat" where
  "exponent_value ds = foldl (\<lambda>n c. if n < 10000 then 10 * n + (byte c - 48) else n) 0 ds"

definition float_overflow :: "gostring \<Rightarrow> bool" where
  "float_overflow number =
     (let u = (if HasPrefix number ''-'' then tl number else number);
          (ip, v) = span_digits u;
          (fp, w) = (if HasPrefix v ''.'' then span_digits (tl v) else ([], v));
          ex = (if w = [] then 0
                else let x = tl w in
                  if HasPrefix x ''-'' then - int (exponent_value (tl x))
                  else if HasPrefix x ''+'' then int (exponent_value (tl x)) else int (exponent_value x));
          mant = dropWhile (\<lambda>c. c = CHR ''0'') (ip @ fp);
          scale = ex - len fp;
          adj = len mant + scale;
          limit = 2 ^ 1024 - 2 ^ 970 :: nat
      in if mant = [] then False
         else if adj > 309 then True
         else if adj < 309 then False
         else if scale \<ge> 0 then digits_value mant * 10 ^ nat scale \<ge> limit
         else digits_value mant \<ge> limit * 10 ^ nat (- scale))"

section \<open>Tokens\<close>

datatype token_state =
  TopValue | ArrayStart | ArrayValue | ArrayComma | ObjectStart | ObjectKey | ObjectColon | ObjectValue | ObjectComma

datatype json_token = TDelim char | TString gostring | TOther

datatype token_result = TokenEOF | TokenError | Token json_token token_state "token_state list" gostring

definition value_allowed :: "token_state \<Rightarrow> bool" where
  "value_allowed st \<longleftrightarrow> st \<in> {TopValue, ArrayStart, ArrayValue, ObjectValue}"

fun value_end :: "token_state \<Rightarrow> token_state" where
  "value_end ArrayStart = ArrayComma"
| "value_end ArrayValue = ArrayComma"
| "value_end ObjectValue = ObjectComma"
| "value_end st = st"

definition close_token :: "char \<Rightarrow> token_state list \<Rightarrow> gostring \<Rightarrow> token_result" where
  "close_token c stack r =
     (case stack of [] \<Rightarrow> TokenError | st # sts \<Rightarrow> Token (TDelim c) (value_end st) sts r)"

definition scalar_token :: "token_state \<Rightarrow> token_state list \<Rightarrow> gostring \<Rightarrow> token_result" where
  "scalar_token st stack s =
     (case parse_scalar s of
        None \<Rightarrow> TokenError
      | Some (JStr v, r) \<Rightarrow> Token (TString v) (value_end st) stack r
      | Some (JNum n, r) \<Rightarrow> if float_overflow n then TokenError else Token TOther (value_end st) stack r
      | Some (_, r) \<Rightarrow> Token TOther (value_end st) stack r)"

lemma close_token_rest: "close_token c stack r0 = Token t st' stack' r \<Longrightarrow> r = r0"
  by (auto simp: close_token_def split: list.splits)

lemma scalar_token_rest: "scalar_token st stack s = Token t st' stack' r \<Longrightarrow> \<exists>v. parse_scalar s = Some (v, r)"
  by (auto simp: scalar_token_def split: option.splits prod.splits json.splits if_splits)

text \<open>The token after a character that is not white space, a colon or a comma.\<close>

definition direct_token :: "token_state \<Rightarrow> token_state list \<Rightarrow> char \<Rightarrow> gostring \<Rightarrow> token_result" where
  "direct_token st stack c r =
     (if c = CHR ''['' then
        (if \<not> value_allowed st then TokenError else Token (TDelim c) ArrayStart (st # stack) r)
      else if c = CHR '']'' then
        (if st \<noteq> ArrayStart \<and> st \<noteq> ArrayComma then TokenError else close_token c stack r)
      else if c = CHR ''{'' then
        (if \<not> value_allowed st then TokenError else Token (TDelim c) ObjectStart (st # stack) r)
      else if c = CHR ''}'' then
        (if st \<noteq> ObjectStart \<and> st \<noteq> ObjectComma then TokenError else close_token c stack r)
      else if c = CHR 0x22 \<and> (st = ObjectStart \<or> st = ObjectKey) then
        (case scan_string r of
           None \<Rightarrow> TokenError
         | Some (raw, r') \<Rightarrow> Token (TString (unquote raw)) ObjectColon stack r')
      else if \<not> value_allowed st then TokenError
      else scalar_token st stack (c # r))"

abbreviation json_space :: "char \<Rightarrow> bool" where
  "json_space c \<equiv> c \<in> set [CHR 0x20, CHR 0x09, CHR 0x0D, CHR 0x0A]"

fun next_token :: "token_state \<Rightarrow> token_state list \<Rightarrow> gostring \<Rightarrow> token_result" where
  "next_token st stack [] = TokenEOF"
| "next_token st stack (c # r) =
     (if json_space c then next_token st stack r
      else if c = CHR '':'' then
        (if st \<noteq> ObjectColon then TokenError else next_token ObjectValue stack r)
      else if c = CHR '','' then
        (if st = ArrayComma then next_token ArrayValue stack r
         else if st = ObjectComma then next_token ObjectKey stack r
         else TokenError)
      else direct_token st stack c r)"

lemma direct_token_shrinks: "direct_token st stack c s = Token t st' stack' r \<Longrightarrow> length r < Suc (length s)"
  using scan_string_shrinks [of s] parse_scalar_shrinks [of "c # s"]
  by (auto simp: direct_token_def dest!: close_token_rest scalar_token_rest split: if_splits option.splits)

lemma next_token_shrinks: "next_token st stack s = Token t st' stack' r \<Longrightarrow> length r < length s"
proof (induction st stack s rule: next_token.induct)
  case (2 st stack c s)
  have eq: "next_token st stack (c # s) =
      (if json_space c then next_token st stack s
       else if c = CHR '':'' then (if st \<noteq> ObjectColon then TokenError else next_token ObjectValue stack s)
       else if c = CHR '','' then
         (if st = ArrayComma then next_token ArrayValue stack s else if st = ObjectComma then next_token ObjectKey stack s else TokenError)
       else direct_token st stack c s)" by (rule next_token.simps)
  have "length r < Suc (length s)"
  proof (cases "json_space c \<or> c = CHR '':'' \<or> c = CHR '',''")
    case True
    then have "\<exists>st2. next_token st2 stack s = Token t st' stack' r \<and> length r < length s"
      using "2.IH" "2.prems" unfolding eq by (metis token_result.distinct(3,5))
    then show ?thesis by auto
  next
    case False
    with "2.prems" have "direct_token st stack c s = Token t st' stack' r" unfolding eq by metis
    then show ?thesis by (rule direct_token_shrinks)
  qed
  then show ?case by simp
qed simp

section \<open>The structural pass\<close>

record json_frame =
  fr_kind :: char
  fr_expectingKey :: bool
  fr_memberCount :: int
  fr_seenKeys :: "gostring list"

datatype structure_error = JsonStructureLimit | JsonDuplicateKey | JsonTrailingValue | JsonMalformed

text \<open>The frames (the innermost first), whether the root value is complete, and the tokens counted.\<close>

record json_scan =
  sc_frames :: "json_frame list"
  sc_rootComplete :: bool
  sc_tokens :: int

record json_limits =
  jl_depth :: int
  jl_tokens :: int
  jl_items :: int

definition open_frame :: "char \<Rightarrow> json_frame" where
  "open_frame delimiter =
     \<lparr>fr_kind = delimiter, fr_expectingKey = (delimiter = CHR ''{''), fr_memberCount = 0, fr_seenKeys = []\<rparr>"

definition complete_value :: "json_scan \<Rightarrow> json_scan" where
  "complete_value sc =
     (case sc_frames sc of
        [] \<Rightarrow> sc\<lparr>sc_rootComplete := True\<rparr>
      | parent # frames \<Rightarrow> if fr_kind parent = CHR ''{'' then sc\<lparr>sc_frames := parent\<lparr>fr_expectingKey := True\<rparr> # frames\<rparr> else sc)"

definition pop_frame :: "json_scan \<Rightarrow> json_scan" where
  "pop_frame sc = complete_value (sc\<lparr>sc_frames := tl (sc_frames sc)\<rparr>)"

text \<open>The value of an element or member: a scalar completes it, a delimiter opens a frame.\<close>

definition value_token :: "json_limits \<Rightarrow> json_token \<Rightarrow> json_scan \<Rightarrow> structure_error + json_scan" where
  "value_token lim token sc =
     (case token of
        TDelim delimiter \<Rightarrow>
          if delimiter \<noteq> CHR ''{'' \<and> delimiter \<noteq> CHR ''['' then Inl JsonMalformed
          else if len (sc_frames sc) + 1 > jl_depth lim then Inl JsonStructureLimit
          else Inr (sc\<lparr>sc_frames := open_frame delimiter # sc_frames sc\<rparr>)
      | _ \<Rightarrow> Inr (complete_value sc))"

definition root_token :: "json_limits \<Rightarrow> json_token \<Rightarrow> json_scan \<Rightarrow> structure_error + json_scan" where
  "root_token lim token sc =
     (if sc_rootComplete sc then Inl JsonTrailingValue
      else case token of
          TDelim delimiter \<Rightarrow>
            if delimiter \<noteq> CHR ''{'' \<and> delimiter \<noteq> CHR ''['' then Inl JsonMalformed
            else if 1 > jl_depth lim then Inl JsonStructureLimit
            else Inr (sc\<lparr>sc_frames := [open_frame delimiter]\<rparr>)
        | _ \<Rightarrow> Inr (sc\<lparr>sc_rootComplete := True\<rparr>))"

definition key_token :: "json_limits \<Rightarrow> json_token \<Rightarrow> json_frame \<Rightarrow> json_frame list \<Rightarrow> json_scan \<Rightarrow> structure_error + json_scan" where
  "key_token lim token current frames sc =
     (if token = TDelim (CHR ''}'') then Inr (pop_frame sc)
      else case token of
          TString key \<Rightarrow>
            if key \<in> set (fr_seenKeys current) then Inl JsonDuplicateKey
            else if fr_memberCount current + 1 > jl_items lim then Inl JsonStructureLimit
            else Inr (sc\<lparr>sc_frames := current\<lparr>fr_seenKeys := key # fr_seenKeys current, fr_memberCount := fr_memberCount current + 1,
                   fr_expectingKey := False\<rparr> # frames\<rparr>)
        | _ \<Rightarrow> Inl JsonMalformed)"

definition element_token :: "json_limits \<Rightarrow> json_token \<Rightarrow> json_frame \<Rightarrow> json_frame list \<Rightarrow> json_scan \<Rightarrow> structure_error + json_scan" where
  "element_token lim token current frames sc =
     (if token = TDelim (CHR '']'') then Inr (pop_frame sc)
      else if fr_memberCount current + 1 > jl_items lim then Inl JsonStructureLimit
      else value_token lim token (sc\<lparr>sc_frames := current\<lparr>fr_memberCount := fr_memberCount current + 1\<rparr> # frames\<rparr>))"

definition scan_token :: "json_limits \<Rightarrow> json_token \<Rightarrow> json_scan \<Rightarrow> structure_error + json_scan" where
  "scan_token lim token sc0 =
     (let sc = sc0\<lparr>sc_tokens := sc_tokens sc0 + 1\<rparr> in
      if sc_tokens sc > jl_tokens lim then Inl JsonStructureLimit
      else case sc_frames sc of
          [] \<Rightarrow> root_token lim token sc
        | current # frames \<Rightarrow>
            if fr_kind current = CHR ''{'' \<and> fr_expectingKey current then key_token lim token current frames sc
            else if fr_kind current = CHR ''['' then element_token lim token current frames sc
            else if token = TDelim (CHR ''}'') then Inl JsonMalformed
            else value_token lim token sc)"

function scan_document :: "json_limits \<Rightarrow> json_scan \<Rightarrow> token_state \<Rightarrow> token_state list \<Rightarrow> gostring \<Rightarrow> structure_error option" where
  "scan_document lim sc st stack s =
     (case next_token st stack s of
        TokenEOF \<Rightarrow> if \<not> sc_rootComplete sc \<or> sc_frames sc \<noteq> [] then Some JsonMalformed else None
      | TokenError \<Rightarrow> Some JsonMalformed
      | Token token st' stack' r \<Rightarrow>
          (case scan_token lim token sc of
             Inl e \<Rightarrow> Some e
           | Inr sc' \<Rightarrow> scan_document lim sc' st' stack' r))"
  by pat_completeness auto
termination
  by (relation "measure (\<lambda>(lim, sc, st, stack, s). length s)") (auto dest: next_token_shrinks)

declare scan_document.simps [simp del]

definition validateJSONDocument :: "gostring \<Rightarrow> json_limits \<Rightarrow> structure_error option" where
  "validateJSONDocument data lim =
     (if jl_depth lim \<le> 0 \<or> jl_tokens lim \<le> 0 \<or> jl_items lim \<le> 0 then Some JsonStructureLimit
      else scan_document lim \<lparr>sc_frames = [], sc_rootComplete = False, sc_tokens = 0\<rparr> TopValue [] data)"

end
