(* ===== verification/Codex_Schema.thy ===== *)
theory Codex_Schema
  imports Codex_Json
begin

text \<open>
  \<open>internal/codex/errors.go\<close>, the raw readers of \<open>request.go\<close> and \<open>schema.go\<close>: the boundary errors, arrays and
  strings of raw messages, and the check that a JSON Schema has the structure of one.
\<close>

section \<open>Errors\<close>

text \<open>An error is its code and the parameter it names; its message is a constant for people and is left out.\<close>

datatype codex_ErrorCode =
  CodexInvalidRequest | CodexMalformedJSON | CodexRequestTooLarge | CodexUnsupportedField
  | CodexUnsupportedItemType | CodexUnsupportedToolType

datatype codex_error = CodexError codex_ErrorCode gostring | InternalError

definition newError :: "codex_ErrorCode \<Rightarrow> gostring \<Rightarrow> codex_error + 'a" where
  "newError code param = Inl (CodexError code param)"

definition invalidRequest :: "gostring \<Rightarrow> codex_error + 'a" where
  "invalidRequest param = newError CodexInvalidRequest param"

definition unsupportedField :: "gostring \<Rightarrow> codex_error + 'a" where
  "unsupportedField param = newError CodexUnsupportedField param"

lemmas codex_errors = newError_def invalidRequest_def unsupportedField_def

section \<open>Limits\<close>

record DecoderLimits =
  dl_MaxBodyBytes :: int
  dl_MaxInputItems :: int
  dl_MaxCollectionItems :: int
  dl_MaxTools :: int
  dl_MaxSchemaBytes :: int
  dl_MaxJSONDepth :: int
  dl_MaxJSONTokens :: int

definition json_limits_of :: "DecoderLimits \<Rightarrow> json_limits" where
  "json_limits_of limits = \<lparr>jl_depth = dl_MaxJSONDepth limits, jl_tokens = dl_MaxJSONTokens limits, jl_items = dl_MaxCollectionItems limits\<rparr>"

section \<open>Raw readers\<close>

definition rawObject :: "gostring \<Rightarrow> gostring \<Rightarrow> codex_error + raw_fields" where
  "rawObject raw param = (case unmarshal_object raw of None \<Rightarrow> invalidRequest param | Some flds \<Rightarrow> Inr flds)"

definition stringValue :: "gostring \<Rightarrow> gostring \<Rightarrow> codex_error + gostring" where
  "stringValue raw param = (case unmarshal_string raw of None \<Rightarrow> invalidRequest param | Some value \<Rightarrow> Inr value)"

definition boolValue :: "gostring \<Rightarrow> gostring \<Rightarrow> codex_error + bool" where
  "boolValue raw param = (case unmarshal_bool raw of None \<Rightarrow> invalidRequest param | Some value \<Rightarrow> Inr value)"

definition is_quoted :: "gostring \<Rightarrow> bool" where
  "is_quoted raw \<longleftrightarrow> TrimSpace raw \<noteq> [] \<and> hd (TrimSpace raw) = CHR 0x22"

definition requiredString :: "gostring \<Rightarrow> gostring \<Rightarrow> codex_error + gostring" where
  "requiredString raw param =
     attempt (stringValue raw param) (\<lambda>value. if TrimSpace value = [] then invalidRequest param else Inr value)"

definition dot :: "gostring \<Rightarrow> gostring \<Rightarrow> gostring" where
  "dot path field = path @ ''.'' @ field"

definition indexed :: "gostring \<Rightarrow> nat \<Rightarrow> gostring" where
  "indexed path index = path @ ''['' @ itoa (int index) @ '']''"

definition requiredStringField :: "raw_fields \<Rightarrow> gostring \<Rightarrow> gostring \<Rightarrow> codex_error + gostring" where
  "requiredStringField flds field path =
     (case map_of flds field of
        None \<Rightarrow> invalidRequest (dot path field)
      | Some raw \<Rightarrow> requiredString raw (dot path field))"

definition requiredStringFieldAllowEmpty :: "raw_fields \<Rightarrow> gostring \<Rightarrow> gostring \<Rightarrow> codex_error + gostring" where
  "requiredStringFieldAllowEmpty flds field path =
     (case map_of flds field of
        None \<Rightarrow> invalidRequest (dot path field)
      | Some raw \<Rightarrow> stringValue raw (dot path field))"

definition optionalString :: "raw_fields \<Rightarrow> gostring \<Rightarrow> gostring \<Rightarrow> codex_error + gostring" where
  "optionalString flds field param =
     (case map_of flds field of None \<Rightarrow> Inr [] | Some raw \<Rightarrow> stringValue raw param)"

definition optionalBoolPointer :: "raw_fields \<Rightarrow> gostring \<Rightarrow> gostring \<Rightarrow> codex_error + bool option" where
  "optionalBoolPointer flds field param =
     (case map_of flds field of
        None \<Rightarrow> Inr None
      | Some raw \<Rightarrow> attempt (boolValue raw param) (\<lambda>value. Inr (Some value)))"

text \<open>
  The loop of \<open>rawArray\<close>: \<open>More\<close> ends it at a closing bracket or brace or at the end of the text, \<open>Decode\<close> takes
  the comma before every element but the first. After the closing bracket nothing may follow.
\<close>

function raw_elements :: "gostring \<Rightarrow> int \<Rightarrow> gostring list \<Rightarrow> gostring \<Rightarrow> codex_error + gostring list" where
  "raw_elements param maxItems values s =
     (case skip_ws s of
        [] \<Rightarrow> invalidRequest param
      | c # r \<Rightarrow>
          if c = CHR '']'' then (if skip_ws r = [] then Inr values else invalidRequest param)
          else if c = CHR ''}'' then invalidRequest param
          else if len values \<ge> maxItems then newError CodexRequestTooLarge param
          else if values \<noteq> [] \<and> c \<noteq> CHR '','' then invalidRequest param
          else (case raw_front (if values \<noteq> [] then r else c # r) of
                  None \<Rightarrow> invalidRequest param
                | Some (value, t) \<Rightarrow> raw_elements param maxItems (values @ [value]) t))"
  by pat_completeness auto
termination
  by (relation "measure (\<lambda>(param, maxItems, values, s). length s)")
    (auto dest!: raw_front_bounds [OF sym] raw_front_bounds skip_ws_Cons [OF sym] skip_ws_Cons split: if_splits)

declare raw_elements.simps [simp del]

definition rawArray :: "gostring \<Rightarrow> gostring \<Rightarrow> int \<Rightarrow> codex_error + gostring list" where
  "rawArray raw param maxItems =
     (let trimmed = TrimSpace raw in
      if trimmed = [] \<or> hd trimmed \<noteq> CHR ''['' then invalidRequest param
      else if maxItems \<le> 0 then newError CodexRequestTooLarge param
      else raw_elements param maxItems [] (tl trimmed))"

definition stringArray :: "gostring \<Rightarrow> gostring \<Rightarrow> int \<Rightarrow> codex_error + gostring list" where
  "stringArray raw param maxItems =
     attempt (rawArray raw param maxItems)
       (\<lambda>values. map_all (\<lambda>(index, value). stringValue value (indexed param index)) (enumerate 0 values))"

section \<open>Sizes\<close>

lemma set_map_put: "set (map_put k v m) \<subseteq> insert (k, v) (set m)"
  by (induction m) auto

lemma raw_members_bounds:
  "raw_members flds s = Some (g, r) \<Longrightarrow> (k, v) \<in> set g \<Longrightarrow> (k, v) \<in> set flds \<or> length v < length s"
proof (induction flds s rule: raw_members.induct)
  case (1 flds s)
  from "1.prems"(1) obtain k' v' t c t' where m: "raw_member s = Some ((k', v'), t)" "skip_ws t = c # t'"
    by (subst (asm) raw_members.simps) (auto split: option.splits prod.splits if_splits list.splits)
  note l = raw_member_bounds [OF m(1)] skip_ws_Cons [OF m(2)]
  have put: "(k, v) \<in> set (map_put k' v' flds) \<Longrightarrow> (k, v) \<in> set flds \<or> length v < length s"
    using set_map_put l by fastforce
  show ?case
  proof (cases "c = CHR ''}''")
    case True
    with "1.prems" m have "g = map_put k' v' flds" by (subst (asm) raw_members.simps) simp
    with put "1.prems"(2) show ?thesis by simp
  next
    case False
    with "1.prems"(1) m have c: "c = CHR '',''" "raw_members (map_put k' v' flds) t' = Some (g, r)"
      by (subst (asm) raw_members.simps; simp split: if_splits)+
    from "1.IH" [OF m(1) refl refl m(2) False c(1) c(2) "1.prems"(2)] put l show ?thesis by auto
  qed
qed

lemma unmarshal_object_bounds:
  assumes "unmarshal_object raw = Some flds" "(k, v) \<in> set flds"
  shows "length v < length raw"
proof -
  from assms(1) obtain r where "raw_object raw = Some (flds, r)"
    by (auto simp: unmarshal_object_def split: option.splits json.splits)
  with assms(2) show ?thesis
    by (auto simp: raw_object_def dest!: raw_members_bounds skip_ws_Cons split: list.splits if_splits)
qed

lemma raw_elements_bounds:
  "raw_elements param m vals s = Inr ws \<Longrightarrow> w \<in> set ws \<Longrightarrow> w \<in> set vals \<or> length w \<le> length s"
proof (induction param m vals s rule: raw_elements.induct)
  case (1 param m vals s)
  show ?case
  proof (cases "skip_ws s")
    case Nil
    with "1.prems" show ?thesis by (subst (asm) raw_elements.simps) (simp add: codex_errors)
  next
    case (Cons c r)
    show ?thesis
    proof (cases "c = CHR '']''")
      case True
      with "1.prems" Cons show ?thesis by (subst (asm) raw_elements.simps) (simp add: codex_errors split: if_splits)
    next
      case False
      with "1.prems"(1) Cons obtain v t where v: "c \<noteq> CHR ''}''" "\<not> m \<le> len vals" "\<not> (vals \<noteq> [] \<and> c \<noteq> CHR '','')"
        "raw_front (if vals \<noteq> [] then r else c # r) = Some (v, t)" "raw_elements param m (vals @ [v]) t = Inr ws"
        by (subst (asm) raw_elements.simps) (auto simp: codex_errors split: if_splits option.splits)
      have "length v \<le> length s \<and> length t < length s"
        using raw_front_bounds [OF v(4)] skip_ws_Cons [OF Cons] by (auto split: if_splits)
      with "1.IH" [OF Cons False v(1,2,3,4) refl v(5) "1.prems"(2)] show ?thesis by auto
    qed
  qed
qed

lemma trim_with_le: "length (trim_with encs s) \<le> length s"
proof (induction encs s rule: trim_with.induct)
  case (1 encs s)
  then show ?case by (subst trim_with.simps) (force simp: Let_def)
qed

lemma TrimSpace_le: "length (TrimSpace s) \<le> length s"
  unfolding TrimSpace_def using trim_with_le [of "map rev space_encodings" "rev (trim_with space_encodings s)"] trim_with_le [of space_encodings s]
  by simp

lemma rawArray_bounds: "rawArray raw param m = Inr ws \<Longrightarrow> w \<in> set ws \<Longrightarrow> length w < length raw"
  using TrimSpace_le [of raw] raw_elements_bounds [of param m "[]" "tl (TrimSpace raw)" ws w]
  by (cases "TrimSpace raw") (auto simp: rawArray_def Let_def codex_errors split: if_splits)

section \<open>Schemas (schema.go)\<close>

text \<open>Every failure of the schema check is reported to the caller in the same way, so the checks are predicates.\<close>

definition validSchemaTypeName :: "gostring \<Rightarrow> bool" where
  "validSchemaTypeName value \<longleftrightarrow>
     value \<in> set [''null'', ''boolean'', ''object'', ''array'', ''number'', ''integer'', ''string'']"

definition validateStringArray :: "gostring \<Rightarrow> bool \<Rightarrow> int \<Rightarrow> bool" where
  "validateStringArray raw requireNonEmpty maxItems \<longleftrightarrow>
     (case rawArray raw ''schema'' maxItems of
        Inl _ \<Rightarrow> False
      | Inr vs \<Rightarrow>
          list_all (\<lambda>v. case unmarshal_string v of None \<Rightarrow> False | Some name \<Rightarrow> \<not> (requireNonEmpty \<and> name = [])) vs
          \<and> distinct (map unmarshal_string vs))"

definition validateSchemaType :: "gostring \<Rightarrow> int \<Rightarrow> bool" where
  "validateSchemaType raw maxItems \<longleftrightarrow>
     (if is_quoted raw
      then (case unmarshal_string raw of None \<Rightarrow> False | Some value \<Rightarrow> validSchemaTypeName value)
      else case rawArray raw ''schema.type'' maxItems of
          Inl _ \<Rightarrow> False
        | Inr vs \<Rightarrow>
            vs \<noteq> [] \<and> list_all (\<lambda>v. case unmarshal_string v of None \<Rightarrow> False | Some name \<Rightarrow> validSchemaTypeName name) vs
            \<and> distinct (map unmarshal_string vs))"

definition property_keywords :: "gostring list" where
  "property_keywords = [''properties'', ''patternProperties'', ''$defs'', ''definitions'', ''dependentSchemas'']"

definition value_keywords :: "gostring list" where
  "value_keywords =
     [''additionalProperties'', ''additionalItems'', ''unevaluatedProperties'', ''unevaluatedItems'', ''contains'',
      ''propertyNames'', ''not'', ''if'', ''then'', ''else'', ''contentSchema'']"

definition array_keywords :: "gostring list" where
  "array_keywords = [''items'', ''prefixItems'', ''allOf'', ''anyOf'', ''oneOf'']"

abbreviation field_ok :: "raw_fields \<Rightarrow> gostring \<Rightarrow> (gostring \<Rightarrow> bool) \<Rightarrow> bool" where
  "field_ok flds keyword check \<equiv> (case map_of flds keyword of None \<Rightarrow> True | Some raw \<Rightarrow> check raw)"

text \<open>The longest text among the values of an object, for termination.\<close>

definition longest :: "raw_fields \<Rightarrow> nat" where
  "longest flds = foldr (\<lambda>(k, v). max (length v)) flds 0"

lemma longest_ge: "(k, v) \<in> set flds \<Longrightarrow> length v \<le> longest flds"
  by (induction flds) (auto simp: longest_def)

lemma longest_less: "\<forall>(k, v) \<in> set flds. length v < n \<Longrightarrow> 0 < n \<Longrightarrow> longest flds < n"
  by (induction flds) (auto simp: longest_def)

lemma map_of_longest: "map_of flds k = Some v \<Longrightarrow> length v \<le> longest flds"
  by (drule map_of_SomeD) (rule longest_ge)

lemma trimmed_object_longest: "unmarshal_object (TrimSpace raw) = Some flds \<Longrightarrow> longest flds < length raw"
proof -
  assume u: "unmarshal_object (TrimSpace raw) = Some flds"
  have "raw \<noteq> []"
  proof
    assume "raw = []"
    with u have "unmarshal_object [] = Some flds" by (simp add: TrimSpace_def trim_with.simps leading_space_def)
    then show False by (simp add: unmarshal_object_def raw_object_def split: option.splits json.splits)
  qed
  then show ?thesis
    using unmarshal_object_bounds [OF u] TrimSpace_le [of raw] by (intro longest_less) fastforce+
qed

lemma trimmed_smaller:
  "length v < n \<Longrightarrow> n \<le> m \<Longrightarrow> 3 * length (TrimSpace v) < Suc (Suc (3 * m))"
  "length v < length (TrimSpace raw) \<Longrightarrow> 3 * length v < Suc (3 * length raw)"
  using TrimSpace_le [of v] TrimSpace_le [of raw] by simp_all

function validateSchemaValue :: "int \<Rightarrow> gostring \<Rightarrow> bool"
  and validateSchemaObject :: "int \<Rightarrow> raw_fields \<Rightarrow> bool"
  and validateSchemaOrArray :: "int \<Rightarrow> gostring \<Rightarrow> bool" where
  "validateSchemaValue m raw =
     (let trimmed = TrimSpace raw in
      if trimmed = [] then False
      else if trimmed = ''true'' \<or> trimmed = ''false'' then True
      else case unmarshal_object trimmed of
          None \<Rightarrow> False
        | Some flds \<Rightarrow> validateSchemaObject m flds)"
| "validateSchemaObject m flds =
     (field_ok flds ''type'' (\<lambda>raw. validateSchemaType raw m)
      \<and> list_all (\<lambda>keyword. case map_of flds keyword of None \<Rightarrow> True | Some raw \<Rightarrow>
           (case unmarshal_object raw of None \<Rightarrow> False | Some props \<Rightarrow> list_all (\<lambda>(name, v). validateSchemaValue m v) props))
          property_keywords
      \<and> field_ok flds ''required'' (\<lambda>raw. validateStringArray raw False m)
      \<and> list_all (\<lambda>keyword. case map_of flds keyword of None \<Rightarrow> True | Some raw \<Rightarrow> validateSchemaValue m raw) value_keywords
      \<and> list_all (\<lambda>keyword. case map_of flds keyword of None \<Rightarrow> True | Some raw \<Rightarrow> validateSchemaOrArray m raw) array_keywords
      \<and> (case map_of flds ''dependencies'' of None \<Rightarrow> True | Some raw \<Rightarrow>
           (case unmarshal_object raw of None \<Rightarrow> False | Some deps \<Rightarrow>
              list_all (\<lambda>(name, v).
                if TrimSpace v \<noteq> [] \<and> hd (TrimSpace v) = CHR ''['' then validateStringArray (TrimSpace v) False m
                else validateSchemaValue m (TrimSpace v)) deps))
      \<and> (case map_of flds ''dependentRequired'' of None \<Rightarrow> True | Some raw \<Rightarrow>
           (case unmarshal_object raw of None \<Rightarrow> False | Some deps \<Rightarrow> list_all (\<lambda>(name, v). validateStringArray v False m) deps)))"
| "validateSchemaOrArray m raw =
     (let trimmed = TrimSpace raw in
      if trimmed \<noteq> [] \<and> hd trimmed = CHR ''['' then
        (case rawArray trimmed ''schema'' m of
           Inl _ \<Rightarrow> False
         | Inr vs \<Rightarrow> list_all (validateSchemaValue m) vs)
      else validateSchemaValue m trimmed)"
  by pat_completeness auto
termination
proof (relation "measure (case_sum (\<lambda>(m, raw). 3 * length raw + 1) (case_sum (\<lambda>(m, flds). 3 * longest flds + 3) (\<lambda>(m, raw). 3 * length raw + 2)))",
    goal_cases)
  case 1
  show ?case by simp
qed (use TrimSpace_le in \<open>auto dest!: trimmed_object_longest map_of_longest rawArray_bounds unmarshal_object_bounds simp: le_imp_less_Suc intro: trimmed_smaller\<close>)

declare validateSchemaValue.simps [simp del] validateSchemaObject.simps [simp del] validateSchemaOrArray.simps [simp del]

definition validateJSONSchema :: "gostring \<Rightarrow> DecoderLimits \<Rightarrow> bool" where
  "validateJSONSchema raw limits \<longleftrightarrow>
     len raw \<le> dl_MaxSchemaBytes limits \<and> validateJSONDocument raw (json_limits_of limits) = None
     \<and> (case unmarshal_object raw of None \<Rightarrow> False | Some flds \<Rightarrow> validateSchemaObject (dl_MaxCollectionItems limits) flds)"

end
