(* ===== verification/Codex_Request.thy ===== *)
theory Codex_Request
  imports Codex_Schema Tool_Results
begin

text \<open>
  \<open>internal/codex/request.go\<close>: the decoder of the Codex Responses request. A body goes through the structural pass,
  the classification of its fields and the readers of its parts into wire values, which are translated into the
  bridge request.

  The body is what its reader delivers: the bytes, and whether the reader fails after them. The media type is the
  answer of \<open>mime.ParseMediaType\<close> to the Content-Type header, none when it fails.
\<close>

section \<open>Limits\<close>

definition DefaultMaxBodyBytes :: int where "DefaultMaxBodyBytes = 16 * 2 ^ 20"

definition defaultDecoderLimits :: "int \<Rightarrow> DecoderLimits" where
  "defaultDecoderLimits maxBodyBytes =
     \<lparr>dl_MaxBodyBytes = maxBodyBytes, dl_MaxInputItems = DefaultMaxInputItems, dl_MaxCollectionItems = DefaultMaxCollectionItems,
      dl_MaxTools = DefaultMaxFunctionTools, dl_MaxSchemaBytes = DefaultMaxFunctionSchemaBytes,
      dl_MaxJSONDepth = DefaultMaxJSONDepth, dl_MaxJSONTokens = DefaultMaxJSONTokens\<rparr>"

definition limit_or :: "int \<Rightarrow> int \<Rightarrow> int" where
  "limit_or value fallback = (if value = 0 then fallback else value)"

definition limits_positive :: "DecoderLimits \<Rightarrow> bool" where
  "limits_positive l \<longleftrightarrow> dl_MaxBodyBytes l > 0 \<and> dl_MaxInputItems l > 0 \<and> dl_MaxCollectionItems l > 0 \<and> dl_MaxTools l > 0
     \<and> dl_MaxSchemaBytes l > 0 \<and> dl_MaxJSONDepth l > 0 \<and> dl_MaxJSONTokens l > 0"

text \<open>A decoder is its limits.\<close>

definition NewDecoderWithLimits :: "DecoderLimits \<Rightarrow> DecoderLimits option" where
  "NewDecoderWithLimits limits =
     (let defaults = defaultDecoderLimits DefaultMaxBodyBytes;
          l = \<lparr>dl_MaxBodyBytes = limit_or (dl_MaxBodyBytes limits) (dl_MaxBodyBytes defaults),
               dl_MaxInputItems = limit_or (dl_MaxInputItems limits) (dl_MaxInputItems defaults),
               dl_MaxCollectionItems = limit_or (dl_MaxCollectionItems limits) (dl_MaxCollectionItems defaults),
               dl_MaxTools = limit_or (dl_MaxTools limits) (dl_MaxTools defaults),
               dl_MaxSchemaBytes = limit_or (dl_MaxSchemaBytes limits) (dl_MaxSchemaBytes defaults),
               dl_MaxJSONDepth = limit_or (dl_MaxJSONDepth limits) (dl_MaxJSONDepth defaults),
               dl_MaxJSONTokens = limit_or (dl_MaxJSONTokens limits) (dl_MaxJSONTokens defaults)\<rparr>
      in if \<not> limits_positive l then None else Some l)"

definition NewDecoder :: "int \<Rightarrow> DecoderLimits option" where
  "NewDecoder maxBodyBytes = (if maxBodyBytes \<le> 0 then None else NewDecoderWithLimits (defaultDecoderLimits maxBodyBytes))"

section \<open>Fields\<close>

datatype fieldPolicy = policyTranslate | policyNoOp | policyDefer

definition topLevelPolicy :: "(gostring, fieldPolicy) gomap" where
  "topLevelPolicy =
     map (\<lambda>f. (f, policyTranslate))
       [''model'', ''instructions'', ''input'', ''tools'', ''tool_choice'', ''parallel_tool_calls'', ''reasoning'', ''text'',
        ''stream'', ''include'', ''previous_response_id'']
     @ map (\<lambda>f. (f, policyNoOp))
       [''stream_options'', ''store'', ''service_tier'', ''prompt_cache_key'', ''metadata'', ''client_metadata'']
     @ [(''background'', policyDefer)]"

definition sortedKeys :: "raw_fields \<Rightarrow> gostring list" where
  "sortedKeys flds = sort (map_keys flds)"

definition unknownFieldParam :: "gostring \<Rightarrow> gostring" where
  "unknownFieldParam path = (if path = [] then ''request.<unknown_field>'' else path @ ''.<unknown_field>'')"

definition deferredFieldParam :: "gostring \<Rightarrow> gostring" where
  "deferredFieldParam field = (if field = ''background'' then field else ''request.<deferred_field>'')"

fun check_policy :: "gostring list \<Rightarrow> codex_error + unit" where
  "check_policy [] = Inr ()"
| "check_policy (field # flds) =
     (case map_of topLevelPolicy field of
        None \<Rightarrow> unsupportedField (unknownFieldParam ''request'')
      | Some policy \<Rightarrow> if policy = policyDefer then unsupportedField (deferredFieldParam field) else check_policy flds)"

definition rejectUnknown :: "raw_fields \<Rightarrow> gostring \<Rightarrow> gostring list \<Rightarrow> codex_error + unit" where
  "rejectUnknown flds path allowed =
     (if list_ex (\<lambda>field. field \<notin> set allowed) (sortedKeys flds) then unsupportedField (unknownFieldParam path) else Inr ())"

section \<open>Wire values\<close>

datatype inputWire =
    MessageWire gostring Role "gostring list" \<comment> \<open>ID, Role, the texts of Content\<close>
  | FunctionCallWire gostring gostring gostring gostring gostring \<comment> \<open>ID, CallID, Name, Arguments, Status\<close>
  | FunctionCallOutputWire gostring gostring gostring bool \<comment> \<open>CallID, Output, Status, Error\<close>
  | CustomToolCallWire gostring gostring gostring gostring gostring \<comment> \<open>ID, CallID, Name, Input, Status\<close>
  | CustomToolCallOutputWire gostring gostring gostring bool \<comment> \<open>CallID, Output, Status, Error\<close>

datatype toolWire =
    FunctionToolWire gostring gostring gostring "bool option" \<comment> \<open>Name, Description, Parameters, Strict\<close>
  | CustomToolWire gostring gostring gostring \<comment> \<open>Name, Description, Format\<close>
  | DeferredToolWire ToolKind gostring \<comment> \<open>Kind, Name\<close>

fun toolName :: "toolWire \<Rightarrow> gostring" where
  "toolName (FunctionToolWire name _ _ _) = name"
| "toolName (CustomToolWire name _ _) = name"
| "toolName (DeferredToolWire _ name) = name"

text \<open>Tool choices and text formats are the records of the bridge, field for field.\<close>

record generationWire =
  gw_Stream :: bool
  gw_ParallelToolCalls :: bool
  gw_Include :: "gostring list"
  gw_Effort :: gostring
  gw_Format :: TextFormat

record responsesRequestWire =
  rrw_Model :: gostring
  rrw_Instructions :: gostring
  rrw_PreviousResponseID :: gostring
  rrw_Input :: "inputWire list"
  rrw_Tools :: "toolWire list"
  rrw_ToolChoice :: ToolChoice
  rrw_Generation :: generationWire

section \<open>Input items\<close>

definition parseRole :: "gostring \<Rightarrow> gostring \<Rightarrow> codex_error + Role" where
  "parseRole value param =
     (if value \<in> set [RoleSystem, RoleDeveloper, RoleUser, RoleAssistant] then Inr value else invalidRequest param)"

definition type_of_object :: "raw_fields \<Rightarrow> gostring \<Rightarrow> codex_error + gostring" where
  "type_of_object flds path = requiredStringField flds ''type'' path"

definition decode_part :: "gostring \<Rightarrow> gostring \<Rightarrow> codex_error + gostring" where
  "decode_part path part =
     attempt (rawObject part path) (\<lambda>flds.
     attempt (rejectUnknown flds path [''type'', ''text'']) (\<lambda>_.
     attempt (type_of_object flds path) (\<lambda>contentType.
     if contentType \<noteq> ''input_text'' then newError CodexUnsupportedItemType (dot path ''type'')
     else requiredStringFieldAllowEmpty flds ''text'' path)))"

definition decodeContent :: "gostring \<Rightarrow> gostring \<Rightarrow> int \<Rightarrow> codex_error + gostring list" where
  "decodeContent raw path maxItems =
     (if is_quoted raw
      then attempt (stringValue raw path) (\<lambda>value. Inr [value])
      else attempt (rawArray raw path maxItems)
        (\<lambda>parts. map_all (\<lambda>(index, part). decode_part (indexed path index) part) (enumerate 0 parts)))"

definition decodeMessage :: "raw_fields \<Rightarrow> gostring \<Rightarrow> int \<Rightarrow> codex_error + inputWire" where
  "decodeMessage flds path maxCollectionItems =
     attempt (rejectUnknown flds path [''type'', ''id'', ''role'', ''content'']) (\<lambda>_.
     attempt (requiredStringField flds ''role'' path) (\<lambda>roleValue.
     attempt (parseRole roleValue (dot path ''role'')) (\<lambda>role.
     attempt (optionalString flds ''id'' (dot path ''id'')) (\<lambda>id.
     case map_of flds ''content'' of
       None \<Rightarrow> invalidRequest (dot path ''content'')
     | Some raw \<Rightarrow> attempt (decodeContent raw (dot path ''content'') maxCollectionItems) (\<lambda>content. Inr (MessageWire id role content))))))"

definition decodeFunctionCall :: "raw_fields \<Rightarrow> gostring \<Rightarrow> codex_error + inputWire" where
  "decodeFunctionCall flds path =
     attempt (rejectUnknown flds path [''type'', ''id'', ''call_id'', ''name'', ''arguments'', ''status'']) (\<lambda>_.
     attempt (requiredStringField flds ''call_id'' path) (\<lambda>callID.
     attempt (requiredStringField flds ''name'' path) (\<lambda>name.
     attempt (requiredStringFieldAllowEmpty flds ''arguments'' path) (\<lambda>arguments.
     attempt (optionalString flds ''id'' (dot path ''id'')) (\<lambda>id.
     attempt (optionalString flds ''status'' (dot path ''status'')) (\<lambda>status.
       Inr (FunctionCallWire id callID name arguments status)))))))"

definition decodeCustomToolCall :: "raw_fields \<Rightarrow> gostring \<Rightarrow> codex_error + inputWire" where
  "decodeCustomToolCall flds path =
     attempt (rejectUnknown flds path [''type'', ''id'', ''call_id'', ''name'', ''input'', ''status'']) (\<lambda>_.
     attempt (requiredStringField flds ''call_id'' path) (\<lambda>callID.
     attempt (requiredStringField flds ''name'' path) (\<lambda>name.
     attempt (requiredStringFieldAllowEmpty flds ''input'' path) (\<lambda>input.
     attempt (optionalString flds ''id'' (dot path ''id'')) (\<lambda>id.
     attempt (optionalString flds ''status'' (dot path ''status'')) (\<lambda>status.
       Inr (CustomToolCallWire id callID name input status)))))))"

text \<open>Any marker but \<open>null\<close> and \<open>false\<close> is an error, whatever its value.\<close>

definition optionalErrorMarker :: "raw_fields \<Rightarrow> gostring \<Rightarrow> codex_error + bool" where
  "optionalErrorMarker flds param =
     (case map_of flds ''error'' of
        None \<Rightarrow> Inr False
      | Some raw \<Rightarrow>
          let trimmed = TrimSpace raw in
          if trimmed = ''null'' then Inr False
          else (case unmarshal_bool trimmed of
                  Some value \<Rightarrow> Inr value
                | None \<Rightarrow> if trimmed = [] \<or> parse_json trimmed = None then invalidRequest param else Inr True))"

definition resultStatusIsError :: "gostring \<Rightarrow> bool" where
  "resultStatusIsError status \<longleftrightarrow>
     ToLower (TrimSpace status) \<in> set [''error'', ''failed'', ''failure'', ''cancelled'', ''canceled'', ''incomplete'']"

definition decode_output :: "(gostring \<Rightarrow> gostring \<Rightarrow> gostring \<Rightarrow> bool \<Rightarrow> inputWire) \<Rightarrow> raw_fields \<Rightarrow> gostring \<Rightarrow> codex_error + inputWire" where
  "decode_output wire flds path =
     attempt (rejectUnknown flds path [''type'', ''call_id'', ''output'', ''status'', ''error'']) (\<lambda>_.
     attempt (requiredStringField flds ''call_id'' path) (\<lambda>callID.
     attempt (requiredStringFieldAllowEmpty flds ''output'' path) (\<lambda>out.
     attempt (optionalString flds ''status'' (dot path ''status'')) (\<lambda>status.
     attempt (optionalErrorMarker flds (dot path ''error'')) (\<lambda>marker.
       Inr (wire callID out status (marker \<or> resultStatusIsError status)))))))"

definition decodeFunctionCallOutput :: "raw_fields \<Rightarrow> gostring \<Rightarrow> codex_error + inputWire" where
  "decodeFunctionCallOutput = decode_output FunctionCallOutputWire"

definition decodeCustomToolCallOutput :: "raw_fields \<Rightarrow> gostring \<Rightarrow> codex_error + inputWire" where
  "decodeCustomToolCallOutput = decode_output CustomToolCallOutputWire"

definition decodeInputItem :: "gostring \<Rightarrow> gostring \<Rightarrow> int \<Rightarrow> codex_error + inputWire" where
  "decodeInputItem raw path maxCollectionItems =
     attempt (rawObject raw path) (\<lambda>flds.
     attempt (type_of_object flds path) (\<lambda>itemType.
       if itemType = ''message'' then decodeMessage flds path maxCollectionItems
       else if itemType = ''function_call'' then decodeFunctionCall flds path
       else if itemType = ''function_call_output'' then decodeFunctionCallOutput flds path
       else if itemType = ''custom_tool_call'' then decodeCustomToolCall flds path
       else if itemType = ''custom_tool_call_output'' then decodeCustomToolCallOutput flds path
       else newError CodexUnsupportedItemType (dot path ''type'')))"

fun wire_callID :: "inputWire \<Rightarrow> gostring option" where
  "wire_callID (FunctionCallWire _ callID _ _ _) = Some callID"
| "wire_callID (CustomToolCallWire _ callID _ _ _) = Some callID"
| "wire_callID _ = None"

fun decode_items :: "int \<Rightarrow> nat \<Rightarrow> gostring list \<Rightarrow> gostring list \<Rightarrow> codex_error + inputWire list" where
  "decode_items maxCollectionItems index seen [] = Inr []"
| "decode_items maxCollectionItems index seen (raw # items) =
     (let path = indexed ''input'' index in
      attempt (decodeInputItem raw path maxCollectionItems) (\<lambda>item.
      case wire_callID item of
        Some callID \<Rightarrow>
          if callID \<in> set seen then invalidRequest (dot path ''call_id'')
          else attempt (decode_items maxCollectionItems (Suc index) (callID # seen) items) (\<lambda>rest. Inr (item # rest))
      | None \<Rightarrow> attempt (decode_items maxCollectionItems (Suc index) seen items) (\<lambda>rest. Inr (item # rest))))"

definition decodeInputItems :: "gostring list \<Rightarrow> int \<Rightarrow> int \<Rightarrow> codex_error + inputWire list" where
  "decodeInputItems items maxItems maxCollectionItems =
     (if maxItems \<le> 0 \<or> len items > maxItems then newError CodexRequestTooLarge ''input''
      else decode_items maxCollectionItems 0 [] items)"

section \<open>Tools\<close>

definition decodeFunctionTool :: "raw_fields \<Rightarrow> gostring \<Rightarrow> int \<Rightarrow> DecoderLimits \<Rightarrow> codex_error + toolWire" where
  "decodeFunctionTool flds path remainingSchemaBytes limits =
     attempt (rejectUnknown flds path [''type'', ''name'', ''description'', ''parameters'', ''strict'']) (\<lambda>_.
     attempt (requiredStringField flds ''name'' path) (\<lambda>name.
     attempt (optionalString flds ''description'' (dot path ''description'')) (\<lambda>description.
     case map_of flds ''parameters'' of
       None \<Rightarrow> invalidRequest (dot path ''parameters'')
     | Some parameters \<Rightarrow>
         if len parameters > remainingSchemaBytes then newError CodexRequestTooLarge ''tools''
         else if \<not> validateJSONSchema parameters limits then invalidRequest (dot path ''parameters'')
         else attempt (optionalBoolPointer flds ''strict'' (dot path ''strict'')) (\<lambda>strict.
           Inr (FunctionToolWire name description parameters strict)))))"

definition optionalStringField :: "raw_fields \<Rightarrow> gostring \<Rightarrow> gostring \<Rightarrow> codex_error + gostring" where
  "optionalStringField flds field path = optionalString flds field (dot path field)"

text \<open>The format of a custom tool: \<open>text\<close> when it is absent.\<close>

definition decode_custom_format :: "raw_fields \<Rightarrow> gostring \<Rightarrow> codex_error + gostring" where
  "decode_custom_format flds path =
     (case map_of flds ''format'' of
        None \<Rightarrow> Inr CustomToolFormatText
      | Some raw \<Rightarrow>
          let formatPath = dot path ''format'' in
          attempt (rawObject raw formatPath) (\<lambda>formatFields.
          attempt (requiredStringField formatFields ''type'' formatPath) (\<lambda>formatType.
          if formatType = CustomToolFormatText then
            attempt (rejectUnknown formatFields formatPath [''type'']) (\<lambda>_. Inr CustomToolFormatText)
          else if formatType = CustomToolFormatGrammar then
            attempt (rejectUnknown formatFields formatPath [''type'', ''syntax'', ''definition'']) (\<lambda>_.
            attempt (optionalStringField formatFields ''syntax'' formatPath) (\<lambda>_.
            attempt (optionalStringField formatFields ''definition'' formatPath) (\<lambda>_. Inr CustomToolFormatGrammar)))
          else invalidRequest (dot formatPath ''type''))))"

definition decodeCustomTool :: "raw_fields \<Rightarrow> gostring \<Rightarrow> codex_error + toolWire" where
  "decodeCustomTool flds path =
     attempt (rejectUnknown flds path [''type'', ''name'', ''description'', ''format'']) (\<lambda>_.
     attempt (requiredStringField flds ''name'' path) (\<lambda>name.
     attempt (optionalStringField flds ''description'' path) (\<lambda>description.
     attempt (decode_custom_format flds path) (\<lambda>format. Inr (CustomToolWire name description format)))))"

definition decodeNamespaceTool :: "raw_fields \<Rightarrow> gostring \<Rightarrow> int \<Rightarrow> codex_error + toolWire" where
  "decodeNamespaceTool flds path maxCollectionItems =
     attempt (rejectUnknown flds path [''type'', ''name'', ''description'', ''tools'']) (\<lambda>_.
     attempt (optionalStringField flds ''name'' path) (\<lambda>name.
     attempt (optionalStringField flds ''description'' path) (\<lambda>_.
     attempt (case map_of flds ''tools'' of None \<Rightarrow> Inr [] | Some raw \<Rightarrow> rawArray raw (dot path ''tools'') maxCollectionItems) (\<lambda>_.
       Inr (DeferredToolWire ToolNamespace name)))))"

definition decodeWebSearchTool :: "raw_fields \<Rightarrow> gostring \<Rightarrow> codex_error + toolWire" where
  "decodeWebSearchTool flds path =
     attempt (rejectUnknown flds path [''type'', ''external_web_access'']) (\<lambda>_.
     attempt (optionalBoolPointer flds ''external_web_access'' (dot path ''external_web_access'')) (\<lambda>_.
       Inr (DeferredToolWire ToolWebSearch [])))"

definition decode_tool :: "gostring \<Rightarrow> gostring \<Rightarrow> int \<Rightarrow> DecoderLimits \<Rightarrow> codex_error + toolWire" where
  "decode_tool raw path remainingSchemaBytes limits =
     attempt (rawObject raw path) (\<lambda>flds.
     attempt (type_of_object flds path) (\<lambda>toolType.
       if toolType = ToolFunction then decodeFunctionTool flds path remainingSchemaBytes limits
       else if toolType = ToolCustom then decodeCustomTool flds path
       else if toolType = ToolNamespace then decodeNamespaceTool flds path (dl_MaxCollectionItems limits)
       else if toolType = ToolWebSearch then decodeWebSearchTool flds path
       else newError CodexUnsupportedToolType (dot path ''type'')))"

fun schema_bytes :: "toolWire \<Rightarrow> int" where
  "schema_bytes (FunctionToolWire _ _ parameters _) = len parameters"
| "schema_bytes _ = 0"

fun decode_tools :: "int \<Rightarrow> DecoderLimits \<Rightarrow> nat \<Rightarrow> gostring list \<Rightarrow> int \<Rightarrow> gostring list \<Rightarrow> codex_error + toolWire list" where
  "decode_tools maxSchemaBytes limits index names schemaBytes [] = Inr []"
| "decode_tools maxSchemaBytes limits index names schemaBytes (raw # raws) =
     (let path = indexed ''tools'' index in
      attempt (decode_tool raw path (maxSchemaBytes - schemaBytes) limits) (\<lambda>tool.
        let name = toolName tool in
        if name \<noteq> [] \<and> name \<in> set names then invalidRequest (dot path ''name'')
        else attempt
          (decode_tools maxSchemaBytes limits (Suc index) (if name \<noteq> [] then name # names else names)
             (schemaBytes + schema_bytes tool) raws)
          (\<lambda>rest. Inr (tool # rest))))"

definition decodeTools :: "gostring list \<Rightarrow> int \<Rightarrow> int \<Rightarrow> DecoderLimits \<Rightarrow> codex_error + toolWire list" where
  "decodeTools tools maxTools maxSchemaBytes limits =
     (if maxTools \<le> 0 \<or> len tools > maxTools then newError CodexRequestTooLarge ''tools''
      else decode_tools maxSchemaBytes limits 0 [] 0 tools)"

section \<open>Tool choice, reasoning, text\<close>

definition tool_choice :: "ToolChoiceKind \<Rightarrow> gostring \<Rightarrow> ToolChoice" where
  "tool_choice kind functionName = \<lparr>tcho_Kind = kind, tcho_FunctionName = functionName\<rparr>"

definition decodeToolChoice :: "gostring \<Rightarrow> codex_error + ToolChoice" where
  "decodeToolChoice raw =
     (if is_quoted raw then
        attempt (stringValue raw ''tool_choice'') (\<lambda>choice.
          if choice \<in> set [ToolChoiceAuto, ToolChoiceNone, ToolChoiceRequired] then Inr (tool_choice choice [])
          else invalidRequest ''tool_choice'')
      else
        attempt (rawObject raw ''tool_choice'') (\<lambda>flds.
        attempt (rejectUnknown flds ''tool_choice'' [''type'', ''name'']) (\<lambda>_.
        attempt (type_of_object flds ''tool_choice'') (\<lambda>choiceType.
        if choiceType \<noteq> ''function'' then invalidRequest ''tool_choice.type''
        else attempt (requiredStringField flds ''name'' ''tool_choice'') (\<lambda>name. Inr (tool_choice ToolChoiceFunction name))))))"

fun is_function_tool :: "gostring \<Rightarrow> toolWire \<Rightarrow> bool" where
  "is_function_tool name (FunctionToolWire tool _ _ _) = (tool = name)"
| "is_function_tool name _ = False"

definition validateToolChoice :: "ToolChoice \<Rightarrow> toolWire list \<Rightarrow> codex_error + unit" where
  "validateToolChoice choice tools =
     (if tcho_Kind choice \<noteq> ToolChoiceFunction then Inr ()
      else if list_ex (is_function_tool (tcho_FunctionName choice)) tools then Inr ()
      else invalidRequest ''tool_choice.name'')"

definition decodeReasoning :: "gostring \<Rightarrow> codex_error + gostring" where
  "decodeReasoning raw =
     attempt (rawObject raw ''reasoning'') (\<lambda>flds.
     attempt (rejectUnknown flds ''reasoning'' [''effort'', ''summary'']) (\<lambda>_.
     attempt (optionalStringField flds ''effort'' ''reasoning'') (\<lambda>effort.
     attempt (optionalStringField flds ''summary'' ''reasoning'') (\<lambda>_. Inr effort))))"

definition plain_format :: "TextFormatKind \<Rightarrow> TextFormat" where
  "plain_format kind = \<lparr>fmt_Kind = kind, fmt_Name = [], fmt_Description = [], fmt_Schema = [], fmt_Strict = None\<rparr>"

definition decode_schema_format :: "raw_fields \<Rightarrow> int \<Rightarrow> DecoderLimits \<Rightarrow> codex_error + TextFormat" where
  "decode_schema_format formatFields remainingSchemaBytes limits =
     attempt (rejectUnknown formatFields ''text.format'' [''type'', ''name'', ''description'', ''schema'', ''strict'']) (\<lambda>_.
     attempt (requiredStringField formatFields ''name'' ''text.format'') (\<lambda>name.
     attempt (optionalStringField formatFields ''description'' ''text.format'') (\<lambda>description.
     case map_of formatFields ''schema'' of
       None \<Rightarrow> invalidRequest ''text.format.schema''
     | Some schema \<Rightarrow>
         if len schema > remainingSchemaBytes then newError CodexRequestTooLarge ''text.format.schema''
         else if \<not> validateJSONSchema schema limits then invalidRequest ''text.format.schema''
         else attempt (optionalBoolPointer formatFields ''strict'' ''text.format.strict'') (\<lambda>strict.
           Inr \<lparr>fmt_Kind = TextFormatJSONSchema, fmt_Name = name, fmt_Description = description, fmt_Schema = schema,
                fmt_Strict = strict\<rparr>))))"

definition decodeText :: "gostring \<Rightarrow> int \<Rightarrow> DecoderLimits \<Rightarrow> codex_error + TextFormat" where
  "decodeText raw remainingSchemaBytes limits =
     attempt (rawObject raw ''text'') (\<lambda>flds.
     attempt (rejectUnknown flds ''text'' [''format'', ''verbosity'']) (\<lambda>_.
     attempt (optionalStringField flds ''verbosity'' ''text'') (\<lambda>_.
     case map_of flds ''format'' of
       None \<Rightarrow> Inr (plain_format TextFormatText)
     | Some formatRaw \<Rightarrow>
         attempt (rawObject formatRaw ''text.format'') (\<lambda>formatFields.
         attempt (type_of_object formatFields ''text.format'') (\<lambda>formatType.
           if formatType = TextFormatText \<or> formatType = TextFormatJSONObject then
             attempt (rejectUnknown formatFields ''text.format'' [''type'']) (\<lambda>_. Inr (plain_format formatType))
           else if formatType = TextFormatJSONSchema then decode_schema_format formatFields remainingSchemaBytes limits
           else invalidRequest ''text.format.type'')))))"

section \<open>The request\<close>

definition optional_field :: "raw_fields \<Rightarrow> gostring \<Rightarrow> 'a \<Rightarrow> (gostring \<Rightarrow> codex_error + 'a) \<Rightarrow> codex_error + 'a" where
  "optional_field flds field absent decode = (case map_of flds field of None \<Rightarrow> Inr absent | Some raw \<Rightarrow> decode raw)"

definition decode_input :: "raw_fields \<Rightarrow> DecoderLimits \<Rightarrow> codex_error + inputWire list" where
  "decode_input flds limits = optional_field flds ''input'' [] (\<lambda>raw.
     attempt (rawArray raw ''input'' (dl_MaxInputItems limits)) (\<lambda>items.
       decodeInputItems items (dl_MaxInputItems limits) (dl_MaxCollectionItems limits)))"

definition decode_tool_field :: "raw_fields \<Rightarrow> DecoderLimits \<Rightarrow> codex_error + toolWire list" where
  "decode_tool_field flds limits = optional_field flds ''tools'' [] (\<lambda>raw.
     attempt (rawArray raw ''tools'' (dl_MaxTools limits)) (\<lambda>tools.
       decodeTools tools (dl_MaxTools limits) (dl_MaxSchemaBytes limits) limits))"

definition decode_stream :: "raw_fields \<Rightarrow> codex_error + bool" where
  "decode_stream flds =
     (case map_of flds ''stream'' of
        None \<Rightarrow> unsupportedField ''stream''
      | Some raw \<Rightarrow> attempt (boolValue raw ''stream'') (\<lambda>stream. if \<not> stream then unsupportedField ''stream'' else Inr stream))"

text \<open>The fields that are accepted for compatibility and then ignored.\<close>

definition check_ignored :: "raw_fields \<Rightarrow> codex_error + unit" where
  "check_ignored flds =
     attempt (optional_field flds ''store'' () (\<lambda>raw.
       attempt (boolValue raw ''store'') (\<lambda>store. if store then unsupportedField ''store'' else Inr ()))) (\<lambda>_.
     attempt (optional_field flds ''stream_options'' [] (\<lambda>raw. rawObject raw ''stream_options'')) (\<lambda>_.
     attempt (optional_field flds ''service_tier'' [] (\<lambda>raw. stringValue raw ''service_tier'')) (\<lambda>_.
     attempt (optional_field flds ''prompt_cache_key'' [] (\<lambda>raw. stringValue raw ''prompt_cache_key'')) (\<lambda>_.
     attempt (map_all (\<lambda>field. optional_field flds field [] (\<lambda>raw. rawObject raw field)) [''metadata'', ''client_metadata'']) (\<lambda>_.
       Inr ())))))"

definition decodeRequestWire :: "raw_fields \<Rightarrow> DecoderLimits \<Rightarrow> codex_error + responsesRequestWire" where
  "decodeRequestWire flds limits =
     attempt (check_policy (sortedKeys flds)) (\<lambda>_.
     attempt (case map_of flds ''model'' of None \<Rightarrow> invalidRequest ''model'' | Some raw \<Rightarrow> requiredString raw ''model'') (\<lambda>model.
     attempt (optional_field flds ''instructions'' [] (\<lambda>raw. stringValue raw ''instructions'')) (\<lambda>instructions.
     attempt (optional_field flds ''previous_response_id'' [] (\<lambda>raw. requiredString raw ''previous_response_id'')) (\<lambda>previous.
     attempt (decode_input flds limits) (\<lambda>input.
     attempt (decode_tool_field flds limits) (\<lambda>tools.
     attempt (optional_field flds ''tool_choice'' (tool_choice ToolChoiceAuto []) decodeToolChoice) (\<lambda>choice.
     attempt (optional_field flds ''parallel_tool_calls'' False (\<lambda>raw. boolValue raw ''parallel_tool_calls'')) (\<lambda>parallel.
     attempt (optional_field flds ''reasoning'' [] decodeReasoning) (\<lambda>effort.
     attempt (optional_field flds ''text'' (plain_format TextFormatText)
       (\<lambda>raw. decodeText raw (dl_MaxSchemaBytes limits - sum_list (map schema_bytes tools)) limits)) (\<lambda>format.
     attempt (decode_stream flds) (\<lambda>stream.
     attempt (optional_field flds ''include'' [] (\<lambda>raw. stringArray raw ''include'' (dl_MaxCollectionItems limits))) (\<lambda>include.
     attempt (check_ignored flds) (\<lambda>_.
     attempt (validateToolChoice choice tools) (\<lambda>_.
       Inr \<lparr>rrw_Model = model, rrw_Instructions = instructions, rrw_PreviousResponseID = previous, rrw_Input = input,
            rrw_Tools = tools, rrw_ToolChoice = choice,
            rrw_Generation = \<lparr>gw_Stream = stream, gw_ParallelToolCalls = parallel, gw_Include = include, gw_Effort = effort,
              gw_Format = format\<rparr>\<rparr>))))))))))))))"

section \<open>Translation to the bridge\<close>

text \<open>The bridge's constructor of a schema: valid JSON whose root is an object.\<close>

definition NewJSONSchema :: "gobytes \<Rightarrow> JSONSchema option" where
  "NewJSONSchema raw = (if parse_json raw = None then None else if unmarshal_object raw = None then None else Some raw)"

fun translate_input :: "inputWire \<Rightarrow> InputItem" where
  "translate_input (MessageWire ident role content) = Message ident role (map TextContent content)"
| "translate_input (FunctionCallWire ident callID name arguments status) = FunctionCall ident callID name arguments status"
| "translate_input (FunctionCallOutputWire callID out status err) = FunctionCallOutput callID out status err"
| "translate_input (CustomToolCallWire ident callID name input status) = CustomToolCall ident callID name input status"
| "translate_input (CustomToolCallOutputWire callID out status err) = CustomToolCallOutput callID out status err"

fun translate_tool :: "toolWire \<Rightarrow> codex_error + Tool" where
  "translate_tool (FunctionToolWire name description parameters strict) =
     (case NewJSONSchema parameters of
        None \<Rightarrow> Inl InternalError
      | Some schema \<Rightarrow> Inr (FunctionTool name description schema strict))"
| "translate_tool (CustomToolWire name description format) = Inr (CustomTool name description format)"
| "translate_tool (DeferredToolWire kind name) = Inr (DeferredTool kind name)"

definition translateRequest :: "responsesRequestWire \<Rightarrow> codex_error + 'c Request" where
  "translateRequest wire =
     (let g = rrw_Generation wire; format = gw_Format g in
      attempt (map_all translate_tool (rrw_Tools wire)) (\<lambda>tools.
      attempt (if fmt_Schema format \<noteq> []
               then (case NewJSONSchema (fmt_Schema format) of None \<Rightarrow> Inl InternalError | Some schema \<Rightarrow> Inr schema)
               else Inr []) (\<lambda>schema.
        Inr \<lparr>rq_Model = rrw_Model wire, rq_Instructions = rrw_Instructions wire,
             rq_PreviousResponseID = rrw_PreviousResponseID wire, rq_Input = map translate_input (rrw_Input wire),
             rq_Tools = tools, rq_ToolChoice = rrw_ToolChoice wire,
             rq_Generation = \<lparr>gen_Stream = gw_Stream g, gen_ParallelToolCalls = gw_ParallelToolCalls g,
               gen_Include = gw_Include g, gen_Effort = gw_Effort g, gen_Format = format\<lparr>fmt_Schema := schema\<rparr>\<rparr>,
             rq_ToolRegistry = None, rq_Continuation = None\<rparr>)))"

section \<open>The boundary\<close>

record request_body =
  body_bytes :: gobytes
  body_fails :: bool

text \<open>
  \<open>strings.EqualFold\<close> with an ASCII text: besides the case of ASCII letters it folds U+212A (the Kelvin sign) to k
  and U+017F (the long s) to s.
\<close>

fun fold_ascii :: "gostring \<Rightarrow> gostring" where
  "fold_ascii [] = []"
| "fold_ascii (c # cs) =
     (if 65 \<le> byte c \<and> byte c \<le> 90 then char_of (byte c + 32) # fold_ascii cs
      else case cs of
          d # ds \<Rightarrow>
            if c = CHR 0xC5 \<and> d = CHR 0xBF then CHR ''s'' # fold_ascii ds
            else (case ds of
                e # es \<Rightarrow>
                  if c = CHR 0xE2 \<and> d = CHR 0x84 \<and> e = CHR 0xAA then CHR ''k'' # fold_ascii es
                  else c # fold_ascii cs
              | [] \<Rightarrow> c # fold_ascii cs)
        | [] \<Rightarrow> [c])"

definition validateContentType :: "gostring option \<Rightarrow> codex_error + unit" where
  "validateContentType mediaType =
     (case mediaType of
        None \<Rightarrow> invalidRequest ''content-type''
      | Some m \<Rightarrow> if fold_ascii m = ''application/json'' then Inr () else invalidRequest ''content-type'')"

definition MaxInt64 :: int where "MaxInt64 = 2 ^ 63 - 1"

text \<open>The reader stops at the limit before it meets a failure behind it.\<close>

definition readBounded :: "request_body option \<Rightarrow> int \<Rightarrow> codex_error + gobytes" where
  "readBounded body maxBodyBytes =
     (case body of
        None \<Rightarrow> invalidRequest ''body''
      | Some b \<Rightarrow>
          let limit = (if maxBodyBytes < MaxInt64 then maxBodyBytes + 1 else maxBodyBytes) in
          if body_fails b \<and> len (body_bytes b) < limit then invalidRequest ''body''
          else let data = take (nat limit) (body_bytes b) in
            if len data > maxBodyBytes then newError CodexRequestTooLarge ''body'' else Inr data)"

definition decodeJSONObject :: "gobytes \<Rightarrow> DecoderLimits \<Rightarrow> codex_error + raw_fields" where
  "decodeJSONObject data limits =
     (if TrimSpace data = [] then newError CodexMalformedJSON ''body''
      else case validateJSONDocument data (json_limits_of limits) of
          Some JsonStructureLimit \<Rightarrow> newError CodexRequestTooLarge ''body''
        | Some _ \<Rightarrow> newError CodexMalformedJSON ''body''
        | None \<Rightarrow> (if parse_front data = None then newError CodexMalformedJSON ''body''
            else case raw_object data of None \<Rightarrow> newError CodexMalformedJSON ''body'' | Some (flds, _) \<Rightarrow> Inr flds))"

definition Decode :: "DecoderLimits option \<Rightarrow> request_body option \<Rightarrow> gostring option \<Rightarrow> codex_error + 'c Request" where
  "Decode decoder body mediaType =
     (case decoder of
        None \<Rightarrow> Inl InternalError
      | Some limits \<Rightarrow>
          if dl_MaxBodyBytes limits \<le> 0 then Inl InternalError
          else attempt (validateContentType mediaType) (\<lambda>_.
            attempt (readBounded body (dl_MaxBodyBytes limits)) (\<lambda>data.
            if \<not> utf8_Valid data then newError CodexMalformedJSON ''body''
            else attempt (decodeJSONObject data limits) (\<lambda>flds.
            attempt (decodeRequestWire flds limits) (\<lambda>wire. translateRequest wire)))))"

text \<open>An HTTP request as far as the decoder looks at it.\<close>

record http_request =
  hr_Body :: "request_body option"
  hr_ContentLength :: int
  hr_MediaType :: "gostring option"

definition DecodeRequest :: "DecoderLimits option \<Rightarrow> http_request option \<Rightarrow> codex_error + 'c Request" where
  "DecodeRequest decoder r =
     (case r of
        None \<Rightarrow> invalidRequest ''request''
      | Some q \<Rightarrow>
          if hr_Body q = None then invalidRequest ''body''
          else case decoder of
              None \<Rightarrow> Inl InternalError
            | Some limits \<Rightarrow>
                if dl_MaxBodyBytes limits \<le> 0 then Inl InternalError
                else if hr_ContentLength q > dl_MaxBodyBytes limits then newError CodexRequestTooLarge ''body''
                else Decode decoder (hr_Body q) (hr_MediaType q))"

text \<open>The package-level functions make a decoder for one request.\<close>

definition package_Decode :: "request_body option \<Rightarrow> gostring option \<Rightarrow> int \<Rightarrow> codex_error + 'c Request" where
  "package_Decode body mediaType maxBodyBytes =
     (case NewDecoder maxBodyBytes of None \<Rightarrow> Inl InternalError | Some decoder \<Rightarrow> Decode (Some decoder) body mediaType)"

definition package_DecodeRequest :: "http_request option \<Rightarrow> int \<Rightarrow> codex_error + 'c Request" where
  "package_DecodeRequest r maxBodyBytes =
     (case NewDecoder maxBodyBytes of None \<Rightarrow> Inl InternalError | Some decoder \<Rightarrow> DecodeRequest (Some decoder) r)"

end
