(* ===== verification/Codex_Structure.thy ===== *)
theory Codex_Structure
  imports Codex_Request
begin

text \<open>
  What the structural pass promises: the documents it accepts are those the parser reads whose objects name each
  key once and whose nesting, collections and tokens stay within the limits.
\<close>

section \<open>The specification\<close>

fun structured :: "int \<Rightarrow> int \<Rightarrow> json \<Rightarrow> bool" where
  "structured items depth (JArr vs) \<longleftrightarrow>
     1 \<le> depth \<and> len vs \<le> items \<and> (\<forall>v \<in> set vs. structured items (depth - 1) v)"
| "structured items depth (JObj ms) \<longleftrightarrow>
     1 \<le> depth \<and> len ms \<le> items \<and> distinct (map fst ms) \<and> (\<forall>(k, v) \<in> set ms. structured items (depth - 1) v)"
| "structured items depth (JNum n) \<longleftrightarrow> \<not> float_overflow n"
| "structured items depth _ \<longleftrightarrow> True"

fun json_tokens :: "json \<Rightarrow> int" where
  "json_tokens (JArr vs) = 2 + sum_list (map json_tokens vs)"
| "json_tokens (JObj ms) = 2 + sum_list (map (\<lambda>(k, v). 1 + json_tokens v) ms)"
| "json_tokens _ = 1"

section \<open>Parsing without fuel\<close>

definition value_at :: "int \<Rightarrow> gostring \<Rightarrow> (json \<times> gostring) option" where
  "value_at d s = parse_value (2 * length s + 1) d s"

definition elems_at :: "int \<Rightarrow> gostring \<Rightarrow> (json list \<times> gostring) option" where
  "elems_at d s = parse_elems (2 * length s + 2) d s"

definition members_at :: "int \<Rightarrow> gostring \<Rightarrow> ((gostring \<times> json) list \<times> gostring) option" where
  "members_at d s = parse_members (2 * length s + 2) d s"

lemma parse_at:
  "2 * length s + 1 \<le> n \<Longrightarrow> parse_value n d s = value_at d s"
  "2 * length s + 2 \<le> n \<Longrightarrow> parse_elems n d s = elems_at d s"
  "2 * length s + 2 \<le> n \<Longrightarrow> parse_members n d s = members_at d s"
  unfolding value_at_def elems_at_def members_at_def
  by (rule parse_fuel(1) [OF refl order_refl], assumption) (rule parse_fuel(2,3) [OF refl order_refl], assumption)+

lemma parse_front_at: "parse_front s = value_at max_nesting s"
  unfolding parse_front_def by (rule parse_at(1)) (simp add: fuel_for_def)

lemma at_shrinks:
  "value_at d s = Some (v, r) \<Longrightarrow> length r < length s"
  "elems_at d s = Some (vs, r) \<Longrightarrow> length r < length s"
  "members_at d s = Some (ms, r) \<Longrightarrow> length r < length s"
  unfolding value_at_def elems_at_def members_at_def using parse_shrinks by blast+

lemma value_at_Cons:
  assumes "skip_ws s = c # r"
  shows "value_at d s =
      (if c = CHR ''['' then
         (if d \<le> 0 then None
          else case skip_ws r of
              e # r' \<Rightarrow> if e = CHR '']'' then Some (JArr [], r') else map_option (\<lambda>(vs, t). (JArr vs, t)) (elems_at (d - 1) r)
            | [] \<Rightarrow> None)
       else if c = CHR ''{'' then
         (if d \<le> 0 then None
          else case skip_ws r of
              e # r' \<Rightarrow> if e = CHR ''}'' then Some (JObj [], r') else map_option (\<lambda>(ms, t). (JObj ms, t)) (members_at (d - 1) r)
            | [] \<Rightarrow> None)
       else parse_scalar (c # r))"
proof -
  have l: "2 * length r + 2 \<le> 2 * length s" using skip_ws_Cons [OF assms] by simp
  obtain n where n: "2 * length s + 1 = Suc n" "n = 2 * length s" by simp
  show ?thesis
    unfolding value_at_def n(1) by (cases "skip_ws r") (simp_all add: assms parse_at(2,3) [OF l [folded n(2)]])
qed

lemma value_at_Nil: "skip_ws s = [] \<Longrightarrow> value_at d s = None"
proof -
  obtain n where n: "2 * length s + 1 = Suc n" by simp
  show "skip_ws s = [] \<Longrightarrow> value_at d s = None" unfolding value_at_def n by simp
qed

lemma elems_at_value:
  assumes "value_at d s = Some (v, r)" "skip_ws r = c # r'"
  shows "elems_at d s =
      (if c = CHR '']'' then Some ([v], r')
       else if c = CHR '','' then map_option (\<lambda>(vs, t). (v # vs, t)) (elems_at d r')
       else None)"
proof -
  have l: "2 * length r' + 2 \<le> Suc (2 * length s)" using skip_ws_Cons [OF assms(2)] at_shrinks(1) [OF assms(1)] by simp
  obtain n where n: "2 * length s + 2 = Suc n" "n = Suc (2 * length s)" by simp
  have v: "parse_value n d s = Some (v, r)" using parse_at(1) [of s n d] assms(1) n(2) by simp
  show ?thesis unfolding elems_at_def [of d s] n(1) by (simp add: v assms(2) parse_at(2) [OF l [folded n(2)]])
qed

lemma members_at_value:
  assumes "skip_ws s = CHR 0x22 # qs" "scan_string qs = Some (raw, t)" "skip_ws t = CHR '':'' # ks"
    "value_at d ks = Some (v, r)" "skip_ws r = c # r'"
  shows "members_at d s =
      (if c = CHR ''}'' then Some ([(unquote raw, v)], r')
       else if c = CHR '','' then map_option (\<lambda>(ms, u). ((unquote raw, v) # ms, u)) (members_at d r')
       else None)"
proof -
  note l1 = skip_ws_Cons [OF assms(1)] scan_string_shrinks [OF assms(2)] skip_ws_Cons [OF assms(3)]
  have l: "2 * length r' + 2 \<le> Suc (2 * length s)" "2 * length ks + 1 \<le> Suc (2 * length s)"
    using l1 skip_ws_Cons [OF assms(5)] at_shrinks(1) [OF assms(4)] by simp_all
  obtain n where n: "2 * length s + 2 = Suc n" "n = Suc (2 * length s)" by simp
  show ?thesis
    unfolding members_at_def [of d s] n(1)
    by (simp add: assms parse_at(1) [OF l(2) [folded n(2)]] parse_at(3) [OF l(1) [folded n(2)]])
qed

section \<open>The token reader at white space, commas and colons\<close>

lemma next_token_ws: "next_token st stack s = next_token st stack (skip_ws s)"
  by (induction s) simp_all

lemma skip_ws_head: "skip_ws s = c # r \<Longrightarrow> \<not> json_space c"
  by (induction s) (auto split: if_splits)

lemma next_token_Nil: "skip_ws s = [] \<Longrightarrow> next_token st stack s = TokenEOF"
  by (subst next_token_ws) simp

lemma next_token_direct:
  "skip_ws s = c # r \<Longrightarrow> c \<noteq> CHR '':'' \<Longrightarrow> c \<noteq> CHR '','' \<Longrightarrow> next_token st stack s = direct_token st stack c r"
  by (subst next_token_ws) (use skip_ws_head in force)

lemma next_token_comma:
  assumes "skip_ws s = CHR '','' # r"
  shows "next_token st stack s =
    (if st = ArrayComma then next_token ArrayValue stack r
     else if st = ObjectComma then next_token ObjectKey stack r else TokenError)"
  by (subst next_token_ws) (simp add: assms)

lemma next_token_colon:
  assumes "skip_ws s = CHR '':'' # r"
  shows "next_token st stack s = (if st \<noteq> ObjectColon then TokenError else next_token ObjectValue stack r)"
  by (subst next_token_ws) (simp add: assms)

section \<open>The scan around one value\<close>

text \<open>
  A value is expected at the root, as an element of an array or as the value of a member. The scan counts it in its
  array, then completes it.
\<close>

definition count_member :: "json_scan \<Rightarrow> json_scan" where
  "count_member sc =
     (case sc_frames sc of
        current # frames \<Rightarrow>
          if fr_kind current = CHR ''['' then sc\<lparr>sc_frames := current\<lparr>fr_memberCount := fr_memberCount current + 1\<rparr> # frames\<rparr> else sc
      | [] \<Rightarrow> sc)"

definition room :: "json_limits \<Rightarrow> json_scan \<Rightarrow> bool" where
  "room lim sc \<longleftrightarrow>
     (case sc_frames sc of
        current # frames \<Rightarrow> fr_kind current = CHR ''['' \<longrightarrow> fr_memberCount current + 1 \<le> jl_items lim
      | [] \<Rightarrow> True)"

definition expects :: "json_scan \<Rightarrow> token_state \<Rightarrow> bool" where
  "expects sc st \<longleftrightarrow>
     (case sc_frames sc of
        [] \<Rightarrow> \<not> sc_rootComplete sc \<and> st = TopValue
      | current # frames \<Rightarrow>
          fr_kind current = CHR ''['' \<and> (st = ArrayStart \<or> st = ArrayValue)
          \<or> fr_kind current = CHR ''{'' \<and> \<not> fr_expectingKey current \<and> st = ObjectValue)"

definition add_tokens :: "int \<Rightarrow> json_scan \<Rightarrow> json_scan" where
  "add_tokens n sc = sc\<lparr>sc_tokens := sc_tokens sc + n\<rparr>"

definition value_after :: "int \<Rightarrow> json_scan \<Rightarrow> json_scan" where
  "value_after n sc = complete_value (add_tokens n (count_member sc))"

definition value_open :: "char \<Rightarrow> json_scan \<Rightarrow> json_scan" where
  "value_open c sc = (let sc' = add_tokens 1 (count_member sc) in sc'\<lparr>sc_frames := open_frame c # sc_frames sc'\<rparr>)"

lemmas scan_defs = count_member_def room_def add_tokens_def value_after_def value_open_def complete_value_def open_frame_def

lemma expects_allowed: "expects sc st \<Longrightarrow> value_allowed st"
  by (auto simp: expects_def value_allowed_def split: list.splits)

text \<open>A token where a value is expected.\<close>

lemma scan_scalar:
  assumes "expects sc st" "token = TString v \<or> token = TOther"
  shows "scan_token lim token sc =
    (if sc_tokens sc + 1 > jl_tokens lim \<or> \<not> room lim sc then Inl JsonStructureLimit else Inr (value_after 1 sc))"
  using assms
  by (cases "sc_frames sc")
    (auto simp: expects_def scan_token_def root_token_def element_token_def value_token_def scan_defs Let_def)

lemma scan_open:
  assumes "expects sc st" "c = CHR ''['' \<or> c = CHR ''{''"
  shows "scan_token lim (TDelim c) sc =
    (if sc_tokens sc + 1 > jl_tokens lim \<or> \<not> room lim sc \<or> len (sc_frames sc) + 1 > jl_depth lim then Inl JsonStructureLimit
     else Inr (value_open c sc))"
  using assms
  by (cases "sc_frames sc")
    (auto simp: expects_def scan_token_def root_token_def element_token_def value_token_def scan_defs Let_def)

lemma expects_not_key: "expects sc st \<Longrightarrow> st \<noteq> ObjectStart \<and> st \<noteq> ObjectKey"
  by (auto simp: expects_def split: list.splits)

lemma direct_scalar:
  assumes "expects sc st" "c \<notin> set [CHR ''['', CHR '']'', CHR ''{'', CHR ''}'']"
  shows "direct_token st stack c r = scalar_token st stack (c # r)"
  using assms expects_allowed [OF assms(1)] expects_not_key [OF assms(1)] by (auto simp: direct_token_def)

text \<open>The tokens inside an array and an object.\<close>

lemma scan_close_array:
  assumes "sc_frames sc = current # frames" "fr_kind current = CHR ''[''"
  shows "scan_token lim (TDelim (CHR '']'')) sc =
    (if sc_tokens sc + 1 > jl_tokens lim then Inl JsonStructureLimit
     else Inr (complete_value ((add_tokens 1 sc)\<lparr>sc_frames := frames\<rparr>)))"
  using assms by (simp add: scan_token_def element_token_def pop_frame_def add_tokens_def Let_def)

lemma scan_close_object:
  assumes "sc_frames sc = current # frames" "fr_kind current = CHR ''{''" "fr_expectingKey current"
  shows "scan_token lim (TDelim (CHR ''}'')) sc =
    (if sc_tokens sc + 1 > jl_tokens lim then Inl JsonStructureLimit
     else Inr (complete_value ((add_tokens 1 sc)\<lparr>sc_frames := frames\<rparr>)))"
  using assms by (simp add: scan_token_def key_token_def pop_frame_def add_tokens_def Let_def)

lemma scan_key:
  assumes "sc_frames sc = current # frames" "fr_kind current = CHR ''{''" "fr_expectingKey current"
  shows "scan_token lim (TString key) sc =
    (if sc_tokens sc + 1 > jl_tokens lim then Inl JsonStructureLimit
     else if key \<in> set (fr_seenKeys current) then Inl JsonDuplicateKey
     else if fr_memberCount current + 1 > jl_items lim then Inl JsonStructureLimit
     else Inr (add_tokens 1 (sc\<lparr>sc_frames := current\<lparr>fr_seenKeys := key # fr_seenKeys current,
       fr_memberCount := fr_memberCount current + 1, fr_expectingKey := False\<rparr> # frames\<rparr>)))"
  using assms by (simp add: scan_token_def key_token_def add_tokens_def Let_def)

text \<open>Acceptance of the rest of a document.\<close>

definition accepts :: "json_limits \<Rightarrow> json_scan \<Rightarrow> token_state \<Rightarrow> token_state list \<Rightarrow> gostring \<Rightarrow> bool" where
  "accepts lim sc st stack s \<longleftrightarrow> scan_document lim sc st stack s = None"

lemma accepts_iff:
  "accepts lim sc st stack s \<longleftrightarrow>
     (case next_token st stack s of
        TokenEOF \<Rightarrow> sc_rootComplete sc \<and> sc_frames sc = []
      | TokenError \<Rightarrow> False
      | Token token st' stack' r \<Rightarrow> (\<exists>sc'. scan_token lim token sc = Inr sc' \<and> accepts lim sc' st' stack' r))"
  unfolding accepts_def by (subst scan_document.simps) (auto split: token_result.splits sum.splits)

lemma accepts_comma:
  "skip_ws s = CHR '','' # r \<Longrightarrow> accepts lim sc ArrayComma stack s = accepts lim sc ArrayValue stack r"
  "skip_ws s = CHR '','' # r \<Longrightarrow> accepts lim sc ObjectComma stack s = accepts lim sc ObjectKey stack r"
  unfolding accepts_iff [of _ _ _ _ s] accepts_iff [of _ _ _ _ r] by (simp_all add: next_token_comma)

lemma accepts_colon:
  "skip_ws s = CHR '':'' # r \<Longrightarrow> accepts lim sc ObjectColon stack s = accepts lim sc ObjectValue stack r"
  unfolding accepts_iff [of _ _ _ _ s] accepts_iff [of _ _ _ _ r] by (simp add: next_token_colon)

section \<open>Accepted documents are structured\<close>

text \<open>Leaving a frame after \<open>n\<close> more tokens.\<close>

definition leave :: "int \<Rightarrow> json_scan \<Rightarrow> json_scan" where
  "leave n sc = complete_value ((add_tokens n sc)\<lparr>sc_frames := tl (sc_frames sc)\<rparr>)"

definition value_sound :: "json_limits \<Rightarrow> gostring \<Rightarrow> bool" where
  "value_sound lim s \<longleftrightarrow> (\<forall>sc st stack d.
     expects sc st \<longrightarrow> accepts lim sc st stack s \<longrightarrow> \<not> (st = ArrayStart \<and> (\<exists>r. skip_ws s = CHR '']'' # r)) \<longrightarrow>
     jl_depth lim - len (sc_frames sc) \<le> d \<longrightarrow>
     (\<exists>v r. value_at d s = Some (v, r) \<and> room lim sc \<and> structured (jl_items lim) (jl_depth lim - len (sc_frames sc)) v
        \<and> sc_tokens sc + json_tokens v \<le> jl_tokens lim \<and> accepts lim (value_after (json_tokens v) sc) (value_end st) stack r))"

definition elems_sound :: "json_limits \<Rightarrow> gostring \<Rightarrow> bool" where
  "elems_sound lim s \<longleftrightarrow> (\<forall>sc current frames st st0 stack d.
     sc_frames sc = current # frames \<longrightarrow> fr_kind current = CHR ''['' \<longrightarrow> st = ArrayStart \<or> st = ArrayValue \<longrightarrow>
     accepts lim sc st (st0 # stack) s \<longrightarrow> \<not> (st = ArrayStart \<and> (\<exists>r. skip_ws s = CHR '']'' # r)) \<longrightarrow>
     jl_depth lim - len (sc_frames sc) \<le> d \<longrightarrow>
     (\<exists>vs r. elems_at d s = Some (vs, r) \<and> fr_memberCount current + len vs \<le> jl_items lim
        \<and> (\<forall>v \<in> set vs. structured (jl_items lim) (jl_depth lim - len (sc_frames sc)) v)
        \<and> sc_tokens sc + sum_list (map json_tokens vs) + 1 \<le> jl_tokens lim
        \<and> accepts lim (leave (sum_list (map json_tokens vs) + 1) sc) (value_end st0) stack r))"

abbreviation member_tokens :: "(gostring \<times> json) list \<Rightarrow> int" where
  "member_tokens ms \<equiv> sum_list (map (\<lambda>(k, v). 1 + json_tokens v) ms)"

definition members_sound :: "json_limits \<Rightarrow> gostring \<Rightarrow> bool" where
  "members_sound lim s \<longleftrightarrow> (\<forall>sc current frames st st0 stack d.
     sc_frames sc = current # frames \<longrightarrow> fr_kind current = CHR ''{'' \<longrightarrow> fr_expectingKey current \<longrightarrow>
     st = ObjectStart \<or> st = ObjectKey \<longrightarrow>
     accepts lim sc st (st0 # stack) s \<longrightarrow> \<not> (st = ObjectStart \<and> (\<exists>r. skip_ws s = CHR ''}'' # r)) \<longrightarrow>
     jl_depth lim - len (sc_frames sc) \<le> d \<longrightarrow>
     (\<exists>ms r. members_at d s = Some (ms, r) \<and> fr_memberCount current + len ms \<le> jl_items lim
        \<and> distinct (map fst ms) \<and> set (map fst ms) \<inter> set (fr_seenKeys current) = {}
        \<and> (\<forall>(k, v) \<in> set ms. structured (jl_items lim) (jl_depth lim - len (sc_frames sc)) v)
        \<and> sc_tokens sc + member_tokens ms + 1 \<le> jl_tokens lim
        \<and> accepts lim (leave (member_tokens ms + 1) sc) (value_end st0) stack r))"

lemma value_soundD:
  assumes "value_sound lim s" "expects sc st" "accepts lim sc st stack s" "\<not> (st = ArrayStart \<and> (\<exists>r. skip_ws s = CHR '']'' # r))"
    "jl_depth lim - len (sc_frames sc) \<le> d"
  shows "\<exists>v r. value_at d s = Some (v, r) \<and> room lim sc \<and> structured (jl_items lim) (jl_depth lim - len (sc_frames sc)) v
        \<and> sc_tokens sc + json_tokens v \<le> jl_tokens lim \<and> accepts lim (value_after (json_tokens v) sc) (value_end st) stack r"
  using assms(1)[unfolded value_sound_def, rule_format, OF assms(2-5)] .

lemma elems_soundD:
  assumes "elems_sound lim s" "sc_frames sc = current # frames" "fr_kind current = CHR ''[''" "st = ArrayStart \<or> st = ArrayValue"
    "accepts lim sc st (st0 # stack) s" "\<not> (st = ArrayStart \<and> (\<exists>r. skip_ws s = CHR '']'' # r))"
    "jl_depth lim - len (sc_frames sc) \<le> d"
  shows "\<exists>vs r. elems_at d s = Some (vs, r) \<and> fr_memberCount current + len vs \<le> jl_items lim
        \<and> (\<forall>v \<in> set vs. structured (jl_items lim) (jl_depth lim - len (sc_frames sc)) v)
        \<and> sc_tokens sc + sum_list (map json_tokens vs) + 1 \<le> jl_tokens lim
        \<and> accepts lim (leave (sum_list (map json_tokens vs) + 1) sc) (value_end st0) stack r"
  using assms(1)[unfolded elems_sound_def, rule_format, OF assms(2-7)] .

lemma members_soundD:
  assumes "members_sound lim s" "sc_frames sc = current # frames" "fr_kind current = CHR ''{''" "fr_expectingKey current"
    "st = ObjectStart \<or> st = ObjectKey" "accepts lim sc st (st0 # stack) s"
    "\<not> (st = ObjectStart \<and> (\<exists>r. skip_ws s = CHR ''}'' # r))" "jl_depth lim - len (sc_frames sc) \<le> d"
  shows "\<exists>ms r. members_at d s = Some (ms, r) \<and> fr_memberCount current + len ms \<le> jl_items lim
        \<and> distinct (map fst ms) \<and> set (map fst ms) \<inter> set (fr_seenKeys current) = {}
        \<and> (\<forall>(k, v) \<in> set ms. structured (jl_items lim) (jl_depth lim - len (sc_frames sc)) v)
        \<and> sc_tokens sc + member_tokens ms + 1 \<le> jl_tokens lim
        \<and> accepts lim (leave (member_tokens ms + 1) sc) (value_end st0) stack r"
  using assms(1)[unfolded members_sound_def, rule_format, OF assms(2-8)] .

lemma value_open_frames:
  "sc_frames (value_open c sc) = open_frame c # sc_frames (count_member sc)"
  "sc_tokens (value_open c sc) = sc_tokens sc + 1"
  "leave n (value_open c sc) = value_after (n + 1) sc"
  "len (sc_frames (count_member sc)) = len (sc_frames sc)"
  by (auto simp: scan_defs leave_def Let_def ac_simps split: list.splits)

lemma open_frame_simps [simp]:
  "fr_kind (open_frame c) = c" "fr_expectingKey (open_frame c) = (c = CHR ''{'')"
  "fr_memberCount (open_frame c) = 0" "fr_seenKeys (open_frame c) = []"
  by (simp_all add: open_frame_def)

lemma accepts_open:
  assumes "expects sc st" "accepts lim sc st stack s" "skip_ws s = c # r" "c = CHR ''['' \<or> c = CHR ''{''"
  shows "sc_tokens sc + 1 \<le> jl_tokens lim \<and> room lim sc \<and> len (sc_frames sc) + 1 \<le> jl_depth lim
    \<and> accepts lim (value_open c sc) (if c = CHR ''['' then ArrayStart else ObjectStart) (st # stack) r"
proof -
  have "next_token st stack s = Token (TDelim c) (if c = CHR ''['' then ArrayStart else ObjectStart) (st # stack) r"
    using assms(3,4) expects_allowed [OF assms(1)] by (auto simp: next_token_direct direct_token_def)
  with assms(2) show ?thesis
    unfolding accepts_iff [of _ _ _ _ s] by (auto simp: scan_open [OF assms(1,4)] split: if_splits)
qed

lemma scalar_value_sound:
  assumes "expects sc st" "accepts lim sc st stack s" "skip_ws s = c # r"
    "c \<notin> set [CHR ''['', CHR '']'', CHR ''{'', CHR ''}'', CHR '':'', CHR '','']"
  shows "\<exists>v t. parse_scalar (c # r) = Some (v, t) \<and> room lim sc \<and> structured (jl_items lim) d v
    \<and> sc_tokens sc + json_tokens v \<le> jl_tokens lim \<and> accepts lim (value_after (json_tokens v) sc) (value_end st) stack t"
proof -
  have tok: "next_token st stack s = scalar_token st stack (c # r)"
    using assms by (simp add: next_token_direct direct_scalar [OF assms(1)])
  obtain v t where v: "parse_scalar (c # r) = Some (v, t)"
    using assms(2) unfolding accepts_iff [of _ _ _ _ s] tok scalar_token_def by (auto split: option.splits)
  have "(\<exists>x. v = JStr x) \<or> (\<exists>x. v = JNum x) \<or> (\<exists>x. v = JBool x) \<or> v = JNull"
    using v by (auto simp: parse_scalar_def split: if_splits)
  then show ?thesis
    using assms(2) v unfolding accepts_iff [of _ _ _ _ s] tok scalar_token_def
    by (auto simp: scan_scalar [OF assms(1)] split: if_splits)
qed

lemma accepts_close:
  assumes "accepts lim sc st stack s" "skip_ws s = c # r"
  shows "c = CHR '']'' \<Longrightarrow> st = ArrayStart \<or> st = ArrayComma" "c = CHR ''}'' \<Longrightarrow> st = ObjectStart \<or> st = ObjectComma"
    "c = CHR '','' \<Longrightarrow> st = ArrayComma \<or> st = ObjectComma" "c = CHR '':'' \<Longrightarrow> st = ObjectColon"
  using assms unfolding accepts_iff [of _ _ _ _ s]
  by (auto simp: next_token_direct direct_token_def next_token_comma next_token_colon split: if_splits)

lemma accepts_end: "accepts lim sc st stack s \<Longrightarrow> skip_ws s = [] \<Longrightarrow> sc_rootComplete sc \<and> sc_frames sc = []"
  unfolding accepts_iff [of _ _ _ _ s] by (simp add: next_token_Nil)

lemma accepts_close_array:
  assumes "accepts lim sc st (st0 # stack) s" "skip_ws s = CHR '']'' # r" "sc_frames sc = current # frames" "fr_kind current = CHR ''[''"
  shows "sc_tokens sc + 1 \<le> jl_tokens lim \<and> accepts lim (leave 1 sc) (value_end st0) stack r"
  using assms(1) accepts_close(1) [OF assms(1,2)] unfolding accepts_iff [of _ _ _ _ s]
  by (auto simp: next_token_direct [OF assms(2)] direct_token_def close_token_def scan_close_array [OF assms(3,4)] leave_def assms(3)
      split: if_splits)

lemma accepts_close_object:
  assumes "accepts lim sc st (st0 # stack) s" "skip_ws s = CHR ''}'' # r" "sc_frames sc = current # frames" "fr_kind current = CHR ''{''"
    "fr_expectingKey current"
  shows "sc_tokens sc + 1 \<le> jl_tokens lim \<and> accepts lim (leave 1 sc) (value_end st0) stack r"
  using assms(1) accepts_close(2) [OF assms(1,2)] unfolding accepts_iff [of _ _ _ _ s]
  by (auto simp: next_token_direct [OF assms(2)] direct_token_def close_token_def scan_close_object [OF assms(3-5)] leave_def assms(3)
      split: if_splits)

lemma value_sound_step:
  assumes "\<And>t. length t < length s \<Longrightarrow> elems_sound lim t \<and> members_sound lim t" and items: "0 \<le> jl_items lim"
  shows "value_sound lim s"
  unfolding value_sound_def
proof (intro allI impI)
  fix sc st stack d
  assume e: "expects sc st" and a: "accepts lim sc st stack s" and n: "\<not> (st = ArrayStart \<and> (\<exists>r. skip_ws s = CHR '']'' # r))"
    and d: "jl_depth lim - len (sc_frames sc) \<le> d"
  let ?sound = "\<lambda>v r. value_at d s = Some (v, r) \<and> room lim sc \<and> structured (jl_items lim) (jl_depth lim - len (sc_frames sc)) v
        \<and> sc_tokens sc + json_tokens v \<le> jl_tokens lim \<and> accepts lim (value_after (json_tokens v) sc) (value_end st) stack r"
  obtain c r where s: "skip_ws s = c # r"
    using accepts_end [OF a] e by (cases "skip_ws s") (auto simp: expects_def split: list.splits)
  note l = assms(1) [OF skip_ws_Cons [OF s]]
  note close = accepts_close [OF a s] expects_not_key [OF e] expects_allowed [OF e]
  consider (arr) "c = CHR ''[''" | (obj) "c = CHR ''{''" | (scalar) "c \<notin> set [CHR ''['', CHR '']'', CHR ''{'', CHR ''}'', CHR '':'', CHR '','']"
    using close n s by (auto simp: value_allowed_def)
  then show "\<exists>v r. ?sound v r"
  proof cases
    case arr
    have o: "sc_tokens sc + 1 \<le> jl_tokens lim" "room lim sc" "len (sc_frames sc) + 1 \<le> jl_depth lim"
      "accepts lim (value_open (CHR ''['') sc) ArrayStart (st # stack) r"
      using accepts_open [OF e a s] arr by simp_all
    obtain c' r' where r: "skip_ws r = c' # r'"
      using accepts_end [OF o(4)] by (cases "skip_ws r") (simp_all add: value_open_frames)
    show ?thesis
    proof (cases "c' = CHR '']''")
      case True
      with r have "skip_ws r = CHR '']'' # r'" by simp
      from accepts_close_array [OF o(4) this value_open_frames(1)]
      have "?sound (JArr []) r'" using o arr s r True d items by (simp add: value_at_Cons value_open_frames(2,3))
      then show ?thesis by blast
    next
      case False
      have "\<not> (ArrayStart = ArrayStart \<and> (\<exists>ra. skip_ws r = CHR '']'' # ra))" using False r by simp
      from elems_soundD [OF conjunct1 [OF l] value_open_frames(1) _ _ o(4) this, of "d - 1"] d
      obtain vs t where vs: "elems_at (d - 1) r = Some (vs, t)" "len vs \<le> jl_items lim"
        "\<forall>v \<in> set vs. structured (jl_items lim) (jl_depth lim - len (sc_frames sc) - 1) v"
        "sc_tokens sc + 1 + sum_list (map json_tokens vs) + 1 \<le> jl_tokens lim"
        "accepts lim (leave (sum_list (map json_tokens vs) + 1) (value_open (CHR ''['') sc)) (value_end st) stack t"
        by (auto simp: value_open_frames(1,2) value_open_frames(4) diff_diff_eq add.commute [of 1 "int _"])
      then have "?sound (JArr vs) t" using o arr s r False d by (simp add: value_at_Cons value_open_frames(3) ac_simps)
      then show ?thesis by blast
    qed
  next
    case obj
    have o: "sc_tokens sc + 1 \<le> jl_tokens lim" "room lim sc" "len (sc_frames sc) + 1 \<le> jl_depth lim"
      "accepts lim (value_open (CHR ''{'') sc) ObjectStart (st # stack) r"
      using accepts_open [OF e a s] obj by simp_all
    obtain c' r' where r: "skip_ws r = c' # r'"
      using accepts_end [OF o(4)] by (cases "skip_ws r") (simp_all add: value_open_frames)
    show ?thesis
    proof (cases "c' = CHR ''}''")
      case True
      with r have "skip_ws r = CHR ''}'' # r'" by simp
      from accepts_close_object [OF o(4) this value_open_frames(1)]
      have "?sound (JObj []) r'" using o obj s r True d items by (simp add: value_at_Cons value_open_frames(2,3))
      then show ?thesis by blast
    next
      case False
      have "\<not> (ObjectStart = ObjectStart \<and> (\<exists>ra. skip_ws r = CHR ''}'' # ra))" using False r by simp
      from members_soundD [OF conjunct2 [OF l] value_open_frames(1) _ _ _ o(4) this, of "d - 1"] d
      obtain ms t where ms: "members_at (d - 1) r = Some (ms, t)" "len ms \<le> jl_items lim" "distinct (map fst ms)"
        "\<forall>(k, v) \<in> set ms. structured (jl_items lim) (jl_depth lim - len (sc_frames sc) - 1) v"
        "sc_tokens sc + 1 + member_tokens ms + 1 \<le> jl_tokens lim"
        "accepts lim (leave (member_tokens ms + 1) (value_open (CHR ''{'') sc)) (value_end st) stack t"
        by (auto simp: value_open_frames(1,2) value_open_frames(4) diff_diff_eq add.commute [of 1 "int _"])
      then have "?sound (JObj ms) t" using o obj s r False d by (simp add: value_at_Cons value_open_frames(3) ac_simps)
      then show ?thesis by blast
    qed
  next
    case scalar
    from scalar_value_sound [OF e a s scalar] obtain v t where "parse_scalar (c # r) = Some (v, t)" "?sound v t \<or> value_at d s \<noteq> Some (v, t)"
      by blast
    with scalar s have "?sound v t" by (simp add: value_at_Cons)
    then show ?thesis by blast
  qed
qed

lemma value_after_array:
  assumes "sc_frames sc = current # frames" "fr_kind current = CHR ''[''"
  shows "sc_frames (value_after n sc) = current\<lparr>fr_memberCount := fr_memberCount current + 1\<rparr> # frames"
    "sc_tokens (value_after n sc) = sc_tokens sc + n" "leave m (value_after n sc) = leave (n + m) sc"
  using assms by (simp_all add: scan_defs leave_def ac_simps)

lemma elems_sound_step:
  assumes "value_sound lim s" "\<And>t. length t < length s \<Longrightarrow> elems_sound lim t"
  shows "elems_sound lim s"
  unfolding elems_sound_def
proof (intro allI impI)
  fix sc current frames st st0 stack d
  assume f: "sc_frames sc = current # frames" and k: "fr_kind current = CHR ''[''" and st: "st = ArrayStart \<or> st = ArrayValue"
    and a: "accepts lim sc st (st0 # stack) s" and n: "\<not> (st = ArrayStart \<and> (\<exists>r. skip_ws s = CHR '']'' # r))"
    and d: "jl_depth lim - len (sc_frames sc) \<le> d"
  let ?sound = "\<lambda>vs r. elems_at d s = Some (vs, r) \<and> fr_memberCount current + len vs \<le> jl_items lim
        \<and> (\<forall>v \<in> set vs. structured (jl_items lim) (jl_depth lim - len (sc_frames sc)) v)
        \<and> sc_tokens sc + sum_list (map json_tokens vs) + 1 \<le> jl_tokens lim
        \<and> accepts lim (leave (sum_list (map json_tokens vs) + 1) sc) (value_end st0) stack r"
  have "expects sc st" using f k st by (auto simp: expects_def)
  from value_soundD [OF assms(1) this a n d] obtain v r where v: "value_at d s = Some (v, r)" "room lim sc"
      "structured (jl_items lim) (jl_depth lim - len (sc_frames sc)) v" "sc_tokens sc + json_tokens v \<le> jl_tokens lim"
      "accepts lim (value_after (json_tokens v) sc) (value_end st) (st0 # stack) r"
    by blast
  have e: "value_end st = ArrayComma" using st by auto
  note after = value_after_array [OF f k]
  obtain c r' where r: "skip_ws r = c # r'" using accepts_end [OF v(5)] after(1) by (cases "skip_ws r") simp_all
  have c: "c = CHR '']'' \<or> c = CHR '',''"
  proof (rule ccontr)
    assume "\<not> ?thesis"
    with v(5) show False unfolding e accepts_iff [of _ _ _ _ r]
      by (cases "c = CHR '':''") (auto simp: next_token_direct [OF r] next_token_colon r direct_token_def value_allowed_def split: if_splits)
  qed
  show "\<exists>vs r. ?sound vs r"
  proof (cases "c = CHR '']''")
    case True
    with r have "skip_ws r = CHR '']'' # r'" by simp
    from accepts_close_array [OF v(5) this after(1)] k have "?sound [v] r'"
      using v f r True by (simp add: elems_at_value [OF v(1) r] after(2,3) room_def)
    then show ?thesis by blast
  next
    case False
    with c r have comma: "skip_ws r = CHR '','' # r'" by simp
    have "elems_sound lim r'" using assms(2) at_shrinks(1) [OF v(1)] skip_ws_Cons [OF r] by simp
    moreover have "accepts lim (value_after (json_tokens v) sc) ArrayValue (st0 # stack) r'"
      using v(5) accepts_comma(1) [OF comma] e by simp
    ultimately have "\<exists>vs t. elems_at d r' = Some (vs, t) \<and> fr_memberCount current + 1 + len vs \<le> jl_items lim
        \<and> (\<forall>v \<in> set vs. structured (jl_items lim) (jl_depth lim - len (sc_frames sc)) v)
        \<and> sc_tokens sc + json_tokens v + sum_list (map json_tokens vs) + 1 \<le> jl_tokens lim
        \<and> accepts lim (leave (sum_list (map json_tokens vs) + 1) (value_after (json_tokens v) sc)) (value_end st0) stack t"
      using elems_soundD [of lim r' "value_after (json_tokens v) sc" _ _ ArrayValue st0 stack d] d f k
      by (simp add: after(1,2))
    then obtain vs t where vs: "elems_at d r' = Some (vs, t)" "fr_memberCount current + 1 + len vs \<le> jl_items lim"
        "\<forall>v \<in> set vs. structured (jl_items lim) (jl_depth lim - len (sc_frames sc)) v"
        "sc_tokens sc + json_tokens v + sum_list (map json_tokens vs) + 1 \<le> jl_tokens lim"
        "accepts lim (leave (sum_list (map json_tokens vs) + 1) (value_after (json_tokens v) sc)) (value_end st0) stack t"
      by blast
    then have "?sound (v # vs) t"
      using v comma by (simp add: elems_at_value [OF v(1) comma] after(3) ac_simps)
    then show ?thesis by blast
  qed
qed

text \<open>The scan after a key, and after the value of its member.\<close>

definition key_after :: "gostring \<Rightarrow> json_scan \<Rightarrow> json_scan" where
  "key_after key sc = add_tokens 1 (sc\<lparr>sc_frames := (hd (sc_frames sc))\<lparr>fr_seenKeys := key # fr_seenKeys (hd (sc_frames sc)),
     fr_memberCount := fr_memberCount (hd (sc_frames sc)) + 1, fr_expectingKey := False\<rparr> # tl (sc_frames sc)\<rparr>)"

lemma accepts_key:
  assumes "sc_frames sc = current # frames" "fr_kind current = CHR ''{''" "fr_expectingKey current"
    "st = ObjectStart \<or> st = ObjectKey" "accepts lim sc st stack s" "\<not> (st = ObjectStart \<and> (\<exists>r. skip_ws s = CHR ''}'' # r))"
  shows "\<exists>qs raw t ks. skip_ws s = CHR 0x22 # qs \<and> scan_string qs = Some (raw, t) \<and> skip_ws t = CHR '':'' # ks
    \<and> sc_tokens sc + 1 \<le> jl_tokens lim \<and> unquote raw \<notin> set (fr_seenKeys current) \<and> fr_memberCount current + 1 \<le> jl_items lim
    \<and> accepts lim (key_after (unquote raw) sc) ObjectValue stack ks"
proof -
  obtain c qs where s: "skip_ws s = c # qs" using accepts_end [OF assms(5)] assms(1) by (cases "skip_ws s") simp_all
  have c: "c \<noteq> CHR '':''" "c \<noteq> CHR '',''" using accepts_close [OF assms(5) s] assms(4) by auto
  have "c = CHR 0x22"
    using assms(4-6) s c unfolding accepts_iff [of _ _ _ _ s] next_token_direct [OF s c]
    by (auto simp: direct_token_def value_allowed_def split: if_splits)
  with assms(4,5) c obtain raw t where raw: "scan_string qs = Some (raw, t)"
    and tok: "next_token st stack s = Token (TString (unquote raw)) ObjectColon stack t"
    unfolding accepts_iff [of _ _ _ _ s] next_token_direct [OF s c]
    by (auto simp: direct_token_def split: option.splits)
  from assms(5) have k: "sc_tokens sc + 1 \<le> jl_tokens lim" "unquote raw \<notin> set (fr_seenKeys current)"
      "fr_memberCount current + 1 \<le> jl_items lim" "accepts lim (key_after (unquote raw) sc) ObjectColon stack t"
    unfolding accepts_iff [of _ _ _ _ s] tok
    by (auto simp: scan_key [OF assms(1-3)] key_after_def assms(1) split: if_splits)
  obtain c' ks where t: "skip_ws t = c' # ks"
    using accepts_end [OF k(4)] by (cases "skip_ws t") (simp_all add: key_after_def add_tokens_def)
  have "c' = CHR '':''"
  proof (rule ccontr)
    assume "\<not> ?thesis"
    with k(4) show False unfolding accepts_iff [of _ _ _ _ t]
      by (cases "c' = CHR '',''") (auto simp: next_token_direct [OF t] next_token_comma t direct_token_def value_allowed_def split: if_splits)
  qed
  with t k(4) have "accepts lim (key_after (unquote raw) sc) ObjectValue stack ks" by (simp add: accepts_colon)
  with s \<open>c = CHR 0x22\<close> raw t \<open>c' = CHR '':''\<close> k show ?thesis by auto
qed

lemma key_value_after:
  assumes "sc_frames sc = current # frames" "fr_kind current = CHR ''{''"
  shows "sc_frames (value_after n (key_after key sc)) =
      current\<lparr>fr_seenKeys := key # fr_seenKeys current, fr_memberCount := fr_memberCount current + 1, fr_expectingKey := True\<rparr> # frames"
    "sc_tokens (value_after n (key_after key sc)) = sc_tokens sc + 1 + n"
    "leave m (value_after n (key_after key sc)) = leave (1 + n + m) sc"
    "expects (key_after key sc) ObjectValue"
    "sc_tokens (key_after key sc) = sc_tokens sc + 1"
    "len (sc_frames (key_after key sc)) = len (sc_frames sc)"
  using assms by (simp_all add: key_after_def expects_def scan_defs leave_def ac_simps)

lemma members_sound_step:
  assumes "\<And>t. length t < length s \<Longrightarrow> value_sound lim t" "\<And>t. length t < length s \<Longrightarrow> members_sound lim t"
  shows "members_sound lim s"
  unfolding members_sound_def
proof (intro allI impI)
  fix sc current frames st st0 stack d
  assume f: "sc_frames sc = current # frames" and k: "fr_kind current = CHR ''{''" "fr_expectingKey current"
    and st: "st = ObjectStart \<or> st = ObjectKey" and a: "accepts lim sc st (st0 # stack) s"
    and n: "\<not> (st = ObjectStart \<and> (\<exists>r. skip_ws s = CHR ''}'' # r))" and d: "jl_depth lim - len (sc_frames sc) \<le> d"
  let ?sound = "\<lambda>ms r. members_at d s = Some (ms, r) \<and> fr_memberCount current + len ms \<le> jl_items lim
        \<and> distinct (map fst ms) \<and> set (map fst ms) \<inter> set (fr_seenKeys current) = {}
        \<and> (\<forall>(k, v) \<in> set ms. structured (jl_items lim) (jl_depth lim - len (sc_frames sc)) v)
        \<and> sc_tokens sc + member_tokens ms + 1 \<le> jl_tokens lim
        \<and> accepts lim (leave (member_tokens ms + 1) sc) (value_end st0) stack r"
  from accepts_key [OF f k st a n] obtain qs raw t ks where
    s: "skip_ws s = CHR 0x22 # qs" "scan_string qs = Some (raw, t)" "skip_ws t = CHR '':'' # ks"
    and key: "unquote raw \<notin> set (fr_seenKeys current)" "fr_memberCount current + 1 \<le> jl_items lim"
      "accepts lim (key_after (unquote raw) sc) ObjectValue (st0 # stack) ks" by blast
  note after = key_value_after [OF f k(1), where key = "unquote raw"]
  have lks: "length ks < length s" using skip_ws_Cons [OF s(1)] scan_string_shrinks [OF s(2)] skip_ws_Cons [OF s(3)] by simp
  have "jl_depth lim - len (sc_frames (key_after (unquote raw) sc)) \<le> d" using d after(6) by simp
  from value_soundD [OF assms(1) [OF lks] after(4) key(3) _ this]
  obtain v r where v: "value_at d ks = Some (v, r)" "structured (jl_items lim) (jl_depth lim - len (sc_frames sc)) v"
      "sc_tokens sc + 1 + json_tokens v \<le> jl_tokens lim"
      "accepts lim (value_after (json_tokens v) (key_after (unquote raw) sc)) ObjectComma (st0 # stack) r"
    by (auto simp: after(5,6))
  obtain c r' where r: "skip_ws r = c # r'" using accepts_end [OF v(4)] after(1) by (cases "skip_ws r") simp_all
  have c: "c = CHR ''}'' \<or> c = CHR '',''"
  proof (rule ccontr)
    assume "\<not> ?thesis"
    with v(4) show False unfolding accepts_iff [of _ _ _ _ r]
      by (cases "c = CHR '':''") (auto simp: next_token_direct [OF r] next_token_colon r direct_token_def value_allowed_def split: if_splits)
  qed
  show "\<exists>ms r. ?sound ms r"
  proof (cases "c = CHR ''}''")
    case True
    with r have "skip_ws r = CHR ''}'' # r'" by simp
    from accepts_close_object [OF v(4) this after(1)] k(1) have "?sound [(unquote raw, v)] r'"
      using v key r True by (simp add: members_at_value [OF s v(1) r] after(2,3) ac_simps)
    then show ?thesis by blast
  next
    case False
    with c r have comma: "skip_ws r = CHR '','' # r'" by simp
    have m: "members_sound lim r'" using assms(2) lks at_shrinks(1) [OF v(1)] skip_ws_Cons [OF r] by simp
    have a': "accepts lim (value_after (json_tokens v) (key_after (unquote raw) sc)) ObjectKey (st0 # stack) r'"
      using v(4) accepts_comma(2) [OF comma] by simp
    have "\<exists>ms t. members_at d r' = Some (ms, t) \<and> fr_memberCount current + 1 + len ms \<le> jl_items lim \<and> distinct (map fst ms)
        \<and> set (map fst ms) \<inter> insert (unquote raw) (set (fr_seenKeys current)) = {}
        \<and> (\<forall>(k, v) \<in> set ms. structured (jl_items lim) (jl_depth lim - len (sc_frames sc)) v)
        \<and> sc_tokens sc + 1 + json_tokens v + member_tokens ms + 1 \<le> jl_tokens lim
        \<and> accepts lim (leave (member_tokens ms + 1) (value_after (json_tokens v) (key_after (unquote raw) sc))) (value_end st0) stack t"
      using members_soundD [OF m after(1) _ _ _ a', of d] d f k by (simp add: after(1,2))
    then obtain ms u where ms: "members_at d r' = Some (ms, u)" "fr_memberCount current + 1 + len ms \<le> jl_items lim"
        "distinct (map fst ms)" "set (map fst ms) \<inter> insert (unquote raw) (set (fr_seenKeys current)) = {}"
        "\<forall>(k, v) \<in> set ms. structured (jl_items lim) (jl_depth lim - len (sc_frames sc)) v"
        "sc_tokens sc + 1 + json_tokens v + member_tokens ms + 1 \<le> jl_tokens lim"
        "accepts lim (leave (1 + json_tokens v + member_tokens ms + 1) sc) (value_end st0) stack u"
      unfolding after(3) by (auto simp only: add.assoc)
    then have "?sound ((unquote raw, v) # ms) u"
      using v comma key by (auto simp add: members_at_value [OF s v(1) comma] ac_simps)
    then show ?thesis by blast
  qed
qed

lemma structure_sound:
  assumes "0 \<le> jl_items lim"
  shows "value_sound lim s \<and> elems_sound lim s \<and> members_sound lim s"
proof (induction "length s" arbitrary: s rule: less_induct)
  case less
  then have "value_sound lim s" using assms by (intro value_sound_step) simp_all
  with less show ?case by (simp add: elems_sound_step members_sound_step)
qed

lemma if_neqI: "x \<noteq> z \<Longrightarrow> y \<noteq> z \<Longrightarrow> (if b then x else y) \<noteq> z"
  by simp

lemma direct_token_not_end: "direct_token st stack c r \<noteq> TokenEOF"
  unfolding direct_token_def
  by (intro if_neqI) (simp_all add: close_token_def scalar_token_def split: list.split option.split json.split)

lemma validateJSONDocument_sound:
  assumes "validateJSONDocument data lim = None" "jl_depth lim \<le> max_nesting"
  shows "\<exists>v. parse_json data = Some v \<and> structured (jl_items lim) (jl_depth lim) v \<and> json_tokens v \<le> jl_tokens lim"
proof -
  let ?sc = "\<lparr>sc_frames = [], sc_rootComplete = False, sc_tokens = 0\<rparr>"
  from assms(1) have items: "0 \<le> jl_items lim" and a: "accepts lim ?sc TopValue [] data"
    by (auto simp: validateJSONDocument_def accepts_def split: if_splits)
  have "expects ?sc TopValue" by (simp add: expects_def)
  from value_soundD [OF conjunct1 [OF structure_sound [OF items]] this a, of max_nesting] assms(2)
  obtain v r where v: "value_at max_nesting data = Some (v, r)" "structured (jl_items lim) (jl_depth lim) v" "json_tokens v \<le> jl_tokens lim"
      "accepts lim (value_after (json_tokens v) ?sc) TopValue [] r" by auto
  have "skip_ws r = []"
  proof (rule ccontr)
    assume "skip_ws r \<noteq> []"
    then obtain c r' where r: "skip_ws r = c # r'" by (cases "skip_ws r") auto
    have root: "sc_rootComplete (value_after (json_tokens v) ?sc)" "sc_frames (value_after (json_tokens v) ?sc) = []"
      by (simp_all add: scan_defs)
    from v(4) obtain token st' stack' t sc' where "next_token TopValue [] r = Token token st' stack' t"
      "scan_token lim token (value_after (json_tokens v) ?sc) = Inr sc'"
      unfolding accepts_iff [of _ _ _ _ r] using r
      by (cases "c = CHR '':'' \<or> c = CHR '',''") (auto simp: next_token_colon next_token_comma next_token_direct direct_token_not_end split: token_result.splits)
    with root show False by (simp add: scan_token_def root_token_def Let_def split: if_splits)
  qed
  with v show ?thesis by (simp add: parse_json_def parse_front_at)
qed

section \<open>Structured documents are accepted\<close>

lemma elems_at_cases:
  assumes "elems_at d s = Some (vs, r)"
  obtains (last) v t where "value_at d s = Some (v, t)" "skip_ws t = CHR '']'' # r" "vs = [v]"
  | (more) v t r' ws where "value_at d s = Some (v, t)" "skip_ws t = CHR '','' # r'" "elems_at d r' = Some (ws, r)" "vs = v # ws"
proof -
  obtain n where n: "2 * length s + 2 = Suc n" "n = Suc (2 * length s)" by simp
  have p: "parse_value n d s = value_at d s" by (rule parse_at(1)) (simp add: n(2))
  from assms obtain v t c t' where v: "value_at d s = Some (v, t)" "skip_ws t = c # t'"
    unfolding elems_at_def n(1) by (auto simp: p split: option.splits list.splits)
  from assms elems_at_value [OF this] last [OF v(1)] more [OF v(1)] v(2) show thesis by (auto split: if_splits)
qed

lemma members_at_cases:
  assumes "members_at d s = Some (ms, r)"
  obtains (last) qs raw t ks v u where "skip_ws s = CHR 0x22 # qs" "scan_string qs = Some (raw, t)" "skip_ws t = CHR '':'' # ks"
      "value_at d ks = Some (v, u)" "skip_ws u = CHR ''}'' # r" "ms = [(unquote raw, v)]"
  | (more) qs raw t ks v u u' ns where "skip_ws s = CHR 0x22 # qs" "scan_string qs = Some (raw, t)" "skip_ws t = CHR '':'' # ks"
      "value_at d ks = Some (v, u)" "skip_ws u = CHR '','' # u'" "members_at d u' = Some (ns, r)" "ms = (unquote raw, v) # ns"
proof -
  obtain n where n: "2 * length s + 2 = Suc n" "n = Suc (2 * length s)" by simp
  have l: "parse_value n d ks = value_at d ks" if "skip_ws s = q # qs" "scan_string qs = Some (raw, t)" "skip_ws t = k # ks" for q qs raw t k ks
    by (rule parse_at(1)) (use n(2) skip_ws_Cons [OF that(1)] scan_string_shrinks [OF that(2)] skip_ws_Cons [OF that(3)] in simp)
  from assms obtain qs raw t ks v u c u' where v: "skip_ws s = CHR 0x22 # qs" "scan_string qs = Some (raw, t)" "skip_ws t = CHR '':'' # ks"
      "value_at d ks = Some (v, u)" "skip_ws u = c # u'"
    unfolding members_at_def n(1) by (auto simp: l split: option.splits list.splits if_splits)
  from assms members_at_value [OF this] last [OF v(1-4)] more [OF v(1-4)] v(5) show thesis by (auto split: if_splits)
qed

lemma json_tokens_pos: "1 \<le> json_tokens v"
proof (induction v)
  case (JArr vs)
  then have "0 \<le> sum_list (map json_tokens vs)" by (intro sum_list_nonneg) force
  then show ?case by simp
next
  case (JObj ms)
  then have "0 \<le> member_tokens ms" by (intro sum_list_nonneg) force
  then show ?case by simp
qed simp_all

lemma tokens_nonneg: "0 \<le> sum_list (map json_tokens vs)" "0 \<le> member_tokens ms"
proof -
  show "0 \<le> sum_list (map json_tokens vs)" by (intro sum_list_nonneg) (auto intro: order_trans [OF _ json_tokens_pos])
  have "0 \<le> 1 + json_tokens v" for v using json_tokens_pos [of v] by simp
  then show "0 \<le> member_tokens ms" by (intro sum_list_nonneg) auto
qed

definition value_complete :: "json_limits \<Rightarrow> gostring \<Rightarrow> bool" where
  "value_complete lim s \<longleftrightarrow> (\<forall>sc st stack d v r.
     value_at d s = Some (v, r) \<longrightarrow> expects sc st \<longrightarrow> room lim sc \<longrightarrow>
     structured (jl_items lim) (jl_depth lim - len (sc_frames sc)) v \<longrightarrow> sc_tokens sc + json_tokens v \<le> jl_tokens lim \<longrightarrow>
     accepts lim (value_after (json_tokens v) sc) (value_end st) stack r \<longrightarrow> accepts lim sc st stack s)"

definition elems_complete :: "json_limits \<Rightarrow> gostring \<Rightarrow> bool" where
  "elems_complete lim s \<longleftrightarrow> (\<forall>sc current frames st st0 stack d vs r.
     elems_at d s = Some (vs, r) \<longrightarrow> sc_frames sc = current # frames \<longrightarrow> fr_kind current = CHR ''['' \<longrightarrow>
     st = ArrayStart \<or> st = ArrayValue \<longrightarrow> fr_memberCount current + len vs \<le> jl_items lim \<longrightarrow>
     (\<forall>v \<in> set vs. structured (jl_items lim) (jl_depth lim - len (sc_frames sc)) v) \<longrightarrow>
     sc_tokens sc + sum_list (map json_tokens vs) + 1 \<le> jl_tokens lim \<longrightarrow>
     accepts lim (leave (sum_list (map json_tokens vs) + 1) sc) (value_end st0) stack r \<longrightarrow> accepts lim sc st (st0 # stack) s)"

definition members_complete :: "json_limits \<Rightarrow> gostring \<Rightarrow> bool" where
  "members_complete lim s \<longleftrightarrow> (\<forall>sc current frames st st0 stack d ms r.
     members_at d s = Some (ms, r) \<longrightarrow> sc_frames sc = current # frames \<longrightarrow> fr_kind current = CHR ''{'' \<longrightarrow> fr_expectingKey current \<longrightarrow>
     st = ObjectStart \<or> st = ObjectKey \<longrightarrow> fr_memberCount current + len ms \<le> jl_items lim \<longrightarrow>
     distinct (map fst ms) \<longrightarrow> set (map fst ms) \<inter> set (fr_seenKeys current) = {} \<longrightarrow>
     (\<forall>(k, v) \<in> set ms. structured (jl_items lim) (jl_depth lim - len (sc_frames sc)) v) \<longrightarrow>
     sc_tokens sc + member_tokens ms + 1 \<le> jl_tokens lim \<longrightarrow>
     accepts lim (leave (member_tokens ms + 1) sc) (value_end st0) stack r \<longrightarrow> accepts lim sc st (st0 # stack) s)"

lemma parse_scalar_direct:
  assumes "parse_scalar (c # r) = Some (v, t)"
  shows "c \<notin> set [CHR ''['', CHR '']'', CHR ''{'', CHR ''}'', CHR '':'', CHR '','']"
proof
  assume "c \<in> set [CHR ''['', CHR '']'', CHR ''{'', CHR ''}'', CHR '':'', CHR '','']"
  then have "c = CHR ''['' \<or> c = CHR '']'' \<or> c = CHR ''{'' \<or> c = CHR ''}'' \<or> c = CHR '':'' \<or> c = CHR '',''" by simp
  then have "parse_scalar (c # r) = None"
    by (elim disjE) (simp_all add: parse_scalar_def scan_number_def span_digits_def in_range_def)
  with assms show False by simp
qed

lemma accepts_token:
  assumes "next_token st stack s = Token token st' stack' r" "scan_token lim token sc = Inr sc'" "accepts lim sc' st' stack' r"
  shows "accepts lim sc st stack s"
  using assms unfolding accepts_iff [of _ _ _ _ s] by simp

lemma scalar_complete:
  assumes "expects sc st" "skip_ws s = c # t" "parse_scalar (c # t) = Some (v, r)" "room lim sc" "structured items depth v"
    "sc_tokens sc + json_tokens v \<le> jl_tokens lim" "accepts lim (value_after (json_tokens v) sc) (value_end st) stack r"
  shows "accepts lim sc st stack s"
proof -
  note p = parse_scalar_direct [OF assms(3)]
  have tok: "next_token st stack s = scalar_token st stack (c # t)"
    using p assms(2) by (simp add: next_token_direct direct_scalar [OF assms(1)])
  have "(\<exists>x. v = JStr x) \<or> (\<exists>x. v = JNum x) \<or> (\<exists>x. v = JBool x) \<or> v = JNull"
    using assms(3) by (auto simp: parse_scalar_def split: if_splits)
  then show ?thesis
    using assms(3-7) unfolding accepts_iff [of _ _ _ _ s] tok scalar_token_def by (auto simp: scan_scalar [OF assms(1)])
qed

lemma accepts_from_open:
  assumes "expects sc st" "skip_ws s = c # r" "c = CHR ''['' \<or> c = CHR ''{''"
    "sc_tokens sc + 1 \<le> jl_tokens lim" "room lim sc" "len (sc_frames sc) + 1 \<le> jl_depth lim"
    "accepts lim (value_open c sc) (if c = CHR ''['' then ArrayStart else ObjectStart) (st # stack) r"
  shows "accepts lim sc st stack s"
proof (rule accepts_token [OF _ _ assms(7)])
  show "next_token st stack s = Token (TDelim c) (if c = CHR ''['' then ArrayStart else ObjectStart) (st # stack) r"
    using assms(2,3) expects_allowed [OF assms(1)] by (auto simp: next_token_direct direct_token_def)
  show "scan_token lim (TDelim c) sc = Inr (value_open c sc)"
    using assms by (simp add: scan_open [OF assms(1,3)])
qed

lemma accepts_from_close_array:
  assumes "skip_ws s = CHR '']'' # r" "st = ArrayStart \<or> st = ArrayComma" "sc_frames sc = current # frames"
    "fr_kind current = CHR ''[''" "sc_tokens sc + 1 \<le> jl_tokens lim" "accepts lim (leave 1 sc) (value_end st0) stack r"
  shows "accepts lim sc st (st0 # stack) s"
proof (rule accepts_token [OF _ _ assms(6)])
  show "next_token st (st0 # stack) s = Token (TDelim (CHR '']'')) (value_end st0) stack r"
    using assms(2) by (auto simp: next_token_direct [OF assms(1)] direct_token_def close_token_def)
  show "scan_token lim (TDelim (CHR '']'')) sc = Inr (leave 1 sc)"
    using assms(5) by (simp add: scan_close_array [OF assms(3,4)] leave_def assms(3))
qed

lemma accepts_from_close_object:
  assumes "skip_ws s = CHR ''}'' # r" "st = ObjectStart \<or> st = ObjectComma" "sc_frames sc = current # frames"
    "fr_kind current = CHR ''{''" "fr_expectingKey current" "sc_tokens sc + 1 \<le> jl_tokens lim"
    "accepts lim (leave 1 sc) (value_end st0) stack r"
  shows "accepts lim sc st (st0 # stack) s"
proof (rule accepts_token [OF _ _ assms(7)])
  show "next_token st (st0 # stack) s = Token (TDelim (CHR ''}'')) (value_end st0) stack r"
    using assms(2) by (auto simp: next_token_direct [OF assms(1)] direct_token_def close_token_def)
  show "scan_token lim (TDelim (CHR ''}'')) sc = Inr (leave 1 sc)"
    using assms(6) by (simp add: scan_close_object [OF assms(3-5)] leave_def assms(3))
qed

lemma accepts_from_key:
  assumes "skip_ws s = CHR 0x22 # qs" "scan_string qs = Some (raw, t)" "skip_ws t = CHR '':'' # ks"
    "sc_frames sc = current # frames" "fr_kind current = CHR ''{''" "fr_expectingKey current" "st = ObjectStart \<or> st = ObjectKey"
    "sc_tokens sc + 1 \<le> jl_tokens lim" "unquote raw \<notin> set (fr_seenKeys current)" "fr_memberCount current + 1 \<le> jl_items lim"
    "accepts lim (key_after (unquote raw) sc) ObjectValue stack ks"
  shows "accepts lim sc st stack s"
proof (rule accepts_token)
  show "next_token st stack s = Token (TString (unquote raw)) ObjectColon stack t"
    using assms(2,7) by (auto simp: next_token_direct [OF assms(1)] direct_token_def)
  show "scan_token lim (TString (unquote raw)) sc = Inr (key_after (unquote raw) sc)"
    using assms(8-10) by (simp add: scan_key [OF assms(4-6)] key_after_def assms(4))
  show "accepts lim (key_after (unquote raw) sc) ObjectColon stack t" using assms(3,11) by (simp add: accepts_colon)
qed

lemma value_complete_step:
  assumes "\<And>t. length t < length s \<Longrightarrow> elems_complete lim t \<and> members_complete lim t"
  shows "value_complete lim s"
  unfolding value_complete_def
proof (intro allI impI)
  fix sc st stack d v r
  assume p: "value_at d s = Some (v, r)" and e: "expects sc st" and rm: "room lim sc"
    and w: "structured (jl_items lim) (jl_depth lim - len (sc_frames sc)) v" and tk: "sc_tokens sc + json_tokens v \<le> jl_tokens lim"
    and a: "accepts lim (value_after (json_tokens v) sc) (value_end st) stack r"
  have tk1: "sc_tokens sc + 1 \<le> jl_tokens lim" using tk json_tokens_pos [of v] by simp
  obtain c t where s: "skip_ws s = c # t" using p value_at_Nil [of s d] by (cases "skip_ws s") auto
  note p' = p [unfolded value_at_Cons [OF s]] and l = assms [OF skip_ws_Cons [OF s]] and frames = value_open_frames
  consider (arr) "c = CHR ''[''" | (obj) "c = CHR ''{''" | (scalar) "c \<noteq> CHR ''['' \<and> c \<noteq> CHR ''{''" by blast
  then show "accepts lim sc st stack s"
  proof cases
    case scalar
    with p' have "parse_scalar (c # t) = Some (v, r)" by simp
    from scalar_complete [OF e s this rm w tk a] show ?thesis .
  next
    case arr
    with p' obtain e' t' where t: "0 < d" "skip_ws t = e' # t'" by (auto split: if_splits list.splits)
    from p' arr t obtain vs where v: "v = JArr vs" by (auto split: if_splits)
    have "accepts lim (value_open (CHR ''['') sc) ArrayStart (st # stack) t"
    proof (cases "e' = CHR '']''")
      case True
      with p' arr t have "v = JArr []" "r = t'" by simp_all
      with a tk t True show ?thesis by (intro accepts_from_close_array [OF _ _ frames(1)]) (simp_all add: frames(2,3))
    next
      case False
      with p' arr t v have vs: "elems_at (d - 1) t = Some (vs, r)" by auto
      show ?thesis
        by (rule l [THEN conjunct1, unfolded elems_complete_def, rule_format, OF vs frames(1)])
          (use w v tk a in \<open>simp_all add: frames(1-4) diff_diff_eq ac_simps\<close>)
    qed
    then have "accepts lim (value_open c sc) (if c = CHR ''['' then ArrayStart else ObjectStart) (st # stack) t" using arr by simp
    moreover have "c = CHR ''['' \<or> c = CHR ''{''" "len (sc_frames sc) + 1 \<le> jl_depth lim" using arr w v by simp_all
    ultimately show ?thesis using accepts_from_open [OF e s _ tk1 rm] by blast
  next
    case obj
    with p' obtain e' t' where t: "0 < d" "skip_ws t = e' # t'" by (auto split: if_splits list.splits)
    from p' obj t obtain ms where v: "v = JObj ms" by (auto split: if_splits)
    have "accepts lim (value_open (CHR ''{'') sc) ObjectStart (st # stack) t"
    proof (cases "e' = CHR ''}''")
      case True
      with p' obj t have "v = JObj []" "r = t'" by simp_all
      with a tk t True show ?thesis by (intro accepts_from_close_object [OF _ _ frames(1)]) (simp_all add: frames(2,3))
    next
      case False
      with p' obj t v have ms: "members_at (d - 1) t = Some (ms, r)" by auto
      show ?thesis
        by (rule l [THEN conjunct2, unfolded members_complete_def, rule_format, OF ms frames(1)])
          (use w v tk a in \<open>simp_all add: frames(1-4) diff_diff_eq ac_simps\<close>)
    qed
    then have "accepts lim (value_open c sc) (if c = CHR ''['' then ArrayStart else ObjectStart) (st # stack) t" using obj by simp
    moreover have "c = CHR ''['' \<or> c = CHR ''{''" "len (sc_frames sc) + 1 \<le> jl_depth lim" using obj w v by simp_all
    ultimately show ?thesis using accepts_from_open [OF e s _ tk1 rm] by blast
  qed
qed

lemma elems_complete_step:
  assumes "value_complete lim s" "\<And>t. length t < length s \<Longrightarrow> elems_complete lim t"
  shows "elems_complete lim s"
  unfolding elems_complete_def
proof (intro allI impI)
  fix sc current frames st st0 stack d vs r
  assume p: "elems_at d s = Some (vs, r)" and f: "sc_frames sc = current # frames" and k: "fr_kind current = CHR ''[''"
    and st: "st = ArrayStart \<or> st = ArrayValue" and m: "fr_memberCount current + len vs \<le> jl_items lim"
    and w: "\<forall>v \<in> set vs. structured (jl_items lim) (jl_depth lim - len (sc_frames sc)) v"
    and tk: "sc_tokens sc + sum_list (map json_tokens vs) + 1 \<le> jl_tokens lim"
    and a: "accepts lim (leave (sum_list (map json_tokens vs) + 1) sc) (value_end st0) stack r"
  have e: "expects sc st" using f k st by (auto simp: expects_def)
  have ve: "value_end st = ArrayComma" using st by auto
  note after = value_after_array [OF f k]
  from p show "accepts lim sc st (st0 # stack) s"
  proof (cases rule: elems_at_cases)
    case (last v t)
    have "accepts lim (value_after (json_tokens v) sc) ArrayComma (st0 # stack) t"
      by (rule accepts_from_close_array [OF last(2) _ after(1)]) (use k tk a last(3) in \<open>simp_all add: after(2,3)\<close>)
    then show ?thesis
      by (intro assms(1) [unfolded value_complete_def, rule_format, OF last(1) e])
        (use f m w tk last(3) ve in \<open>simp_all add: room_def\<close>)
  next
    case (more v t r' ws)
    have len: "length r' < length s" using at_shrinks(1) [OF more(1)] skip_ws_Cons [OF more(2)] by simp
    have "accepts lim (value_after (json_tokens v) sc) ArrayValue (st0 # stack) r'"
      by (rule assms(2) [OF len, unfolded elems_complete_def, rule_format, OF more(3) after(1)])
        (use f k m w tk a more(4) in \<open>simp_all add: after ac_simps\<close>)
    then have "accepts lim (value_after (json_tokens v) sc) ArrayComma (st0 # stack) t" using accepts_comma(1) [OF more(2)] by simp
    then show ?thesis
      by (intro assms(1) [unfolded value_complete_def, rule_format, OF more(1) e])
        (use f m w tk more(4) ve tokens_nonneg(1) [of ws] in \<open>simp_all add: room_def\<close>)
  qed
qed

lemma members_complete_step:
  assumes "\<And>t. length t < length s \<Longrightarrow> value_complete lim t" "\<And>t. length t < length s \<Longrightarrow> members_complete lim t"
  shows "members_complete lim s"
  unfolding members_complete_def
proof (intro allI impI)
  fix sc current frames st st0 stack d ms r
  assume p: "members_at d s = Some (ms, r)" and f: "sc_frames sc = current # frames" and k: "fr_kind current = CHR ''{''" "fr_expectingKey current"
    and st: "st = ObjectStart \<or> st = ObjectKey" and m: "fr_memberCount current + len ms \<le> jl_items lim"
    and u: "distinct (map fst ms)" "set (map fst ms) \<inter> set (fr_seenKeys current) = {}"
    and w: "\<forall>(k, v) \<in> set ms. structured (jl_items lim) (jl_depth lim - len (sc_frames sc)) v"
    and tk: "sc_tokens sc + member_tokens ms + 1 \<le> jl_tokens lim"
    and a: "accepts lim (leave (member_tokens ms + 1) sc) (value_end st0) stack r"
  from p show "accepts lim sc st (st0 # stack) s"
  proof (cases rule: members_at_cases)
    case (last qs raw t ks v x)
    note after = key_value_after [OF f k(1), where key = "unquote raw"]
    have len: "length ks < length s" using skip_ws_Cons [OF last(1)] scan_string_shrinks [OF last(2)] skip_ws_Cons [OF last(3)] by simp
    have "accepts lim (value_after (json_tokens v) (key_after (unquote raw) sc)) ObjectComma (st0 # stack) x"
      by (rule accepts_from_close_object [OF last(5) _ after(1)]) (use k tk a last(6) in \<open>simp_all add: after(2,3) ac_simps\<close>)
    then have "accepts lim (key_after (unquote raw) sc) ObjectValue (st0 # stack) ks"
      by (intro assms(1) [OF len, unfolded value_complete_def, rule_format, OF last(4) after(4)])
        (use f k m w tk last(6) in \<open>simp_all add: after(5,6) room_def key_after_def add_tokens_def\<close>)
    then show ?thesis
      by (intro accepts_from_key [OF last(1-3) f k st])
        (use m u tk last(6) json_tokens_pos [of v] in simp_all)
  next
    case (more qs raw t ks v x x' ns)
    note after = key_value_after [OF f k(1), where key = "unquote raw"]
    have len: "length ks < length s" using skip_ws_Cons [OF more(1)] scan_string_shrinks [OF more(2)] skip_ws_Cons [OF more(3)] by simp
    have len': "length x' < length s" using len at_shrinks(1) [OF more(4)] skip_ws_Cons [OF more(5)] by simp
    have "accepts lim (value_after (json_tokens v) (key_after (unquote raw) sc)) ObjectKey (st0 # stack) x'"
      by (rule assms(2) [OF len', unfolded members_complete_def, rule_format, OF more(6) after(1)])
        (use f k m u w tk a more(7) in \<open>simp_all add: after(1-3) ac_simps\<close>)
    then have "accepts lim (value_after (json_tokens v) (key_after (unquote raw) sc)) ObjectComma (st0 # stack) x"
      using accepts_comma(2) [OF more(5)] by simp
    then have "accepts lim (key_after (unquote raw) sc) ObjectValue (st0 # stack) ks"
      by (intro assms(1) [OF len, unfolded value_complete_def, rule_format, OF more(4) after(4)])
        (use f k m w tk more(7) tokens_nonneg(2) [of ns] in \<open>simp_all add: after(5,6) room_def key_after_def add_tokens_def\<close>)
    then show ?thesis
      by (intro accepts_from_key [OF more(1-3) f k st])
        (use m u tk more(7) json_tokens_pos [of v] tokens_nonneg(2) [of ns] in simp_all)
  qed
qed

lemma structure_complete: "value_complete lim s \<and> elems_complete lim s \<and> members_complete lim s"
proof (induction "length s" arbitrary: s rule: less_induct)
  case less
  then have "value_complete lim s" by (intro value_complete_step) simp_all
  with less show ?case by (simp add: elems_complete_step members_complete_step)
qed

lemma validateJSONDocument_complete:
  assumes "parse_json data = Some v" "structured (jl_items lim) (jl_depth lim) v" "json_tokens v \<le> jl_tokens lim"
    "0 < jl_depth lim" "0 < jl_tokens lim" "0 < jl_items lim"
  shows "validateJSONDocument data lim = None"
proof -
  let ?sc = "\<lparr>sc_frames = [], sc_rootComplete = False, sc_tokens = 0\<rparr>"
  from assms(1) obtain r where p: "value_at max_nesting data = Some (v, r)" "skip_ws r = []"
    by (auto simp: parse_json_def parse_front_at split: option.splits prod.splits if_splits)
  have e: "expects ?sc TopValue" by (simp add: expects_def)
  have "accepts lim (value_after (json_tokens v) ?sc) TopValue [] r"
    unfolding accepts_iff [of _ _ _ _ r] by (simp add: next_token_Nil [OF p(2)] scan_defs)
  then have "accepts lim ?sc TopValue [] data"
    by (intro structure_complete [THEN conjunct1, unfolded value_complete_def, rule_format, OF p(1) e])
      (use assms in \<open>simp_all add: room_def\<close>)
  with assms(4-6) show ?thesis by (simp add: validateJSONDocument_def accepts_def)
qed

end
