(* ===== verification/Codex_Props.thy ===== *)
theory Codex_Props
  imports Codex_Structure
begin

text \<open>
  What the decoder promises of the requests it returns, and the properties of the boundary.
\<close>

section \<open>Readers of strings\<close>

lemma codex_errors_not_Inr [simp]:
  "newError code param \<noteq> Inr x" "invalidRequest param \<noteq> Inr x" "unsupportedField param \<noteq> Inr x"
  by (simp_all add: codex_errors)

lemma requiredString_nonblank: "requiredString raw param = Inr value \<Longrightarrow> TrimSpace value \<noteq> []"
  by (auto simp: requiredString_def attempt_Inr_iff split: if_splits)

lemma requiredStringField_nonblank: "requiredStringField flds field path = Inr value \<Longrightarrow> TrimSpace value \<noteq> []"
  by (auto simp: requiredStringField_def requiredString_nonblank split: option.splits)

lemma TrimSpace_Nil [simp]: "TrimSpace [] = []"
  by (simp add: TrimSpace_def trim_with.simps leading_space_def)

section \<open>Input items\<close>

definition valid_roles :: "Role list" where
  "valid_roles = [RoleSystem, RoleDeveloper, RoleUser, RoleAssistant]"

fun item_ok :: "inputWire \<Rightarrow> bool" where
  "item_ok (MessageWire ident role content) = (role \<in> set valid_roles)"
| "item_ok (FunctionCallWire ident callID name arguments status) = (TrimSpace callID \<noteq> [] \<and> TrimSpace name \<noteq> [])"
| "item_ok (FunctionCallOutputWire callID out status err) = (TrimSpace callID \<noteq> [])"
| "item_ok (CustomToolCallWire ident callID name input status) = (TrimSpace callID \<noteq> [] \<and> TrimSpace name \<noteq> [])"
| "item_ok (CustomToolCallOutputWire callID out status err) = (TrimSpace callID \<noteq> [])"

lemma decode_output_ok:
  assumes "decode_output wire flds path = Inr item" "\<And>callID out status err. item_ok (wire callID out status err) = (TrimSpace callID \<noteq> [])"
  shows "item_ok item"
  using assms by (auto simp: decode_output_def attempt_Inr_iff dest: requiredStringField_nonblank)

lemma decodeInputItem_ok: "decodeInputItem raw path m = Inr item \<Longrightarrow> item_ok item"
  unfolding decodeInputItem_def attempt_Inr_iff
  by (auto simp: decodeMessage_def decodeFunctionCall_def decodeCustomToolCall_def decodeFunctionCallOutput_def
      decodeCustomToolCallOutput_def attempt_Inr_iff parseRole_def valid_roles_def
      dest: requiredStringField_nonblank intro: decode_output_ok split: if_splits option.splits)

definition wire_call_ids :: "inputWire list \<Rightarrow> gostring list" where
  "wire_call_ids items = List.map_filter wire_callID items"

lemma wire_call_ids_simps [simp]:
  "wire_call_ids [] = []"
  "wire_call_ids (item # items) = (case wire_callID item of None \<Rightarrow> wire_call_ids items | Some c \<Rightarrow> c # wire_call_ids items)"
  by (simp_all add: wire_call_ids_def List.map_filter_simps split: option.split)

lemma decode_items_ok:
  "decode_items m index seen raws = Inr items \<Longrightarrow>
     length items = length raws \<and> (\<forall>item \<in> set items. item_ok item) \<and> distinct (wire_call_ids items)
     \<and> set (wire_call_ids items) \<inter> set seen = {}"
proof (induction raws arbitrary: index seen items)
  case (Cons raw raws)
  from Cons.prems obtain item where item: "decodeInputItem raw (indexed ''input'' index) m = Inr item"
    by (auto simp: attempt_Inr_iff Let_def)
  note ok = decodeInputItem_ok [OF item]
  show ?case
  proof (cases "wire_callID item")
    case None
    with Cons.prems item obtain rest where "decode_items m (Suc index) seen raws = Inr rest" "items = item # rest"
      by (auto simp: attempt_Inr_iff Let_def)
    with Cons.IH [of "Suc index" seen rest] ok None show ?thesis by simp
  next
    case (Some callID)
    with Cons.prems item obtain rest where "callID \<notin> set seen" "decode_items m (Suc index) (callID # seen) raws = Inr rest" "items = item # rest"
      by (auto simp: attempt_Inr_iff Let_def split: if_splits)
    with Cons.IH [of "Suc index" "callID # seen" rest] ok Some show ?thesis by auto
  qed
qed simp

lemma raw_elements_length: "raw_elements param m vals s = Inr ws \<Longrightarrow> len vals \<le> m \<Longrightarrow> len ws \<le> m"
proof (induction param m vals s rule: raw_elements.induct)
  case (1 param m vals s)
  show ?case
  proof (cases "skip_ws s")
    case Nil
    with "1.prems" show ?thesis by (subst (asm) raw_elements.simps) simp
  next
    case (Cons c r)
    show ?thesis
    proof (cases "c = CHR '']''")
      case True
      with "1.prems" Cons show ?thesis by (subst (asm) raw_elements.simps) (simp split: if_splits)
    next
      case False
      with "1.prems"(1) Cons obtain v t where v: "c \<noteq> CHR ''}''" "\<not> m \<le> len vals" "\<not> (vals \<noteq> [] \<and> c \<noteq> CHR '','')"
        "raw_front (if vals \<noteq> [] then r else c # r) = Some (v, t)" "raw_elements param m (vals @ [v]) t = Inr ws"
        by (subst (asm) raw_elements.simps) (auto split: if_splits option.splits)
      from "1.IH" [OF Cons False v(1,2,3,4) refl v(5)] v(2) show ?thesis by simp
    qed
  qed
qed

lemma rawArray_length: "rawArray raw param m = Inr ws \<Longrightarrow> len ws \<le> m"
  using raw_elements_length [of param m "[]" "tl (TrimSpace raw)" ws] by (auto simp: rawArray_def Let_def split: if_splits)

lemma decode_input_ok:
  assumes "decode_input flds limits = Inr items" "0 \<le> dl_MaxInputItems limits"
  shows "len items \<le> dl_MaxInputItems limits \<and> (\<forall>item \<in> set items. item_ok item) \<and> distinct (wire_call_ids items)"
  using assms
  by (auto simp: decode_input_def optional_field_def decodeInputItems_def attempt_Inr_iff dest: decode_items_ok split: option.splits if_splits)

section \<open>Tools\<close>

fun tool_ok :: "DecoderLimits \<Rightarrow> toolWire \<Rightarrow> bool" where
  "tool_ok limits (FunctionToolWire name description parameters strict) = (TrimSpace name \<noteq> [] \<and> validateJSONSchema parameters limits)"
| "tool_ok limits (CustomToolWire name description format) =
     (TrimSpace name \<noteq> [] \<and> format \<in> set [CustomToolFormatText, CustomToolFormatGrammar])"
| "tool_ok limits (DeferredToolWire kind name) = (kind = ToolNamespace \<or> kind = ToolWebSearch \<and> name = [])"

lemma decodeFunctionTool_ok:
  assumes "decodeFunctionTool flds path remaining limits = Inr tool"
  shows "tool_ok limits tool \<and> schema_bytes tool \<le> remaining"
proof -
  from assms obtain name description parameters strict where
    "requiredStringField flds ''name'' path = Inr name" "tool = FunctionToolWire name description parameters strict"
    "len parameters \<le> remaining" "validateJSONSchema parameters limits"
    unfolding decodeFunctionTool_def attempt_Inr_iff by (auto simp: attempt_Inr_iff split: option.splits if_splits)
  then show ?thesis by (simp add: requiredStringField_nonblank)
qed

lemma decodeCustomTool_ok:
  assumes "decodeCustomTool flds path = Inr tool"
  shows "tool_ok limits tool \<and> schema_bytes tool = 0"
proof -
  from assms obtain name description format where t: "requiredStringField flds ''name'' path = Inr name"
    "decode_custom_format flds path = Inr format" "tool = CustomToolWire name description format"
    unfolding decodeCustomTool_def attempt_Inr_iff by auto
  from t(2) have "format \<in> set [CustomToolFormatText, CustomToolFormatGrammar]"
    unfolding decode_custom_format_def Let_def by (auto simp: attempt_Inr_iff split: option.splits if_splits)
  with t show ?thesis by (simp add: requiredStringField_nonblank)
qed

lemma deferred_tool_ok:
  "decodeNamespaceTool flds path m = Inr tool \<Longrightarrow> tool_ok limits tool \<and> schema_bytes tool = 0"
  "decodeWebSearchTool flds path = Inr tool \<Longrightarrow> tool_ok limits tool \<and> schema_bytes tool = 0"
  unfolding decodeNamespaceTool_def decodeWebSearchTool_def attempt_Inr_iff by auto

lemma decode_tool_ok:
  assumes "decode_tool raw path remaining limits = Inr tool"
  shows "tool_ok limits tool \<and> schema_bytes tool \<le> max 0 remaining"
proof -
  from assms obtain flds where "decodeFunctionTool flds path remaining limits = Inr tool \<or> decodeCustomTool flds path = Inr tool
      \<or> decodeNamespaceTool flds path (dl_MaxCollectionItems limits) = Inr tool \<or> decodeWebSearchTool flds path = Inr tool"
    unfolding decode_tool_def attempt_Inr_iff by (auto split: if_splits)
  then show ?thesis
    using decodeFunctionTool_ok [of flds path remaining limits tool] decodeCustomTool_ok [of flds path tool limits]
      deferred_tool_ok(1) [of flds path _ tool limits] deferred_tool_ok(2) [of flds path tool limits] by fastforce
qed

definition tool_names :: "toolWire list \<Rightarrow> gostring list" where
  "tool_names tools = filter (\<lambda>name. name \<noteq> []) (map toolName tools)"

lemma decode_tools_ok:
  "decode_tools maxBytes limits index names used raws = Inr tools \<Longrightarrow> used \<le> maxBytes \<Longrightarrow>
     length tools = length raws \<and> (\<forall>tool \<in> set tools. tool_ok limits tool) \<and> distinct (tool_names tools)
     \<and> set (tool_names tools) \<inter> set names = {} \<and> used + sum_list (map schema_bytes tools) \<le> maxBytes"
proof (induction raws arbitrary: index names used tools)
  case (Cons raw raws)
  from Cons.prems(1) obtain tool rest where t: "decode_tool raw (indexed ''tools'' index) (maxBytes - used) limits = Inr tool"
     "\<not> (toolName tool \<noteq> [] \<and> toolName tool \<in> set names)"
     "decode_tools maxBytes limits (Suc index) (if toolName tool \<noteq> [] then toolName tool # names else names)
       (used + schema_bytes tool) raws = Inr rest" "tools = tool # rest"
    by (auto simp: attempt_Inr_iff Let_def split: if_splits)
  note ok = decode_tool_ok [OF t(1)]
  have "used + schema_bytes tool \<le> maxBytes" using ok Cons.prems(2) by simp
  from Cons.IH [OF t(3) this] ok t show ?case by (auto simp: tool_names_def split: if_splits)
qed (simp add: tool_names_def)

lemma decode_tool_field_ok:
  assumes "decode_tool_field flds limits = Inr tools" "0 \<le> dl_MaxTools limits" "0 \<le> dl_MaxSchemaBytes limits"
  shows "len tools \<le> dl_MaxTools limits \<and> (\<forall>tool \<in> set tools. tool_ok limits tool) \<and> distinct (tool_names tools)
     \<and> sum_list (map schema_bytes tools) \<le> dl_MaxSchemaBytes limits"
  using assms decode_tools_ok [of "dl_MaxSchemaBytes limits" limits 0 "[]" 0]
  by (auto simp: decode_tool_field_def optional_field_def decodeTools_def attempt_Inr_iff tool_names_def split: option.splits if_splits)

section \<open>The wire request\<close>

lemma decode_schema_format_ok:
  assumes "decode_schema_format flds remaining limits = Inr format"
  shows "validateJSONSchema (fmt_Schema format) limits \<and> len (fmt_Schema format) \<le> remaining"
proof (cases "map_of flds ''schema''")
  case None
  with assms show ?thesis unfolding decode_schema_format_def attempt_Inr_iff by simp
next
  case (Some schema)
  with assms obtain name description where "(if len schema > remaining then newError CodexRequestTooLarge ''text.format.schema''
         else if \<not> validateJSONSchema schema limits then invalidRequest ''text.format.schema''
         else attempt (optionalBoolPointer flds ''strict'' ''text.format.strict'') (\<lambda>strict.
           Inr \<lparr>fmt_Kind = TextFormatJSONSchema, fmt_Name = name, fmt_Description = description, fmt_Schema = schema,
                fmt_Strict = strict\<rparr>)) = Inr format"
    unfolding decode_schema_format_def attempt_Inr_iff [of "rejectUnknown _ _ _"] attempt_Inr_iff [of "requiredStringField _ _ _"]
      attempt_Inr_iff [of "optionalStringField _ _ _"] Some option.case by blast
  then have "len schema \<le> remaining \<and> validateJSONSchema schema limits \<and> schema = fmt_Schema format"
    by (cases "optionalBoolPointer flds ''strict'' ''text.format.strict''") (auto split: if_splits)
  then show ?thesis by auto
qed

lemma decodeText_ok:
  assumes "decodeText raw remaining limits = Inr format"
  shows "(fmt_Schema format \<noteq> [] \<longrightarrow> validateJSONSchema (fmt_Schema format) limits) \<and> len (fmt_Schema format) \<le> max 0 remaining"
proof -
  have "format = plain_format (fmt_Kind format) \<or> (\<exists>flds. decode_schema_format flds remaining limits = Inr format)"
  proof -
    from assms obtain flds where "optional_field flds ''format'' (plain_format TextFormatText) (\<lambda>formatRaw.
         attempt (rawObject formatRaw ''text.format'') (\<lambda>formatFields.
         attempt (type_of_object formatFields ''text.format'') (\<lambda>formatType.
           if formatType = TextFormatText \<or> formatType = TextFormatJSONObject then
             attempt (rejectUnknown formatFields ''text.format'' [''type'']) (\<lambda>_. Inr (plain_format formatType))
           else if formatType = TextFormatJSONSchema then decode_schema_format formatFields remaining limits
           else invalidRequest ''text.format.type''))) = Inr format"
      unfolding decodeText_def attempt_Inr_iff optional_field_def by blast
    moreover have "plain_format k = format \<Longrightarrow> format = plain_format (fmt_Kind format)" for k by (auto simp: plain_format_def)
    ultimately show ?thesis by (auto simp: optional_field_def attempt_Inr_iff split: option.splits if_splits)
  qed
  then show ?thesis
  proof
    assume "format = plain_format (fmt_Kind format)"
    then have "fmt_Schema format = []" by (metis TextFormat.select_convs(4) plain_format_def)
    then show ?thesis by simp
  qed (auto dest: decode_schema_format_ok)
qed

lemma decodeRequestWire_Inr:
  assumes "decodeRequestWire flds limits = Inr wire"
  obtains model instructions previous input tools choice parallel effort format stream included where
    "check_policy (sortedKeys flds) = Inr ()"
    "(case map_of flds ''model'' of None \<Rightarrow> invalidRequest ''model'' | Some raw \<Rightarrow> requiredString raw ''model'') = Inr model"
    "optional_field flds ''instructions'' [] (\<lambda>raw. stringValue raw ''instructions'') = Inr instructions"
    "optional_field flds ''previous_response_id'' [] (\<lambda>raw. requiredString raw ''previous_response_id'') = Inr previous"
    "decode_input flds limits = Inr input" "decode_tool_field flds limits = Inr tools"
    "optional_field flds ''tool_choice'' (tool_choice ToolChoiceAuto []) decodeToolChoice = Inr choice"
    "optional_field flds ''parallel_tool_calls'' False (\<lambda>raw. boolValue raw ''parallel_tool_calls'') = Inr parallel"
    "optional_field flds ''reasoning'' [] decodeReasoning = Inr effort"
    "optional_field flds ''text'' (plain_format TextFormatText)
      (\<lambda>raw. decodeText raw (dl_MaxSchemaBytes limits - sum_list (map schema_bytes tools)) limits) = Inr format"
    "decode_stream flds = Inr stream"
    "optional_field flds ''include'' [] (\<lambda>raw. stringArray raw ''include'' (dl_MaxCollectionItems limits)) = Inr included"
    "check_ignored flds = Inr ()" "validateToolChoice choice tools = Inr ()"
    "wire = \<lparr>rrw_Model = model, rrw_Instructions = instructions, rrw_PreviousResponseID = previous, rrw_Input = input,
            rrw_Tools = tools, rrw_ToolChoice = choice,
            rrw_Generation = \<lparr>gw_Stream = stream, gw_ParallelToolCalls = parallel, gw_Include = included, gw_Effort = effort,
              gw_Format = format\<rparr>\<rparr>"
  using assms unfolding decodeRequestWire_def attempt_Inr_iff sum.inject
  by (elim exE conjE) (rule that, (assumption | erule sym | (erule trans, simp))+)

definition wire_ok :: "DecoderLimits \<Rightarrow> responsesRequestWire \<Rightarrow> bool" where
  "wire_ok limits wire \<longleftrightarrow>
     gw_Stream (rrw_Generation wire) \<and> TrimSpace (rrw_Model wire) \<noteq> []
     \<and> len (rrw_Input wire) \<le> dl_MaxInputItems limits \<and> (\<forall>item \<in> set (rrw_Input wire). item_ok item)
     \<and> distinct (wire_call_ids (rrw_Input wire))
     \<and> len (rrw_Tools wire) \<le> dl_MaxTools limits \<and> (\<forall>tool \<in> set (rrw_Tools wire). tool_ok limits tool)
     \<and> distinct (tool_names (rrw_Tools wire))
     \<and> (fmt_Schema (gw_Format (rrw_Generation wire)) \<noteq> [] \<longrightarrow> validateJSONSchema (fmt_Schema (gw_Format (rrw_Generation wire))) limits)
     \<and> sum_list (map schema_bytes (rrw_Tools wire)) + len (fmt_Schema (gw_Format (rrw_Generation wire))) \<le> dl_MaxSchemaBytes limits
     \<and> (tcho_Kind (rrw_ToolChoice wire) = ToolChoiceFunction \<longrightarrow>
          list_ex (is_function_tool (tcho_FunctionName (rrw_ToolChoice wire))) (rrw_Tools wire))"

lemma decodeRequestWire_ok:
  assumes "decodeRequestWire flds limits = Inr wire" "limits_positive limits"
  shows "wire_ok limits wire"
proof -
  from assms(1) obtain model instructions previous input tools choice parallel effort format stream included where
    m: "(case map_of flds ''model'' of None \<Rightarrow> invalidRequest ''model'' | Some raw \<Rightarrow> requiredString raw ''model'') = Inr model"
    and i: "decode_input flds limits = Inr input" and t: "decode_tool_field flds limits = Inr tools"
    and f: "optional_field flds ''text'' (plain_format TextFormatText)
      (\<lambda>raw. decodeText raw (dl_MaxSchemaBytes limits - sum_list (map schema_bytes tools)) limits) = Inr format"
    and s: "decode_stream flds = Inr stream" and c: "validateToolChoice choice tools = Inr ()"
    and wire: "wire = \<lparr>rrw_Model = model, rrw_Instructions = instructions, rrw_PreviousResponseID = previous, rrw_Input = input,
            rrw_Tools = tools, rrw_ToolChoice = choice,
            rrw_Generation = \<lparr>gw_Stream = stream, gw_ParallelToolCalls = parallel, gw_Include = included, gw_Effort = effort,
              gw_Format = format\<rparr>\<rparr>"
    by (rule decodeRequestWire_Inr)
  note pos = assms(2) [unfolded limits_positive_def]
  have "TrimSpace model \<noteq> []" using m by (auto dest: requiredString_nonblank split: option.splits)
  moreover have "stream" using s by (auto simp: decode_stream_def attempt_Inr_iff split: option.splits if_splits)
  moreover have "(fmt_Schema format \<noteq> [] \<longrightarrow> validateJSONSchema (fmt_Schema format) limits) \<and>
      sum_list (map schema_bytes tools) + len (fmt_Schema format) \<le> dl_MaxSchemaBytes limits"
    using f decode_tool_field_ok [OF t] pos decodeText_ok
    by (fastforce simp: optional_field_def plain_format_def split: option.splits)
  moreover have "tcho_Kind choice = ToolChoiceFunction \<longrightarrow> list_ex (is_function_tool (tcho_FunctionName choice)) tools"
    using c by (auto simp: validateToolChoice_def split: if_splits)
  ultimately show ?thesis
    using decode_input_ok [OF i] decode_tool_field_ok [OF t] pos by (simp add: wire_ok_def wire)
qed

section \<open>The bridge request\<close>

text \<open>What holds of every request that passes the boundary.\<close>

fun bridge_item_ok :: "InputItem \<Rightarrow> bool" where
  "bridge_item_ok (Message ident role content) = (role \<in> set valid_roles)"
| "bridge_item_ok (FunctionCall ident callID name arguments status) = (TrimSpace callID \<noteq> [] \<and> TrimSpace name \<noteq> [])"
| "bridge_item_ok (FunctionCallOutput callID out status err) = (TrimSpace callID \<noteq> [])"
| "bridge_item_ok (CustomToolCall ident callID name input status) = (TrimSpace callID \<noteq> [] \<and> TrimSpace name \<noteq> [])"
| "bridge_item_ok (CustomToolCallOutput callID out status err) = (TrimSpace callID \<noteq> [])"

fun declared_call :: "InputItem \<Rightarrow> gostring option" where
  "declared_call (FunctionCall ident callID name arguments status) = Some callID"
| "declared_call (CustomToolCall ident callID name input status) = Some callID"
| "declared_call _ = None"

fun bridge_tool_ok :: "DecoderLimits \<Rightarrow> Tool \<Rightarrow> bool" where
  "bridge_tool_ok limits (FunctionTool name description parameters strict) =
     (TrimSpace name \<noteq> [] \<and> validateJSONSchema parameters limits)"
| "bridge_tool_ok limits (CustomTool name description format) =
     (TrimSpace name \<noteq> [] \<and> format \<in> set [CustomToolFormatText, CustomToolFormatGrammar])"
| "bridge_tool_ok limits (DeferredTool kind name) = (kind = ToolNamespace \<or> kind = ToolWebSearch \<and> name = [])"

fun bridge_tool_name :: "Tool \<Rightarrow> gostring" where
  "bridge_tool_name (FunctionTool name _ _ _) = name"
| "bridge_tool_name (CustomTool name _ _) = name"
| "bridge_tool_name (DeferredTool _ name) = name"

fun tool_schema :: "Tool \<Rightarrow> gobytes" where
  "tool_schema (FunctionTool _ _ parameters _) = parameters"
| "tool_schema _ = []"

definition request_ok :: "DecoderLimits \<Rightarrow> 'c Request \<Rightarrow> bool" where
  "request_ok limits rq \<longleftrightarrow>
     gen_Stream (rq_Generation rq) \<and> TrimSpace (rq_Model rq) \<noteq> []
     \<and> len (rq_Input rq) \<le> dl_MaxInputItems limits \<and> (\<forall>item \<in> set (rq_Input rq). bridge_item_ok item)
     \<and> distinct (List.map_filter declared_call (rq_Input rq))
     \<and> len (rq_Tools rq) \<le> dl_MaxTools limits \<and> (\<forall>tool \<in> set (rq_Tools rq). bridge_tool_ok limits tool)
     \<and> distinct (filter (\<lambda>name. name \<noteq> []) (map bridge_tool_name (rq_Tools rq)))
     \<and> (tcho_Kind (rq_ToolChoice rq) = ToolChoiceFunction \<longrightarrow>
          (\<exists>description parameters strict.
             FunctionTool (tcho_FunctionName (rq_ToolChoice rq)) description parameters strict \<in> set (rq_Tools rq)))
     \<and> rq_ToolRegistry rq = None \<and> rq_Continuation rq = None"

lemma translate_input_facts:
  "bridge_item_ok (translate_input item) = item_ok item" "declared_call (translate_input item) = wire_callID item"
  by (cases item; simp)+

lemma translate_tool_facts:
  assumes "translate_tool wire = Inr tool"
  shows "bridge_tool_ok limits tool = tool_ok limits wire" "bridge_tool_name tool = toolName wire" "len (tool_schema tool) = schema_bytes wire"
    "is_function_tool name wire \<Longrightarrow> \<exists>description parameters strict. tool = FunctionTool name description parameters strict"
  using assms by (cases wire; auto simp: NewJSONSchema_def split: option.splits if_splits)+

lemma translate_tools_facts:
  assumes "map_all translate_tool wires = Inr tools"
  shows "length tools = length wires" "(\<forall>tool \<in> set tools. bridge_tool_ok limits tool) = (\<forall>wire \<in> set wires. tool_ok limits wire)"
    "map bridge_tool_name tools = map toolName wires" "map (\<lambda>tool. len (tool_schema tool)) tools = map schema_bytes wires"
    "list_ex (is_function_tool name) wires \<Longrightarrow>
       \<exists>description parameters strict. FunctionTool name description parameters strict \<in> set tools"
proof -
  from assms have "list_all2 (\<lambda>wire tool. translate_tool wire = Inr tool) wires tools" by (simp add: map_all_Inr_iff)
  then have "length tools = length wires \<and> ((\<forall>tool \<in> set tools. bridge_tool_ok limits tool) = (\<forall>wire \<in> set wires. tool_ok limits wire))
    \<and> map bridge_tool_name tools = map toolName wires \<and> map (\<lambda>tool. len (tool_schema tool)) tools = map schema_bytes wires
    \<and> (list_ex (is_function_tool name) wires \<longrightarrow> (\<exists>description parameters strict. FunctionTool name description parameters strict \<in> set tools))"
  proof (induction rule: list_all2_induct)
    case (Cons wire wires tool tools)
    then show ?case
      using translate_tool_facts(1) [OF Cons.hyps(1), of limits] translate_tool_facts(2,3) [OF Cons.hyps(1)]
        translate_tool_facts(4) [OF Cons.hyps(1), of name] by auto
  qed simp
  then show "length tools = length wires" "(\<forall>tool \<in> set tools. bridge_tool_ok limits tool) = (\<forall>wire \<in> set wires. tool_ok limits wire)"
    "map bridge_tool_name tools = map toolName wires" "map (\<lambda>tool. len (tool_schema tool)) tools = map schema_bytes wires"
    "list_ex (is_function_tool name) wires \<Longrightarrow>
       \<exists>description parameters strict. FunctionTool name description parameters strict \<in> set tools" by blast+
qed

lemma translateRequest_Inr:
  assumes "translateRequest wire = Inr rq"
  shows "rq_Model rq = rrw_Model wire" "rq_Instructions rq = rrw_Instructions wire"
    "rq_PreviousResponseID rq = rrw_PreviousResponseID wire" "rq_Input rq = map translate_input (rrw_Input wire)"
    "map_all translate_tool (rrw_Tools wire) = Inr (rq_Tools rq)" "rq_ToolChoice rq = rrw_ToolChoice wire"
    "gen_Stream (rq_Generation rq) = gw_Stream (rrw_Generation wire)"
    "gen_Include (rq_Generation rq) = gw_Include (rrw_Generation wire)"
    "gen_Effort (rq_Generation rq) = gw_Effort (rrw_Generation wire)"
    "fmt_Schema (gen_Format (rq_Generation rq)) = fmt_Schema (gw_Format (rrw_Generation wire))"
    "rq_ToolRegistry rq = None" "rq_Continuation rq = None"
proof -
  from assms obtain tools schema where t: "map_all translate_tool (rrw_Tools wire) = Inr tools"
    "(if fmt_Schema (gw_Format (rrw_Generation wire)) \<noteq> []
      then (case NewJSONSchema (fmt_Schema (gw_Format (rrw_Generation wire))) of None \<Rightarrow> Inl InternalError | Some schema \<Rightarrow> Inr schema)
      else Inr []) = Inr schema"
    and rq: "rq = \<lparr>rq_Model = rrw_Model wire, rq_Instructions = rrw_Instructions wire,
             rq_PreviousResponseID = rrw_PreviousResponseID wire, rq_Input = map translate_input (rrw_Input wire),
             rq_Tools = tools, rq_ToolChoice = rrw_ToolChoice wire,
             rq_Generation = \<lparr>gen_Stream = gw_Stream (rrw_Generation wire), gen_ParallelToolCalls = gw_ParallelToolCalls (rrw_Generation wire),
               gen_Include = gw_Include (rrw_Generation wire), gen_Effort = gw_Effort (rrw_Generation wire),
               gen_Format = gw_Format (rrw_Generation wire)\<lparr>fmt_Schema := schema\<rparr>\<rparr>,
             rq_ToolRegistry = None, rq_Continuation = None\<rparr>"
    unfolding translateRequest_def Let_def attempt_Inr_iff sum.inject by (elim exE conjE) (rule that, (assumption | erule sym)+)
  have "schema = fmt_Schema (gw_Format (rrw_Generation wire))"
    using t(2) by (auto simp: NewJSONSchema_def split: if_splits option.splits)
  with t(1) show "rq_Model rq = rrw_Model wire" "rq_Instructions rq = rrw_Instructions wire"
    "rq_PreviousResponseID rq = rrw_PreviousResponseID wire" "rq_Input rq = map translate_input (rrw_Input wire)"
    "map_all translate_tool (rrw_Tools wire) = Inr (rq_Tools rq)" "rq_ToolChoice rq = rrw_ToolChoice wire"
    "gen_Stream (rq_Generation rq) = gw_Stream (rrw_Generation wire)"
    "gen_Include (rq_Generation rq) = gw_Include (rrw_Generation wire)"
    "gen_Effort (rq_Generation rq) = gw_Effort (rrw_Generation wire)"
    "fmt_Schema (gen_Format (rq_Generation rq)) = fmt_Schema (gw_Format (rrw_Generation wire))"
    "rq_ToolRegistry rq = None" "rq_Continuation rq = None"
    by (simp_all add: rq)
qed

lemma NewDecoderWithLimits_positive: "NewDecoderWithLimits limits = Some l \<Longrightarrow> limits_positive l"
  by (auto simp: NewDecoderWithLimits_def Let_def split: if_splits)

lemma Decode_Inr:
  assumes "Decode (Some limits) body mediaType = Inr rq"
  obtains data flds wire where "readBounded body (dl_MaxBodyBytes limits) = Inr data" "utf8_Valid data"
    "decodeJSONObject data limits = Inr flds" "decodeRequestWire flds limits = Inr wire" "translateRequest wire = Inr rq"
  using assms unfolding Decode_def option.case
  by (auto simp: attempt_Inr_iff split: if_splits)

lemma translate_ok:
  assumes "translateRequest wire = Inr rq" "wire_ok limits wire"
  shows "request_ok limits rq \<and>
    sum_list (map (\<lambda>tool. len (tool_schema tool)) (rq_Tools rq)) + len (fmt_Schema (gen_Format (rq_Generation rq))) \<le> dl_MaxSchemaBytes limits"
proof -
  note t = translateRequest_Inr [OF assms(1)]
  note tools = translate_tools_facts [OF t(5)]
  have calls: "List.map_filter declared_call (rq_Input rq) = wire_call_ids (rrw_Input wire)"
    by (simp add: t(4) wire_call_ids_def List.map_filter_def filter_map o_def translate_input_facts)
  have choice: "tcho_Kind (rq_ToolChoice rq) = ToolChoiceFunction \<longrightarrow>
      (\<exists>description parameters strict. FunctionTool (tcho_FunctionName (rq_ToolChoice rq)) description parameters strict \<in> set (rq_Tools rq))"
    using assms(2) tools(5) [of "tcho_FunctionName (rrw_ToolChoice wire)"] by (simp add: wire_ok_def t(6))
  show ?thesis
    using assms(2) choice tools(1,2) calls
    by (simp add: request_ok_def wire_ok_def t(1,6-12) tools(3,4) tool_names_def) (simp add: t(4) translate_input_facts)
qed

end
