(* ===== verification/Codex_Document.thy ===== *)
theory Codex_Document
  imports Codex_Props
begin

text \<open>
  The decoder reads the document and not some other text: the raw message of a field is the text of the member's value,
  and parsing it alone gives the value the document has there. The parser is local: what it reads from the front of a
  text it reads from that part alone.
\<close>

section \<open>Locality of the scanner\<close>

definition number_byte :: "char \<Rightarrow> bool" where
  "number_byte c \<longleftrightarrow> in_range 48 57 c \<or> c \<in> set [CHR ''.'', CHR ''e'', CHR ''E'', CHR ''+'', CHR ''-'']"

definition stops :: "gostring \<Rightarrow> bool" where
  "stops x \<longleftrightarrow> (case x of [] \<Rightarrow> True | c # _ \<Rightarrow> \<not> number_byte c)"

lemma scan_string_local: "scan_string s = Some (raw, t) \<Longrightarrow> s = raw @ CHR 0x22 # t \<and> scan_string (raw @ CHR 0x22 # x) = Some (raw, x)"
proof (induction s arbitrary: raw t rule: scan_string.induct)
  case (2 c cs)
  show ?case
  proof (cases "c = CHR 0x22 \<or> byte c < 0x20")
    case True
    with "2.prems" show ?thesis by (auto split: if_splits)
  next
    case plain: False
    show ?thesis
    proof (cases "c = CHR 0x5C")
      case False
      with plain "2.prems" obtain raw' where "scan_string cs = Some (raw', t)" "raw = c # raw'" by auto
      with "2.IH"(3) plain False show ?thesis by simp
    next
      case esc: True
      with "2.prems" obtain e es where es: "cs = e # es" by (cases cs) simp_all
      show ?thesis
      proof (cases "e = CHR ''u''")
        case False
        with esc es "2.prems" obtain raw' where "scan_string es = Some (raw', t)" "raw = c # e # raw'"
          "e \<in> set [CHR ''b'', CHR ''f'', CHR ''n'', CHR ''r'', CHR ''t'', CHR 0x5C, CHR ''/'', CHR 0x22]"
          by (auto split: if_splits)
        with "2.IH"(2) [OF _ _ esc es False] esc es False show ?thesis by auto
      next
        case u: True
        with esc es "2.prems" obtain h1 h2 h3 h4 rest raw' where h: "es = h1 # h2 # h3 # h4 # rest"
          "hex_value h1 \<noteq> None \<and> hex_value h2 \<noteq> None \<and> hex_value h3 \<noteq> None \<and> hex_value h4 \<noteq> None"
          "scan_string rest = Some (raw', t)" "raw = c # e # h1 # h2 # h3 # h4 # raw'"
          by (auto split: list.splits if_splits)
        from "2.IH"(1) [OF _ _ esc es u h(1) refl refl refl h(2,3)] esc u es h show ?thesis by simp
      qed
    qed
  qed
qed simp

lemma span_digits_local:
  assumes "span_digits s = (ds, r)" "x = [] \<or> \<not> in_range 48 57 (hd x)"
  shows "s = ds @ r \<and> span_digits (ds @ x) = (ds, x)"
proof -
  have ds: "ds = takeWhile (in_range 48 57) s" "r = dropWhile (in_range 48 57) s" using assms(1) by (auto simp: span_digits_def)
  then have "\<forall>c \<in> set ds. in_range 48 57 c" by (auto dest: set_takeWhileD)
  then have "takeWhile (in_range 48 57) (ds @ x) = ds \<and> dropWhile (in_range 48 57) (ds @ x) = x"
    using assms(2) by (cases x) (simp_all add: takeWhile_append2 dropWhile_append2)
  with ds show ?thesis by (simp add: span_digits_def)
qed

lemma scan_fraction_local:
  assumes "scan_fraction s = Some (f, r)" "x = [] \<or> \<not> in_range 48 57 (hd x) \<and> hd x \<noteq> CHR ''.''"
  shows "s = f @ r \<and> scan_fraction (f @ x) = Some (f, x)"
proof (cases "\<exists>ds. s = CHR ''.'' # ds")
  case False
  with assms show ?thesis by (cases s; cases x) (auto simp: scan_fraction_def split: if_splits)
next
  case True
  then obtain u where s: "s = CHR ''.'' # u" by blast
  obtain digits rest where d: "span_digits u = (digits, rest)" by (cases "span_digits u")
  with assms(1) s have f: "digits \<noteq> []" "f = CHR ''.'' # digits" "r = rest" by (auto simp: scan_fraction_def split: if_splits)
  with span_digits_local [OF d, of x] assms(2) s show ?thesis by (auto simp: scan_fraction_def)
qed

lemma scan_exponent_local:
  assumes "scan_exponent s = Some (ex, r)" "stops x"
  shows "s = ex @ r \<and> scan_exponent (ex @ x) = Some (ex, x) \<and> (ex = [] \<or> hd ex = CHR ''e'' \<or> hd ex = CHR ''E'')"
proof (cases "\<exists>e es. s = e # es \<and> (e = CHR ''e'' \<or> e = CHR ''E'')")
  case False
  with assms show ?thesis
    by (cases s; cases x) (auto simp: scan_exponent_def stops_def number_byte_def split: if_splits)
next
  case True
  then obtain e es where s: "s = e # es" "e = CHR ''e'' \<or> e = CHR ''E''" by blast
  have x: "x = [] \<or> \<not> in_range 48 57 (hd x)" using assms(2) by (auto simp: stops_def number_byte_def split: list.splits)
  obtain sign ds where sg: "(case es of c # cs \<Rightarrow> if c = CHR ''+'' \<or> c = CHR ''-'' then ([c], cs) else ([], es) | [] \<Rightarrow> ([], [])) = (sign, ds)"
    by (rule prod.exhaust)
  obtain digits rest where d: "span_digits ds = (digits, rest)" by (cases "span_digits ds")
  from assms(1) s sg d have f: "digits \<noteq> []" "ex = e # sign @ digits" "r = rest" by (auto simp: scan_exponent_def split: if_splits)
  note l = span_digits_local [OF d x]
  have dig: "in_range 48 57 (hd digits)"
    using d f(1) by (auto simp: span_digits_def hd_in_set dest!: set_takeWhileD [OF hd_in_set, of "in_range 48 57" ds])
  have "es = sign @ ds" using sg by (auto split: list.splits if_splits)
  moreover have "(case sign @ digits @ x of c # cs \<Rightarrow> if c = CHR ''+'' \<or> c = CHR ''-'' then ([c], cs) else ([], sign @ digits @ x)
      | [] \<Rightarrow> ([], [])) = (sign, digits @ x)"
    using sg f(1) dig by (cases digits) (auto simp: in_range_def split: list.splits if_splits)
  ultimately show ?thesis using s f l by (auto simp: scan_exponent_def)
qed

lemma scan_number_local:
  assumes "scan_number s = Some (n, r)" "stops x"
  shows "s = n @ r \<and> scan_number (n @ x) = Some (n, x) \<and> n \<noteq> [] \<and> number_byte (hd n)"
proof -
  obtain sign u where u: "(case s of c # cs \<Rightarrow> if c = CHR ''-'' then ([c], cs) else ([], s) | [] \<Rightarrow> ([], [])) = (sign, u)"
    by (rule prod.exhaust)
  obtain digits v where v: "(case u of c # cs \<Rightarrow> if c = CHR ''0'' then ([c], cs) else span_digits u | [] \<Rightarrow> ([], [])) = (digits, v)"
    by (rule prod.exhaust)
  from assms(1) u v obtain frac w ex where d: "digits \<noteq> []" and w: "scan_fraction v = Some (frac, w)"
    and r: "scan_exponent w = Some (ex, r)" and n: "n = sign @ digits @ frac @ ex"
    by (auto simp: scan_number_def Let_def split: if_splits option.splits prod.splits)
  note ex = scan_exponent_local [OF r assms(2)]
  have sx: "x = [] \<or> \<not> in_range 48 57 (hd x) \<and> hd x \<noteq> CHR ''.''"
    using assms(2) by (auto simp: stops_def number_byte_def split: list.splits)
  have exx: "ex @ x = [] \<or> \<not> in_range 48 57 (hd (ex @ x)) \<and> hd (ex @ x) \<noteq> CHR ''.''"
    using ex sx by (cases ex) (auto simp: in_range_def)
  note fr = scan_fraction_local [OF w exx]
  have frx: "frac @ ex @ x = [] \<or> \<not> in_range 48 57 (hd (frac @ ex @ x))"
  proof (cases frac)
    case (Cons c cs)
    with w have "c = CHR ''.''" by (auto simp: scan_fraction_def split: list.splits if_splits prod.splits)
    with Cons show ?thesis by (simp add: in_range_def)
  qed (use exx in auto)
  have u': "u = digits @ v \<and> (case digits @ frac @ ex @ x of c # cs \<Rightarrow> if c = CHR ''0'' then ([c], cs) else span_digits (digits @ frac @ ex @ x)
      | [] \<Rightarrow> ([], [])) = (digits, frac @ ex @ x)"
  proof (cases "\<exists>cs. u = CHR ''0'' # cs")
    case True
    with v show ?thesis by auto
  next
    case False
    with v d have "span_digits u = (digits, v)" by (cases u) auto
    note l = span_digits_local [OF this frx]
    have "hd digits \<noteq> CHR ''0''" using False l d by (cases digits) auto
    with l d show ?thesis by (cases digits) auto
  qed
  have dig: "in_range 48 57 (hd digits)"
  proof (cases "\<exists>cs. u = CHR ''0'' # cs")
    case True
    with v show ?thesis by (auto simp: in_range_def)
  next
    case False
    with v d have "digits = takeWhile (in_range 48 57) u" by (cases u) (auto simp: span_digits_def)
    then show ?thesis using d set_takeWhileD [OF hd_in_set, of "in_range 48 57" u] by simp
  qed
  have s: "s = sign @ u \<and> (case sign @ digits @ frac @ ex @ x of c # cs \<Rightarrow> if c = CHR ''-'' then ([c], cs)
       else ([], sign @ digits @ frac @ ex @ x) | [] \<Rightarrow> ([], [])) = (sign, digits @ frac @ ex @ x)"
    using u dig d by (cases digits) (auto simp: in_range_def split: list.splits if_splits)
  have hd: "number_byte (hd n)"
    using u dig d unfolding n by (cases sign) (auto simp: number_byte_def split: list.splits if_splits)
  show ?thesis
    using s u' fr ex d hd unfolding n by (simp add: scan_number_def)
qed

lemma parse_scalar_local:
  assumes "parse_scalar s = Some (v, r)"
  shows "\<exists>t. s = t @ r \<and> t \<noteq> [] \<and> \<not> json_space (hd t) \<and> (\<forall>x. stops x \<longrightarrow> parse_scalar (t @ x) = Some (v, x))"
proof (cases "\<exists>cs. s = CHR 0x22 # cs")
  case True
  then obtain cs where s: "s = CHR 0x22 # cs" by blast
  with assms obtain raw where raw: "scan_string cs = Some (raw, r)" "v = JStr (unquote raw)" by (auto simp: parse_scalar_def)
  have "s = (CHR 0x22 # raw @ [CHR 0x22]) @ r" using scan_string_local [OF raw(1)] s by simp
  moreover have "parse_scalar ((CHR 0x22 # raw @ [CHR 0x22]) @ x) = Some (v, x)" for x
    using scan_string_local [OF raw(1), of x] raw(2) by (simp add: parse_scalar_def)
  ultimately show ?thesis by (intro exI [of _ "CHR 0x22 # raw @ [CHR 0x22]"]) simp
next
  case noquote: False
  have word: ?thesis if "take k s = w" "r = drop k s" "w \<noteq> []" "\<not> json_space (hd w)" "\<And>x. parse_scalar (w @ x) = Some (v, x)" for w k
    using that append_take_drop_id [of k s] by (intro exI [of _ w]) simp
  consider (null) "take 4 s = ''null''" | (true) "take 4 s = ''true''" | (false) "take 5 s = ''false''"
    | (number) n where "v = JNum n" "scan_number s = Some (n, r)"
    using assms noquote by (cases s) (auto simp: parse_scalar_def split: if_splits)
  then show ?thesis
  proof cases
    case null
    with assms noquote have "v = JNull" "r = drop 4 s" by (cases s; auto simp: parse_scalar_def split: if_splits)+
    then show ?thesis using null by (intro word [OF null]) (simp_all add: parse_scalar_def)
  next
    case true
    with assms noquote have "v = JBool True" "r = drop 4 s" by (cases s; auto simp: parse_scalar_def split: if_splits)+
    then show ?thesis using true by (intro word [OF true]) (simp_all add: parse_scalar_def)
  next
    case false
    then obtain u where "s = ''false'' @ u" using append_take_drop_id [of 5 s] by metis
    with assms have "v = JBool False" "r = drop 5 s" by (simp_all add: parse_scalar_def)
    then show ?thesis by (intro word [OF false]) (simp_all add: parse_scalar_def)
  next
    case (number n)
    have "stops []" by (simp add: stops_def)
    note l = scan_number_local [OF number(2) this]
    have hd: "hd (n @ x) \<noteq> c" if "c \<in> set [CHR 0x22, CHR ''n'', CHR ''t'', CHR ''f'', CHR 0x20, CHR 0x09, CHR 0x0A, CHR 0x0D]" for c x
      using l that by (cases n) (auto simp: number_byte_def in_range_def)
    have "parse_scalar (n @ x) = Some (v, x)" if "stops x" for x
      using scan_number_local [OF number(2) that] hd [of _ x] number(1)
      by (cases n) (auto simp: parse_scalar_def)
    with l hd [of _ "[]"] show ?thesis by (intro exI [of _ n]) auto
  qed
qed

section \<open>Locality of the parser\<close>

lemma skip_ws_split:
  assumes "skip_ws s = c # r"
  obtains w where "s = w @ c # r" "\<forall>x. skip_ws (w @ x) = skip_ws x" "\<not> json_space c"
proof -
  have "\<exists>w. s = w @ skip_ws s \<and> (\<forall>x. skip_ws (w @ x) = skip_ws x)"
  proof (induction s)
    case (Cons a s)
    then obtain w where w: "s = w @ skip_ws s" "\<forall>x. skip_ws (w @ x) = skip_ws x" by blast
    show ?case
    proof (cases "json_space a")
      case True
      with w show ?thesis by (intro exI [of _ "a # w"]) simp
    next
      case False
      then show ?thesis by (intro exI [of _ "[]"]) simp
    qed
  qed simp
  then obtain w where "s = w @ c # r" "\<forall>x. skip_ws (w @ x) = skip_ws x" using assms by auto
  with skip_ws_head [OF assms] that show thesis by blast
qed

lemma stops_ws: "skip_ws x = c # y \<Longrightarrow> \<not> number_byte c \<Longrightarrow> stops x"
  by (cases x) (auto simp: stops_def number_byte_def in_range_def split: if_splits)

lemma skip_ws_append: "skip_ws t = e # y \<Longrightarrow> skip_ws (t @ x) = e # y @ x"
  by (induction t) (auto split: if_splits)

definition value_local :: "gostring \<Rightarrow> bool" where
  "value_local s \<longleftrightarrow> (\<forall>d v r. value_at d s = Some (v, r) \<longrightarrow> (\<exists>t. s = t @ r \<and> (\<forall>x. stops x \<longrightarrow> value_at d (t @ x) = Some (v, x))))"

definition elems_local :: "gostring \<Rightarrow> bool" where
  "elems_local s \<longleftrightarrow> (\<forall>d vs r. elems_at d s = Some (vs, r) \<longrightarrow> (\<exists>t. s = t @ r \<and> (\<forall>x. elems_at d (t @ x) = Some (vs, x))))"

definition members_local :: "gostring \<Rightarrow> bool" where
  "members_local s \<longleftrightarrow> (\<forall>d ms r. members_at d s = Some (ms, r) \<longrightarrow> (\<exists>t. s = t @ r \<and> (\<forall>x. members_at d (t @ x) = Some (ms, x))))"

lemma elems_at_Nil: "skip_ws s = [] \<Longrightarrow> elems_at d s \<noteq> Some p" "skip_ws s = [] \<Longrightarrow> members_at d s \<noteq> Some q"
proof -
  assume e: "skip_ws s = []"
  show "elems_at d s \<noteq> Some p"
  proof
    assume "elems_at d s = Some p"
    with value_at_Nil [OF e] show False by (cases p) (auto elim: elems_at_cases)
  qed
  show "members_at d s \<noteq> Some q"
  proof
    assume "members_at d s = Some q"
    with e show False by (cases q) (auto elim: members_at_cases)
  qed
qed

lemma value_local_step:
  assumes "\<And>t. length t < length s \<Longrightarrow> elems_local t \<and> members_local t"
  shows "value_local s"
  unfolding value_local_def
proof (intro allI impI)
  fix d v r
  assume p: "value_at d s = Some (v, r)"
  obtain c u where s: "skip_ws s = c # u" using p value_at_Nil [of s d] by (cases "skip_ws s") auto
  obtain w where w: "s = w @ c # u" "\<forall>x. skip_ws (w @ x) = skip_ws x" "\<not> json_space c" by (rule skip_ws_split [OF s])
  note p' = p [unfolded value_at_Cons [OF s]] and l = assms [OF skip_ws_Cons [OF s]]
  consider (arr) "c = CHR ''[''" | (obj) "c = CHR ''{''" | (scalar) "c \<noteq> CHR ''['' \<and> c \<noteq> CHR ''{''" by blast
  then show "\<exists>t. s = t @ r \<and> (\<forall>x. stops x \<longrightarrow> value_at d (t @ x) = Some (v, x))"
  proof cases
    case scalar
    with p' have "parse_scalar (c # u) = Some (v, r)" by simp
    from parse_scalar_local [OF this] obtain t where t: "c # u = t @ r" "t \<noteq> []" "\<not> json_space (hd t)"
      "\<forall>x. stops x \<longrightarrow> parse_scalar (t @ x) = Some (v, x)" by blast
    then obtain t' where t': "t = c # t'" by (cases t) auto
    have "value_at d ((w @ t) @ x) = Some (v, x)" if "stops x" for x
    proof -
      have "skip_ws ((w @ t) @ x) = c # t' @ x" using w(2) w(3) t' by simp
      moreover have "parse_scalar (c # t' @ x) = Some (v, x)" using t(4) that t' by simp
      ultimately show ?thesis using scalar value_at_Cons [of "(w @ t) @ x" c "t' @ x" d] by simp
    qed
    with w(1) t(1) show ?thesis by (intro exI [of _ "w @ t"]) simp
  next
    case arr
    with p' obtain e' u' where u: "0 < d" "skip_ws u = e' # u'" by (auto split: if_splits list.splits)
    have sk: "skip_ws ((w @ c # y) @ x) = c # y @ x" for x y using w(2) w(3) by simp
    show ?thesis
    proof (cases "e' = CHR '']''")
      case True
      with p' arr u have v: "v = JArr []" "r = u'" by simp_all
      obtain w' where w': "u = w' @ e' # u'" "\<forall>x. skip_ws (w' @ x) = skip_ws x" "\<not> json_space e'" by (rule skip_ws_split [OF u(2)])
      have "value_at d ((w @ c # w' @ [e']) @ x) = Some (v, x)" for x
        using value_at_Cons [OF sk [of "w' @ [e']" x], of d] w'(2) [rule_format, of "e' # x"] arr u(1) True v(1) by simp
      with w(1) w'(1) v(2) show ?thesis by (intro exI [of _ "w @ c # w' @ [e']"]) simp
    next
      case False
      with p' arr u obtain vs where vs: "elems_at (d - 1) u = Some (vs, r)" "v = JArr vs" by auto
      with l obtain t where t: "u = t @ r" "\<forall>x. elems_at (d - 1) (t @ x) = Some (vs, x)" unfolding elems_local_def by blast
      obtain e2 y where e2: "skip_ws t = e2 # y"
        using t(2) [rule_format, of "[]"] elems_at_Nil(1) [of t "d - 1"] by (cases "skip_ws t") auto
      with u(2) t(1) have ne: "skip_ws (t @ x) = e' # y @ x" for x using skip_ws_append [OF e2, of x] skip_ws_append [OF e2, of r] by simp
      have "value_at d ((w @ c # t) @ x) = Some (v, x)" for x
        using value_at_Cons [OF sk [of t x], of d] ne [of x] arr u(1) False vs(2) t(2) by simp
      with w(1) t(1) show ?thesis by (intro exI [of _ "w @ c # t"]) simp
    qed
  next
    case obj
    with p' obtain e' u' where u: "0 < d" "skip_ws u = e' # u'" by (auto split: if_splits list.splits)
    have sk: "skip_ws ((w @ c # y) @ x) = c # y @ x" for x y using w(2) w(3) by simp
    show ?thesis
    proof (cases "e' = CHR ''}''")
      case True
      with p' obj u have v: "v = JObj []" "r = u'" by simp_all
      obtain w' where w': "u = w' @ e' # u'" "\<forall>x. skip_ws (w' @ x) = skip_ws x" "\<not> json_space e'" by (rule skip_ws_split [OF u(2)])
      have "value_at d ((w @ c # w' @ [e']) @ x) = Some (v, x)" for x
        using value_at_Cons [OF sk [of "w' @ [e']" x], of d] w'(2) [rule_format, of "e' # x"] obj u(1) True v(1) by simp
      with w(1) w'(1) v(2) show ?thesis by (intro exI [of _ "w @ c # w' @ [e']"]) simp
    next
      case False
      with p' obj u obtain ms where ms: "members_at (d - 1) u = Some (ms, r)" "v = JObj ms" by auto
      with l obtain t where t: "u = t @ r" "\<forall>x. members_at (d - 1) (t @ x) = Some (ms, x)" unfolding members_local_def by blast
      obtain e2 y where e2: "skip_ws t = e2 # y"
        using t(2) [rule_format, of "[]"] elems_at_Nil(2) [of t "d - 1"] by (cases "skip_ws t") auto
      with u(2) t(1) have ne: "skip_ws (t @ x) = e' # y @ x" for x using skip_ws_append [OF e2, of x] skip_ws_append [OF e2, of r] by simp
      have "value_at d ((w @ c # t) @ x) = Some (v, x)" for x
        using value_at_Cons [OF sk [of t x], of d] ne [of x] obj u(1) False ms(2) t(2) by simp
      with w(1) t(1) show ?thesis by (intro exI [of _ "w @ c # t"]) simp
    qed
  qed
qed

lemma elems_local_step:
  assumes "value_local s" "\<And>t. length t < length s \<Longrightarrow> elems_local t"
  shows "elems_local s"
  unfolding elems_local_def
proof (intro allI impI)
  fix d vs r
  assume "elems_at d s = Some (vs, r)"
  then show "\<exists>t. s = t @ r \<and> (\<forall>x. elems_at d (t @ x) = Some (vs, x))"
  proof (cases rule: elems_at_cases)
    case (last v t)
    from assms(1) last(1) obtain a where a: "s = a @ t" "\<forall>x. stops x \<longrightarrow> value_at d (a @ x) = Some (v, x)"
      unfolding value_local_def by blast
    obtain w where w: "t = w @ CHR '']'' # r" "\<forall>x. skip_ws (w @ x) = skip_ws x" "\<not> json_space (CHR '']'')" by (rule skip_ws_split [OF last(2)])
    have "elems_at d ((a @ w @ [CHR '']'']) @ x) = Some (vs, x)" for x
    proof -
      have sk: "skip_ws (w @ CHR '']'' # x) = CHR '']'' # x" using w(2) by simp
      then have "stops (w @ CHR '']'' # x)" by (rule stops_ws) (simp add: number_byte_def in_range_def)
      from elems_at_value [OF a(2) [rule_format, OF this] sk] last(3) show ?thesis by simp
    qed
    with a(1) w(1) show ?thesis by (intro exI [of _ "a @ w @ [CHR '']'']"]) simp
  next
    case (more v t u ws)
    from assms(1) more(1) obtain a where a: "s = a @ t" "\<forall>x. stops x \<longrightarrow> value_at d (a @ x) = Some (v, x)"
      unfolding value_local_def by blast
    obtain w where w: "t = w @ CHR '','' # u" "\<forall>x. skip_ws (w @ x) = skip_ws x" "\<not> json_space (CHR '','')" by (rule skip_ws_split [OF more(2)])
    have "length u < length s" using at_shrinks(1) [OF more(1)] skip_ws_Cons [OF more(2)] by simp
    from assms(2) [OF this] more(3) obtain b where b: "u = b @ r" "\<forall>x. elems_at d (b @ x) = Some (ws, x)" unfolding elems_local_def by blast
    have "elems_at d ((a @ w @ CHR '','' # b) @ x) = Some (vs, x)" for x
    proof -
      have sk: "skip_ws (w @ CHR '','' # b @ x) = CHR '','' # b @ x" using w(2) by simp
      then have "stops (w @ CHR '','' # b @ x)" by (rule stops_ws) (simp add: number_byte_def in_range_def)
      from elems_at_value [OF a(2) [rule_format, OF this] sk] more(4) b(2) show ?thesis by simp
    qed
    with a(1) w(1) b(1) show ?thesis by (intro exI [of _ "a @ w @ CHR '','' # b"]) simp
  qed
qed

lemma members_local_step:
  assumes "\<And>t. length t < length s \<Longrightarrow> value_local t" "\<And>t. length t < length s \<Longrightarrow> members_local t"
  shows "members_local s"
  unfolding members_local_def
proof (intro allI impI)
  fix d ms r
  assume m: "members_at d s = Some (ms, r)"
  have front: "\<exists>a. s = a @ u \<and> (\<forall>x. stops x \<longrightarrow> (\<exists>q t k. skip_ws (a @ x) = CHR 0x22 # q \<and> scan_string q = Some (raw, t)
      \<and> skip_ws t = CHR '':'' # k \<and> value_at d k = Some (v, x)))"
    if f: "skip_ws s = CHR 0x22 # qs" "scan_string qs = Some (raw, t)" "skip_ws t = CHR '':'' # ks" "value_at d ks = Some (v, u)"
    for qs raw t ks v u
  proof -
    obtain w where w: "s = w @ CHR 0x22 # qs" "\<forall>x. skip_ws (w @ x) = skip_ws x" "\<not> json_space (CHR 0x22)" by (rule skip_ws_split [OF f(1)])
    obtain w' where w': "t = w' @ CHR '':'' # ks" "\<forall>x. skip_ws (w' @ x) = skip_ws x" "\<not> json_space (CHR '':'')" by (rule skip_ws_split [OF f(3)])
    have "length ks < length s" using skip_ws_Cons [OF f(1)] scan_string_shrinks [OF f(2)] skip_ws_Cons [OF f(3)] by simp
    from assms(1) [OF this] f(4) obtain a where a: "ks = a @ u" "\<forall>x. stops x \<longrightarrow> value_at d (a @ x) = Some (v, x)"
      unfolding value_local_def by blast
    have qs: "qs = raw @ CHR 0x22 # t" using scan_string_local [OF f(2)] by blast
    let ?a = "w @ CHR 0x22 # raw @ CHR 0x22 # w' @ CHR '':'' # a"
    have "\<exists>q t k. skip_ws (?a @ x) = CHR 0x22 # q \<and> scan_string q = Some (raw, t) \<and> skip_ws t = CHR '':'' # k \<and> value_at d k = Some (v, x)"
      if "stops x" for x
    proof (intro exI conjI)
      show "skip_ws (?a @ x) = CHR 0x22 # raw @ CHR 0x22 # w' @ CHR '':'' # a @ x" using w(2) by simp
      show "scan_string (raw @ CHR 0x22 # w' @ CHR '':'' # a @ x) = Some (raw, w' @ CHR '':'' # a @ x)"
        using scan_string_local [OF f(2)] by blast
      show "skip_ws (w' @ CHR '':'' # a @ x) = CHR '':'' # a @ x" using w'(2) by simp
      show "value_at d (a @ x) = Some (v, x)" using a(2) that by simp
    qed
    with w(1) qs w'(1) a(1) show ?thesis by (intro exI [of _ ?a]) simp
  qed
  from m show "\<exists>t. s = t @ r \<and> (\<forall>x. members_at d (t @ x) = Some (ms, x))"
  proof (cases rule: members_at_cases)
    case (last qs raw t ks v u)
    from front [OF last(1-4)] obtain a where a: "s = a @ u" "\<And>x. stops x \<Longrightarrow> \<exists>q t k. skip_ws (a @ x) = CHR 0x22 # q \<and> scan_string q = Some (raw, t)
      \<and> skip_ws t = CHR '':'' # k \<and> value_at d k = Some (v, x)" by auto
    obtain w where w: "u = w @ CHR ''}'' # r" "\<forall>x. skip_ws (w @ x) = skip_ws x" "\<not> json_space (CHR ''}'')" by (rule skip_ws_split [OF last(5)])
    have "members_at d ((a @ w @ [CHR ''}'']) @ x) = Some (ms, x)" for x
    proof -
      have sk: "skip_ws (w @ CHR ''}'' # x) = CHR ''}'' # x" using w(2) by simp
      then have "stops (w @ CHR ''}'' # x)" by (rule stops_ws) (simp add: number_byte_def in_range_def)
      from a(2) [OF this] obtain q t k where f: "skip_ws (a @ w @ CHR ''}'' # x) = CHR 0x22 # q" "scan_string q = Some (raw, t)"
        "skip_ws t = CHR '':'' # k" "value_at d k = Some (v, w @ CHR ''}'' # x)" by blast
      from members_at_value [OF f sk] last(6) show ?thesis by simp
    qed
    with a(1) w(1) show ?thesis by (intro exI [of _ "a @ w @ [CHR ''}'']"]) simp
  next
    case (more qs raw t ks v u u' ns)
    from front [OF more(1-4)] obtain a where a: "s = a @ u" "\<And>x. stops x \<Longrightarrow> \<exists>q t k. skip_ws (a @ x) = CHR 0x22 # q \<and> scan_string q = Some (raw, t)
      \<and> skip_ws t = CHR '':'' # k \<and> value_at d k = Some (v, x)" by auto
    obtain w where w: "u = w @ CHR '','' # u'" "\<forall>x. skip_ws (w @ x) = skip_ws x" "\<not> json_space (CHR '','')" by (rule skip_ws_split [OF more(5)])
    have "length u' < length s"
      using skip_ws_Cons [OF more(1)] scan_string_shrinks [OF more(2)] skip_ws_Cons [OF more(3)] at_shrinks(1) [OF more(4)] skip_ws_Cons [OF more(5)]
      by simp
    from assms(2) [OF this] more(6) obtain b where b: "u' = b @ r" "\<forall>x. members_at d (b @ x) = Some (ns, x)" unfolding members_local_def by blast
    have "members_at d ((a @ w @ CHR '','' # b) @ x) = Some (ms, x)" for x
    proof -
      have sk: "skip_ws (w @ CHR '','' # b @ x) = CHR '','' # b @ x" using w(2) by simp
      then have "stops (w @ CHR '','' # b @ x)" by (rule stops_ws) (simp add: number_byte_def in_range_def)
      from a(2) [OF this] obtain q t k where f: "skip_ws (a @ w @ CHR '','' # b @ x) = CHR 0x22 # q" "scan_string q = Some (raw, t)"
        "skip_ws t = CHR '':'' # k" "value_at d k = Some (v, w @ CHR '','' # b @ x)" by blast
      from members_at_value [OF f sk] more(7) b(2) show ?thesis by simp
    qed
    with a(1) w(1) b(1) show ?thesis by (intro exI [of _ "a @ w @ CHR '','' # b"]) simp
  qed
qed

lemma parser_local: "value_local s \<and> elems_local s \<and> members_local s"
proof (induction "length s" arbitrary: s rule: less_induct)
  case less
  then have "value_local s" by (intro value_local_step) simp_all
  with less show ?case by (simp add: elems_local_step members_local_step)
qed

section \<open>Raw messages\<close>

text \<open>Allowing more nesting does not change what is read.\<close>

lemma parse_deeper:
  shows "parse_value n d s = Some p \<Longrightarrow> d \<le> d' \<Longrightarrow> parse_value n d' s = Some p"
    and "parse_elems n d s = Some q \<Longrightarrow> d \<le> d' \<Longrightarrow> parse_elems n d' s = Some q"
    and "parse_members n d s = Some u \<Longrightarrow> d \<le> d' \<Longrightarrow> parse_members n d' s = Some u"
proof (induction n d s and n d s and n d s arbitrary: p d' and q d' and u d' rule: parse_value_parse_elems_parse_members.induct)
  case (2 n d s)
  show ?case
  proof (cases "skip_ws s")
    case (Cons c r)
    show ?thesis
    proof (cases "(c = CHR ''['' \<or> c = CHR ''{'') \<and> 0 < d")
      case True
      with "2.prems"(1) Cons obtain e r' where r': "skip_ws r = e # r'" by (auto split: list.splits if_splits)
      have 1: "parse_elems n (d' - 1) r = Some q" if "c = CHR ''[''" "\<not> d \<le> 0" "e \<noteq> CHR '']''" "parse_elems n (d - 1) r = Some q" for q
        by (rule "2.IH"(1) [OF Cons that(1,2) r' that(3,4)]) (use "2.prems"(2) in simp)
      have 2: "parse_members n (d' - 1) r = Some q"
        if "c \<noteq> CHR ''[''" "c = CHR ''{''" "\<not> d \<le> 0" "e \<noteq> CHR ''}''" "parse_members n (d - 1) r = Some q" for q
        by (rule "2.IH"(2) [OF Cons that(1,2,3) r' that(4,5)]) (use "2.prems"(2) in simp)
      from True 1 2 "2.prems" show ?thesis by (auto simp: Cons r')
    next
      case False
      with "2.prems"(1) Cons have "c \<noteq> CHR ''[''" "c \<noteq> CHR ''{''" by (auto split: if_splits)
      with "2.prems"(1) Cons show ?thesis by simp
    qed
  qed (use "2.prems" in simp)
next
  case (4 n d s)
  from "4.prems"(1) obtain v r c r' where v: "parse_value n d s = Some (v, r)" "skip_ws r = c # r'"
    by (auto split: option.splits list.splits)
  have 1: "parse_value n d' s = Some (v, r)" by (rule "4.IH"(1) [OF v(1) "4.prems"(2)])
  have 2: "parse_elems n d' r' = Some q" if "c \<noteq> CHR '']''" "c = CHR '',''" "parse_elems n d r' = Some q" for q
    by (rule "4.IH"(2) [OF v(1) refl v(2) that "4.prems"(2)])
  show ?case using "4.prems"(1) 2 by (simp add: v 1 split: if_splits) fastforce
next
  case (6 n d s)
  from "6.prems"(1) obtain qs raw t ks v r c r' where v: "skip_ws s = CHR 0x22 # qs" "scan_string qs = Some (raw, t)"
     "skip_ws t = CHR '':'' # ks" "parse_value n d ks = Some (v, r)" "skip_ws r = c # r'"
    by (auto split: option.splits list.splits if_splits)
  have 1: "parse_value n d' ks = Some (v, r)" by (rule "6.IH"(1) [OF v(1) refl v(2) refl v(3) refl v(4) "6.prems"(2)])
  have 2: "parse_members n d' r' = Some q" if "c \<noteq> CHR ''}''" "c = CHR '',''" "parse_members n d r' = Some q" for q
    by (rule "6.IH"(2) [OF v(1) refl v(2) refl v(3) refl v(4) refl v(5) that "6.prems"(2)])
  show ?case using "6.prems"(1) 2 by (simp add: v 1 split: if_splits) fastforce
qed simp_all

lemma value_at_deeper: "value_at d s = Some p \<Longrightarrow> d \<le> d' \<Longrightarrow> value_at d' s = Some p"
  unfolding value_at_def by (rule parse_deeper(1))

lemma value_at_ws: "value_at d s = value_at d (skip_ws s)"
proof (cases "skip_ws s")
  case Nil
  then show ?thesis by (simp add: value_at_Nil)
next
  case (Cons c r)
  then have "skip_ws (skip_ws s) = c # r" using skip_ws_head [OF Cons] by simp
  from value_at_Cons [OF this, of d] value_at_Cons [OF Cons, of d] show ?thesis by simp
qed

lemma raw_front_value:
  assumes "value_at d s = Some (v, r)" "d \<le> max_nesting"
  shows "\<exists>raw. raw_front s = Some (raw, r) \<and> parse_json raw = Some v"
proof -
  have p: "value_at max_nesting s = Some (v, r)" using assms by (rule value_at_deeper)
  then have "value_at max_nesting (skip_ws s) = Some (v, r)" using value_at_ws [of max_nesting s] by simp
  with parser_local [of "skip_ws s"] obtain t where t: "skip_ws s = t @ r" "\<forall>x. stops x \<longrightarrow> value_at max_nesting (t @ x) = Some (v, x)"
    unfolding value_local_def by blast
  have "value_at max_nesting t = Some (v, [])" using t(2) [rule_format, of "[]"] by (simp add: stops_def)
  then have "parse_json t = Some v" by (simp add: parse_json_def parse_front_at)
  moreover have "raw_front s = Some (t, r)" using p t(1) by (simp add: raw_front_def parse_front_at)
  ultimately show ?thesis by blast
qed

text \<open>A raw object has, for each member of the document, its key and a text that parses to its value.\<close>

definition reads_member :: "gostring \<times> gostring \<Rightarrow> gostring \<times> json \<Rightarrow> bool" where
  "reads_member e m \<longleftrightarrow> fst e = fst m \<and> parse_json (snd e) = Some (snd m)"

lemma raw_member_value:
  assumes "skip_ws s = CHR 0x22 # qs" "scan_string qs = Some (raw, t)" "skip_ws t = CHR '':'' # ks" "value_at d ks = Some (v, u)" "d \<le> max_nesting"
  shows "\<exists>msg. raw_member s = Some ((unquote raw, msg), u) \<and> parse_json msg = Some v"
  using raw_front_value [OF assms(4,5)] by (auto simp: raw_member_def assms(1-3))

lemma raw_members_read:
  "members_at d s = Some (ms, r) \<Longrightarrow> d \<le> max_nesting \<Longrightarrow> distinct (map fst ms) \<Longrightarrow> set (map fst ms) \<inter> set (map fst flds) = {} \<Longrightarrow>
     \<exists>es. raw_members flds s = Some (flds @ es, r) \<and> list_all2 reads_member es ms"
proof (induction "length s" arbitrary: s ms flds rule: less_induct)
  case less
  from less.prems(1) show ?case
  proof (cases rule: members_at_cases)
    case (last qs raw t ks v u)
    from raw_member_value [OF last(1-4) less.prems(2)] obtain msg where msg: "raw_member s = Some ((unquote raw, msg), u)" "parse_json msg = Some v"
      by blast
    have "map_put (unquote raw) msg flds = flds @ [(unquote raw, msg)]"
      using less.prems(4) last(6) by (intro map_put_fresh) (auto simp: map_of_eq_None_iff)
    then have "raw_members flds s = Some (flds @ [(unquote raw, msg)], r)"
      by (subst raw_members.simps) (simp add: msg(1) last(5))
    with msg(2) last(6) show ?thesis by (intro exI [of _ "[(unquote raw, msg)]"]) (simp add: reads_member_def)
  next
    case (more qs raw t ks v u u' ns)
    from raw_member_value [OF more(1-4) less.prems(2)] obtain msg where msg: "raw_member s = Some ((unquote raw, msg), u)" "parse_json msg = Some v"
      by blast
    let ?flds = "flds @ [(unquote raw, msg)]"
    have put: "map_put (unquote raw) msg flds = ?flds"
      using less.prems(4) more(7) by (intro map_put_fresh) (auto simp: map_of_eq_None_iff)
    have len: "length u' < length s"
      using skip_ws_Cons [OF more(1)] scan_string_shrinks [OF more(2)] skip_ws_Cons [OF more(3)] at_shrinks(1) [OF more(4)] skip_ws_Cons [OF more(5)]
      by simp
    from less.hyps [OF len more(6) less.prems(2), of ?flds] less.prems(3,4) more(7)
    obtain es where es: "raw_members ?flds u' = Some (?flds @ es, r)" "list_all2 reads_member es ns" by auto
    have "raw_members flds s = Some (flds @ (unquote raw, msg) # es, r)"
      by (subst raw_members.simps) (simp add: msg(1) more(5) put es(1))
    with msg(2) more(7) es(2) show ?thesis by (intro exI [of _ "(unquote raw, msg) # es"]) (simp add: reads_member_def)
  qed
qed

lemma raw_object_read:
  assumes "value_at d s = Some (JObj ms, r)" "d \<le> max_nesting" "distinct (map fst ms)"
  shows "\<exists>es. raw_object s = Some (es, r) \<and> list_all2 reads_member es ms"
proof -
  obtain c u where s: "skip_ws s = c # u" using assms(1) value_at_Nil [of s d] by (cases "skip_ws s") auto
  note p = assms(1) [unfolded value_at_Cons [OF s]]
  have c: "c = CHR ''{''"
  proof (rule ccontr)
    assume "\<not> ?thesis"
    with p have "parse_scalar (c # u) = Some (JObj ms, r)" by (auto split: if_splits list.splits)
    then show False by (auto simp: parse_scalar_def split: if_splits)
  qed
  with p obtain e u' where u: "0 < d" "skip_ws u = e # u'" by (auto split: if_splits list.splits)
  show ?thesis
  proof (cases "e = CHR ''}''")
    case True
    with p c u have "ms = []" "r = u'" by simp_all
    with s c u True show ?thesis by (simp add: raw_object_def)
  next
    case False
    with p c u have "members_at (d - 1) u = Some (ms, r)" by auto
    from raw_members_read [OF this, of "[]"] assms(2,3) s c u False show ?thesis by (auto simp: raw_object_def)
  qed
qed

lemma reads_keys: "list_all2 reads_member es ms \<Longrightarrow> map fst es = map fst ms"
  by (induction rule: list_all2_induct) (simp_all add: reads_member_def)

lemma reads_map_of:
  assumes "list_all2 reads_member es ms"
  shows "(case map_of es k of None \<Rightarrow> map_of ms k = None | Some raw \<Rightarrow> \<exists>v. map_of ms k = Some v \<and> parse_json raw = Some v)"
  using assms by (induction rule: list_all2_induct) (auto simp: reads_member_def split: option.splits)

section \<open>The request is the document's\<close>

lemma decodeJSONObject_reads:
  assumes "decodeJSONObject data limits = Inr flds" "dl_MaxJSONDepth limits \<le> max_nesting"
  shows "\<exists>ms. parse_json data = Some (JObj ms) \<and> structured (dl_MaxCollectionItems limits) (dl_MaxJSONDepth limits) (JObj ms)
    \<and> json_tokens (JObj ms) \<le> dl_MaxJSONTokens limits \<and> list_all2 reads_member flds ms"
proof -
  from assms(1) obtain r where v: "validateJSONDocument data (json_limits_of limits) = None" and r: "raw_object data = Some (flds, r)"
    by (auto simp: decodeJSONObject_def split: if_splits option.splits structure_error.splits)
  from validateJSONDocument_sound [OF v] assms(2) obtain x where x: "parse_json data = Some x"
    "structured (dl_MaxCollectionItems limits) (dl_MaxJSONDepth limits) x" "json_tokens x \<le> dl_MaxJSONTokens limits"
    by (auto simp: json_limits_of_def)
  then obtain t where p: "value_at max_nesting data = Some (x, t)"
    by (auto simp: parse_json_def parse_front_at split: option.splits prod.splits if_splits)
  have "\<exists>ms. x = JObj ms"
  proof -
    from r obtain u where s: "skip_ws data = CHR ''{'' # u" by (auto simp: raw_object_def split: list.splits if_splits)
    from p [unfolded value_at_Cons [OF s]] show ?thesis by (auto split: if_splits list.splits)
  qed
  then obtain ms where ms: "x = JObj ms" by blast
  with x(2) have "distinct (map fst ms)" by simp
  with raw_object_read [of max_nesting data ms t] p ms r x show ?thesis by auto
qed

lemma check_policy_fields:
  "check_policy ks = Inr () \<Longrightarrow> k \<in> set ks \<Longrightarrow> map_of topLevelPolicy k = Some policyTranslate \<or> map_of topLevelPolicy k = Some policyNoOp"
proof (induction ks)
  case (Cons a ks)
  then show ?case by (cases "map_of topLevelPolicy a") (auto split: if_splits intro: fieldPolicy.exhaust [of "the (map_of topLevelPolicy a)"])
qed simp

text \<open>What a string field says: absent and \<open>null\<close> are the empty string.\<close>

fun string_field :: "json option \<Rightarrow> gostring option" where
  "string_field None = Some []"
| "string_field (Some JNull) = Some []"
| "string_field (Some (JStr s)) = Some s"
| "string_field _ = None"

lemma string_field_read:
  assumes "list_all2 reads_member flds ms" "optional_field flds k [] (\<lambda>raw. stringValue raw p) = Inr value"
  shows "string_field (map_of ms k) = Some value"
  using assms(2) reads_map_of [OF assms(1), of k]
  by (auto simp: optional_field_def stringValue_def unmarshal_string_def split: option.splits json.splits)

lemma bool_field_read:
  assumes "list_all2 reads_member flds ms" "map_of flds k = Some raw" "boolValue raw p = Inr True"
  shows "map_of ms k = Some (JBool True)"
  using assms(2,3) reads_map_of [OF assms(1), of k]
  by (auto simp: boolValue_def unmarshal_bool_def split: option.splits json.splits)

end
