(* ===== verification/Codex_Contract.thy ===== *)
theory Codex_Contract
  imports Codex_Document
begin

text \<open>
  The properties of the Codex request boundary, and a sample request for their witnesses: a document with an
  instruction, a user message, a function tool with its schema, and a tool choice.
\<close>

section \<open>A sample request\<close>

text \<open>Documents are written with \<open>^\<close> for the quotation mark.\<close>

definition quoted :: "gostring \<Rightarrow> gostring" where
  "quoted s = map (\<lambda>c. if c = CHR ''^'' then CHR 0x22 else c) s"

definition sample_limits :: DecoderLimits where
  "sample_limits = \<lparr>dl_MaxBodyBytes = 4096, dl_MaxInputItems = 8, dl_MaxCollectionItems = 16, dl_MaxTools = 8, dl_MaxSchemaBytes = 1024,
     dl_MaxJSONDepth = 8, dl_MaxJSONTokens = 64\<rparr>"

definition sample_document :: gostring where
  "sample_document = quoted (''{^model^:^m^,^instructions^:^be brief^,^input^:[{^type^:^message^,^role^:^user^,^content^:^hi^}],''
     @ ''^tools^:[{^type^:^function^,^name^:^f^,^parameters^:{^type^:^object^}}],''
     @ ''^tool_choice^:{^type^:^function^,^name^:^f^},^stream^:true}'')"

definition sample_body :: request_body where
  "sample_body = \<lparr>body_bytes = sample_document, body_fails = False\<rparr>"

definition sample_request :: "unit Request" where
  "sample_request =
     \<lparr>rq_Model = ''m'', rq_Instructions = ''be brief'', rq_PreviousResponseID = [], rq_Input = [Message [] ''user'' [TextContent ''hi'']],
      rq_Tools = [FunctionTool ''f'' [] (quoted ''{^type^:^object^}'') None],
      rq_ToolChoice = \<lparr>tcho_Kind = ''function'', tcho_FunctionName = ''f''\<rparr>,
      rq_Generation = \<lparr>gen_Stream = True, gen_ParallelToolCalls = False, gen_Include = [], gen_Effort = [],
        gen_Format = \<lparr>fmt_Kind = ''text'', fmt_Name = [], fmt_Description = [], fmt_Schema = [], fmt_Strict = None\<rparr>\<rparr>,
      rq_ToolRegistry = None, rq_Continuation = None\<rparr>"

lemma sample_decoded: "Decode (Some sample_limits) (Some sample_body) (Some ''Application/JSON'') = Inr sample_request"
  by code_simp

lemma sample_decoder: "NewDecoderWithLimits sample_limits = Some sample_limits"
  by code_simp

text \<open>A body within the limit is read whole.\<close>

lemma readBounded_whole:
  assumes "readBounded (Some body) m = Inr data" "m < MaxInt64"
  shows "data = body_bytes body \<and> len data \<le> m \<and> \<not> body_fails body"
proof -
  from assms have fails: "\<not> (body_fails body \<and> len (body_bytes body) < m + 1)" and data: "data = take (nat (m + 1)) (body_bytes body)"
    and m: "len data \<le> m" by (auto simp: readBounded_def Let_def split: if_splits)
  from m data have "length (body_bytes body) \<le> nat (m + 1)" by (cases "length (body_bytes body) \<le> nat (m + 1)") (auto split: if_splits)
  with data have "data = body_bytes body" by simp
  with m fails show ?thesis by auto
qed

lemma check_ignored_store:
  assumes "check_ignored flds = Inr u" "map_of flds ''store'' = Some raw"
  shows "boolValue raw ''store'' \<noteq> Inr True"
proof
  assume "boolValue raw ''store'' = Inr True"
  then have "check_ignored flds = unsupportedField ''store''"
    by (simp add: check_ignored_def optional_field_def assms(2) codex_errors)
  with assms(1) show False by simp
qed

lemma requiredString_value: "requiredString raw p = Inr v \<Longrightarrow> stringValue raw p = Inr v"
  by (auto simp: requiredString_def attempt_Inr_iff split: if_splits)

lemma required_field_read:
  assumes "list_all2 reads_member flds ms" "map_of flds k = Some raw" "requiredString raw p = Inr v"
  shows "map_of ms k = Some (JStr v)"
proof -
  from assms(2) reads_map_of [OF assms(1), of k] obtain x where x: "map_of ms k = Some x" "parse_json raw = Some x" by auto
  from requiredString_value [OF assms(3)] x(2) have "x = JStr v \<or> x = JNull \<and> v = []"
    by (auto simp: stringValue_def unmarshal_string_def split: json.splits)
  moreover have "v \<noteq> []" using requiredString_nonblank [OF assms(3)] by auto
  ultimately show ?thesis using x(1) by simp
qed

lemma sample_int64: "dl_MaxBodyBytes sample_limits < MaxInt64" "dl_MaxJSONDepth sample_limits \<le> 10000"
  by (simp_all add: sample_limits_def MaxInt64_def)

section \<open>Properties\<close>

text \<open>
  C14: the structural pass accepts exactly the documents that are one JSON value within the limits: every object names
  each of its keys once, no object or array has more members than allowed, no number is out of the range of a float,
  and nesting and tokens stay within the limits. The token machine with its stack of frames therefore decides the same
  question as the recursive parser, and a failure is never spurious.
\<close>

theorem structural_pass_iff:
  assumes "jl_depth lim \<le> 10000"
  shows "validateJSONDocument data lim = None \<longleftrightarrow>
    0 < jl_depth lim \<and> 0 < jl_tokens lim \<and> 0 < jl_items lim
    \<and> (\<exists>v. parse_json data = Some v \<and> structured (jl_items lim) (jl_depth lim) v \<and> json_tokens v \<le> jl_tokens lim)"
  using validateJSONDocument_sound [OF _ assms, of data] validateJSONDocument_complete [of data _ lim]
  by (auto simp: validateJSONDocument_def)

theorem structural_pass_iff_witness:
  "validateJSONDocument (quoted ''{^a^:[true,null],^b^:{}}'') (json_limits_of sample_limits) = None
   \<and> validateJSONDocument (quoted ''{^a^:[true,null],^a^:{}}'') (json_limits_of sample_limits) \<noteq> None"
proof -
  have depth: "jl_depth (json_limits_of sample_limits) \<le> 10000" by code_simp
  have "validateJSONDocument (quoted ''{^a^:[true,null],^b^:{}}'') (json_limits_of sample_limits) = None"
    unfolding structural_pass_iff [OF depth]
  proof (intro conjI exI)
    show "parse_json (quoted ''{^a^:[true,null],^b^:{}}'') = Some (JObj [(''a'', JArr [JBool True, JNull]), (''b'', JObj [])])" by code_simp
  qed (simp_all add: json_limits_of_def sample_limits_def)
  moreover have "parse_json (quoted ''{^a^:[true,null],^a^:{}}'') = Some (JObj [(''a'', JArr [JBool True, JNull]), (''a'', JObj [])])"
    by code_simp
  ultimately show ?thesis by (simp add: structural_pass_iff [OF depth])
qed

text \<open>
  C13: every request the decoder returns is well formed: it streams, names a model, its messages have a known role, its
  tool calls have identifiers that differ, its tools have names that differ and schemas that passed the schema check, a
  chosen function is one of its function tools, and its counts are within the decoder's limits. The decoder is any that
  \<open>NewDecoderWithLimits\<close> returns.
\<close>

theorem Decode_wellformed:
  assumes "NewDecoderWithLimits configured = Some limits" "Decode (Some limits) body mediaType = Inr rq"
  shows "request_ok limits rq"
proof -
  from Decode_Inr [OF assms(2)] obtain data flds wire where "decodeRequestWire flds limits = Inr wire" "translateRequest wire = Inr rq" by blast
  with translate_ok decodeRequestWire_ok NewDecoderWithLimits_positive [OF assms(1)] show ?thesis by blast
qed

theorem Decode_wellformed_witness: "request_ok sample_limits sample_request"
  by (rule Decode_wellformed [OF sample_decoder sample_decoded])

text \<open>
  what the decoder retains is bounded: the body it read fits the body limit, and the schemas of all function tools
  together with the schema of the text format fit the one schema budget they share.
\<close>

theorem Decode_budgets:
  assumes "NewDecoderWithLimits configured = Some limits" "Decode (Some limits) (Some body) mediaType = Inr rq"
    "dl_MaxBodyBytes limits < MaxInt64"
  shows "len (body_bytes body) \<le> dl_MaxBodyBytes limits \<and> \<not> body_fails body \<and>
    sum_list (map (\<lambda>tool. len (tool_schema tool)) (rq_Tools rq)) + len (fmt_Schema (gen_Format (rq_Generation rq))) \<le> dl_MaxSchemaBytes limits"
proof -
  from Decode_Inr [OF assms(2)] obtain data flds wire where d: "readBounded (Some body) (dl_MaxBodyBytes limits) = Inr data"
    "decodeRequestWire flds limits = Inr wire" "translateRequest wire = Inr rq" by blast
  with translate_ok decodeRequestWire_ok NewDecoderWithLimits_positive [OF assms(1)] readBounded_whole [OF d(1) assms(3)]
  show ?thesis by blast
qed

theorem Decode_budgets_witness:
  "len (body_bytes sample_body) \<le> dl_MaxBodyBytes sample_limits \<and> \<not> body_fails sample_body \<and>
    sum_list (map (\<lambda>tool. len (tool_schema tool)) (rq_Tools sample_request)) + len (fmt_Schema (gen_Format (rq_Generation sample_request)))
      \<le> dl_MaxSchemaBytes sample_limits"
  by (rule Decode_budgets [OF sample_decoder sample_decoded sample_int64(1)])

text \<open>
  C21: the decoder reads the document it was sent. The body is one JSON object whose keys differ and are all classified
  fields, none of them deferred; the model is the string of its member \<open>model\<close>; the instructions and the previous
  response are those of their members; \<open>stream\<close> is \<open>true\<close>; and \<open>store\<close> is not \<open>true\<close>.
\<close>

theorem Decode_reads_document:
  assumes "Decode (Some limits) (Some body) mediaType = Inr rq" "dl_MaxBodyBytes limits < MaxInt64"
    "dl_MaxJSONDepth limits \<le> 10000"
  shows "\<exists>ms. parse_json (body_bytes body) = Some (JObj ms) \<and> distinct (map fst ms)
    \<and> (\<forall>k \<in> set (map fst ms). map_of topLevelPolicy k \<in> {Some policyTranslate, Some policyNoOp})
    \<and> map_of ms ''model'' = Some (JStr (rq_Model rq)) \<and> map_of ms ''stream'' = Some (JBool True)
    \<and> string_field (map_of ms ''instructions'') = Some (rq_Instructions rq)
    \<and> string_field (map_of ms ''previous_response_id'') = Some (rq_PreviousResponseID rq)
    \<and> map_of ms ''store'' \<noteq> Some (JBool True)"
proof -
  from Decode_Inr [OF assms(1)] obtain data flds wire where d: "readBounded (Some body) (dl_MaxBodyBytes limits) = Inr data"
    "decodeJSONObject data limits = Inr flds" "decodeRequestWire flds limits = Inr wire" "translateRequest wire = Inr rq" by blast
  from readBounded_whole [OF d(1) assms(2)] decodeJSONObject_reads [OF d(2) assms(3)]
  obtain ms where ms: "parse_json (body_bytes body) = Some (JObj ms)" "structured (dl_MaxCollectionItems limits) (dl_MaxJSONDepth limits) (JObj ms)"
    "list_all2 reads_member flds ms" by auto
  note read = reads_map_of [OF ms(3)] and keys = reads_keys [OF ms(3)]
  from d(3) show ?thesis
  proof (rule decodeRequestWire_Inr, goal_cases)
    case (1 model instructions previous input tools choice parallel effort format stream included)
    note t = translateRequest_Inr [OF d(4), unfolded 1(15)]
    have "map_of ms ''model'' = Some (JStr model)"
      using 1(2) required_field_read [OF ms(3)] by (auto split: option.splits)
    moreover have "map_of ms ''stream'' = Some (JBool True)"
      using 1(11) bool_field_read [OF ms(3), of "''stream''"]
      by (auto simp: decode_stream_def attempt_Inr_iff split: option.splits if_splits)
    moreover have "map_of ms ''store'' \<noteq> Some (JBool True)"
    proof
      assume s: "map_of ms ''store'' = Some (JBool True)"
      with read [of "''store''"] obtain raw where "map_of flds ''store'' = Some raw" "parse_json raw = Some (JBool True)"
        by (auto split: option.splits)
      with check_ignored_store [OF 1(13)] show False by (simp add: boolValue_def unmarshal_bool_def)
    qed
    moreover have "string_field (map_of ms ''previous_response_id'') = Some previous"
      using 1(4) by (intro string_field_read [OF ms(3), of _ "''previous_response_id''"])
        (auto simp: optional_field_def dest: requiredString_value split: option.splits)
    moreover have "\<forall>k \<in> set (map fst ms). map_of topLevelPolicy k \<in> {Some policyTranslate, Some policyNoOp}"
      using check_policy_fields [OF 1(1)] keys by (auto simp: sortedKeys_def)
    ultimately show ?case
      using ms(1,2) string_field_read [OF ms(3) 1(3)] t(1-3) by auto
  qed
qed

theorem Decode_reads_document_witness:
  "\<exists>ms. parse_json (body_bytes sample_body) = Some (JObj ms) \<and> distinct (map fst ms)
    \<and> (\<forall>k \<in> set (map fst ms). map_of topLevelPolicy k \<in> {Some policyTranslate, Some policyNoOp})
    \<and> map_of ms ''model'' = Some (JStr (rq_Model sample_request)) \<and> map_of ms ''stream'' = Some (JBool True)
    \<and> string_field (map_of ms ''instructions'') = Some (rq_Instructions sample_request)
    \<and> string_field (map_of ms ''previous_response_id'') = Some (rq_PreviousResponseID sample_request)
    \<and> map_of ms ''store'' \<noteq> Some (JBool True)"
  by (rule Decode_reads_document [OF sample_decoded sample_int64])

end
