(* ===== verification/Server_Errors.thy ===== *)
theory Server_Errors
  imports Stream_Session Codex_Request Map_Request
begin

text \<open>
  \<open>internal/server/errors.go\<close>, \<open>upstream.go\<close>, the reply helpers of \<open>server.go\<close> and the error replies of
  \<open>responses.go\<close>, with the errors of \<open>internal/opencodego/errors.go\<close>: the response writer of one request,
  and how each failure becomes a status, a code and a type.

  An error that leaves a package is represented by what the server asks of it: the package's own error it
  wraps, if any, and whether its chain of causes holds a deadline, a cancellation or a network timeout.
\<close>

section \<open>Provider errors\<close>

fun code_text :: "ErrorCode \<Rightarrow> gostring" where
  "code_text ErrorInvalidConfiguration = ''invalid_configuration''"
| "code_text ErrorInvalidRequest = ''invalid_request''"
| "code_text ErrorRequestTooLarge = ''request_too_large''"
| "code_text ErrorUnsupportedTool = ''unsupported_tool''"
| "code_text ErrorUnsupportedToolChoice = ''unsupported_tool_choice''"
| "code_text ErrorUnsupportedResponseFormat = ''unsupported_response_format''"
| "code_text ErrorNetwork = ''network_error''"
| "code_text ErrorCanceled = ''canceled''"
| "code_text ErrorTimeout = ''timeout''"
| "code_text ErrorBadRequest = ''upstream_bad_request''"
| "code_text ErrorUnauthorized = ''upstream_unauthorized''"
| "code_text ErrorForbidden = ''upstream_forbidden''"
| "code_text ErrorRateLimited = ''upstream_rate_limited''"
| "code_text ErrorServer = ''upstream_server_error''"
| "code_text ErrorUnexpectedStatus = ''upstream_unexpected_status''"
| "code_text ErrorUnsupportedContentType = ''unsupported_content_type''"
| "code_text ErrorMalformedResponse = ''malformed_response''"

text \<open>
  What the chain of causes of an error answers: \<open>errors.Is\<close> for the two errors of a context, and whether
  the first \<open>net.Error\<close> of the chain is a timeout.
\<close>

record cause =
  is_deadline :: bool
  is_canceled :: bool
  is_network_timeout :: bool

definition no_cause :: cause where
  "no_cause = \<lparr>is_deadline = False, is_canceled = False, is_network_timeout = False\<rparr>"

definition isNetworkTimeout :: "cause \<Rightarrow> bool" where "isNetworkTimeout c \<longleftrightarrow> is_network_timeout c"

record ProviderError =
  pe_Code :: ErrorCode
  pe_StatusCode :: int
  pe_RetryAfter :: gostring
  pe_ContentType :: gostring
  pe_cause :: cause

definition providerError :: "ErrorCode \<Rightarrow> cause \<Rightarrow> ProviderError" where
  "providerError code c = \<lparr>pe_Code = code, pe_StatusCode = 0, pe_RetryAfter = [], pe_ContentType = [], pe_cause = c\<rparr>"

definition ProviderError_Error :: "ProviderError \<Rightarrow> gostring" where
  "ProviderError_Error err =
     (if pe_StatusCode err \<noteq> 0
      then ''opencode provider error: '' @ code_text (pe_Code err) @ '' (status '' @ itoa (pe_StatusCode err) @ '')''
      else ''opencode provider error: '' @ code_text (pe_Code err))"

datatype provider_failure = ProviderFailure ProviderError | ForeignFailure cause

fun failure_cause :: "provider_failure \<Rightarrow> cause" where
  "failure_cause (ProviderFailure err) = pe_cause err"
| "failure_cause (ForeignFailure c) = c"

section \<open>Upstream errors (upstream.go)\<close>

definition upstreamErrorBadGateway :: gostring where "upstreamErrorBadGateway = ''upstream_error''"
definition upstreamErrorBadRequest :: gostring where "upstreamErrorBadRequest = ''upstream_bad_request''"
definition upstreamErrorUnauthorized :: gostring where "upstreamErrorUnauthorized = ''upstream_unauthorized''"
definition upstreamErrorForbidden :: gostring where "upstreamErrorForbidden = ''upstream_forbidden''"
definition upstreamErrorRateLimited :: gostring where "upstreamErrorRateLimited = ''upstream_rate_limited''"
definition upstreamErrorServer :: gostring where "upstreamErrorServer = ''upstream_server_error''"
definition upstreamErrorUnexpected :: gostring where "upstreamErrorUnexpected = ''upstream_unexpected_status''"
definition upstreamErrorContentType :: gostring where "upstreamErrorContentType = ''upstream_unsupported_content_type''"
definition upstreamErrorMalformed :: gostring where "upstreamErrorMalformed = ''upstream_malformed_response''"
definition upstreamErrorCanceled :: gostring where "upstreamErrorCanceled = ''upstream_canceled''"
definition upstreamErrorTimeout :: gostring where "upstreamErrorTimeout = ''upstream_timeout''"
definition upstreamErrorNotConfigured :: gostring where "upstreamErrorNotConfigured = ''upstream_not_configured''"
definition upstreamErrorNetwork :: gostring where "upstreamErrorNetwork = ''upstream_network_error''"
definition upstreamErrorInvalidRequest :: gostring where "upstreamErrorInvalidRequest = ''upstream_invalid_request''"
definition upstreamErrorTooLarge :: gostring where "upstreamErrorTooLarge = ''upstream_request_too_large''"
definition upstreamErrorUnsupportedTool :: gostring where "upstreamErrorUnsupportedTool = ''upstream_unsupported_tool''"

lemmas upstream_codes [simp] = upstreamErrorBadGateway_def upstreamErrorBadRequest_def upstreamErrorUnauthorized_def
  upstreamErrorForbidden_def upstreamErrorRateLimited_def upstreamErrorServer_def upstreamErrorUnexpected_def
  upstreamErrorContentType_def upstreamErrorMalformed_def upstreamErrorCanceled_def upstreamErrorTimeout_def
  upstreamErrorNotConfigured_def upstreamErrorNetwork_def upstreamErrorInvalidRequest_def upstreamErrorTooLarge_def
  upstreamErrorUnsupportedTool_def

record UpstreamError =
  ue_Code :: gostring
  ue_StatusCode :: int
  ue_RetryAfter :: gostring

definition upstream_error :: "gostring \<Rightarrow> UpstreamError" where
  "upstream_error code = \<lparr>ue_Code = code, ue_StatusCode = 0, ue_RetryAfter = []\<rparr>"

datatype upstream_failure = UpstreamFailure UpstreamError | PlainFailure cause

text \<open>The switch over the provider's codes; a code it does not name keeps \<open>upstreamErrorBadGateway\<close>.\<close>

fun upstream_code_of :: "ErrorCode \<Rightarrow> gostring" where
  "upstream_code_of ErrorInvalidRequest = upstreamErrorInvalidRequest"
| "upstream_code_of ErrorRequestTooLarge = upstreamErrorTooLarge"
| "upstream_code_of ErrorUnsupportedTool = upstreamErrorUnsupportedTool"
| "upstream_code_of ErrorUnsupportedToolChoice = upstreamErrorUnsupportedTool"
| "upstream_code_of ErrorCanceled = upstreamErrorCanceled"
| "upstream_code_of ErrorTimeout = upstreamErrorTimeout"
| "upstream_code_of ErrorBadRequest = upstreamErrorBadRequest"
| "upstream_code_of ErrorUnauthorized = upstreamErrorUnauthorized"
| "upstream_code_of ErrorForbidden = upstreamErrorForbidden"
| "upstream_code_of ErrorRateLimited = upstreamErrorRateLimited"
| "upstream_code_of ErrorServer = upstreamErrorServer"
| "upstream_code_of ErrorUnexpectedStatus = upstreamErrorUnexpected"
| "upstream_code_of ErrorUnsupportedContentType = upstreamErrorContentType"
| "upstream_code_of ErrorMalformedResponse = upstreamErrorMalformed"
| "upstream_code_of ErrorNetwork = upstreamErrorNetwork"
| "upstream_code_of _ = upstreamErrorBadGateway"

definition normalizeProviderError :: "provider_failure \<Rightarrow> UpstreamError" where
  "normalizeProviderError err =
     (if is_deadline (failure_cause err) then upstream_error upstreamErrorTimeout
      else if is_canceled (failure_cause err) then upstream_error upstreamErrorCanceled
      else if isNetworkTimeout (failure_cause err) then upstream_error upstreamErrorTimeout
      else case err of
          ForeignFailure _ \<Rightarrow> upstream_error upstreamErrorNetwork
        | ProviderFailure p \<Rightarrow>
            \<lparr>ue_Code = upstream_code_of (pe_Code p), ue_StatusCode = pe_StatusCode p, ue_RetryAfter = pe_RetryAfter p\<rparr>)"

text \<open>A response: its status, the two headers that are read, and its body. The media type is the answer of
  \<open>mime.ParseMediaType\<close> for the content type, none for its error.\<close>

record 'p UpstreamResponse =
  ur_StatusCode :: int
  ur_RetryAfter :: gostring
  ur_MediaType :: "gostring option"
  ur_Body :: "'p option"

type_synonym 'p UpstreamClient = "continuation_value Request \<Rightarrow> upstream_failure + 'p UpstreamResponse option"

definition notConfiguredUpstream :: "'p UpstreamClient" where
  "notConfiguredUpstream = (\<lambda>_. Inl (UpstreamFailure (upstream_error upstreamErrorNotConfigured)))"

text \<open>\<open>NewOpenCodeUpstreamClient\<close>: the provider client behind the server's interface; none is a nil client.\<close>

definition openCodeUpstreamClient ::
  "(continuation_value Request \<Rightarrow> provider_failure + 'p UpstreamResponse option) option \<Rightarrow> 'p UpstreamClient" where
  "openCodeUpstreamClient client request =
     (case client of
        None \<Rightarrow> Inl (UpstreamFailure (upstream_error upstreamErrorNotConfigured))
      | Some doer \<Rightarrow>
          (case doer request of
             Inl err \<Rightarrow> Inl (UpstreamFailure (normalizeProviderError err))
           | Inr None \<Rightarrow> Inl (UpstreamFailure (upstream_error upstreamErrorBadGateway))
           | Inr (Some response) \<Rightarrow> Inr (Some response)))"

section \<open>The taxonomy (errors.go)\<close>

definition gatewayPermissionCode :: gostring where "gatewayPermissionCode = ''permission_error''"
definition gatewayActiveLimitCode :: gostring where "gatewayActiveLimitCode = ''active_request_limit''"
definition gatewayShutdownCode :: gostring where "gatewayShutdownCode = ''server_shutting_down''"

definition error_types :: "(gostring \<times> gostring list) list" where
  "error_types =
     [(''invalid_request'',
        [''invalid_request'', ''malformed_json'', ''continuation_invalid'', ''continuation_busy'', ''continuation_consumed'',
         ''continuation_incomplete'', ''continuation_kind_mismatch'', ''continuation_mixed'', ''continuation_duplicate'',
         ''method_not_allowed'', ''not_found'']),
      (''request_too_large'', [''request_too_large'', ''stream_limit_exceeded'']),
      (''unsupported_feature'',
        [''feature_not_implemented'', ''unsupported_field'', ''unsupported_item_type'', ''unsupported_tool_type'', ''unsupported_feature'']),
      (''authentication_error'', [''upstream_unauthorized'', ''authentication_error'']),
      (''permission_error'', [''upstream_forbidden'', gatewayPermissionCode]),
      (''rate_limit_error'', [''upstream_rate_limited'', gatewayActiveLimitCode, ''rate_limit_error'']),
      (''provider_bad_request'',
        [''upstream_bad_request'', ''upstream_invalid_request'', ''upstream_request_too_large'', ''upstream_unsupported_tool'',
         ''provider_bad_request'']),
      (''provider_unavailable'',
        [''upstream_server_error'', ''upstream_network_error'', ''upstream_not_configured'', ''provider_unavailable'', gatewayShutdownCode]),
      (''provider_protocol_error'',
        [''upstream_error'', ''upstream_unexpected_status'', ''upstream_unsupported_content_type'', ''upstream_malformed_response'',
         ''upstream_stream_error'', ''upstream_eof'', ''upstream_terminal_error'', ''upstream_tool_not_declared'',
         ''upstream_custom_tool_invalid'', ''provider_protocol_error'']),
      (''timeout'', [''upstream_timeout'', ''timeout'']),
      (''canceled'', [''upstream_canceled'', ''canceled'']),
      (''pending_tool_state_not_found'', [''continuation_unknown'', ''pending_tool_state_not_found'']),
      (''pending_tool_state_expired'', [''continuation_expired'', ''pending_tool_state_expired'']),
      (''stream_interrupted'', [''stream_interrupted'']),
      (''internal_error'',
        [''server_configuration_error'', ''stream_configuration_error'', ''continuation_capacity'', ''continuation_closed'', ''internal_error''])]"

text \<open>The switch: the first case that lists the code, and \<open>internal_error\<close> otherwise.\<close>

definition gatewayErrorType :: "gostring \<Rightarrow> gostring" where
  "gatewayErrorType code =
     (case List.find (\<lambda>c. code \<in> set (snd c)) error_types of Some c \<Rightarrow> fst c | None \<Rightarrow> ''internal_error'')"

section \<open>The response writer of a request (server.go)\<close>

text \<open>
  \<open>statusWriter\<close>. Its context is the request's; \<open>sw_context i\<close> is what the \<open>i\<close>-th look at the context's
  error returns, \<open>sw_take i\<close> what the connection takes of a write (none for all of it). \<open>sw_body\<close> is what was
  written outside of an event stream.
\<close>

record statusWriter =
  sw_ResponseWriter :: ResponseWriter
  sw_body :: gobytes
  sw_context :: "nat \<Rightarrow> ctx_error option"
  sw_take :: "nat \<Rightarrow> nat option"
  sw_tick :: nat
  sw_allowCanceledWrite :: bool
  sw_status :: int
  sw_errorCode :: gostring
  sw_responseID :: gostring
  sw_responseModel :: gostring
  sw_responseTerminal :: gostring
  sw_bytesWritten :: int

definition context_Err :: "statusWriter \<Rightarrow> ctx_error option \<times> statusWriter" where
  "context_Err w = (sw_context w (sw_tick w), w\<lparr>sw_tick := sw_tick w + 1\<rparr>)"

definition writeAllowed :: "statusWriter \<Rightarrow> bool \<times> statusWriter" where
  "writeAllowed w =
     (if sw_allowCanceledWrite w then (True, w)
      else let (err, w) = context_Err w in (err = None, w))"

definition set_header :: "gostring \<Rightarrow> gostring \<Rightarrow> statusWriter \<Rightarrow> statusWriter" where
  "set_header k v w =
     w\<lparr>sw_ResponseWriter := (sw_ResponseWriter w)\<lparr>rw_Header := map_put k v (rw_Header (sw_ResponseWriter w))\<rparr>\<rparr>"

definition WriteHeader :: "int \<Rightarrow> statusWriter \<Rightarrow> statusWriter" where
  "WriteHeader status w =
     (if sw_status w \<noteq> 0 then w
      else let (allowed, w) = writeAllowed w in
        if \<not> allowed then w
        else w\<lparr>sw_status := status,
               sw_ResponseWriter := (sw_ResponseWriter w)\<lparr>rw_status := rw_status (sw_ResponseWriter w) @ [status]\<rparr>\<rparr>)"

definition sw_Write :: "gobytes \<Rightarrow> statusWriter \<Rightarrow> statusWriter" where
  "sw_Write payload w =
     (let (allowed, w) = writeAllowed w in
      if \<not> allowed then snd (context_Err w)
      else
        let w = (if sw_status w = 0 then WriteHeader 200 w else w);
            n = (case sw_take w (sw_tick w) of None \<Rightarrow> length payload | Some k \<Rightarrow> min k (length payload))
        in w\<lparr>sw_tick := sw_tick w + 1, sw_body := sw_body w @ take n payload, sw_bytesWritten := sw_bytesWritten w + int n\<rparr>)"

text \<open>\<open>json.NewEncoder(w).Encode\<close> writes the object, keys sorted, and a newline in one call.\<close>

definition writeJSON :: "int \<Rightarrow> json \<Rightarrow> statusWriter \<Rightarrow> statusWriter" where
  "writeJSON status payload w =
     sw_Write (marshal_json payload @ [CHR 0x0A]) (WriteHeader status (set_header ''Content-Type'' ''application/json'' w))"

definition error_payload :: "gostring \<Rightarrow> gostring \<Rightarrow> gostring \<Rightarrow> json" where
  "error_payload code param message =
     JObj [(''error'', JObj [(''code'', JStr code), (''message'', JStr message), (''param'', JStr param),
                             (''type'', JStr (gatewayErrorType code))])]"

definition writeJSONErrorWithParam :: "int \<Rightarrow> gostring \<Rightarrow> gostring \<Rightarrow> gostring \<Rightarrow> statusWriter \<Rightarrow> statusWriter" where
  "writeJSONErrorWithParam status code param message w = writeJSON status (error_payload code param message) (w\<lparr>sw_errorCode := code\<rparr>)"

definition writeJSONError :: "int \<Rightarrow> gostring \<Rightarrow> gostring \<Rightarrow> statusWriter \<Rightarrow> statusWriter" where
  "writeJSONError status code message = writeJSONErrorWithParam status code [] message"

section \<open>Error replies (responses.go)\<close>

definition featureNotImplementedCode :: gostring where "featureNotImplementedCode = ''feature_not_implemented''"
definition featureNotImplementedText :: gostring where
  "featureNotImplementedText = ''This Responses feature is not implemented in the current milestone.''"
definition requestInvalidText :: gostring where "requestInvalidText = ''The request could not be processed.''"
definition requestUnsupportedText :: gostring where "requestUnsupportedText = ''The request uses an unsupported feature.''"
definition requestTooLargeText :: gostring where "requestTooLargeText = ''The request body exceeds the configured limit.''"
definition upstreamFailureText :: gostring where "upstreamFailureText = ''The upstream provider request failed.''"
definition upstreamContentTypeText :: gostring where
  "upstreamContentTypeText = ''The upstream provider returned an unsupported content type.''"
definition upstreamNotConfiguredText :: gostring where "upstreamNotConfiguredText = ''The upstream provider is not configured.''"
definition requestToolCollisionText :: gostring where
  "requestToolCollisionText = ''The request contains a reserved or conflicting tool name.''"

fun codex_code_text :: "codex_ErrorCode \<Rightarrow> gostring" where
  "codex_code_text CodexInvalidRequest = ''invalid_request''"
| "codex_code_text CodexMalformedJSON = ''malformed_json''"
| "codex_code_text CodexRequestTooLarge = ''request_too_large''"
| "codex_code_text CodexUnsupportedField = ''unsupported_field''"
| "codex_code_text CodexUnsupportedItemType = ''unsupported_item_type''"
| "codex_code_text CodexUnsupportedToolType = ''unsupported_tool_type''"

text \<open>Status, code, parameter and message of a reply are computed first; writing them is one operation.\<close>

record reply =
  re_status :: int
  re_code :: gostring
  re_param :: gostring
  re_message :: gostring

definition write_reply :: "reply \<Rightarrow> statusWriter \<Rightarrow> statusWriter" where
  "write_reply r = writeJSONErrorWithParam (re_status r) (re_code r) (re_param r) (re_message r)"

fun continuation_reply :: "continuation_error \<Rightarrow> gostring \<times> int" where
  "continuation_reply ErrContinuationUnknown = (''continuation_unknown'', 400)"
| "continuation_reply ErrContinuationExpired = (''continuation_expired'', 400)"
| "continuation_reply ErrContinuationBusy = (''continuation_busy'', 409)"
| "continuation_reply ErrContinuationConsumed = (''continuation_consumed'', 400)"
| "continuation_reply ErrContinuationIncomplete = (''continuation_incomplete'', 400)"
| "continuation_reply ErrContinuationKindMismatch = (''continuation_kind_mismatch'', 400)"
| "continuation_reply ErrContinuationMixed = (''continuation_mixed'', 400)"
| "continuation_reply ErrContinuationDuplicate = (''continuation_duplicate'', 400)"
| "continuation_reply ErrContinuationCapacity = (''continuation_capacity'', 503)"
| "continuation_reply ErrContinuationClosed = (''continuation_closed'', 503)"
| "continuation_reply _ = (''continuation_invalid'', 400)"

definition writeContinuationError :: "continuation_error \<Rightarrow> statusWriter \<Rightarrow> statusWriter" where
  "writeContinuationError err w =
     (let (code, status) = continuation_reply err in writeJSONError status code requestInvalidText w)"

definition request_decode_reply :: "codex_error \<Rightarrow> reply" where
  "request_decode_reply err =
     (case err of
        InternalError \<Rightarrow> \<lparr>re_status = 400, re_code = ''invalid_request'', re_param = ''body'', re_message = requestInvalidText\<rparr>
      | CodexError code param \<Rightarrow>
          let (status, message) =
            (case code of
               CodexRequestTooLarge \<Rightarrow> (413, requestTooLargeText)
             | CodexUnsupportedField \<Rightarrow> (501, requestUnsupportedText)
             | CodexUnsupportedItemType \<Rightarrow> (501, requestUnsupportedText)
             | CodexUnsupportedToolType \<Rightarrow> (501, requestUnsupportedText)
             | _ \<Rightarrow> (400, requestInvalidText))
          in \<lparr>re_status = status, re_code = codex_code_text code, re_param = param, re_message = message\<rparr>)"

definition writeRequestDecodeError :: "codex_error \<Rightarrow> statusWriter \<Rightarrow> statusWriter" where
  "writeRequestDecodeError err = write_reply (request_decode_reply err)"

subsection \<open>Upstream failures\<close>

definition upstreamCodeForStatus :: "int \<Rightarrow> gostring" where
  "upstreamCodeForStatus status =
     (if status = 400 then upstreamErrorBadRequest
      else if status = 401 then upstreamErrorUnauthorized
      else if status = 403 then upstreamErrorForbidden
      else if status = 429 then upstreamErrorRateLimited
      else if status = 408 \<or> status = 504 then upstreamErrorTimeout
      else if status = 500 \<or> status = 502 \<or> status = 503 then upstreamErrorServer
      else upstreamErrorUnexpected)"

definition safe_codes :: "gostring list" where
  "safe_codes =
     [upstreamErrorBadGateway, upstreamErrorBadRequest, upstreamErrorUnauthorized, upstreamErrorForbidden,
      upstreamErrorRateLimited, upstreamErrorServer, upstreamErrorUnexpected, upstreamErrorContentType,
      upstreamErrorMalformed, upstreamErrorCanceled, upstreamErrorTimeout, upstreamErrorNotConfigured, upstreamErrorNetwork,
      upstreamErrorInvalidRequest, upstreamErrorTooLarge, upstreamErrorUnsupportedTool]"

definition safeUpstreamCode :: "gostring \<Rightarrow> gostring" where
  "safeUpstreamCode code = (if code \<in> set safe_codes then code else upstreamErrorBadGateway)"

definition allDecimalDigits :: "gostring \<Rightarrow> bool" where
  "allDecimalDigits value = (value \<noteq> [] \<and> list_all (\<lambda>c. 48 \<le> byte c \<and> byte c \<le> 57) value)"

text \<open>
  \<open>http_date\<close> is the calendar of \<open>net/http\<close>: the answer of \<open>http.ParseTime\<close>, formatted in UTC with
  \<open>http.TimeFormat\<close>, or none for its error.
\<close>

definition safeRetryAfterHeader :: "(gostring \<Rightarrow> gostring option) \<Rightarrow> gostring \<Rightarrow> gostring" where
  "safeRetryAfterHeader http_date value =
     (let value = TrimSpace value in
      if value = [] \<or> len value > 128 then []
      else if allDecimalDigits value then value
      else case http_date value of None \<Rightarrow> [] | Some formatted \<Rightarrow> formatted)"

text \<open>Code, status and the header's raw value, by the error that came back.\<close>

definition upstream_status :: "upstream_failure \<Rightarrow> gostring \<times> int \<times> gostring" where
  "upstream_status err =
     (case err of
        UpstreamFailure u \<Rightarrow>
          let code = safeUpstreamCode (ue_Code u);
              status = 502;
              status = (if code = upstreamErrorRateLimited then 429 else status);
              status = (if code = upstreamErrorTimeout then 504 else status);
              status = (if code = upstreamErrorBadRequest \<or> code = upstreamErrorInvalidRequest \<or> code = upstreamErrorTooLarge
                          \<or> code = upstreamErrorUnsupportedTool then 400 else status);
              status = (if code = upstreamErrorNotConfigured then 500 else status)
          in (code, status, ue_RetryAfter u)
      | PlainFailure c \<Rightarrow>
          if is_deadline c then (upstreamErrorTimeout, 504, [])
          else if is_canceled c then (upstreamErrorCanceled, 502, [])
          else if isNetworkTimeout c then (upstreamErrorTimeout, 504, [])
          else (upstreamErrorNetwork, 502, []))"

definition upstream_message :: "gostring \<Rightarrow> gostring" where
  "upstream_message code =
     (if code = upstreamErrorCanceled then ''The upstream request was canceled.''
      else if code = upstreamErrorTimeout then ''The upstream provider did not respond within the configured phase timeout.''
      else if code = upstreamErrorNotConfigured then upstreamNotConfiguredText
      else if code = upstreamErrorContentType then upstreamContentTypeText
      else upstreamFailureText)"

definition writeUpstreamError :: "(gostring \<Rightarrow> gostring option) \<Rightarrow> upstream_failure \<Rightarrow> statusWriter \<Rightarrow> statusWriter" where
  "writeUpstreamError http_date err w =
     (let (code, status, retryAfter) = upstream_status err;
          w = (if code = upstreamErrorRateLimited
               then let retryAfter = safeRetryAfterHeader http_date retryAfter
                    in if retryAfter \<noteq> [] then set_header ''Retry-After'' retryAfter w else w
               else w)
      in writeJSONError status code (upstream_message code) w)"

definition DefaultAccept :: gostring where "DefaultAccept = ''text/event-stream''"

definition validateUpstreamResponse :: "(gostring \<Rightarrow> gostring option) \<Rightarrow> 'p UpstreamResponse option \<Rightarrow> UpstreamError option" where
  "validateUpstreamResponse http_date response =
     (case response of
        None \<Rightarrow> Some (upstream_error upstreamErrorBadGateway)
      | Some r \<Rightarrow>
          if ur_StatusCode r < 200 \<or> ur_StatusCode r \<ge> 300
          then Some \<lparr>ue_Code = upstreamCodeForStatus (ur_StatusCode r), ue_StatusCode = ur_StatusCode r,
                     ue_RetryAfter = safeRetryAfterHeader http_date (ur_RetryAfter r)\<rparr>
          else case ur_Body r of
              None \<Rightarrow> Some (upstream_error upstreamErrorMalformed)
            | Some _ \<Rightarrow>
                (case ur_MediaType r of
                   None \<Rightarrow> Some (upstream_error upstreamErrorContentType)
                 | Some mediaType \<Rightarrow>
                     if fold_ascii mediaType \<noteq> DefaultAccept then Some (upstream_error upstreamErrorContentType) else None))"

end
