(* ===== verification/Server_Lifecycle.thy ===== *)
theory Server_Lifecycle
  imports Server_Errors Continuation_Inv SSE
begin

text \<open>
  \<open>internal/server/server.go\<close>: the configuration of the server and its construction, the admission of
  requests against the active limit, and shutdown. The methods that hold \<open>activeRequestsMu\<close> are atomic
  operations on the server's state; requests and shutdown interleave as a step relation.
\<close>

section \<open>Configuration\<close>

definition second :: int where "second = 10 ^ 9"
definition defaultReadHeaderTimeout :: int where "defaultReadHeaderTimeout = 5 * second"
definition defaultRequestBodyReadTimeout :: int where "defaultRequestBodyReadTimeout = 30 * second"
definition defaultDownstreamWriteTimeout :: int where "defaultDownstreamWriteTimeout = 30 * second"
definition defaultIdleTimeout :: int where "defaultIdleTimeout = 60 * second"
definition defaultStreamIdleTimeout :: int where "defaultStreamIdleTimeout = 60 * second"
definition defaultMaxBodyBytes :: int where "defaultMaxBodyBytes = 16 * 2 ^ 20"
definition defaultMaxHeaderBytes :: int where "defaultMaxHeaderBytes = 64 * 2 ^ 10"
definition DefaultMaxActiveRequests :: int where "DefaultMaxActiveRequests = 64"
definition defaultMaxPendingRecords :: int where "defaultMaxPendingRecords = 128"
definition defaultMaxPendingAggregate :: int where "defaultMaxPendingAggregate = 128 * 2 ^ 20"

lemmas server_defaults = second_def defaultReadHeaderTimeout_def defaultRequestBodyReadTimeout_def
  defaultDownstreamWriteTimeout_def defaultIdleTimeout_def defaultStreamIdleTimeout_def defaultMaxBodyBytes_def
  defaultMaxHeaderBytes_def DefaultMaxActiveRequests_def defaultMaxPendingRecords_def defaultMaxPendingAggregate_def

record 'p Config =
  ListenAddr :: gostring
  AllowNonLoopback :: bool
  Model :: gostring
  ZenModel :: gostring
  cfg_Upstream :: "'p UpstreamClient option"
  cfg_ZenUpstream :: "'p UpstreamClient option"
  ReadHeaderTimeout :: int
  IdleTimeout :: int
  RequestBodyReadTimeout :: int
  StreamIdleTimeout :: int
  DownstreamWriteTimeout :: int
  MaxBodyBytes :: int
  MaxHeaderBytes :: int
  MaxInputItems :: int
  MaxCollectionItems :: int
  MaxTools :: int
  MaxSchemaBytes :: int
  MaxSSELineBytes :: int
  MaxSSEEventBytes :: int
  MaxSSEBufferedBytes :: int
  MaxSSEReadBufferBytes :: int
  MaxOutputBytes :: int
  MaxTextBytes :: int
  MaxReasoningBytes :: int
  cfg_MaxToolCallArgumentBytes :: int
  MaxPendingTurnBytes :: int
  MaxPendingRecords :: int
  MaxPendingAggregateBytes :: int
  MaxActiveRequests :: int
  cfg_ContinuationStore :: "ContinuationStore option"
  cfg_ContinuationStoreConfig :: ContinuationStoreConfig

text \<open>The last three assignments read the pending limits after their own defaults.\<close>

definition server_withDefaults :: "'p Config \<Rightarrow> 'p Config" where
  "server_withDefaults c =
     (let c = c\<lparr>ListenAddr := or_text (ListenAddr c) ''127.0.0.1:0'',
              Model := or_text (Model c) DefaultModel,
              ZenModel := or_text (ZenModel c) DeepSeekV4FlashFreeModel,
              ReadHeaderTimeout := or_default (ReadHeaderTimeout c) defaultReadHeaderTimeout,
              IdleTimeout := or_default (IdleTimeout c) defaultIdleTimeout,
              RequestBodyReadTimeout := or_default (RequestBodyReadTimeout c) defaultRequestBodyReadTimeout,
              StreamIdleTimeout := or_default (StreamIdleTimeout c) defaultStreamIdleTimeout,
              DownstreamWriteTimeout := or_default (DownstreamWriteTimeout c) defaultDownstreamWriteTimeout,
              MaxBodyBytes := or_default (MaxBodyBytes c) defaultMaxBodyBytes,
              MaxHeaderBytes := or_default (MaxHeaderBytes c) defaultMaxHeaderBytes,
              MaxInputItems := or_default (MaxInputItems c) DefaultMaxInputItems,
              MaxCollectionItems := or_default (MaxCollectionItems c) DefaultMaxCollectionItems,
              MaxTools := or_default (MaxTools c) DefaultMaxProviderTools,
              MaxSchemaBytes := or_default (MaxSchemaBytes c) DefaultMaxFunctionSchemaBytes,
              MaxSSELineBytes := or_default (MaxSSELineBytes c) DefaultSSEMaxLineBytes,
              MaxSSEEventBytes := or_default (MaxSSEEventBytes c) DefaultSSEMaxEventBytes,
              MaxSSEBufferedBytes := or_default (MaxSSEBufferedBytes c) DefaultSSEMaxBufferedBytes,
              MaxSSEReadBufferBytes := or_default (MaxSSEReadBufferBytes c) DefaultSSEReadBufferBytes,
              MaxOutputBytes := or_default (MaxOutputBytes c) DefaultMaxOutputBytes,
              MaxTextBytes := or_default (MaxTextBytes c) DefaultMaxTextBytes,
              MaxReasoningBytes := or_default (MaxReasoningBytes c) DefaultMaxReasoningBytes,
              cfg_MaxToolCallArgumentBytes := or_default (cfg_MaxToolCallArgumentBytes c) DefaultMaxToolCallArgumentBytes,
              MaxPendingTurnBytes := or_default (MaxPendingTurnBytes c) DefaultContinuationMaxRecordBytes,
              MaxPendingRecords := or_default (MaxPendingRecords c) defaultMaxPendingRecords,
              MaxPendingAggregateBytes := or_default (MaxPendingAggregateBytes c) defaultMaxPendingAggregate,
              MaxActiveRequests := or_default (MaxActiveRequests c) DefaultMaxActiveRequests\<rparr>;
          k = cfg_ContinuationStoreConfig c
      in c\<lparr>cfg_ContinuationStoreConfig := k\<lparr>cc_MaxBytesPerRecord := or_default (cc_MaxBytesPerRecord k) (MaxPendingTurnBytes c),
             cc_MaxRecords := or_default (cc_MaxRecords k) (MaxPendingRecords c),
             cc_MaxAggregateBytes := or_default (cc_MaxAggregateBytes k) (MaxPendingAggregateBytes c)\<rparr>\<rparr>)"

datatype server_error =
    InvalidListenAddress | NotLoopback | TimeoutsNotPositive | HTTPLimitsNotPositive | RequestLimitsNotPositive
  | TooManyTools | SchemaBytesTooLarge | StreamLimitsNotPositive | StoreNotConfigured continuation_error | ListenFailed

text \<open>What \<open>net.ResolveTCPAddr\<close> gives: an address with or without an IP, which is loopback or not.\<close>

record TCPAddr =
  ta_Loopback :: "bool option"

definition resolveListenAddress :: "(gostring \<Rightarrow> TCPAddr option) \<Rightarrow> gostring \<Rightarrow> bool \<Rightarrow> server_error + TCPAddr" where
  "resolveListenAddress resolve address allowNonLoopback =
     (case resolve address of
        None \<Rightarrow> Inl InvalidListenAddress
      | Some resolved \<Rightarrow>
          if \<not> allowNonLoopback \<and> ta_Loopback resolved \<noteq> Some True then Inl NotLoopback else Inr resolved)"

definition check_config :: "'p Config \<Rightarrow> server_error option" where
  "check_config c =
     (if ReadHeaderTimeout c \<le> 0 \<or> RequestBodyReadTimeout c \<le> 0 \<or> DownstreamWriteTimeout c \<le> 0 \<or> StreamIdleTimeout c \<le> 0
         \<or> IdleTimeout c \<le> 0 then Some TimeoutsNotPositive
      else if MaxBodyBytes c \<le> 0 \<or> MaxHeaderBytes c \<le> 0 then Some HTTPLimitsNotPositive
      else if MaxInputItems c \<le> 0 \<or> MaxCollectionItems c \<le> 0 \<or> MaxTools c \<le> 0 \<or> MaxSchemaBytes c \<le> 0
         \<or> MaxActiveRequests c \<le> 0 \<or> MaxPendingRecords c \<le> 0 then Some RequestLimitsNotPositive
      else if MaxTools c > DefaultMaxProviderTools then Some TooManyTools
      else if MaxSchemaBytes c > DefaultMaxFunctionSchemaBytes then Some SchemaBytesTooLarge
      else if MaxSSELineBytes c \<le> 0 \<or> MaxSSEEventBytes c \<le> 0 \<or> MaxSSEBufferedBytes c \<le> 0 \<or> MaxSSEReadBufferBytes c \<le> 0
         \<or> MaxOutputBytes c \<le> 0 \<or> MaxTextBytes c \<le> 0 \<or> MaxReasoningBytes c \<le> 0 \<or> cfg_MaxToolCallArgumentBytes c \<le> 0
         \<or> MaxPendingTurnBytes c \<le> 0 \<or> MaxPendingAggregateBytes c \<le> 0 then Some StreamLimitsNotPositive
      else None)"

section \<open>The server\<close>

text \<open>
  Channels are entries of a heap that are closed or not; \<open>sv_activeRequestsDone\<close> is a reference into it.
  The cancel function and the body of a request are known by the request's identifier: \<open>sv_canceled\<close> lists the
  requests whose context was cancelled by the server and whose body it was told to close.
\<close>

record 'p Server =
  sv_config :: "'p Config"
  sv_upstream :: "'p UpstreamClient"
  sv_zenUpstream :: "'p UpstreamClient"
  sv_ready :: bool
  sv_requestID :: nat
  sv_channels :: "bool list"
  sv_activeRequests :: "(nat, unit) gomap"
  sv_activeRequestsDone :: nat
  sv_canceled :: "nat list"
  sv_shuttingDown :: bool
  sv_continuations :: ContinuationStore
  sv_ownsContinuations :: bool
  sv_continuationClosed :: bool

definition New :: "(gostring \<Rightarrow> TCPAddr option) \<Rightarrow> (TCPAddr \<Rightarrow> bool) \<Rightarrow> 'p Config \<Rightarrow> server_error + 'p Server" where
  "New resolve listen config =
     (let config = server_withDefaults config in
      case resolveListenAddress resolve (ListenAddr config) (AllowNonLoopback config) of
        Inl e \<Rightarrow> Inl e
      | Inr address \<Rightarrow>
          (case check_config config of
             Some e \<Rightarrow> Inl e
           | None \<Rightarrow>
               (case (case cfg_ContinuationStore config of
                        Some store \<Rightarrow> Inr (store, False)
                      | None \<Rightarrow> (case NewContinuationStore (cfg_ContinuationStoreConfig config) of
                            Inl e \<Rightarrow> Inl (StoreNotConfigured e) | Inr store \<Rightarrow> Inr (store, True))) of
                  Inl e \<Rightarrow> Inl e
                | Inr (store, owns) \<Rightarrow>
                    if \<not> listen address then Inl ListenFailed
                    else Inr \<lparr>sv_config = config,
                      sv_upstream = (case cfg_Upstream config of None \<Rightarrow> notConfiguredUpstream | Some u \<Rightarrow> u),
                      sv_zenUpstream = (case cfg_ZenUpstream config of None \<Rightarrow> notConfiguredUpstream | Some u \<Rightarrow> u),
                      sv_ready = True, sv_requestID = 0, sv_channels = [True], sv_activeRequests = [],
                      sv_activeRequestsDone = 0, sv_canceled = [], sv_shuttingDown = False, sv_continuations = store,
                      sv_ownsContinuations = owns, sv_continuationClosed = False\<rparr>)))"

definition next_request_id :: "'p Server \<Rightarrow> nat \<times> 'p Server" where
  "next_request_id s = (let n = (sv_requestID s + 1) mod 2 ^ 64 in (n, s\<lparr>sv_requestID := n\<rparr>))"

datatype admission = Accepted nat | RefusedLimit | RefusedShutdown

text \<open>
  \<open>trackRequest\<close>: \<open>Accepted\<close> carries the channel the returned function closes. The map and the channel are never nil
  in a server that \<open>New\<close> made.
\<close>

definition trackRequest :: "nat \<Rightarrow> 'p Server \<Rightarrow> admission \<times> 'p Server" where
  "trackRequest requestID s =
     (if sv_shuttingDown s then (RefusedShutdown, s)
      else if len (sv_activeRequests s) \<ge> MaxActiveRequests (sv_config s) then (RefusedLimit, s)
      else
        let s = (if sv_activeRequests s = []
                 then s\<lparr>sv_channels := sv_channels s @ [False], sv_activeRequestsDone := length (sv_channels s)\<rparr> else s)
        in (Accepted (sv_activeRequestsDone s), s\<lparr>sv_activeRequests := map_put requestID () (sv_activeRequests s)\<rparr>))"

text \<open>The function \<open>trackRequest\<close> returns. Closing a closed channel panics, which is \<open>None\<close>.\<close>

definition unregister :: "nat \<Rightarrow> nat \<Rightarrow> 'p Server \<Rightarrow> 'p Server option" where
  "unregister requestID requestDone s =
     (if map_of (sv_activeRequests s) requestID = None then Some s
      else
        let s = s\<lparr>sv_activeRequests := map_del requestID (sv_activeRequests s)\<rparr> in
        if sv_activeRequests s \<noteq> [] then Some s
        else if sv_channels s ! requestDone then None
        else Some (s\<lparr>sv_channels := (sv_channels s)[requestDone := True]\<rparr>))"

definition markShuttingDown :: "'p Server \<Rightarrow> 'p Server" where
  "markShuttingDown s = s\<lparr>sv_shuttingDown := True\<rparr>"

definition isShuttingDown :: "'p Server \<Rightarrow> bool" where
  "isShuttingDown s = sv_shuttingDown s"

definition cancelActiveRequests :: "'p Server \<Rightarrow> 'p Server" where
  "cancelActiveRequests s = s\<lparr>sv_canceled := sv_canceled s @ map_keys (sv_activeRequests s)\<rparr>"

text \<open>
  \<open>waitActiveRequests s t ctxErr result\<close>: a call that looks at the requests in the state \<open>s\<close> may return \<open>result\<close> in the
  state \<open>t\<close>, when the error of the context is \<open>ctxErr\<close>. It returns at once if no request is active; otherwise its
  \<open>select\<close> waits for the channel it read or for the context, and takes either if both are ready.
\<close>

definition waitActiveRequests :: "'p Server \<Rightarrow> 'p Server \<Rightarrow> ctx_error option \<Rightarrow> ctx_error option \<Rightarrow> bool" where
  "waitActiveRequests s t ctxErr result =
     (if sv_activeRequests s = [] then result = None
      else (result = None \<and> sv_channels t ! sv_activeRequestsDone s) \<or> (result \<noteq> None \<and> result = ctxErr))"

text \<open>What \<open>Shutdown\<close> does with the error it has got: the requests that are still handled are cancelled.\<close>

definition shutdown_release :: "ctx_error option \<Rightarrow> 'p Server \<Rightarrow> 'p Server" where
  "shutdown_release shutdownErr s = (if shutdownErr \<noteq> None then cancelActiveRequests s else s)"

definition closeContinuations :: "'p Server \<Rightarrow> 'p Server" where
  "closeContinuations s =
     (if \<not> sv_ownsContinuations s \<or> sv_continuationClosed s then s
      else s\<lparr>sv_continuationClosed := True, sv_continuations := store_Close (sv_continuations s)\<rparr>)"

text \<open>The first steps of \<open>Shutdown\<close> and of \<open>Close\<close>, each atomic on its own.\<close>

definition ready_off :: "'p Server \<Rightarrow> 'p Server" where
  "ready_off s = s\<lparr>sv_ready := False\<rparr>"

end
