(* ===== verification/Server_Shutdown.thy ===== *)
theory Server_Shutdown
  imports Server_Lifecycle
begin

text \<open>
  The server as a state machine: requests are admitted and finish, and shutdown interleaves with them at the
  granularity of \<open>activeRequestsMu\<close>. The admission limit, the signal of idleness, and what shutdown waits for and what it
  cancels when its grace period ends.
\<close>

section \<open>Steps\<close>

text \<open>\<open>sm_handlers\<close> are the requests being handled, each with the channel its unregister function holds.\<close>

record 'p server_system =
  sm_server :: "'p Server"
  sm_handlers :: "(nat \<times> nat) list"
  sm_arrivals :: nat
  sm_panicked :: bool

definition server_start :: "'p server_system \<Rightarrow> bool" where
  "server_start y \<longleftrightarrow> (\<exists>resolve listen config. New resolve listen config = Inr (sm_server y))
     \<and> sm_handlers y = [] \<and> sm_arrivals y = 0 \<and> \<not> sm_panicked y"

definition arrive :: "'p server_system \<Rightarrow> nat \<times> 'p server_system" where
  "arrive y = (let (n, s) = next_request_id (sm_server y) in (n, y\<lparr>sm_server := s, sm_arrivals := sm_arrivals y + 1\<rparr>))"

definition without :: "nat \<Rightarrow> 'a list \<Rightarrow> 'a list" where
  "without i xs = take i xs @ drop (Suc i) xs"

inductive server_step :: "'p server_system \<Rightarrow> 'p server_system \<Rightarrow> bool" where
  sstep_turned_away: "server_step y (snd (arrive y))"
| sstep_accept: "arrive y = (n, z) \<Longrightarrow> trackRequest n (sm_server z) = (Accepted ch, s) \<Longrightarrow>
    server_step y (z\<lparr>sm_server := s, sm_handlers := sm_handlers z @ [(n, ch)]\<rparr>)"
| sstep_refuse: "arrive y = (n, z) \<Longrightarrow> trackRequest n (sm_server z) = (r, s) \<Longrightarrow> r \<in> {RefusedLimit, RefusedShutdown} \<Longrightarrow>
    server_step y (z\<lparr>sm_server := s\<rparr>)"
| sstep_finish: "i < length (sm_handlers y) \<Longrightarrow>
    unregister (fst (sm_handlers y ! i)) (snd (sm_handlers y ! i)) (sm_server y) = Some s \<Longrightarrow>
    server_step y (y\<lparr>sm_server := s, sm_handlers := without i (sm_handlers y)\<rparr>)"
| sstep_panic: "i < length (sm_handlers y) \<Longrightarrow>
    unregister (fst (sm_handlers y ! i)) (snd (sm_handlers y ! i)) (sm_server y) = None \<Longrightarrow>
    server_step y (y\<lparr>sm_panicked := True\<rparr>)"
| sstep_handler: "server_step y (y\<lparr>sm_server := (sm_server y)\<lparr>sv_continuations := store\<rparr>\<rparr>)"
| sstep_ready: "server_step y (y\<lparr>sm_server := ready_off (sm_server y)\<rparr>)"
| sstep_mark: "server_step y (y\<lparr>sm_server := markShuttingDown (sm_server y)\<rparr>)"
| sstep_cancel: "server_step y (y\<lparr>sm_server := cancelActiveRequests (sm_server y)\<rparr>)"
| sstep_close: "server_step y (y\<lparr>sm_server := closeContinuations (sm_server y)\<rparr>)"

section \<open>The invariant\<close>

text \<open>What the invariant looks at: the other fields may change freely.\<close>

definition view :: "'p Server \<Rightarrow> _" where
  "view s = (MaxActiveRequests (sv_config s), sv_requestID s, sv_channels s, sv_activeRequests s, sv_activeRequestsDone s)"

definition tracks :: "'p Server \<Rightarrow> (nat \<times> nat) list \<Rightarrow> bool" where
  "tracks s hs \<longleftrightarrow>
     map_ok (sv_activeRequests s) \<and> distinct (map fst hs) \<and> set (map fst hs) = set (map_keys (sv_activeRequests s))
     \<and> (\<forall>h \<in> set hs. snd h = sv_activeRequestsDone s \<and> fst h \<le> sv_requestID s)
     \<and> sv_activeRequestsDone s < length (sv_channels s)
     \<and> (sv_channels s ! sv_activeRequestsDone s \<longleftrightarrow> sv_activeRequests s = [])
     \<and> 0 < MaxActiveRequests (sv_config s) \<and> len (sv_activeRequests s) \<le> MaxActiveRequests (sv_config s)"

definition system_inv :: "'p server_system \<Rightarrow> bool" where
  "system_inv y \<longleftrightarrow> (sm_arrivals y < 2 ^ 64 \<longrightarrow>
     sv_requestID (sm_server y) = sm_arrivals y \<and> tracks (sm_server y) (sm_handlers y) \<and> \<not> sm_panicked y)"

lemma tracks_view: "view t = view s \<Longrightarrow> tracks t hs = tracks s hs"
  by (simp add: tracks_def view_def)

lemma view_simps [simp]:
  "view (ready_off s) = view s" "view (markShuttingDown s) = view s" "view (cancelActiveRequests s) = view s"
  "view (closeContinuations s) = view s" "view (s\<lparr>sv_continuations := c\<rparr>) = view s"
  by (simp_all add: view_def ready_off_def markShuttingDown_def cancelActiveRequests_def closeContinuations_def)

lemma view_requestID: "view t = view s \<Longrightarrow> sv_requestID t = sv_requestID s"
  by (simp add: view_def)

lemma tracks_length:
  assumes "tracks s hs"
  shows "length hs = length (sv_activeRequests s)"
proof -
  have "length hs = card (set (map fst hs))" using assms by (metis distinct_card length_map tracks_def)
  also have "\<dots> = card (set (map_keys (sv_activeRequests s)))" using assms by (simp add: tracks_def)
  also have "\<dots> = length (sv_activeRequests s)" using assms by (metis distinct_card length_map tracks_def)
  finally show ?thesis .
qed

lemma tracks_arrive: "tracks s hs \<Longrightarrow> tracks (s\<lparr>sv_requestID := sv_requestID s + n\<rparr>) hs"
  by (fastforce simp: tracks_def)

lemma tracks_accept:
  assumes s: "tracks s hs" and n: "\<forall>h \<in> set hs. fst h < n" "n \<le> sv_requestID s" and t: "trackRequest n s = (Accepted ch, t)"
  shows "tracks t (hs @ [(n, ch)])"
proof -
  have fresh: "n \<notin> set (map_keys (sv_activeRequests s))" using s n(1) unfolding tracks_def by force
  then have new: "map_of (sv_activeRequests s) n = None" by (simp add: map_of_eq_None_iff)
  have put: "map_put n () (sv_activeRequests s) = sv_activeRequests s @ [(n, ())]"
    by (rule map_put_fresh [OF new])
  show ?thesis
  proof (cases "sv_activeRequests s = []")
    case True
    then have "hs = []" using tracks_length [OF s] by simp
    then show ?thesis using t True s n(2) by (auto simp: trackRequest_def tracks_def Let_def nth_append split: if_splits)
  next
    case False
    then have t': "t = s\<lparr>sv_activeRequests := sv_activeRequests s @ [(n, ())]\<rparr>" "ch = sv_activeRequestsDone s"
      "len (sv_activeRequests s) < MaxActiveRequests (sv_config s)"
      using t put by (auto simp: trackRequest_def Let_def split: if_splits)
    note s' = s [unfolded tracks_def]
    have "n \<notin> set (map fst hs)" using s' fresh by blast
    then show ?thesis unfolding tracks_def t' using s' fresh n(2) False t'(3) by simp
  qed
qed

lemma without_split:
  assumes "i < length hs"
  obtains xs ys where "hs = xs @ (hs ! i) # ys" "without i hs = xs @ ys"
  using id_take_nth_drop [OF assms] that by (auto simp: without_def)

lemma tracks_finish:
  assumes s: "tracks s hs" and i: "i < length hs"
  shows "\<exists>t. unregister (fst (hs ! i)) (snd (hs ! i)) s = Some t \<and> tracks t (without i hs)"
proof -
  obtain xs ys where split: "hs = xs @ (hs ! i) # ys" "without i hs = xs @ ys" using i by (rule without_split)
  define n ch where "n = fst (hs ! i)" and "ch = snd (hs ! i)"
  have nc: "hs ! i = (n, ch)" by (simp add: n_def ch_def)
  note s' = s [unfolded tracks_def]
  have ch: "ch = sv_activeRequestsDone s" using s' i nc by (metis nth_mem snd_conv)
  have n: "n \<in> set (map_keys (sv_activeRequests s))" using s' i nc by (metis in_set_conv_nth length_map nth_map fst_conv)
  then have some: "map_of (sv_activeRequests s) n \<noteq> None" by (simp add: map_of_eq_None_iff)
  have hs: "set (map fst (without i hs)) = set (map fst hs) - {n}" "distinct (map fst (without i hs))" "set (without i hs) \<subseteq> set hs"
    using s' split nc by (auto simp: tracks_def)
  have keys: "set (map_keys (map_del n (sv_activeRequests s))) = set (map_keys (sv_activeRequests s)) - {n}"
    by (simp add: delete_keys)
  have "sv_activeRequests s \<noteq> []" using n by (cases "sv_activeRequests s") simp_all
  moreover have "sv_channels s ! sv_activeRequestsDone s \<longleftrightarrow> sv_activeRequests s = []" using s' by blast
  ultimately have unclosed: "\<not> sv_channels s ! ch" by (simp add: ch)
  have ok: "map_ok (map_del n (sv_activeRequests s))" by (rule al.ok_del) (use s' in simp)
  have le: "len (map_del n (sv_activeRequests s)) \<le> MaxActiveRequests (sv_config s)"
    using s' length_map_del_le [of n "sv_activeRequests s"] by linarith
  have d: "sv_activeRequestsDone s < length (sv_channels s)" "0 < MaxActiveRequests (sv_config s)" using s' by simp_all
  have h: "\<forall>h \<in> set (without i hs). snd h = sv_activeRequestsDone s \<and> fst h \<le> sv_requestID s" using s' hs(3) by blast
  have k: "set (map fst (without i hs)) = set (map_keys (map_del n (sv_activeRequests s)))" using hs(1) keys s' by simp
  show ?thesis
  proof (cases "map_del n (sv_activeRequests s) = []")
    case True
    then have u: "unregister n ch s = Some (s\<lparr>sv_activeRequests := [], sv_channels := (sv_channels s)[ch := True]\<rparr>)"
      using some unclosed by (simp add: unregister_def)
    have "without i hs = []" using k True by simp
    then show ?thesis using u d by (simp add: n_def [symmetric] ch_def [symmetric] tracks_def ch)
  next
    case False
    then have "unregister n ch s = Some (s\<lparr>sv_activeRequests := map_del n (sv_activeRequests s)\<rparr>)"
      using some by (simp add: unregister_def)
    moreover have "tracks (s\<lparr>sv_activeRequests := map_del n (sv_activeRequests s)\<rparr>) (without i hs)"
      unfolding tracks_def using ok hs(2) k h d unclosed ch False le by simp
    ultimately show ?thesis by (simp add: n_def [symmetric] ch_def [symmetric])
  qed
qed

lemma New_tracks: "New resolve listen config = Inr s \<Longrightarrow> tracks s [] \<and> sv_requestID s = 0"
  by (auto simp: New_def Let_def tracks_def check_config_def split: sum.splits option.splits if_splits)

lemma system_inv_start: "server_start y \<Longrightarrow> system_inv y"
  by (auto simp: server_start_def system_inv_def dest: New_tracks)

lemma arrive_sel:
  assumes "arrive y = (n, z)"
  shows "n = (sv_requestID (sm_server y) + 1) mod 2 ^ 64" "sm_handlers z = sm_handlers y" "sm_arrivals z = sm_arrivals y + 1"
    "sm_panicked z = sm_panicked y" "sm_server z = (sm_server y)\<lparr>sv_requestID := n\<rparr>"
  using assms by (auto simp: arrive_def next_request_id_def Let_def split: prod.splits)

lemma system_inv_arrive:
  assumes inv: "system_inv y" and a: "arrive y = (n, z)"
  shows "system_inv z \<and> (sm_arrivals z < 2 ^ 64 \<longrightarrow> (\<forall>h \<in> set (sm_handlers z). fst h < n) \<and> n = sv_requestID (sm_server z))"
proof (cases "sm_arrivals z < 2 ^ 64")
  case True
  note a' = arrive_sel [OF a]
  have y: "sv_requestID (sm_server y) = sm_arrivals y" "tracks (sm_server y) (sm_handlers y)" "\<not> sm_panicked y"
    using inv True a'(3) by (auto simp: system_inv_def)
  then have n: "n = sv_requestID (sm_server y) + 1" using True a'(1,3) by simp
  have "sm_server z = (sm_server y)\<lparr>sv_requestID := sv_requestID (sm_server y) + 1\<rparr>" by (simp only: a'(5) n)
  then have "tracks (sm_server z) (sm_handlers z)" using tracks_arrive [OF y(2), of 1] by (simp add: a'(2))
  moreover have "\<forall>h \<in> set (sm_handlers y). fst h < n" using y(2) n by (auto simp: tracks_def)
  ultimately show ?thesis using y n by (simp add: system_inv_def a')
qed (simp add: system_inv_def)

lemma system_inv_view:
  assumes "system_inv y" "view s = view (sm_server y)"
  shows "system_inv (y\<lparr>sm_server := s\<rparr>)"
  using assms tracks_view [OF assms(2)] view_requestID [OF assms(2)] by (simp add: system_inv_def)

lemma trackRequest_refused: "trackRequest n s = (r, t) \<Longrightarrow> r \<in> {RefusedLimit, RefusedShutdown} \<Longrightarrow> t = s"
  by (auto simp: trackRequest_def Let_def split: if_splits)

lemma trackRequest_sel:
  "trackRequest n s = (r, t) \<Longrightarrow> sv_requestID t = sv_requestID s \<and> sv_config t = sv_config s \<and> sv_shuttingDown t = sv_shuttingDown s"
  by (auto simp: trackRequest_def Let_def split: if_splits)

lemma unregister_sel:
  "unregister n ch s = Some t \<Longrightarrow> sv_requestID t = sv_requestID s \<and> sv_config t = sv_config s
    \<and> sv_shuttingDown t = sv_shuttingDown s \<and> sv_activeRequestsDone t = sv_activeRequestsDone s"
  by (auto simp: unregister_def Let_def split: if_splits)

lemma system_inv_step: "server_step y z \<Longrightarrow> system_inv y \<Longrightarrow> system_inv z"
proof (induction rule: server_step.induct)
  case (sstep_turned_away y)
  then show ?case using system_inv_arrive [of y "fst (arrive y)" "snd (arrive y)"] by simp
next
  case (sstep_accept y n z ch s)
  note z = system_inv_arrive [OF sstep_accept(3,1)]
  show ?case
  proof (cases "sm_arrivals z < 2 ^ 64")
    case True
    then have "tracks s (sm_handlers z @ [(n, ch)])"
      using z by (intro tracks_accept [OF _ _ _ sstep_accept(2)]) (auto simp: system_inv_def)
    with True z trackRequest_sel [OF sstep_accept(2)] show ?thesis by (simp add: system_inv_def)
  qed (simp add: system_inv_def)
next
  case (sstep_refuse y n z r s)
  then show ?case using system_inv_arrive [OF sstep_refuse(4,1)] trackRequest_refused [OF sstep_refuse(2,3)] by simp
next
  case (sstep_finish i y s)
  then show ?case using tracks_finish [of "sm_server y" "sm_handlers y" i] unregister_sel [OF sstep_finish(2)]
    by (auto simp: system_inv_def)
next
  case (sstep_panic i y)
  then show ?case using tracks_finish [of "sm_server y" "sm_handlers y" i] by (auto simp: system_inv_def)
qed (auto intro: system_inv_view)

interpretation server: invariant_system server_start server_step system_inv
  by unfold_locales (auto intro: system_inv_start system_inv_step)

section \<open>Shutdown\<close>

text \<open>Once the server is shutting down it stays so, admits nothing and keeps its signal; handlers only leave.\<close>

definition draining :: "'p server_system \<Rightarrow> 'p server_system \<Rightarrow> bool" where
  "draining y z \<longleftrightarrow> sv_shuttingDown (sm_server z)
     \<and> sv_activeRequestsDone (sm_server z) = sv_activeRequestsDone (sm_server y)
     \<and> set (sm_handlers z) \<subseteq> set (sm_handlers y)"

lemma draining_step:
  assumes "server_step y z" "sv_shuttingDown (sm_server y)"
  shows "draining y z"
  using assms
proof (induction rule: server_step.induct)
  case (sstep_turned_away y)
  then show ?case by (simp add: draining_def arrive_def next_request_id_def Let_def)
next
  case (sstep_accept y n z ch s)
  then show ?case using arrive_sel [OF sstep_accept(1)] by (simp add: trackRequest_def)
next
  case (sstep_refuse y n z r s)
  then show ?case using arrive_sel [OF sstep_refuse(1)] trackRequest_refused [OF sstep_refuse(2,3)] by (simp add: draining_def)
next
  case (sstep_finish i y s)
  have "set (without i (sm_handlers y)) \<subseteq> set (sm_handlers y)"
    by (auto simp: without_def dest: in_set_takeD in_set_dropD)
  then show ?case using sstep_finish unregister_sel [OF sstep_finish(2)] by (simp add: draining_def)
qed (simp_all add: draining_def ready_off_def markShuttingDown_def cancelActiveRequests_def closeContinuations_def)

lemma draining_steps:
  assumes "server_step\<^sup>*\<^sup>* y z" "sv_shuttingDown (sm_server y)"
  shows "draining y z"
  using assms
proof (induction rule: rtranclp_induct)
  case base
  then show ?case by (simp add: draining_def)
next
  case (step u v)
  then show ?case using draining_step [OF step(2)] by (auto simp: draining_def)
qed

lemma arrivals_step: "server_step y z \<Longrightarrow> sm_arrivals y \<le> sm_arrivals z"
  by (induction rule: server_step.induct) (auto dest: arrive_sel(3) simp: arrive_def next_request_id_def Let_def)

lemma arrivals_steps: "server_step\<^sup>*\<^sup>* y z \<Longrightarrow> sm_arrivals y \<le> sm_arrivals z"
  by (induction rule: rtranclp_induct) (auto dest: arrivals_step)

text \<open>
  C16: The admission limit holds in every reachable state, whatever the order in which requests arrive, finish
  and shutdown steps happen: the requests being handled are exactly the tracked ones, each once, at most
  \<open>MaxActiveRequests\<close>; the idle signal is closed exactly when none is handled; and it is never closed twice.
  (The identifiers are distinct until the 64-bit counter wraps, so the number of arrivals is assumed below that.)
\<close>

theorem active_requests_bounded:
  assumes "reachable server_start server_step y" "sm_arrivals y < 2 ^ 64"
  shows "len (sm_handlers y) \<le> MaxActiveRequests (sv_config (sm_server y))
    \<and> distinct (map fst (sm_handlers y))
    \<and> set (map fst (sm_handlers y)) = set (map_keys (sv_activeRequests (sm_server y)))
    \<and> (sv_channels (sm_server y) ! sv_activeRequestsDone (sm_server y) \<longleftrightarrow> sm_handlers y = [])
    \<and> \<not> sm_panicked y"
proof -
  have t: "tracks (sm_server y) (sm_handlers y)" "\<not> sm_panicked y"
    using server.inv_reachable [OF assms(1)] assms(2) by (simp_all add: system_inv_def)
  then show ?thesis using tracks_length [OF t(1)] by (auto simp: tracks_def)
qed

lemma cancelled_step: "server_step y z \<Longrightarrow> set (sv_canceled (sm_server y)) \<subseteq> set (sv_canceled (sm_server z))"
proof (induction rule: server_step.induct)
  case (sstep_turned_away y)
  then show ?case by (simp add: arrive_def next_request_id_def Let_def)
next
  case (sstep_accept y n z ch s)
  then show ?case using arrive_sel(5) [OF sstep_accept(1)] by (auto simp: trackRequest_def Let_def split: if_splits)
next
  case (sstep_refuse y n z r s)
  then show ?case using arrive_sel(5) [OF sstep_refuse(1)] trackRequest_refused [OF sstep_refuse(2,3)] by simp
next
  case (sstep_finish i y s)
  then show ?case by (auto simp: unregister_def Let_def split: if_splits)
qed (simp_all add: ready_off_def markShuttingDown_def cancelActiveRequests_def closeContinuations_def)

lemma cancelled_steps: "server_step\<^sup>*\<^sup>* y z \<Longrightarrow> set (sv_canceled (sm_server y)) \<subseteq> set (sv_canceled (sm_server z))"
  by (induction rule: rtranclp_induct) (auto dest: cancelled_step)

text \<open>
  C17: Shutdown waits for every handler until its grace period ends: a wait that started after \<open>markShuttingDown\<close>
  returns without an error only when no request is being handled any more, and then none ever will be, so that the
  continuation store is closed behind the last of them; it returns an error only when that is the error of its context,
  and then every request that is still being handled, now or later, has been cancelled.
\<close>

theorem shutdown_waits:
  assumes "reachable server_start server_step y" "sv_shuttingDown (sm_server y)"
    and "server_step\<^sup>*\<^sup>* y z" "sm_arrivals z < 2 ^ 64"
    and "waitActiveRequests (sm_server y) (sm_server z) ctxErr result"
    and "server_step\<^sup>*\<^sup>* (z\<lparr>sm_server := shutdown_release result (sm_server z)\<rparr>) w"
  shows "(result = None \<and> sm_handlers z = [] \<and> sm_handlers w = [])
    \<or> (result \<noteq> None \<and> result = ctxErr \<and> set (map fst (sm_handlers w)) \<subseteq> set (sv_canceled (sm_server w)))"
proof -
  let ?z = "z\<lparr>sm_server := shutdown_release result (sm_server z)\<rparr>"
  have y: "tracks (sm_server y) (sm_handlers y)"
    using server.inv_reachable [OF assms(1)] assms(4) arrivals_steps [OF assms(3)] by (simp add: system_inv_def)
  have z: "tracks (sm_server z) (sm_handlers z)"
    using server.inv_steps [OF assms(3) server.inv_reachable [OF assms(1)]] assms(4) by (simp add: system_inv_def)
  have d: "draining y z" by (rule draining_steps [OF assms(3,2)])
  have w: "draining ?z w"
    by (rule draining_steps [OF assms(6)]) (use d in \<open>simp add: draining_def shutdown_release_def cancelActiveRequests_def\<close>)
  show ?thesis
  proof (cases result)
    case None
    have "sm_handlers z = []"
    proof (cases "sv_activeRequests (sm_server y) = []")
      case True
      then have "sm_handlers y = []" using tracks_length [OF y] by simp
      then show ?thesis using d by (simp add: draining_def)
    next
      case False
      then have "sv_channels (sm_server z) ! sv_activeRequestsDone (sm_server z)"
        using assms(5) d None by (simp add: waitActiveRequests_def draining_def)
      then show ?thesis using z tracks_length [OF z] by (simp add: tracks_def)
    qed
    then show ?thesis using w None by (simp add: draining_def)
  next
    case (Some e)
    then have "ctxErr = Some e" using assms(5) by (auto simp: waitActiveRequests_def split: if_splits)
    moreover have "set (map fst (sm_handlers w)) \<subseteq> set (map fst (sm_handlers z))" using w by (auto simp: draining_def)
    moreover have "set (map fst (sm_handlers z)) \<subseteq> set (sv_canceled (sm_server ?z))"
      using z Some by (simp add: tracks_def shutdown_release_def cancelActiveRequests_def)
    ultimately show ?thesis using Some cancelled_steps [OF assms(6)] by auto
  qed
qed

section \<open>A run\<close>

text \<open>A server with default settings admits a request, is told to shut down, and the request finishes.\<close>

definition zero_store_config :: ContinuationStoreConfig where
  "zero_store_config = \<lparr>cc_TTL = 0, cc_ConsumingLeaseTTL = 0, cc_ConsumedGracePeriod = 0, cc_MaxRecords = 0,
     cc_MaxBytesPerRecord = 0, cc_MaxAggregateBytes = 0, cc_CleanupInterval = 0\<rparr>"

definition zero_config :: "unit Config" where
  "zero_config = \<lparr>ListenAddr = [], AllowNonLoopback = False, Model = [], ZenModel = [], cfg_Upstream = None,
     cfg_ZenUpstream = None, ReadHeaderTimeout = 0, IdleTimeout = 0, RequestBodyReadTimeout = 0, StreamIdleTimeout = 0,
     DownstreamWriteTimeout = 0, MaxBodyBytes = 0, MaxHeaderBytes = 0, MaxInputItems = 0, MaxCollectionItems = 0,
     MaxTools = 0, MaxSchemaBytes = 0, MaxSSELineBytes = 0, MaxSSEEventBytes = 0, MaxSSEBufferedBytes = 0,
     MaxSSEReadBufferBytes = 0, MaxOutputBytes = 0, MaxTextBytes = 0, MaxReasoningBytes = 0,
     cfg_MaxToolCallArgumentBytes = 0, MaxPendingTurnBytes = 0, MaxPendingRecords = 0, MaxPendingAggregateBytes = 0,
     MaxActiveRequests = 0, cfg_ContinuationStore = None, cfg_ContinuationStoreConfig = zero_store_config\<rparr>"

lemma zero_config_served: "\<exists>s. New (\<lambda>_. Some \<lparr>ta_Loopback = Some True\<rparr>) (\<lambda>_. True) zero_config = Inr s
    \<and> MaxActiveRequests (sv_config s) = 64 \<and> sv_requestID s = 0 \<and> sv_activeRequests s = [] \<and> sv_channels s = [True]
    \<and> \<not> sv_shuttingDown s"
  by (simp add: New_def zero_config_def server_withDefaults_def or_text_def or_default_def server_defaults bridge_limits sse_limits
      continuation_defaults resolveListenAddress_def check_config_def zero_store_config_def NewContinuationStore_def
      normalizeContinuationStoreConfig_def DefaultContinuationStoreConfig_def config_positive_def Let_def)

lemma sample_admitted:
  "\<exists>y :: unit server_system. reachable server_start server_step y \<and> sm_arrivals y = 1 \<and> sm_handlers y = [(1, 1)]
     \<and> sv_activeRequests (sm_server y) = [(1, ())] \<and> sv_channels (sm_server y) = [True, False]
     \<and> sv_activeRequestsDone (sm_server y) = 1"
proof -
  obtain s where s: "New (\<lambda>_. Some \<lparr>ta_Loopback = Some True\<rparr>) (\<lambda>_. True) zero_config = Inr s"
    "MaxActiveRequests (sv_config s) = 64" "sv_requestID s = 0" "sv_activeRequests s = []" "sv_channels s = [True]" "\<not> sv_shuttingDown s"
    using zero_config_served by blast
  let ?y = "\<lparr>sm_server = s, sm_handlers = [], sm_arrivals = 0, sm_panicked = False\<rparr>"
  have "server_start ?y" using s(1) by (auto simp: server_start_def)
  then have y: "reachable server_start server_step ?y" by (rule reach_start)
  obtain z where a: "arrive ?y = (1, z)" using s(3) by (simp add: arrive_def next_request_id_def Let_def)
  note z = arrive_sel [OF a]
  obtain t where t: "trackRequest 1 (sm_server z) = (Accepted 1, t)" "sv_activeRequests t = [(1, ())]" "sv_channels t = [True, False]"
    "sv_activeRequestsDone t = 1"
    using s(2-6) by (simp add: z(5) trackRequest_def Let_def)
  have "reachable server_start server_step (z\<lparr>sm_server := t, sm_handlers := sm_handlers z @ [(1, 1)]\<rparr>)"
    by (rule reach_step [OF y sstep_accept [OF a t(1)]])
  moreover have "sm_handlers z = []" "sm_arrivals z = 1" using z by simp_all
  ultimately show ?thesis using t by (intro exI [of _ "z\<lparr>sm_server := t, sm_handlers := sm_handlers z @ [(1, 1)]\<rparr>"]) simp
qed

theorem active_requests_bounded_witness:
  "\<exists>y :: unit server_system. reachable server_start server_step y \<and> sm_handlers y = [(1, 1)]
     \<and> \<not> sv_channels (sm_server y) ! sv_activeRequestsDone (sm_server y)"
proof -
  obtain y :: "unit server_system" where y: "reachable server_start server_step y" "sm_arrivals y = 1" "sm_handlers y = [(1, 1)]"
    using sample_admitted by blast
  then show ?thesis using active_requests_bounded [OF y(1)] by (intro exI [of _ y]) simp
qed

theorem shutdown_waits_witness:
  "\<exists>y z :: unit server_system. sm_handlers y = [(1, 1)] \<and> sv_shuttingDown (sm_server y) \<and> server_step\<^sup>*\<^sup>* y z \<and> sm_handlers z = []
    \<and> 1 \<in> set (sv_canceled (shutdown_release (Some ContextDeadlineExceeded) (sm_server y)))"
proof -
  obtain u :: "unit server_system" where u: "reachable server_start server_step u" "sm_arrivals u = 1" "sm_handlers u = [(1, 1)]"
    "sv_activeRequests (sm_server u) = [(1, ())]" "sv_channels (sm_server u) = [True, False]" "sv_activeRequestsDone (sm_server u) = 1"
    using sample_admitted by blast
  define y where "y = u\<lparr>sm_server := markShuttingDown (sm_server u)\<rparr>"
  have y: "reachable server_start server_step y" unfolding y_def by (rule reach_step [OF u(1) sstep_mark])
  obtain t where t: "unregister 1 1 (sm_server y) = Some t" "sv_channels t = [True, True]"
    using u(4-6) by (simp add: y_def markShuttingDown_def unregister_def)
  define z where "z = y\<lparr>sm_server := t, sm_handlers := without 0 (sm_handlers y)\<rparr>"
  have step: "server_step y z" unfolding z_def using t u(3) by (intro sstep_finish) (simp_all add: y_def)
  have sd: "sv_shuttingDown (sm_server y)" by (simp add: y_def markShuttingDown_def)
  have n: "sm_arrivals z < 2 ^ 64" "sm_arrivals y < 2 ^ 64" using u(2) by (simp_all add: z_def y_def)
  have steps: "server_step\<^sup>*\<^sup>* y z" using step by blast
  have "waitActiveRequests (sm_server y) (sm_server z) None None"
    using u(4-6) t(2) by (simp add: waitActiveRequests_def z_def y_def markShuttingDown_def)
  from shutdown_waits [OF y sd steps n(1) this rtranclp.rtrancl_refl] have "sm_handlers z = []" by simp
  moreover have "waitActiveRequests (sm_server y) (sm_server y) (Some ContextDeadlineExceeded) (Some ContextDeadlineExceeded)"
    using u(4) by (simp add: waitActiveRequests_def y_def markShuttingDown_def)
  note late = shutdown_waits [OF y sd rtranclp.rtrancl_refl n(2) this rtranclp.rtrancl_refl]
  have h: "sm_handlers y = [(1, 1)]" using u(3) by (simp add: y_def)
  ultimately show ?thesis using sd steps late by (intro exI [of _ y] exI [of _ z]) simp
qed

end
