(* ===== verification/Server_Responses.thy ===== *)
theory Server_Responses
  imports Server_Lifecycle Provider_Stream_Inv Tool_Results
begin

text \<open>
  \<open>internal/server/responses.go\<close>: the handler of \<open>POST /v1/responses\<close>, from the request to the end of its
  stream, composed of the request boundary, the tool registry, the continuation store, the upstream client, the
  stream decoder and the stream session.

  What happens around a handler is an environment: the looks at the request's context (in the writer), the
  clock and the map order of each operation on the store, what other requests did to the store before it, why
  the watcher goroutine interrupted the stream, and the provider as a source of stream events.
\<close>

section \<open>Validation of a request\<close>

datatype request_refusal = RefuseContinuation continuation_error | RefuseRequest codex_error | RefuseOther gostring

definition refuse_tools :: "codex_ErrorCode \<Rightarrow> request_refusal" where
  "refuse_tools code = RefuseRequest (CodexError code ''tools'')"

definition refuse_budget :: "ErrorCode \<Rightarrow> request_refusal" where
  "refuse_budget e =
     (if e = ErrorRequestTooLarge then refuse_tools CodexRequestTooLarge
      else RefuseOther (ProviderError_Error (providerError e no_cause)))"

definition check_tool :: "Tool \<Rightarrow> request_refusal option" where
  "check_tool tool =
     (case tool of
        FunctionTool _ _ _ _ \<Rightarrow> None
      | CustomTool name _ kind \<Rightarrow>
          if name \<noteq> ApplyPatchToolName \<or> (kind \<noteq> [] \<and> kind \<noteq> CustomToolFormatText \<and> kind \<noteq> CustomToolFormatGrammar)
          then Some (refuse_tools CodexInvalidRequest) else None
      | DeferredTool kind _ \<Rightarrow>
          (case ValidateCapturedDeferredTool kind of
             Some e \<Rightarrow> Some (RefuseOther (ProviderError_Error (providerError e no_cause))) | None \<Rightarrow> None))"

definition check_item :: "bool \<Rightarrow> InputItem \<Rightarrow> request_refusal option" where
  "check_item continuation item =
     (case item of
        Message _ _ _ \<Rightarrow> None
      | FunctionCall _ _ _ _ _ \<Rightarrow>
          if \<not> continuation then Some (RefuseOther ''function tool continuation is not available'') else None
      | FunctionCallOutput _ _ _ _ \<Rightarrow>
          if \<not> continuation then Some (RefuseOther ''function tool continuation is not available'') else None
      | CustomToolCall _ _ name _ _ \<Rightarrow>
          if \<not> continuation then Some (RefuseOther ''custom tool continuation is not available'')
          else if name \<noteq> ApplyPatchToolName then Some (RefuseRequest (CodexError CodexInvalidRequest ''input'')) else None
      | CustomToolCallOutput _ _ _ _ \<Rightarrow>
          if \<not> continuation then Some (RefuseOther ''custom tool continuation is not available'') else None)"

fun first_refusal :: "('a \<Rightarrow> request_refusal option) \<Rightarrow> 'a list \<Rightarrow> request_refusal option" where
  "first_refusal check [] = None"
| "first_refusal check (x # xs) = (case check x of Some e \<Rightarrow> Some e | None \<Rightarrow> first_refusal check xs)"

definition check_choice :: "ToolChoiceKind \<Rightarrow> request_refusal option" where
  "check_choice kind =
     (if kind \<in> set [ToolChoiceUnset, ToolChoiceAuto, ToolChoiceNone] then None
      else Some (RefuseRequest (CodexError CodexInvalidRequest ''tool_choice'')))"

definition check_format :: "TextFormatKind \<Rightarrow> request_refusal option" where
  "check_format format =
     (if format \<noteq> [] \<and> format \<noteq> TextFormatText
      then Some (RefuseOther ''structured response formats are not implemented in the current milestone'') else None)"

definition or_else :: "'a option \<Rightarrow> 'a option \<Rightarrow> 'a option" where
  "or_else x y = (case x of Some a \<Rightarrow> Some a | None \<Rightarrow> y)"

definition validateResponsesRequest :: "'c Request \<Rightarrow> bool \<Rightarrow> int \<Rightarrow> int \<Rightarrow> request_refusal option" where
  "validateResponsesRequest request continuation maxProviderTools maxSchemaBytes =
     (if rq_PreviousResponseID request \<noteq> [] \<and> \<not> continuation then Some (RefuseContinuation ErrContinuationUnknown)
      else case ValidateProviderToolBudget (rq_Tools request) (rq_ToolRegistry request) maxProviderTools maxSchemaBytes of
          Some e \<Rightarrow> Some (refuse_budget e)
        | None \<Rightarrow>
            or_else (first_refusal check_tool (rq_Tools request))
              (or_else (first_refusal (check_item continuation) (rq_Input request))
                (or_else (check_choice (tcho_Kind (rq_ToolChoice request)))
                  (check_format (fmt_Kind (gen_Format (rq_Generation request)))))))"

definition write_refusal :: "request_refusal \<Rightarrow> statusWriter \<Rightarrow> statusWriter" where
  "write_refusal err =
     (case err of
        RefuseContinuation e \<Rightarrow> writeContinuationError e
      | RefuseRequest e \<Rightarrow> writeRequestDecodeError e
      | RefuseOther message \<Rightarrow> writeJSONError 501 featureNotImplementedCode message)"

section \<open>Routing\<close>

definition unroutedText :: gostring where
  "unroutedText = ''the model must identify a gateway backend using a (go) or (zen) tag''"

definition resolveUpstream :: "'p Server \<Rightarrow> gostring \<Rightarrow> ('p UpstreamClient \<times> gostring) option" where
  "resolveUpstream s model =
     (case SplitTaggedModel model of
        None \<Rightarrow> None
      | Some (_, tag) \<Rightarrow>
          if tag = ProviderTagGo then Some (sv_upstream s, Model (sv_config s))
          else Some (sv_zenUpstream s, ZenModel (sv_config s)))"

definition declaredFunctionToolNames :: "Tool list \<Rightarrow> gostring list" where
  "declaredFunctionToolNames tools = concat (map (\<lambda>tool. case tool of FunctionTool name _ _ _ \<Rightarrow> [name] | _ \<Rightarrow> []) tools)"

definition isContinuationAcceptanceEvent :: "StreamEvent \<Rightarrow> bool" where
  "isContinuationAcceptanceEvent ev \<longleftrightarrow> (case ev of ResponseStarted _ _ _ \<Rightarrow> True | _ \<Rightarrow> False)"

definition responseTerminalType :: "StreamEvent \<Rightarrow> gostring" where
  "responseTerminalType ev =
     (case ev of
        Completed _ \<Rightarrow> ''response.completed''
      | Incomplete _ \<Rightarrow> ''response.incomplete''
      | Failed _ _ \<Rightarrow> ''response.failed''
      | _ \<Rightarrow> ''response.failed'')"

section \<open>The state and the environment of a handler\<close>

definition streamAbortCanceled :: gostring where "streamAbortCanceled = ''canceled''"
definition streamAbortTimeout :: gostring where "streamAbortTimeout = ''timeout''"
definition streamAbortWrite :: gostring where "streamAbortWrite = ''stream_interrupted''"

text \<open>The store operations of a handler are numbered, and so are its calls of the decoder's \<open>Next\<close>.\<close>

record 'p handler_env =
  he_bodyCause :: cause
  he_shuttingDown :: bool
  he_http_date :: "gostring \<Rightarrow> gostring option"
  he_others :: "nat \<Rightarrow> ContinuationStore \<Rightarrow> ContinuationStore" \<comment> \<open>what other requests did before the operation\<close>
  he_order :: "nat \<Rightarrow> gostring list"
  he_ctx :: "nat \<Rightarrow> ctx"
  he_now :: "nat \<Rightarrow> gotime"
  he_reason :: "nat \<Rightarrow> gostring" \<comment> \<open>\<open>watcher.Reason()\<close> behind the call of \<open>Next\<close>\<close>
  he_stream :: StreamEnv
  he_next :: "'p \<Rightarrow> (stream_error + ChatCompletionStreamEvent) \<times> 'p"

record handler_state =
  hs_writer :: statusWriter
  hs_store :: ContinuationStore
  hs_lease :: "ContinuationLease option"
  hs_ops :: nat

record stream_state = handler_state +
  st_session :: StreamSession
  st_decoder :: BridgeStreamDecoder
  st_accepted :: bool
  st_rounds :: nat

text \<open>\<open>r.Context().Err() != nil\<close>.\<close>

definition canceled :: "'a handler_state_scheme \<Rightarrow> bool \<times> 'a handler_state_scheme" where
  "canceled h = (let (err, w) = context_Err (hs_writer h) in (err \<noteq> None, h\<lparr>hs_writer := w\<rparr>))"

definition on_writer :: "(statusWriter \<Rightarrow> statusWriter) \<Rightarrow> 'a handler_state_scheme \<Rightarrow> 'a handler_state_scheme" where
  "on_writer f h = h\<lparr>hs_writer := f (hs_writer h)\<rparr>"

text \<open>An operation on the store, behind whatever other requests have done to it.\<close>

definition store_op ::
  "'p handler_env \<Rightarrow> (nat \<Rightarrow> ContinuationStore \<Rightarrow> 'r \<times> ContinuationStore) \<Rightarrow> 'a handler_state_scheme \<Rightarrow> 'r \<times> 'a handler_state_scheme" where
  "store_op env f h =
     (let (r, s) = f (hs_ops h) (he_others env (hs_ops h) (hs_store h)) in (r, h\<lparr>hs_store := s, hs_ops := hs_ops h + 1\<rparr>))"

definition begin_lease :: "'p handler_env \<Rightarrow> ToolResult list \<Rightarrow> 'a handler_state_scheme \<Rightarrow> (continuation_error + ContinuationLease) \<times> 'a handler_state_scheme" where
  "begin_lease env results = store_op env (\<lambda>k. Begin (he_order env k) (he_now env k) results)"

definition save_context :: "'p handler_env \<Rightarrow> PendingTurn \<Rightarrow> 'a handler_state_scheme \<Rightarrow> (continuation_error + unit) \<times> 'a handler_state_scheme" where
  "save_context env turn = store_op env (\<lambda>k. SaveContext (he_order env k) (he_ctx env k) (he_now env k) turn)"

text \<open>A method of the lease, which is nil when the request continues nothing.\<close>

definition lease_op ::
  "'p handler_env \<Rightarrow> (nat \<Rightarrow> ContinuationLease \<Rightarrow> ContinuationStore \<Rightarrow> (continuation_error, unit, ContinuationLease \<times> ContinuationStore) go)
     \<Rightarrow> 'a handler_state_scheme \<Rightarrow> (continuation_error + unit) \<times> 'a handler_state_scheme" where
  "lease_op env f h =
     (case hs_lease h of
        None \<Rightarrow> (Inl ErrContinuationInvalid, h)
      | Some lease \<Rightarrow>
          let ((r, lease), h) = store_op env (\<lambda>k s. case f k lease s of (r, (l, t)) \<Rightarrow> ((r, l), t)) h
          in (r, h\<lparr>hs_lease := Some lease\<rparr>))"

definition commit_lease :: "'p handler_env \<Rightarrow> 'a handler_state_scheme \<Rightarrow> (continuation_error + unit) \<times> 'a handler_state_scheme" where
  "commit_lease env = lease_op env (\<lambda>k. CommitContext (he_ctx env k) (he_now env k))"

definition abort_lease :: "'p handler_env \<Rightarrow> 'a handler_state_scheme \<Rightarrow> 'a handler_state_scheme" where
  "abort_lease env h = (if hs_lease h = None then h else snd (lease_op env (\<lambda>k. lease_Abort (he_now env k)) h))"

section \<open>The stream\<close>

definition can_fail :: "stream_state \<Rightarrow> bool" where
  "can_fail st \<longleftrightarrow> \<not> ss_TerminalEmitted (st_session st) \<and> ss_writeFailure (st_session st) = None"

definition note_terminal_type :: "gostring \<Rightarrow> stream_state \<Rightarrow> stream_state" where
  "note_terminal_type t = on_writer (\<lambda>w. w\<lparr>sw_responseTerminal := t\<rparr>)"

definition fail_stream :: "gostring \<Rightarrow> gostring \<Rightarrow> stream_state \<Rightarrow> stream_state" where
  "fail_stream code message st =
     (if can_fail st
      then note_terminal_type ''response.failed'' (st\<lparr>st_session := snd (session_Fail code message (st_session st))\<rparr>)
      else st)"

text \<open>A failure of the gateway's own behind which the context is looked at once more.\<close>

definition fail_unless_canceled :: "gostring \<Rightarrow> gostring \<Rightarrow> stream_state \<Rightarrow> stream_state" where
  "fail_unless_canceled code message st = (let (gone, st) = canceled st in if gone then st else fail_stream code message st)"

text \<open>
  The parts of the loop's body answer whether the loop goes on. Before \<open>response.completed\<close> the provider's
  tool turn is saved.
\<close>

definition save_turn :: "'p handler_env \<Rightarrow> StreamEvent \<Rightarrow> stream_state \<Rightarrow> bool \<times> stream_state" where
  "save_turn env ev st =
     (case ev of
        Completed _ \<Rightarrow>
          let (gone, st) = canceled st in
          if gone then (False, st)
          else (case bridge_PendingTurn (st_decoder st) of
              None \<Rightarrow> (True, st)
            | Some turn \<Rightarrow>
                (case save_context env turn st of
                   (Inl _, st) \<Rightarrow>
                     (False, fail_unless_canceled ''continuation_capacity'' ''The gateway could not retain the provider tool turn.'' st)
                 | (Inr _, st) \<Rightarrow> (True, st)))
      | _ \<Rightarrow> (True, st))"

definition accept_continuation :: "'p handler_env \<Rightarrow> StreamEvent \<Rightarrow> stream_state \<Rightarrow> bool \<times> stream_state" where
  "accept_continuation env ev st =
     (if \<not> st_accepted st \<and> isContinuationAcceptanceEvent ev then
        let (gone, st) = canceled st in
        if gone then (False, st)
        else (case commit_lease env st of
            (Inl _, st) \<Rightarrow>
              (False, fail_unless_canceled ''continuation_commit'' ''The gateway could not finalize the continuation.'' st)
          | (Inr _, st) \<Rightarrow> (True, st\<lparr>st_accepted := True\<rparr>))
      else (True, st))"

definition deliver :: "'p handler_env \<Rightarrow> StreamEvent \<Rightarrow> stream_state \<Rightarrow> bool \<times> stream_state" where
  "deliver env ev st =
     (case session_Handle (Some ev) (st_session st) of
        (Inl _, s) \<Rightarrow>
          (False, if ss_TerminalEmitted s then note_terminal_type (responseTerminalType ev) (st\<lparr>st_session := s\<rparr>)
                  else st\<lparr>st_session := s\<rparr>)
      | (Inr _, s) \<Rightarrow>
          let (go_on, st) = accept_continuation env ev (st\<lparr>st_session := s\<rparr>) in
          if \<not> go_on then (False, st)
          else if ss_TerminalEmitted (st_session st) then (False, note_terminal_type (responseTerminalType ev) st)
          else (True, st))"

text \<open>
  The body of the loop behind \<open>streamDecoder.Next()\<close>, whose only error is \<open>io.EOF\<close>, here no event (so the branch
  for another decoding error has nothing to model).
\<close>

definition stream_round :: "'p handler_env \<Rightarrow> StreamEvent option \<Rightarrow> stream_state \<Rightarrow> bool \<times> stream_state" where
  "stream_round env event st =
     (let reason = he_reason env (st_rounds st); st = st\<lparr>st_rounds := st_rounds st + 1\<rparr> in
      if reason \<noteq> [] then
        (False, if reason = streamAbortTimeout \<and> can_fail st
                then fail_unless_canceled ''timeout'' ''The upstream response stream exceeded its idle timeout.'' st else st)
      else
        let (gone, st) = canceled st in
        if gone \<or> ss_writeFailure (st_session st) \<noteq> None then (False, st)
        else case event of
            None \<Rightarrow> (False, fail_stream ''upstream_eof'' ''The upstream response stream ended unexpectedly.'' st)
          | Some ev \<Rightarrow>
              let (go_on, st) = save_turn env ev st in
              if go_on then deliver env ev st else (False, st))"

lemma canceled_sel [simp]:
  "hs_store (snd (canceled h)) = hs_store h" "hs_lease (snd (canceled h)) = hs_lease h" "hs_ops (snd (canceled h)) = hs_ops h"
  by (simp_all add: canceled_def split: prod.split)

lemma canceled_stream [simp]:
  fixes st :: stream_state
  shows "st_decoder (snd (canceled st)) = st_decoder st" "st_session (snd (canceled st)) = st_session st"
    "st_accepted (snd (canceled st)) = st_accepted st" "st_rounds (snd (canceled st)) = st_rounds st"
  by (simp_all add: canceled_def split: prod.split)

lemma store_op_sel [simp]:
  fixes st :: stream_state
  shows "st_decoder (snd (store_op env f st)) = st_decoder st" "st_session (snd (store_op env f st)) = st_session st"
    "st_accepted (snd (store_op env f st)) = st_accepted st" "st_rounds (snd (store_op env f st)) = st_rounds st"
    "hs_lease (snd (store_op env f st)) = hs_lease st" "hs_writer (snd (store_op env f st)) = hs_writer st"
  by (simp_all add: store_op_def split: prod.split)

lemma lease_op_stream [simp]:
  fixes st :: stream_state
  shows "st_decoder (snd (lease_op env f st)) = st_decoder st" "st_session (snd (lease_op env f st)) = st_session st"
    "st_accepted (snd (lease_op env f st)) = st_accepted st" "st_rounds (snd (lease_op env f st)) = st_rounds st"
    "hs_writer (snd (lease_op env f st)) = hs_writer st"
  by (simp_all add: lease_op_def Let_def store_op_def case_prod_unfold split: option.split)

lemma fail_stream_sel [simp]:
  "st_decoder (fail_stream code message st) = st_decoder st" "st_rounds (fail_stream code message st) = st_rounds st"
  "hs_lease (fail_stream code message st) = hs_lease st" "hs_store (fail_stream code message st) = hs_store st"
  "hs_ops (fail_stream code message st) = hs_ops st" "st_accepted (fail_stream code message st) = st_accepted st"
  by (simp_all add: fail_stream_def note_terminal_type_def on_writer_def)

lemma fail_unless_canceled_sel [simp]:
  "st_decoder (fail_unless_canceled code message st) = st_decoder st" "st_rounds (fail_unless_canceled code message st) = st_rounds st"
  "hs_lease (fail_unless_canceled code message st) = hs_lease st" "hs_store (fail_unless_canceled code message st) = hs_store st"
  "hs_ops (fail_unless_canceled code message st) = hs_ops st" "st_accepted (fail_unless_canceled code message st) = st_accepted st"
  by (simp_all add: fail_unless_canceled_def Let_def case_prod_unfold)

lemma note_terminal_type_sel [simp]:
  "st_decoder (note_terminal_type t st) = st_decoder st" "st_rounds (note_terminal_type t st) = st_rounds st"
  "hs_lease (note_terminal_type t st) = hs_lease st" "hs_store (note_terminal_type t st) = hs_store st"
  "hs_ops (note_terminal_type t st) = hs_ops st" "st_accepted (note_terminal_type t st) = st_accepted st"
  "st_session (note_terminal_type t st) = st_session st"
  by (simp_all add: note_terminal_type_def on_writer_def)

lemma save_turn_sel [simp]:
  "st_decoder (snd (save_turn env ev st)) = st_decoder st" "st_rounds (snd (save_turn env ev st)) = st_rounds st"
  "hs_lease (snd (save_turn env ev st)) = hs_lease st" "st_accepted (snd (save_turn env ev st)) = st_accepted st"
  by (simp_all add: save_turn_def save_context_def Let_def case_prod_unfold split: StreamEvent.split option.split sum.split)

lemma accept_continuation_sel [simp]:
  "st_decoder (snd (accept_continuation env ev st)) = st_decoder st" "st_rounds (snd (accept_continuation env ev st)) = st_rounds st"
  by (simp_all add: accept_continuation_def commit_lease_def Let_def case_prod_unfold split: sum.split)

lemma deliver_sel [simp]:
  "st_decoder (snd (deliver env ev st)) = st_decoder st" "st_rounds (snd (deliver env ev st)) = st_rounds st"
  by (simp_all add: deliver_def Let_def case_prod_unfold split: sum.split)

lemma stream_round_sel [simp]:
  "st_decoder (snd (stream_round env event st)) = st_decoder st" "st_rounds (snd (stream_round env event st)) = st_rounds st + 1"
  by (simp_all add: stream_round_def Let_def case_prod_unfold split: option.split)

lemma stream_round_eof: "\<not> fst (stream_round env None st)"
  by (simp add: stream_round_def Let_def case_prod_unfold)

text \<open>
  The loop. It ends because a call of \<open>Next\<close> that returns an event uses up decoder budget, and one that returns none
  ends it.
\<close>

function responses_loop :: "'p handler_env \<Rightarrow> 'p \<Rightarrow> stream_state \<Rightarrow> stream_state" where
  "responses_loop env p st =
     (case bridge_Next (he_next env) p (st_decoder st) of (event, p', d) \<Rightarrow>
        let (go_on, st) = stream_round env event (st\<lparr>st_decoder := d\<rparr>) in
        if go_on then responses_loop env p' st else st)"
  by pat_completeness auto
termination
proof (relation "measure (\<lambda>(_, _, st). bd_left (st_decoder st))")
  fix env :: "'p handler_env" and p st event y p' d z go_on st'
  assume next_call: "(event, y) = bridge_Next (he_next env) p (st_decoder st)" "(p', d) = y"
    and round: "z = stream_round env event (st\<lparr>st_decoder := d\<rparr>)" "(go_on, st') = z" "go_on"
  have n: "bridge_Next (he_next env) p (st_decoder st) = (event, p', d)" using next_call by simp
  have z: "stream_round env event (st\<lparr>st_decoder := d\<rparr>) = (True, st')" using round by simp
  have "event \<noteq> None"
  proof
    assume "event = None"
    then show False using z stream_round_eof [of env "st\<lparr>st_decoder := d\<rparr>"] by simp
  qed
  moreover have "st_decoder st' = d" using stream_round_sel(1) [of env event "st\<lparr>st_decoder := d\<rparr>"] unfolding z by simp
  ultimately show "((env, p', st'), env, p, st) \<in> measure (\<lambda>(_, _, st). bd_left (st_decoder st))"
    using bridge_Next_left [OF n] by auto
qed simp

declare responses_loop.simps [simp del]

text \<open>Reasoning about the loop: what holds of its state while it goes on, and of the state it leaves.\<close>

lemma responses_loop_rule:
  assumes "I st"
    and round: "\<And>st p event p' d go_on t. bridge_Next (he_next env) p (st_decoder st) = (event, p', d) \<Longrightarrow> I st \<Longrightarrow>
      stream_round env event (st\<lparr>st_decoder := d\<rparr>) = (go_on, t) \<Longrightarrow> if go_on then I t else Q t"
  shows "Q (responses_loop env p st)"
  using assms
proof (induction env p st rule: responses_loop.induct)
  case (1 env p st)
  obtain event p' d where n: "bridge_Next (he_next env) p (st_decoder st) = (event, p', d)" by (rule prod_cases3)
  obtain go_on t where r: "stream_round env event (st\<lparr>st_decoder := d\<rparr>) = (go_on, t)" by (rule prod.exhaust)
  note t = 1(3) [OF n 1(2) r]
  show ?case
  proof (cases go_on)
    case True
    then have "Q (responses_loop env p' t)"
      using t by (intro "1.IH" [OF n [symmetric] refl refl r [symmetric] True] 1(3)) simp_all
    then show ?thesis using n r True by (subst responses_loop.simps) simp
  next
    case False
    then show ?thesis using n r t by (subst responses_loop.simps) simp
  qed
qed

end
