(* ===== verification/Server_Handler.thy ===== *)
theory Server_Handler
  imports Server_Responses
begin

text \<open>
  The whole of \<open>handleResponses\<close> (\<open>internal/server/responses.go\<close>), the health handlers of \<open>health.go\<close>, and the
  routing and admission of \<open>ServeHTTP\<close> (\<open>server.go\<close>).
\<close>

section \<open>Reading the request\<close>

definition responses_decoder :: "'p Config \<Rightarrow> DecoderLimits option" where
  "responses_decoder c = NewDecoderWithLimits
     \<lparr>dl_MaxBodyBytes = MaxBodyBytes c, dl_MaxInputItems = MaxInputItems c, dl_MaxCollectionItems = MaxCollectionItems c,
      dl_MaxTools = MaxTools c, dl_MaxSchemaBytes = MaxSchemaBytes c, dl_MaxJSONDepth = 0, dl_MaxJSONTokens = 0\<rparr>"

text \<open>The decoder's error carries a cause only when it is that of a body that could not be read.\<close>

definition body_unread :: "DecoderLimits \<Rightarrow> http_request \<Rightarrow> bool" where
  "body_unread limits q \<longleftrightarrow>
     hr_ContentLength q \<le> dl_MaxBodyBytes limits \<and> validateContentType (hr_MediaType q) = Inr ()
     \<and> (case hr_Body q of
          None \<Rightarrow> False
        | Some b \<Rightarrow> body_fails b
            \<and> len (body_bytes b) < (if dl_MaxBodyBytes limits < MaxInt64 then dl_MaxBodyBytes limits + 1 else dl_MaxBodyBytes limits))"

definition decode_cause :: "'p handler_env \<Rightarrow> DecoderLimits \<Rightarrow> http_request \<Rightarrow> cause" where
  "decode_cause env limits q = (if body_unread limits q then he_bodyCause env else no_cause)"

definition isRequestBodyTimeout :: "cause \<Rightarrow> bool" where
  "isRequestBodyTimeout c \<longleftrightarrow> is_deadline c \<or> is_network_timeout c"

definition requestDecodeWasCanceled :: "cause \<Rightarrow> 'a handler_state_scheme \<Rightarrow> bool \<times> 'a handler_state_scheme" where
  "requestDecodeWasCanceled c h =
     (if isRequestBodyTimeout c then (False, h)
      else if is_canceled c then (True, h)
      else
        let (err, w) = context_Err (hs_writer h) in
        (case err of None \<Rightarrow> False | Some ContextDeadlineExceeded \<Rightarrow> False | Some ContextCanceled \<Rightarrow> True, h\<lparr>hs_writer := w\<rparr>))"

definition writeJSONErrorAfterBodyTimeout :: "bool \<Rightarrow> int \<Rightarrow> gostring \<Rightarrow> gostring \<Rightarrow> gostring \<Rightarrow> statusWriter \<Rightarrow> statusWriter" where
  "writeJSONErrorAfterBodyTimeout shuttingDown status code param message w =
     (if shuttingDown then w
      else (writeJSONErrorWithParam status code param message (w\<lparr>sw_allowCanceledWrite := True\<rparr>))\<lparr>sw_allowCanceledWrite := False\<rparr>)"

definition reject_body :: "'p handler_env \<Rightarrow> cause \<Rightarrow> codex_error \<Rightarrow> handler_state \<Rightarrow> handler_state" where
  "reject_body env c err h =
     (let (gone, h) = requestDecodeWasCanceled c h in
      if gone then h
      else if isRequestBodyTimeout c
      then on_writer (writeJSONErrorAfterBodyTimeout (he_shuttingDown env) 408 ''timeout'' ''body''
             ''The request body was not received within the configured phase timeout.'') h
      else on_writer (writeRequestDecodeError err) h)"

section \<open>Streaming the response\<close>

definition stream_options :: "'p Config \<Rightarrow> gostring \<Rightarrow> StreamSessionOptions" where
  "stream_options c upstreamModel =
     \<lparr>so_ResponseID = [], so_CreatedAt = zero_time, so_Model = upstreamModel, so_MaxAggregateBytes = MaxSSEBufferedBytes c,
      so_MaxToolCallArgumentBytes = cfg_MaxToolCallArgumentBytes c, so_MaxOutputBytes = MaxOutputBytes c,
      so_MaxTextBytes = MaxTextBytes c, so_MaxReasoningBytes = MaxReasoningBytes c,
      so_WriteTimeout = DownstreamWriteTimeout c, so_CustomTools = []\<rparr>"

definition decoder_options :: "'p Config \<Rightarrow> continuation_value Request \<Rightarrow> BridgeStreamDecoderOptions" where
  "decoder_options c request =
     \<lparr>bo_SSE = \<lparr>MaxLineBytes = MaxSSELineBytes c, MaxEventBytes = MaxSSEEventBytes c, MaxBufferedBytes = MaxSSEBufferedBytes c,
                MaxAggregateBytes = MaxSSEBufferedBytes c, MaxToolCallArgumentBytes = cfg_MaxToolCallArgumentBytes c,
                ReadBufferBytes = MaxSSEReadBufferBytes c\<rparr>,
      bo_AllowedToolNames = declaredFunctionToolNames (rq_Tools request), bo_MaxToolCalls = MaxTools c, bo_MaxChoices = 0,
      bo_MaxToolNameBytes = DefaultMaxToolNameBytes, bo_MaxProviderCallIDBytes = DefaultMaxProviderCallIDBytes,
      bo_MaxOutputBytes = MaxOutputBytes c, bo_MaxTextBytes = MaxTextBytes c, bo_MaxReasoningBytes = MaxReasoningBytes c,
      bo_ToolRegistry = rq_ToolRegistry request\<rparr>"

text \<open>
  The session writes through the status writer: the status and the frames it wrote are the writer's. A status that the
  status writer refused, because the context was done, is not told from one it sent.
\<close>

definition adopt_session :: "StreamSession \<Rightarrow> statusWriter \<Rightarrow> statusWriter" where
  "adopt_session s w =
     w\<lparr>sw_ResponseWriter := ss_writer s,
       sw_status := (if sw_status w = 0 then (case rw_status (ss_writer s) of [] \<Rightarrow> 0 | status # _ \<Rightarrow> status) else sw_status w)\<rparr>"

definition start_state :: "'p Config \<Rightarrow> continuation_value Request \<Rightarrow> StreamSession \<Rightarrow> handler_state \<Rightarrow> stream_state" where
  "start_state c request session h = handler_state.extend h
     \<lparr>st_session = session, st_decoder = NewBridgeStreamDecoder (decoder_options c request),
      st_accepted = (hs_lease h = None), st_rounds = 0\<rparr>"

text \<open>What a handler leaves: its state, and the stream's when it came to one.\<close>

type_synonym handler_outcome = "handler_state \<times> stream_state option"

definition end_of_stream :: "stream_state \<Rightarrow> handler_outcome" where
  "end_of_stream st = (on_writer (adopt_session (st_session st)) (handler_state.truncate st), Some st)"

definition stream_response ::
  "'p handler_env \<Rightarrow> 'p Config \<Rightarrow> continuation_value Request \<Rightarrow> gostring \<Rightarrow> 'p \<Rightarrow> handler_state \<Rightarrow> handler_outcome" where
  "stream_response env c request upstreamModel body h =
     (case NewStreamSession (sw_ResponseWriter (hs_writer h)) (he_stream env) (stream_options c upstreamModel) of
        Inl _ \<Rightarrow>
          (on_writer (writeJSONError 500 ''stream_configuration_error'' ''the response stream could not be initialized'') h, None)
      | Inr session \<Rightarrow>
          let h = on_writer (\<lambda>w. w\<lparr>sw_responseID := ss_ResponseID session, sw_responseModel := ss_Model session\<rparr>) h;
              (gone, h) = canceled h in
          if gone then (h, None)
          else case session_Start session of
              (Inl _, session) \<Rightarrow> end_of_stream (start_state c request session h)
            | (Inr _, session) \<Rightarrow> end_of_stream (responses_loop env body (start_state c request session h)))"

section \<open>The handler\<close>

definition fail_upstream :: "'p handler_env \<Rightarrow> upstream_failure \<Rightarrow> handler_state \<Rightarrow> handler_state" where
  "fail_upstream env err h =
     (let (gone, h) = canceled h in if gone then h else on_writer (writeUpstreamError (he_http_date env) err) h)"

text \<open>From the validated continuation on; the deferred calls come behind it.\<close>

definition run_request :: "'p handler_env \<Rightarrow> 'p Server \<Rightarrow> continuation_value Request \<Rightarrow> handler_state \<Rightarrow> handler_outcome" where
  "run_request env s request h =
     (let c = sv_config s in
      case validateResponsesRequest request (hs_lease h \<noteq> None) (MaxTools c) (MaxSchemaBytes c) of
        Some err \<Rightarrow> (on_writer (write_refusal err) h, None)
      | None \<Rightarrow>
          (case resolveUpstream s (rq_Model request) of
             None \<Rightarrow> (on_writer (writeJSONErrorWithParam 400 ''invalid_request'' ''model'' unroutedText) h, None)
           | Some (upstream, upstreamModel) \<Rightarrow>
               (case upstream request of
                  Inl err \<Rightarrow> (fail_upstream env err h, None)
                | Inr response \<Rightarrow>
                    (case validateUpstreamResponse (he_http_date env) response of
                       Some err \<Rightarrow> (fail_upstream env (UpstreamFailure err) h, None)
                     | None \<Rightarrow> stream_response env c request upstreamModel (the (ur_Body (the response))) h))))"

definition tool_result_refusal :: "tool_result_error \<Rightarrow> statusWriter \<Rightarrow> statusWriter" where
  "tool_result_refusal e =
     (case e of
        ErrToolResultDuplicate \<Rightarrow> writeContinuationError ErrContinuationDuplicate
      | ErrToolResultKindMismatch \<Rightarrow> writeContinuationError ErrContinuationKindMismatch
      | _ \<Rightarrow> writeJSONError 400 ''invalid_request'' requestInvalidText)"

text \<open>The request continues a stored turn if it carries results; the lease is aborted when the handler returns.\<close>

definition continue_request :: "'p handler_env \<Rightarrow> 'p Server \<Rightarrow> continuation_value Request \<Rightarrow> ToolResult list \<Rightarrow> handler_state \<Rightarrow> handler_outcome" where
  "continue_request env s request results h =
     (if results = [] then run_request env s request h
      else case begin_lease env results h of
          (Inl e, h) \<Rightarrow> (on_writer (writeContinuationError e) h, None)
        | (Inr lease, h) \<Rightarrow>
            let request = request\<lparr>rq_Continuation := NewContinuationRequest (Some lease)\<rparr>;
                (h, stream) = run_request env s request (h\<lparr>hs_lease := Some lease\<rparr>)
            in (abort_lease env h, stream))"

definition handleResponses :: "'p handler_env \<Rightarrow> 'p Server \<Rightarrow> http_request \<Rightarrow> handler_state \<Rightarrow> handler_outcome" where
  "handleResponses env s q h =
     (let (gone, h) = canceled h in
      if gone then (h, None)
      else if hr_Body q = None
      then (on_writer (writeJSONErrorWithParam 400 ''invalid_request'' ''body'' requestInvalidText) h, None)
      else case responses_decoder (sv_config s) of
          None \<Rightarrow> (on_writer (writeJSONError 500 ''server_configuration_error'' ''the gateway is not configured correctly'') h, None)
        | Some decoder \<Rightarrow>
            (case DecodeRequest (Some decoder) (Some q) of
               Inl err \<Rightarrow> (reject_body env (decode_cause env decoder q) err h, None)
             | Inr request \<Rightarrow>
                 let (gone, h) = canceled h in
                 if gone then (h, None)
                 else (case adapter_NewToolRegistry (rq_Tools request) (rq_ToolRegistry request) of
                     Inl _ \<Rightarrow> (on_writer (writeJSONError 400 ''invalid_request'' requestToolCollisionText) h, None)
                   | Inr registry \<Rightarrow>
                       let request = request\<lparr>rq_ToolRegistry := registry\<rparr> in
                       (case TranslateToolResults (rq_Input request) of
                          Inl e \<Rightarrow> (on_writer (tool_result_refusal e) h, None)
                        | Inr results \<Rightarrow> continue_request env s request results h))))"

section \<open>Health and routes\<close>

definition handleLive :: "statusWriter \<Rightarrow> statusWriter" where
  "handleLive = writeJSON 200 (JObj [(''status'', JStr ''ok'')])"

definition handleReady :: "bool \<Rightarrow> statusWriter \<Rightarrow> statusWriter" where
  "handleReady ready =
     (if \<not> ready then writeJSONError 503 ''not_ready'' ''server is shutting down''
      else writeJSON 200 (JObj [(''status'', JStr ''ready'')]))"

datatype route = RouteLive | RouteReady | RouteResponses | RouteUnknown

definition routeForPath :: "gostring \<Rightarrow> route" where
  "routeForPath path =
     (if path = ''/health/live'' then RouteLive
      else if path = ''/health/ready'' then RouteReady
      else if path = ''/v1/responses'' then RouteResponses
      else RouteUnknown)"

record inbound_request =
  in_Method :: gostring
  in_Path :: gostring
  in_Request :: http_request

definition wrong_method :: "gostring \<Rightarrow> gostring \<Rightarrow> handler_state \<Rightarrow> handler_outcome" where
  "wrong_method allow message h =
     (on_writer (\<lambda>w. writeJSONError 405 ''method_not_allowed'' message (set_header ''Allow'' allow w)) h, None)"

definition route_request :: "'p handler_env \<Rightarrow> 'p Server \<Rightarrow> inbound_request \<Rightarrow> handler_state \<Rightarrow> handler_outcome" where
  "route_request env s r h =
     (case routeForPath (in_Path r) of
        RouteLive \<Rightarrow>
          if in_Method r \<noteq> ''GET'' then wrong_method ''GET'' ''only GET /health/live is supported'' h
          else (on_writer handleLive h, None)
      | RouteReady \<Rightarrow>
          if in_Method r \<noteq> ''GET'' then wrong_method ''GET'' ''only GET /health/ready is supported'' h
          else (on_writer (handleReady (sv_ready s)) h, None)
      | RouteResponses \<Rightarrow>
          if in_Method r \<noteq> ''POST'' then wrong_method ''POST'' ''only POST /v1/responses is supported'' h
          else handleResponses env s (in_Request r) h
      | RouteUnknown \<Rightarrow> (on_writer (writeJSONError 404 ''not_found'' ''route not found'') h, None))"

end
