(* ===== verification/Session_Ends.thy ===== *)
theory Session_Ends
  imports Stream_Session_Inv
begin

text \<open>
  What an operation of a stream session that returns an error leaves: a session that has ended, by its terminal
  event or by a failed write. The identifiers come from the session's own generator and are valid.
\<close>

definition valid_ids :: "StreamEnv \<Rightarrow> bool" where
  "valid_ids env \<longleftrightarrow> (\<forall>k p i. validStreamValue (en_id env k p i) 128)"

abbreviation ids_ok :: "StreamSession \<Rightarrow> bool" where
  "ids_ok s \<equiv> valid_ids (ss_env s)"

abbreviation closes_on_error :: "(StreamErrorCode, 'a, StreamSession) go \<Rightarrow> bool" where
  "closes_on_error m \<equiv> yields m (\<lambda>_. ids_ok) (\<lambda>_ t. \<not> live t)"

named_theorems closing_intro \<open>operations that end the session when they fail\<close>

lemma writeEvent_ends:
  "P (ss_TerminalEmitted s) (ss_env s) \<Longrightarrow>
     yields (writeEventLocked t b s) (\<lambda>_ t. P (ss_TerminalEmitted t) (ss_env t)) (\<lambda>_ t. \<not> live t)"
  by (auto simp: writeEventLocked_def recordWriteFailureLocked_def live_def Let_def split: option.split prod.split)

lemma writeEvent_closing [closing_intro]: "ids_ok s \<Longrightarrow> closes_on_error (writeEventLocked t b s)"
  using writeEvent_ends [of "\<lambda>_. valid_ids"] .

lemma startLocked_ends:
  assumes "P (ss_TerminalEmitted s) (ss_env s)"
  shows "yields (startLocked s) (\<lambda>_ t. P (ss_TerminalEmitted t) (ss_env t)) (\<lambda>_ t. \<not> live t)"
  unfolding startLocked_def Let_def
  by (rule yields_bind [OF writeEvent_ends [of P]]) (use assms in \<open>auto simp: send_headers_def intro: writeEvent_ends [of P]\<close>)

lemma startLocked_closing [closing_intro]: "ids_ok s \<Longrightarrow> closes_on_error (startLocked s)"
  using startLocked_ends [of "\<lambda>_. valid_ids"] .

lemma ensureStarted_closing [closing_intro]: "ids_ok s \<Longrightarrow> closes_on_error (ensureStartedLocked s)"
  by (simp add: ensureStartedLocked_def startLocked_closing)

lemma writeTerminal_ends:
  "ss_TerminalEmitted s \<Longrightarrow> yields (writeTerminalLocked status err reason s) (\<lambda>_ t. \<not> live t) (\<lambda>_ t. \<not> live t)"
  unfolding writeTerminalLocked_def Let_def
  by (rule yields_mono [OF writeEvent_ends [of "\<lambda>b _. b"]]) (auto simp: live_def note_terminal_def Let_def)

lemma invalidTransition_closing [closing_intro]:
  assumes "ids_ok s"
  shows "yields (invalidTransitionLocked s) Q (\<lambda>_ t. \<not> live t)"
proof -
  have "yields (go_bind (ensureStartedLocked s) (\<lambda>_ s. go_bind (writeTerminalLocked status err reason (s\<lparr>ss_TerminalEmitted := True\<rparr>))
      (\<lambda>_ s. (Inl e, s)))) Q (\<lambda>_ t. \<not> live t)" for status err reason e
    by (intro yields_bind [OF ensureStarted_closing [OF assms]] yields_bind [OF writeTerminal_ends]) simp_all
  then show ?thesis by (auto simp: invalidTransitionLocked_def live_def split: option.split)
qed

lemma finishText_closing [closing_intro]: "ids_ok s \<Longrightarrow> closes_on_error (finishTextItemLocked i status s)"
  unfolding finishTextItemLocked_def Let_def
  by (auto intro!: yields_bind [OF writeEvent_closing] writeEvent_closing)

lemma finishTool_closing [closing_intro]: "ids_ok s \<Longrightarrow> closes_on_error (finishToolItemLocked i status s)"
  unfolding finishToolItemLocked_def Let_def
  by (auto intro!: yields_bind [OF writeEvent_closing] writeEvent_closing)

lemma finishItems_closing [closing_intro]: "ids_ok s \<Longrightarrow> closes_on_error (finishItemsLocked status req s)"
  unfolding finishItemsLocked_def
  by (rule yields_for) (auto simp: finish_item_def Let_def intro: closing_intro)

lemma limit_closing [closing_intro]:
  assumes "ids_ok s"
  shows "yields (limitLocked s) Q (\<lambda>_ t. \<not> live t)"
proof -
  have "yields (go_bind (ensureStartedLocked s) (\<lambda>_ s. go_bind (finishItemsLocked ''incomplete'' False s)
      (\<lambda>_ s. go_bind (writeTerminalLocked status err reason (s\<lparr>ss_TerminalEmitted := True\<rparr>))
      (\<lambda>_ s. (Inl e, s))))) Q (\<lambda>_ t. \<not> live t)" for status err reason e
    by (intro yields_bind [OF ensureStarted_closing [OF assms]] yields_bind [OF finishItems_closing] yields_bind [OF writeTerminal_ends]) simp_all
  then show ?thesis by (auto simp: limitLocked_def live_def split: option.split)
qed

lemma reserve_closing [closing_intro]: "ids_ok s \<Longrightarrow> closes_on_error (reserve_or_limit n s)"
  by (auto simp: reserve_or_limit_def reserveAggregateLocked_def intro: limit_closing)

lemma write_item_closing [closing_intro]: "ids_ok s \<Longrightarrow> closes_on_error (write_item_added i s)"
  unfolding write_item_added_def by (rule writeEvent_closing)

lemma newItem_closing [closing_intro]: "ids_ok s \<Longrightarrow> closes_on_error (newItemLocked key p itemType kind s)"
  unfolding newItemLocked_def next_id_def Let_def
  by (auto simp: valid_ids_def intro!: yields_bind [OF reserve_closing])

lemma newText_closing [closing_intro]: "ids_ok s \<Longrightarrow> closes_on_error (newTextItemLocked key s)"
  unfolding newTextItemLocked_def
  by (intro yields_bind [OF newItem_closing] yields_bind [OF write_item_closing] yields_bind [OF writeEvent_closing]) simp_all

lemma append_text_closing [closing_intro]: "ids_ok s \<Longrightarrow> closes_on_error (append_text i t s)"
  unfolding append_text_def Let_def by (rule writeEvent_closing) simp

lemma text_for_item_closing [closing_intro]: "ids_ok s \<Longrightarrow> closes_on_error (text_for_item t i s)"
  unfolding text_for_item_def by (auto intro!: closing_intro yields_bind [OF reserve_closing])

lemma identify_closing [closing_intro]:
  assumes "ids_ok s"
  shows "closes_on_error (identify_tool hook callID name i s)"
  unfolding identify_tool_def next_id_def Let_def
  by (cases "callID = []") (use assms in \<open>auto intro!: closing_intro yields_bind [OF reserve_closing]\<close>)

lemma append_arguments_closing [closing_intro]: "ids_ok s \<Longrightarrow> closes_on_error (append_arguments i t s)"
  unfolding append_arguments_def Let_def by (rule writeEvent_closing) simp

lemma settle_closing [closing_intro]: "ids_ok s \<Longrightarrow> closes_on_error (settle_tool i callID name args s)"
  unfolding settle_tool_def Let_def by (auto intro!: closing_intro)

lemma end_stream_closing:
  "ids_ok s \<Longrightarrow> yields (end_stream itemStatus req status err reason s) (\<lambda>_ t. \<not> live t) (\<lambda>_ t. \<not> live t)"
  unfolding end_stream_def
  by (intro yields_bind [OF ensureStarted_closing] yields_bind [OF finishItems_closing] writeTerminal_ends) simp_all

lemma dispatch_closing:
  assumes "ids_ok s"
  shows "yields (dispatch_event ev s) (\<lambda>_. ids_ok) (\<lambda>_ t. \<not> live t) \<or> terminal_event ev"
proof (cases ev)
  case (ResponseStarted i c m)
  then show ?thesis using assms by (auto simp: responseStartedLocked_def Let_def intro: closing_intro)
next
  case (TextDelta c t)
  then show ?thesis using assms
    by (auto simp: textDeltaLocked_def intro!: closing_intro yields_bind [OF ensureStarted_closing] yields_bind [OF newText_closing] split: option.split)
next
  case (ToolCallStarted k kind c n)
  then show ?thesis using assms
    by (auto simp: toolCallStartedLocked_def Let_def intro!: closing_intro yields_bind [OF ensureStarted_closing] yields_bind [OF newItem_closing]
        split: option.split)
next
  case (ToolCallMetadataDelta k c n)
  then show ?thesis using assms
    by (auto simp: toolCallMetadataLocked_def intro!: closing_intro yields_bind [OF reserve_closing] split: option.split)
next
  case (ToolCallArgumentsDelta k a)
  then show ?thesis using assms
    by (auto simp: toolCallArgumentsLocked_def intro!: closing_intro yields_bind [OF reserve_closing] split: option.split)
next
  case (ToolCallCompleted k kind c n a)
  then show ?thesis using assms
    by (auto simp: toolCallCompletedLocked_def intro!: closing_intro yields_bind [OF reserve_closing] split: option.split)
next
  case (ReasoningDelta c t)
  then show ?thesis using assms
    by (auto simp: reasoningDeltaLocked_def intro!: closing_intro yields_bind [OF ensureStarted_closing] yields_bind [OF reserve_closing])
next
  case (UsageUpdated u)
  then show ?thesis using assms by (auto simp: usageUpdatedLocked_def intro!: yields_bind [OF ensureStarted_closing])
qed simp_all

lemma terminal_closing:
  "ids_ok s \<Longrightarrow> terminal_event ev \<Longrightarrow> yields (dispatch_event ev s) (\<lambda>_ t. \<not> live t) (\<lambda>_ t. \<not> live t)"
  by (cases ev) (simp_all add: completedLocked_def incompleteLocked_def failedLocked_def Let_def end_stream_closing)

lemma session_Handle_closing:
  assumes "ids_ok s"
  shows "yields (session_Handle (Some ev) s) (\<lambda>_ t. live t \<longrightarrow> ids_ok t \<and> \<not> terminal_event ev) (\<lambda>_ t. \<not> live t)"
proof -
  have "yields (dispatch_event ev s) (\<lambda>_ t. live t \<longrightarrow> ids_ok t \<and> \<not> terminal_event ev) (\<lambda>_ t. \<not> live t)"
    using dispatch_closing [OF assms, of ev] terminal_closing [OF assms, of ev]
    by (cases "terminal_event ev") (auto elim: yields_mono)
  then show ?thesis by (auto simp: session_Handle_def live_def split: option.split)
qed

lemma session_Start_closing: "ids_ok s \<Longrightarrow> closes_on_error (session_Start s)"
  using startLocked_closing [of s] invalidTransition_closing [of s "\<lambda>_. ids_ok"]
  by (auto simp: session_Start_def live_def split: option.split)

lemma NewStreamSession_env:
  assumes "NewStreamSession writer env options = Inr s"
  shows "ss_env s = env" "ss_writer s = writer"
proof -
  obtain x m where m: "go_for add_hook (so_CustomTools options) defaultCustomTools = (x, m)" by (rule prod.exhaust)
  then show "ss_env s = env" "ss_writer s = writer"
    using assms by (auto simp: NewStreamSession_def Let_def split: if_splits sum.splits)
qed

end
