(* ===== verification/Server_Props.thy ===== *)
theory Server_Props
  imports Server_Handler Session_Ends
begin

text \<open>
  The composed handler: what a client whose connection holds sees, how long a handler runs, and how each run
  leaves the continuation it was given.
\<close>

section \<open>The steps of the loop\<close>

lemma context_Err_sel [simp]:
  "sw_context (snd (context_Err w)) = sw_context w" "sw_ResponseWriter (snd (context_Err w)) = sw_ResponseWriter w"
  "sw_responseTerminal (snd (context_Err w)) = sw_responseTerminal w"
  by (simp_all add: context_Err_def)

lemma note_terminal_writer [simp]: "sw_context (hs_writer (note_terminal_type t st)) = sw_context (hs_writer st)"
  by (simp add: note_terminal_type_def on_writer_def)

text \<open>The client stays: no look at the context finds it done.\<close>

definition connected :: "'a handler_state_scheme \<Rightarrow> bool" where
  "connected h \<longleftrightarrow> sw_context (hs_writer h) = (\<lambda>_. None)"

lemma connected_canceled [simp]: "connected h \<Longrightarrow> \<not> fst (canceled h)" "connected (snd (canceled h)) = connected h"
  by (simp_all add: connected_def canceled_def context_Err_def Let_def)

lemma connected_ops [simp]:
  "connected (note_terminal_type t st) = connected st" "connected (st\<lparr>st_session := s\<rparr>) = connected st"
  "connected (st\<lparr>st_decoder := d\<rparr>) = connected st" "connected (st\<lparr>st_rounds := n\<rparr>) = connected st"
  "connected (st\<lparr>st_accepted := b\<rparr>) = connected st" "connected (snd (store_op env f st)) = connected st"
  "connected (snd (lease_op env g st)) = connected st"
  for st :: stream_state
  by (simp_all add: connected_def)

definition streaming :: "stream_state \<Rightarrow> bool" where
  "streaming st \<longleftrightarrow> session_ok (st_session st) \<and> (live (st_session st) \<longrightarrow> ids_ok (st_session st)) \<and> connected st"

definition stream_over :: "stream_state \<Rightarrow> bool" where
  "stream_over st \<longleftrightarrow> session_ok (st_session st) \<and> \<not> live (st_session st)"

text \<open>A part of the loop's body either goes on with the stream or leaves it over.\<close>

definition goes_on :: "bool \<times> stream_state \<Rightarrow> bool" where
  "goes_on r \<longleftrightarrow> (if fst r then streaming (snd r) else stream_over (snd r))"

lemma goes_on_simps [simp]: "goes_on (True, st) = streaming st" "goes_on (False, st) = stream_over st"
  by (simp_all add: goes_on_def)

lemma goes_onD: "goes_on r \<Longrightarrow> fst r \<Longrightarrow> streaming (snd r)" "goes_on r \<Longrightarrow> \<not> fst r \<Longrightarrow> stream_over (snd r)"
  by (simp_all add: goes_on_def)

lemma can_fail_live: "can_fail st \<longleftrightarrow> live (st_session st)"
  by (auto simp: can_fail_def live_def)

lemma Handle_terminal_over: "session_ok s \<Longrightarrow> ids_ok s \<Longrightarrow> terminal_event ev \<Longrightarrow> \<not> live (snd (session_Handle (Some ev) s))"
  using session_Handle_closing [of s ev] by (auto simp: yields_def split: sum.splits prod.splits)

lemma fail_stream_over: "streaming st \<Longrightarrow> stream_over (fail_stream code message st)"
  by (auto simp: fail_stream_def stream_over_def streaming_def can_fail_live session_Fail_def session_Handle_ok Handle_terminal_over)

lemma fail_unless_canceled_over: "streaming st \<Longrightarrow> stream_over (fail_unless_canceled code message st)"
proof -
  assume st: "streaming st"
  then have "streaming (snd (canceled st))" by (simp add: streaming_def)
  then show ?thesis using fail_stream_over st by (simp add: fail_unless_canceled_def case_prod_unfold Let_def streaming_def)
qed

lemma streaming_ops:
  "streaming st \<Longrightarrow> streaming (snd (canceled st))" "streaming st \<Longrightarrow> streaming (snd (store_op env f st))"
  "streaming st \<Longrightarrow> streaming (snd (lease_op env g st))" "streaming st \<Longrightarrow> streaming (st\<lparr>st_accepted := b\<rparr>)"
  "streaming st \<Longrightarrow> streaming (st\<lparr>st_decoder := d\<rparr>)" "streaming st \<Longrightarrow> streaming (st\<lparr>st_rounds := n\<rparr>)"
  by (simp_all add: streaming_def)

lemma save_turn_streaming:
  assumes "streaming st"
  shows "goes_on (save_turn env ev st)"
  using assms
  by (auto simp: save_turn_def save_context_def Let_def case_prod_unfold streaming_ops fail_unless_canceled_over
      split: StreamEvent.split option.split sum.split) (simp_all add: streaming_def)

lemma accept_streaming:
  assumes "streaming st"
  shows "goes_on (accept_continuation env ev st)"
  using assms
  by (auto simp: accept_continuation_def commit_lease_def Let_def case_prod_unfold streaming_ops fail_unless_canceled_over
      split: sum.split) (simp_all add: streaming_def)

lemma Handle_streaming:
  assumes "streaming st" "session_Handle (Some ev) (st_session st) = (r, s)"
  shows "session_ok s \<and> (case r of Inl _ \<Rightarrow> \<not> live s | Inr _ \<Rightarrow> streaming (st\<lparr>st_session := s\<rparr>))"
proof -
  have ok: "session_ok s" using session_Handle_ok [of "st_session st" "Some ev"] assms by (simp add: streaming_def)
  show ?thesis
  proof (cases "live (st_session st)")
    case True
    then show ?thesis using session_Handle_closing [of "st_session st" ev] assms ok by (auto simp: streaming_def split: sum.split)
  next
    case False
    then have "\<exists>e. (r, s) = (Inl e, st_session st)" using assms(2) by (auto simp: session_Handle_def live_def split: option.splits)
    then show ?thesis using False ok by auto
  qed
qed

lemma deliver_streaming:
  assumes "streaming st"
  shows "goes_on (deliver env ev st)"
proof -
  obtain r s where h: "session_Handle (Some ev) (st_session st) = (r, s)" by (rule prod.exhaust)
  note s = Handle_streaming [OF assms h]
  show ?thesis
  proof (cases r)
    case (Inl e)
    then show ?thesis using s h by (simp add: deliver_def stream_over_def)
  next
    case (Inr u)
    define a where "a = accept_continuation env ev (st\<lparr>st_session := s\<rparr>)"
    have "streaming (st\<lparr>st_session := s\<rparr>)" using s Inr by simp
    from accept_streaming [OF this, of env ev] have a: "goes_on a" by (simp add: a_def)
    moreover have "stream_over (note_terminal_type t (snd a))" if "streaming (snd a)" "ss_TerminalEmitted (st_session (snd a))" for t
      using that by (simp add: stream_over_def streaming_def live_def)
    ultimately show ?thesis using Inr h by (auto simp: deliver_def Let_def case_prod_unfold a_def [symmetric] dest: goes_onD)
  qed
qed

lemma round_streaming:
  assumes st: "streaming st" and reason: "he_reason env (st_rounds st) \<in> {[], streamAbortTimeout}"
  shows "goes_on (stream_round env event st)"
proof -
  let ?u = "st\<lparr>st_rounds := st_rounds st + 1\<rparr>"
  let ?v = "snd (canceled ?u)"
  have u: "streaming ?u" using st by (rule streaming_ops)
  then have v: "streaming ?v" "\<not> fst (canceled ?u)" by (rule streaming_ops) (use u in \<open>simp add: streaming_def\<close>)
  show ?thesis
  proof (cases "he_reason env (st_rounds st) = []")
    case False
    then have t: "he_reason env (st_rounds st) = streamAbortTimeout" using reason by simp
    show ?thesis
    proof (cases "live (st_session st)")
      case True
      then show ?thesis using False t fail_unless_canceled_over [OF u] by (simp add: stream_round_def Let_def can_fail_live)
    next
      case dead: False
      then show ?thesis using False t st by (simp add: stream_round_def Let_def can_fail_live stream_over_def streaming_def)
    qed
  next
    case True
    show ?thesis
    proof (cases event)
      case None
      then show ?thesis using True v fail_stream_over [OF v(1)]
        by (simp add: stream_round_def Let_def case_prod_unfold) (simp add: stream_over_def streaming_def live_def)
    next
      case (Some ev)
      let ?t = "save_turn env ev ?v"
      have t: "goes_on ?t" by (rule save_turn_streaming [OF v(1)])
      have over: "ss_writeFailure (st_session st) \<noteq> None \<Longrightarrow> stream_over ?v" using v(1) by (simp add: stream_over_def streaming_def live_def)
      show ?thesis using True Some v(2) over deliver_streaming [of "snd ?t" env ev] goes_onD [OF t]
        by (simp add: stream_round_def Let_def case_prod_unfold)
    qed
  qed
qed

lemma loop_streaming:
  assumes "streaming st" "\<forall>k. he_reason env k \<in> {[], streamAbortTimeout}"
  shows "stream_over (responses_loop env p st)"
  using assms(1)
proof (rule responses_loop_rule)
  fix st p event p' d go_on t
  assume "streaming st" "stream_round env event (st\<lparr>st_decoder := d\<rparr>) = (go_on, t)"
  then show "if go_on then streaming t else stream_over t"
    using round_streaming [of "st\<lparr>st_decoder := d\<rparr>" env event] assms(2) by (cases go_on) (simp_all add: streaming_ops)
qed

section \<open>From the request to the stream\<close>

text \<open>Up to the stream, a handler only looks at the context, and begins the continuation.\<close>

definition same_but_looks :: "statusWriter \<Rightarrow> statusWriter \<Rightarrow> bool" where
  "same_but_looks w v \<longleftrightarrow> (\<exists>n. v = w\<lparr>sw_tick := n\<rparr>)"

lemma same_looks [simp]: "same_but_looks w w" "same_but_looks w (snd (context_Err v)) = same_but_looks w v"
proof -
  show "same_but_looks w w" unfolding same_but_looks_def by (rule exI [of _ "sw_tick w"]) simp
  show "same_but_looks w (snd (context_Err v)) = same_but_looks w v"
  proof
    assume "same_but_looks w v"
    then show "same_but_looks w (snd (context_Err v))" by (auto simp: same_but_looks_def context_Err_def)
  next
    assume "same_but_looks w (snd (context_Err v))"
    then obtain n where n: "v\<lparr>sw_tick := sw_tick v + 1\<rparr> = w\<lparr>sw_tick := n\<rparr>" by (auto simp: same_but_looks_def context_Err_def)
    have "v = (v\<lparr>sw_tick := sw_tick v + 1\<rparr>)\<lparr>sw_tick := sw_tick v\<rparr>" by simp
    also have "\<dots> = w\<lparr>sw_tick := sw_tick v\<rparr>" by (simp only: n) simp
    finally show "same_but_looks w v" by (auto simp: same_but_looks_def)
  qed
qed

lemma canceled_writer [simp]: "hs_writer (snd (canceled h)) = snd (context_Err (hs_writer h))"
  by (simp add: canceled_def case_prod_unfold Let_def)

lemma same_looksD:
  assumes "same_but_looks w v"
  shows "sw_context v = sw_context w" "sw_ResponseWriter v = sw_ResponseWriter w"
  using assms by (auto simp: same_but_looks_def)

lemma begin_lease_writer [simp]: "hs_writer (snd (begin_lease env results h)) = hs_writer h"
  by (simp add: begin_lease_def store_op_def case_prod_unfold Let_def)

lemma run_request_stream:
  assumes "run_request env s request h = (h', Some st)"
  obtains body upstreamModel where "stream_response env (sv_config s) request upstreamModel body h = (h', Some st)"
  using assms by (auto simp: run_request_def Let_def split: option.splits sum.splits)

text \<open>A handler that came to a stream ran \<open>stream_response\<close>, on the state it got or behind a lease that was granted.\<close>

lemma handleResponses_stream:
  assumes "handleResponses env s q h = (h', Some st)"
  obtains (fresh) request upstreamModel body h1 where
      "same_but_looks (hs_writer h) (hs_writer h1)" "hs_lease h1 = hs_lease h" "hs_store h1 = hs_store h"
      "stream_response env (sv_config s) request upstreamModel body h1 = (h', Some st)"
  | (continued) request upstreamModel body results lease h1 h2 h3 where
      "same_but_looks (hs_writer h) (hs_writer h1)" "hs_store h1 = hs_store h" "hs_ops h1 = hs_ops h"
      "begin_lease env results h1 = (Inr lease, h2)" "results \<noteq> []"
      "stream_response env (sv_config s) request upstreamModel body (h2\<lparr>hs_lease := Some lease\<rparr>) = (h3, Some st)"
      "h' = abort_lease env h3"
proof -
  define h1 where "h1 = snd (canceled (snd (canceled h)))"
  have h1: "same_but_looks (hs_writer h) (hs_writer h1)" "hs_lease h1 = hs_lease h" "hs_store h1 = hs_store h" "hs_ops h1 = hs_ops h"
    by (simp_all add: h1_def)
  obtain request results where c: "continue_request env s request results h1 = (h', Some st)"
    using assms by (auto simp: handleResponses_def Let_def case_prod_unfold h1_def split: option.splits sum.splits if_splits)
  show thesis
  proof (cases "results = []")
    case True
    then have "run_request env s request h1 = (h', Some st)" using c by (simp add: continue_request_def)
    then show thesis by (rule run_request_stream) (rule fresh [OF h1(1-3)])
  next
    case False
    then obtain lease h2 h3 where b: "begin_lease env results h1 = (Inr lease, h2)"
      and r: "run_request env s (request\<lparr>rq_Continuation := NewContinuationRequest (Some lease)\<rparr>) (h2\<lparr>hs_lease := Some lease\<rparr>) = (h3, Some st)"
      and h': "h' = abort_lease env h3"
      using c by (auto simp: continue_request_def Let_def split: prod.splits sum.splits)
    from r show thesis by (rule run_request_stream) (rule continued [OF h1(1,3,4) b False _ h'])
  qed
qed

text \<open>Either the session could not be started, or the loop ran.\<close>

lemma stream_response_stream:
  assumes "stream_response env c request um body h = (h', Some st)"
  obtains session session' h1 where
    "NewStreamSession (sw_ResponseWriter (hs_writer h)) (he_stream env) (stream_options c um) = Inr session"
    "sw_context (hs_writer h1) = sw_context (hs_writer h)" "sw_responseTerminal (hs_writer h1) = sw_responseTerminal (hs_writer h)"
    "hs_lease h1 = hs_lease h" "hs_store h1 = hs_store h" "hs_ops h1 = hs_ops h"
    "h' = fst (end_of_stream st)"
    "(\<exists>e. session_Start session = (Inl e, session')) \<and> st = start_state c request session' h1
     \<or> session_Start session = (Inr (), session') \<and> st = responses_loop env body (start_state c request session' h1)"
proof -
  obtain session where n: "NewStreamSession (sw_ResponseWriter (hs_writer h)) (he_stream env) (stream_options c um) = Inr session"
    using assms by (auto simp: stream_response_def split: sum.splits)
  define h1 where "h1 = snd (canceled (on_writer (\<lambda>w. w\<lparr>sw_responseID := ss_ResponseID session, sw_responseModel := ss_Model session\<rparr>) h))"
  have h1: "sw_context (hs_writer h1) = sw_context (hs_writer h)" "sw_responseTerminal (hs_writer h1) = sw_responseTerminal (hs_writer h)"
    "hs_lease h1 = hs_lease h" "hs_store h1 = hs_store h" "hs_ops h1 = hs_ops h"
    by (simp_all add: h1_def on_writer_def)
  obtain r session' where r: "session_Start session = (r, session')" by (rule prod.exhaust)
  have e: "(h', Some st) = end_of_stream (case r of Inl _ \<Rightarrow> start_state c request session' h1
      | Inr _ \<Rightarrow> responses_loop env body (start_state c request session' h1))"
    using assms n r by (auto simp: stream_response_def Let_def case_prod_unfold h1_def split: if_splits sum.splits)
  then have st: "st = (case r of Inl _ \<Rightarrow> start_state c request session' h1 | Inr _ \<Rightarrow> responses_loop env body (start_state c request session' h1))"
    by (simp add: end_of_stream_def)
  have "h' = fst (end_of_stream st)" using e st by (metis fst_conv)
  then show thesis by (rule that [OF n h1]) (use r st in \<open>auto split: sum.splits\<close>)
qed

lemma stream_start_sel [simp]:
  "st_session (start_state c request session h) = session" "hs_writer (start_state c request session h) = hs_writer h"
  "hs_lease (start_state c request session h) = hs_lease h" "hs_store (start_state c request session h) = hs_store h"
  "hs_ops (start_state c request session h) = hs_ops h" "st_accepted (start_state c request session h) = (hs_lease h = None)"
  "st_rounds (start_state c request session h) = 0"
  "st_decoder (start_state c request session h) = NewBridgeStreamDecoder (decoder_options c request)"
  by (simp_all add: start_state_def handler_state.extend_def)

definition fresh_writer :: "statusWriter \<Rightarrow> bool" where
  "fresh_writer w \<longleftrightarrow> rw_frames (sw_ResponseWriter w) = [] \<and> rw_status (sw_ResponseWriter w) = []"

lemma stream_response_over:
  assumes "stream_response env c request um body h = (h', Some st)"
    and "fresh_writer (hs_writer h)" "connected h" "valid_ids (he_stream env)" "\<forall>k. he_reason env k \<in> {[], streamAbortTimeout}"
  shows "stream_over st"
  using assms(1)
proof (rule stream_response_stream)
  fix session session' h1
  assume n: "NewStreamSession (sw_ResponseWriter (hs_writer h)) (he_stream env) (stream_options c um) = Inr session"
    and ctx: "sw_context (hs_writer h1) = sw_context (hs_writer h)"
    and run: "(\<exists>e. session_Start session = (Inl e, session')) \<and> st = start_state c request session' h1
     \<or> session_Start session = (Inr (), session') \<and> st = responses_loop env body (start_state c request session' h1)"
  have start: "session_start session"
    unfolding session_start_def using assms(2)
    by (intro exI [of _ "sw_ResponseWriter (hs_writer h)"] exI [of _ "he_stream env"] exI [of _ "stream_options c um"])
      (simp add: n fresh_writer_def, simp add: stream_options_def)
  have ok: "session_ok session'" using session_Start_ok [OF NewStreamSession_ok [OF start]] run by auto
  have "ss_env session = he_stream env" by (rule NewStreamSession_env [OF n])
  then have ids: "closes_on_error (session_Start session)" using assms(4) by (simp add: session_Start_closing)
  from run show ?thesis
  proof (elim disjE conjE exE)
    fix e assume "session_Start session = (Inl e, session')" "st = start_state c request session' h1"
    then show ?thesis using ids ok by (simp add: stream_over_def)
  next
    assume s: "session_Start session = (Inr (), session')" and st: "st = responses_loop env body (start_state c request session' h1)"
    have "streaming (start_state c request session' h1)" using ids ok s ctx assms(3) by (simp add: streaming_def connected_def)
    then show ?thesis unfolding st by (rule loop_streaming [OF _ assms(5)])
  qed
qed

text \<open>
  C1: A client that stays connected sees the stream end, whatever the provider sends, however other requests use the
  store, and however the watcher's idle timeout falls: if no write failed, the last frame is a terminal one, and it
  is the only one.
\<close>

theorem connected_client_sees_end:
  assumes "handleResponses env s q h = (h', Some st)"
    and "fresh_writer (hs_writer h)" "connected h" "valid_ids (he_stream env)" "\<forall>k. he_reason env k \<in> {[], streamAbortTimeout}"
    and "ss_writeFailure (st_session st) = None"
  shows "frames (st_session st) \<noteq> [] \<and> ev_type (last (frames (st_session st))) \<in> set terminal_types
    \<and> (\<forall>p \<in> set (butlast (frames (st_session st))). ev_type p \<notin> set terminal_types)"
proof -
  have "stream_over st"
    using assms(1)
  proof (rule handleResponses_stream)
    fix request um body h1
    assume "same_but_looks (hs_writer h) (hs_writer h1)" "stream_response env (sv_config s) request um body h1 = (h', Some st)"
    then show ?thesis using stream_response_over [OF _ _ _ assms(4,5)] assms(2,3) same_looksD
      by (simp add: fresh_writer_def connected_def)
  next
    fix request um body results lease h1 h2 h3
    assume l: "same_but_looks (hs_writer h) (hs_writer h1)" and b: "begin_lease env results h1 = (Inr lease, h2)"
      and r: "stream_response env (sv_config s) request um body (h2\<lparr>hs_lease := Some lease\<rparr>) = (h3, Some st)"
    have "hs_writer h2 = hs_writer h1" using begin_lease_writer [of env results h1] b by simp
    then show ?thesis using stream_response_over [OF r _ _ assms(4,5)] assms(2,3) same_looksD [OF l]
      by (simp add: fresh_writer_def connected_def)
  qed
  then show ?thesis using assms(6) by (auto simp: stream_over_def session_ok_def session_inv_def order_ok_def live_def)
qed

section \<open>How long a handler runs\<close>

lemma loop_rounds: "64 * st_rounds (responses_loop env p st) \<le> 64 * st_rounds st + bd_left (st_decoder st) + 64"
proof (rule responses_loop_rule [where I = "\<lambda>t. 64 * st_rounds t + bd_left (st_decoder t) \<le> 64 * st_rounds st + bd_left (st_decoder st)"])
  fix u :: stream_state and p event p' d go_on t
  assume n: "bridge_Next (he_next env) p (st_decoder u) = (event, p', d)"
    and u: "64 * st_rounds u + bd_left (st_decoder u) \<le> 64 * st_rounds st + bd_left (st_decoder st)"
    and r: "stream_round env event (u\<lparr>st_decoder := d\<rparr>) = (go_on, t)"
  have t: "st_decoder t = d" "st_rounds t = st_rounds u + 1"
    using stream_round_sel [of env event "u\<lparr>st_decoder := d\<rparr>"] unfolding r by simp_all
  have "event \<noteq> None" if go_on using stream_round_eof [of env "u\<lparr>st_decoder := d\<rparr>"] r that by (cases event) auto
  then show "if go_on then 64 * st_rounds t + bd_left (st_decoder t) \<le> 64 * st_rounds st + bd_left (st_decoder st)
      else 64 * st_rounds t \<le> 64 * st_rounds st + bd_left (st_decoder st) + 64"
    using bridge_Next_left [OF n] u t by (cases go_on; cases event) simp_all
qed simp

text \<open>
  C15: A handler returns: whatever the provider sends, and even if it never stops sending, the loop calls the
  decoder at most once for each 64 bytes of the stream's budget and twice more.
\<close>

theorem handler_returns:
  assumes "handleResponses env s q h = (h', Some st)"
  shows "int (st_rounds st) \<le> positive_or (MaxSSEBufferedBytes (sv_config s)) DefaultStreamMaxAggregateBytes div 64 + 2"
proof -
  define m where "m = positive_or (MaxSSEBufferedBytes (sv_config s)) DefaultStreamMaxAggregateBytes"
  have "int (st_rounds st) \<le> m div 64 + 2" if run: "stream_response env (sv_config s) request um body h1 = (h2, Some st)" for request um body h1 h2
    using run
  proof (rule stream_response_stream)
    fix session session' h4
    let ?st = "start_state (sv_config s) request session' h4"
    assume st: "(\<exists>e. session_Start session = (Inl e, session')) \<and> st = ?st
      \<or> session_Start session = (Inr (), session') \<and> st = responses_loop env body ?st"
    have m: "m = MaxAggregateBytes (withDefaults (bo_SSE (decoder_options (sv_config s) request)))" "0 \<le> m"
      by (simp_all add: m_def positive_or_def decoder_options_def withDefaults_def DefaultStreamMaxAggregateBytes_def Let_def)
    have "bd_left (st_decoder ?st) = nat m + 64"
      by (simp add: bd_left_def NewBridgeStreamDecoder_def Let_def m)
    then have "64 * int (st_rounds st) \<le> m + 128" using st loop_rounds [of env body ?st] m(2) by auto
    then show ?thesis by linarith
  qed
  note bound = this
  from assms show ?thesis unfolding m_def [symmetric]
    by (rule handleResponses_stream) (erule bound)+
qed

section \<open>The lease\<close>

lemma finishContext_done: "cl_done (fst (snd (finishContext Background now commit lease s)))"
  by (simp add: finishContext_def Background_def Let_def)

lemma abort_lease_done: "hs_lease (abort_lease env h) = Some l \<Longrightarrow> cl_done l"
  by (auto simp: abort_lease_def lease_op_def store_op_def lease_Abort_def case_prod_unfold Let_def finishContext_done
      split: option.splits if_splits)

lemma lease_op_None [simp]: "hs_lease (snd (lease_op env f h)) = None \<longleftrightarrow> hs_lease h = None"
  by (auto simp: lease_op_def case_prod_unfold Let_def split: option.split)

lemma accept_lease [simp]: "hs_lease (snd (accept_continuation env ev st)) = None \<longleftrightarrow> hs_lease st = None"
  by (auto simp: accept_continuation_def commit_lease_def Let_def case_prod_unfold split: sum.split)

lemma deliver_lease [simp]: "hs_lease (snd (deliver env ev st)) = None \<longleftrightarrow> hs_lease st = None"
  by (simp add: deliver_def Let_def case_prod_unfold split: sum.split)

lemma stream_round_lease [simp]: "hs_lease (snd (stream_round env event st)) = None \<longleftrightarrow> hs_lease st = None"
  by (simp add: stream_round_def Let_def case_prod_unfold split: option.split)

lemma loop_lease: "hs_lease (responses_loop env p st) = None \<longleftrightarrow> hs_lease st = None"
proof (rule responses_loop_rule [where I = "\<lambda>t. hs_lease t = None \<longleftrightarrow> hs_lease st = None"])
  fix u :: stream_state and p event p' d go_on t
  assume "stream_round env event (u\<lparr>st_decoder := d\<rparr>) = (go_on, t)" "hs_lease u = None \<longleftrightarrow> hs_lease st = None"
  then have "hs_lease t = None \<longleftrightarrow> hs_lease st = None" using stream_round_lease [of env event "u\<lparr>st_decoder := d\<rparr>"] by simp
  then show "if go_on then hs_lease t = None \<longleftrightarrow> hs_lease st = None else hs_lease t = None \<longleftrightarrow> hs_lease st = None" by simp
qed simp

lemma on_writer_sel [simp]:
  "hs_lease (on_writer f h) = hs_lease h" "hs_store (on_writer f h) = hs_store h" "hs_ops (on_writer f h) = hs_ops h"
  "hs_writer (on_writer f h) = f (hs_writer h)"
  by (simp_all add: on_writer_def)

lemma end_of_stream_sel [simp]:
  "hs_lease (fst (end_of_stream st)) = hs_lease st" "hs_store (fst (end_of_stream st)) = hs_store st"
  "hs_ops (fst (end_of_stream st)) = hs_ops st" "snd (end_of_stream st) = Some st"
  by (simp_all add: end_of_stream_def handler_state.truncate_def)

lemma stream_response_lease: "hs_lease (fst (stream_response env c request um body h)) = None \<longleftrightarrow> hs_lease h = None"
  by (simp add: stream_response_def Let_def case_prod_unfold loop_lease split: sum.split)

lemma run_request_lease: "hs_lease (fst (run_request env s request h)) = None \<longleftrightarrow> hs_lease h = None"
  by (auto simp: run_request_def fail_upstream_def Let_def case_prod_unfold stream_response_lease split: option.split sum.split)

text \<open>A handler that holds a lease when it returns was granted it, ran the request, and aborted it.\<close>

lemma handleResponses_continued:
  assumes "handleResponses env s q h = (h', stream)" "hs_lease h = None" "hs_lease h' \<noteq> None"
  obtains request results lease h1 h2 h3 where
    "same_but_looks (hs_writer h) (hs_writer h1)" "hs_store h1 = hs_store h" "hs_ops h1 = hs_ops h"
    "begin_lease env results h1 = (Inr lease, h2)" "results \<noteq> []"
    "run_request env s request (h2\<lparr>hs_lease := Some lease\<rparr>) = (h3, stream)" "h' = abort_lease env h3"
proof -
  define h1 where "h1 = snd (canceled (snd (canceled h)))"
  have h1: "same_but_looks (hs_writer h) (hs_writer h1)" "hs_lease h1 = None" "hs_store h1 = hs_store h" "hs_ops h1 = hs_ops h"
    using assms(2) by (simp_all add: h1_def)
  have rej: "hs_lease (reject_body env c err (snd (canceled h))) = None" for c err
    using assms(2) by (simp add: reject_body_def requestDecodeWasCanceled_def Let_def case_prod_unfold)
  obtain request results where c: "continue_request env s request results h1 = (h', stream)"
    using assms rej by (auto simp: handleResponses_def Let_def case_prod_unfold h1_def split: if_splits option.splits sum.splits)
  have ne: "results \<noteq> []"
    using c h1(2) assms(3) run_request_lease [of env s request h1] by (auto simp: continue_request_def)
  have b: "hs_lease (snd (begin_lease env results h1)) = None" using h1(2) by (simp add: begin_lease_def store_op_def case_prod_unfold Let_def)
  obtain x h2 where bl: "begin_lease env results h1 = (x, h2)" by (rule prod.exhaust)
  obtain lease where x: "x = Inr lease" using c ne b bl assms(3) by (cases x) (auto simp: continue_request_def)
  obtain h3 y where r: "run_request env s (request\<lparr>rq_Continuation := NewContinuationRequest (Some lease)\<rparr>) (h2\<lparr>hs_lease := Some lease\<rparr>) = (h3, y)"
    by (rule prod.exhaust)
  have "h' = abort_lease env h3" "y = stream" using c ne bl x r by (auto simp: continue_request_def Let_def)
  then show thesis using that [OF h1(1,3,4) bl [unfolded x] ne] r by blast
qed

text \<open>
  C4: No run of the handler keeps a continuation: whatever happened, and whatever other requests did to the store,
  the lease it was granted is finished when it returns.
\<close>

theorem lease_settled:
  assumes "handleResponses env s q h = (h', stream)" "hs_lease h = None" "hs_lease h' = Some lease"
  shows "cl_done lease"
  using assms(1,2)
  by (rule handleResponses_continued) (use assms(3) abort_lease_done in \<open>auto simp del: split_paired_Ex\<close>)

end
