(* ===== verification/Continuation_Live.thy ===== *)
theory Continuation_Live
  imports Continuation_Inv
begin

text \<open>
  What the operations of the continuation store leave of a live record, and that results which answer a pending
  record are granted.
\<close>

text \<open>Saving never costs another turn its place: a live record is still in the store afterwards, unchanged.\<close>

lemma SaveContext_live:
  assumes inv: "store_inv s" and s: "live now s a"
  shows "live now (snd (SaveContext order ctx now turn s)) a
    \<and> cs_heap (snd (SaveContext order ctx now turn s)) ! a = cs_heap s ! a"
proof -
  define u where "u = cleanupLocked order now s"
  have u: "live now u a" "cs_heap u ! a = cs_heap s ! a" "store_inv u"
    using cleanupLocked_live [OF inv s, of order] cleanupLocked_inv [OF inv] by (simp_all add: u_def)
  have ins: "live now (insert_record t sz u) a \<and> cs_heap (insert_record t sz u) ! a = cs_heap u ! a"
    if fresh: "\<not> list_ex (\<lambda>i. map_of (cs_byCallID u) i \<noteq> None) (turn_ids t)" "pt_ToolCalls t \<noteq> []" for t sz
  proof -
    have "map_of (cs_records u) (hd (turn_ids t)) = None"
      using fresh by (intro fresh_key [OF u(3)]) (auto simp: list_ex_iff hd_map)
    then show ?thesis using u(1) insert_record_old [of a u t sz]
      by (auto simp: live_def in_store_def insert_record_sel(1,2))
  qed
  show ?thesis
    using s u(1,2) ins normalizePendingTurn_ok(1) [of turn now]
    by (auto simp: SaveContext_def Let_def u_def [symmetric] split: option.splits sum.splits)
qed

theorem Save_keeps_live:
  assumes "reachable cont_start cont_step y" "live now (sy_store y) a"
  shows "live now (snd (SaveContext order ctx now turn (sy_store y))) a
    \<and> cs_heap (snd (SaveContext order ctx now turn (sy_store y))) ! a = cs_heap (sy_store y) ! a"
  using SaveContext_live [OF _ assms(2)] continuation.inv_reachable [OF assms(1)] by (simp add: sys_inv_def)

text \<open>Being live at a time is being live before it.\<close>

lemma live_earlier: "live later s a \<Longrightarrow> now \<le> later \<Longrightarrow> live now s a"
  by (simp add: live_def)

lemma live_same: "live now t a \<Longrightarrow> cs_heap t ! a = cs_heap s ! a \<Longrightarrow> live later s a \<Longrightarrow> live later t a"
  by (simp add: live_def in_store_def)

lemma SaveContext_live_until:
  assumes "store_inv s" "live later s a" "now \<le> later"
  shows "live later (snd (SaveContext order ctx now turn s)) a
    \<and> cs_heap (snd (SaveContext order ctx now turn s)) ! a = cs_heap s ! a"
  using SaveContext_live [OF assms(1) live_earlier [OF assms(2,3)]] live_same [OF _ _ assms(2)] by blast

lemma finish_record_live:
  assumes "store_inv s" "live later s a" "b \<noteq> a" "in_store s b"
  shows "live later (finish_record commit now b s) a"
  using assms expireLocked_live [of later s a b now] by (auto simp: finish_record_def set_turn_live)

lemma finishContext_live:
  assumes inv: "store_inv s" and a: "live later s a" and b: "cl_record lease \<noteq> a" "cl_record lease < length (cs_heap s)"
  shows "live later (snd (snd (finishContext ctx now commit lease s))) a
    \<and> cs_heap (snd (snd (finishContext ctx now commit lease s))) ! a = cs_heap s ! a
    \<and> cs_closed (snd (snd (finishContext ctx now commit lease s))) = cs_closed s"
proof -
  obtain r l t where f: "finishContext ctx now commit lease s = (r, (l, t))" by (rule prod_cases3)
  have al: "a < length (cs_heap s)" using a by (simp add: live_def in_store_def)
  from f show ?thesis
  proof (cases rule: finishContext_cases)
    case same
    then show ?thesis using a f by simp
  next
    case expired
    have nc: "\<not> cs_closed s" using f expired(1,3,5) by (auto simp: finishContext_def Let_def split: if_splits option.splits)
    have "in_store s (cl_record lease)" using store_invD(8) [OF inv nc b(2)] expired(6) by simp
    then show ?thesis using expireLocked_live [OF a _ , of "cl_record lease" now] b(1) al f expired(2)
      by (simp add: expireLocked_def Let_def set_turn_nth removeLocked_def)
  next
    case finished
    have "in_store s (cl_record lease)" using store_invD(8) [OF inv finished(6) b(2)] finished(7) by simp
    then show ?thesis using finish_record_live [OF inv a b(1)] finish_record_other [OF al] b(1) f finished(2)
      by (simp add: finish_record_def expireLocked_def Let_def removeLocked_def set_turn_def)
  qed
qed

text \<open>Results that answer a pending, unexpired turn completely are granted.\<close>

lemma Begin_live:
  assumes inv: "store_inv s" and open_store: "\<not> cs_closed s" and a: "live now s a" "status_at s a = PendingStatusPending"
    and m: "mset (map (\<lambda>r. (tr_CallID r, tr_Kind r)) results) = mset (map (\<lambda>c. (uc_CallID c, uc_Kind c)) (pt_ToolCalls (cr_turn (cs_heap s ! a))))"
    and ne: "[] \<notin> set (turn_ids (cr_turn (cs_heap s ! a)))"
  shows "\<exists>l t. Begin order now results s = (Inr l, t) \<and> cl_record l = a"
proof -
  let ?calls = "pt_ToolCalls (cr_turn (cs_heap s ! a))"
  define u where "u = cleanupLocked order now s"
  have u: "live now u a" "cs_heap u ! a = cs_heap s ! a" "store_inv u"
    using cleanupLocked_live [OF inv a(1), of order] cleanupLocked_inv [OF inv] by (simp_all add: u_def)
  have "a < length (cs_heap s)" using a(1) by (simp add: live_def in_store_def)
  then have wf: "?calls \<noteq> []" "distinct (map uc_CallID ?calls)" using store_invD(9) [OF inv] by (simp_all add: record_wf_def)
  have len: "length results = length ?calls" using arg_cong [OF m, of size] by simp
  have ids: "mset (map tr_CallID results) = mset (map uc_CallID ?calls)"
    using arg_cong [OF m, of "image_mset fst"] by (simp add: multiset.map_comp comp_def)
  have d: "distinct (map tr_CallID results)" using ids wf(2) by (metis mset_eq_imp_distinct_iff)
  have set: "set (map tr_CallID results) = set (map uc_CallID ?calls)" using mset_eq_setD [OF ids] .
  have kinds: "(tr_CallID r, tr_Kind r) \<in> (\<lambda>c. (uc_CallID c, uc_Kind c)) ` set ?calls" if "r \<in> set results" for r
    using mset_eq_setD [OF m] that by (metis (no_types, lifting) image_eqI list.set_map)
  have "begin_record now results [] None u = (Inr (Some a), u)"
    using begin_record_live [OF u(3,1), of results "[]" None] d set ne wf(1) len u(2) by auto
  moreover have "check_kinds (fold (\<lambda>c. map_put (uc_CallID c) (uc_Kind c)) ?calls []) results = None"
    unfolding check_kinds_None
  proof
    fix r assume "r \<in> set results"
    from kinds [OF this] obtain c where c: "c \<in> set ?calls" "tr_CallID r = uc_CallID c" "tr_Kind r = uc_Kind c" by auto
    show "map_of (fold (\<lambda>c. map_put (uc_CallID c) (uc_Kind c)) ?calls []) (tr_CallID r) = Some (tr_Kind r)"
      using call_kinds [OF wf(2) c(1), of "[]"] c by simp
  qed
  moreover have "results \<noteq> []" using len wf(1) by auto
  ultimately show ?thesis using open_store a(2) u(2) len
    by (simp add: Begin_def Let_def u_def [symmetric] reserve_record_def)
qed

end
