(* ===== verification/Server_Continuations.thy ===== *)
theory Server_Continuations
  imports Server_Props Continuation_Live
begin

text \<open>
  What a handler run does to the continuation store when no other request uses it in between: a continuation
  the provider did not accept can be submitted again, and a turn that was completed can be continued.
\<close>

definition undisturbed :: "'p handler_env \<Rightarrow> bool" where
  "undisturbed env \<longleftrightarrow> he_others env = (\<lambda>_ s. s)"

text \<open>No other request comes between the operations, which all happen until some time.\<close>

definition quiet :: "'p handler_env \<Rightarrow> gotime \<Rightarrow> bool" where
  "quiet env later \<longleftrightarrow> undisturbed env \<and> (\<forall>k. he_now env k \<le> later)"

lemma quietD: "quiet env later \<Longrightarrow> undisturbed env" "quiet env later \<Longrightarrow> he_now env k \<le> later"
  by (simp_all add: quiet_def)

lemma store_op_undisturbed:
  "undisturbed env \<Longrightarrow> fst (store_op env f h) = fst (f (hs_ops h) (hs_store h)) \<and> hs_store (snd (store_op env f h)) = snd (f (hs_ops h) (hs_store h))
     \<and> hs_lease (snd (store_op env f h)) = hs_lease h \<and> hs_ops (snd (store_op env f h)) = hs_ops h + 1"
  by (simp add: undisturbed_def store_op_def case_prod_unfold Let_def)

section \<open>A lease that is held\<close>

definition held :: "gotime \<Rightarrow> ContinuationLease \<Rightarrow> continuationRecord \<Rightarrow> 'a handler_state_scheme \<Rightarrow> bool" where
  "held later lease r h \<longleftrightarrow> hs_lease h = Some lease \<and> \<not> cl_done lease \<and> store_inv (hs_store h) \<and> \<not> cs_closed (hs_store h)
     \<and> Continuation_Inv.live later (hs_store h) (cl_record lease) \<and> cs_heap (hs_store h) ! cl_record lease = r
     \<and> pt_Status (cr_turn r) = PendingStatusConsuming"

lemma held_cong: "hs_lease g = hs_lease h \<Longrightarrow> hs_store g = hs_store h \<Longrightarrow> held later lease r g = held later lease r h"
  by (simp add: held_def)

lemma save_context_held:
  assumes "held later lease r h" "quiet env later"
  shows "held later lease r (snd (save_context env turn h))"
proof -
  let ?k = "hs_ops h"
  let ?t = "snd (SaveContext (he_order env ?k) (he_ctx env ?k) (he_now env ?k) turn (hs_store h))"
  have "Continuation_Inv.live later ?t (cl_record lease) \<and> cs_heap ?t ! cl_record lease = cs_heap (hs_store h) ! cl_record lease"
    using assms by (intro SaveContext_live_until) (auto simp: held_def quietD)
  moreover have "store_inv ?t" using assms(1) by (simp add: held_def SaveContext_inv)
  moreover have "cs_closed ?t = cs_closed (hs_store h)"
    by (auto simp: SaveContext_def Let_def insert_record_def split: option.splits sum.splits)
  ultimately show ?thesis using assms(1) by (simp add: held_def save_context_def store_op_undisturbed [OF quietD(1) [OF assms(2)]])
qed

text \<open>A commit that fails while the lease is held changed nothing: only the context can have stopped it.\<close>

lemma commit_failed_held:
  assumes "held later lease r h" "quiet env later" "fst (commit_lease env h) = Inl e"
  shows "held later lease r (snd (commit_lease env h))"
proof -
  let ?k = "hs_ops h"
  obtain x l t where f: "finishContext (he_ctx env ?k) (he_now env ?k) True lease (hs_store h) = (x, (l, t))" by (rule prod_cases3)
  have now: "he_now env ?k < pt_ExpiresAt (cr_turn (cs_heap (hs_store h) ! cl_record lease))"
    using assms(1) quietD(2) [OF assms(2), of ?k] by (auto simp: held_def Continuation_Inv.live_def)
  have x: "x = Inl e" using assms(1,3) quietD(1) [OF assms(2)] f
    by (auto simp: commit_lease_def lease_op_def store_op_def undisturbed_def held_def CommitContext_def Let_def)
  have "l = lease \<and> t = hs_store h"
    using f x assms(1) now by (auto simp: finishContext_def held_def Let_def split: option.splits if_splits)
  then show ?thesis using assms(1) quietD(1) [OF assms(2)] f
    by (simp add: commit_lease_def lease_op_def store_op_def undisturbed_def held_def CommitContext_def Let_def)
qed

text \<open>Until the provider accepts the continuation, the lease stays held.\<close>

definition waiting :: "gotime \<Rightarrow> ContinuationLease \<Rightarrow> continuationRecord \<Rightarrow> stream_state \<Rightarrow> bool" where
  "waiting later lease r st \<longleftrightarrow> st_accepted st \<or> held later lease r st"

lemma waiting_cong:
  "st_accepted s = st_accepted t \<Longrightarrow> hs_lease s = hs_lease t \<Longrightarrow> hs_store s = hs_store t \<Longrightarrow>
     waiting later lease r s = waiting later lease r t"
  by (simp add: waiting_def held_def)

lemma waiting_simps [simp]:
  "waiting later lease r (snd (canceled st)) = waiting later lease r st"
  "waiting later lease r (st\<lparr>st_session := s\<rparr>) = waiting later lease r st"
  "waiting later lease r (st\<lparr>st_decoder := d\<rparr>) = waiting later lease r st"
  "waiting later lease r (st\<lparr>st_rounds := n\<rparr>) = waiting later lease r st"
  "waiting later lease r (note_terminal_type t st) = waiting later lease r st"
  "waiting later lease r (fail_stream code message st) = waiting later lease r st"
  "waiting later lease r (fail_unless_canceled code message st) = waiting later lease r st"
  by (rule waiting_cong; simp)+

lemma waiting_save: "quiet env later \<Longrightarrow> waiting later lease r st \<Longrightarrow> waiting later lease r (snd (save_context env turn st))"
  using save_context_held [of later lease r st env turn] by (auto simp: waiting_def save_context_def)

lemma waiting_save_turn: "quiet env later \<Longrightarrow> waiting later lease r st \<Longrightarrow> waiting later lease r (snd (save_turn env ev st))"
  by (auto simp: save_turn_def Let_def case_prod_unfold waiting_save split: StreamEvent.split option.split sum.split)

lemma waiting_accept: "quiet env later \<Longrightarrow> waiting later lease r st \<Longrightarrow> waiting later lease r (snd (accept_continuation env ev st))"
proof -
  assume q: "quiet env later" and st: "waiting later lease r st"
  let ?c = "commit_lease env (snd (canceled st))"
  have "waiting later lease r (snd ?c)" if "fst ?c = Inl e" "\<not> st_accepted st" for e
  proof -
    have "held later lease r (snd (canceled st))" using st that(2) by (simp add: waiting_def held_def)
    from commit_failed_held [OF this q that(1)] show ?thesis by (simp add: waiting_def)
  qed
  then show ?thesis using st
    by (auto simp: accept_continuation_def Let_def case_prod_unfold split: sum.split) (simp add: waiting_def)
qed

lemma waiting_round: "quiet env later \<Longrightarrow> waiting later lease r st \<Longrightarrow> waiting later lease r (snd (stream_round env event st))"
proof -
  have "waiting later lease r (snd (deliver env ev st))" if "quiet env later" "waiting later lease r st" for ev st
    using that waiting_accept [of env later lease r "st\<lparr>st_session := snd (session_Handle (Some ev) (st_session st))\<rparr>" ev]
    by (simp add: deliver_def Let_def case_prod_unfold split: sum.split)
  then show "quiet env later \<Longrightarrow> waiting later lease r st \<Longrightarrow> waiting later lease r (snd (stream_round env event st))"
    by (simp add: stream_round_def Let_def case_prod_unfold waiting_save_turn split: option.split)
qed

lemma waiting_loop:
  assumes q: "quiet env later" and st: "waiting later lease r st"
  shows "waiting later lease r (responses_loop env p st)"
  using st
proof (rule responses_loop_rule)
  fix st :: stream_state and p event p' d go_on t
  assume "waiting later lease r st" "stream_round env event (st\<lparr>st_decoder := d\<rparr>) = (go_on, t)"
  then have "waiting later lease r t" using waiting_round [OF q, of lease r "st\<lparr>st_decoder := d\<rparr>" event] by simp
  then show "if go_on then waiting later lease r t else waiting later lease r t" by simp
qed

lemma run_request_held:
  assumes q: "quiet env later" and h: "held later lease r h" and run: "run_request env s request h = (h', stream)"
    and unaccepted: "case stream of None \<Rightarrow> True | Some st \<Rightarrow> \<not> st_accepted st"
  shows "held later lease r h'"
proof (cases stream)
  case None
  have "snd (end_of_stream st) \<noteq> None" for st by simp
  with run None have "hs_lease h' = hs_lease h \<and> hs_store h' = hs_store h"
    by (auto simp: run_request_def stream_response_def fail_upstream_def Let_def case_prod_unfold split: option.splits sum.splits if_splits
        dest: arg_cong [of _ _ snd])
  then show ?thesis using h held_cong by blast
next
  case (Some st)
  from run have "\<exists>um body. stream_response env (sv_config s) request um body h = (h', Some st)"
    unfolding Some by (rule run_request_stream) blast
  then obtain um body where "stream_response env (sv_config s) request um body h = (h', Some st)" by blast
  then show ?thesis
  proof (rule stream_response_stream)
    fix session session' h1
    let ?st = "start_state (sv_config s) request session' h1"
    assume h1: "hs_lease h1 = hs_lease h" "hs_store h1 = hs_store h" and h': "h' = fst (end_of_stream st)"
      and st: "(\<exists>e. session_Start session = (Inl e, session')) \<and> st = ?st
        \<or> session_Start session = (Inr (), session') \<and> st = responses_loop env body ?st"
    have w: "waiting later lease r ?st" using h h1 by (simp add: waiting_def held_def)
    have "waiting later lease r st" using st w waiting_loop [OF q w] by auto
    then show ?thesis using unaccepted Some by (simp add: waiting_def h' held_def)
  qed
qed

text \<open>What a granted lease finds in the store, and what the abort leaves.\<close>

lemma Begin_held:
  assumes inv: "store_inv s" and b: "Begin order now results s = (Inr lease, t)"
    and h: "hs_lease h = Some lease" "hs_store h = t"
    and later: "later < now + cc_ConsumingLeaseTTL (cs_config s)"
  shows "held later lease (cs_heap t ! cl_record lease) h"
proof -
  define u where "u = cleanupLocked order now s"
  note ok = Begin_ok [OF inv b, folded u_def]
  have t: "store_inv t" using Begin_inv [OF inv, of order now results] b by simp
  have a: "cl_record lease < length (cs_heap u)" using ok(2) by (simp add: in_store_def)
  have "\<not> cs_closed t" using ok(1) by (simp add: ok(5) u_def)
  moreover have "in_store t (cl_record lease)" using ok(2) a by (simp add: ok(5) in_store_def set_turn_nth)
  ultimately show ?thesis using t h ok(6) later a by (simp add: held_def Continuation_Inv.live_def ok(5) set_turn_nth)
qed

lemma Begin_granted:
  assumes inv: "store_inv s" and b: "Begin order now results s = (Inr lease, t)"
  defines "calls \<equiv> pt_ToolCalls (cr_turn (cs_heap t ! cl_record lease))"
  shows "cl_results lease = results" "[] \<notin> set (map tr_CallID results)"
    "mset (map (\<lambda>r. (tr_CallID r, tr_Kind r)) results) = mset (map (\<lambda>c. (uc_CallID c, uc_Kind c)) calls)"
proof -
  define u where "u = cleanupLocked order now s"
  note ok = Begin_ok [OF inv b, folded u_def]
  from b obtain f v where f: "begin_record now results [] None u = (Inr f, v)"
    by (auto simp: Begin_def Let_def u_def go_bind_Inr_iff split: if_splits)
  have "store_inv u" unfolding u_def by (rule cleanupLocked_inv [OF inv])
  from begin_record_ok [OF this f] show "[] \<notin> set (map tr_CallID results)" by blast
  have "cl_record lease < length (cs_heap u)" using ok(2) by (simp add: in_store_def)
  then have "calls = pt_ToolCalls (cr_turn (cs_heap u ! cl_record lease))" by (simp add: calls_def ok(5) set_turn_nth)
  then show "cl_results lease = results"
    "mset (map (\<lambda>r. (tr_CallID r, tr_Kind r)) results) = mset (map (\<lambda>c. (uc_CallID c, uc_Kind c)) calls)"
    using ok(7,9) by simp_all
qed

lemma abort_held:
  assumes q: "quiet env later" and h: "held later lease r h" and later: "later < cr_originalExpiry r"
  defines "s \<equiv> hs_store (abort_lease env h)" and "a \<equiv> cl_record lease"
  shows "store_inv s" "\<not> cs_closed s" "Continuation_Inv.live later s a" "status_at s a = PendingStatusPending"
    "pt_ToolCalls (cr_turn (cs_heap s ! a)) = pt_ToolCalls (cr_turn r)"
    "\<exists>l. hs_lease (abort_lease env h) = Some l \<and> cl_results l = cl_results lease \<and> cl_record l = a"
proof -
  note h' = h [unfolded held_def]
  let ?k = "hs_ops h"
  have al: "a < length (cs_heap (hs_store h))" using h' by (simp add: Continuation_Inv.live_def in_store_def a_def)
  have now: "he_now env ?k < pt_ExpiresAt (cr_turn r)" "he_now env ?k < cr_originalExpiry r"
    using h' later quietD(2) [OF q, of ?k] by (auto simp: Continuation_Inv.live_def)
  have f: "finish_record False (he_now env ?k) a (hs_store h)
      = set_turn a (\<lambda>t. t\<lparr>pt_Status := PendingStatusPending, pt_ExpiresAt := cr_originalExpiry r\<rparr>) (hs_store h)"
    using now(2) h' by (simp add: finish_record_def a_def)
  have fin: "\<exists>l. finishContext Background (he_now env ?k) False lease (hs_store h)
      = (Inr (), (l, finish_record False (he_now env ?k) a (hs_store h))) \<and> cl_results l = cl_results lease \<and> cl_record l = a"
    using h' now(1) by (simp add: finishContext_def Background_def Let_def a_def)
  then have s: "s = finish_record False (he_now env ?k) a (hs_store h)"
    and l: "\<exists>l. hs_lease (abort_lease env h) = Some l \<and> cl_results l = cl_results lease \<and> cl_record l = a"
    using h' quietD(1) [OF q]
    by (auto simp: s_def abort_lease_def lease_op_def store_op_def lease_Abort_def undisturbed_def)
  show "\<exists>l. hs_lease (abort_lease env h) = Some l \<and> cl_results l = cl_results lease \<and> cl_record l = a" by (rule l)
  show "store_inv s" unfolding s
    by (rule finish_record_inv) (use h' in \<open>simp_all add: Continuation_Inv.live_def a_def\<close>)
  show "\<not> cs_closed s" "Continuation_Inv.live later s a" "status_at s a = PendingStatusPending"
    "pt_ToolCalls (cr_turn (cs_heap s ! a)) = pt_ToolCalls (cr_turn r)"
    unfolding s f using h' al later by (auto simp: Continuation_Inv.live_def in_store_def set_turn_nth a_def)
qed

text \<open>The abort changes neither which lease it is nor until when the turn was retained.\<close>

lemma abort_kept:
  assumes q: "quiet env later" and h: "held later lease r h" and l: "hs_lease (abort_lease env h) = Some l"
  shows "cl_record l = cl_record lease" "cl_results l = cl_results lease"
    "cr_originalExpiry (cs_heap (hs_store (abort_lease env h)) ! cl_record lease) = cr_originalExpiry r"
proof -
  note h' = h [unfolded held_def Continuation_Inv.live_def in_store_def]
  obtain x l' t where f: "finishContext Background (he_now env (hs_ops h)) False lease (hs_store h) = (x, (l', t))" by (rule prod_cases3)
  have s: "hs_store (abort_lease env h) = t" "hs_lease (abort_lease env h) = Some l'"
    using h' quietD(1) [OF q] f by (auto simp: abort_lease_def lease_op_def store_op_def lease_Abort_def undisturbed_def)
  have "cl_record l' = cl_record lease \<and> cl_results l' = cl_results lease
    \<and> cr_originalExpiry (cs_heap t ! cl_record lease) = cr_originalExpiry r"
    using f h' by (auto simp: finishContext_def finish_record_def Background_def Let_def set_turn_nth split: if_splits)
  then show "cl_record l = cl_record lease" "cl_results l = cl_results lease"
    "cr_originalExpiry (cs_heap (hs_store (abort_lease env h)) ! cl_record lease) = cr_originalExpiry r"
    using s l by simp_all
qed

text \<open>
  C2: A continuation the provider has not accepted can be submitted again: whatever ended the handler before
  that (a refused request, a failing provider, a client that left, a stream that could not be decoded), the same
  results are granted a lease again, as long as neither the turn nor the lease would have expired.
\<close>

theorem unaccepted_continuation_retryable:
  assumes y: "reachable cont_start cont_step y" "hs_store h = sy_store y" "hs_lease h = None"
    and run: "handleResponses env s q h = (h', stream)" "hs_lease h' = Some lease"
    and unaccepted: "case stream of None \<Rightarrow> True | Some st \<Rightarrow> \<not> st_accepted st"
    and q: "quiet env later"
    and later: "later < he_now env (hs_ops h) + cc_ConsumingLeaseTTL (cs_config (hs_store h))"
      "later < cr_originalExpiry (cs_heap (hs_store h') ! cl_record lease)"
  shows "\<exists>l t. Begin order later (cl_results lease) (hs_store h') = (Inr l, t)"
proof -
  have inv: "store_inv (hs_store h)" using continuation.inv_reachable [OF y(1)] y(2) by (simp add: sys_inv_def)
  have "hs_lease h' \<noteq> None" using run(2) by simp
  from run(1) y(3) this show ?thesis
  proof (rule handleResponses_continued)
    fix request results l h1 h2 h3
    assume h1: "hs_store h1 = hs_store h" "hs_ops h1 = hs_ops h" and b: "begin_lease env results h1 = (Inr l, h2)"
      and r: "run_request env s request (h2\<lparr>hs_lease := Some l\<rparr>) = (h3, stream)" and h': "h' = abort_lease env h3"
    let ?k = "hs_ops h"
    have B: "Begin (he_order env ?k) (he_now env ?k) results (hs_store h) = (Inr l, hs_store h2)"
      using b h1 quietD(1) [OF q] by (auto simp: begin_lease_def store_op_def undisturbed_def Let_def split: prod.splits)
    let ?r = "cs_heap (hs_store h2) ! cl_record l"
    have "held later l ?r (h2\<lparr>hs_lease := Some l\<rparr>)" by (rule Begin_held [OF inv B _ _ later(1)]) simp_all
    from run_request_held [OF q this r unaccepted] have h3: "held later l ?r h3" .
    note g = Begin_granted [OF inv B]
    have l: "hs_lease (abort_lease env h3) = Some lease" using run(2) unfolding h' .
    note kept = abort_kept [OF q h3 l, folded h']
    have same: "cl_record lease = cl_record l" "cl_results lease = results"
      and orig: "cr_originalExpiry (cs_heap (hs_store h') ! cl_record l) = cr_originalExpiry ?r"
      using kept(1,3) trans [OF kept(2) g(1)] by blast+
    have before: "later < cr_originalExpiry ?r" using later(2) same(1) orig by simp
    note a = abort_held [OF q h3 before, folded h']
    have "set (turn_ids (cr_turn (cs_heap (hs_store h') ! cl_record l))) = set (map tr_CallID results)"
      using arg_cong [OF g(3), of "\<lambda>m. fst ` set_mset m"] a(5) by (auto simp: image_comp comp_def)
    then have "[] \<notin> set (turn_ids (cr_turn (cs_heap (hs_store h') ! cl_record l)))" using g(2) by simp
    moreover have "mset (map (\<lambda>r. (tr_CallID r, tr_Kind r)) results)
        = mset (map (\<lambda>c. (uc_CallID c, uc_Kind c)) (pt_ToolCalls (cr_turn (cs_heap (hs_store h') ! cl_record l))))"
      using g(3) a(5) by simp
    ultimately show ?thesis using Begin_live [OF a(1-4)] unfolding same(2) by blast
  qed
qed

end
