(* ===== verification/Server_Turns.thy ===== *)
theory Server_Turns
  imports Server_Continuations
begin

text \<open>
  What becomes of the tool turn of a response that was completed: it is in the store when the client learns of it,
  so that the results of its calls are granted.
\<close>

section \<open>A saved turn answers\<close>

abbreviation call_kinds_of :: "PendingTurn \<Rightarrow> (gostring \<times> ToolKind) list" where
  "call_kinds_of turn \<equiv> map (\<lambda>c. (uc_CallID c, uc_Kind c)) (pt_ToolCalls turn)"

lemma normalize_calls_kinds:
  "normalize_calls cs ids pids = Inr cs' \<Longrightarrow>
     map (\<lambda>c. (uc_CallID c, uc_Kind c)) cs' = map (\<lambda>c. (uc_CallID c, uc_Kind c)) cs \<and> (\<forall>c \<in> set cs'. uc_CallID c \<noteq> [])"
  by (induction cs ids pids arbitrary: cs' rule: normalize_calls.induct) (auto simp: Let_def split: if_splits sum.splits)

definition answerable :: "gotime \<Rightarrow> PendingTurn \<Rightarrow> nat \<Rightarrow> ContinuationStore \<Rightarrow> bool" where
  "answerable later turn a s \<longleftrightarrow> store_inv s \<and> \<not> cs_closed s \<and> Continuation_Inv.live later s a \<and> status_at s a = PendingStatusPending
     \<and> call_kinds_of (cr_turn (cs_heap s ! a)) = call_kinds_of turn \<and> [] \<notin> set (turn_ids (cr_turn (cs_heap s ! a)))"

lemma SaveContext_answerable:
  assumes inv: "store_inv s" and ok: "SaveContext order ctx now turn s = (Inr (), t)" and later: "later < now + cc_TTL (cs_config s)"
  shows "\<exists>a \<ge> length (cs_heap s). answerable later turn a t"
proof -
  define v where "v = cleanupLocked order now s"
  from ok obtain u sz where n: "normalizePendingTurn turn now (cc_TTL (cs_config s)) = Inr (u, sz)"
    and t: "t = insert_record u sz v" and nc: "\<not> cs_closed s"
    by (auto simp: SaveContext_def Let_def v_def split: option.splits sum.splits if_splits)
  have k: "call_kinds_of u = call_kinds_of turn \<and> (\<forall>c \<in> set (pt_ToolCalls u). uc_CallID c \<noteq> [])"
    using n normalize_calls_kinds [of "pt_ToolCalls turn" "[]" "[]"]
    by (auto simp: normalizePendingTurn_def Let_def split: if_splits sum.splits option.splits)
  then have "[] \<notin> set (turn_ids u)" by (auto dest: sym)
  have tinv: "store_inv t" using SaveContext_inv [OF inv, of order ctx now turn] ok by simp
  let ?a = "length (cs_heap v)"
  have a: "cs_heap t ! ?a = \<lparr>cr_key = hd (turn_ids u), cr_turn = u, cr_bytes = sz, cr_originalExpiry = pt_ExpiresAt u\<rparr>"
    by (simp add: t insert_record_sel)
  have "Continuation_Inv.live later t ?a"
    using normalizePendingTurn_ok [OF n] later by (simp add: Continuation_Inv.live_def in_store_def a) (simp add: t insert_record_sel)
  moreover have "\<not> cs_closed t" using nc by (simp add: t insert_record_sel v_def)
  ultimately have "answerable later turn ?a t" using tinv a k \<open>[] \<notin> set (turn_ids u)\<close> normalizePendingTurn_ok(3) [OF n] by (simp add: answerable_def)
  then show ?thesis by (intro exI [of _ ?a]) (simp add: v_def)
qed

lemma answerable_granted:
  assumes "answerable later turn a s" "mset (map (\<lambda>r. (tr_CallID r, tr_Kind r)) results) = mset (call_kinds_of turn)"
  shows "\<exists>l t. Begin order later results s = (Inr l, t)"
proof -
  note a = assms(1) [unfolded answerable_def]
  have "mset (map (\<lambda>r. (tr_CallID r, tr_Kind r)) results) = mset (call_kinds_of (cr_turn (cs_heap s ! a)))" using assms(2) a by simp
  from Begin_live [OF _ _ _ _ this] a show ?thesis by blast
qed

lemma finishContext_answerable:
  assumes a: "answerable later turn a s" and l: "cl_record lease \<noteq> a" "cl_record lease < length (cs_heap s)"
  shows "answerable later turn a (snd (snd (finishContext ctx now commit lease s)))"
proof -
  have inv: "store_inv s" and live: "Continuation_Inv.live later s a" using a by (simp_all add: answerable_def)
  show ?thesis using finishContext_live [OF inv live l, of ctx now commit] finishContext_inv [OF inv l(2), of ctx now commit] a
    by (simp add: answerable_def)
qed

section \<open>What the steps of the loop keep\<close>

definition settled_store :: "ContinuationStoreConfig \<Rightarrow> 'a handler_state_scheme \<Rightarrow> bool" where
  "settled_store c h \<longleftrightarrow> store_inv (hs_store h) \<and> cs_config (hs_store h) = c
     \<and> (\<forall>l. hs_lease h = Some l \<longrightarrow> cl_record l < length (cs_heap (hs_store h)))"

lemma settled_cong: "hs_lease g = hs_lease h \<Longrightarrow> hs_store g = hs_store h \<Longrightarrow> settled_store c g = settled_store c h"
  by (simp add: settled_store_def)

lemma settled_simps [simp]:
  fixes st :: stream_state
  shows "settled_store c (snd (canceled st)) = settled_store c st"
    "settled_store c (st\<lparr>st_session := s\<rparr>) = settled_store c st"
    "settled_store c (st\<lparr>st_decoder := d\<rparr>) = settled_store c st"
    "settled_store c (st\<lparr>st_rounds := n\<rparr>) = settled_store c st"
    "settled_store c (st\<lparr>st_accepted := b\<rparr>) = settled_store c st"
    "settled_store c (note_terminal_type t st) = settled_store c st"
    "settled_store c (fail_stream code message st) = settled_store c st"
    "settled_store c (fail_unless_canceled code message st) = settled_store c st"
  by (rule settled_cong; simp)+

lemma settled_save_context:
  fixes st :: stream_state
  assumes "settled_store c st" "undisturbed env"
  shows "settled_store c (snd (save_context env turn st))"
proof -
  let ?k = "hs_ops st"
  let ?t = "snd (SaveContext (he_order env ?k) (he_ctx env ?k) (he_now env ?k) turn (hs_store st))"
  have "decays (hs_store st) ?t" "store_inv ?t" using assms(1) by (simp_all add: settled_store_def SaveContext_decays SaveContext_inv)
  moreover have "hs_store (snd (save_context env turn st)) = ?t" "hs_lease (snd (save_context env turn st)) = hs_lease st"
    using assms(2) by (simp_all add: save_context_def store_op_undisturbed)
  ultimately show ?thesis using assms(1) by (auto simp: settled_store_def decays_def)
qed

lemma finishContext_sizes:
  "cl_record (fst (snd (finishContext ctx now commit lease s))) = cl_record lease"
  "cs_config (snd (snd (finishContext ctx now commit lease s))) = cs_config s"
  "length (cs_heap (snd (snd (finishContext ctx now commit lease s)))) = length (cs_heap s)"
proof -
  obtain x l t where f: "finishContext ctx now commit lease s = (x, (l, t))" by (rule prod_cases3)
  then have "cl_record l = cl_record lease \<and> cs_config t = cs_config s \<and> length (cs_heap t) = length (cs_heap s)"
    by (cases rule: finishContext_cases) (simp_all add: finish_record_def)
  then show "cl_record (fst (snd (finishContext ctx now commit lease s))) = cl_record lease"
    "cs_config (snd (snd (finishContext ctx now commit lease s))) = cs_config s"
    "length (cs_heap (snd (snd (finishContext ctx now commit lease s)))) = length (cs_heap s)" using f by simp_all
qed

lemma settled_commit:
  fixes st :: stream_state
  assumes "settled_store c st" "undisturbed env"
  shows "settled_store c (snd (commit_lease env st))"
proof (cases "hs_lease st")
  case (Some l)
  let ?k = "hs_ops st"
  have "cl_record l < length (cs_heap (hs_store st))" using assms(1) Some by (simp add: settled_store_def)
  then have "store_inv (snd (snd (finishContext (he_ctx env ?k) (he_now env ?k) True l (hs_store st))))"
    using assms(1) by (simp add: settled_store_def finishContext_inv)
  then show ?thesis using assms Some
    by (simp add: settled_store_def commit_lease_def lease_op_def store_op_def undisturbed_def case_prod_unfold Let_def CommitContext_def
        finishContext_sizes)
qed (use assms in \<open>simp add: commit_lease_def lease_op_def\<close>)

section \<open>The type of the terminal frame\<close>

definition said_completed :: "'a handler_state_scheme \<Rightarrow> bool" where
  "said_completed h \<longleftrightarrow> sw_responseTerminal (hs_writer h) = ''response.completed''"

lemma said_simps [simp]:
  fixes st :: stream_state
  shows "said_completed (snd (canceled st)) = said_completed st"
    "said_completed (st\<lparr>st_session := s\<rparr>) = said_completed st"
    "said_completed (st\<lparr>st_decoder := d\<rparr>) = said_completed st"
    "said_completed (st\<lparr>st_rounds := n\<rparr>) = said_completed st"
    "said_completed (st\<lparr>st_accepted := b\<rparr>) = said_completed st"
    "said_completed (snd (store_op env f st)) = said_completed st"
    "said_completed (snd (lease_op env g st)) = said_completed st"
    "said_completed (note_terminal_type t st) \<longleftrightarrow> t = ''response.completed''"
  by (simp_all add: said_completed_def note_terminal_type_def on_writer_def)

lemma fail_said: "said_completed (fail_stream code message st) \<Longrightarrow> said_completed st"
  by (simp add: fail_stream_def split: if_splits)

lemma fail_unless_said: "said_completed (fail_unless_canceled code message st) \<Longrightarrow> said_completed st"
  using fail_said [of code message "snd (canceled st)"] by (auto simp: fail_unless_canceled_def Let_def case_prod_unfold split: if_splits)

lemma save_turn_said: "said_completed (snd (save_turn env ev st)) \<Longrightarrow> said_completed st"
  by (auto simp: save_turn_def save_context_def Let_def case_prod_unfold
      split: StreamEvent.splits option.splits sum.splits if_splits dest!: fail_unless_said)

lemma accept_said: "said_completed (snd (accept_continuation env ev st)) \<Longrightarrow> said_completed st"
  by (auto simp: accept_continuation_def commit_lease_def Let_def case_prod_unfold
      split: sum.splits if_splits dest!: fail_unless_said)

lemma settled_accept:
  fixes st :: stream_state
  assumes "settled_store c st" "undisturbed env"
  shows "settled_store c (snd (accept_continuation env ev st))"
  using assms settled_commit [of c "snd (canceled st)" env]
  by (auto simp: accept_continuation_def Let_def case_prod_unfold split: sum.split)

lemma settled_save_turn:
  assumes "settled_store c st" "undisturbed env"
  shows "settled_store c (snd (save_turn env ev st))"
  using assms settled_save_context [of c "snd (canceled st)" env]
  by (auto simp: save_turn_def Let_def case_prod_unfold split: StreamEvent.split option.split sum.split)

lemma settled_deliver:
  assumes "settled_store c st" "undisturbed env"
  shows "settled_store c (snd (deliver env ev st))"
  using assms settled_accept [of c "st\<lparr>st_session := snd (session_Handle (Some ev) (st_session st))\<rparr>" env]
  by (auto simp: deliver_def Let_def case_prod_unfold split: sum.split)

lemma deliver_said:
  assumes "\<not> said_completed st" "said_completed (snd (deliver env ev st))"
  shows "\<exists>r. ev = Completed r"
proof -
  have "responseTerminalType ev = ''response.completed'' \<Longrightarrow> \<exists>r. ev = Completed r"
    by (cases ev) (simp_all add: responseTerminalType_def)
  then show ?thesis using assms accept_said [of env ev "st\<lparr>st_session := snd (session_Handle (Some ev) (st_session st))\<rparr>"]
    by (auto simp: deliver_def Let_def case_prod_unfold split: sum.splits if_splits)
qed

text \<open>Delivering the completion touches neither the store nor the lease.\<close>

lemma deliver_completed:
  "hs_store (snd (deliver env (Completed r) st)) = hs_store st" "hs_lease (snd (deliver env (Completed r) st)) = hs_lease st"
  by (simp_all add: deliver_def accept_continuation_def isContinuationAcceptanceEvent_def Let_def case_prod_unfold split: sum.split)

lemma deliver_goes_on: "fst (deliver env (Completed r) st) \<Longrightarrow> said_completed (snd (deliver env (Completed r) st)) = said_completed st"
  by (auto simp: deliver_def accept_continuation_def isContinuationAcceptanceEvent_def Let_def case_prod_unfold split: sum.splits if_splits)

section \<open>The turn of a completed response\<close>

definition turn_kept :: "gotime \<Rightarrow> PendingTurn \<Rightarrow> 'a handler_state_scheme \<Rightarrow> bool" where
  "turn_kept later turn h \<longleftrightarrow> (\<exists>a. answerable later turn a (hs_store h)
     \<and> (\<forall>l. hs_lease h = Some l \<longrightarrow> cl_record l \<noteq> a \<and> cl_record l < length (cs_heap (hs_store h))))"

lemma turn_kept_cong: "hs_lease g = hs_lease h \<Longrightarrow> hs_store g = hs_store h \<Longrightarrow> turn_kept later turn g = turn_kept later turn h"
  by (simp add: turn_kept_def)

text \<open>The clock stays within the time to live of whatever is saved.\<close>

definition timely :: "'p handler_env \<Rightarrow> gotime \<Rightarrow> int \<Rightarrow> bool" where
  "timely env later ttl \<longleftrightarrow> undisturbed env \<and> (\<forall>k. later < he_now env k + ttl)"

lemma save_turn_kept:
  assumes st: "settled_store c st" and t: "timely env later (cc_TTL c)" and go_on: "fst (save_turn env (Completed r) st)"
    and turn: "bridge_PendingTurn (st_decoder st) = Some turn"
  shows "turn_kept later turn (snd (save_turn env (Completed r) st))"
proof -
  let ?u = "snd (canceled st)"
  let ?k = "hs_ops st"
  have u: "undisturbed env" using t by (simp add: timely_def)
  have ok: "\<not> fst (canceled st)" "fst (save_context env turn ?u) = Inr ()"
    and s: "snd (save_turn env (Completed r) st) = snd (save_context env turn ?u)"
    using go_on turn by (auto simp: save_turn_def Let_def case_prod_unfold split: if_splits sum.splits)
  define x where "x = SaveContext (he_order env ?k) (he_ctx env ?k) (he_now env ?k) turn (hs_store st)"
  have x: "fst x = Inr ()" "hs_store (snd (save_context env turn ?u)) = snd x" "hs_lease (snd (save_context env turn ?u)) = hs_lease st"
    using ok(2) by (simp_all add: save_context_def x_def store_op_undisturbed [OF u])
  have inv: "store_inv (hs_store st)" and l: "\<And>l. hs_lease st = Some l \<Longrightarrow> cl_record l < length (cs_heap (hs_store st))"
    using st by (simp_all add: settled_store_def)
  have "SaveContext (he_order env ?k) (he_ctx env ?k) (he_now env ?k) turn (hs_store st) = (Inr (), snd x)" using x(1) by (simp add: x_def prod_eq_iff)
  moreover have "later < he_now env ?k + cc_TTL (cs_config (hs_store st))" using t st by (simp add: timely_def settled_store_def)
  ultimately obtain a where a: "length (cs_heap (hs_store st)) \<le> a" "answerable later turn a (snd x)"
    using SaveContext_answerable [OF inv] by blast
  have "length (cs_heap (hs_store st)) \<le> length (cs_heap (snd x))" using SaveContext_decays [of "hs_store st"] by (simp add: x_def decays_def)
  then show ?thesis using a x l by (fastforce simp: turn_kept_def s)
qed

definition settled_turn :: "gotime \<Rightarrow> stream_state \<Rightarrow> bool" where
  "settled_turn later st \<longleftrightarrow> said_completed st \<longrightarrow> (\<forall>turn. bridge_PendingTurn (st_decoder st) = Some turn \<longrightarrow> turn_kept later turn st)"

lemma round_settled_turn:
  assumes st: "settled_store c st" "\<not> said_completed st" and t: "timely env later (cc_TTL c)"
    and r: "stream_round env event st = (go_on, u)"
  shows "if go_on then settled_store c u \<and> \<not> said_completed u else settled_turn later u"
proof (cases "said_completed u")
  case False
  have u: "undisturbed env" using t by (simp add: timely_def)
  have "settled_store c (snd (stream_round env event st))" using st(1) u
    by (simp add: stream_round_def Let_def case_prod_unfold settled_deliver settled_save_turn split: option.split)
  then show ?thesis using r False by (simp add: settled_turn_def)
next
  case True
  let ?v = "snd (canceled (st\<lparr>st_rounds := st_rounds st + 1\<rparr>))"
  have v: "settled_store c ?v" "\<not> said_completed ?v" using st by simp_all
  from r True st(2) obtain ev where ev: "event = Some ev" "fst (save_turn env ev ?v)" "(go_on, u) = deliver env ev (snd (save_turn env ev ?v))"
    by (auto simp: stream_round_def Let_def case_prod_unfold split: option.splits if_splits dest!: fail_unless_said fail_said save_turn_said)
  have ns: "\<not> said_completed (snd (save_turn env ev ?v))" using save_turn_said v(2) by blast
  have d: "snd (deliver env ev (snd (save_turn env ev ?v))) = u" "fst (deliver env ev (snd (save_turn env ev ?v))) = go_on"
    using arg_cong [OF ev(3), of snd] arg_cong [OF ev(3), of fst] by simp_all
  obtain q where q: "ev = Completed q" using deliver_said [OF ns] True d(1) by blast
  have "\<not> go_on" using d deliver_goes_on [of env q "snd (save_turn env ev ?v)"] True ns by (auto simp: q)
  moreover have "turn_kept later turn u" if "bridge_PendingTurn (st_decoder u) = Some turn" for turn
  proof -
    have "st_decoder u = st_decoder ?v" using d(1) by (simp flip: d(1))
    with that have "turn_kept later turn (snd (save_turn env ev ?v))"
      unfolding q by (intro save_turn_kept [OF v(1) t]) (use ev(2) in \<open>simp_all add: q\<close>)
    moreover have "hs_lease u = hs_lease (snd (save_turn env ev ?v))" "hs_store u = hs_store (snd (save_turn env ev ?v))"
      using d(1) deliver_completed [of env q "snd (save_turn env ev ?v)"] by (simp_all add: q)
    ultimately show ?thesis using turn_kept_cong by blast
  qed
  ultimately show ?thesis by (simp add: settled_turn_def)
qed

lemma loop_settled_turn:
  assumes st: "settled_store c st" "\<not> said_completed st" and t: "timely env later (cc_TTL c)"
  shows "settled_turn later (responses_loop env p st)"
proof (rule responses_loop_rule [where I = "\<lambda>st. settled_store c st \<and> \<not> said_completed st"])
  fix st :: stream_state and p event p' d go_on u
  assume "settled_store c st \<and> \<not> said_completed st" "stream_round env event (st\<lparr>st_decoder := d\<rparr>) = (go_on, u)"
  then show "if go_on then settled_store c u \<and> \<not> said_completed u else settled_turn later u"
    using round_settled_turn [of c "st\<lparr>st_decoder := d\<rparr>" env later event go_on u] t by simp
qed (use st in simp)

section \<open>The whole handler\<close>

text \<open>Up to the stream, the type of the terminal frame and the store are left alone.\<close>

lemma stream_response_settled:
  assumes run: "stream_response env c request um body h = (h', Some st)" and h: "settled_store k h" "\<not> said_completed h"
    and t: "timely env later (cc_TTL k)"
  shows "settled_turn later st \<and> hs_store h' = hs_store st \<and> hs_lease h' = hs_lease st \<and> (said_completed h' \<longrightarrow> said_completed st)"
  using run
proof (rule stream_response_stream)
  fix session session' h1
  let ?st = "start_state c request session' h1"
  assume h1: "hs_lease h1 = hs_lease h" "hs_store h1 = hs_store h" and h': "h' = fst (end_of_stream st)"
    and w: "sw_responseTerminal (hs_writer h1) = sw_responseTerminal (hs_writer h)"
    and st: "(\<exists>e. session_Start session = (Inl e, session')) \<and> st = ?st \<or> session_Start session = (Inr (), session') \<and> st = responses_loop env body ?st"
  have s: "settled_store k ?st" "\<not> said_completed ?st" using h h1 w by (simp_all add: settled_store_def said_completed_def)
  have "settled_turn later st" using st loop_settled_turn [OF s t] s(2) by (auto simp: settled_turn_def)
  moreover have "said_completed h' = said_completed st"
    by (simp add: h' end_of_stream_def said_completed_def on_writer_def adopt_session_def handler_state.truncate_def)
  ultimately show ?thesis by (simp add: h')
qed

lemma abort_turn_kept:
  assumes "turn_kept later turn h" "undisturbed env"
  shows "turn_kept later turn (abort_lease env h)"
proof (cases "hs_lease h")
  case (Some l)
  then obtain a where a: "answerable later turn a (hs_store h)" "cl_record l \<noteq> a" "cl_record l < length (cs_heap (hs_store h))"
    using assms(1) by (auto simp: turn_kept_def)
  let ?f = "snd (finishContext Background (he_now env (hs_ops h)) False l (hs_store h))"
  have "hs_store (abort_lease env h) = snd ?f" "hs_lease (abort_lease env h) = Some (fst ?f)"
    using Some assms(2)
    by (simp_all add: abort_lease_def lease_op_def store_op_def undisturbed_def lease_Abort_def case_prod_unfold Let_def)
  then show ?thesis using finishContext_answerable [OF a] a finishContext_sizes by (auto simp: turn_kept_def)
qed (use assms in \<open>simp add: abort_lease_def\<close>)

text \<open>
  C3: A completed tool turn can be continued: if the client was told that the response is completed and the provider
  had called tools, then a submission of results for exactly these calls is granted a lease, at any later time within
  the turn's time to live, as long as no other request used the store meanwhile.
\<close>

theorem completed_turn_continues:
  assumes y: "reachable cont_start cont_step y" "hs_store h = sy_store y" "hs_lease h = None"
    and run: "handleResponses env s q h = (h', Some st)"
    and completed: "sw_responseTerminal (hs_writer h) \<noteq> ''response.completed''" "sw_responseTerminal (hs_writer h') = ''response.completed''"
    and turn: "bridge_PendingTurn (st_decoder st) = Some turn"
    and alone: "he_others env = (\<lambda>_ s. s)"
    and later: "\<forall>k. later < he_now env k + cc_TTL (cs_config (hs_store h))"
    and results: "mset (map (\<lambda>r. (tr_CallID r, tr_Kind r)) results) = mset (map (\<lambda>c. (uc_CallID c, uc_Kind c)) (pt_ToolCalls turn))"
  shows "\<exists>l t. Begin order later results (hs_store h') = (Inr l, t)"
proof -
  let ?k = "cs_config (hs_store h)"
  have inv: "store_inv (hs_store h)" using continuation.inv_reachable [OF y(1)] y(2) by (simp add: sys_inv_def)
  have t: "timely env later (cc_TTL ?k)" and u: "undisturbed env" using alone later by (simp_all add: timely_def undisturbed_def)
  have "turn_kept later turn h'"
    using run
  proof (rule handleResponses_stream)
    fix request um body h1
    assume l: "same_but_looks (hs_writer h) (hs_writer h1)" "hs_lease h1 = hs_lease h" "hs_store h1 = hs_store h"
      and r: "stream_response env (sv_config s) request um body h1 = (h', Some st)"
    have "settled_store ?k h1" "\<not> said_completed h1"
      using inv l y(3) completed(1) by (auto simp: settled_store_def said_completed_def same_but_looks_def)
    from stream_response_settled [OF r this t] have "settled_turn later st" "hs_store h' = hs_store st" "hs_lease h' = hs_lease st" "said_completed st"
      using completed(2) by (simp_all add: said_completed_def)
    then show ?thesis using turn turn_kept_cong [of h' st] by (simp add: settled_turn_def)
  next
    fix request um body rs lease h1 h2 h3
    assume l: "same_but_looks (hs_writer h) (hs_writer h1)" "hs_store h1 = hs_store h"
      and b: "begin_lease env rs h1 = (Inr lease, h2)"
      and r: "stream_response env (sv_config s) request um body (h2\<lparr>hs_lease := Some lease\<rparr>) = (h3, Some st)"
      and h': "h' = abort_lease env h3"
    have B: "Begin (he_order env (hs_ops h1)) (he_now env (hs_ops h1)) rs (hs_store h) = (Inr lease, hs_store h2)"
      using b l(2) u by (auto simp: begin_lease_def store_op_def undisturbed_def Let_def split: prod.splits)
    have inv2: "store_inv (hs_store h2)" using Begin_inv [OF inv] B by (metis snd_conv)
    have c: "cs_config (hs_store h2) = ?k" and len: "cl_record lease < length (cs_heap (hs_store h2))"
      using Begin_ok(2,5) [OF inv B] by (simp_all add: in_store_def)
    have "hs_writer h2 = hs_writer h1" using begin_lease_writer [of env rs h1] b by simp
    then have "settled_store ?k (h2\<lparr>hs_lease := Some lease\<rparr>)" "\<not> said_completed (h2\<lparr>hs_lease := Some lease\<rparr>)"
      using inv2 c len l(1) completed(1) by (auto simp: settled_store_def said_completed_def same_but_looks_def)
    from stream_response_settled [OF r this t] have s: "settled_turn later st" "hs_store h3 = hs_store st" "hs_lease h3 = hs_lease st"
      "said_completed h3 \<Longrightarrow> said_completed st" by simp_all
    have "hs_writer (abort_lease env h3) = hs_writer h3"
      by (simp add: abort_lease_def lease_op_def store_op_def case_prod_unfold Let_def split: option.split)
    then have "said_completed st" using s(4) completed(2) by (simp add: h' said_completed_def)
    then have "turn_kept later turn h3" using s(1-3) turn turn_kept_cong [of h3 st] by (simp add: settled_turn_def)
    then show ?thesis unfolding h' using u by (rule abort_turn_kept)
  qed
  then show ?thesis using answerable_granted [OF _ results] by (auto simp: turn_kept_def)
qed

end
