(* ===== verification/Server_Replies.thy ===== *)
theory Server_Replies
  imports Server_Errors
begin

text \<open>What the reply to a failed upstream request can tell the client.\<close>

text \<open>A context that is done stays done.\<close>

definition context_stays_done :: "statusWriter \<Rightarrow> bool" where
  "context_stays_done w \<longleftrightarrow> (\<forall>i j. i \<le> j \<longrightarrow> sw_context w j = None \<longrightarrow> sw_context w i = None)"

lemma context_stays_doneD: "context_stays_done w \<Longrightarrow> sw_context w i \<noteq> None \<Longrightarrow> i \<le> j \<Longrightarrow> sw_context w j \<noteq> None"
  by (auto simp: context_stays_done_def dest: spec [of _ i])

text \<open>
  An error reply adds at most its status and a part of its payload: where the context was done at the first look it
  adds neither.
\<close>

lemma writeJSON_adds:
  assumes "context_stays_done w" "status \<noteq> 0"
  shows "(let w' = writeJSON status payload w in
      (rw_status (sw_ResponseWriter w') = rw_status (sw_ResponseWriter w) \<or> rw_status (sw_ResponseWriter w') = rw_status (sw_ResponseWriter w) @ [status])
      \<and> (\<exists>n. sw_body w' = sw_body w @ take n (marshal_json payload @ [CHR 0x0A]))
      \<and> rw_Header (sw_ResponseWriter w') = map_put ''Content-Type'' ''application/json'' (rw_Header (sw_ResponseWriter w))
      \<and> sw_errorCode w' = sw_errorCode w)"
proof -
  define v where "v = WriteHeader status (set_header ''Content-Type'' ''application/json'' w)"
  have v: "rw_status (sw_ResponseWriter v) = rw_status (sw_ResponseWriter w) \<or> rw_status (sw_ResponseWriter v) = rw_status (sw_ResponseWriter w) @ [status]"
    "sw_body v = sw_body w" "rw_Header (sw_ResponseWriter v) = map_put ''Content-Type'' ''application/json'' (rw_Header (sw_ResponseWriter w))"
    "sw_errorCode v = sw_errorCode w" "sw_context v = sw_context w" "sw_allowCanceledWrite v = sw_allowCanceledWrite w"
    by (auto simp: v_def WriteHeader_def writeAllowed_def set_header_def context_Err_def Let_def)
  have silent: "fst (writeAllowed v) = False" if "sw_status v = 0"
  proof -
    have "\<not> sw_allowCanceledWrite w" "sw_context w (sw_tick w) \<noteq> None" "sw_tick v = sw_tick w + 1"
      using that assms(2) by (auto simp: v_def WriteHeader_def writeAllowed_def set_header_def context_Err_def Let_def split: if_splits)
    then show ?thesis using context_stays_doneD [OF assms(1), of "sw_tick w" "sw_tick w + 1"] v(5,6)
      by (simp add: writeAllowed_def context_Err_def)
  qed
  have j: "writeJSON status payload w = sw_Write (marshal_json payload @ [CHR 0x0A]) v" by (simp add: writeJSON_def v_def)
  define r where "r = writeAllowed v"
  have r: "sw_ResponseWriter (snd r) = sw_ResponseWriter v" "sw_body (snd r) = sw_body v" "sw_errorCode (snd r) = sw_errorCode v"
    "sw_status (snd r) = sw_status v"
    by (simp_all add: r_def writeAllowed_def context_Err_def Let_def)
  have "\<exists>n. sw_ResponseWriter (sw_Write payload v) = sw_ResponseWriter v \<and> sw_body (sw_Write payload v) = sw_body v @ take n payload
      \<and> sw_errorCode (sw_Write payload v) = sw_errorCode v" for payload
  proof (cases "fst r")
    case False
    then show ?thesis using r by (intro exI [of _ 0]) (simp add: sw_Write_def r_def [symmetric] case_prod_unfold Let_def context_Err_def)
  next
    case True
    then have "sw_status v \<noteq> 0" using silent by (auto simp: r_def)
    then show ?thesis using True r
      by (intro exI [of _ "case sw_take (snd r) (sw_tick (snd r)) of None \<Rightarrow> length payload | Some k \<Rightarrow> min k (length payload)"])
        (simp add: sw_Write_def r_def [symmetric] case_prod_unfold Let_def)
  qed
  then show ?thesis unfolding j Let_def using v(1-4) by (metis (no_types, lifting))
qed

section \<open>Upstream failures\<close>

lemma upstream_status_safe:
  "fst (upstream_status err) \<in> set safe_codes \<and> fst (snd (upstream_status err)) \<in> {400, 429, 500, 502, 504}
   \<and> (fst (snd (upstream_status err)) = 429 \<longleftrightarrow> fst (upstream_status err) = upstreamErrorRateLimited)"
  by (auto simp: upstream_status_def safeUpstreamCode_def Let_def safe_codes_def split: upstream_failure.split)

lemma safeRetryAfter_shape:
  "safeRetryAfterHeader http_date value = [] \<or> allDecimalDigits (safeRetryAfterHeader http_date value)
   \<or> (\<exists>x. http_date x = Some (safeRetryAfterHeader http_date value))"
  by (auto simp: safeRetryAfterHeader_def Let_def split: option.split)

lemma safe_codes_typed: "code \<in> set safe_codes \<Longrightarrow> gatewayErrorType code \<noteq> ''internal_error''"
proof -
  have "list_all (\<lambda>code. gatewayErrorType code \<noteq> ''internal_error'') safe_codes" by code_simp
  then show "code \<in> set safe_codes \<Longrightarrow> gatewayErrorType code \<noteq> ''internal_error''" by (simp add: list_all_iff)
qed

text \<open>
  C18: The reply to a failed upstream request tells the client nothing of the provider's own: whatever the error
  carries, the code is one of the gateway's list and has a type of the taxonomy, the status is one of five, the
  body is (a prefix of) an object determined by the code alone, and the only header that comes from the provider is
  a rate limit's \<open>Retry-After\<close>, either digits or a reformatted date.
\<close>

theorem upstream_reply_safe:
  assumes "context_stays_done w" "writeUpstreamError http_date err w = w'"
    and "safeRetryAfterHeader http_date (snd (snd (upstream_status err))) = retry"
  shows "\<exists>code status n. code \<in> set safe_codes \<and> gatewayErrorType code \<noteq> ''internal_error'' \<and> status \<in> {400, 429, 500, 502, 504}
    \<and> sw_errorCode w' = code
    \<and> rw_status (sw_ResponseWriter w') \<in> {rw_status (sw_ResponseWriter w), rw_status (sw_ResponseWriter w) @ [status]}
    \<and> sw_body w' = sw_body w @ take n (marshal_json (error_payload code [] (upstream_message code)) @ [CHR 0x0A])
    \<and> (\<forall>k. map_of (rw_Header (sw_ResponseWriter w')) k =
          (if k = ''Content-Type'' then Some ''application/json''
           else if k = ''Retry-After'' \<and> status = 429 \<and> retry \<noteq> []
           then Some retry
           else map_of (rw_Header (sw_ResponseWriter w)) k))
    \<and> (retry = []
       \<or> allDecimalDigits retry
       \<or> (\<exists>x. http_date x = Some retry))"
proof -
  obtain code status raw where u: "upstream_status err = (code, status, raw)" by (rule prod_cases3)
  have safe: "code \<in> set safe_codes" "status \<in> {400, 429, 500, 502, 504}" "status = 429 \<longleftrightarrow> code = upstreamErrorRateLimited"
    using upstream_status_safe [of err] u by auto
  have retry: "safeRetryAfterHeader http_date raw = retry" using assms(3) u by simp
  define v where "v = (if code = upstreamErrorRateLimited \<and> retry \<noteq> [] then set_header ''Retry-After'' retry w else w)\<lparr>sw_errorCode := code\<rparr>"
  have w': "w' = writeJSON status (error_payload code [] (upstream_message code)) v"
    unfolding assms(2) [symmetric] writeUpstreamError_def writeJSONError_def writeJSONErrorWithParam_def v_def
    by (simp add: u Let_def retry)
  have ctx: "context_stays_done v" using assms(1) by (simp add: v_def context_stays_done_def set_header_def)
  have v: "rw_status (sw_ResponseWriter v) = rw_status (sw_ResponseWriter w)" "sw_body v = sw_body w" "sw_errorCode v = code"
    "rw_Header (sw_ResponseWriter v) = (if status = 429 \<and> retry \<noteq> [] then map_put ''Retry-After'' retry (rw_Header (sw_ResponseWriter w))
       else rw_Header (sw_ResponseWriter w))"
    by (simp_all add: v_def set_header_def safe(3))
  have "status \<noteq> 0" using safe(2) by auto
  note a = writeJSON_adds [OF ctx this, of "error_payload code [] (upstream_message code)", unfolded w' [symmetric] Let_def v]
  then obtain n where n: "sw_body w' = sw_body w @ take n (marshal_json (error_payload code [] (upstream_message code)) @ [CHR 0x0A])" by blast
  have shape: "retry = [] \<or> allDecimalDigits retry \<or> (\<exists>x. http_date x = Some retry)"
    using safeRetryAfter_shape [of http_date raw] unfolding retry .
  show ?thesis
  proof (intro exI conjI)
    show "\<forall>k. map_of (rw_Header (sw_ResponseWriter w')) k =
          (if k = ''Content-Type'' then Some ''application/json''
           else if k = ''Retry-After'' \<and> status = 429 \<and> retry \<noteq> [] then Some retry
           else map_of (rw_Header (sw_ResponseWriter w)) k)"
      using a by (cases "status = 429 \<and> retry \<noteq> []") auto
  qed (use a n safe safe_codes_typed shape in \<open>simp_all only: insert_iff empty_iff HOL.simp_thms\<close>)
qed

end
