(* ===== verification/Server_Samples.thy ===== *)
theory Server_Samples
  imports Server_Turns Server_Replies Codex_Contract Provider_Turn Session_Samples
begin

text \<open>
  A run of the whole handler: a request that carries the result of a stored call, a provider that answers with a
  stream, and the client on the other side.
\<close>

section \<open>The request\<close>

definition run_document :: gostring where
  "run_document = quoted (''{^model^:^m (go)^,^input^:[{^type^:^function_call_output^,^call_id^:^c^,^output^:^ok^}],''
     @ ''^tools^:[{^type^:^function^,^name^:^ls^,^parameters^:{}}],^stream^:true}'')"

definition run_body :: request_body where
  "run_body = \<lparr>body_bytes = run_document, body_fails = False\<rparr>"


definition run_http :: http_request where
  "run_http = \<lparr>hr_Body = Some run_body, hr_ContentLength = -1, hr_MediaType = Some ''application/json''\<rparr>"

section \<open>The server and its surroundings\<close>

definition run_config :: "provider_outcome list Config" where
  "run_config = \<lparr>ListenAddr = ''127.0.0.1:0'', AllowNonLoopback = False, Model = ''m'', ZenModel = ''z'', cfg_Upstream = None,
     cfg_ZenUpstream = None, ReadHeaderTimeout = second, IdleTimeout = second, RequestBodyReadTimeout = second, StreamIdleTimeout = second,
     DownstreamWriteTimeout = second, MaxBodyBytes = 4096, MaxHeaderBytes = 4096, MaxInputItems = 8, MaxCollectionItems = 16,
     MaxTools = 8, MaxSchemaBytes = 1024, MaxSSELineBytes = 1024, MaxSSEEventBytes = 1024, MaxSSEBufferedBytes = 4096,
     MaxSSEReadBufferBytes = 512, MaxOutputBytes = 1024, MaxTextBytes = 1024, MaxReasoningBytes = 1024,
     cfg_MaxToolCallArgumentBytes = 1024, MaxPendingTurnBytes = 4096, MaxPendingRecords = 2, MaxPendingAggregateBytes = 8192,
     MaxActiveRequests = 2, cfg_ContinuationStore = None, cfg_ContinuationStoreConfig = sample_config\<rparr>"

text \<open>The provider's answer is the list of what its stream holds.\<close>

definition run_upstream :: "provider_outcome list \<Rightarrow> provider_outcome list UpstreamClient" where
  "run_upstream events = (\<lambda>_. Inr (Some \<lparr>ur_StatusCode = 200, ur_RetryAfter = [], ur_MediaType = Some ''text/event-stream'', ur_Body = Some events\<rparr>))"

definition run_server :: "provider_outcome list \<Rightarrow> provider_outcome list Server" where
  "run_server events = \<lparr>sv_config = run_config, sv_upstream = run_upstream events, sv_zenUpstream = notConfiguredUpstream, sv_ready = True,
     sv_requestID = 1, sv_channels = [True], sv_activeRequests = [], sv_activeRequestsDone = 0, sv_canceled = [],
     sv_shuttingDown = False, sv_continuations = saved_store, sv_ownsContinuations = True, sv_continuationClosed = False\<rparr>"

text \<open>A client that stays, a clock that stands at one, and nobody else.\<close>

definition run_env :: "provider_outcome list handler_env" where
  "run_env = \<lparr>he_bodyCause = no_cause, he_shuttingDown = False, he_http_date = (\<lambda>_. None), he_others = (\<lambda>_ s. s),
     he_order = (\<lambda>_. []), he_ctx = (\<lambda>_ _. None), he_now = (\<lambda>_. 1), he_reason = (\<lambda>_. []),
     he_stream = sample_env\<lparr>en_id := (\<lambda>_ _ _. ''id_1'')\<rparr>, he_next = listed\<rparr>"

definition run_writer :: statusWriter where
  "run_writer = \<lparr>sw_ResponseWriter = sample_writer, sw_body = [], sw_context = (\<lambda>_. None), sw_take = (\<lambda>_. None), sw_tick = 0,
     sw_allowCanceledWrite = False, sw_status = 0, sw_errorCode = [], sw_responseID = [], sw_responseModel = [],
     sw_responseTerminal = [], sw_bytesWritten = 0\<rparr>"

definition run_start :: handler_state where
  "run_start = \<lparr>hs_writer = run_writer, hs_store = saved_store, hs_lease = None, hs_ops = 0\<rparr>"


definition run_decoded :: "continuation_value Request" where
  "run_decoded =
     \<lparr>rq_Model = ''m (go)'', rq_Instructions = [], rq_PreviousResponseID = [],
      rq_Input = [FunctionCallOutput ''c'' ''ok'' [] False],
      rq_Tools = [FunctionTool ''ls'' [] ''{}'' None],
      rq_ToolChoice = \<lparr>tcho_Kind = ''auto'', tcho_FunctionName = []\<rparr>,
      rq_Generation = \<lparr>gen_Stream = True, gen_ParallelToolCalls = False, gen_Include = [], gen_Effort = [],
        gen_Format = \<lparr>fmt_Kind = ''text'', fmt_Name = [], fmt_Description = [], fmt_Schema = [], fmt_Strict = None\<rparr>\<rparr>,
      rq_ToolRegistry = None, rq_Continuation = None\<rparr>"

definition run_limits :: DecoderLimits where
  "run_limits = sample_limits\<lparr>dl_MaxJSONDepth := DefaultMaxJSONDepth, dl_MaxJSONTokens := DefaultMaxJSONTokens\<rparr>"

lemma run_decoder: "responses_decoder run_config = Some run_limits"
  by code_simp

lemma run_decodes: "DecodeRequest (Some run_limits) (Some run_http) = Inr run_decoded"
  by code_simp

definition run_registry :: "ToolRegistry option" where
  "run_registry = (case adapter_NewToolRegistry (rq_Tools run_decoded) None of Inr r \<Rightarrow> r | Inl _ \<Rightarrow> None)"

lemma run_registered: "adapter_NewToolRegistry (rq_Tools run_decoded) (rq_ToolRegistry run_decoded) = Inr run_registry"
  "TranslateToolResults (rq_Input run_decoded) = Inr sample_results"
  by code_simp+

abbreviation run_continued :: "provider_outcome list \<Rightarrow> handler_outcome" where
  "run_continued events \<equiv> continue_request run_env (run_server events) (run_decoded\<lparr>rq_ToolRegistry := run_registry\<rparr>) sample_results
     (run_start\<lparr>hs_writer := run_writer\<lparr>sw_tick := 2\<rparr>\<rparr>)"

lemma run_handled: "handleResponses run_env (run_server events) run_http run_start = run_continued events"
proof -
  have "canceled run_start = (False, run_start\<lparr>hs_writer := run_writer\<lparr>sw_tick := 1\<rparr>\<rparr>)"
    "canceled (run_start\<lparr>hs_writer := run_writer\<lparr>sw_tick := 1\<rparr>\<rparr>) = (False, run_start\<lparr>hs_writer := run_writer\<lparr>sw_tick := 2\<rparr>\<rparr>)"
    by (simp_all add: canceled_def context_Err_def run_start_def run_writer_def)
  moreover have "hr_Body run_http = Some run_body" "sv_config (run_server events) = run_config" by (simp_all add: run_http_def run_server_def)
  ultimately show ?thesis using run_registered
    by (simp add: handleResponses_def run_decoder run_decodes)
qed

text \<open>The provider opens the stream and ends it at once.\<close>

lemma silent_run:
  "case run_continued [] of (h, stream) \<Rightarrow>
     (case stream of None \<Rightarrow> False | Some st \<Rightarrow> ss_writeFailure (st_session st) = None \<and> \<not> st_accepted st \<and> st_rounds st = 1)
     \<and> (case hs_lease h of None \<Rightarrow> False | Some l \<Rightarrow> cl_results l = sample_results \<and> 2 < cr_originalExpiry (cs_heap (hs_store h) ! cl_record l))"
  by code_simp

lemma silent_run_outcome:
  obtains h st l where "handleResponses run_env (run_server []) run_http run_start = (h, Some st)"
    "ss_writeFailure (st_session st) = None" "\<not> st_accepted st" "hs_lease h = Some l" "cl_results l = sample_results"
    "2 < cr_originalExpiry (cs_heap (hs_store h) ! cl_record l)"
  using silent_run by (auto simp: run_handled split: prod.splits option.splits)

lemma run_surroundings:
  "fresh_writer (hs_writer run_start)" "connected run_start" "valid_ids (he_stream run_env)"
  "\<forall>k. he_reason run_env k \<in> {[], streamAbortTimeout}" "sv_config (run_server events) = run_config"
  "hs_store run_start = sy_store sample_system" "hs_lease run_start = None" "quiet run_env 2"
  "context_stays_done run_writer"
proof -
  have "validStreamValue ''id_1'' 128" by code_simp
  then show "valid_ids (he_stream run_env)" by (simp add: valid_ids_def run_env_def)
qed (simp_all add: fresh_writer_def connected_def run_start_def run_writer_def sample_writer_def run_env_def run_server_def sample_system_def
    quiet_def undisturbed_def context_stays_done_def)

section \<open>Witnesses\<close>

theorem connected_client_sees_end_witness:
  "\<exists>h st. handleResponses run_env (run_server []) run_http run_start = (h, Some st)
     \<and> ev_type (last (frames (st_session st))) \<in> set terminal_types"
proof -
  obtain h st l where run: "handleResponses run_env (run_server []) run_http run_start = (h, Some st)" "ss_writeFailure (st_session st) = None"
    by (rule silent_run_outcome)
  from connected_client_sees_end [OF run(1) run_surroundings(1-4) run(2)] run(1) show ?thesis by blast
qed

theorem handler_returns_witness:
  "\<exists>h st. handleResponses run_env (run_server []) run_http run_start = (h, Some st) \<and> int (st_rounds st) \<le> 66"
proof -
  obtain h st l where run: "handleResponses run_env (run_server []) run_http run_start = (h, Some st)"
    by (rule silent_run_outcome)
  from handler_returns [OF run] run show ?thesis by (simp add: run_server_def run_config_def positive_or_def)
qed

theorem lease_settled_witness:
  "\<exists>h st l. handleResponses run_env (run_server []) run_http run_start = (h, Some st) \<and> hs_lease h = Some l \<and> cl_done l"
proof -
  obtain h st l where run: "handleResponses run_env (run_server []) run_http run_start = (h, Some st)" "hs_lease h = Some l"
    by (rule silent_run_outcome)
  from lease_settled [OF run(1) run_surroundings(7) run(2)] run show ?thesis by blast
qed

theorem unaccepted_continuation_retryable_witness:
  "\<exists>l t. Begin [] 2 sample_results (hs_store (fst (handleResponses run_env (run_server []) run_http run_start))) = (Inr l, t)"
proof -
  obtain h st l where run: "handleResponses run_env (run_server []) run_http run_start = (h, Some st)" "\<not> st_accepted st" "hs_lease h = Some l"
    "cl_results l = sample_results" "2 < cr_originalExpiry (cs_heap (hs_store h) ! cl_record l)"
    by (rule silent_run_outcome)
  have "2 < he_now run_env (hs_ops run_start) + cc_ConsumingLeaseTTL (cs_config (hs_store run_start))"
    by (simp add: run_env_def run_start_def saved_store_def sample_store_def DefaultContinuationStoreConfig_def continuation_defaults)
  from unaccepted_continuation_retryable [OF sample_reachable run_surroundings(6,7) run(1,3) _ run_surroundings(8) this run(5), of "[]"]
  show ?thesis using run by simp
qed

theorem upstream_reply_safe_witness:
  "\<exists>code. code \<in> set safe_codes
     \<and> sw_errorCode (writeUpstreamError (\<lambda>_. None) (UpstreamFailure \<lparr>ue_Code = ''made up'', ue_StatusCode = 418, ue_RetryAfter = ''7''\<rparr>) run_writer) = code"
  using upstream_reply_safe [OF run_surroundings(9) refl refl] by blast

end
