(* ===== verification/Server_Tool_Run.thy ===== *)
theory Server_Tool_Run
  imports Server_Samples
begin

text \<open>
  A run in which the provider calls a tool. The loop is not evaluated as a whole: the decoder's events, the
  session's answers and the store's are evaluated one by one, and put together by a lemma on the loop.
\<close>

section \<open>Rounds that only deliver\<close>

fun delivers :: "('p \<Rightarrow> (stream_error + ChatCompletionStreamEvent) \<times> 'p) \<Rightarrow> 'p \<Rightarrow> BridgeStreamDecoder \<Rightarrow> StreamEvent list \<Rightarrow> ('p \<times> BridgeStreamDecoder) option" where
  "delivers nxt p d [] = Some (p, d)"
| "delivers nxt p d (ev # es) =
     (case bridge_Next nxt p d of (Some e, p, d) \<Rightarrow> if e = ev then delivers nxt p d es else None | (None, _) \<Rightarrow> None)"

fun handles :: "StreamEvent list \<Rightarrow> StreamSession \<Rightarrow> StreamSession option" where
  "handles [] s = Some s"
| "handles (ev # es) s =
     (if ss_writeFailure s \<noteq> None \<or> (case ev of Completed _ \<Rightarrow> True | _ \<Rightarrow> False) then None
      else case session_Handle (Some ev) s of (Inr _, s) \<Rightarrow> if ss_TerminalEmitted s then None else handles es s | (Inl _, _) \<Rightarrow> None)"

text \<open>The client is there, the watcher is silent and the continuation needs no acceptance.\<close>

definition calm :: "'p handler_env \<Rightarrow> stream_state \<Rightarrow> bool" where
  "calm env st \<longleftrightarrow> connected st \<and> st_accepted st \<and> he_reason env = (\<lambda>_. []) \<and> undisturbed env"

definition alike :: "stream_state \<Rightarrow> stream_state \<Rightarrow> bool" where
  "alike st t \<longleftrightarrow> hs_store t = hs_store st \<and> hs_ops t = hs_ops st"

lemma loop_delivers:
  "delivers (he_next env) p (st_decoder st) es = Some (p', d) \<Longrightarrow> handles es (st_session st) = Some s \<Longrightarrow> calm env st \<Longrightarrow>
     \<exists>t. responses_loop env p st = responses_loop env p' t \<and> st_decoder t = d \<and> st_session t = s \<and> calm env t \<and> alike st t"
proof (induction es arbitrary: p st)
  case Nil
  then show ?case by (intro exI [of _ st]) (simp add: alike_def)
next
  case (Cons ev es)
  from Cons.prems(1) obtain p1 d1 where n: "bridge_Next (he_next env) p (st_decoder st) = (Some ev, p1, d1)"
    and rest: "delivers (he_next env) p1 d1 es = Some (p', d)"
    by (auto split: prod.splits option.splits if_splits)
  from Cons.prems(2) obtain s1 where h: "session_Handle (Some ev) (st_session st) = (Inr (), s1)" "handles es s1 = Some s"
    and w: "ss_writeFailure (st_session st) = None" "\<not> ss_TerminalEmitted s1" and c: "\<forall>r. ev \<noteq> Completed r"
    by (auto split: prod.splits sum.splits if_splits StreamEvent.splits)
  define u where "u = snd (canceled (st\<lparr>st_decoder := d1, st_rounds := Suc (st_rounds st)\<rparr>))"
  have u: "\<not> fst (canceled (st\<lparr>st_decoder := d1, st_rounds := Suc (st_rounds st)\<rparr>))" "st_session u = st_session st" "st_decoder u = d1"
    "st_accepted u" "calm env u" "alike st u"
    using Cons.prems(3) by (simp_all add: calm_def u_def alike_def)
  have "save_turn env ev u = (True, u)" using c by (cases ev) (simp_all add: save_turn_def)
  then have "stream_round env (Some ev) (st\<lparr>st_decoder := d1\<rparr>) = (True, u\<lparr>st_session := s1\<rparr>)"
    using Cons.prems(3) u w h(1) unfolding stream_round_def Let_def case_prod_unfold u_def [symmetric]
    by (simp add: calm_def deliver_def accept_continuation_def u_def [symmetric])
  then have l: "responses_loop env p st = responses_loop env p1 (u\<lparr>st_session := s1\<rparr>)"
    by (subst responses_loop.simps) (simp add: n)
  have "calm env (u\<lparr>st_session := s1\<rparr>)" using u(5) by (simp add: calm_def)
  then obtain t where "responses_loop env p1 (u\<lparr>st_session := s1\<rparr>) = responses_loop env p' t" "st_decoder t = d" "st_session t = s" "calm env t"
    "alike (u\<lparr>st_session := s1\<rparr>) t"
    using Cons.IH [of p1 "u\<lparr>st_session := s1\<rparr>"] rest h(2) u(3) by auto
  then show ?case using l u(6) by (auto simp: alike_def)
qed

lemma loop_completes:
  assumes n: "bridge_Next (he_next env) p (st_decoder st) = (Some (Completed r), p', d)" and turn: "bridge_PendingTurn d = Some turn"
    and calm: "calm env st" and w: "ss_writeFailure (st_session st) = None"
    and saved: "fst (SaveContext (he_order env (hs_ops st)) (he_ctx env (hs_ops st)) (he_now env (hs_ops st)) turn (hs_store st)) = Inr ()"
    and h: "session_Handle (Some (Completed r)) (st_session st) = (Inr (), s)" "ss_TerminalEmitted s"
  shows "said_completed (responses_loop env p st) \<and> st_decoder (responses_loop env p st) = d"
proof -
  define u where "u = snd (canceled (st\<lparr>st_decoder := d, st_rounds := Suc (st_rounds st)\<rparr>))"
  have u: "\<not> fst (canceled (st\<lparr>st_decoder := d, st_rounds := Suc (st_rounds st)\<rparr>))" "st_session u = st_session st" "st_decoder u = d"
    "connected u" "hs_store u = hs_store st" "hs_ops u = hs_ops st"
    using calm by (simp_all add: calm_def u_def)
  let ?v = "snd (save_context env turn (snd (canceled u)))"
  have und: "undisturbed env" using calm by (simp add: calm_def)
  have "fst (save_context env turn (snd (canceled u))) = Inr ()"
    using saved u by (simp add: save_context_def store_op_undisturbed [OF und])
  then have "save_turn env (Completed r) u = (True, ?v)"
    using u turn by (simp add: save_turn_def Let_def case_prod_unfold)
  moreover have "st_session ?v = st_session st" "st_decoder ?v = d" using u by (simp_all add: save_context_def)
  ultimately have "stream_round env (Some (Completed r)) (st\<lparr>st_decoder := d\<rparr>) = (False, note_terminal_type ''response.completed'' (?v\<lparr>st_session := s\<rparr>))"
    using calm u w h unfolding stream_round_def Let_def case_prod_unfold u_def [symmetric]
    by (simp add: calm_def deliver_def accept_continuation_def isContinuationAcceptanceEvent_def responseTerminalType_def u_def [symmetric])
  then have "responses_loop env p st = note_terminal_type ''response.completed'' (?v\<lparr>st_session := s\<rparr>)"
    by (subst responses_loop.simps) (simp add: n)
  then show ?thesis using u by (simp add: save_context_def)
qed

section \<open>The run\<close>

definition tool_document :: gostring where
  "tool_document = quoted (''{^model^:^m (go)^,^input^:[{^type^:^message^,^role^:^user^,^content^:^x^}],''
     @ ''^tools^:[{^type^:^function^,^name^:^ls^,^parameters^:{}}],^stream^:true}'')"

definition tool_http :: http_request where
  "tool_http = run_http\<lparr>hr_Body := Some \<lparr>body_bytes = tool_document, body_fails = False\<rparr>\<rparr>"

definition tool_decoded :: "continuation_value Request" where
  "tool_decoded = run_decoded\<lparr>rq_Input := [Message [] ''user'' [TextContent ''x'']]\<rparr>"

lemma tool_decodes: "DecodeRequest (Some run_limits) (Some tool_http) = Inr tool_decoded"
  by code_simp

definition tool_request :: "continuation_value Request" where
  "tool_request = tool_decoded\<lparr>rq_ToolRegistry := run_registry\<rparr>"

lemma tool_registered: "adapter_NewToolRegistry (rq_Tools tool_decoded) (rq_ToolRegistry tool_decoded) = Inr run_registry"
  "TranslateToolResults (rq_Input tool_request) = Inr []"
  by code_simp+

lemma tool_accepted:
  "validateResponsesRequest tool_request False 8 1024 = None" "SplitTaggedModel ''m (go)'' = Some (''m'', ProviderTagGo)"
  by code_simp+

definition tool_stream :: "provider_outcome list" where
  "tool_stream =
     [Inr (ChunkEvent (sample_chunk None (Some ''tool_calls'') [\<lparr>tc_Index = Some 0, tc_ID = ''a'', tc_Type = ''function'',
           tc_Function = \<lparr>tf_Name = ''ls'', tf_Arguments = ''{}''\<rparr>\<rparr>])),
      Inr DoneEvent]"

definition tool_events :: "StreamEvent list" where
  "tool_events =
     [ResponseStarted ''r'' (10 ^ 9) ''m'', ToolCallStarted (ToolCallKey 0 0) ToolFunction ''a'' ''ls'',
      ToolCallArgumentsDelta (ToolCallKey 0 0) ''{}'', ToolCallCompleted (ToolCallKey 0 0) ToolFunction ''a'' ''ls'' ''{}'']"

definition tool_turn :: PendingTurn where
  "tool_turn = \<lparr>pt_Provider = ''opencodego'', pt_Model = ''m'', pt_ReasoningContent = [], pt_AssistantContent = [],
     pt_ToolCalls = [\<lparr>uc_CallID = ''a'', uc_ProviderCallID = ''a'', uc_Kind = ToolFunction, uc_Name = ''ls'', uc_Arguments = ''{}'',
        uc_Registration = \<lparr>reg_Kind = [], reg_InboundName = [], reg_UpstreamName = [], reg_WrapperField = []\<rparr>\<rparr>],
     pt_ToolRegistrations = [], pt_CallIDs = [''a''], pt_CreatedAt = 1000000000, pt_ExpiresAt = zero_time, pt_SizeBytes = 0, pt_Status = []\<rparr>"

abbreviation tool_decoder :: BridgeStreamDecoder where
  "tool_decoder \<equiv> NewBridgeStreamDecoder (decoder_options run_config tool_request)"

lemma tool_provider:
  "case delivers listed tool_stream tool_decoder tool_events of None \<Rightarrow> False
   | Some (p, d) \<Rightarrow> (case bridge_Next listed p d of (e, _, d) \<Rightarrow> e = Some (Completed ''tool_calls'') \<and> bridge_PendingTurn d = Some tool_turn)"
  by code_simp

definition tool_session :: StreamSession where
  "tool_session = projr (NewStreamSession sample_writer (he_stream run_env) (stream_options run_config ''m''))"

lemma tool_session_made: "NewStreamSession sample_writer (he_stream run_env) (stream_options run_config ''m'') = Inr tool_session"
proof -
  have "\<not> isl (NewStreamSession sample_writer (he_stream run_env) (stream_options run_config ''m''))" by code_simp
  then show ?thesis by (simp add: tool_session_def)
qed

lemma tool_client:
  "case session_Start tool_session of (r, s) \<Rightarrow> r = Inr ()
     \<and> (case handles tool_events s of None \<Rightarrow> False
        | Some s \<Rightarrow> ss_writeFailure s = None
            \<and> (case session_Handle (Some (Completed ''tool_calls'')) s of (r, s) \<Rightarrow> r = Inr () \<and> ss_TerminalEmitted s))"
  by code_simp

lemma tool_saved: "fst (SaveContext [] (\<lambda>_. None) 1 tool_turn saved_store) = Inr ()"
  by code_simp

abbreviation tool_start :: handler_state where
  "tool_start \<equiv> run_start\<lparr>hs_writer := run_writer\<lparr>sw_tick := 2\<rparr>\<rparr>"

lemma tool_handled: "handleResponses run_env (run_server tool_stream) tool_http run_start
    = stream_response run_env run_config tool_request ''m'' tool_stream tool_start"
proof -
  have "canceled run_start = (False, run_start\<lparr>hs_writer := run_writer\<lparr>sw_tick := 1\<rparr>\<rparr>)"
    "canceled (run_start\<lparr>hs_writer := run_writer\<lparr>sw_tick := 1\<rparr>\<rparr>) = (False, tool_start)"
    by (simp_all add: canceled_def context_Err_def run_start_def run_writer_def)
  moreover have "hr_Body tool_http = Some \<lparr>body_bytes = tool_document, body_fails = False\<rparr>" "sv_config (run_server tool_stream) = run_config"
    by (simp_all add: tool_http_def run_server_def)
  moreover have "resolveUpstream (run_server tool_stream) (rq_Model tool_request) = Some (run_upstream tool_stream, ''m'')"
    using tool_accepted(2) by (simp add: resolveUpstream_def tool_request_def tool_decoded_def run_decoded_def run_server_def run_config_def)
  moreover have "run_upstream tool_stream tool_request
      = Inr (Some \<lparr>ur_StatusCode = 200, ur_RetryAfter = [], ur_MediaType = Some ''text/event-stream'', ur_Body = Some tool_stream\<rparr>)"
    by (simp add: run_upstream_def)
  moreover have "validateUpstreamResponse (he_http_date run_env)
      (Some \<lparr>ur_StatusCode = 200, ur_RetryAfter = [], ur_MediaType = Some ''text/event-stream'', ur_Body = Some tool_stream\<rparr>) = None"
    by code_simp
  moreover have "hs_lease tool_start = None" "MaxTools run_config = 8" "MaxSchemaBytes run_config = 1024"
    by (simp_all add: run_start_def run_config_def)
  ultimately show ?thesis using tool_registered tool_accepted(1)
    by (simp add: handleResponses_def run_decoder tool_decodes continue_request_def run_request_def tool_request_def [symmetric])
qed

lemma tool_run:
  obtains h st where "handleResponses run_env (run_server tool_stream) tool_http run_start = (h, Some st)"
    "sw_responseTerminal (hs_writer h) = ''response.completed''" "bridge_PendingTurn (st_decoder st) = Some tool_turn"
proof -
  define h1 where "h1 = snd (canceled (on_writer (\<lambda>w. w\<lparr>sw_responseID := ss_ResponseID tool_session, sw_responseModel := ss_Model tool_session\<rparr>) tool_start))"
  obtain s0 where s0: "session_Start tool_session = (Inr (), s0)"
    using tool_client by (cases "session_Start tool_session") simp
  obtain s1 s2 where s1: "handles tool_events s0 = Some s1" "ss_writeFailure s1 = None"
      "session_Handle (Some (Completed ''tool_calls'')) s1 = (Inr (), s2)" "ss_TerminalEmitted s2"
  proof -
    have "case handles tool_events s0 of None \<Rightarrow> False
        | Some s \<Rightarrow> ss_writeFailure s = None
            \<and> (case session_Handle (Some (Completed ''tool_calls'')) s of (r, s) \<Rightarrow> r = Inr () \<and> ss_TerminalEmitted s)"
      using tool_client by (simp add: s0)
    then show thesis by (cases "handles tool_events s0") (simp_all add: that split: prod.splits)
  qed
  obtain p d p' d' where d: "delivers listed tool_stream tool_decoder tool_events = Some (p, d)"
      "bridge_Next listed p d = (Some (Completed ''tool_calls''), p', d')" "bridge_PendingTurn d' = Some tool_turn"
  proof (cases "delivers listed tool_stream tool_decoder tool_events")
    case (Some y)
    then show thesis using tool_provider that [of "fst y" "snd y"]
      by (cases "bridge_Next listed (fst y) (snd y)") (simp add: case_prod_unfold)
  qed (use tool_provider in simp)
  let ?st = "start_state run_config tool_request s0 h1"
  have calm: "calm run_env ?st"
    by (simp add: calm_def connected_def h1_def on_writer_def run_start_def run_writer_def run_env_def undisturbed_def)
  have "delivers (he_next run_env) tool_stream (st_decoder ?st) tool_events = Some (p, d)" using d(1) by (simp add: run_env_def)
  from loop_delivers [OF this _ calm, of s1] s1(1) obtain t where t: "responses_loop run_env tool_stream ?st = responses_loop run_env p t" "st_decoder t = d" "st_session t = s1"
      "calm run_env t" "alike ?st t"
    by auto
  have "hs_store t = saved_store" "hs_ops t = 0" using t(5) by (simp_all add: alike_def h1_def run_start_def)
  then have saved: "fst (SaveContext (he_order run_env (hs_ops t)) (he_ctx run_env (hs_ops t)) (he_now run_env (hs_ops t)) tool_turn (hs_store t)) = Inr ()"
    using tool_saved by (simp add: run_env_def)
  have "bridge_Next (he_next run_env) p (st_decoder t) = (Some (Completed ''tool_calls''), p', d')" using d(2) t(2) by (simp add: run_env_def)
  from loop_completes [OF this d(3) t(4) _ saved, of s2] s1(2-4) t(3)
  have fin: "said_completed (responses_loop run_env p t) \<and> st_decoder (responses_loop run_env p t) = d'"
    by simp
  let ?fin = "responses_loop run_env p t"
  have "handleResponses run_env (run_server tool_stream) tool_http run_start = end_of_stream ?fin"
  proof -
    have "NewStreamSession (sw_ResponseWriter (hs_writer tool_start)) (he_stream run_env) (stream_options run_config ''m'') = Inr tool_session"
      using tool_session_made by (simp add: run_start_def run_writer_def)
    moreover have "\<not> fst (canceled (on_writer (\<lambda>w. w\<lparr>sw_responseID := ss_ResponseID tool_session, sw_responseModel := ss_Model tool_session\<rparr>) tool_start))"
      by (simp add: canceled_def context_Err_def on_writer_def run_writer_def)
    ultimately show ?thesis using t(1) s0 unfolding tool_handled stream_response_def h1_def by (simp add: Let_def case_prod_unfold)
  qed
  moreover have "sw_responseTerminal (hs_writer (fst (end_of_stream ?fin))) = ''response.completed''"
    using fin by (simp add: end_of_stream_def said_completed_def on_writer_def adopt_session_def handler_state.truncate_def)
  ultimately show thesis using that [of "fst (end_of_stream ?fin)" ?fin] fin d(3) by (simp add: end_of_stream_def)
qed

theorem completed_turn_continues_witness:
  "\<exists>l t. Begin [] 2 [\<lparr>tr_CallID = ''a'', tr_Kind = ToolFunction, tr_Output = ''out'', tr_Status = [], tr_Error = False\<rparr>]
     (hs_store (fst (handleResponses run_env (run_server tool_stream) tool_http run_start))) = (Inr l, t)"
proof -
  obtain h st where run: "handleResponses run_env (run_server tool_stream) tool_http run_start = (h, Some st)"
    "sw_responseTerminal (hs_writer h) = ''response.completed''" "bridge_PendingTurn (st_decoder st) = Some tool_turn"
    by (rule tool_run)
  have "sw_responseTerminal (hs_writer run_start) \<noteq> ''response.completed''" "he_others run_env = (\<lambda>_ s. s)"
    "\<forall>k. 2 < he_now run_env k + cc_TTL (cs_config (hs_store run_start))"
    by (simp_all add: run_start_def run_writer_def run_env_def saved_store_def sample_store_def DefaultContinuationStoreConfig_def continuation_defaults)
  from completed_turn_continues [OF sample_reachable run_surroundings(6,7) run(1) this(1) run(2,3) this(2,3),
      of "[\<lparr>tr_CallID = ''a'', tr_Kind = ToolFunction, tr_Output = ''out'', tr_Status = [], tr_Error = False\<rparr>]" "[]"] run(1)
  show ?thesis by (simp add: tool_turn_def)
qed

end
