(* ===== verification/Wire_Json.thy ===== *)
theory Wire_Json
  imports Map_Request
begin

text \<open>
  The body of a provider request: \<open>json.Marshal\<close> of the structs of \<open>internal/opencodego/types.go\<close>, field by field in
  the order of the structs, with the raw schemas compacted as the encoder compacts a \<open>json.RawMessage\<close>.
\<close>

section \<open>Compaction of raw messages\<close>

text \<open>
  \<open>appendCompact\<close> with HTML escaping, on valid JSON: white space between the tokens is dropped; inside strings
  the characters that HTML gives a meaning and the two line separators of JavaScript are escaped. In valid JSON
  these occur in strings only.
\<close>

definition html_escape :: "char \<Rightarrow> gostring" where
  "html_escape c = [CHR 0x5C, CHR ''u'', CHR ''0'', CHR ''0'', hex_digit (byte c div 16), hex_digit (byte c mod 16)]"

definition line_separator :: "gostring \<Rightarrow> bool" where
  "line_separator s \<longleftrightarrow> (case s of c # d # e # _ \<Rightarrow> c = CHR 0xE2 \<and> d = CHR 0x80 \<and> (e = CHR 0xA8 \<or> e = CHR 0xA9) | _ \<Rightarrow> False)"

definition separator_escape :: "gostring \<Rightarrow> gostring" where
  "separator_escape s = [CHR 0x5C] @ ''u202'' @ [hex_digit (byte (s ! 2) mod 16)]"

function compact :: "gostring \<Rightarrow> gostring" and compact_in :: "gostring \<Rightarrow> gostring" where
  "compact [] = []"
| "compact (c # cs) =
     (if c \<in> set [CHR 0x20, CHR 0x09, CHR 0x0D, CHR 0x0A] then compact cs
      else if c = CHR 0x22 then c # compact_in cs
      else c # compact cs)"
| "compact_in [] = []"
| "compact_in (c # cs) =
     (if c = CHR 0x22 then c # compact cs
      else if c = CHR 0x5C then (case cs of [] \<Rightarrow> [c] | e # es \<Rightarrow> c # e # compact_in es)
      else if c = CHR ''<'' \<or> c = CHR ''>'' \<or> c = CHR ''&'' then html_escape c @ compact_in cs
      else if line_separator (c # cs) then separator_escape (c # cs) @ compact_in (drop 2 cs)
      else c # compact_in cs)"
  by pat_completeness auto
termination
  by (relation "measure (case_sum length length)") auto

text \<open>\<open>RawMessage\<close>: a nil message is null, an invalid one is an error of the encoder.\<close>

definition marshal_raw :: "gobytes \<Rightarrow> gostring option" where
  "marshal_raw raw = (if raw = [] then Some ''null'' else if parse_json raw = None then None else Some (compact raw))"

section \<open>The structs\<close>

definition bool_text :: "bool \<Rightarrow> gostring" where
  "bool_text b = (if b then ''true'' else ''false'')"

definition quote_or_null :: "gostring option \<Rightarrow> gostring" where
  "quote_or_null p = (case p of None \<Rightarrow> ''null'' | Some s \<Rightarrow> quote s)"

text \<open>Fields marked \<open>omitempty\<close>: left out when the string is empty, the slice is empty, or the pointer is nil.\<close>

definition omit_empty :: "gostring \<Rightarrow> gostring \<Rightarrow> (gostring \<times> gostring) list" where
  "omit_empty k s = (if s = [] then [] else [(k, quote s)])"

definition omit_nil :: "gostring \<Rightarrow> ('a \<Rightarrow> gostring) \<Rightarrow> 'a option \<Rightarrow> (gostring \<times> gostring) list" where
  "omit_nil k f p = (case p of None \<Rightarrow> [] | Some x \<Rightarrow> [(k, f x)])"

definition omit_none :: "gostring \<Rightarrow> gostring list \<Rightarrow> (gostring \<times> gostring) list" where
  "omit_none k vs = (if vs = [] then [] else [(k, arr_text vs)])"

definition tool_call_text :: "ToolCall \<Rightarrow> gostring" where
  "tool_call_text call =
     obj_text (omit_nil ''index'' itoa (tc_Index call)
       @ [(''id'', quote (tc_ID call)), (''type'', quote (tc_Type call)),
          (''function'', obj_text [(''name'', quote (tf_Name (tc_Function call))), (''arguments'', quote (tf_Arguments (tc_Function call)))])])"

definition message_text :: "ChatMessage \<Rightarrow> gostring" where
  "message_text m =
     obj_text ([(''role'', quote (cm_Role m)), (''content'', quote_or_null (cm_Content m))]
       @ omit_nil ''reasoning_content'' quote (cm_ReasoningContent m)
       @ omit_none ''tool_calls'' (map tool_call_text (cm_ToolCalls m))
       @ omit_empty ''tool_call_id'' (cm_ToolCallID m))"

definition tool_text :: "ChatCompletionTool \<Rightarrow> gostring option" where
  "tool_text t =
     (case marshal_raw (fd_Parameters (wt_Function t)) of
        None \<Rightarrow> None
      | Some parameters \<Rightarrow>
          Some (obj_text [(''type'', quote (wt_Type t)),
            (''function'', obj_text ([(''name'', quote (fd_Name (wt_Function t)))]
              @ omit_empty ''description'' (fd_Description (wt_Function t))
              @ [(''parameters'', parameters)]
              @ omit_nil ''strict'' bool_text (fd_Strict (wt_Function t))))]))"

text \<open>The marshaller of \<open>ToolChoice\<close>; compacting what it wrote changes nothing.\<close>

definition choice_text :: "ProviderToolChoice \<Rightarrow> gostring" where
  "choice_text choice =
     (if ptc_String choice \<noteq> [] then quote (ptc_String choice)
      else obj_text [(''type'', quote (ptc_Type choice)), (''function'', obj_text [(''name'', quote (ptc_Function choice))])])"

definition type_text :: "gostring \<Rightarrow> gostring" where
  "type_text kind = obj_text [(''type'', quote kind)]"

text \<open>The request; the messages are never a nil slice, since the mapping refuses a request without any.\<close>

fun all_texts :: "gostring option list \<Rightarrow> gostring list option" where
  "all_texts [] = Some []"
| "all_texts (t # ts) = (case t of None \<Rightarrow> None | Some x \<Rightarrow> map_option ((#) x) (all_texts ts))"

definition marshal_request :: "ChatCompletionRequest \<Rightarrow> gobytes option" where
  "marshal_request wire =
     (case all_texts (map tool_text (cq_Tools wire)) of
        None \<Rightarrow> None
      | Some tools \<Rightarrow>
          Some (obj_text ([(''model'', quote (cq_Model wire)), (''messages'', arr_text (map message_text (cq_Messages wire)))]
            @ omit_none ''tools'' tools
            @ omit_nil ''tool_choice'' choice_text (cq_ToolChoice wire)
            @ [(''parallel_tool_calls'', bool_text (cq_ParallelToolCalls wire)), (''stream'', bool_text (cq_Stream wire))]
            @ omit_nil ''thinking'' type_text (cq_Thinking wire)
            @ omit_empty ''reasoning_effort'' (cq_ReasoningEffort wire)
            @ omit_nil ''response_format'' type_text (cq_ResponseFormat wire))))"

end
