(* ===== verification/Client.thy ===== *)
theory Client
  imports Wire_Json Server_Errors
begin

text \<open>
  \<open>internal/opencodego/client.go\<close>: the provider's HTTP client. Its construction checks the address, the
  credential and the limits; a request is mapped, written as JSON and sent; the answer becomes a response or a
  provider error. The address is parsed by \<open>net/url\<close>, whose answers are arguments, and the transport is a function.
\<close>

section \<open>Checks on header values\<close>

definition validHeaderValue :: "gostring \<Rightarrow> int \<Rightarrow> bool" where
  "validHeaderValue value maxBytes =
     (if value = [] \<or> len value > maxBytes \<or> \<not> utf8_Valid value then False
      else list_all (\<lambda>r. \<not> (r = [CHR 0x0D] \<or> r = [CHR 0x0A] \<or> control_rune r)) (runes value))"

definition validCredential :: "gostring \<Rightarrow> bool" where
  "validCredential value =
     (if value = [] \<or> TrimSpace value \<noteq> value \<or> \<not> validHeaderValue value 4096 then False
      else list_all (\<lambda>c. \<not> (byte c < 0x21 \<or> byte c > 0x7e)) value)"

text \<open>A rune outside ASCII is not a digit, and its bytes are not digits either.\<close>

definition allDigits :: "gostring \<Rightarrow> bool" where
  "allDigits value = list_all (\<lambda>c. \<not> (byte c < 48 \<or> byte c > 57)) value"

definition safeRetryAfter :: "(gostring \<Rightarrow> gostring option) \<Rightarrow> gostring \<Rightarrow> gostring" where
  "safeRetryAfter http_date value =
     (let value = TrimSpace value in
      if value = [] \<or> len value > 128 \<or> \<not> validHeaderValue value 128 then []
      else if allDigits value then value
      else case http_date value of Some formatted \<Rightarrow> formatted | None \<Rightarrow> [])"

definition safeMediaType :: "(gostring \<Rightarrow> gostring option) \<Rightarrow> gostring \<Rightarrow> gostring" where
  "safeMediaType media_type value = (case media_type value of None \<Rightarrow> [] | Some mediaType \<Rightarrow> mediaType)"

section \<open>The endpoint\<close>

record URL =
  u_Scheme :: gostring
  u_User :: bool \<comment> \<open>whether there is a user info\<close>
  u_Host :: gostring
  u_Path :: gostring
  u_RawPath :: gostring
  u_RawQuery :: gostring
  u_Fragment :: gostring

text \<open>
  The answers of \<open>url.Parse\<close>, \<open>(*URL).String\<close> and \<open>net.ParseIP\<close>; of an address only whether it is a loopback
  address is asked.
\<close>

record net_library =
  url_Parse :: "gostring \<Rightarrow> URL option"
  url_String :: "URL \<Rightarrow> gostring"
  ip_IsLoopback :: "gostring \<Rightarrow> bool option"

text \<open>\<open>(*URL).Hostname\<close>: the host without its port, if the text behind the last colon can be one, and without brackets.\<close>

definition strip_port :: "gostring \<Rightarrow> gostring" where
  "strip_port hostPort =
     (case LastIndex hostPort '':'' of
        None \<Rightarrow> hostPort
      | Some colon \<Rightarrow> if allDigits (drop (Suc colon) hostPort) then take colon hostPort else hostPort)"

definition Hostname :: "URL \<Rightarrow> gostring" where
  "Hostname u =
     (let host = strip_port (u_Host u) in
      if HasPrefix host ''['' \<and> HasSuffix host '']'' then take (length host - 2) (drop 1 host) else host)"

definition isLoopbackHost :: "net_library \<Rightarrow> gostring \<Rightarrow> bool" where
  "isLoopbackHost lib host =
     (if fold_ascii host = ''localhost'' then True
      else case ip_IsLoopback lib host of None \<Rightarrow> False | Some loopback \<Rightarrow> loopback)"

text \<open>\<open>strings.Split(path, "/")\<close>.\<close>

fun path_segments :: "gostring \<Rightarrow> gostring list" where
  "path_segments [] = [[]]"
| "path_segments (c # cs) =
     (if c = CHR ''/'' then [] # path_segments cs
      else case path_segments cs of [] \<Rightarrow> [[c]] | s # ss \<Rightarrow> (c # s) # ss)"

definition trim_slashes :: "gostring \<Rightarrow> gostring" where
  "trim_slashes path = rev (dropWhile (\<lambda>c. c = CHR ''/'') (rev path))"

definition endpointURL :: "net_library \<Rightarrow> gostring \<Rightarrow> ErrorCode + URL" where
  "endpointURL lib raw =
     (case url_Parse lib raw of
        None \<Rightarrow> Inl ErrorInvalidConfiguration
      | Some parsed \<Rightarrow>
          if u_Scheme parsed = [] \<or> u_Host parsed = [] \<or> u_User parsed \<or> u_RawQuery parsed \<noteq> [] \<or> u_Fragment parsed \<noteq> []
          then Inl ErrorInvalidConfiguration
          else if u_Scheme parsed \<noteq> ''https'' \<and> \<not> (u_Scheme parsed = ''http'' \<and> isLoopbackHost lib (Hostname parsed))
          then Inl ErrorInvalidConfiguration
          else if \<not> utf8_Valid (u_Path parsed) \<or> list_ex (\<lambda>c. c \<in> set [CHR 0x00, CHR 0x0D, CHR 0x0A]) (u_Path parsed)
          then Inl ErrorInvalidConfiguration
          else if list_ex (\<lambda>segment. segment = ''.'' \<or> segment = ''..'') (path_segments (u_Path parsed))
          then Inl ErrorInvalidConfiguration
          else
            let cleanPath = trim_slashes (u_Path parsed);
                cleanPath = (if \<not> HasSuffix cleanPath ''/v1'' then cleanPath @ ''/v1'' else cleanPath)
            in Inr (parsed\<lparr>u_Path := cleanPath @ ''/chat/completions'', u_RawPath := []\<rparr>))"

section \<open>The client\<close>

definition client_second :: int where "client_second = 10 ^ 9"
definition DefaultDialTimeout :: int where "DefaultDialTimeout = 10 * client_second"
definition DefaultTLSHandshakeTimeout :: int where "DefaultTLSHandshakeTimeout = 10 * client_second"
definition DefaultResponseHeaderTimeout :: int where "DefaultResponseHeaderTimeout = 30 * client_second"
definition DefaultBaseURL :: gostring where "DefaultBaseURL = ''https://opencode.ai/zen/go/v1''"
definition DefaultUserAgent :: gostring where "DefaultUserAgent = ''opencode-go-gateway/dev''"
definition DefaultMaxRequestBodyBytes :: int where "DefaultMaxRequestBodyBytes = 16 * 2 ^ 20"

text \<open>
  The HTTP client of the configuration is none for nil; \<open>newDefaultHTTPClient\<close>, which makes the default one from its three
  timeouts, is an argument.
\<close>

record 'h ClientConfig =
  ck_APIKey :: gostring
  ck_BaseURL :: gostring
  ck_Model :: gostring
  ck_UserAgent :: gostring
  ck_HTTPClient :: "'h option"
  ck_ThinkingMode :: ThinkingMode
  ck_MaxRequestBodyBytes :: int
  ck_DialTimeout :: int
  ck_TLSHandshakeTimeout :: int
  ck_ResponseHeaderTimeout :: int

record 'h Client =
  oc_httpClient :: 'h
  oc_endpoint :: URL
  oc_apiKey :: gostring
  oc_model :: gostring
  oc_userAgent :: gostring
  oc_thinkingMode :: ThinkingMode
  oc_maxRequestBodyBytes :: int

definition NewClient :: "net_library \<Rightarrow> (int \<Rightarrow> int \<Rightarrow> int \<Rightarrow> 'h) \<Rightarrow> 'h ClientConfig \<Rightarrow> ErrorCode + 'h Client" where
  "NewClient lib newDefaultHTTPClient config =
     attempt (endpointURL lib (or_text (ck_BaseURL config) DefaultBaseURL)) (\<lambda>endpoint.
     if \<not> validCredential (ck_APIKey config) then Inl ErrorInvalidConfiguration
     else
       let model = or_text (ck_Model config) DefaultModel in
       case validateProviderModel model of
         Some e \<Rightarrow> Inl e
       | None \<Rightarrow>
           let userAgent = or_text (ck_UserAgent config) DefaultUserAgent;
               maxBody = or_default (ck_MaxRequestBodyBytes config) DefaultMaxRequestBodyBytes;
               dial = or_default (ck_DialTimeout config) DefaultDialTimeout;
               tls = or_default (ck_TLSHandshakeTimeout config) DefaultTLSHandshakeTimeout;
               header = or_default (ck_ResponseHeaderTimeout config) DefaultResponseHeaderTimeout;
               mode = ck_ThinkingMode config
           in if \<not> validHeaderValue userAgent 256 then Inl ErrorInvalidConfiguration
              else if maxBody \<le> 0 then Inl ErrorInvalidConfiguration
              else if dial \<le> 0 \<or> tls \<le> 0 \<or> header \<le> 0 then Inl ErrorInvalidConfiguration
              else if mode \<noteq> ThinkingDefault \<and> mode \<noteq> ThinkingEnabled \<and> mode \<noteq> ThinkingDisabled then Inl ErrorInvalidConfiguration
              else Inr \<lparr>oc_httpClient = (case ck_HTTPClient config of None \<Rightarrow> newDefaultHTTPClient dial tls header | Some h \<Rightarrow> h),
                oc_endpoint = endpoint, oc_apiKey = ck_APIKey config, oc_model = model, oc_userAgent = userAgent,
                oc_thinkingMode = (if mode = ThinkingDefault then ThinkingEnabled else mode), oc_maxRequestBodyBytes = maxBody\<rparr>)"

definition BuildRequest :: "'h Client \<Rightarrow> continuation_value Request \<Rightarrow> ErrorCode + ChatCompletionRequest" where
  "BuildRequest client request = MapRequestWithThinking request (oc_model client) (oc_thinkingMode client)"


text \<open>
  The request that is sent, with the headers the client sets. \<open>http.NewRequestWithContext\<close> parses the address again;
  its other checks (the method, a context that is not nil) hold for every call.
\<close>

record http_call =
  hc_Method :: gostring
  hc_URL :: gostring
  hc_Header :: "(gostring, gostring) gomap"
  hc_Body :: gobytes

definition client_request :: "net_library \<Rightarrow> 'h Client \<Rightarrow> continuation_value Request \<Rightarrow> ErrorCode + http_call" where
  "client_request lib client request =
     attempt (BuildRequest client request) (\<lambda>wire.
     case marshal_request wire of
       None \<Rightarrow> Inl ErrorInvalidRequest
     | Some body \<Rightarrow>
         if len body > oc_maxRequestBodyBytes client then Inl ErrorRequestTooLarge
         else if url_Parse lib (url_String lib (oc_endpoint client)) = None then Inl ErrorInvalidConfiguration
         else Inr \<lparr>hc_Method = ''POST'', hc_URL = url_String lib (oc_endpoint client),
           hc_Header = [(''Authorization'', ''Bearer '' @ oc_apiKey client), (''Content-Type'', ''application/json''),
             (''Accept'', DefaultAccept), (''User-Agent'', oc_userAgent client)],
           hc_Body = body\<rparr>)"

text \<open>
  What the transport answers: an error, or a response that may be nil, with its status, the two headers that are
  read and a body that may be nil. The context is asked after an error only.
\<close>

record 'p http_response =
  hs_StatusCode :: int
  hs_RetryAfter :: gostring
  hs_ContentType :: gostring
  hs_Body :: "'p option"

type_synonym 'p transport = "http_call \<Rightarrow> cause + 'p http_response option"

definition status_code :: "int \<Rightarrow> ErrorCode" where
  "status_code status =
     (if status = 400 then ErrorBadRequest
      else if status = 401 then ErrorUnauthorized
      else if status = 403 then ErrorForbidden
      else if status = 429 then ErrorRateLimited
      else if status = 408 \<or> status = 504 then ErrorTimeout
      else if status \<ge> 500 \<and> status \<le> 599 then ErrorServer
      else ErrorUnexpectedStatus)"

definition classifyUpstreamError :: "(gostring \<Rightarrow> gostring option) \<Rightarrow> 'p http_response \<Rightarrow> ProviderError" where
  "classifyUpstreamError http_date response =
     \<lparr>pe_Code = status_code (hs_StatusCode response), pe_StatusCode = hs_StatusCode response,
      pe_RetryAfter = safeRetryAfter http_date (hs_RetryAfter response), pe_ContentType = [], pe_cause = no_cause\<rparr>"

definition context_cause :: "ctx_error \<Rightarrow> cause" where
  "context_cause e = \<lparr>is_deadline = (e = ContextDeadlineExceeded), is_canceled = (e \<noteq> ContextDeadlineExceeded), is_network_timeout = (e = ContextDeadlineExceeded)\<rparr>"

definition transport_error :: "ctx_error option \<Rightarrow> cause \<Rightarrow> ProviderError" where
  "transport_error ctxErr err =
     (case ctxErr of
        Some e \<Rightarrow> providerError (if e = ContextDeadlineExceeded then ErrorTimeout else ErrorCanceled) (context_cause e)
      | None \<Rightarrow> providerError (if is_network_timeout err then ErrorTimeout else ErrorNetwork) err)"

record client_env =
  ce_net :: net_library
  ce_http_date :: "gostring \<Rightarrow> gostring option" \<comment> \<open>\<open>http.ParseTime\<close>, formatted\<close>
  ce_media_type :: "gostring \<Rightarrow> gostring option" \<comment> \<open>\<open>mime.ParseMediaType\<close>\<close>
  ce_ctxErr :: "ctx_error option"

definition accept_response :: "client_env \<Rightarrow> 'p http_response option \<Rightarrow> ProviderError + 'p UpstreamResponse" where
  "accept_response env response =
     (case response of
        None \<Rightarrow> Inl (providerError ErrorNetwork no_cause)
      | Some r \<Rightarrow>
          if hs_StatusCode r < 200 \<or> hs_StatusCode r \<ge> 300 then Inl (classifyUpstreamError (ce_http_date env) r)
          else if hs_Body r = None then Inl (providerError ErrorMalformedResponse no_cause)
          else
            let mediaType = ce_media_type env (hs_ContentType r) in
            if mediaType = None \<or> fold_ascii (the mediaType) \<noteq> DefaultAccept
            then Inl ((providerError ErrorUnsupportedContentType no_cause)\<lparr>pe_ContentType := safeMediaType (ce_media_type env) (hs_ContentType r)\<rparr>)
            else Inr \<lparr>ur_StatusCode = hs_StatusCode r, ur_RetryAfter = hs_RetryAfter r, ur_MediaType = mediaType, ur_Body = hs_Body r\<rparr>)"

definition client_Do ::
  "client_env \<Rightarrow> 'p transport Client \<Rightarrow> continuation_value Request \<Rightarrow> provider_failure + 'p UpstreamResponse option" where
  "client_Do env client request =
     (case client_request (ce_net env) client request of
        Inl e \<Rightarrow> Inl (ProviderFailure (providerError e no_cause))
      | Inr call \<Rightarrow>
          (case oc_httpClient client call of
             Inl err \<Rightarrow> Inl (ProviderFailure (transport_error (ce_ctxErr env) err))
           | Inr response \<Rightarrow>
               (case accept_response env response of
                  Inl e \<Rightarrow> Inl (ProviderFailure e)
                | Inr r \<Rightarrow> Inr (Some r))))"

end
