(* ===== verification/Wire_Compact.thy ===== *)
theory Wire_Compact
  imports Wire_Json Codex_Document
begin

text \<open>
  What a JSON text is worth: compacting a raw message changes its text but not its value, and a text that is put together
  from written values is read as the value of its parts.
\<close>

section \<open>Compaction keeps the value of a string\<close>

definition continuation_byte :: "char \<Rightarrow> bool" where
  "continuation_byte c \<longleftrightarrow> in_range 0x80 0xBF c"

lemma compact_in_plain:
  "c \<notin> set [CHR 0x22, CHR 0x5C, CHR ''<'', CHR ''>'', CHR ''&''] \<Longrightarrow> \<not> line_separator (c # cs) \<Longrightarrow> compact_in (c # cs) = c # compact_in cs"
  by simp

lemma line_separator_head: "line_separator (c # cs) \<Longrightarrow> c = CHR 0xE2"
  by (auto simp: line_separator_def split: list.splits)

lemma compact_in_byte:
  "c \<notin> set [CHR 0x22, CHR 0x5C, CHR ''<'', CHR ''>'', CHR ''&'', CHR 0xE2] \<Longrightarrow> compact_in (c # cs) = c # compact_in cs"
  using line_separator_head by (intro compact_in_plain) auto

lemma compact_in_append:
  "list_all (\<lambda>c. c \<notin> set [CHR 0x22, CHR 0x5C, CHR ''<'', CHR ''>'', CHR ''&'', CHR 0xE2]) us \<Longrightarrow> compact_in (us @ s) = us @ compact_in s"
proof (induction us)
  case (Cons u us)
  then have "compact_in (u # (us @ s)) = u # compact_in (us @ s)" by (intro compact_in_byte) simp
  with Cons show ?case by (simp del: compact_in.simps)
qed simp

text \<open>The continuation bytes at the front stay, and none is added.\<close>

lemma compact_in_continuation:
  "list_all continuation_byte (take k (compact_in s)) \<Longrightarrow> k \<le> length (compact_in s) \<Longrightarrow> k \<le> length s \<and> take k s = take k (compact_in s)"
proof (induction k arbitrary: s)
  case (Suc k)
  show ?case
  proof (cases s)
    case (Cons c cs)
    have no: "\<not> continuation_byte CHR 0x5C" "\<not> continuation_byte CHR 0x22" "\<not> continuation_byte CHR 0xE2" by (simp_all add: continuation_byte_def in_range_def)
    have "compact_in s = c # compact_in cs"
    proof (rule ccontr)
      assume ne: "compact_in s \<noteq> c # compact_in cs"
      then consider "c = CHR 0x22" | "c = CHR 0x5C" | "c \<in> set [CHR ''<'', CHR ''>'', CHR ''&'']" "c \<noteq> CHR 0x22" "c \<noteq> CHR 0x5C"
        | "line_separator (c # cs)" "c \<notin> set [CHR 0x22, CHR 0x5C, CHR ''<'', CHR ''>'', CHR ''&'']"
        unfolding Cons using compact_in_plain [of c cs] by (auto simp del: compact_in.simps)
      then have "\<exists>x. compact_in s = CHR 0x22 # x \<or> compact_in s = CHR 0x5C # x"
        unfolding Cons by cases (auto simp: html_escape_def separator_escape_def split: list.splits)
      with Suc.prems(1) no show False by auto
    qed
    with Suc.prems Suc.IH [of cs] Cons show ?thesis by simp
  qed (use Suc.prems in simp)
qed simp

lemma rune_width_tail:
  assumes "rune_width (c # s) \<noteq> 0" "byte c \<ge> 0x80"
  shows "rune_width (c # s) = Suc (rune_width (c # s) - 1) \<and> rune_width (c # s) - 1 \<le> length s
    \<and> list_all continuation_byte (take (rune_width (c # s) - 1) s)"
proof -
  define n where "n = lead_width c"
  have w: "rune_width (c # s) = n" "n - 1 \<le> length s" "tail_ok c (take (n - 1) s)" "n \<noteq> 0"
    using assms(1) by (auto simp: n_def Let_def split: if_splits)
  have "list_all continuation_byte (take (n - 1) s)"
  proof (cases "take (n - 1) s")
    case (Cons b bs)
    have "continuation_byte b"
      using w(3) unfolding Cons tail_ok_def second_ok_def continuation_byte_def in_range_def by (auto split: if_splits)
    moreover have "list_all continuation_byte bs" using w(3) unfolding Cons tail_ok_def continuation_byte_def by simp
    ultimately show ?thesis unfolding Cons by simp
  next
    case Nil
    show ?thesis unfolding Nil by simp
  qed
  with w show ?thesis by (simp del: rune_width.simps)
qed

lemma rune_width_compact:
  assumes "byte c \<ge> 0x80" "rune_width (c # cs) = 0"
  shows "rune_width (c # compact_in cs) = 0"
proof (rule ccontr)
  assume w: "rune_width (c # compact_in cs) \<noteq> 0"
  define k where "k = rune_width (c # compact_in cs) - 1"
  note t = rune_width_tail [OF w assms(1), folded k_def]
  have "take k cs = take k (compact_in cs)" using compact_in_continuation [of k cs] t by blast
  moreover have "rune_width (c # take k (compact_in cs)) \<noteq> 0"
  proof -
    have "rune_width (c # compact_in cs) = lead_width c" using w by (auto simp: Let_def split: if_splits)
    with w t show ?thesis unfolding k_def by (auto simp: Let_def min_def split: if_splits)
  qed
  ultimately have "rune_width (c # take k cs) \<noteq> 0" by simp
  then have "rune_width ((c # take k cs) @ drop k cs) \<noteq> 0" using rune_width_append by metis
  with assms(2) show False by (simp del: rune_width.simps)
qed


text \<open>The raw text of a string literal, as the scanner takes it.\<close>

inductive literal :: "gostring \<Rightarrow> bool" where
  literal_Nil: "literal []"
| literal_plain: "\<not> byte c < 0x20 \<Longrightarrow> c \<noteq> CHR 0x22 \<Longrightarrow> c \<noteq> CHR 0x5C \<Longrightarrow> literal raw \<Longrightarrow> literal (c # raw)"
| literal_escape: "e \<in> set [CHR ''b'', CHR ''f'', CHR ''n'', CHR ''r'', CHR ''t'', CHR 0x5C, CHR ''/'', CHR 0x22] \<Longrightarrow> literal raw
    \<Longrightarrow> literal (CHR 0x5C # e # raw)"
| literal_u: "hex_value h1 \<noteq> None \<Longrightarrow> hex_value h2 \<noteq> None \<Longrightarrow> hex_value h3 \<noteq> None \<Longrightarrow> hex_value h4 \<noteq> None \<Longrightarrow> literal raw
    \<Longrightarrow> literal (CHR 0x5C # CHR ''u'' # h1 # h2 # h3 # h4 # raw)"

inductive_cases literal_ConsE: "literal (c # raw)"

lemma scan_literal: "scan_string s = Some (raw, t) \<Longrightarrow> literal raw"
proof (induction s arbitrary: raw t rule: scan_string.induct)
  case (2 c cs)
  show ?case
  proof (cases "c = CHR 0x22 \<or> byte c < 0x20")
    case True
    with "2.prems" show ?thesis by (auto intro: literal_Nil split: if_splits)
  next
    case plain: False
    show ?thesis
    proof (cases "c = CHR 0x5C")
      case False
      with plain "2.prems" obtain raw' where "scan_string cs = Some (raw', t)" "raw = c # raw'" by auto
      with "2.IH"(3) plain False show ?thesis by (auto intro: literal_plain)
    next
      case esc: True
      with "2.prems" obtain e es where es: "cs = e # es" by (cases cs) simp_all
      show ?thesis
      proof (cases "e = CHR ''u''")
        case False
        with esc es "2.prems" obtain raw' where "scan_string es = Some (raw', t)" "raw = c # e # raw'"
          "e \<in> set [CHR ''b'', CHR ''f'', CHR ''n'', CHR ''r'', CHR ''t'', CHR 0x5C, CHR ''/'', CHR 0x22]"
          by (auto split: if_splits)
        with "2.IH"(2) [OF _ _ esc es False] esc show ?thesis by (auto intro: literal_escape)
      next
        case u: True
        with esc es "2.prems" obtain h1 h2 h3 h4 rest raw' where h: "es = h1 # h2 # h3 # h4 # rest"
          "hex_value h1 \<noteq> None \<and> hex_value h2 \<noteq> None \<and> hex_value h3 \<noteq> None \<and> hex_value h4 \<noteq> None"
          "scan_string rest = Some (raw', t)" "raw = c # e # h1 # h2 # h3 # h4 # raw'"
          by (auto split: list.splits if_splits)
        from "2.IH"(1) [OF _ _ esc es u h(1) refl refl refl h(2,3)] esc u h show ?thesis by (auto intro: literal_u)
      qed
    qed
  qed
qed simp

lemma literal_byteD: "literal (c # raw) \<Longrightarrow> c \<noteq> CHR 0x5C \<Longrightarrow> literal raw \<and> c \<noteq> CHR 0x22 \<and> \<not> byte c < 0x20"
  by (auto elim: literal_ConsE)

lemma literal_drop: "literal (us @ raw) \<Longrightarrow> CHR 0x5C \<notin> set us \<Longrightarrow> literal raw"
  by (induction us) (auto dest: literal_byteD)

text \<open>Induction over a literal as the compaction reads it.\<close>

lemma literal_compact_cases [consumes 1, case_names Nil escape u html separator plain]:
  assumes "literal raw"
  obtains "raw = []"
  | e rest where "raw = CHR 0x5C # e # rest" "literal rest" "e \<in> set [CHR ''b'', CHR ''f'', CHR ''n'', CHR ''r'', CHR ''t'', CHR 0x5C, CHR ''/'', CHR 0x22]"
  | h1 h2 h3 h4 rest where "raw = CHR 0x5C # CHR ''u'' # h1 # h2 # h3 # h4 # rest" "literal rest"
      "hex_value h1 \<noteq> None" "hex_value h2 \<noteq> None" "hex_value h3 \<noteq> None" "hex_value h4 \<noteq> None"
  | c rest where "raw = c # rest" "literal rest" "c \<in> set [CHR ''<'', CHR ''>'', CHR ''&'']"
  | c rest where "raw = CHR 0xE2 # CHR 0x80 # c # rest" "literal rest" "c = CHR 0xA8 \<or> c = CHR 0xA9"
  | c rest where "raw = c # rest" "literal rest" "c \<notin> set [CHR 0x22, CHR 0x5C, CHR ''<'', CHR ''>'', CHR ''&'']" "\<not> byte c < 0x20" "\<not> line_separator raw"
proof -
  note r = that
  show thesis
  proof (cases "line_separator raw")
    case True
    then obtain c rest where raw: "raw = CHR 0xE2 # CHR 0x80 # c # rest" "c = CHR 0xA8 \<or> c = CHR 0xA9"
      by (auto simp: line_separator_def split: list.splits)
    have "literal rest" using assms literal_drop [of "[CHR 0xE2, CHR 0x80, c]" rest] raw by auto
    with raw r(5) show thesis by blast
  next
    case False
    from assms show thesis
    proof (cases rule: literal.cases)
      case (literal_plain c rest)
      show thesis
      proof (cases "c \<in> set [CHR ''<'', CHR ''>'', CHR ''&'']")
        case True
        with literal_plain show thesis by (intro r(4) [of c rest])
      next
        case no_html: False
        with literal_plain False show thesis by (intro r(6) [of c rest]) auto
      qed
    next
      case (literal_escape e rest)
      then show thesis by (intro r(2) [of e rest])
    next
      case (literal_u h1 h2 h3 h4 rest)
      then show thesis by (intro r(3) [of h1 h2 h3 h4 rest])
    qed (rule r(1))
  qed
qed

lemma hex_value_plain:
  assumes "hex_value h \<noteq> None"
  shows "h \<notin> set [CHR 0x22, CHR 0x5C, CHR ''<'', CHR ''>'', CHR ''&'', CHR 0xE2]" "byte h < 0x80" "\<not> byte h < 0x20"
  using assms by (auto simp: hex_value_def in_range_def split: if_splits)

lemma compact_in_hex:
  "hex_value h1 \<noteq> None \<Longrightarrow> hex_value h2 \<noteq> None \<Longrightarrow> hex_value h3 \<noteq> None \<Longrightarrow> hex_value h4 \<noteq> None \<Longrightarrow>
     compact_in (h1 # h2 # h3 # h4 # rest) = h1 # h2 # h3 # h4 # compact_in rest"
  using compact_in_append [of "[h1, h2, h3, h4]" rest] hex_value_plain [of h1] hex_value_plain [of h2] hex_value_plain [of h3] hex_value_plain [of h4]
  by simp

lemma compact_in_html: "c \<in> set [CHR ''<'', CHR ''>'', CHR ''&''] \<Longrightarrow> compact_in (c # cs) = html_escape c @ compact_in cs"
  by auto

lemma compact_in_separator:
  "c = CHR 0xA8 \<or> c = CHR 0xA9 \<Longrightarrow> compact_in (CHR 0xE2 # CHR 0x80 # c # cs) =
     [CHR 0x5C] @ ''u202'' @ [hex_digit (byte c mod 16)] @ compact_in cs"
  by (simp add: line_separator_def separator_escape_def)

lemma compact_in_escape: "compact_in (CHR 0x5C # e # cs) = CHR 0x5C # e # compact_in cs"
  by simp

lemma line_separator_quote: "\<not> line_separator (c # raw) \<Longrightarrow> \<not> line_separator (c # raw @ CHR 0x22 # t)"
  by (auto simp: line_separator_def split: list.splits)

lemma compact_in_scan: "literal raw \<Longrightarrow> compact_in (raw @ CHR 0x22 # t) = compact_in raw @ CHR 0x22 # compact t"
proof (induction "length raw" arbitrary: raw rule: less_induct)
  case less
  from less.prems show ?case
  proof (cases rule: literal_compact_cases)
    case (u h1 h2 h3 h4 rest)
    with less.hyps [of rest] show ?thesis by (simp add: compact_in_escape compact_in_hex del: compact_in.simps)
  next
    case (html c rest)
    with less.hyps [of rest] show ?thesis by (simp add: compact_in_html del: compact_in.simps)
  next
    case (separator c rest)
    with less.hyps [of rest] show ?thesis by (simp add: compact_in_separator del: compact_in.simps)
  next
    case (plain c rest)
    with line_separator_quote [of c rest t] less.hyps [of rest] show ?thesis
      by (simp add: compact_in_plain del: compact_in.simps)
  qed (use less.hyps in simp_all)
qed


lemma scans_hex: "c \<in> set [CHR ''<'', CHR ''>'', CHR ''&''] \<Longrightarrow> scans (html_escape c)"
  unfolding html_escape_def by (intro scans_u) (auto simp: hex_value_def hex_digit_def in_range_def)

lemma scans_compact: "literal raw \<Longrightarrow> scans (compact_in raw)"
proof (induction "length raw" arbitrary: raw rule: less_induct)
  case less
  from less.prems show ?case
  proof (cases rule: literal_compact_cases)
    case (escape e rest)
    then have "scans [CHR 0x5C, e]" by (auto simp: scans_def)
    with escape less.hyps [of rest] scans_append [of "[CHR 0x5C, e]" "compact_in rest"] show ?thesis by simp
  next
    case (u h1 h2 h3 h4 rest)
    with less.hyps [of rest] scans_append [OF scans_u [OF u(3-6)], of "compact_in rest"] show ?thesis
      by (simp add: compact_in_escape compact_in_hex del: compact_in.simps)
  next
    case (html c rest)
    with less.hyps [of rest] scans_append [OF scans_hex [OF html(3)], of "compact_in rest"] show ?thesis
      by (simp add: compact_in_html del: compact_in.simps)
  next
    case (separator c rest)
    then have "scans [CHR 0x5C, CHR ''u'', CHR ''2'', CHR ''0'', CHR ''2'', hex_digit (byte c mod 16)]"
      by (intro scans_u) (auto simp: hex_digit_def hex_value_def in_range_def)
    with separator less.hyps [of rest] scans_append [of _ "compact_in rest"] show ?thesis
      by (fastforce simp: compact_in_separator simp del: compact_in.simps)
  next
    case (plain c rest)
    then have "scans [c]" by (intro scans_plain) auto
    with plain less.hyps [of rest] scans_append [of "[c]" "compact_in rest"] show ?thesis
      by (simp add: compact_in_plain del: compact_in.simps)
  qed simp
qed

lemma unquote_unicode:
  assumes "getu4 [h1, h2, h3, h4] = Some r"
  shows "unquote (CHR 0x5C # CHR ''u'' # h1 # h2 # h3 # h4 # es) =
     (case surrogate_pair r es of Some p \<Rightarrow> encode_rune p @ unquote (drop 6 es) | None \<Rightarrow> encode_rune r @ unquote es)"
  using assms by (subst unquote.simps) (auto simp: getu4_def split: option.splits)

lemma surrogate_compact:
  assumes "literal rest"
  shows "surrogate_pair r (compact_in rest) = surrogate_pair r rest \<and>
     (surrogate_pair r rest \<noteq> None \<longrightarrow> drop 6 (compact_in rest) = compact_in (drop 6 rest) \<and> literal (drop 6 rest))"
  using assms
proof (cases rule: literal_compact_cases)
  case (u h1 h2 h3 h4 rest')
  then show ?thesis
    by (simp add: compact_in_escape compact_in_hex surrogate_pair_def getu4_def del: compact_in.simps)
next
  case (html c rest')
  then have "getu4 (drop 2 (compact_in rest)) = Some (byte c)"
    by (auto simp: compact_in_html html_escape_def getu4_def hex_value_digit hex_digit_def hex_value_def in_range_def simp del: compact_in.simps)
  with html show ?thesis by (auto simp: surrogate_pair_def simp del: compact_in.simps)
next
  case (separator c rest')
  then have "\<exists>k < 0xDC00. getu4 (drop 2 (compact_in rest)) = Some k"
    by (auto simp: compact_in_separator getu4_def hex_digit_def hex_value_def in_range_def simp del: compact_in.simps)
  with separator show ?thesis by (auto simp: surrogate_pair_def simp del: compact_in.simps)
next
  case (plain c rest')
  then show ?thesis by (simp add: compact_in_plain surrogate_pair_def del: compact_in.simps)
qed (auto simp: surrogate_pair_def)

lemma unquote_malformed:
  "\<not> byte c < 0x80 \<Longrightarrow> rune_width (c # cs) = 0 \<Longrightarrow> unquote (c # cs) = replacement @ unquote cs"
  by (subst unquote.simps) (auto simp del: rune_width.simps)

lemma rune_bytes_stay:
  assumes "\<not> byte c < 0x80" "rune_width (c # cs) = w" "w \<noteq> 0" "\<not> line_separator (c # cs)"
  shows "compact_in (c # cs) = take w (c # cs) @ compact_in (drop w (c # cs))"
proof -
  have c: "c \<notin> set [CHR 0x22, CHR 0x5C, CHR ''<'', CHR ''>'', CHR ''&'']" using assms(1) by auto
  have t: "w = Suc (w - 1)" "w - 1 \<le> length cs" "list_all continuation_byte (take (w - 1) cs)"
    using rune_width_tail [of c cs] assms(1-3) by simp_all
  have "list_all (\<lambda>c. c \<notin> set [CHR 0x22, CHR 0x5C, CHR ''<'', CHR ''>'', CHR ''&'', CHR 0xE2]) (take (w - 1) cs)"
    using t(3) by (rule list.pred_mono_strong) (auto simp: continuation_byte_def in_range_def)
  from compact_in_append [OF this, of "drop (w - 1) cs"]
  have "compact_in cs = take (w - 1) cs @ compact_in (drop (w - 1) cs)" by simp
  then have "compact_in (c # cs) = c # take (w - 1) cs @ compact_in (drop (w - 1) cs)"
    using compact_in_plain [OF c assms(4)] by simp
  moreover have "take w (c # cs) = c # take (w - 1) cs" "drop w (c # cs) = drop (w - 1) cs"
    using t(1) by (metis take_Suc_Cons, metis drop_Suc_Cons)
  ultimately show ?thesis by simp
qed

lemma unquote_compact: "literal raw \<Longrightarrow> unquote (compact_in raw) = unquote raw"
proof (induction "length raw" arbitrary: raw rule: less_induct)
  case less
  from less.prems show ?case
  proof (cases rule: literal_compact_cases)
    case (escape e rest)
    then have "e \<noteq> CHR ''u''" by auto
    with escape less.hyps [of rest] show ?thesis by (simp add: compact_in_escape unquote_escape del: compact_in.simps)
  next
    case (u h1 h2 h3 h4 rest)
    obtain r where r: "getu4 [h1, h2, h3, h4] = Some r" using u(3-6) by (auto simp: getu4_def)
    have "unquote (compact_in (drop 6 rest)) = unquote (drop 6 rest)" if "literal (drop 6 rest)"
      using that u(1) by (intro less.hyps) simp_all
    with u r surrogate_compact [OF u(2), of r] less.hyps [of rest] show ?thesis
      by (auto simp: compact_in_escape compact_in_hex unquote_unicode simp del: compact_in.simps split: option.split)
  next
    case (html c rest)
    then have "byte c < 0x80" "c \<noteq> CHR 0x5C" by auto
    with html less.hyps [of rest] unquote_u_ascii [of c "compact_in rest"] show ?thesis
      by (simp add: compact_in_html html_escape_def unquote_plain del: compact_in.simps)
  next
    case (separator c rest)
    define k where "k = 8224 + byte c mod 16"
    have k: "k = 8232 \<or> k = 8233" "encode_rune k = [CHR 0xE2, CHR 0x80, c]"
      using separator(3) separator_runes unfolding k_def by auto
    have "getu4 [CHR ''2'', CHR ''0'', CHR ''2'', hex_digit (byte c mod 16)] = Some k"
      using separator(3) by (auto simp: k_def getu4_def hex_digit_def hex_value_def in_range_def)
    from unquote_u [OF this] k have "unquote (compact_in raw) = [CHR 0xE2, CHR 0x80, c] @ unquote (compact_in rest)"
      unfolding separator(1) compact_in_separator [OF separator(3)] by (auto simp: is_surrogate_def)
    moreover have "rune_width (CHR 0xE2 # CHR 0x80 # c # rest) = 3"
      using separator(3) by (auto simp: lead_width_def in_range_def tail_ok_def second_ok_def numeral_eq_Suc)
    then have "unquote raw = [CHR 0xE2, CHR 0x80, c] @ unquote rest"
      using unquote_rune [of "CHR 0xE2" "CHR 0x80 # c # rest" 3] separator(1) by (simp del: rune_width.simps)
    ultimately show ?thesis using less.hyps [of rest] separator by simp
  next
    case (plain c rest)
    note here = compact_in_plain [of c rest] 
    show ?thesis
    proof (cases "byte c < 0x80")
      case True
      with plain less.hyps [of rest] show ?thesis by (simp add: compact_in_plain unquote_plain del: compact_in.simps)
    next
      case high: False
      show ?thesis
      proof (cases "rune_width raw = 0")
        case True
        then have "rune_width (c # compact_in rest) = 0" using rune_width_compact [of c rest] high plain by simp
        with plain high True less.hyps [of rest] show ?thesis
          by (simp add: compact_in_plain unquote_malformed del: compact_in.simps rune_width.simps)
      next
        case False
        define w where "w = rune_width raw"
        have w: "w \<noteq> 0" "rune_width (c # rest) = w" using False plain by (simp_all add: w_def)
        have len: "length (take w raw) = w" using rune_width_le [of raw] by (simp add: w_def)
        have stay: "compact_in raw = take w raw @ compact_in (drop w raw)"
          using rune_bytes_stay [OF high w(2,1)] plain by simp
        have "\<not> CHR 0x5C \<in> set (take w raw)"
        proof -
          have "list_all continuation_byte (take (w - 1) rest)" using rune_width_tail [of c rest] high w by simp
          then have "CHR 0x5C \<notin> set (take (w - 1) rest)" by (auto simp: list_all_iff continuation_byte_def in_range_def)
          moreover have "take w raw = c # take (w - 1) rest" using w(1) plain(1) by (cases w) simp_all
          ultimately show ?thesis using plain by auto
        qed
        then have "literal (drop w raw)" using literal_drop [of "take w raw" "drop w raw"] less.prems by simp
        then have IH: "unquote (compact_in (drop w raw)) = unquote (drop w raw)" using w(1) plain(1) by (intro less.hyps) simp_all
        have width: "rune_width (take w raw @ compact_in (drop w raw)) = w" by (rule rune_width_take) (simp_all add: w_def False)
        obtain cs where cs: "take w raw @ compact_in (drop w raw) = c # cs" using w(1) plain(1) by (cases w) simp_all
        have "unquote (compact_in raw) = take w raw @ unquote (compact_in (drop w raw))"
          unfolding stay cs using unquote_rune [OF high, of cs w] width [unfolded cs] w(1) cs len
          by (metis append_eq_conv_conj)
        moreover have "unquote raw = take w raw @ unquote (drop w raw)"
          using unquote_rune [OF high w(2,1)] plain(1) by simp
        ultimately show ?thesis using IH by simp
      qed
    qed
  qed simp
qed

text \<open>The scanner on a compacted literal.\<close>

lemma scan_compact:
  assumes "scan_string s = Some (raw, t)"
  shows "compact_in s = compact_in raw @ CHR 0x22 # compact t \<and> scan_string (compact_in raw @ CHR 0x22 # y) = Some (compact_in raw, y)
    \<and> unquote (compact_in raw) = unquote raw"
proof -
  have lit: "literal raw" by (rule scan_literal [OF assms])
  have "s = raw @ CHR 0x22 # t" using scan_string_local [OF assms] by blast
  then show ?thesis using compact_in_scan [OF lit, of t] unquote_compact [OF lit] scans_compact [OF lit] by (simp add: scans_def)
qed


section \<open>Compaction keeps values\<close>

definition token_byte :: "char \<Rightarrow> bool" where
  "token_byte c \<longleftrightarrow> \<not> json_space c \<and> c \<noteq> CHR 0x22"

lemma compact_token: "token_byte c \<Longrightarrow> compact (c # r) = c # compact r"
  by (auto simp: token_byte_def)

lemma compact_tokens: "list_all token_byte t \<Longrightarrow> compact (t @ r) = t @ compact r"
  by (induction t) (simp_all add: compact_token del: compact.simps)

lemma compact_skip: "compact s = compact (skip_ws s)"
  by (induction s) (auto simp del: compact_in.simps)

lemma skip_ws_compact:
  assumes "skip_ws s = c # r"
  shows "skip_ws (compact s) = compact s \<and> (\<exists>r'. compact s = c # r')"
proof -
  have c: "\<not> json_space c" using skip_ws_head [OF assms] by simp
  have "\<exists>r'. compact (c # r) = c # r'"
    using c compact_token [of c r] by (cases "c = CHR 0x22") (auto simp: token_byte_def)
  with c show ?thesis using compact_skip [of s] assms by auto
qed

lemma skip_ws_compact_token:
  assumes "skip_ws s = c # r" "c \<noteq> CHR 0x22"
  shows "compact s = c # compact r \<and> skip_ws (c # compact r) = c # compact r"
proof -
  have "token_byte c" using skip_ws_head [OF assms(1)] assms(2) by (simp add: token_byte_def)
  then show ?thesis using compact_skip [of s] skip_ws_compact [OF assms(1)] by (simp add: assms compact_token del: compact.simps skip_ws.simps)
qed

lemma stops_compact: "stops (skip_ws r) \<Longrightarrow> stops (compact r)"
  using compact_skip [of r] skip_ws_compact [of r] by (cases "skip_ws r") (auto simp: stops_def simp del: compact.simps(2) skip_ws.simps split: list.splits)

lemma number_bytes: "scan_number s = Some (n, r) \<Longrightarrow> list_all number_byte n"
proof -
  have digits: "list_all number_byte (fst (span_digits t))" for t
    by (auto simp: span_digits_def list_all_iff number_byte_def dest: set_takeWhileD)
  have ex: "list_all number_byte e" if "scan_exponent t = Some (e, r)" for t e r
    using that digits by (auto simp: scan_exponent_def number_byte_def in_range_def case_prod_unfold Let_def split: list.splits if_splits)
  have frac: "list_all number_byte f" if "scan_fraction t = Some (f, r)" for t f r
    using that digits by (auto simp: scan_fraction_def number_byte_def in_range_def case_prod_unfold Let_def split: list.splits if_splits)
  show "scan_number s = Some (n, r) \<Longrightarrow> list_all number_byte n"
    using digits ex frac
    by (fastforce simp: scan_number_def number_byte_def in_range_def case_prod_unfold Let_def split: list.splits if_splits option.splits)
qed

lemma scalar_tokens:
  assumes "parse_scalar (c # cs) = Some (v, r)" "c \<noteq> CHR 0x22"
  shows "\<exists>t. c # cs = t @ r \<and> list_all token_byte t"
proof -
  have w: "\<exists>t. c # cs = t @ r \<and> list_all token_byte t" if "take k (c # cs) = t" "r = drop k (c # cs)" "list_all token_byte t" for k t
    using that append_take_drop_id [of k "c # cs"] by metis
  have words: "list_all token_byte ''null''" "list_all token_byte ''true''" "list_all token_byte ''false''" by (simp_all add: token_byte_def)
  have number: "\<exists>t. c # cs = t @ r \<and> list_all token_byte t" if "scan_number (c # cs) = Some (n, r)" for n
  proof (intro exI conjI)
    show "c # cs = n @ r" using scan_number_local [OF that, of "[]"] by (simp add: stops_def)
    show "list_all token_byte n"
      using number_bytes [OF that] by (rule list.pred_mono_strong) (auto simp: number_byte_def token_byte_def in_range_def)
  qed
  show ?thesis
  proof (cases "take 4 (c # cs) = ''null'' \<or> take 4 (c # cs) = ''true'' \<or> take 5 (c # cs) = ''false''")
    case True
    then show ?thesis using assms words w [of 4] w [of 5] by (auto simp: parse_scalar_def split: if_splits)
  next
    case False
    then have "\<exists>n. scan_number (c # cs) = Some (n, r)" using assms by (auto simp: parse_scalar_def split: if_splits)
    with number show ?thesis by blast
  qed
qed

lemma parse_scalar_compact:
  assumes "parse_scalar (c # cs) = Some (v, r)" "stops (skip_ws r)"
  shows "parse_scalar (compact (c # cs)) = Some (v, compact r)"
proof (cases "c = CHR 0x22")
  case True
  with assms(1) obtain raw where raw: "scan_string cs = Some (raw, r)" "v = JStr (unquote raw)" by (auto simp: parse_scalar_def)
  from scan_compact [OF raw(1), of "compact r"] raw(2) show ?thesis by (simp add: True parse_scalar_def del: compact_in.simps)
next
  case False
  obtain t where t: "c # cs = t @ r" "list_all token_byte t" using scalar_tokens [OF assms(1) False] by blast
  from parse_scalar_local [OF assms(1)] obtain t' where t': "c # cs = t' @ r" "\<forall>x. stops x \<longrightarrow> parse_scalar (t' @ x) = Some (v, x)" by blast
  have "t' = t" using t(1) t'(1) by simp
  with t t'(2) stops_compact [OF assms(2)] show ?thesis by (simp add: compact_tokens)
qed


definition compacts :: "gostring \<Rightarrow> bool" where
  "compacts s \<longleftrightarrow> (\<forall>d v r. value_at d s = Some (v, r) \<longrightarrow> stops (skip_ws r) \<longrightarrow> value_at d (compact s) = Some (v, compact r))"

definition elems_compact :: "gostring \<Rightarrow> bool" where
  "elems_compact s \<longleftrightarrow> (\<forall>d vs r. elems_at d s = Some (vs, r) \<longrightarrow> elems_at d (compact s) = Some (vs, compact r))"

definition members_compact :: "gostring \<Rightarrow> bool" where
  "members_compact s \<longleftrightarrow> (\<forall>d ms r. members_at d s = Some (ms, r) \<longrightarrow> members_at d (compact s) = Some (ms, compact r))"

lemma value_at_empty:
  "0 < d \<Longrightarrow> value_at d (CHR ''['' # CHR '']'' # y) = Some (JArr [], y)" "0 < d \<Longrightarrow> value_at d (CHR ''{'' # CHR ''}'' # y) = Some (JObj [], y)"
  by (simp_all add: value_at_Cons [of _ "CHR ''[''" "CHR '']'' # y"] value_at_Cons [of _ "CHR ''{''" "CHR ''}'' # y"])

lemma value_at_open:
  "0 < d \<Longrightarrow> skip_ws u = e # y \<Longrightarrow> e \<noteq> CHR '']'' \<Longrightarrow>
     value_at d (CHR ''['' # u) = map_option (\<lambda>(vs, t). (JArr vs, t)) (elems_at (d - 1) u)"
  "0 < d \<Longrightarrow> skip_ws u = e # y \<Longrightarrow> e \<noteq> CHR ''}'' \<Longrightarrow>
     value_at d (CHR ''{'' # u) = map_option (\<lambda>(ms, t). (JObj ms, t)) (members_at (d - 1) u)"
  by (simp_all add: value_at_Cons [of "CHR ''['' # u" "CHR ''[''" u] value_at_Cons [of "CHR ''{'' # u" "CHR ''{''" u])

lemma compacts_step:
  assumes "\<And>t. length t < length s \<Longrightarrow> elems_compact t \<and> members_compact t"
  shows "compacts s"
  unfolding compacts_def
proof (intro allI impI)
  fix d v r
  assume v: "value_at d s = Some (v, r)" and r: "stops (skip_ws r)"
  obtain c u where s: "skip_ws s = c # u" using v value_at_Nil [of s d] by (cases "skip_ws s") auto
  note v' = v [unfolded value_at_Cons [OF s]]
  have l: "elems_compact u" "members_compact u" using assms skip_ws_Cons [OF s] by auto
  show "value_at d (compact s) = Some (v, compact r)"
  proof (cases "c = CHR ''['' \<or> c = CHR ''{''")
    case True
    then have c: "c \<noteq> CHR 0x22" by auto
    note k = skip_ws_compact_token [OF s c]
    from v' True obtain e u' where u: "skip_ws u = e # u'" "0 < d" by (auto split: if_splits list.splits)
    show ?thesis
    proof (cases "e = CHR '']'' \<and> c = CHR ''['' \<or> e = CHR ''}'' \<and> c = CHR ''{''")
      case True
      then have "e \<noteq> CHR 0x22" by auto
      from skip_ws_compact_token [OF u(1) this] k True v' u show ?thesis
        by (auto simp: value_at_empty simp del: compact.simps skip_ws.simps)
    next
      case False
      obtain x where x: "skip_ws (compact u) = e # x" using skip_ws_compact [OF u(1)] by auto
      from True show ?thesis
      proof
        assume c: "c = CHR ''[''"
        with v' False u obtain vs where "elems_at (d - 1) u = Some (vs, r)" "v = JArr vs" by auto
        with l(1) c False u k x show ?thesis
          by (simp add: value_at_open(1) elems_compact_def del: compact.simps skip_ws.simps)
      next
        assume c: "c = CHR ''{''"
        with v' False u obtain ms where "members_at (d - 1) u = Some (ms, r)" "v = JObj ms" by auto
        with l(2) c False u k x show ?thesis
          by (simp add: value_at_open(2) members_compact_def del: compact.simps skip_ws.simps)
      qed
    qed
  next
    case False
    with v' have p: "parse_scalar (c # u) = Some (v, r)" by simp
    obtain x where x: "compact s = c # x" "skip_ws (compact s) = compact s" using skip_ws_compact [OF s] by blast
    have "compact s = compact (c # u)" using compact_skip [of s] s by simp
    with parse_scalar_compact [OF p r] x False show ?thesis
      by (simp add: value_at_Cons [of "c # x" c x] del: compact.simps skip_ws.simps)
  qed
qed

text \<open>A closing bracket, a comma or a colon after a value ends it.\<close>

lemma stops_mark: "c \<in> set [CHR '','', CHR '']'', CHR ''}'', CHR '':''] \<Longrightarrow> stops (c # r)"
  by (auto simp: stops_def number_byte_def in_range_def)

lemma compact_mark:
  assumes "skip_ws t = c # r" "c \<in> set [CHR '','', CHR '']'', CHR ''}'', CHR '':'']"
  shows "skip_ws (compact t) = c # compact r"
  using skip_ws_compact_token [OF assms(1)] assms(2) by force

lemma elems_compact_step:
  assumes "compacts s" "\<And>t. length t < length s \<Longrightarrow> elems_compact t"
  shows "elems_compact s"
  unfolding elems_compact_def
proof (intro allI impI)
  fix d vs r
  assume "elems_at d s = Some (vs, r)"
  then show "elems_at d (compact s) = Some (vs, compact r)"
  proof (cases rule: elems_at_cases)
    case (last v t)
    then have "value_at d (compact s) = Some (v, compact t)" using assms(1) stops_mark by (auto simp: compacts_def)
    from elems_at_value [OF this compact_mark [OF last(2)]] last(3) show ?thesis by simp
  next
    case (more v t r' ws)
    then have "value_at d (compact s) = Some (v, compact t)" using assms(1) stops_mark by (auto simp: compacts_def)
    note e = elems_at_value [OF this compact_mark [OF more(2)]]
    have "length r' < length s" using at_shrinks(1) [OF more(1)] skip_ws_Cons [OF more(2)] by simp
    from assms(2) [OF this] more(3,4) e show ?thesis by (simp add: elems_compact_def)
  qed
qed

lemma members_compact_step:
  assumes "\<And>t. length t < length s \<Longrightarrow> compacts t" "\<And>t. length t < length s \<Longrightarrow> members_compact t"
  shows "members_compact s"
  unfolding members_compact_def
proof (intro allI impI)
  fix d ms r
  have front: "skip_ws (compact s) = CHR 0x22 # (compact_in raw @ CHR 0x22 # compact t)
      \<and> scan_string (compact_in raw @ CHR 0x22 # compact t) = Some (compact_in raw, compact t) \<and> unquote (compact_in raw) = unquote raw
      \<and> skip_ws (compact t) = CHR '':'' # compact ks \<and> value_at d (compact ks) = Some (v, compact u) \<and> length u < length s"
    if "skip_ws s = CHR 0x22 # qs" "scan_string qs = Some (raw, t)" "skip_ws t = CHR '':'' # ks" "value_at d ks = Some (v, u)" "stops (skip_ws u)"
    for qs raw t ks v u
  proof -
    have "compact s = CHR 0x22 # compact_in qs" using compact_skip [of s] that(1) by (simp del: compact_in.simps)
    then have "skip_ws (compact s) = CHR 0x22 # (compact_in raw @ CHR 0x22 # compact t)"
      using scan_compact [OF that(2)] by (simp del: compact_in.simps)
    moreover have l: "length ks < length s" "length u < length s"
      using skip_ws_Cons [OF that(1)] scan_string_shrinks [OF that(2)] skip_ws_Cons [OF that(3)] at_shrinks(1) [OF that(4)] by simp_all
    moreover have "value_at d (compact ks) = Some (v, compact u)"
      using assms(1) [OF l(1)] that(4,5) by (simp add: compacts_def)
    ultimately show ?thesis using scan_compact [OF that(2)] compact_mark [OF that(3)] by (simp del: compact_in.simps)
  qed
  assume "members_at d s = Some (ms, r)"
  then show "members_at d (compact s) = Some (ms, compact r)"
  proof (cases rule: members_at_cases)
    case (last qs raw t ks v u)
    note f = front [OF last(1-4)]
    have "stops (skip_ws u)" using last(5) stops_mark by auto
    note f = f [OF this]
    from members_at_value [of "compact s" _ "compact_in raw" "compact t" "compact ks" d v "compact u" "CHR ''}''" "compact r"] f compact_mark [OF last(5)] last(6)
    show ?thesis by simp
  next
    case (more qs raw t ks v u u' ns)
    note f = front [OF more(1-4)]
    have "stops (skip_ws u)" using more(5) stops_mark by auto
    note f = f [OF this]
    have "length u' < length s" using f skip_ws_Cons [OF more(5)] by simp
    from assms(2) [OF this] more(6) have "members_at d (compact u') = Some (ns, compact r)" by (simp add: members_compact_def)
    with members_at_value [of "compact s" _ "compact_in raw" "compact t" "compact ks" d v "compact u" "CHR '',''" "compact u'"] f compact_mark [OF more(5)] more(7)
    show ?thesis by simp
  qed
qed

lemma compaction: "compacts s \<and> elems_compact s \<and> members_compact s"
proof (induction "length s" arbitrary: s rule: less_induct)
  case less
  then have "compacts s" by (intro compacts_step) simp_all
  with less show ?case by (simp add: elems_compact_step members_compact_step)
qed

text \<open>A document keeps its value, and what is left of a compacted document behind the value is nothing.\<close>

lemma compact_value:
  assumes "value_at d s = Some (v, r)" "skip_ws r = []"
  shows "value_at d (compact s) = Some (v, [])"
proof -
  have "compact r = []" using compact_skip [of r] assms(2) by simp
  moreover have "value_at d (compact s) = Some (v, compact r)"
    using compaction [of s] assms by (simp add: compacts_def stops_def)
  ultimately show ?thesis by simp
qed


section \<open>Written values\<close>

text \<open>A text is written for a value when the value is read from its front, whatever follows that is not part of a number.\<close>

definition writes :: "int \<Rightarrow> gostring \<Rightarrow> json \<Rightarrow> bool" where
  "writes d t v \<longleftrightarrow> (\<forall>x. stops x \<longrightarrow> value_at d (t @ x) = Some (v, x))"

lemma writes_deeper: "writes d t v \<Longrightarrow> d \<le> d' \<Longrightarrow> writes d' t v"
  by (auto simp: writes_def intro: value_at_deeper)

lemma writes_parses: "writes max_nesting t v \<Longrightarrow> parse_json t = Some v"
  by (auto simp: writes_def stops_def parse_json_def parse_front_at dest!: spec [of _ "[]"])

lemma writes_quote: "utf8_Valid s \<Longrightarrow> writes d (quote s) (JStr s)"
proof -
  assume "utf8_Valid s"
  then have "parse_scalar (CHR 0x22 # escape s @ CHR 0x22 # x) = Some (JStr s, x)" for x
    by (simp add: parse_scalar_def scan_quote unquote_escape_id)
  then show ?thesis
    by (auto simp: writes_def quote_def value_at_Cons [of "CHR 0x22 # u" "CHR 0x22" u for u])
qed

lemma writes_word: "writes d ''null'' JNull" "writes d ''true'' (JBool True)" "writes d ''false'' (JBool False)"
  by (auto simp: writes_def value_at_Cons [of "CHR ''n'' # u" "CHR ''n''" u for u] value_at_Cons [of "CHR ''t'' # u" "CHR ''t''" u for u]
      value_at_Cons [of "CHR ''f'' # u" "CHR ''f''" u for u] parse_scalar_def)

lemma writes_head:
  assumes "writes d t v" "stops x"
  shows "\<exists>c r. skip_ws (t @ x) = c # r \<and> c \<noteq> CHR '']'' \<and> c \<noteq> CHR ''}''"
proof -
  have v: "value_at d (t @ x) = Some (v, x)" using assms by (simp add: writes_def)
  then obtain c r where c: "skip_ws (t @ x) = c # r" using value_at_Nil by (cases "skip_ws (t @ x)") auto
  have "parse_scalar (CHR '']'' # r) = None" "parse_scalar (CHR ''}'' # r) = None"
    by (simp_all add: parse_scalar_def scan_number_def span_digits_def in_range_def)
  with v [unfolded value_at_Cons [OF c]] c show ?thesis by (auto split: if_splits)
qed

lemma writes_elems:
  "list_all2 (writes d) ts vs \<Longrightarrow> ts \<noteq> [] \<Longrightarrow> elems_at d (separated ts @ CHR '']'' # x) = Some (vs, x)"
proof (induction ts arbitrary: vs)
  case (Cons t ts)
  then obtain v ws where v: "vs = v # ws" "writes d t v" "list_all2 (writes d) ts ws" by (auto simp: list_all2_Cons1)
  show ?case
  proof (cases ts)
    case Nil
    have "value_at d (t @ CHR '']'' # x) = Some (v, CHR '']'' # x)" using v(2) stops_mark by (simp add: writes_def)
    from elems_at_value [OF this] Nil v show ?thesis by simp
  next
    case (Cons t' ts')
    let ?u = "separated ts @ CHR '']'' # x"
    have "value_at d (t @ CHR '','' # ?u) = Some (v, CHR '','' # ?u)" using v(2) stops_mark by (simp add: writes_def)
    from elems_at_value [OF this] Cons.IH [OF v(3)] Cons v(1) show ?thesis by simp
  qed
qed simp

lemma writes_array:
  assumes "list_all2 (writes (d - 1)) ts vs" "0 < d"
  shows "writes d (arr_text ts) (JArr vs)"
proof (cases "ts = []")
  case True
  with assms show ?thesis by (simp add: writes_def arr_text_def value_at_empty)
next
  case False
  then obtain t ts' where t: "ts = t # ts'" by (cases ts) auto
  then obtain v where v: "writes (d - 1) t v" using assms(1) by (auto simp: list_all2_Cons1)
  have "value_at d (CHR ''['' # separated ts @ CHR '']'' # x) = Some (JArr vs, x)" for x
  proof -
    let ?u = "separated ts @ CHR '']'' # x"
    have "\<exists>y. ?u = t @ y \<and> stops y"
      using stops_mark by (cases ts') (auto simp: t)
    then obtain c r where c: "skip_ws ?u = c # r" "c \<noteq> CHR '']''" using writes_head [OF v] by metis
    with writes_elems [OF assms(1) False] assms(2) show ?thesis by (simp add: value_at_open(1))
  qed
  then show ?thesis by (simp add: writes_def arr_text_def)
qed

text \<open>Members: the key and a text of its value.\<close>

definition writes_member :: "int \<Rightarrow> gostring \<times> gostring \<Rightarrow> gostring \<times> json \<Rightarrow> bool" where
  "writes_member d e m \<longleftrightarrow> fst e = fst m \<and> utf8_Valid (fst e) \<and> writes d (snd e) (snd m)"

abbreviation member_text :: "gostring \<times> gostring \<Rightarrow> gostring" where
  "member_text e \<equiv> quote (fst e) @ '':'' @ snd e"

lemma member_front:
  assumes "writes_member d e m" "stops (c # x)" "skip_ws (c # x) = c # x"
  shows "members_at d (member_text e @ c # x) =
      (if c = CHR ''}'' then Some ([m], x) else if c = CHR '','' then map_option (\<lambda>(ms, t). (m # ms, t)) (members_at d x) else None)"
proof -
  have k: "unquote (escape (fst e)) = fst m" using assms(1) unquote_escape_id [of "fst e"] by (auto simp: writes_member_def)
  have v: "value_at d (snd e @ c # x) = Some (snd m, c # x)" using assms(1,2) by (simp add: writes_member_def writes_def)
  have q: "skip_ws (member_text e @ c # x) = CHR 0x22 # (escape (fst e) @ CHR 0x22 # CHR '':'' # snd e @ c # x)" by (simp add: quote_def)
  from members_at_value [OF q scan_quote _ v assms(3)] k show ?thesis by simp
qed

lemma writes_members:
  "list_all2 (writes_member d) es ms \<Longrightarrow> es \<noteq> [] \<Longrightarrow> members_at d (separated (map member_text es) @ CHR ''}'' # x) = Some (ms, x)"
proof (induction es arbitrary: ms)
  case (Cons e es)
  then obtain m ns where m: "ms = m # ns" "writes_member d e m" "list_all2 (writes_member d) es ns" by (auto simp: list_all2_Cons1)
  show ?case
  proof (cases es)
    case Nil
    from member_front [OF m(2) stops_mark, of "CHR ''}''" x] Nil m show ?thesis by simp
  next
    case (Cons e' es')
    let ?u = "separated (map member_text es) @ CHR ''}'' # x"
    from member_front [OF m(2) stops_mark, of "CHR '',''" ?u] Cons.IH [OF m(3)] Cons m(1) show ?thesis by simp
  qed
qed simp

lemma writes_object:
  assumes "list_all2 (writes_member (d - 1)) es ms" "0 < d"
  shows "writes d (obj_text es) (JObj ms)"
proof (cases "es = []")
  case True
  with assms show ?thesis by (simp add: writes_def obj_text_def value_at_empty)
next
  case False
  then obtain e es' where e: "es = e # es'" by (cases es) auto
  have "value_at d (CHR ''{'' # separated (map member_text es) @ CHR ''}'' # x) = Some (JObj ms, x)" for x
  proof -
    let ?u = "separated (map member_text es) @ CHR ''}'' # x"
    have "\<exists>y. ?u = quote (fst e) @ y" by (cases es') (simp_all add: e)
    then obtain r where "skip_ws ?u = CHR 0x22 # r" by (auto simp: quote_def)
    with writes_members [OF assms(1) False] assms(2) show ?thesis by (simp add: value_at_open(2))
  qed
  then show ?thesis by (simp add: writes_def obj_text_def case_prod_unfold)
qed

lemma writes_raw:
  assumes "marshal_raw raw = Some t" "value_at d raw = Some (v, r)" "skip_ws r = []"
  shows "writes d t v"
proof -
  have "raw \<noteq> []" using assms(2) value_at_Nil [of "[]" d] by auto
  with assms(1) have t: "t = compact raw" by (simp add: marshal_raw_def split: if_splits)
  have "value_at d t = Some (v, [])" unfolding t by (rule compact_value [OF assms(2,3)])
  with parser_local [of t] obtain u where "t = u @ []" "\<forall>x. stops x \<longrightarrow> value_at d (u @ x) = Some (v, x)"
    unfolding value_local_def by blast
  then show ?thesis by (simp add: writes_def)
qed


section \<open>Nesting\<close>

fun nests :: "json \<Rightarrow> int" where
  "nests (JArr vs) = 1 + foldr (\<lambda>v. max (nests v)) vs 0"
| "nests (JObj ms) = 1 + foldr (\<lambda>(k, v). max (nests v)) ms 0"
| "nests _ = 0"

definition nest_all :: "json list \<Rightarrow> int" where
  "nest_all vs = foldr (\<lambda>v. max (nests v)) vs 0"

definition nest_members :: "(gostring \<times> json) list \<Rightarrow> int" where
  "nest_members ms = foldr (\<lambda>(k, v). max (nests v)) ms 0"

lemma nest_simps [simp]:
  "nest_all [] = 0" "nest_all (v # vs) = max (nests v) (nest_all vs)"
  "nest_members [] = 0" "nest_members (m # ms) = max (nests (snd m)) (nest_members ms)"
  "nests (JArr vs) = 1 + nest_all vs" "nests (JObj ms) = 1 + nest_members ms"
  by (simp_all add: nest_all_def nest_members_def case_prod_unfold)

declare nests.simps(1,2) [simp del]

lemma nest_nonneg: "0 \<le> nest_all vs" "0 \<le> nest_members ms"
  by (induction vs) (simp_all, induction ms, simp_all)

text \<open>A value is read within any nesting that allows for its own.\<close>

definition shallow :: "gostring \<Rightarrow> bool" where
  "shallow s \<longleftrightarrow>
     (\<forall>d d' v r. value_at d s = Some (v, r) \<longrightarrow> nests v \<le> d' \<longrightarrow> value_at d' s = Some (v, r))
     \<and> (\<forall>d d' vs r. elems_at d s = Some (vs, r) \<longrightarrow> nest_all vs \<le> d' \<longrightarrow> elems_at d' s = Some (vs, r))
     \<and> (\<forall>d d' ms r. members_at d s = Some (ms, r) \<longrightarrow> nest_members ms \<le> d' \<longrightarrow> members_at d' s = Some (ms, r))"

lemma shallowD:
  "shallow s \<Longrightarrow> value_at d s = Some (v, r) \<Longrightarrow> nests v \<le> d' \<Longrightarrow> value_at d' s = Some (v, r)"
  "shallow s \<Longrightarrow> elems_at d s = Some (vs, r) \<Longrightarrow> nest_all vs \<le> d' \<Longrightarrow> elems_at d' s = Some (vs, r)"
  "shallow s \<Longrightarrow> members_at d s = Some (ms, r) \<Longrightarrow> nest_members ms \<le> d' \<Longrightarrow> members_at d' s = Some (ms, r)"
  unfolding shallow_def by blast+

lemma shallow_value:
  assumes "\<And>t. length t < length s \<Longrightarrow> shallow t" "value_at d s = Some (v, r)" "nests v \<le> d'"
  shows "value_at d' s = Some (v, r)"
proof -
  obtain c u where s: "skip_ws s = c # u" using assms(2) value_at_Nil [of s d] by (cases "skip_ws s") auto
  have IH: "shallow u" using assms(1) skip_ws_Cons [OF s] by blast
  note v = assms(2) [unfolded value_at_Cons [OF s]]
  show ?thesis
  proof (cases "c = CHR ''['' \<or> c = CHR ''{''")
    case False
    with v show ?thesis by (simp add: value_at_Cons [OF s])
  next
    case True
    with v obtain e y where e: "skip_ws u = e # y" "0 < d" by (auto split: if_splits list.splits)
    have arr: "elems_at (d' - 1) u = Some (vs, r)" if "elems_at (d - 1) u = Some (vs, r)" "v = JArr vs" for vs
      by (rule shallowD(2) [OF IH that(1)]) (use that(2) assms(3) in simp)
    have obj: "members_at (d' - 1) u = Some (ms, r)" if "members_at (d - 1) u = Some (ms, r)" "v = JObj ms" for ms
      by (rule shallowD(3) [OF IH that(1)]) (use that(2) assms(3) in simp)
    have "(\<exists>vs. v = JArr vs) \<or> (\<exists>ms. v = JObj ms)" using v True e by (auto split: if_splits)
    then have "1 \<le> nests v" using nest_nonneg by auto
    then have d': "0 < d'" using assms(3) by simp
    from v True e d' arr obj show ?thesis by (auto simp: value_at_Cons [OF s] split: if_splits)
  qed
qed

lemma shallow_elems:
  assumes "\<And>t. length t < length s \<Longrightarrow> shallow t" "elems_at d s = Some (vs, r)" "nest_all vs \<le> d'"
  shows "elems_at d' s = Some (vs, r)"
  using assms(2)
proof (cases rule: elems_at_cases)
  case (last v t)
  have "value_at d' s = Some (v, t)" by (rule shallow_value [OF assms(1) last(1)]) (use assms(3) last(3) in simp_all)
  from elems_at_value [OF this last(2)] last(3) show ?thesis by simp
next
  case (more v t r' ws)
  have "value_at d' s = Some (v, t)" by (rule shallow_value [OF assms(1) more(1)]) (use assms(3) more(4) in simp_all)
  moreover have "shallow r'" using assms(1) at_shrinks(1) [OF more(1)] skip_ws_Cons [OF more(2)] by simp
  then have "elems_at d' r' = Some (ws, r)" by (rule shallowD(2) [OF _ more(3)]) (use more(4) assms(3) in simp)
  ultimately show ?thesis using elems_at_value [OF _ more(2)] more(4) by simp
qed

lemma shallow_members:
  assumes "\<And>t. length t < length s \<Longrightarrow> shallow t" "members_at d s = Some (ms, r)" "nest_members ms \<le> d'"
  shows "members_at d' s = Some (ms, r)"
  using assms(2)
proof (cases rule: members_at_cases)
  case (last qs raw t ks v u)
  have "shallow ks" using assms(1) skip_ws_Cons [OF last(1)] scan_string_shrinks [OF last(2)] skip_ws_Cons [OF last(3)] by simp
  then have "value_at d' ks = Some (v, u)" by (rule shallowD(1) [OF _ last(4)]) (use last(6) assms(3) in simp)
  from members_at_value [OF last(1-3) this last(5)] last(6) show ?thesis by simp
next
  case (more qs raw t ks v u u' ns)
  note l = skip_ws_Cons [OF more(1)] scan_string_shrinks [OF more(2)] skip_ws_Cons [OF more(3)] at_shrinks(1) [OF more(4)] skip_ws_Cons [OF more(5)]
  have sh: "shallow ks" "shallow u'" by (rule assms(1); use l in simp)+
  have v: "value_at d' ks = Some (v, u)" by (rule shallowD(1) [OF sh(1) more(4)]) (use more(7) assms(3) in simp)
  have "members_at d' u' = Some (ns, r)" by (rule shallowD(3) [OF sh(2) more(6)]) (use more(7) assms(3) in simp)
  with members_at_value [OF more(1-3) v more(5)] more(7) show ?thesis by simp
qed

lemma all_shallow: "shallow s"
proof (induction "length s" arbitrary: s rule: less_induct)
  case less
  show ?case
    unfolding shallow_def
    by (intro conjI allI impI)
      (rule shallow_value, erule less, assumption, assumption, rule shallow_elems, erule less, assumption, assumption,
       rule shallow_members, erule less, assumption, assumption)
qed

lemma value_at_shallow: "value_at d s = Some (v, r) \<Longrightarrow> nests v \<le> d' \<Longrightarrow> value_at d' s = Some (v, r)"
  by (rule shallowD(1) [OF all_shallow])

end
