(* ===== verification/Wire_Read.thy ===== *)
theory Wire_Read
  imports Wire_Compact
begin

text \<open>
  What the provider reads: the body of a request is a JSON text whose value is the request, field by field.
\<close>

section \<open>The value of a request\<close>

definition string_or_null :: "gostring option \<Rightarrow> json" where
  "string_or_null p = (case p of None \<Rightarrow> JNull | Some s \<Rightarrow> JStr s)"

definition member_if :: "bool \<Rightarrow> gostring \<Rightarrow> json \<Rightarrow> (gostring \<times> json) list" where
  "member_if present k v = (if present then [(k, v)] else [])"

definition member_of :: "gostring \<Rightarrow> ('a \<Rightarrow> json) \<Rightarrow> 'a option \<Rightarrow> (gostring \<times> json) list" where
  "member_of k f p = (case p of None \<Rightarrow> [] | Some x \<Rightarrow> [(k, f x)])"

definition call_value :: "ToolCall \<Rightarrow> json" where
  "call_value call =
     JObj [(''id'', JStr (tc_ID call)), (''type'', JStr (tc_Type call)),
       (''function'', JObj [(''name'', JStr (tf_Name (tc_Function call))), (''arguments'', JStr (tf_Arguments (tc_Function call)))])]"

definition message_value :: "ChatMessage \<Rightarrow> json" where
  "message_value m =
     JObj ([(''role'', JStr (cm_Role m)), (''content'', string_or_null (cm_Content m))]
       @ member_of ''reasoning_content'' JStr (cm_ReasoningContent m)
       @ member_if (cm_ToolCalls m \<noteq> []) ''tool_calls'' (JArr (map call_value (cm_ToolCalls m)))
       @ member_if (cm_ToolCallID m \<noteq> []) ''tool_call_id'' (JStr (cm_ToolCallID m)))"

text \<open>The schema's value is that of its text.\<close>

definition raw_value :: "gobytes \<Rightarrow> json" where
  "raw_value raw = (case parse_json raw of None \<Rightarrow> JNull | Some v \<Rightarrow> v)"

definition tool_value :: "ChatCompletionTool \<Rightarrow> json" where
  "tool_value t = (let f = wt_Function t in
     JObj [(''type'', JStr (wt_Type t)),
       (''function'', JObj ([(''name'', JStr (fd_Name f))]
         @ member_if (fd_Description f \<noteq> []) ''description'' (JStr (fd_Description f))
         @ [(''parameters'', raw_value (fd_Parameters f))]
         @ member_of ''strict'' JBool (fd_Strict f)))])"

definition choice_value :: "ProviderToolChoice \<Rightarrow> json" where
  "choice_value choice =
     (if ptc_String choice \<noteq> [] then JStr (ptc_String choice)
      else JObj [(''type'', JStr (ptc_Type choice)), (''function'', JObj [(''name'', JStr (ptc_Function choice))])])"

definition type_value :: "gostring \<Rightarrow> json" where
  "type_value kind = JObj [(''type'', JStr kind)]"

definition request_value :: "ChatCompletionRequest \<Rightarrow> json" where
  "request_value wire =
     JObj ([(''model'', JStr (cq_Model wire)), (''messages'', JArr (map message_value (cq_Messages wire)))]
       @ member_if (cq_Tools wire \<noteq> []) ''tools'' (JArr (map tool_value (cq_Tools wire)))
       @ member_of ''tool_choice'' choice_value (cq_ToolChoice wire)
       @ [(''parallel_tool_calls'', JBool (cq_ParallelToolCalls wire)), (''stream'', JBool (cq_Stream wire))]
       @ member_of ''thinking'' type_value (cq_Thinking wire)
       @ member_if (cq_ReasoningEffort wire \<noteq> []) ''reasoning_effort'' (JStr (cq_ReasoningEffort wire))
       @ member_of ''response_format'' type_value (cq_ResponseFormat wire))"

section \<open>Requests whose strings are UTF-8\<close>

definition if_some :: "('a \<Rightarrow> bool) \<Rightarrow> 'a option \<Rightarrow> bool" where
  "if_some P p \<longleftrightarrow> (case p of None \<Rightarrow> True | Some x \<Rightarrow> P x)"

lemma if_some_simps [simp]: "if_some P None" "if_some P (Some x) = P x"
  by (simp_all add: if_some_def)

definition call_utf8 :: "ToolCall \<Rightarrow> bool" where
  "call_utf8 call \<longleftrightarrow> tc_Index call = None \<and> utf8_Valid (tc_ID call) \<and> utf8_Valid (tc_Type call)
     \<and> utf8_Valid (tf_Name (tc_Function call)) \<and> utf8_Valid (tf_Arguments (tc_Function call))"

definition message_utf8 :: "ChatMessage \<Rightarrow> bool" where
  "message_utf8 m \<longleftrightarrow> utf8_Valid (cm_Role m) \<and> if_some utf8_Valid (cm_Content m) \<and> if_some utf8_Valid (cm_ReasoningContent m)
     \<and> list_all call_utf8 (cm_ToolCalls m) \<and> utf8_Valid (cm_ToolCallID m)"

text \<open>A schema leaves room for the levels it is nested in; the decoder of the gateway allows far fewer.\<close>

definition tool_utf8 :: "ChatCompletionTool \<Rightarrow> bool" where
  "tool_utf8 t \<longleftrightarrow> utf8_Valid (wt_Type t) \<and> utf8_Valid (fd_Name (wt_Function t)) \<and> utf8_Valid (fd_Description (wt_Function t))
     \<and> nests (raw_value (fd_Parameters (wt_Function t))) \<le> max_nesting - 4"

definition choice_utf8 :: "ProviderToolChoice \<Rightarrow> bool" where
  "choice_utf8 c \<longleftrightarrow> utf8_Valid (ptc_String c) \<and> utf8_Valid (ptc_Type c) \<and> utf8_Valid (ptc_Function c)"

definition request_utf8 :: "ChatCompletionRequest \<Rightarrow> bool" where
  "request_utf8 wire \<longleftrightarrow> utf8_Valid (cq_Model wire) \<and> list_all message_utf8 (cq_Messages wire) \<and> list_all tool_utf8 (cq_Tools wire)
     \<and> if_some choice_utf8 (cq_ToolChoice wire) \<and> if_some utf8_Valid (cq_Thinking wire)
     \<and> utf8_Valid (cq_ReasoningEffort wire) \<and> if_some utf8_Valid (cq_ResponseFormat wire)"

section \<open>Fields\<close>

lemma utf8_ascii: "list_all (\<lambda>c. byte c < 128) s \<Longrightarrow> utf8_Valid s"
  by (induction s) (auto simp: utf8_Valid_ascii)

abbreviation fields :: "int \<Rightarrow> (gostring \<times> gostring) list \<Rightarrow> (gostring \<times> json) list \<Rightarrow> bool" where
  "fields d \<equiv> list_all2 (writes_member d)"

lemma field_append: "fields d es ms \<Longrightarrow> fields d fs ns \<Longrightarrow> fields d (es @ fs) (ms @ ns)"
  by (rule list_all2_appendI)

lemma field_Cons: "utf8_Valid k \<Longrightarrow> writes d t v \<Longrightarrow> fields d es ms \<Longrightarrow> fields d ((k, t) # es) ((k, v) # ms)"
  by (simp add: writes_member_def)

lemma field_omit_empty: "utf8_Valid k \<Longrightarrow> utf8_Valid s \<Longrightarrow> fields d (omit_empty k s) (member_if (s \<noteq> []) k (JStr s))"
  by (simp add: omit_empty_def member_if_def writes_member_def writes_quote)

lemma field_omit_nil: "utf8_Valid k \<Longrightarrow> (\<And>x. p = Some x \<Longrightarrow> writes d (f x) (g x)) \<Longrightarrow> fields d (omit_nil k f p) (member_of k g p)"
  by (cases p) (simp_all add: omit_nil_def member_of_def writes_member_def)

lemma field_omit_none:
  "utf8_Valid k \<Longrightarrow> list_all2 (writes (d - 1)) ts vs \<Longrightarrow> 0 < d \<Longrightarrow> fields d (omit_none k ts) (member_if (vs \<noteq> []) k (JArr vs))"
  by (auto simp: omit_none_def member_if_def writes_member_def writes_array list_all2_Nil dest: list_all2_lengthD)

lemmas field_intros = field_append field_Cons field_omit_empty field_omit_nil field_omit_none

lemma writes_bool: "writes d (bool_text b) (JBool b)"
  by (simp add: bool_text_def writes_word)

lemma writes_quote_or_null: "if_some utf8_Valid p \<Longrightarrow> writes d (quote_or_null p) (string_or_null p)"
  by (cases p) (simp_all add: quote_or_null_def string_or_null_def writes_word writes_quote)

section \<open>The structs\<close>

lemma writes_call:
  assumes "call_utf8 call" "2 \<le> d"
  shows "writes d (tool_call_text call) (call_value call)"
  unfolding tool_call_text_def call_value_def
  by (intro writes_object) (use assms in \<open>simp_all add: call_utf8_def omit_nil_def writes_member_def writes_quote writes_object utf8_ascii\<close>)

lemma list_all2_maps: "list_all P xs \<Longrightarrow> (\<And>x. P x \<Longrightarrow> R (f x) (g x)) \<Longrightarrow> list_all2 R (map f xs) (map g xs)"
  by (induction xs) simp_all

lemma writes_message:
  assumes "message_utf8 m" "4 \<le> d"
  shows "writes d (message_text m) (message_value m)"
proof -
  have calls: "list_all2 (writes (d - 1 - 1)) (map tool_call_text (cm_ToolCalls m)) (map call_value (cm_ToolCalls m))"
    by (rule list_all2_maps [where P = call_utf8]) (use assms in \<open>simp_all add: message_utf8_def writes_call\<close>)
  have "fields (d - 1) (omit_none ''tool_calls'' (map tool_call_text (cm_ToolCalls m)))
      (member_if (map call_value (cm_ToolCalls m) \<noteq> []) ''tool_calls'' (JArr (map call_value (cm_ToolCalls m))))"
    using assms(2) by (intro field_omit_none calls) (simp_all add: utf8_ascii)
  then show ?thesis
    unfolding message_text_def message_value_def
    by (intro writes_object field_intros)
      (use assms in \<open>auto simp: message_utf8_def utf8_ascii intro: writes_quote writes_quote_or_null\<close>)
qed


lemma writes_parameters:
  assumes "marshal_raw raw = Some t" "raw \<noteq> []" "nests (raw_value raw) \<le> d"
  shows "writes d t (raw_value raw)"
proof -
  obtain v where v: "parse_json raw = Some v" using assms(1,2) by (auto simp: marshal_raw_def split: if_splits)
  then obtain r where r: "value_at max_nesting raw = Some (v, r)" "skip_ws r = []"
    by (auto simp: parse_json_def parse_front_at split: option.splits if_splits)
  have "value_at d raw = Some (v, r)" by (rule value_at_shallow [OF r(1)]) (use assms(3) v in \<open>simp add: raw_value_def\<close>)
  from writes_raw [OF assms(1) this r(2)] v show ?thesis by (simp add: raw_value_def)
qed

lemma writes_tool:
  assumes "tool_text t = Some x" "tool_utf8 t" "fd_Parameters (wt_Function t) \<noteq> []" "max_nesting - 2 \<le> d"
  shows "writes d x (tool_value t)"
proof -
  obtain p where p: "marshal_raw (fd_Parameters (wt_Function t)) = Some p" using assms(1) by (auto simp: tool_text_def split: option.splits)
  have w: "writes (d - 1 - 1) p (raw_value (fd_Parameters (wt_Function t)))"
    by (rule writes_parameters [OF p assms(3)]) (use assms(2,4) in \<open>simp add: tool_utf8_def\<close>)
  have x: "x = obj_text [(''type'', quote (wt_Type t)), (''function'', obj_text ([(''name'', quote (fd_Name (wt_Function t)))]
      @ omit_empty ''description'' (fd_Description (wt_Function t)) @ [(''parameters'', p)] @ omit_nil ''strict'' bool_text (fd_Strict (wt_Function t))))]"
    using assms(1) p by (simp add: tool_text_def)
  show ?thesis
    unfolding tool_value_def Let_def x
    by (intro writes_object field_intros) (use assms(2,4) w in \<open>auto simp: tool_utf8_def utf8_ascii intro: writes_quote writes_bool\<close>)
qed

lemma writes_choice: "choice_utf8 c \<Longrightarrow> 2 \<le> d \<Longrightarrow> writes d (choice_text c) (choice_value c)"
  unfolding choice_text_def choice_value_def
  by (auto simp: choice_utf8_def writes_member_def writes_quote utf8_ascii intro!: writes_object)

lemma writes_type: "utf8_Valid k \<Longrightarrow> 1 \<le> d \<Longrightarrow> writes d (type_text k) (type_value k)"
  unfolding type_text_def type_value_def by (intro writes_object) (simp_all add: writes_member_def writes_quote utf8_ascii)

lemma all_texts_Some: "all_texts (map f xs) = Some ts \<Longrightarrow> list_all2 (\<lambda>x t. f x = Some t) xs ts"
  by (induction xs arbitrary: ts) (auto split: option.splits)

lemma writes_tools:
  "all_texts (map tool_text tools) = Some ts \<Longrightarrow> list_all tool_utf8 tools \<Longrightarrow> list_all (\<lambda>t. fd_Parameters (wt_Function t) \<noteq> []) tools \<Longrightarrow>
     max_nesting - 2 \<le> d \<Longrightarrow> list_all2 (writes d) ts (map tool_value tools)"
proof (induction tools arbitrary: ts)
  case (Cons t tools)
  then show ?case by (auto simp: writes_tool split: option.splits)
qed simp

text \<open>The whole body. The parameters of a tool are never empty: the mapping refuses a function without them.\<close>

lemma request_written:
  assumes "marshal_request wire = Some body" "request_utf8 wire" "list_all (\<lambda>t. fd_Parameters (wt_Function t) \<noteq> []) (cq_Tools wire)"
  shows "parse_json body = Some (request_value wire)"
proof -
  obtain tools where t: "all_texts (map tool_text (cq_Tools wire)) = Some tools" using assms(1) by (auto simp: marshal_request_def split: option.splits)
  have tools: "fields (max_nesting - 1) (omit_none ''tools'' tools) (member_if (map tool_value (cq_Tools wire) \<noteq> []) ''tools'' (JArr (map tool_value (cq_Tools wire))))"
    by (intro field_omit_none writes_tools [OF t]) (use assms(2,3) in \<open>simp_all add: request_utf8_def utf8_ascii\<close>)
  have messages: "writes (max_nesting - 1) (arr_text (map message_text (cq_Messages wire))) (JArr (map message_value (cq_Messages wire)))"
    by (intro writes_array list_all2_maps [where P = message_utf8]) (use assms(2) in \<open>simp_all add: request_utf8_def writes_message\<close>)
  have "writes max_nesting body (request_value wire)"
    using assms(1) t unfolding marshal_request_def request_value_def
    by (simp only: option.case option.inject)
      (erule subst, intro writes_object field_intros,
       use assms(2) tools messages in \<open>auto simp: request_utf8_def utf8_ascii intro: writes_quote writes_bool writes_choice writes_type\<close>)
  then show ?thesis by (rule writes_parses)
qed

end
