(* ===== verification/Client_Props.thy ===== *)
theory Client_Props
  imports Client Wire_Read Map_Props Server_Replies
begin

text \<open>
  What the provider's client sends and what it lets through: where the credential goes, that the body says what the
  request says, which responses are accepted, and what the caller of the gateway sees of the provider's status.
\<close>

section \<open>Construction\<close>

text \<open>The path of the call: the base path without its trailing slashes, \<open>/v1\<close> unless it ends in it, and the call.\<close>

lemma trim_slashes_split: "\<exists>n. path = trim_slashes path @ replicate n CHR ''/'' \<and> \<not> HasSuffix (trim_slashes path) ''/''"
proof -
  define out where "out = rev (takeWhile (\<lambda>c. c = CHR ''/'') (rev path))"
  have "rev path = takeWhile (\<lambda>c. c = CHR ''/'') (rev path) @ dropWhile (\<lambda>c. c = CHR ''/'') (rev path)" by simp
  then have "path = trim_slashes path @ out" unfolding trim_slashes_def out_def by (metis rev_append rev_rev_ident)
  moreover have "out = replicate (length out) CHR ''/''"
    by (rule replicate_eqI) (auto simp: out_def dest: set_takeWhileD)
  moreover have "\<not> HasSuffix (trim_slashes path) ''/''"
  proof
    assume "HasSuffix (trim_slashes path) ''/''"
    then obtain p where "rev (dropWhile (\<lambda>c. c = CHR ''/'') (rev path)) = p @ ''/''" by (auto simp: HasSuffix_iff suffix_def trim_slashes_def)
    then have "rev (rev (dropWhile (\<lambda>c. c = CHR ''/'') (rev path))) = rev (p @ ''/'')" by (rule arg_cong)
    then have d: "dropWhile (\<lambda>c. c = CHR ''/'') (rev path) = CHR ''/'' # rev p" by simp
    show False using hd_dropWhile [of "\<lambda>c. c = CHR ''/''" "rev path"] unfolding d by simp
  qed
  ultimately show ?thesis by metis
qed

lemma endpointURL_ok:
  assumes "endpointURL lib raw = Inr u"
  shows "\<exists>p c n. url_Parse lib raw = Some p \<and> u_Path p = c @ replicate n CHR ''/'' \<and> \<not> HasSuffix c ''/''
    \<and> u = p\<lparr>u_Path := c @ (if HasSuffix c ''/v1'' then ''/chat/completions'' else ''/v1/chat/completions''), u_RawPath := []\<rparr>
    \<and> (u_Scheme p = ''https'' \<or> u_Scheme p = ''http'' \<and> isLoopbackHost lib (Hostname p))
    \<and> u_Host p \<noteq> [] \<and> \<not> u_User p \<and> u_RawQuery p = [] \<and> u_Fragment p = []
    \<and> list_all (\<lambda>segment. segment \<noteq> ''.'' \<and> segment \<noteq> ''..'') (path_segments (u_Path p))"
proof -
  obtain p where p: "url_Parse lib raw = Some p" using assms by (auto simp: endpointURL_def split: option.splits)
  obtain n where n: "u_Path p = trim_slashes (u_Path p) @ replicate n CHR ''/''" "\<not> HasSuffix (trim_slashes (u_Path p)) ''/''"
    using trim_slashes_split by blast
  have "u = p\<lparr>u_Path := trim_slashes (u_Path p) @ (if HasSuffix (trim_slashes (u_Path p)) ''/v1'' then ''/chat/completions'' else ''/v1/chat/completions''), u_RawPath := []\<rparr>"
    "u_Scheme p = ''https'' \<or> u_Scheme p = ''http'' \<and> isLoopbackHost lib (Hostname p)"
    "u_Host p \<noteq> []" "\<not> u_User p" "u_RawQuery p = []" "u_Fragment p = []"
    "list_all (\<lambda>segment. segment \<noteq> ''.'' \<and> segment \<noteq> ''..'') (path_segments (u_Path p))"
    using assms by (auto simp: endpointURL_def p Let_def list_all_iff list_ex_iff split: if_splits)
  with p n show ?thesis by blast
qed

text \<open>The bytes a header value may have.\<close>

definition printable :: "char \<Rightarrow> bool" where
  "printable c \<longleftrightarrow> 0x21 \<le> byte c \<and> byte c \<le> 0x7E"

lemma validCredential_printable: "validCredential v \<Longrightarrow> v \<noteq> [] \<and> len v \<le> 4096 \<and> list_all printable v"
  by (auto simp: validCredential_def validHeaderValue_def printable_def list_all_iff split: if_splits)

lemma runes_unfold: "s \<noteq> [] \<Longrightarrow> runes s = (let n = (if rune_width s = 0 then 1 else rune_width s) in take n s # runes (drop n s))"
  by (subst runes.simps) simp

text \<open>No line break and no other ASCII control character can be in a header value.\<close>

lemma header_runes: "list_all (\<lambda>r. \<not> control_rune r) (runes s) \<Longrightarrow> c \<in> set s \<Longrightarrow> 0x20 \<le> byte c \<and> byte c \<noteq> 0x7F"
proof (induction s rule: runes.induct)
  case (1 s)
  then have ne: "s \<noteq> []" by auto
  define n where "n = (if rune_width s = 0 then 1 else rune_width s)"
  have n: "n \<noteq> 0" by (simp add: n_def)
  have r: "runes s = take n s # runes (drop n s)" using runes_unfold [OF ne] by (simp add: n_def Let_def)
  from "1.prems"(2) consider "c \<in> set (drop n s)" | "c \<in> set (take n s)"
    by (metis append_take_drop_id set_append UnE)
  then show ?case
  proof cases
    case 1
    from "1.IH" [OF ne refl] "1.prems"(1) 1 r show ?thesis by (simp add: n_def)
  next
    case 2
    show ?thesis
    proof (cases s)
      case (Cons a t)
      show ?thesis
      proof (cases "byte a < 128")
        case True
        then have "n = 1" using Cons by (simp add: n_def del: rune_width.simps)
        with 2 Cons r "1.prems"(1) show ?thesis by (auto simp: control_rune_def)
      next
        case high: False
        have "128 \<le> byte c"
        proof (cases "rune_width s = 0")
          case True
          with 2 Cons high show ?thesis by (simp add: n_def)
        next
          case False
          with rune_width_tail [of a t] Cons high have "list_all continuation_byte (take (n - 1) t)" by (simp add: n_def)
          with 2 Cons high n show ?thesis
            by (cases n) (auto simp: continuation_byte_def in_range_def list_all_iff)
        qed
        then show ?thesis by simp
      qed
    qed (use ne in simp)
  qed
qed

lemma validHeaderValue_bytes: "validHeaderValue v n \<Longrightarrow> v \<noteq> [] \<and> len v \<le> n \<and> (\<forall>c \<in> set v. 0x20 \<le> byte c \<and> byte c \<noteq> 0x7F)"
  using header_runes [of v] by (auto simp: validHeaderValue_def list_all_iff split: if_splits)

lemma NewClient_ok:
  assumes "NewClient lib h config = Inr client"
  shows "endpointURL lib (or_text (ck_BaseURL config) DefaultBaseURL) = Inr (oc_endpoint client)"
    "validCredential (oc_apiKey client)" "oc_apiKey client = ck_APIKey config"
    "validateProviderModel (oc_model client) = None" "validHeaderValue (oc_userAgent client) 256" "0 < oc_maxRequestBodyBytes client"
    "oc_thinkingMode client \<in> {ThinkingEnabled, ThinkingDisabled}"
    "oc_maxRequestBodyBytes client = or_default (ck_MaxRequestBodyBytes config) DefaultMaxRequestBodyBytes"
    "oc_model client = or_text (ck_Model config) DefaultModel"
    "oc_httpClient client = (case ck_HTTPClient config of
       None \<Rightarrow> h (or_default (ck_DialTimeout config) DefaultDialTimeout) (or_default (ck_TLSHandshakeTimeout config) DefaultTLSHandshakeTimeout)
                (or_default (ck_ResponseHeaderTimeout config) DefaultResponseHeaderTimeout)
     | Some doer \<Rightarrow> doer)"
    "oc_userAgent client = or_text (ck_UserAgent config) DefaultUserAgent"
  using assms
  by (auto simp: NewClient_def attempt_Inr_iff Let_def simp del: thinking_modes split: if_splits option.splits)

section \<open>Requests\<close>

lemma client_request_ok:
  assumes "client_request lib client request = Inr call"
  obtains wire where "BuildRequest client request = Inr wire" "marshal_request wire = Some (hc_Body call)"
    "len (hc_Body call) \<le> oc_maxRequestBodyBytes client" "hc_Method call = ''POST''" "hc_URL call = url_String lib (oc_endpoint client)"
    "hc_Header call = [(''Authorization'', ''Bearer '' @ oc_apiKey client), (''Content-Type'', ''application/json''),
       (''Accept'', DefaultAccept), (''User-Agent'', oc_userAgent client)]"
  using assms that by (auto simp: client_request_def attempt_Inr_iff split: option.splits if_splits)

text \<open>
  C8: A client that could be constructed sends its credential to one place only: the configured base address, or the
  default one if none is configured, whose path gets the chat completions call of the API behind it and nothing else is
  changed. It is reached over TLS or on the loopback interface and has no user info, query or fragment. The credential
  that is sent is the configured one, the header values hold no control character, so that no header can be injected,
  and the body is within the configured limit.
\<close>

theorem client_request_safe:
  assumes "NewClient lib h config = Inr client" "client_request lib client request = Inr call"
  shows "(\<exists>p c n. url_Parse lib (if ck_BaseURL config = [] then ''https://opencode.ai/zen/go/v1'' else ck_BaseURL config) = Some p
        \<and> u_Path p = c @ replicate n CHR ''/'' \<and> \<not> HasSuffix c ''/''
        \<and> hc_URL call = url_String lib (p\<lparr>u_Path := c @ (if HasSuffix c ''/v1'' then ''/chat/completions'' else ''/v1/chat/completions''), u_RawPath := []\<rparr>)
        \<and> (u_Scheme p = ''https'' \<or> u_Scheme p = ''http'' \<and> isLoopbackHost lib (Hostname p))
        \<and> u_Host p \<noteq> [] \<and> \<not> u_User p \<and> u_RawQuery p = [] \<and> u_Fragment p = []
        \<and> list_all (\<lambda>segment. segment \<noteq> ''.'' \<and> segment \<noteq> ''..'') (path_segments (u_Path p)))
    \<and> map_of (hc_Header call) ''Authorization'' = Some (''Bearer '' @ ck_APIKey config)
    \<and> list_all (\<lambda>(k, v). list_all (\<lambda>c. 0x20 \<le> byte c \<and> byte c \<noteq> 0x7F) v) (hc_Header call)
    \<and> hc_Method call = ''POST''
    \<and> len (hc_Body call) \<le> (if ck_MaxRequestBodyBytes config = 0 then 16 * 2 ^ 20 else ck_MaxRequestBodyBytes config)"
proof -
  note ok = NewClient_ok [OF assms(1)]
  have url: "hc_URL call = url_String lib (oc_endpoint client)"
    and header: "hc_Header call = [(''Authorization'', ''Bearer '' @ oc_apiKey client), (''Content-Type'', ''application/json''),
       (''Accept'', DefaultAccept), (''User-Agent'', oc_userAgent client)]"
    and rest: "hc_Method call = ''POST''" "len (hc_Body call) \<le> oc_maxRequestBodyBytes client"
    by (rule client_request_ok [OF assms(2)]; blast)+
  have "list_all (\<lambda>c. 0x20 \<le> byte c \<and> byte c \<noteq> 0x7F) (oc_apiKey client)"
    using validCredential_printable [OF ok(2)] by (auto simp: list_all_iff printable_def)
  then have "list_all (\<lambda>(k, v). list_all (\<lambda>c. 0x20 \<le> byte c \<and> byte c \<noteq> 0x7F) v) (hc_Header call)"
    using validHeaderValue_bytes [OF ok(5)] unfolding header by (simp add: DefaultAccept_def list_all_iff)
  moreover have "map_of (hc_Header call) ''Authorization'' = Some (''Bearer '' @ ck_APIKey config)"
    using ok(3) by (simp add: header)
  moreover have "oc_maxRequestBodyBytes client = (if ck_MaxRequestBodyBytes config = 0 then 16 * 2 ^ 20 else ck_MaxRequestBodyBytes config)"
    using ok(8) by (simp add: or_default_def DefaultMaxRequestBodyBytes_def)
  moreover have base: "or_text (ck_BaseURL config) DefaultBaseURL = (if ck_BaseURL config = [] then ''https://opencode.ai/zen/go/v1'' else ck_BaseURL config)"
    by (simp add: or_text_def DefaultBaseURL_def)
  note ep = endpointURL_ok [OF ok(1) [unfolded base]]
  have "\<exists>p c n. url_Parse lib (if ck_BaseURL config = [] then ''https://opencode.ai/zen/go/v1'' else ck_BaseURL config) = Some p
        \<and> u_Path p = c @ replicate n CHR ''/'' \<and> \<not> HasSuffix c ''/''
        \<and> hc_URL call = url_String lib (p\<lparr>u_Path := c @ (if HasSuffix c ''/v1'' then ''/chat/completions'' else ''/v1/chat/completions''), u_RawPath := []\<rparr>)
        \<and> (u_Scheme p = ''https'' \<or> u_Scheme p = ''http'' \<and> isLoopbackHost lib (Hostname p))
        \<and> u_Host p \<noteq> [] \<and> \<not> u_User p \<and> u_RawQuery p = [] \<and> u_Fragment p = []
        \<and> list_all (\<lambda>segment. segment \<noteq> ''.'' \<and> segment \<noteq> ''..'') (path_segments (u_Path p))"
    unfolding url by (rule ex_forward [OF ep], (rule ex_forward, assumption)+) (elim conjE, intro conjI, (assumption | simp)+)
  ultimately show ?thesis using rest by simp
qed

lemma MapRequest_parameters:
  "MapRequestWithThinking request model mode = Inr w \<Longrightarrow> list_all (\<lambda>t. fd_Parameters (wt_Function t) \<noteq> [] \<and> isJSONObject (fd_Parameters (wt_Function t))) (cq_Tools w)"
proof -
  assume "MapRequestWithThinking request model mode = Inr w"
  then obtain registry where "map_tools (rq_Tools request) registry = Inr (cq_Tools w)" by (rule MapRequest_parts)
  then have "tools_ok (cq_Tools w)" using map_tools_ok by blast
  moreover have "\<not> isJSONObject []" by code_simp
  ultimately show ?thesis unfolding tools_ok_def by (auto simp: list_all_iff)
qed

text \<open>
  C9: What the provider reads is the request: the body that is sent is a JSON document whose value has the model, every
  message with its role, content, reasoning, tool calls and call id, every tool with its schema's value, and the
  options of the mapped request, provided its strings are UTF-8 (as all strings that were decoded from JSON are).
\<close>

theorem request_body_reads_back:
  assumes "client_request lib client request = Inr call" "BuildRequest client request = Inr wire" "request_utf8 wire"
  shows "parse_json (hc_Body call) = Some (request_value wire)"
proof -
  from assms(1) have m: "marshal_request wire = Some (hc_Body call)"
    by (rule client_request_ok) (use assms(2) in simp)
  have "list_all (\<lambda>t. fd_Parameters (wt_Function t) \<noteq> []) (cq_Tools wire)"
    using MapRequest_parameters assms(2) by (fastforce simp: BuildRequest_def list_all_iff)
  from request_written [OF m assms(3) this] show ?thesis .
qed

section \<open>Responses\<close>

text \<open>
  C19: The response a client returns passes the server's own check, whatever the transport answered: the server never
  refuses a response its client accepted.
\<close>

theorem accepted_response_valid:
  assumes "openCodeUpstreamClient (Some (client_Do env client)) request = Inr response"
  shows "validateUpstreamResponse http_date response = None"
  using assms
  by (auto simp: openCodeUpstreamClient_def client_Do_def accept_response_def validateUpstreamResponse_def Let_def
      split: sum.splits option.splits if_splits)

text \<open>
  C20: From the provider's status to the reply: when the transport answers with a status outside 200 to 299, the caller
  gets the code and the status of that class, and the provider's body and headers are not passed on, except for a
  rate limit's \<open>Retry-After\<close>.
\<close>

definition reply_class :: "int \<Rightarrow> gostring \<times> int" where
  "reply_class status =
     (if status = 400 then (''upstream_bad_request'', 400)
      else if status = 401 then (''upstream_unauthorized'', 502)
      else if status = 403 then (''upstream_forbidden'', 502)
      else if status = 429 then (''upstream_rate_limited'', 429)
      else if status = 408 \<or> status = 504 then (''upstream_timeout'', 504)
      else if 500 \<le> status \<and> status \<le> 599 then (''upstream_server_error'', 502)
      else (''upstream_unexpected_status'', 502))"

theorem provider_status_reply:
  assumes "client_request (ce_net env) client request = Inr call" "oc_httpClient client call = Inr (Some response)"
    and "\<not> (200 \<le> hs_StatusCode response \<and> hs_StatusCode response < 300)"
  shows "\<exists>err retry. openCodeUpstreamClient (Some (client_Do env client)) request = Inl err
    \<and> upstream_status err = (fst (reply_class (hs_StatusCode response)), snd (reply_class (hs_StatusCode response)), retry)
    \<and> retry = safeRetryAfter (ce_http_date env) (hs_RetryAfter response)"
proof -
  define err where "err = classifyUpstreamError (ce_http_date env) response"
  have "openCodeUpstreamClient (Some (client_Do env client)) request = Inl (UpstreamFailure (normalizeProviderError (ProviderFailure err)))"
    using assms by (auto simp: openCodeUpstreamClient_def client_Do_def accept_response_def err_def not_le not_less)
  moreover have "upstream_status (UpstreamFailure (normalizeProviderError (ProviderFailure err)))
      = (fst (reply_class (hs_StatusCode response)), snd (reply_class (hs_StatusCode response)), safeRetryAfter (ce_http_date env) (hs_RetryAfter response))"
    by (simp add: normalizeProviderError_def err_def classifyUpstreamError_def no_cause_def isNetworkTimeout_def status_code_def
        reply_class_def upstream_status_def safeUpstreamCode_def safe_codes_def Let_def)
  ultimately show ?thesis by blast
qed


section \<open>A client at work\<close>

definition sample_net :: net_library where
  "sample_net =
     \<lparr>url_Parse = (\<lambda>raw. if HasPrefix raw ''https://opencode.ai''
        then Some \<lparr>u_Scheme = ''https'', u_User = False, u_Host = ''opencode.ai'', u_Path = drop 19 raw, u_RawPath = [],
          u_RawQuery = [], u_Fragment = []\<rparr> else None),
      url_String = (\<lambda>u. u_Scheme u @ ''://'' @ u_Host u @ u_Path u), ip_IsLoopback = (\<lambda>_. None)\<rparr>"

definition sample_client_config :: "unit transport ClientConfig" where
  "sample_client_config = \<lparr>ck_APIKey = ''sk-1'', ck_BaseURL = [], ck_Model = [], ck_UserAgent = [],
     ck_HTTPClient = None, ck_ThinkingMode = [], ck_MaxRequestBodyBytes = 0, ck_DialTimeout = 0, ck_TLSHandshakeTimeout = 0,
     ck_ResponseHeaderTimeout = 0\<rparr>"

definition limiting_transport :: "unit transport" where
  "limiting_transport call = Inr (Some \<lparr>hs_StatusCode = 429, hs_RetryAfter = ''7'', hs_ContentType = [], hs_Body = Some ()\<rparr>)"

definition streaming_transport :: "unit transport" where
  "streaming_transport call = Inr (Some \<lparr>hs_StatusCode = 200, hs_RetryAfter = [], hs_ContentType = DefaultAccept, hs_Body = Some ()\<rparr>)"

definition sample_client_env :: client_env where
  "sample_client_env = \<lparr>ce_net = sample_net, ce_http_date = (\<lambda>_. None), ce_media_type = Some, ce_ctxErr = None\<rparr>"

definition chat :: "continuation_value Request" where
  "chat = sample_request\<lparr>rq_Input := [Message [] RoleUser [TextContent ''a<b'']],
     rq_Tools := [FunctionTool ''ls'' [] ''{ }'' None]\<rparr>"

definition client_of :: "unit transport \<Rightarrow> unit transport Client" where
  "client_of transport =
     \<lparr>oc_httpClient = transport, oc_endpoint = \<lparr>u_Scheme = ''https'', u_User = False, u_Host = ''opencode.ai'',
        u_Path = ''/zen/go/v1/chat/completions'', u_RawPath = [], u_RawQuery = [], u_Fragment = []\<rparr>,
      oc_apiKey = ''sk-1'', oc_model = DefaultModel, oc_userAgent = DefaultUserAgent, oc_thinkingMode = ThinkingEnabled,
      oc_maxRequestBodyBytes = DefaultMaxRequestBodyBytes\<rparr>"

lemma sample_new_client: "NewClient sample_net (\<lambda>_ _ _. transport) sample_client_config = Inr (client_of transport)"
proof -
  have 1: "endpointURL sample_net (or_text [] DefaultBaseURL) = Inr \<lparr>u_Scheme = ''https'', u_User = False, u_Host = ''opencode.ai'',
        u_Path = ''/zen/go/v1/chat/completions'', u_RawPath = [], u_RawQuery = [], u_Fragment = []\<rparr>" by code_simp
  have 2: "validCredential ''sk-1''" by code_simp
  have 3: "validateProviderModel (or_text [] DefaultModel) = None" by code_simp
  have 4: "validHeaderValue (or_text [] DefaultUserAgent) 256" by code_simp
  show ?thesis
    using 1 2 3 4
    by (simp add: NewClient_def sample_client_config_def client_of_def or_text_def or_default_def DefaultDialTimeout_def
        DefaultTLSHandshakeTimeout_def DefaultResponseHeaderTimeout_def client_second_def DefaultMaxRequestBodyBytes_def)
qed

lemma chat_mapped:
  "case MapRequestWithThinking chat DefaultModel ThinkingEnabled of
     Inl _ \<Rightarrow> False
   | Inr wire \<Rightarrow> request_utf8 wire \<and> (case marshal_request wire of None \<Rightarrow> False | Some body \<Rightarrow> len body \<le> 400)"
  by code_simp


lemma chat_wire:
  obtains wire call where "BuildRequest (client_of transport) chat = Inr wire" "request_utf8 wire"
    "client_request sample_net (client_of transport) chat = Inr call"
proof -
  obtain wire body where w: "MapRequestWithThinking chat DefaultModel ThinkingEnabled = Inr wire" "request_utf8 wire"
      "marshal_request wire = Some body" "len body \<le> 400"
    using chat_mapped by (auto split: sum.splits option.splits)
  have b: "BuildRequest (client_of transport) chat = Inr wire" using w(1) by (simp add: BuildRequest_def client_of_def)
  have "url_Parse sample_net (url_String sample_net (oc_endpoint (client_of transport))) \<noteq> None"
    by (simp add: client_of_def sample_net_def HasPrefix_def)
  then have "\<exists>call. client_request sample_net (client_of transport) chat = Inr call"
    using b w(3,4) by (auto simp: client_request_def client_of_def DefaultMaxRequestBodyBytes_def)
  with that b w(2) show thesis by blast
qed

theorem client_request_safe_witness:
  "\<exists>call. NewClient sample_net (\<lambda>_ _ _. limiting_transport) sample_client_config = Inr (client_of limiting_transport)
    \<and> client_request sample_net (client_of limiting_transport) chat = Inr call
    \<and> map_of (hc_Header call) ''Authorization'' = Some ''Bearer sk-1''"
proof -
  obtain call where c: "client_request sample_net (client_of limiting_transport) chat = Inr call" by (rule chat_wire)
  from client_request_safe [OF sample_new_client c] sample_new_client [of limiting_transport] c show ?thesis
    by (auto simp: sample_client_config_def)
qed

theorem request_body_reads_back_witness:
  "\<exists>wire call. BuildRequest (client_of limiting_transport) chat = Inr wire
    \<and> client_request sample_net (client_of limiting_transport) chat = Inr call \<and> parse_json (hc_Body call) = Some (request_value wire)"
proof -
  obtain wire call where c: "BuildRequest (client_of limiting_transport) chat = Inr wire" "request_utf8 wire"
    "client_request sample_net (client_of limiting_transport) chat = Inr call" by (rule chat_wire)
  from c(1,3) request_body_reads_back [OF c(3,1,2)] show ?thesis by (intro exI conjI)
qed

theorem accepted_response_valid_witness:
  "\<exists>response. openCodeUpstreamClient (Some (client_Do sample_client_env (client_of streaming_transport))) chat = Inr response
    \<and> validateUpstreamResponse (\<lambda>_. None) response = None"
proof -
  obtain call where c: "client_request sample_net (client_of streaming_transport) chat = Inr call" by (rule chat_wire)
  have "fold_ascii DefaultAccept = DefaultAccept" by code_simp
  then have "\<exists>response. openCodeUpstreamClient (Some (client_Do sample_client_env (client_of streaming_transport))) chat = Inr response"
    using c by (simp add: openCodeUpstreamClient_def client_Do_def sample_client_env_def client_of_def streaming_transport_def accept_response_def)
  then obtain response where r: "openCodeUpstreamClient (Some (client_Do sample_client_env (client_of streaming_transport))) chat = Inr response" by blast
  from accepted_response_valid [OF r] r show ?thesis by blast
qed

theorem provider_status_reply_witness:
  "\<exists>err. openCodeUpstreamClient (Some (client_Do sample_client_env (client_of limiting_transport))) chat = Inl err
    \<and> upstream_status err = (''upstream_rate_limited'', 429, ''7'')"
proof -
  obtain call where c: "client_request sample_net (client_of limiting_transport) chat = Inr call" by (rule chat_wire)
  have "client_request (ce_net sample_client_env) (client_of limiting_transport) chat = Inr call"
    using c by (simp add: sample_client_env_def)
  from provider_status_reply [OF this, of "\<lparr>hs_StatusCode = 429, hs_RetryAfter = ''7'', hs_ContentType = [], hs_Body = Some ()\<rparr>"]
  have "\<exists>err retry. openCodeUpstreamClient (Some (client_Do sample_client_env (client_of limiting_transport))) chat = Inl err
      \<and> upstream_status err = (fst (reply_class 429), snd (reply_class 429), retry)
      \<and> retry = safeRetryAfter (ce_http_date sample_client_env) ''7''"
    by (simp add: client_of_def limiting_transport_def)
  moreover have "safeRetryAfter (ce_http_date sample_client_env) ''7'' = ''7''" "reply_class 429 = (''upstream_rate_limited'', 429)" by code_simp+
  ultimately show ?thesis by auto
qed

end
