(* ===== verification/Gateway_Config.thy ===== *)
theory Gateway_Config
  imports Server_Lifecycle Client_Props
begin

text \<open>
  \<open>internal/config/config.go\<close>: the settings of the process, read from environment variables, and their validation. An
  error is the variable it names. The environment is a lookup function; \<open>time.ParseDuration\<close>, \<open>url.Parse\<close>, \<open>net.ParseIP\<close>
  and \<open>net.LookupIP\<close> answer through \<open>config_library\<close>.
\<close>

section \<open>Values of variables\<close>

type_synonym LookupEnv = "gostring \<Rightarrow> gostring option"
type_synonym config_error = gostring

record config_library =
  cf_net :: net_library
  cf_ParseDuration :: "gostring \<Rightarrow> int option"
  cf_LookupIP :: "gostring \<Rightarrow> bool list option" \<comment> \<open>of every address whether it is a loopback address\<close>

text \<open>\<open>strconv.Atoi\<close> and \<open>strconv.ParseInt\<close> in base 10 on 64 bits are \<open>ParseInt64\<close> of \<open>SSE\<close>.\<close>

definition ParseBool :: "gostring \<Rightarrow> bool option" where
  "ParseBool s =
     (if s \<in> set [''1'', ''t'', ''T'', ''TRUE'', ''true'', ''True''] then Some True
      else if s \<in> set [''0'', ''f'', ''F'', ''FALSE'', ''false'', ''False''] then Some False else None)"

definition positive_value :: "gostring \<Rightarrow> int option \<Rightarrow> config_error + int" where
  "positive_value key parsed = (case parsed of None \<Rightarrow> Inl key | Some n \<Rightarrow> if n \<le> 0 then Inl key else Inr n)"

definition optionalDuration :: "config_library \<Rightarrow> LookupEnv \<Rightarrow> gostring \<Rightarrow> int \<Rightarrow> config_error + int" where
  "optionalDuration lib lookup key fallback =
     (case lookup key of None \<Rightarrow> Inr fallback | Some value \<Rightarrow> positive_value key (cf_ParseDuration lib value))"

definition optionalInt64 :: "LookupEnv \<Rightarrow> gostring \<Rightarrow> int \<Rightarrow> config_error + int" where
  "optionalInt64 lookup key fallback =
     (case lookup key of None \<Rightarrow> Inr fallback | Some value \<Rightarrow> positive_value key (ParseInt64 value))"

text \<open>An \<open>int\<close> has 64 bits.\<close>

definition optionalInt :: "LookupEnv \<Rightarrow> gostring \<Rightarrow> int \<Rightarrow> config_error + int" where
  "optionalInt = optionalInt64"

datatype log_level = LevelDebug | LevelInfo | LevelWarn | LevelError | OtherLevel int

definition parseLogLevel :: "gostring \<Rightarrow> config_error + log_level" where
  "parseLogLevel value =
     (let v = ToLower (TrimSpace value) in
      if v = ''debug'' then Inr LevelDebug
      else if v = ''info'' then Inr LevelInfo
      else if v = ''warn'' \<or> v = ''warning'' then Inr LevelWarn
      else if v = ''error'' then Inr LevelError
      else Inl ''OPENCODE_GATEWAY_LOG_LEVEL'')"

fun validLogLevel :: "log_level \<Rightarrow> bool" where
  "validLogLevel (OtherLevel _) = False"
| "validLogLevel _ = True"

definition parsePort :: "gostring \<Rightarrow> config_error + int" where
  "parsePort value =
     (case ParseInt64 value of
        None \<Rightarrow> Inl ''OPENCODE_GATEWAY_PORT''
      | Some port \<Rightarrow> if port < 0 \<or> port > 65535 then Inl ''OPENCODE_GATEWAY_PORT'' else Inr port)"

definition parseAllow :: "gostring \<Rightarrow> config_error + bool" where
  "parseAllow value = (case ParseBool value of None \<Rightarrow> Inl ''OPENCODE_GATEWAY_ALLOW_NON_LOOPBACK'' | Some allow \<Rightarrow> Inr allow)"

definition validBaseURL :: "config_library \<Rightarrow> gostring \<Rightarrow> bool" where
  "validBaseURL lib value =
     (case url_Parse (cf_net lib) value of
        None \<Rightarrow> False
      | Some parsed \<Rightarrow>
          if u_Scheme parsed \<noteq> ''https'' \<or> u_Host parsed = [] \<or> u_User parsed \<or> u_RawQuery parsed \<noteq> [] \<or> u_Fragment parsed \<noteq> []
          then False
          else \<not> list_ex (\<lambda>segment. segment = ''.'' \<or> segment = ''..'') (path_segments (u_Path parsed)))"

definition trim_brackets :: "gostring \<Rightarrow> gostring" where
  "trim_brackets s = (let out = (\<lambda>c. c = CHR ''['' \<or> c = CHR '']'') in rev (dropWhile out (rev (dropWhile out s))))"

definition config_isLoopbackHost :: "config_library \<Rightarrow> gostring \<Rightarrow> bool" where
  "config_isLoopbackHost lib host =
     (let host = trim_brackets host in
      case ip_IsLoopback (cf_net lib) host of
        Some loopback \<Rightarrow> loopback
      | None \<Rightarrow>
          (case cf_LookupIP lib host of
             None \<Rightarrow> False
           | Some addresses \<Rightarrow> if addresses = [] then False else list_all (\<lambda>a. a) addresses))"

section \<open>Settings\<close>

record settings =
  gs_apiKey :: gostring
  gs_BaseURL :: gostring
  gs_Model :: gostring
  gs_ZenBaseURL :: gostring
  gs_ZenModel :: gostring
  gs_Host :: gostring
  gs_Port :: int
  gs_AllowNonLoopback :: bool
  gs_LogLevel :: log_level
  gs_ShutdownTimeout :: int
  gs_ReadHeaderTimeout :: int
  gs_IdleTimeout :: int
  gs_RequestBodyReadTimeout :: int
  gs_UpstreamConnectTimeout :: int
  gs_TLSHandshakeTimeout :: int
  gs_ResponseHeaderTimeout :: int
  gs_StreamIdleTimeout :: int
  gs_DownstreamWriteTimeout :: int
  gs_MaxBodyBytes :: int
  gs_MaxHeaderBytes :: int
  gs_MaxInputItems :: int
  gs_MaxCollectionItems :: int
  gs_MaxTools :: int
  gs_MaxSchemaBytes :: int
  gs_MaxSSELineBytes :: int
  gs_MaxSSEEventBytes :: int
  gs_MaxSSEBufferedBytes :: int
  gs_MaxSSEReadBufferBytes :: int
  gs_MaxOutputBytes :: int
  gs_MaxTextBytes :: int
  gs_MaxReasoningBytes :: int
  gs_MaxToolCallArgumentBytes :: int
  gs_MaxPendingTurnBytes :: int
  gs_MaxPendingRecords :: int
  gs_MaxPendingAggregateBytes :: int
  gs_MaxActiveRequests :: int

definition DefaultHost :: gostring where "DefaultHost = ''127.0.0.1''"
definition DefaultPort :: int where "DefaultPort = 8787"
definition DefaultZenBaseURL :: gostring where "DefaultZenBaseURL = ''https://opencode.ai/zen/v1''"

definition config_second :: int where "config_second = 10 ^ 9"

definition Defaults :: settings where
  "Defaults =
     \<lparr>gs_apiKey = [], gs_BaseURL = DefaultBaseURL, gs_Model = DefaultModel, gs_ZenBaseURL = DefaultZenBaseURL,
      gs_ZenModel = DeepSeekV4FlashFreeModel, gs_Host = DefaultHost, gs_Port = DefaultPort, gs_AllowNonLoopback = False,
      gs_LogLevel = LevelInfo, gs_ShutdownTimeout = 10 * config_second, gs_ReadHeaderTimeout = 5 * config_second,
      gs_IdleTimeout = 60 * config_second, gs_RequestBodyReadTimeout = 30 * config_second,
      gs_UpstreamConnectTimeout = 10 * config_second, gs_TLSHandshakeTimeout = 10 * config_second,
      gs_ResponseHeaderTimeout = 30 * config_second, gs_StreamIdleTimeout = 60 * config_second,
      gs_DownstreamWriteTimeout = 30 * config_second, gs_MaxBodyBytes = 16 * 2 ^ 20, gs_MaxHeaderBytes = 64 * 2 ^ 10,
      gs_MaxInputItems = 256, gs_MaxCollectionItems = DefaultMaxCollectionItems, gs_MaxTools = DefaultMaxProviderTools,
      gs_MaxSchemaBytes = DefaultMaxFunctionSchemaBytes, gs_MaxSSELineBytes = 256 * 2 ^ 10, gs_MaxSSEEventBytes = 4 * 2 ^ 20,
      gs_MaxSSEBufferedBytes = 8 * 2 ^ 20, gs_MaxSSEReadBufferBytes = 32 * 2 ^ 10, gs_MaxOutputBytes = 16 * 2 ^ 20,
      gs_MaxTextBytes = 8 * 2 ^ 20, gs_MaxReasoningBytes = 8 * 2 ^ 20, gs_MaxToolCallArgumentBytes = 2 ^ 20,
      gs_MaxPendingTurnBytes = 16 * 2 ^ 20, gs_MaxPendingRecords = 128, gs_MaxPendingAggregateBytes = 128 * 2 ^ 20,
      gs_MaxActiveRequests = 64\<rparr>"

section \<open>Validation\<close>

text \<open>The checks in their order: what refuses the settings, and the variable the error names.\<close>

definition positive_settings :: "settings \<Rightarrow> (int \<times> gostring) list" where
  "positive_settings c =
     [(gs_ShutdownTimeout c, ''OPENCODE_GATEWAY_SHUTDOWN_TIMEOUT''),
      (gs_ReadHeaderTimeout c, ''OPENCODE_GATEWAY_READ_HEADER_TIMEOUT''),
      (gs_IdleTimeout c, ''OPENCODE_GATEWAY_IDLE_TIMEOUT''),
      (gs_RequestBodyReadTimeout c, ''OPENCODE_GATEWAY_REQUEST_BODY_READ_TIMEOUT''),
      (gs_UpstreamConnectTimeout c, ''OPENCODE_GATEWAY_UPSTREAM_CONNECT_TIMEOUT''),
      (gs_TLSHandshakeTimeout c, ''OPENCODE_GATEWAY_TLS_HANDSHAKE_TIMEOUT''),
      (gs_ResponseHeaderTimeout c, ''OPENCODE_GATEWAY_RESPONSE_HEADER_TIMEOUT''),
      (gs_StreamIdleTimeout c, ''OPENCODE_GATEWAY_STREAM_IDLE_TIMEOUT''),
      (gs_DownstreamWriteTimeout c, ''OPENCODE_GATEWAY_DOWNSTREAM_WRITE_TIMEOUT''),
      (gs_MaxBodyBytes c, ''OPENCODE_GATEWAY_MAX_BODY_BYTES''),
      (gs_MaxHeaderBytes c, ''OPENCODE_GATEWAY_MAX_HEADER_BYTES''),
      (gs_MaxInputItems c, ''OPENCODE_GATEWAY_MAX_INPUT_ITEMS''),
      (gs_MaxCollectionItems c, ''OPENCODE_GATEWAY_MAX_COLLECTION_ITEMS''),
      (gs_MaxTools c, ''OPENCODE_GATEWAY_MAX_TOOLS''),
      (gs_MaxSSELineBytes c, ''OPENCODE_GATEWAY_MAX_SSE_LINE_BYTES''),
      (gs_MaxSSEEventBytes c, ''OPENCODE_GATEWAY_MAX_SSE_EVENT_BYTES''),
      (gs_MaxSSEBufferedBytes c, ''OPENCODE_GATEWAY_MAX_SSE_BUFFERED_BYTES''),
      (gs_MaxSSEReadBufferBytes c, ''OPENCODE_GATEWAY_MAX_SSE_READ_BUFFER_BYTES''),
      (gs_MaxOutputBytes c, ''OPENCODE_GATEWAY_MAX_OUTPUT_BYTES''),
      (gs_MaxTextBytes c, ''OPENCODE_GATEWAY_MAX_TEXT_BYTES''),
      (gs_MaxReasoningBytes c, ''OPENCODE_GATEWAY_MAX_REASONING_BYTES''),
      (gs_MaxToolCallArgumentBytes c, ''OPENCODE_GATEWAY_MAX_TOOL_CALL_ARGUMENT_BYTES''),
      (gs_MaxActiveRequests c, ''OPENCODE_GATEWAY_MAX_ACTIVE_REQUESTS''),
      (gs_MaxPendingRecords c, ''OPENCODE_GATEWAY_MAX_PENDING_RECORDS'')]"

definition setting_checks :: "config_library \<Rightarrow> settings \<Rightarrow> (bool \<times> gostring) list" where
  "setting_checks lib c =
     [(TrimSpace (gs_apiKey c) = [], ''OPENCODE_GO_API_KEY''),
      (\<not> validBaseURL lib (gs_BaseURL c), ''OPENCODE_GO_BASE_URL''),
      (ValidateModel (gs_Model c) \<noteq> None, ''OPENCODE_GO_MODEL''),
      (\<not> validBaseURL lib (gs_ZenBaseURL c), ''OPENCODE_GO_ZEN_BASE_URL''),
      (ValidateModel (gs_ZenModel c) \<noteq> None, ''OPENCODE_GO_ZEN_MODEL''),
      (TrimSpace (gs_Host c) = [], ''OPENCODE_GATEWAY_HOST''),
      (gs_Port c < 0 \<or> gs_Port c > 65535, ''OPENCODE_GATEWAY_PORT''),
      (\<not> gs_AllowNonLoopback c \<and> \<not> config_isLoopbackHost lib (gs_Host c), ''OPENCODE_GATEWAY_HOST''),
      (\<not> validLogLevel (gs_LogLevel c), ''OPENCODE_GATEWAY_LOG_LEVEL'')]
     @ map (\<lambda>(value, key). (value \<le> 0, key)) (positive_settings c)
     @ [(gs_MaxTools c > DefaultMaxProviderTools, ''OPENCODE_GATEWAY_MAX_TOOLS''),
        (gs_MaxSchemaBytes c \<le> 0, ''OPENCODE_GATEWAY_MAX_SCHEMA_BYTES''),
        (gs_MaxSchemaBytes c > DefaultMaxFunctionSchemaBytes, ''OPENCODE_GATEWAY_MAX_SCHEMA_BYTES''),
        (gs_MaxPendingTurnBytes c \<le> 0, ''OPENCODE_GATEWAY_MAX_PENDING_TURN_BYTES''),
        (gs_MaxPendingAggregateBytes c \<le> 0, ''OPENCODE_GATEWAY_MAX_PENDING_AGGREGATE_BYTES'')]"

definition Validate :: "config_library \<Rightarrow> settings \<Rightarrow> config_error option" where
  "Validate lib c = map_option snd (List.find fst (setting_checks lib c))"

section \<open>Loading\<close>

text \<open>A variable that is read in its turn: its key, the setting it changes and how its value is read.\<close>

type_synonym reader = "settings \<Rightarrow> config_error + settings"

definition read_text :: "LookupEnv \<Rightarrow> gostring \<Rightarrow> (gostring \<Rightarrow> settings \<Rightarrow> settings) \<Rightarrow> reader" where
  "read_text lookup key put c = (case lookup key of None \<Rightarrow> Inr c | Some value \<Rightarrow> Inr (put value c))"

definition read_with :: "LookupEnv \<Rightarrow> gostring \<Rightarrow> (gostring \<Rightarrow> config_error + 'v) \<Rightarrow> ('v \<Rightarrow> settings \<Rightarrow> settings) \<Rightarrow> reader" where
  "read_with lookup key parse put c =
     (case lookup key of None \<Rightarrow> Inr c | Some value \<Rightarrow> attempt (parse value) (\<lambda>v. Inr (put v c)))"

definition read_number :: "(gostring \<Rightarrow> int \<Rightarrow> config_error + int) \<Rightarrow> gostring \<Rightarrow> (settings \<Rightarrow> int) \<Rightarrow> ((int \<Rightarrow> int) \<Rightarrow> settings \<Rightarrow> settings) \<Rightarrow> reader" where
  "read_number optional key get update c = attempt (optional key (get c)) (\<lambda>v. Inr (update (\<lambda>_. v) c))"

definition text_readers :: "LookupEnv \<Rightarrow> reader list" where
  "text_readers lookup =
     [read_text lookup ''OPENCODE_GO_BASE_URL'' (\<lambda>v c. c\<lparr>gs_BaseURL := v\<rparr>),
      read_text lookup ''OPENCODE_GO_MODEL'' (\<lambda>v c. c\<lparr>gs_Model := v\<rparr>),
      read_text lookup ''OPENCODE_GO_ZEN_BASE_URL'' (\<lambda>v c. c\<lparr>gs_ZenBaseURL := v\<rparr>),
      read_text lookup ''OPENCODE_GO_ZEN_MODEL'' (\<lambda>v c. c\<lparr>gs_ZenModel := v\<rparr>),
      read_text lookup ''OPENCODE_GATEWAY_HOST'' (\<lambda>v c. c\<lparr>gs_Host := v\<rparr>),
      read_with lookup ''OPENCODE_GATEWAY_PORT'' parsePort (\<lambda>v c. c\<lparr>gs_Port := v\<rparr>),
      read_with lookup ''OPENCODE_GATEWAY_LOG_LEVEL'' parseLogLevel (\<lambda>v c. c\<lparr>gs_LogLevel := v\<rparr>),
      read_with lookup ''OPENCODE_GATEWAY_ALLOW_NON_LOOPBACK'' parseAllow (\<lambda>v c. c\<lparr>gs_AllowNonLoopback := v\<rparr>)]"

definition duration_readers :: "config_library \<Rightarrow> LookupEnv \<Rightarrow> reader list" where
  "duration_readers lib lookup =
     (let duration = read_number (optionalDuration lib lookup) in
      [duration ''OPENCODE_GATEWAY_SHUTDOWN_TIMEOUT'' gs_ShutdownTimeout gs_ShutdownTimeout_update,
       duration ''OPENCODE_GATEWAY_READ_HEADER_TIMEOUT'' gs_ReadHeaderTimeout gs_ReadHeaderTimeout_update,
       duration ''OPENCODE_GATEWAY_IDLE_TIMEOUT'' gs_IdleTimeout gs_IdleTimeout_update,
       duration ''OPENCODE_GATEWAY_REQUEST_BODY_READ_TIMEOUT'' gs_RequestBodyReadTimeout gs_RequestBodyReadTimeout_update,
       duration ''OPENCODE_GATEWAY_UPSTREAM_CONNECT_TIMEOUT'' gs_UpstreamConnectTimeout gs_UpstreamConnectTimeout_update,
       duration ''OPENCODE_GATEWAY_TLS_HANDSHAKE_TIMEOUT'' gs_TLSHandshakeTimeout gs_TLSHandshakeTimeout_update,
       duration ''OPENCODE_GATEWAY_RESPONSE_HEADER_TIMEOUT'' gs_ResponseHeaderTimeout gs_ResponseHeaderTimeout_update,
       duration ''OPENCODE_GATEWAY_STREAM_IDLE_TIMEOUT'' gs_StreamIdleTimeout gs_StreamIdleTimeout_update,
       duration ''OPENCODE_GATEWAY_DOWNSTREAM_WRITE_TIMEOUT'' gs_DownstreamWriteTimeout gs_DownstreamWriteTimeout_update])"

definition limit_readers :: "LookupEnv \<Rightarrow> reader list" where
  "limit_readers lookup =
     (let int = read_number (optionalInt lookup); int64 = read_number (optionalInt64 lookup) in
      [int64 ''OPENCODE_GATEWAY_MAX_BODY_BYTES'' gs_MaxBodyBytes gs_MaxBodyBytes_update,
       int ''OPENCODE_GATEWAY_MAX_HEADER_BYTES'' gs_MaxHeaderBytes gs_MaxHeaderBytes_update,
       int ''OPENCODE_GATEWAY_MAX_INPUT_ITEMS'' gs_MaxInputItems gs_MaxInputItems_update,
       int ''OPENCODE_GATEWAY_MAX_COLLECTION_ITEMS'' gs_MaxCollectionItems gs_MaxCollectionItems_update,
       int ''OPENCODE_GATEWAY_MAX_TOOLS'' gs_MaxTools gs_MaxTools_update,
       int64 ''OPENCODE_GATEWAY_MAX_SCHEMA_BYTES'' gs_MaxSchemaBytes gs_MaxSchemaBytes_update,
       int ''OPENCODE_GATEWAY_MAX_SSE_LINE_BYTES'' gs_MaxSSELineBytes gs_MaxSSELineBytes_update,
       int ''OPENCODE_GATEWAY_MAX_SSE_EVENT_BYTES'' gs_MaxSSEEventBytes gs_MaxSSEEventBytes_update,
       int ''OPENCODE_GATEWAY_MAX_SSE_BUFFERED_BYTES'' gs_MaxSSEBufferedBytes gs_MaxSSEBufferedBytes_update,
       int ''OPENCODE_GATEWAY_MAX_SSE_READ_BUFFER_BYTES'' gs_MaxSSEReadBufferBytes gs_MaxSSEReadBufferBytes_update,
       int ''OPENCODE_GATEWAY_MAX_OUTPUT_BYTES'' gs_MaxOutputBytes gs_MaxOutputBytes_update,
       int ''OPENCODE_GATEWAY_MAX_TEXT_BYTES'' gs_MaxTextBytes gs_MaxTextBytes_update,
       int ''OPENCODE_GATEWAY_MAX_REASONING_BYTES'' gs_MaxReasoningBytes gs_MaxReasoningBytes_update,
       int ''OPENCODE_GATEWAY_MAX_TOOL_CALL_ARGUMENT_BYTES'' gs_MaxToolCallArgumentBytes gs_MaxToolCallArgumentBytes_update,
       int64 ''OPENCODE_GATEWAY_MAX_PENDING_TURN_BYTES'' gs_MaxPendingTurnBytes gs_MaxPendingTurnBytes_update,
       int ''OPENCODE_GATEWAY_MAX_PENDING_RECORDS'' gs_MaxPendingRecords gs_MaxPendingRecords_update,
       int64 ''OPENCODE_GATEWAY_MAX_PENDING_AGGREGATE_BYTES'' gs_MaxPendingAggregateBytes gs_MaxPendingAggregateBytes_update,
       int ''OPENCODE_GATEWAY_MAX_ACTIVE_REQUESTS'' gs_MaxActiveRequests gs_MaxActiveRequests_update])"

fun read_in_turn :: "reader list \<Rightarrow> reader" where
  "read_in_turn [] c = Inr c"
| "read_in_turn (r # rs) c = attempt (r c) (read_in_turn rs)"

definition Load :: "config_library \<Rightarrow> LookupEnv \<Rightarrow> config_error + settings" where
  "Load lib lookup =
     (case lookup ''OPENCODE_GO_API_KEY'' of
        None \<Rightarrow> Inl ''OPENCODE_GO_API_KEY''
      | Some key \<Rightarrow>
          if TrimSpace key = [] then Inl ''OPENCODE_GO_API_KEY''
          else
            attempt (read_in_turn (text_readers lookup @ duration_readers lib lookup @ limit_readers lookup) (Defaults\<lparr>gs_apiKey := key\<rparr>))
              (\<lambda>c. case Validate lib c of Some e \<Rightarrow> Inl e | None \<Rightarrow> Inr c))"

text \<open>\<open>net.JoinHostPort\<close> puts a host with a colon or a percent sign in brackets.\<close>

definition JoinHostPort :: "gostring \<Rightarrow> gostring \<Rightarrow> gostring" where
  "JoinHostPort host port =
     (if CHR '':'' \<in> set host \<or> CHR ''%'' \<in> set host then ''['' @ host @ '']:'' @ port else host @ '':'' @ port)"

definition config_ListenAddr :: "settings \<Rightarrow> gostring" where
  "config_ListenAddr c = JoinHostPort (gs_Host c) (itoa (gs_Port c))"

end
