(* ===== verification/Gateway_App.thy ===== *)
theory Gateway_App
  imports Gateway_Config
begin

text \<open>
  \<open>internal/app/app.go\<close>: how the settings become a running gateway. The two provider clients are built from the
  credential and the addresses, the server from the rest; the credential goes to the clients only.
\<close>

record BuildMetadata =
  bm_Version :: gostring
  bm_Commit :: gostring
  bm_BuildDate :: gostring

text \<open>A rune that is not a letter, a digit or one of three marks becomes a dash.\<close>

definition safe_rune :: "gostring \<Rightarrow> char" where
  "safe_rune r = (case r of [c] \<Rightarrow> if word_byte ''.-_'' c then c else CHR ''-'' | _ \<Rightarrow> CHR ''-'')"

definition safeMetadataPart :: "gostring \<Rightarrow> gostring" where
  "safeMetadataPart value =
     (if value = [] then ''unknown''
      else let result = map safe_rune (runes value) in
        if result = [] then ''unknown'' else if length result > 64 then take 64 result else result)"

definition buildUserAgent :: "BuildMetadata \<Rightarrow> gostring" where
  "buildUserAgent m =
     ''opencode-go-gateway/'' @ safeMetadataPart (bm_Version m) @ '' commit/'' @ safeMetadataPart (bm_Commit m)
       @ '' build/'' @ safeMetadataPart (bm_BuildDate m)"

text \<open>The configurations that are passed on. No HTTP client is given, so both use the default one.\<close>

definition client_config :: "settings \<Rightarrow> BuildMetadata \<Rightarrow> gostring \<Rightarrow> gostring \<Rightarrow> 'h ClientConfig" where
  "client_config c metadata baseURL model =
     \<lparr>ck_APIKey = gs_apiKey c, ck_BaseURL = baseURL, ck_Model = model, ck_UserAgent = buildUserAgent metadata,
      ck_HTTPClient = None, ck_ThinkingMode = [], ck_MaxRequestBodyBytes = 0, ck_DialTimeout = gs_UpstreamConnectTimeout c,
      ck_TLSHandshakeTimeout = gs_TLSHandshakeTimeout c, ck_ResponseHeaderTimeout = gs_ResponseHeaderTimeout c\<rparr>"

definition no_store_config :: ContinuationStoreConfig where
  "no_store_config = \<lparr>cc_TTL = 0, cc_ConsumingLeaseTTL = 0, cc_ConsumedGracePeriod = 0, cc_MaxRecords = 0,
     cc_MaxBytesPerRecord = 0, cc_MaxAggregateBytes = 0, cc_CleanupInterval = 0\<rparr>"

definition server_config :: "settings \<Rightarrow> 'p UpstreamClient \<Rightarrow> 'p UpstreamClient \<Rightarrow> 'p Config" where
  "server_config c go zen =
     \<lparr>ListenAddr = config_ListenAddr c, AllowNonLoopback = gs_AllowNonLoopback c, Model = gs_Model c, ZenModel = gs_ZenModel c,
      cfg_Upstream = Some go, cfg_ZenUpstream = Some zen, ReadHeaderTimeout = gs_ReadHeaderTimeout c,
      IdleTimeout = gs_IdleTimeout c, RequestBodyReadTimeout = gs_RequestBodyReadTimeout c,
      StreamIdleTimeout = gs_StreamIdleTimeout c, DownstreamWriteTimeout = gs_DownstreamWriteTimeout c,
      MaxBodyBytes = gs_MaxBodyBytes c, MaxHeaderBytes = gs_MaxHeaderBytes c, MaxInputItems = gs_MaxInputItems c,
      MaxCollectionItems = gs_MaxCollectionItems c, MaxTools = gs_MaxTools c, MaxSchemaBytes = gs_MaxSchemaBytes c,
      MaxSSELineBytes = gs_MaxSSELineBytes c, MaxSSEEventBytes = gs_MaxSSEEventBytes c,
      MaxSSEBufferedBytes = gs_MaxSSEBufferedBytes c, MaxSSEReadBufferBytes = gs_MaxSSEReadBufferBytes c,
      MaxOutputBytes = gs_MaxOutputBytes c, MaxTextBytes = gs_MaxTextBytes c, MaxReasoningBytes = gs_MaxReasoningBytes c,
      cfg_MaxToolCallArgumentBytes = gs_MaxToolCallArgumentBytes c, MaxPendingTurnBytes = gs_MaxPendingTurnBytes c,
      MaxPendingRecords = gs_MaxPendingRecords c, MaxPendingAggregateBytes = gs_MaxPendingAggregateBytes c,
      MaxActiveRequests = gs_MaxActiveRequests c, cfg_ContinuationStore = None, cfg_ContinuationStoreConfig = no_store_config\<rparr>"

datatype app_error = SettingsInvalid config_error | UpstreamInvalid ErrorCode | ZenUpstreamInvalid ErrorCode | ServerInvalid server_error

text \<open>
  The outside of the process: the libraries, the default HTTP client for its timeouts, what a call of a client asks its
  environment, and the listening socket.
\<close>

record 'p app_env =
  ae_lib :: config_library
  ae_newDefaultHTTPClient :: "int \<Rightarrow> int \<Rightarrow> int \<Rightarrow> 'p transport"
  ae_client :: client_env
  ae_resolve :: "gostring \<Rightarrow> TCPAddr option"
  ae_listen :: "TCPAddr \<Rightarrow> bool"

definition upstream_of :: "'p app_env \<Rightarrow> 'p transport Client \<Rightarrow> 'p UpstreamClient" where
  "upstream_of env client = openCodeUpstreamClient (Some (client_Do (ae_client env) client))"

text \<open>\<open>RunWithBuildMetadata\<close> up to the server that is ready to serve.\<close>

definition start_gateway :: "'p app_env \<Rightarrow> settings \<Rightarrow> BuildMetadata \<Rightarrow> app_error + 'p Server" where
  "start_gateway env c metadata =
     (case Validate (ae_lib env) c of
        Some e \<Rightarrow> Inl (SettingsInvalid e)
      | None \<Rightarrow>
          (case NewClient (cf_net (ae_lib env)) (ae_newDefaultHTTPClient env) (client_config c metadata (gs_BaseURL c) (gs_Model c)) of
             Inl e \<Rightarrow> Inl (UpstreamInvalid e)
           | Inr go \<Rightarrow>
               (case NewClient (cf_net (ae_lib env)) (ae_newDefaultHTTPClient env) (client_config c metadata (gs_ZenBaseURL c) (gs_ZenModel c)) of
                  Inl e \<Rightarrow> Inl (ZenUpstreamInvalid e)
                | Inr zen \<Rightarrow>
                    (case New (ae_resolve env) (ae_listen env) (server_config c (upstream_of env go) (upstream_of env zen)) of
                       Inl e \<Rightarrow> Inl (ServerInvalid e)
                     | Inr s \<Rightarrow> Inr s))))"

text \<open>
  The end of the run: an error of the serving goroutine, or after the signal the result of the shutdown, which is
  reported before the goroutine's.
\<close>

datatype run_end = ServeReturned "gostring option" | Signalled "gostring option" "gostring option"

fun run_result :: "run_end \<Rightarrow> gostring option" where
  "run_result (ServeReturned err) = err"
| "run_result (Signalled shutdownErr serveErr) =
     (case shutdownErr of Some e \<Rightarrow> Some (''server shutdown failed: '' @ e) | None \<Rightarrow> serveErr)"

section \<open>The user agent\<close>

lemma runes_ascii: "list_all (\<lambda>c. byte c < 128) s \<Longrightarrow> runes s = map (\<lambda>c. [c]) s"
proof (induction s)
  case (Cons c s)
  then show ?case by (subst runes.simps) (simp del: rune_width.simps)
qed (simp add: runes.simps)

lemma safe_rune_plain: "word_byte ''.-_'' (safe_rune r)"
  by (auto simp: safe_rune_def word_byte_def split: list.split)

lemma safeMetadataPart_plain: "list_all (word_byte ''.-_'') (safeMetadataPart v) \<and> length (safeMetadataPart v) \<le> 64 \<and> safeMetadataPart v \<noteq> []"
proof -
  have all: "list_all (word_byte ''.-_'') (map safe_rune (runes v))" using safe_rune_plain by (simp add: list_all_iff)
  then have "list_all (word_byte ''.-_'') (take 64 (map safe_rune (runes v)))"
    unfolding list_all_iff by (blast dest: in_set_takeD)
  moreover have "list_all (word_byte ''.-_'') ''unknown''" by code_simp
  ultimately show ?thesis using all by (auto simp: safeMetadataPart_def Let_def)
qed

lemma validHeaderValue_ascii:
  assumes "v \<noteq> []" "len v \<le> n" "list_all (\<lambda>c. 0x20 \<le> byte c \<and> byte c < 0x7F) v"
  shows "validHeaderValue v n"
proof -
  have a: "list_all (\<lambda>c. byte c < 128) v" using assms(3) by (rule list.pred_mono_strong) simp
  then have "utf8_Valid v" by (induction v) (auto simp: utf8_Valid_ascii)
  with assms show ?thesis by (auto simp: validHeaderValue_def runes_ascii [OF a] list_all_iff control_rune_def)
qed

lemma user_agent_plain: "list_all (\<lambda>c. 0x20 \<le> byte c \<and> byte c < 0x7F) (buildUserAgent m) \<and> len (buildUserAgent m) \<le> 256 \<and> buildUserAgent m \<noteq> []"
proof -
  have ascii: "0x20 \<le> byte c \<and> byte c < 0x7F" if "c \<in> set (safeMetadataPart v)" for c v
    using safeMetadataPart_plain [of v] that by (auto simp: list_all_iff word_byte_def)
  have "list_all (\<lambda>c. 0x20 \<le> byte c \<and> byte c < 0x7F) (buildUserAgent m)"
    using ascii by (auto simp: buildUserAgent_def list_all_iff)
  moreover have "len (buildUserAgent m) \<le> 256"
    using safeMetadataPart_plain [of "bm_Version m"] safeMetadataPart_plain [of "bm_Commit m"] safeMetadataPart_plain [of "bm_BuildDate m"]
    by (simp add: buildUserAgent_def)
  moreover have "buildUserAgent m \<noteq> []" by (simp add: buildUserAgent_def)
  ultimately show ?thesis by blast
qed

lemma user_agent_header: "validHeaderValue (buildUserAgent m) 256 \<and> buildUserAgent m \<noteq> []"
  using user_agent_plain [of m] by (auto intro: validHeaderValue_ascii)

text \<open>
  C40: The user agent the gateway sends is a valid header value whatever the build metadata says: a version with line
  breaks, control characters or bytes that are not UTF-8, or one that is very long, cannot keep the clients from being
  built or inject a header.
\<close>

theorem user_agent_valid:
  "validHeaderValue (buildUserAgent m) 256 \<and> list_all (\<lambda>c. 0x20 \<le> byte c \<and> byte c < 0x7F) (buildUserAgent m)"
  using user_agent_header [of m] user_agent_plain [of m] by blast

section \<open>Validated settings\<close>

lemma find_None: "List.find fst cs = None \<longleftrightarrow> list_all (\<lambda>(refused, _). \<not> refused) cs"
  by (induction cs) (auto split: if_splits)

lemma Validate_None: "Validate lib c = None \<longleftrightarrow> list_all (\<lambda>(refused, _). \<not> refused) (setting_checks lib c)"
  by (simp add: Validate_def find_None)

lemma Validate_facts:
  assumes "Validate lib c = None"
  shows "validBaseURL lib (gs_BaseURL c)" "validBaseURL lib (gs_ZenBaseURL c)" "ValidateModel (gs_Model c) = None" "ValidateModel (gs_ZenModel c) = None"
    "list_all (\<lambda>(value, _). 0 < value) (positive_settings c)"
    "gs_MaxTools c \<le> DefaultMaxProviderTools" "0 < gs_MaxSchemaBytes c" "gs_MaxSchemaBytes c \<le> DefaultMaxFunctionSchemaBytes"
    "0 < gs_MaxPendingTurnBytes c" "0 < gs_MaxPendingAggregateBytes c" "TrimSpace (gs_Host c) \<noteq> []"
    "gs_AllowNonLoopback c \<or> config_isLoopbackHost lib (gs_Host c)" "0 \<le> gs_Port c \<and> gs_Port c \<le> 65535"
  using assms unfolding Validate_None by (auto simp: setting_checks_def list_all_iff not_le not_less)


text \<open>The settings the server takes over.\<close>

lemma server_defaults_keep:
  assumes "list_all (\<lambda>(value, _). 0 < value) (positive_settings c)" "0 < gs_MaxSchemaBytes c" "0 < gs_MaxPendingTurnBytes c"
    "0 < gs_MaxPendingAggregateBytes c" "gs_Model c \<noteq> []" "gs_ZenModel c \<noteq> []"
  shows "server_withDefaults (server_config c go zen) = (server_config c go zen)\<lparr>cfg_ContinuationStoreConfig :=
      no_store_config\<lparr>cc_MaxBytesPerRecord := gs_MaxPendingTurnBytes c, cc_MaxRecords := gs_MaxPendingRecords c,
        cc_MaxAggregateBytes := gs_MaxPendingAggregateBytes c\<rparr>\<rparr>"
proof -
  have "config_ListenAddr c \<noteq> []" by (simp add: config_ListenAddr_def JoinHostPort_def)
  then show ?thesis
    using assms by (simp add: server_withDefaults_def server_config_def or_text_def or_default_def no_store_config_def positive_settings_def Let_def)
qed

lemma server_config_checked:
  assumes "list_all (\<lambda>(value, _). 0 < value) (positive_settings c)" "gs_MaxTools c \<le> DefaultMaxProviderTools" "0 < gs_MaxSchemaBytes c"
    "gs_MaxSchemaBytes c \<le> DefaultMaxFunctionSchemaBytes" "0 < gs_MaxPendingTurnBytes c" "0 < gs_MaxPendingAggregateBytes c"
  shows "check_config ((server_config c go zen)\<lparr>cfg_ContinuationStoreConfig := k\<rparr>) = None"
  using assms by (simp add: check_config_def server_config_def positive_settings_def)

lemma server_store_made:
  assumes "0 < turn" "0 < records" "0 < aggregate"
  shows "\<exists>s. NewContinuationStore (no_store_config\<lparr>cc_MaxBytesPerRecord := turn, cc_MaxRecords := records, cc_MaxAggregateBytes := aggregate\<rparr>) = Inr s
     \<and> cc_MaxRecords (cs_config s) = records \<and> cc_MaxBytesPerRecord (cs_config s) = turn \<and> cc_MaxAggregateBytes (cs_config s) = aggregate"
  using assms
  by (simp add: NewContinuationStore_def normalizeContinuationStoreConfig_def no_store_config_def or_default_def config_positive_def Let_def
      DefaultContinuationStoreConfig_def defaultContinuationTTL_def defaultContinuationConsumingTTL_def defaultContinuationGrace_def defaultContinuationCleanup_def)


section \<open>The gateway starts\<close>

text \<open>A path without the bytes the client refuses; the configuration does not look at them.\<close>

definition clean_path :: "net_library \<Rightarrow> gostring \<Rightarrow> bool" where
  "clean_path lib raw \<longleftrightarrow> (case url_Parse lib raw of
       None \<Rightarrow> False
     | Some u \<Rightarrow> utf8_Valid (u_Path u) \<and> \<not> list_ex (\<lambda>c. c \<in> set [CHR 0x00, CHR 0x0D, CHR 0x0A]) (u_Path u))"

lemma base_url_endpoint:
  assumes "validBaseURL lib raw" "clean_path (cf_net lib) raw"
  shows "\<exists>u. endpointURL (cf_net lib) raw = Inr u \<and> u_Scheme u = ''https''"
  using assms by (auto simp: validBaseURL_def clean_path_def endpointURL_def Let_def split: option.splits)

lemma model_nonempty: "ValidateModel m = None \<Longrightarrow> m \<noteq> []"
proof
  assume "ValidateModel m = None" "m = []"
  moreover have "TrimSpace [] = []" by code_simp
  ultimately show False by (simp add: ValidateModel_def validateProviderModel_def)
qed

text \<open>
  What it means that a client and a server run with the settings, field by field: the client calls the address of its
  base URL with the credential, asks for its model, and its default HTTP client has the three timeouts; every limit
  and timeout of the server is the one of its name, and so are the limits of its continuation store.
\<close>

definition client_runs :: "'p app_env \<Rightarrow> settings \<Rightarrow> gostring \<Rightarrow> gostring \<Rightarrow> 'p transport Client \<Rightarrow> bool" where
  "client_runs env c baseURL model client \<longleftrightarrow>
     endpointURL (cf_net (ae_lib env)) baseURL = Inr (oc_endpoint client) \<and> oc_apiKey client = gs_apiKey c \<and> oc_model client = model
     \<and> oc_httpClient client = ae_newDefaultHTTPClient env (gs_UpstreamConnectTimeout c) (gs_TLSHandshakeTimeout c) (gs_ResponseHeaderTimeout c)"

definition server_runs :: "settings \<Rightarrow> 'p Server \<Rightarrow> bool" where
  "server_runs c s \<longleftrightarrow>
     (let k = sv_config s; store = cs_config (sv_continuations s) in
      ListenAddr k = JoinHostPort (gs_Host c) (itoa (gs_Port c)) \<and> AllowNonLoopback k = gs_AllowNonLoopback c
      \<and> Model k = gs_Model c \<and> ZenModel k = gs_ZenModel c
      \<and> ReadHeaderTimeout k = gs_ReadHeaderTimeout c \<and> IdleTimeout k = gs_IdleTimeout c
      \<and> RequestBodyReadTimeout k = gs_RequestBodyReadTimeout c \<and> StreamIdleTimeout k = gs_StreamIdleTimeout c
      \<and> DownstreamWriteTimeout k = gs_DownstreamWriteTimeout c \<and> MaxBodyBytes k = gs_MaxBodyBytes c
      \<and> MaxHeaderBytes k = gs_MaxHeaderBytes c \<and> MaxInputItems k = gs_MaxInputItems c
      \<and> MaxCollectionItems k = gs_MaxCollectionItems c \<and> MaxTools k = gs_MaxTools c \<and> MaxSchemaBytes k = gs_MaxSchemaBytes c
      \<and> MaxSSELineBytes k = gs_MaxSSELineBytes c \<and> MaxSSEEventBytes k = gs_MaxSSEEventBytes c
      \<and> MaxSSEBufferedBytes k = gs_MaxSSEBufferedBytes c \<and> MaxSSEReadBufferBytes k = gs_MaxSSEReadBufferBytes c
      \<and> MaxOutputBytes k = gs_MaxOutputBytes c \<and> MaxTextBytes k = gs_MaxTextBytes c \<and> MaxReasoningBytes k = gs_MaxReasoningBytes c
      \<and> cfg_MaxToolCallArgumentBytes k = gs_MaxToolCallArgumentBytes c \<and> MaxPendingTurnBytes k = gs_MaxPendingTurnBytes c
      \<and> MaxPendingRecords k = gs_MaxPendingRecords c \<and> MaxPendingAggregateBytes k = gs_MaxPendingAggregateBytes c
      \<and> MaxActiveRequests k = gs_MaxActiveRequests c
      \<and> cc_MaxBytesPerRecord store = gs_MaxPendingTurnBytes c \<and> cc_MaxRecords store = gs_MaxPendingRecords c
      \<and> cc_MaxAggregateBytes store = gs_MaxPendingAggregateBytes c)"

lemma client_made:
  assumes "endpointURL (cf_net (ae_lib env)) raw = Inr u" "raw \<noteq> []" "validCredential (gs_apiKey c)" "ValidateModel m = None"
    "list_all (\<lambda>(value, _). 0 < value) (positive_settings c)" "validHeaderValue (buildUserAgent metadata) 256" "buildUserAgent metadata \<noteq> []"
  shows "\<exists>client. NewClient (cf_net (ae_lib env)) (ae_newDefaultHTTPClient env) (client_config c metadata raw m) = Inr client
    \<and> client_runs env c raw m client"
proof -
  have "m \<noteq> []" by (rule model_nonempty [OF assms(4)])
  moreover have "0 < gs_UpstreamConnectTimeout c" "0 < gs_TLSHandshakeTimeout c" "0 < gs_ResponseHeaderTimeout c"
    using assms(5) by (simp_all add: positive_settings_def)
  ultimately show ?thesis
    using assms(1-4,6,7)
    by (simp add: NewClient_def client_config_def or_text_def or_default_def ValidateModel_def DefaultMaxRequestBodyBytes_def client_runs_def)
qed

lemma start_gateway_Inr:
  assumes "start_gateway env c metadata = Inr s"
  obtains go zen where "Validate (ae_lib env) c = None"
    "NewClient (cf_net (ae_lib env)) (ae_newDefaultHTTPClient env) (client_config c metadata (gs_BaseURL c) (gs_Model c)) = Inr go"
    "NewClient (cf_net (ae_lib env)) (ae_newDefaultHTTPClient env) (client_config c metadata (gs_ZenBaseURL c) (gs_ZenModel c)) = Inr zen"
    "New (ae_resolve env) (ae_listen env) (server_config c (upstream_of env go) (upstream_of env zen)) = Inr s"
  using assms by (auto simp: start_gateway_def split: option.splits sum.splits)

lemma settings_start:
  assumes v: "Validate (ae_lib env) c = None" and "validCredential (gs_apiKey c)"
    and "clean_path (cf_net (ae_lib env)) (gs_BaseURL c)" "clean_path (cf_net (ae_lib env)) (gs_ZenBaseURL c)"
    and "gs_BaseURL c \<noteq> []" "gs_ZenBaseURL c \<noteq> []"
    and "ae_resolve env (config_ListenAddr c) = Some address" "gs_AllowNonLoopback c \<or> ta_Loopback address = Some True" "ae_listen env address"
  shows "\<exists>s go zen. start_gateway env c metadata = Inr s \<and> sv_ready s \<and> sv_activeRequests s = [] \<and> server_runs c s
    \<and> sv_upstream s = upstream_of env go \<and> client_runs env c (gs_BaseURL c) (gs_Model c) go
    \<and> sv_zenUpstream s = upstream_of env zen \<and> client_runs env c (gs_ZenBaseURL c) (gs_ZenModel c) zen"
proof -
  note f = Validate_facts [OF v]
  note ua = user_agent_header [of metadata]
  obtain u u' where u: "endpointURL (cf_net (ae_lib env)) (gs_BaseURL c) = Inr u" "endpointURL (cf_net (ae_lib env)) (gs_ZenBaseURL c) = Inr u'"
    using base_url_endpoint [OF f(1) assms(3)] base_url_endpoint [OF f(2) assms(4)] by blast
  from client_made [OF u(1) assms(5,2) f(3,5) conjunct1 [OF ua] conjunct2 [OF ua]] obtain go where go:
      "NewClient (cf_net (ae_lib env)) (ae_newDefaultHTTPClient env) (client_config c metadata (gs_BaseURL c) (gs_Model c)) = Inr go"
      "client_runs env c (gs_BaseURL c) (gs_Model c) go" by metis
  from client_made [OF u(2) assms(6,2) f(4,5) conjunct1 [OF ua] conjunct2 [OF ua]] obtain zen where zen:
      "NewClient (cf_net (ae_lib env)) (ae_newDefaultHTTPClient env) (client_config c metadata (gs_ZenBaseURL c) (gs_ZenModel c)) = Inr zen"
      "client_runs env c (gs_ZenBaseURL c) (gs_ZenModel c) zen" by metis
  define sc where "sc = server_config c (upstream_of env go) (upstream_of env zen)"
  have models: "gs_Model c \<noteq> []" "gs_ZenModel c \<noteq> []" using f(3,4) model_nonempty by blast+
  note d = server_defaults_keep [OF f(5,7,9,10) models, where go = "upstream_of env go" and zen = "upstream_of env zen", folded sc_def]
  note ch = server_config_checked [OF f(5-10), where go = "upstream_of env go" and zen = "upstream_of env zen", folded sc_def]
  have "0 < gs_MaxPendingRecords c" using f(5) by (simp add: positive_settings_def)
  from server_store_made [OF f(9) this f(10)] obtain store where store:
      "NewContinuationStore (no_store_config\<lparr>cc_MaxBytesPerRecord := gs_MaxPendingTurnBytes c, cc_MaxRecords := gs_MaxPendingRecords c,
        cc_MaxAggregateBytes := gs_MaxPendingAggregateBytes c\<rparr>) = Inr store"
      "cc_MaxRecords (cs_config store) = gs_MaxPendingRecords c \<and> cc_MaxBytesPerRecord (cs_config store) = gs_MaxPendingTurnBytes c
        \<and> cc_MaxAggregateBytes (cs_config store) = gs_MaxPendingAggregateBytes c" by blast
  define sd where "sd = server_withDefaults sc"
  note sd = d [folded sd_def]
  have sel: "ListenAddr sd = config_ListenAddr c" "AllowNonLoopback sd = gs_AllowNonLoopback c" "cfg_ContinuationStore sd = None"
      "cfg_Upstream sd = Some (upstream_of env go)" "cfg_ZenUpstream sd = Some (upstream_of env zen)"
    by (simp_all add: sd) (simp_all add: sc_def server_config_def)
  have checked: "check_config sd = None" unfolding sd by (rule ch)
  have made: "NewContinuationStore (cfg_ContinuationStoreConfig sd) = Inr store" using store(1) by (simp add: sd)
  have addr: "resolveListenAddress (ae_resolve env) (config_ListenAddr c) (gs_AllowNonLoopback c) = Inr address"
    using assms(7,8) by (auto simp: resolveListenAddress_def)
  have "\<exists>s. New (ae_resolve env) (ae_listen env) sc = Inr s \<and> sv_ready s \<and> sv_activeRequests s = [] \<and> sv_config s = sd
      \<and> sv_upstream s = upstream_of env go \<and> sv_zenUpstream s = upstream_of env zen \<and> sv_continuations s = store"
    unfolding New_def Let_def sd_def [symmetric] using assms(9) by (simp add: sel addr checked made)
  then obtain s where s: "New (ae_resolve env) (ae_listen env) sc = Inr s" "sv_ready s" "sv_activeRequests s = []" "sv_config s = sd"
      "sv_upstream s = upstream_of env go" "sv_zenUpstream s = upstream_of env zen" "sv_continuations s = store" by blast
  have "start_gateway env c metadata = Inr s" using s(1) by (simp add: start_gateway_def v go(1) zen(1) sc_def)
  moreover have "server_runs c s"
    using store(2) by (simp add: server_runs_def Let_def s(4,7) sd sc_def server_config_def config_ListenAddr_def)
  ultimately show ?thesis using s(2,3,5,6) go(2) zen(2) by blast
qed
















lemma New_upstreams:
  assumes "New resolve listen config = Inr s"
  shows "sv_upstream s = (case cfg_Upstream config of None \<Rightarrow> notConfiguredUpstream | Some u \<Rightarrow> u)
    \<and> sv_zenUpstream s = (case cfg_ZenUpstream config of None \<Rightarrow> notConfiguredUpstream | Some u \<Rightarrow> u)"
proof -
  have keep: "cfg_Upstream (server_withDefaults config) = cfg_Upstream config" "cfg_ZenUpstream (server_withDefaults config) = cfg_ZenUpstream config"
    by (simp_all add: server_withDefaults_def Let_def)
  show ?thesis using assms unfolding New_def Let_def by (auto simp: keep split: sum.splits option.splits if_splits)
qed

text \<open>
  C10: A gateway that was started sends its credential over TLS only: both clients have an https endpoint, whatever the
  settings are, although a client by itself would accept plain http to the loopback interface.
\<close>

theorem gateway_uses_tls:
  assumes "start_gateway env c metadata = Inr s" "gs_BaseURL c \<noteq> []" "gs_ZenBaseURL c \<noteq> []"
  shows "\<exists>go zen. sv_upstream s = upstream_of env go \<and> u_Scheme (oc_endpoint go) = ''https'' \<and> oc_apiKey go = gs_apiKey c
    \<and> sv_zenUpstream s = upstream_of env zen \<and> u_Scheme (oc_endpoint zen) = ''https'' \<and> oc_apiKey zen = gs_apiKey c"
proof -
  have https: "u_Scheme u = ''https''" if "validBaseURL (ae_lib env) raw" "endpointURL (cf_net (ae_lib env)) raw = Inr u" for raw u
    using that by (auto simp: validBaseURL_def endpointURL_def Let_def split: option.splits if_splits)
  from assms(1) show ?thesis
  proof (rule start_gateway_Inr)
    fix go zen
    assume v: "Validate (ae_lib env) c = None"
      and go: "NewClient (cf_net (ae_lib env)) (ae_newDefaultHTTPClient env) (client_config c metadata (gs_BaseURL c) (gs_Model c)) = Inr go"
      and zen: "NewClient (cf_net (ae_lib env)) (ae_newDefaultHTTPClient env) (client_config c metadata (gs_ZenBaseURL c) (gs_ZenModel c)) = Inr zen"
      and new: "New (ae_resolve env) (ae_listen env) (server_config c (upstream_of env go) (upstream_of env zen)) = Inr s"
    have "u_Scheme (oc_endpoint go) = ''https''"
      using NewClient_ok(1) [OF go] https [OF Validate_facts(1) [OF v]] assms(2) by (simp add: client_config_def or_text_def)
    moreover have "u_Scheme (oc_endpoint zen) = ''https''"
      using NewClient_ok(1) [OF zen] https [OF Validate_facts(2) [OF v]] assms(3) by (simp add: client_config_def or_text_def)
    moreover have "oc_apiKey go = gs_apiKey c" "oc_apiKey zen = gs_apiKey c"
      using NewClient_ok(3) [OF go] NewClient_ok(3) [OF zen] by (simp_all add: client_config_def)
    moreover have "sv_upstream s = upstream_of env go" "sv_zenUpstream s = upstream_of env zen"
      using New_upstreams [OF new] by (simp_all add: server_config_def)
    ultimately show ?thesis by blast
  qed
qed


section \<open>A start with the defaults\<close>


definition sample_library :: config_library where
  "sample_library = \<lparr>cf_net = sample_net\<lparr>ip_IsLoopback := (\<lambda>host. if host = ''127.0.0.1'' then Some True else None)\<rparr>,
     cf_ParseDuration = (\<lambda>_. None), cf_LookupIP = (\<lambda>_. None)\<rparr>"

definition sample_app :: "unit app_env" where
  "sample_app = \<lparr>ae_lib = sample_library, ae_newDefaultHTTPClient = (\<lambda>_ _ _. streaming_transport), ae_client = sample_client_env,
     ae_resolve = (\<lambda>_. Some \<lparr>ta_Loopback = Some True\<rparr>), ae_listen = (\<lambda>_. True)\<rparr>"

definition sample_settings :: settings where
  "sample_settings = Defaults\<lparr>gs_apiKey := ''sk-1'', gs_MaxActiveRequests := 8\<rparr>"


lemma sample_base_urls:
  "validBaseURL sample_library DefaultBaseURL" "validBaseURL sample_library DefaultZenBaseURL"
  "clean_path (cf_net sample_library) DefaultBaseURL" "clean_path (cf_net sample_library) DefaultZenBaseURL"
  by code_simp+

lemma sample_valid: "Validate sample_library sample_settings = None"
proof -
  have 1: "TrimSpace ''sk-1'' \<noteq> []" "TrimSpace DefaultHost \<noteq> []" by code_simp+
  have 2: "ValidateModel DefaultModel = None" "ValidateModel DeepSeekV4FlashFreeModel = None" by code_simp+
  have 3: "config_isLoopbackHost sample_library DefaultHost" by code_simp
  show ?thesis
    unfolding Validate_None
    by (simp add: setting_checks_def sample_settings_def Defaults_def positive_settings_def 1 2 3 sample_base_urls DefaultPort_def config_second_def
        DefaultMaxProviderTools_def DefaultMaxFunctionSchemaBytes_def DefaultMaxCollectionItems_def)
qed


lemma sample_started:
  "\<exists>s. start_gateway sample_app sample_settings metadata = Inr s"
proof -
  have "Validate (ae_lib sample_app) sample_settings = None" using sample_valid by (simp add: sample_app_def)
  moreover have "validCredential (gs_apiKey sample_settings)" by code_simp
  moreover have "clean_path (cf_net (ae_lib sample_app)) (gs_BaseURL sample_settings)" "clean_path (cf_net (ae_lib sample_app)) (gs_ZenBaseURL sample_settings)"
    using sample_base_urls by (simp_all add: sample_app_def sample_settings_def Defaults_def)
  moreover have "gs_BaseURL sample_settings \<noteq> []" "gs_ZenBaseURL sample_settings \<noteq> []"
    by (simp_all add: sample_settings_def Defaults_def DefaultBaseURL_def DefaultZenBaseURL_def)
  ultimately show ?thesis
    using settings_start [of sample_app sample_settings "\<lparr>ta_Loopback = Some True\<rparr>" metadata] by (simp add: sample_app_def) blast
qed


theorem gateway_uses_tls_witness:
  "\<exists>s go. start_gateway sample_app sample_settings \<lparr>bm_Version = [], bm_Commit = [], bm_BuildDate = []\<rparr> = Inr s
    \<and> sv_upstream s = upstream_of sample_app go \<and> u_Scheme (oc_endpoint go) = ''https''"
proof -
  have base: "gs_BaseURL sample_settings = DefaultBaseURL" "gs_ZenBaseURL sample_settings = DefaultZenBaseURL"
    by (simp_all add: sample_settings_def Defaults_def)
  have ne: "gs_BaseURL sample_settings \<noteq> []" "gs_ZenBaseURL sample_settings \<noteq> []" by (simp_all add: base DefaultBaseURL_def DefaultZenBaseURL_def)
  obtain s where s: "start_gateway sample_app sample_settings \<lparr>bm_Version = [], bm_Commit = [], bm_BuildDate = []\<rparr> = Inr s"
    using sample_started by blast
  from gateway_uses_tls [OF s ne] s show ?thesis by blast
qed

end
