(* ===== verification/Spec2Isabelle.thy ===== *)
theory Spec2Isabelle
  imports SSE Custom_Tool Tool_Results Continuation_Inv Provider_Bounds Session_Samples Map_Props Map_Replay Codex_Contract
    Server_Shutdown Server_Tool_Run Gateway_App
begin

text \<open>
  A model of the OpenCode Go gateway, a server that accepts Codex Responses requests, sends them to a Chat
  Completions provider, and writes the provider's stream back as a Responses stream. Paths are relative to
  \<open>src/internal\<close>.

  \<^bold>\<open>The program and its theories.\<close>
  A request goes through the parts in this order; each group of theories has first the definitions and then, in
  theories of their own, what is proved of them.

  \<^item> Codex request boundary (\<open>codex/request.go\<close>, \<open>schema.go\<close>, \<open>errors.go\<close>). \<open>Go_Json\<close> is the grammar, the decoding and
    the quoting of \<open>encoding/json\<close>; \<open>Codex_Json\<close> reads raw messages and runs the structural pass over the tokens;
    \<open>Codex_Schema\<close> has the field readers and the schema checks; \<open>Codex_Request\<close> the decoder (\<open>Decode\<close>). \<open>Codex_Structure\<close>
    compares the structural pass with the parser, \<open>Codex_Props\<close> shows what a decoded request is, \<open>Codex_Document\<close> that
    the raw text of a field is the text of the member, \<open>Codex_Contract\<close> has the properties.
  \<^item> Bridge (\<open>bridge/\<close>). \<open>Bridge\<close>: limits, the request and input unions, the stream events, the tool registry.
  \<^item> Request mapping (\<open>opencodego/request.go\<close>, \<open>types.go\<close>, \<open>custom_tool.go\<close>, \<open>tool_budget.go\<close>, \<open>deferred_tools.go\<close>,
    \<open>tool_results.go\<close>). \<open>Custom_Tool\<close>: the wrapper of the custom tool and the tool budget; \<open>Tool_Results\<close>: the
    translation of calls and results; \<open>Map_Request\<close>: \<open>MapRequestWithThinking\<close>. \<open>Map_Props\<close> and \<open>Map_Replay\<close> show the order and
    the shape of the messages and how a stored turn is replayed.
  \<^item> Continuation store (\<open>opencodego/continuation.go\<close>). \<open>Continuation\<close>: the store, its records and leases, one operation per
    method. \<open>Continuation_Inv\<close> has the invariant, the state machine of store and leases and its properties;
    \<open>Continuation_Live\<close> what an operation leaves of a live record.
  \<^item> Provider stream (\<open>opencodego/sse.go\<close>, \<open>stream.go\<close>). \<open>SSE\<close>: the decoder of Server-Sent Events, byte by byte, with its
    properties; \<open>Provider_Stream\<close>: the bridge decoder. \<open>Provider_Stream_Inv\<close> shows the order of its events and that it
    ends, \<open>Provider_Turn\<close> what a turn with tool calls delivers, \<open>Provider_Bounds\<close> what the decoder holds at most.
  \<^item> Responses stream (\<open>codex/stream.go\<close>). \<open>Stream_Session\<close>: the session that writes the frames. \<open>Stream_Session_Inv\<close>:
    numbering, nesting and the one terminal event; \<open>Session_Bounds\<close>: its budgets; \<open>Session_Ends\<close>: what an error leaves;
    \<open>Session_Samples\<close>: runs.
  \<^item> Server (\<open>server/\<close>). \<open>Server_Errors\<close>: provider errors, their normalisation, the taxonomy and the error replies over the
    status writer; \<open>Server_Lifecycle\<close>: configuration, construction, admission, shutdown; \<open>Server_Responses\<close> and
    \<open>Server_Handler\<close>: \<open>handleResponses\<close>, which composes all of the above, the health handlers and the routes.
    \<open>Server_Shutdown\<close>: admission and shutdown as interleaved steps, up to the end of the grace period; \<open>Server_Replies\<close>: what an error reply can tell;
    \<open>Server_Props\<close>, \<open>Server_Continuations\<close> and \<open>Server_Turns\<close>: the handler as a whole, with the store; \<open>Server_Samples\<close> and
    \<open>Server_Tool_Run\<close>: runs of the whole handler, which are the witnesses.

  \<^item> Provider client (\<open>opencodego/client.go\<close>, \<open>types.go\<close>). \<open>Wire_Json\<close> writes a request as \<open>json.Marshal\<close> does; \<open>Wire_Compact\<close>
    and \<open>Wire_Read\<close> show that what is written reads back; \<open>Client\<close>: the construction of a client, its request and the
    classification of the answer; \<open>Client_Props\<close>: where the credential goes and what the handler gets.
  \<^item> Configuration and wiring (\<open>config/config.go\<close>, \<open>app/app.go\<close>). \<open>Gateway_Config\<close>: the settings, read from environment
    variables and validated; \<open>Gateway_App\<close>: the clients and the server that are built from them.

  \<open>Go_Prelude\<close> has the shared vocabulary: Go strings as byte lists, results with the state they leave, loops that stop
  at an error, Go maps, and the locales of the development's interfaces (a map, a byte budget, an invariant of a
  step relation), each interpreted on the components that provide it.

  \<^bold>\<open>How state and effects are represented.\<close>
  A struct is a record with the code's fields, a method an operation that returns its result and the new
  record; an error return keeps what had been written before it. What the code asks of its environment is an
  answer: \<open>StreamEnv\<close> gives the answers of the writer, the context, the clock and the identifier generator of a
  session, \<open>sw_context\<close> and \<open>sw_take\<close> those of the request's context and connection, \<open>handler_env\<close> the rest of a handler
  run: the reason of the watcher goroutine, the clock, the order in which a Go map is ranged over. A theorem that
  leaves the environment open holds for every behaviour of it.
  Methods that hold a mutex are atomic. Requests and shutdown interleave at the granularity of these methods
  (\<open>server_step\<close> of \<open>Server_Shutdown\<close>, the store machine of \<open>Continuation_Inv\<close>); the handler is sequential, and what other
  requests do to the store in between is an argument of it.

  \<^bold>\<open>Bounds and fuel.\<close>
  The JSON parser recurses with fuel: \<open>fuel_for\<close> gives two units per byte and three more, and \<open>parse_fuel\<close> shows that more
  fuel changes nothing, since every step of the parser consumes a byte. Its nesting limit is Go's own 10000
  (\<open>max_nesting\<close>). The loops of the SSE decoder, the bridge decoder and the handler are well-founded recursions: the
  first over the bytes of the stream, the second over the chunk source, the third over the byte budget of the bridge
  decoder, as every event it delivers takes at least 64 bytes of it (\<open>handler_returns\<close>). Counters are \<open>int\<close>: the code guards
  them by comparisons that cannot overflow, and the bounds theorems show that they stay within their limits.
  Request identifiers are taken modulo 2 to the 64, as the atomic counter has them.

  \<^bold>\<open>Not modelled.\<close>
  The texts of Go errors, which are constants for people; the answers of \<open>mime.ParseMediaType\<close>, \<open>http.ParseTime\<close> and
  \<open>net.ResolveTCPAddr\<close>, which are arguments; the HTTP server, the network and TLS, connection deadlines and the closing of
  bodies, which have no effect in the model; logging. A status line that was refused because the client had gone is
  not told from one that was sent when the session starts (\<open>adopt_session\<close>). The JSON decoding of one provider chunk is the
  answer of the chunk source.
  The diagnostic texts of the settings and the redaction of log attributes; the inside of the default HTTP client,
  which is a function of its three timeouts. \<open>url.Parse\<close>, \<open>URL.String\<close>, \<open>net.ParseIP\<close>, \<open>net.LookupIP\<close> and \<open>time.ParseDuration\<close> are arguments.
  The command line, the capture tool, the installation of the Codex configuration and the credential store are
  outside of this development: they are I/O around the files and the terminal of the machine.
\<close>

end
